(* ===== verification/Prelude.thy ===== *)
theory Prelude
  imports Main "HOL-Library.Word"
begin

text \<open>
  Shared vocabulary of the development: the machine integer types, the outcome of a Rust
  function (\<open>Ok\<close>, \<open>Err\<close>, a panic, or a loop that the fuel of the model does not reach
  the end of), actions on a mutable state, big and little endian encodings, and the
  collections of rewrite rules that the component theories extend.
\<close>

section \<open>Machine integers\<close>

type_synonym u8 = "8 word"
type_synonym u16 = "16 word"
type_synonym u32 = "32 word"
type_synonym u64 = "64 word"

text \<open>A signed field has the same bits as the unsigned one; \<open>sint\<close> reads it.\<close>

type_synonym i8 = "8 word"
type_synonym i16 = "16 word"
type_synonym i32 = "32 word"

type_synonym bytes = "u8 list"

section \<open>Outcomes and actions\<close>

text \<open>
  \<open>Panic\<close> is a Rust panic: an index or a slice out of range, an \<open>unwrap\<close> of a missing value,
  an arithmetic overflow in a build with overflow checks. \<open>Loop\<close> is returned only when the
  fuel of a definition runs out, and stands for a run that has not ended.
\<close>

datatype ('e, 'a) res = Ok 'a | Err 'e | Panic | Loop

text \<open>
  An action runs on a state and returns an outcome together with the state it leaves: an
  \<open>Err\<close> keeps the mutations made before it, as \<open>&mut self\<close> does in the source.
\<close>

type_synonym ('s, 'e, 'a) act = "'s \<Rightarrow> ('e, 'a) res \<times> 's"

definition ret :: "'a \<Rightarrow> ('s, 'e, 'a) act" where
  "ret a = (\<lambda>s. (Ok a, s))"

definition fail :: "'e \<Rightarrow> ('s, 'e, 'a) act" where
  "fail e = (\<lambda>s. (Err e, s))"

definition panic :: "('s, 'e, 'a) act" where
  "panic = (\<lambda>s. (Panic, s))"

text \<open>The fuel of a loop ran out.\<close>

definition spin :: "('s, 'e, 'a) act" where
  "spin = (\<lambda>s. (Loop, s))"

text \<open>A computation that does not touch the state.\<close>

definition pure_res :: "('e, 'a) res \<Rightarrow> ('s, 'e, 'a) act" where
  "pure_res r = (\<lambda>s. (r, s))"

text \<open>Sequencing, the \<open>?\<close> operator: anything but \<open>Ok\<close> ends the computation.\<close>

definition bnd :: "('s, 'e, 'a) act \<Rightarrow> ('a \<Rightarrow> ('s, 'e, 'b) act) \<Rightarrow> ('s, 'e, 'b) act" where
  "bnd m f = (\<lambda>s. case m s of
     (Ok a, s') \<Rightarrow> f a s'
   | (Err e, s') \<Rightarrow> (Err e, s')
   | (Panic, s') \<Rightarrow> (Panic, s')
   | (Loop, s') \<Rightarrow> (Loop, s'))"

text \<open>\<open>for _ in 0..n { v.push(m?) }\<close>.\<close>

fun times_act :: "nat \<Rightarrow> ('s, 'e, 'a) act \<Rightarrow> ('s, 'e, 'a list) act" where
  "times_act 0 m = ret []"
| "times_act (Suc n) m = bnd m (\<lambda>x. bnd (times_act n m) (\<lambda>xs. ret (x # xs)))"

text \<open>\<open>for x in xs { f(x)? }\<close>.\<close>

fun each_act :: "('x \<Rightarrow> ('s, 'e, unit) act) \<Rightarrow> 'x list \<Rightarrow> ('s, 'e, unit) act" where
  "each_act f [] = ret ()"
| "each_act f (x # xs) = bnd (f x) (\<lambda>_. each_act f xs)"

text \<open>\<open>for x in xs { v.push(f(x)?) }\<close>.\<close>

fun map_act :: "('x \<Rightarrow> ('s, 'e, 'a) act) \<Rightarrow> 'x list \<Rightarrow> ('s, 'e, 'a list) act" where
  "map_act f [] = ret []"
| "map_act f (x # xs) = bnd (f x) (\<lambda>y. bnd (map_act f xs) (\<lambda>ys. ret (y # ys)))"

named_theorems act_simps \<open>running one step of an action\<close>
named_theorems reads_rules \<open>what each parser reads\<close>
named_theorems writes_rules \<open>what each writer appends\<close>
named_theorems layout_simps \<open>lengths of on-disk encodings\<close>

lemma ret_run [act_simps]: "ret a s = (Ok a, s)"
  by (simp add: ret_def)

lemma fail_run [act_simps]: "fail e s = (Err e, s)"
  by (simp add: fail_def)

lemma panic_run [act_simps]: "panic s = (Panic, s)"
  by (simp add: panic_def)

lemma spin_run [act_simps]: "spin s = (Loop, s)"
  by (simp add: spin_def)

lemma pure_res_simps [simp]:
  "pure_res (Ok a) = ret a"
  "pure_res (Err e) = fail e"
  "pure_res Panic = panic"
  "pure_res Loop = spin"
  by (simp_all add: pure_res_def ret_def fail_def panic_def spin_def)

lemma bnd_Ok [act_simps]: "m s = (Ok a, s') \<Longrightarrow> bnd m f s = f a s'"
  by (simp add: bnd_def)

lemma bnd_Err [act_simps]: "m s = (Err e, s') \<Longrightarrow> bnd m f s = (Err e, s')"
  by (simp add: bnd_def)

lemma bnd_Panic [act_simps]: "m s = (Panic, s') \<Longrightarrow> bnd m f s = (Panic, s')"
  by (simp add: bnd_def)

lemma bnd_ret [simp]: "bnd (ret a) f = f a"
  by (simp add: bnd_def ret_def fun_eq_iff)

lemma bnd_Pair [simp]:
  "bnd (Pair (Ok a)) f = f a"
  "bnd (Pair (Err e)) f = Pair (Err e)"
  "bnd (Pair Panic) f = Pair Panic"
  "bnd (Pair Loop) f = Pair Loop"
  by (simp_all add: bnd_def fun_eq_iff)

lemma bnd_fail [simp]: "bnd (fail e) f = fail e"
  by (simp add: bnd_def fail_def fun_eq_iff)

lemma bnd_panic [simp]: "bnd panic f = panic"
  by (simp add: bnd_def panic_def fun_eq_iff)

lemma bnd_spin [simp]: "bnd spin f = spin"
  by (simp add: bnd_def spin_def fun_eq_iff)

lemma map_act_ret: "(\<And>x. x \<in> set xs \<Longrightarrow> f x = ret (g x)) \<Longrightarrow> map_act f xs = ret (map g xs)"
  by (induction xs) simp_all

lemma bnd_assoc: "bnd (bnd m f) g = bnd m (\<lambda>x. bnd (f x) g)"
  by (simp add: bnd_def fun_eq_iff split: res.splits prod.splits)

lemma bnd_eq_Ok:
  "bnd m f s = (Ok b, t) \<longleftrightarrow> (\<exists>a s'. m s = (Ok a, s') \<and> f a s' = (Ok b, t))"
  by (auto simp: bnd_def split: res.splits prod.splits)

section \<open>Byte orders\<close>

text \<open>
  \<open>to_le_bytes\<close>, \<open>to_be_bytes\<close> and their inverses of the Rust integer types. An encoding is the
  list of the base 256 digits of the value, least significant digit first in \<open>to_le\<close>.
\<close>

definition to_le :: "'w::len word \<Rightarrow> bytes" where
  "to_le w = map (\<lambda>i. ucast (drop_bit (8 * i) w)) [0..<LENGTH('w) div 8]"

definition to_be :: "'w::len word \<Rightarrow> bytes" where
  "to_be w = rev (to_le w)"

fun le_nat :: "bytes \<Rightarrow> nat" where
  "le_nat [] = 0"
| "le_nat (b # bs) = unat b + 256 * le_nat bs"

definition from_le :: "bytes \<Rightarrow> 'w::len word" where
  "from_le bs = word_of_nat (le_nat bs)"

definition from_be :: "bytes \<Rightarrow> 'w::len word" where
  "from_be bs = from_le (rev bs)"

lemma unat_digit:
  "unat (ucast (drop_bit (8 * i) w) :: u8) = (unat (w :: 'w::len word) div 256 ^ i) mod 256"
  by (simp add: unsigned_ucast_eq unat_drop_bit_eq take_bit_eq_mod
      drop_bit_eq_div [where 'a = nat] power_mult)

lemma le_nat_digits:
  "le_nat (map (\<lambda>i. ucast (drop_bit (8 * i) (w :: 'w::len word))) [k..<k + n])
   = (unat w div 256 ^ k) mod 256 ^ n"
proof (induction n arbitrary: k)
  case 0
  show ?case by simp
next
  case (Suc n)
  have upt: "[k..<k + Suc n] = k # [Suc k..<Suc k + n]"
    by (simp add: upt_conv_Cons)
  have shift: "unat w div 256 ^ Suc k = unat w div 256 ^ k div 256"
    by (metis div_mult2_eq power_Suc2)
  have "a mod 256 + 256 * (a div 256 mod 256 ^ n) = a mod 256 ^ Suc n" for a :: nat
    by (simp add: mod_mult2_eq)
  with Suc [of "Suc k"] show ?case
    by (simp only: upt list.map le_nat.simps unat_digit shift)
qed

lemma from_le_to_le:
  assumes "8 dvd LENGTH('w::len)"
  shows "from_le (to_le w) = (w :: 'w word)"
proof -
  obtain k where k: "LENGTH('w) = 8 * k" using assms ..
  have "(256::nat) ^ k = 2 ^ LENGTH('w)" by (simp add: k power_mult)
  moreover have "unat w < 2 ^ LENGTH('w)" by (rule unsigned_less)
  ultimately have "le_nat (to_le w) = unat w"
    using le_nat_digits [of w 0 k] by (simp add: to_le_def k)
  then show ?thesis by (simp add: from_le_def)
qed

lemma from_be_to_be:
  "8 dvd LENGTH('w::len) \<Longrightarrow> from_be (to_be w) = (w :: 'w word)"
  by (simp add: from_be_def to_be_def from_le_to_le)

lemma length_to_le: "length (to_le (w :: 'w::len word)) = LENGTH('w) div 8"
  by (simp add: to_le_def)

lemma length_to_be: "length (to_be (w :: 'w::len word)) = LENGTH('w) div 8"
  by (simp add: to_be_def length_to_le)

lemma from_be_8 [simp]: "from_be [b] = (b :: u8)"
  by (simp add: from_be_def from_le_def)

lemma le_nat_less: "le_nat bs < 256 ^ length bs"
proof (induction bs)
  case (Cons b bs)
  have "unat b < 256" using unsigned_less [of b] by simp
  with Cons show ?case by simp
qed simp

lemma length_to_be_8 [simp, layout_simps]: "length (to_be (w :: u8)) = 1"
  by (simp add: length_to_be)

lemma length_to_be_16 [simp, layout_simps]: "length (to_be (w :: u16)) = 2"
  by (simp add: length_to_be)

lemma length_to_be_32 [simp, layout_simps]: "length (to_be (w :: u32)) = 4"
  by (simp add: length_to_be)

lemma length_to_be_64 [simp, layout_simps]: "length (to_be (w :: u64)) = 8"
  by (simp add: length_to_be)

lemma length_to_le_32 [simp, layout_simps]: "length (to_le (w :: u32)) = 4"
  by (simp add: length_to_le)

section \<open>Sixty-four bit quantities kept as numbers\<close>

text \<open>
  Offsets, lengths and positions (\<open>u64\<close>, \<open>usize\<close>) are natural numbers with the width written
  out: \<open>checked64\<close> is the overflow check of an addition or a product, \<open>as_i64\<close> and \<open>as_u64\<close>
  are the \<open>as\<close> casts, \<open>add_i64\<close> is a checked signed addition.
\<close>

definition checked64 :: "nat \<Rightarrow> ('s, 'e, nat) act" where
  "checked64 n = (if n < 2 ^ 64 then ret n else panic)"

definition as_i64 :: "nat \<Rightarrow> int" where
  "as_i64 n = (let m = n mod 2 ^ 64 in if m < 2 ^ 63 then int m else int m - 2 ^ 64)"

definition as_u64 :: "int \<Rightarrow> nat" where
  "as_u64 i = nat (i mod 2 ^ 64)"

definition add_i64 :: "int \<Rightarrow> int \<Rightarrow> ('s, 'e, int) act" where
  "add_i64 a b = (if - (2 ^ 63) \<le> a + b \<and> a + b < 2 ^ 63 then ret (a + b) else panic)"

lemma checked64_ok [simp]: "n < 2 ^ 64 \<Longrightarrow> checked64 n = ret n"
  by (simp add: checked64_def)

lemma as_i64_small [simp]: "n < 2 ^ 63 \<Longrightarrow> as_i64 n = int n"
  by (simp add: as_i64_def)

lemma as_u64_small [simp]: "n < 2 ^ 64 \<Longrightarrow> as_u64 (int n) = n"
  by (simp add: as_u64_def zmod_trivial_iff nat_mod_distrib)

lemma as_u64_as_i64: "n < 2 ^ 64 \<Longrightarrow> as_u64 (as_i64 n) = n"
  by (auto simp: as_i64_def as_u64_def Let_def nat_mod_distrib)

section \<open>Parsers and what they accept\<close>

text \<open>
  \<open>nxt s bs\<close> says that \<open>bs\<close> are the next bytes a source in state \<open>s\<close> is sure to deliver.
  \<open>reads nxt p bs v\<close>: given those bytes, the parser \<open>p\<close> consumes exactly \<open>bs\<close> and returns \<open>v\<close>,
  whatever follows them.
\<close>

definition reads ::
  "('s \<Rightarrow> bytes \<Rightarrow> bool) \<Rightarrow> ('s, 'e, 'a) act \<Rightarrow> bytes \<Rightarrow> 'a \<Rightarrow> bool" where
  "reads nxt p bs v \<longleftrightarrow>
     (\<forall>s cs. nxt s (bs @ cs) \<longrightarrow> (\<exists>s'. p s = (Ok v, s') \<and> nxt s' cs))"

lemma readsD:
  "reads nxt p bs v \<Longrightarrow> nxt s (bs @ cs) \<Longrightarrow> \<exists>s'. p s = (Ok v, s') \<and> nxt s' cs"
  by (simp add: reads_def)

lemma reads_ret: "reads nxt (ret v) [] v"
  by (simp add: reads_def ret_def)

lemma reads_done [reads_rules]: "v = w \<Longrightarrow> reads nxt (ret w) [] v"
  by (simp add: reads_ret)

lemma reads_bnd [reads_rules]:
  assumes "reads nxt p bs a" and "reads nxt (f a) cs b"
  shows "reads nxt (bnd p f) (bs @ cs) b"
  unfolding reads_def
proof (intro allI impI)
  fix s ds
  assume "nxt s ((bs @ cs) @ ds)"
  then have "nxt s (bs @ cs @ ds)" by simp
  with assms(1) obtain s' where "p s = (Ok a, s')" and "nxt s' (cs @ ds)"
    by (blast dest: readsD)
  with assms(2) show "\<exists>s'. bnd p f s = (Ok b, s') \<and> nxt s' ds"
    by (auto simp: bnd_Ok dest: readsD)
qed

lemma reads_times:
  assumes "\<And>x. x \<in> set xs \<Longrightarrow> reads nxt m (enc x) x"
  shows "reads nxt (times_act (length xs) m) (concat (map enc xs)) xs"
  using assms
proof (induction xs)
  case Nil
  show ?case by (simp add: reads_ret)
next
  case (Cons x xs)
  have "reads nxt (times_act (length xs) m) (concat (map enc xs)) xs"
    using Cons by simp
  from reads_bnd [OF this, of "\<lambda>ys. ret (x # ys)" "[]" "x # xs"]
  have "reads nxt (bnd (times_act (length xs) m) (\<lambda>ys. ret (x # ys)))
     (concat (map enc xs)) (x # xs)"
    by (simp add: reads_ret)
  with Cons.prems [of x] show ?case
    by (auto intro: reads_bnd)
qed

lemma reads_map: "reads nxt p bs x \<Longrightarrow> y = g x \<Longrightarrow> reads nxt (bnd p (\<lambda>x. ret (g x))) bs y"
  using reads_bnd [of nxt p bs x "\<lambda>x. ret (g x)" "[]" y] by (simp add: reads_ret)

section \<open>Orderings\<close>

text \<open>\<open>core::cmp::Ordering\<close> and the comparison of the integer types.\<close>

datatype ordering = Less | Equal | Greater

definition cmp :: "'a::linorder \<Rightarrow> 'a \<Rightarrow> ordering" where
  "cmp a b = (if a < b then Less else if a = b then Equal else Greater)"

lemma cmp_simps [simp]:
  "cmp a b = Less \<longleftrightarrow> a < b"
  "cmp a b = Equal \<longleftrightarrow> a = b"
  "cmp a b = Greater \<longleftrightarrow> b < a"
  by (auto simp: cmp_def)

text \<open>
  What \<open>Ord\<close> promises to the containers that rely on it. Two keys may compare \<open>Equal\<close> without
  being the same value.
\<close>

locale key_order =
  fixes kcmp :: "'k \<Rightarrow> 'k \<Rightarrow> ordering"
  assumes kcmp_refl: "kcmp a a = Equal"
    and kcmp_flip: "kcmp a b = Less \<longleftrightarrow> kcmp b a = Greater"
    and kcmp_trans: "kcmp a b = Less \<Longrightarrow> kcmp b c = Less \<Longrightarrow> kcmp a c = Less"
    and kcmp_equal: "kcmp a b = Equal \<Longrightarrow> kcmp a c = kcmp b c"
begin

lemma kcmp_equal_sym: "kcmp a b = Equal \<Longrightarrow> kcmp b a = Equal"
  by (metis kcmp_equal kcmp_refl)

lemma kcmp_equal_right: "kcmp a b = Equal \<Longrightarrow> kcmp c a = kcmp c b"
  by (metis kcmp_equal kcmp_equal_sym kcmp_flip ordering.exhaust)

lemma kcmp_not_less_trans: "kcmp a b \<noteq> Less \<Longrightarrow> kcmp c b = Less \<Longrightarrow> kcmp c a = Less"
  by (metis kcmp_equal_right kcmp_flip kcmp_trans ordering.exhaust)

lemma kcmp_less_not_less_trans: "kcmp a b = Less \<Longrightarrow> kcmp c b \<noteq> Less \<Longrightarrow> kcmp a c = Less"
  by (metis kcmp_equal_right kcmp_flip kcmp_trans ordering.exhaust)

end

section \<open>Decimal numbers\<close>

text \<open>\<open>format!("{}", n)\<close>.\<close>

fun show_nat :: "nat \<Rightarrow> string" where
  "show_nat n =
     (if n < 10 then [char_of (48 + n)] else show_nat (n div 10) @ [char_of (48 + n mod 10)])"

declare show_nat.simps [simp del]

definition show_int :: "int \<Rightarrow> string" where
  "show_int i = (if i < 0 then ''-'' @ show_nat (nat (- i)) else show_nat (nat i))"

section \<open>Lists\<close>

lemma take_drop_append: "take n (drop k xs) @ take m (drop (k + n) xs) = take (n + m) (drop k xs)"
  by (metis add.commute drop_drop take_add)

lemma drop_eq_append: "drop k xs = ys @ zs \<Longrightarrow> drop (k + length ys) xs = zs"
  by (metis add.commute append_eq_conv_conj drop_drop)

lemma map_nth_eq_take_drop:
  "k + n \<le> length xs \<Longrightarrow> map (\<lambda>i. xs ! (k + i)) [0..<n] = take n (drop k xs)"
  by (rule nth_equalityI) (simp_all add: add.commute)

end
