(* ===== verification/Streams.thy ===== *)
theory Streams
  imports Prelude
begin

text \<open>
  Byte streams, for any type of errors: the loops that both \<open>std::io\<close> and the traits of the HFS+
  library build on a single read or write, and what a source, a random access device and a sink promise to them.
\<close>

datatype seek_from = Start nat | Current int | End int

section \<open>Loops\<close>

text \<open>
  \<open>read_exact\<close>: the argument is the number of bytes of \<open>buf\<close> still to be filled. A reader
  that claims more bytes than it was given room for makes the slice \<open>buf[n..]\<close> panic.
\<close>

function fill_exact :: "'e \<Rightarrow> (nat \<Rightarrow> ('s, 'e, bytes) act) \<Rightarrow> nat \<Rightarrow> ('s, 'e, bytes) act" where
  "fill_exact eof rd n =
     (if n = 0 then ret []
      else bnd (rd n) (\<lambda>bs.
        if bs = [] then fail eof
        else if n < length bs then panic
        else bnd (fill_exact eof rd (n - length bs)) (\<lambda>cs. ret (bs @ cs))))"
  by pat_completeness auto
termination
  by (relation "measure (\<lambda>(eof, rd, n). n)") auto

declare fill_exact.simps [simp del]

text \<open>\<open>write_all\<close>.\<close>

function drain :: "'e \<Rightarrow> (bytes \<Rightarrow> ('s, 'e, nat) act) \<Rightarrow> bytes \<Rightarrow> ('s, 'e, unit) act" where
  "drain full wr bs =
     (if bs = [] then ret ()
      else bnd (wr bs) (\<lambda>n.
        if n = 0 then fail full
        else if length bs < n then panic
        else drain full wr (drop n bs)))"
  by pat_completeness auto
termination
  by (relation "measure (\<lambda>(full, wr, bs). length bs)") auto

declare drain.simps [simp del]

section \<open>What a source of bytes promises\<close>

text \<open>
  A reader may return fewer bytes than asked for, as long as it makes progress; the
  loops turn that into exact reads.
\<close>

locale source =
  fixes rd :: "nat \<Rightarrow> ('s, 'e, bytes) act" and nxt :: "'s \<Rightarrow> bytes \<Rightarrow> bool"
  assumes rd_step: "nxt s bs \<Longrightarrow> 0 < n \<Longrightarrow> n \<le> length bs \<Longrightarrow>
    \<exists>k s'. 0 < k \<and> k \<le> n \<and> rd n s = (Ok (take k bs), s') \<and> nxt s' (drop k bs)"
begin

lemma fill_exact_next:
  "nxt s bs \<Longrightarrow> n \<le> length bs \<Longrightarrow>
   \<exists>s'. fill_exact eof rd n s = (Ok (take n bs), s') \<and> nxt s' (drop n bs)"
proof (induction n arbitrary: s bs rule: less_induct)
  case (less n)
  show ?case
  proof (cases "n = 0")
    case True
    with less.prems show ?thesis by (simp add: fill_exact.simps [of eof rd 0] ret_run)
  next
    case False
    with less.prems obtain k s' where k: "0 < k" "k \<le> n"
      and rd: "rd n s = (Ok (take k bs), s')" and nxt': "nxt s' (drop k bs)"
      using rd_step [of s bs n] by auto
    from k less.prems(2) False have "n - k < n" "n - k \<le> length (drop k bs)" by auto
    from less.IH [OF this(1) nxt' this(2)] obtain s'' where
      rec: "fill_exact eof rd (n - k) s' = (Ok (take (n - k) (drop k bs)), s'')"
      and nxt'': "nxt s'' (drop (n - k) (drop k bs))" by auto
    have len: "length (take k bs) = k" using k less.prems(2) by simp
    have app: "take k bs @ take (n - k) (drop k bs) = take n bs"
      using k by (metis le_add_diff_inverse take_add)
    have ne: "bs \<noteq> []" using less.prems(2) False by auto
    have "fill_exact eof rd n s = (Ok (take n bs), s'')"
      using False k rec ne len app less.prems(2)
      by (simp add: fill_exact.simps [of eof rd n] bnd_Ok [where m = "rd n", OF rd]
          bnd_Ok [where m = "fill_exact eof rd (n - k)", OF rec] ret_run min_def)
    then show ?thesis using nxt'' k by simp
  qed
qed

lemma reads_fill: "length bs = n \<Longrightarrow> reads nxt (fill_exact eof rd n) bs bs"
  unfolding reads_def
proof (intro allI impI)
  fix s cs
  assume "length bs = n" "nxt s (bs @ cs)"
  then show "\<exists>s'. fill_exact eof rd n s = (Ok bs, s') \<and> nxt s' cs"
    using fill_exact_next [of s "bs @ cs" n] by auto
qed

end

section \<open>What a random access device promises\<close>

text \<open>
  \<open>ready s p\<close>: the device in state \<open>s\<close> holds \<open>content\<close> and its position is \<open>p\<close>. Nothing is
  promised of a read that reaches over the end, and a read may be short.
\<close>

text \<open>The bytes ahead of the position; from there on a device is a source.\<close>

definition ahead :: "bytes \<Rightarrow> ('s \<Rightarrow> nat \<Rightarrow> bool) \<Rightarrow> 's \<Rightarrow> bytes \<Rightarrow> bool" where
  "ahead content ready s bs \<longleftrightarrow> (\<exists>p. ready s p \<and> p \<le> length content \<and> drop p content = bs)"

locale random_access =
  fixes rd :: "nat \<Rightarrow> ('s, 'e, bytes) act" and sk :: "seek_from \<Rightarrow> ('s, 'e, nat) act"
    and content :: bytes and ready :: "'s \<Rightarrow> nat \<Rightarrow> bool"
  assumes seek_start: "ready s p \<Longrightarrow> q \<le> length content \<Longrightarrow>
      \<exists>s'. sk (Start q) s = (Ok q, s') \<and> ready s' q"
    and read_some: "ready s p \<Longrightarrow> 0 < n \<Longrightarrow> p + n \<le> length content \<Longrightarrow>
      \<exists>k s'. 0 < k \<and> k \<le> n \<and> rd n s = (Ok (take k (drop p content)), s') \<and>
        ready s' (p + k)"
begin

lemma ahead_source: "source rd (ahead content ready)"
proof
  fix s bs n
  assume "ahead content ready s bs" "0 < n" "n \<le> length bs"
  then obtain p where p: "ready s p" "drop p content = bs" "p + n \<le> length content"
    by (auto simp: ahead_def)
  from read_some [OF p(1) \<open>0 < n\<close> p(3)] p(2) obtain k s' where
    k: "0 < k" "k \<le> n" "rd n s = (Ok (take k bs), s')" "ready s' (p + k)" by auto
  moreover have "drop (p + k) content = drop k bs" "p + k \<le> length content"
    using p(2,3) k(2) by (auto simp: add.commute simp flip: p(2))
  ultimately show "\<exists>k s'. 0 < k \<and> k \<le> n \<and> rd n s = (Ok (take k bs), s') \<and> ahead content ready s' (drop k bs)"
    unfolding ahead_def by blast
qed

lemma fill_exact_at:
  "ready s p \<Longrightarrow> p + n \<le> length content \<Longrightarrow>
   \<exists>s'. fill_exact eof rd n s = (Ok (take n (drop p content)), s') \<and> ready s' (p + n)"
proof (induction n arbitrary: s p rule: less_induct)
  case (less n)
  show ?case
  proof (cases "n = 0")
    case True
    with less.prems show ?thesis by (simp add: fill_exact.simps [of _ _ 0] ret_run)
  next
    case False
    with less.prems obtain k s' where k: "0 < k" "k \<le> n"
      and rd: "rd n s = (Ok (take k (drop p content)), s')" and ok: "ready s' (p + k)"
      using read_some [of s p n] by auto
    have "n - k < n" "p + k + (n - k) \<le> length content" using k False less.prems by auto
    from less.IH [OF this(1) ok this(2)] obtain s'' where
      rec: "fill_exact eof rd (n - k) s' = (Ok (take (n - k) (drop (p + k) content)), s'')"
      and ok'': "ready s'' (p + n)" using k by auto
    have len: "length (take k (drop p content)) = k" using k less.prems by simp
    then have ne: "take k (drop p content) \<noteq> []" using k by auto
    have app: "take k (drop p content) @ take (n - k) (drop (p + k) content)
        = take n (drop p content)"
      using k take_drop_append [of k p content "n - k"] by (simp add: add.commute)
    have "fill_exact eof rd n s = (Ok (take n (drop p content)), s'')"
      using False k rec ne len app
      by (simp add: fill_exact.simps [of _ _ n] bnd_Ok [where m = "rd n", OF rd]
          bnd_Ok [where m = "fill_exact eof rd (n - k)", OF rec] ret_run
          del: take_drop_append)
    then show ?thesis using ok'' by blast
  qed
qed

end

section \<open>What a sink promises\<close>

text \<open>\<open>out s\<close> is what has been written so far; a write may take only part of the buffer.\<close>

locale outlet =
  fixes wr :: "bytes \<Rightarrow> ('s, 'e, nat) act" and out :: "'s \<Rightarrow> bytes"
  assumes wr_step: "bs \<noteq> [] \<Longrightarrow>
    \<exists>k s'. 0 < k \<and> k \<le> length bs \<and> wr bs s = (Ok k, s') \<and> out s' = out s @ take k bs"
begin

lemma drain_appends:
  "\<exists>s'. drain full wr bs s = (Ok (), s') \<and> out s' = out s @ bs"
proof (induction "length bs" arbitrary: bs s rule: less_induct)
  case less
  show ?case
  proof (cases "bs = []")
    case True
    then show ?thesis by (simp add: drain.simps [of full wr "[]"] ret_run)
  next
    case False
    then obtain k s' where k: "0 < k" "k \<le> length bs"
      and wr: "wr bs s = (Ok k, s')" and o: "out s' = out s @ take k bs"
      using wr_step by blast
    have "length (drop k bs) < length bs" using k by simp
    from less [OF this] obtain s'' where
      "drain full wr (drop k bs) s' = (Ok (), s'')" "out s'' = out s' @ drop k bs" by blast
    then show ?thesis using False k o
      by (simp add: drain.simps [of full wr bs] bnd_Ok [where m = "wr bs", OF wr])
  qed
qed

end

text \<open>\<open>writes out w bs\<close>: the action \<open>w\<close> succeeds and appends exactly \<open>bs\<close>.\<close>

definition writes :: "('s \<Rightarrow> bytes) \<Rightarrow> ('s, 'e, unit) act \<Rightarrow> bytes \<Rightarrow> bool" where
  "writes out w bs \<longleftrightarrow> (\<forall>s. \<exists>s'. w s = (Ok (), s') \<and> out s' = out s @ bs)"

lemma writes_ret [writes_rules]: "writes out (ret ()) []"
  by (simp add: writes_def ret_def)

lemma writes_bnd [writes_rules]: "writes out w bs \<Longrightarrow> writes out v cs \<Longrightarrow> writes out (bnd w (\<lambda>_. v)) (bs @ cs)"
  unfolding writes_def
proof
  fix s
  assume w: "\<forall>s. \<exists>s'. w s = (Ok (), s') \<and> out s' = out s @ bs"
    and v: "\<forall>s. \<exists>s'. v s = (Ok (), s') \<and> out s' = out s @ cs"
  from w obtain t where t: "w s = (Ok (), t)" "out t = out s @ bs" by blast
  from v obtain u where "v t = (Ok (), u)" "out u = out t @ cs" by blast
  with t show "\<exists>s'. bnd w (\<lambda>_. v) s = (Ok (), s') \<and> out s' = out s @ bs @ cs"
    by (auto simp: bnd_def)
qed

lemma writes_each:
  "(\<And>x. x \<in> set xs \<Longrightarrow> writes out (f x) (enc x)) \<Longrightarrow>
   writes out (each_act f xs) (concat (map enc xs))"
  by (induction xs) (auto intro: writes_ret writes_bnd)

end
