(* ===== verification/HfsIo.thy ===== *)
theory HfsIo
  imports Streams
begin

text \<open>
  The \<open>Read\<close>, \<open>Write\<close> and \<open>Seek\<close> traits of \<open>src/src/lib/hfsplus/lib.rs\<close>, their provided
  methods, the big endian readers and writers built on them, and \<open>Cursor\<close>, the in-memory
  reader. A trait object is a record of its required methods. The locales state what a
  reader (\<open>disk\<close>) and a writer (\<open>sink\<close>) promise; \<open>Cursor\<close> and \<open>Vec<u8>\<close> are the
  first instances.
\<close>

section \<open>Traits\<close>

datatype hfs_error =
    InvalidData string
  | BadNode
  | InvalidRecordKey
  | InvalidRecordType
  | UnsupportedOperation
  | KeyNotFound

text \<open>
  \<open>fn read(&mut self, buf: &mut [u8])\<close> gets the length of \<open>buf\<close> and returns the bytes it copies
  to the front of it.
\<close>

type_synonym 's reader = "nat \<Rightarrow> ('s, hfs_error, bytes) act"
type_synonym 's writer = "bytes \<Rightarrow> ('s, hfs_error, nat) act"

record 's read_seek =
  rs_read :: "'s reader"
  rs_seek :: "seek_from \<Rightarrow> ('s, hfs_error, nat) act"

section \<open>Provided methods\<close>

text \<open>\<open>Read::read_exact\<close> and \<open>Write::write_all\<close>.\<close>

definition read_exact :: "'s reader \<Rightarrow> nat \<Rightarrow> ('s, hfs_error, bytes) act" where
  "read_exact rd n = fill_exact (InvalidData ''Unexpected EOF'') rd n"

definition write_all :: "'s writer \<Rightarrow> bytes \<Rightarrow> ('s, hfs_error, unit) act" where
  "write_all wr bs = drain (InvalidData ''Failed to write all data'') wr bs"

section \<open>ReadExt and WriteExt\<close>

definition read_u16_be :: "'s reader \<Rightarrow> ('s, hfs_error, u16) act" where
  "read_u16_be rd = bnd (read_exact rd 2) (\<lambda>buf. ret (from_be buf))"

definition read_u32_be :: "'s reader \<Rightarrow> ('s, hfs_error, u32) act" where
  "read_u32_be rd = bnd (read_exact rd 4) (\<lambda>buf. ret (from_be buf))"

definition read_u64_be :: "'s reader \<Rightarrow> ('s, hfs_error, u64) act" where
  "read_u64_be rd = bnd (read_exact rd 8) (\<lambda>buf. ret (from_be buf))"

definition read_i16_be :: "'s reader \<Rightarrow> ('s, hfs_error, i16) act" where
  "read_i16_be rd = bnd (read_exact rd 2) (\<lambda>buf. ret (from_be buf))"

definition read_i32_be :: "'s reader \<Rightarrow> ('s, hfs_error, i32) act" where
  "read_i32_be rd = bnd (read_exact rd 4) (\<lambda>buf. ret (from_be buf))"

definition read_u8 :: "'s reader \<Rightarrow> ('s, hfs_error, u8) act" where
  "read_u8 rd = bnd (read_exact rd 1) (\<lambda>buf. ret (buf ! 0))"

definition read_i8 :: "'s reader \<Rightarrow> ('s, hfs_error, i8) act" where
  "read_i8 rd = bnd (read_exact rd 1) (\<lambda>buf. ret (buf ! 0))"

definition write_u16_be :: "'s writer \<Rightarrow> u16 \<Rightarrow> ('s, hfs_error, unit) act" where
  "write_u16_be wr n = write_all wr (to_be n)"

definition write_u32_be :: "'s writer \<Rightarrow> u32 \<Rightarrow> ('s, hfs_error, unit) act" where
  "write_u32_be wr n = write_all wr (to_be n)"

definition write_u64_be :: "'s writer \<Rightarrow> u64 \<Rightarrow> ('s, hfs_error, unit) act" where
  "write_u64_be wr n = write_all wr (to_be n)"

definition write_i8 :: "'s writer \<Rightarrow> i8 \<Rightarrow> ('s, hfs_error, unit) act" where
  "write_i8 wr n = write_all wr [n]"

definition write_u8 :: "'s writer \<Rightarrow> u8 \<Rightarrow> ('s, hfs_error, unit) act" where
  "write_u8 wr n = write_all wr [n]"

section \<open>Cursor\<close>

record cursor =
  inner :: bytes
  pos :: nat

definition cursor_new :: "bytes \<Rightarrow> cursor" where
  "cursor_new bs = \<lparr>inner = bs, pos = 0\<rparr>"

definition cursor_read :: "cursor reader" where
  "cursor_read n c =
     (if length (inner c) \<le> pos c then (Ok [], c)
      else let k = min n (length (inner c) - pos c)
           in (Ok (take k (drop (pos c) (inner c))), c\<lparr>pos := pos c + k\<rparr>))"

definition cursor_seek :: "seek_from \<Rightarrow> (cursor, hfs_error, nat) act" where
  "cursor_seek p = (\<lambda>c.
     bnd (case p of
            Start s \<Rightarrow> ret (as_i64 s)
          | Current d \<Rightarrow> add_i64 (as_i64 (pos c)) d
          | End e \<Rightarrow> add_i64 (as_i64 (length (inner c))) e)
       (\<lambda>new_pos c. if new_pos < 0 then (Err (InvalidData ''Invalid seek''), c)
          else (Ok (as_u64 new_pos), c\<lparr>pos := as_u64 new_pos\<rparr>)) c)"

definition cursor_ops :: "cursor read_seek" where
  "cursor_ops = \<lparr>rs_read = cursor_read, rs_seek = cursor_seek\<rparr>"

section \<open>Sources\<close>

locale byte_source = source rd nxt for rd :: "'s reader" and nxt
begin

lemma reads_exact: "length bs = n \<Longrightarrow> reads nxt (read_exact rd n) bs bs"
  unfolding read_exact_def by (rule reads_fill)

lemma reads_u16 [reads_rules]: "reads nxt (read_u16_be rd) (to_be w) w"
  unfolding read_u16_be_def
  by (rule reads_map, rule reads_exact) (simp_all add: from_be_to_be)

lemma reads_u32 [reads_rules]: "reads nxt (read_u32_be rd) (to_be w) w"
  unfolding read_u32_be_def
  by (rule reads_map, rule reads_exact) (simp_all add: from_be_to_be)

lemma reads_u64 [reads_rules]: "reads nxt (read_u64_be rd) (to_be w) w"
  unfolding read_u64_be_def
  by (rule reads_map, rule reads_exact) (simp_all add: from_be_to_be)

lemma reads_i16 [reads_rules]: "reads nxt (read_i16_be rd) (to_be w) w"
  unfolding read_i16_be_def
  by (rule reads_map, rule reads_exact) (simp_all add: from_be_to_be)

lemma reads_i32 [reads_rules]: "reads nxt (read_i32_be rd) (to_be w) w"
  unfolding read_i32_be_def
  by (rule reads_map, rule reads_exact) (simp_all add: from_be_to_be)

lemma reads_u8 [reads_rules]: "reads nxt (read_u8 rd) [b] b"
  unfolding read_u8_def
  by (rule reads_map, rule reads_exact) simp_all

lemma reads_i8 [reads_rules]: "reads nxt (read_i8 rd) [b] b"
  unfolding read_i8_def
  by (rule reads_map, rule reads_exact) simp_all


end

section \<open>Devices\<close>

locale disk = random_access "rs_read dev" "rs_seek dev" content ready
  for dev :: "'s read_seek" and content :: bytes and ready :: "'s \<Rightarrow> nat \<Rightarrow> bool"
begin

lemma read_exact_at:
  "ready s p \<Longrightarrow> p + n \<le> length content \<Longrightarrow>
   \<exists>s'. read_exact (rs_read dev) n s = (Ok (take n (drop p content)), s') \<and> ready s' (p + n)"
  unfolding read_exact_def by (rule fill_exact_at)

lemma read_exact_from:
  assumes "ready s p" and "q + n \<le> length content"
  shows "\<exists>s' s''. rs_seek dev (Start q) s = (Ok q, s') \<and>
    read_exact (rs_read dev) n s' = (Ok (take n (drop q content)), s'') \<and> ready s'' (q + n)"
proof -
  have "q \<le> length content" using assms by simp
  from seek_start [OF assms(1) this] obtain s' where
    s: "rs_seek dev (Start q) s = (Ok q, s')" "ready s' q" by blast
  from read_exact_at [OF s(2) assms(2)] s(1) show ?thesis by blast
qed

end

section \<open>Sinks\<close>

locale sink = outlet wr out for wr :: "'s writer" and out :: "'s \<Rightarrow> bytes"
begin

lemma writes_all: "writes out (write_all wr bs) bs"
  using drain_appends by (simp add: writes_def write_all_def)

lemma writes_prims [writes_rules]:
  "writes out (write_u16_be wr w16) (to_be w16)"
  "writes out (write_u32_be wr w32) (to_be w32)"
  "writes out (write_u64_be wr w64) (to_be w64)"
  "writes out (write_i8 wr b) [b]"
  "writes out (write_u8 wr b) [b]"
  by (simp_all add: write_u16_be_def write_u32_be_def write_u64_be_def write_i8_def
      write_u8_def writes_all)

end

section \<open>Instances\<close>

text \<open>The next bytes of a cursor; a slice has less than \<open>2 ^ 63\<close> bytes.\<close>

definition cursor_next :: "cursor \<Rightarrow> bytes \<Rightarrow> bool" where
  "cursor_next c bs \<longleftrightarrow> (\<exists>tl. drop (pos c) (inner c) = bs @ tl)"

interpretation cursor_src: byte_source cursor_read cursor_next
proof unfold_locales
  fix c bs n
  assume nx: "cursor_next c bs" and n: "0 < n" "n \<le> length bs"
  then obtain tl where tl: "drop (pos c) (inner c) = bs @ tl" by (auto simp: cursor_next_def)
  have len: "length (inner c) - pos c = length bs + length tl"
    using arg_cong [OF tl, of length] by simp
  let ?c' = "c\<lparr>pos := pos c + n\<rparr>"
  have "cursor_read n c = (Ok (take n bs), ?c')"
    using len n tl by (auto simp: cursor_read_def Let_def)
  moreover have "drop n (drop (pos c) (inner c)) = drop n bs @ tl"
    using n by (simp add: tl)
  then have "cursor_next ?c' (drop n bs)"
    by (auto simp: cursor_next_def add.commute)
  ultimately show "\<exists>k c'. 0 < k \<and> k \<le> n \<and> cursor_read n c = (Ok (take k bs), c') \<and>
      cursor_next c' (drop k bs)"
    using n by blast
qed

text \<open>A cursor over a slice, which has less than \<open>2 ^ 63\<close> bytes, is a device.\<close>

definition cursor_ready :: "bytes \<Rightarrow> cursor \<Rightarrow> nat \<Rightarrow> bool" where
  "cursor_ready content c p \<longleftrightarrow> inner c = content \<and> pos c = p \<and> length content < 2 ^ 63"

interpretation cursor_disk: disk cursor_ops content "cursor_ready content" for content
proof unfold_locales
  fix c p q
  assume "cursor_ready content c p" and "q \<le> length content"
  then show "\<exists>c'. rs_seek cursor_ops (Start q) c = (Ok q, c') \<and> cursor_ready content c' q"
    by (simp add: cursor_ops_def cursor_seek_def cursor_ready_def)
next
  fix c p n
  assume "cursor_ready content c p" and "0 < n" and "p + n \<le> length content"
  then have "rs_read cursor_ops n c = (Ok (take n (drop p content)), c\<lparr>pos := p + n\<rparr>)"
    and "cursor_ready content (c\<lparr>pos := p + n\<rparr>) (p + n)"
    by (auto simp: cursor_ops_def cursor_read_def cursor_ready_def Let_def)
  then show "\<exists>k c'. 0 < k \<and> k \<le> n \<and>
      rs_read cursor_ops n c = (Ok (take k (drop p content)), c') \<and> cursor_ready content c' (p + k)"
    using \<open>0 < n\<close> by blast
qed

text \<open>\<open>Vec<u8>\<close> of the standard library takes the whole buffer at once.\<close>

definition vec_write :: "bytes writer" where
  "vec_write bs v = (Ok (length bs), v @ bs)"

interpretation vec_sink: sink vec_write "\<lambda>v. v"
  by unfold_locales (auto simp: vec_write_def)

end
