(* ===== verification/HfsDisk.thy ===== *)
theory HfsDisk
  imports HfsIo
begin

text \<open>
  The fixed-size on-disk structures of \<open>src/src/lib/hfsplus/internal.rs\<close>: permissions, extents,
  forks, the volume header, B-tree node descriptors and headers, and extent keys with their
  order. Every structure has its \<open>import\<close>, its \<open>export\<close> where the source has one, and a
  \<open>layout\<close>: the byte string the format prescribes for it, which is the specification the two
  are checked against.
\<close>

section \<open>Permissions, extents and forks\<close>

record bsd_info =
  bsd_owner_id :: u32
  bsd_group_id :: u32
  bsd_admin_flags :: u8
  bsd_owner_flags :: u8
  bsd_file_mode :: u16
  bsd_special :: u32

definition bsd_import :: "'s reader \<Rightarrow> ('s, hfs_error, bsd_info) act" where
  "bsd_import rd =
     bnd (read_u32_be rd) (\<lambda>owner_id.
     bnd (read_u32_be rd) (\<lambda>group_id.
     bnd (read_u8 rd) (\<lambda>admin_flags.
     bnd (read_u8 rd) (\<lambda>owner_flags.
     bnd (read_u16_be rd) (\<lambda>file_mode.
     bnd (read_u32_be rd) (\<lambda>special.
     ret \<lparr>bsd_owner_id = owner_id, bsd_group_id = group_id, bsd_admin_flags = admin_flags,
       bsd_owner_flags = owner_flags, bsd_file_mode = file_mode,
       bsd_special = special\<rparr>))))))"

definition bsd_layout :: "bsd_info \<Rightarrow> bytes" where
  "bsd_layout x = concat
     [to_be (bsd_owner_id x),
      to_be (bsd_group_id x),
      [bsd_admin_flags x],
      [bsd_owner_flags x],
      to_be (bsd_file_mode x),
      to_be (bsd_special x)]"

record extent_descriptor =
  ext_start_block :: u32
  ext_block_count :: u32

definition ext_import :: "'s reader \<Rightarrow> ('s, hfs_error, extent_descriptor) act" where
  "ext_import rd =
     bnd (read_u32_be rd) (\<lambda>start_block.
     bnd (read_u32_be rd) (\<lambda>block_count.
     ret \<lparr>ext_start_block = start_block, ext_block_count = block_count\<rparr>))"

definition ext_layout :: "extent_descriptor \<Rightarrow> bytes" where
  "ext_layout x = concat
     [to_be (ext_start_block x),
      to_be (ext_block_count x)]"

definition ext_export :: "'s writer \<Rightarrow> extent_descriptor \<Rightarrow> ('s, hfs_error, unit) act" where
  "ext_export wr x =
     bnd (write_u32_be wr (ext_start_block x)) (\<lambda>_.
     bnd (write_u32_be wr (ext_block_count x)) (\<lambda>_.
     ret ()))"

definition import_record :: "'s reader \<Rightarrow> ('s, hfs_error, extent_descriptor list) act" where
  "import_record rd = times_act 8 (ext_import rd)"

definition export_record ::
  "'s writer \<Rightarrow> extent_descriptor list \<Rightarrow> ('s, hfs_error, unit) act" where
  "export_record wr rec = each_act (ext_export wr) rec"

record fork_data =
  fd_logical_size :: u64
  fd_clump_size :: u32
  fd_total_blocks :: u32
  fd_extents :: "extent_descriptor list"

definition fd_import :: "'s reader \<Rightarrow> ('s, hfs_error, fork_data) act" where
  "fd_import rd =
     bnd (read_u64_be rd) (\<lambda>logical_size.
     bnd (read_u32_be rd) (\<lambda>clump_size.
     bnd (read_u32_be rd) (\<lambda>total_blocks.
     bnd (import_record rd) (\<lambda>extents.
     ret \<lparr>fd_logical_size = logical_size, fd_clump_size = clump_size,
       fd_total_blocks = total_blocks, fd_extents = extents\<rparr>))))"

definition fd_layout :: "fork_data \<Rightarrow> bytes" where
  "fd_layout x = concat
     [to_be (fd_logical_size x),
      to_be (fd_clump_size x),
      to_be (fd_total_blocks x),
      concat (map ext_layout (fd_extents x))]"

definition fd_export :: "'s writer \<Rightarrow> fork_data \<Rightarrow> ('s, hfs_error, unit) act" where
  "fd_export wr x =
     bnd (write_u64_be wr (fd_logical_size x)) (\<lambda>_.
     bnd (write_u32_be wr (fd_clump_size x)) (\<lambda>_.
     bnd (write_u32_be wr (fd_total_blocks x)) (\<lambda>_.
     bnd (export_record wr (fd_extents x)) (\<lambda>_.
     ret ()))))"

section \<open>The volume header\<close>

record volume_header =
  vh_signature :: u16
  vh_version :: u16
  vh_attributes :: u32
  vh_last_mounted_version :: u32
  vh_journal_info_block :: u32
  vh_create_date :: u32
  vh_modify_date :: u32
  vh_backup_date :: u32
  vh_checked_date :: u32
  vh_file_count :: u32
  vh_folder_count :: u32
  vh_block_size :: u32
  vh_total_blocks :: u32
  vh_free_blocks :: u32
  vh_next_allocation :: u32
  vh_rsrc_clump_size :: u32
  vh_data_clump_size :: u32
  vh_next_catalog_id :: u32
  vh_write_count :: u32
  vh_encodings_bitmap :: u64
  vh_finder_info :: "u32 list"
  vh_allocation_file :: fork_data
  vh_extents_file :: fork_data
  vh_catalog_file :: fork_data
  vh_attributes_file :: fork_data
  vh_startup_file :: fork_data

definition vh_import :: "'s reader \<Rightarrow> ('s, hfs_error, volume_header) act" where
  "vh_import rd =
     bnd (read_u16_be rd) (\<lambda>signature.
     bnd (read_u16_be rd) (\<lambda>version.
     bnd (read_u32_be rd) (\<lambda>attributes.
     bnd (read_u32_be rd) (\<lambda>last_mounted_version.
     bnd (read_u32_be rd) (\<lambda>journal_info_block.
     bnd (read_u32_be rd) (\<lambda>create_date.
     bnd (read_u32_be rd) (\<lambda>modify_date.
     bnd (read_u32_be rd) (\<lambda>backup_date.
     bnd (read_u32_be rd) (\<lambda>checked_date.
     bnd (read_u32_be rd) (\<lambda>file_count.
     bnd (read_u32_be rd) (\<lambda>folder_count.
     bnd (read_u32_be rd) (\<lambda>block_size.
     bnd (read_u32_be rd) (\<lambda>total_blocks.
     bnd (read_u32_be rd) (\<lambda>free_blocks.
     bnd (read_u32_be rd) (\<lambda>next_allocation.
     bnd (read_u32_be rd) (\<lambda>rsrc_clump_size.
     bnd (read_u32_be rd) (\<lambda>data_clump_size.
     bnd (read_u32_be rd) (\<lambda>next_catalog_id.
     bnd (read_u32_be rd) (\<lambda>write_count.
     bnd (read_u64_be rd) (\<lambda>encodings_bitmap.
     bnd (times_act 8 (read_u32_be rd)) (\<lambda>finder_info.
     bnd (fd_import rd) (\<lambda>allocation_file.
     bnd (fd_import rd) (\<lambda>extents_file.
     bnd (fd_import rd) (\<lambda>catalog_file.
     bnd (fd_import rd) (\<lambda>attributes_file.
     bnd (fd_import rd) (\<lambda>startup_file.
     ret \<lparr>vh_signature = signature, vh_version = version, vh_attributes = attributes,
       vh_last_mounted_version = last_mounted_version,
       vh_journal_info_block = journal_info_block, vh_create_date = create_date,
       vh_modify_date = modify_date, vh_backup_date = backup_date,
       vh_checked_date = checked_date, vh_file_count = file_count,
       vh_folder_count = folder_count, vh_block_size = block_size,
       vh_total_blocks = total_blocks, vh_free_blocks = free_blocks,
       vh_next_allocation = next_allocation, vh_rsrc_clump_size = rsrc_clump_size,
       vh_data_clump_size = data_clump_size, vh_next_catalog_id = next_catalog_id,
       vh_write_count = write_count, vh_encodings_bitmap = encodings_bitmap,
       vh_finder_info = finder_info, vh_allocation_file = allocation_file,
       vh_extents_file = extents_file, vh_catalog_file = catalog_file,
       vh_attributes_file = attributes_file,
       vh_startup_file = startup_file\<rparr>))))))))))))))))))))))))))"

definition vh_layout :: "volume_header \<Rightarrow> bytes" where
  "vh_layout x = concat
     [to_be (vh_signature x),
      to_be (vh_version x),
      to_be (vh_attributes x),
      to_be (vh_last_mounted_version x),
      to_be (vh_journal_info_block x),
      to_be (vh_create_date x),
      to_be (vh_modify_date x),
      to_be (vh_backup_date x),
      to_be (vh_checked_date x),
      to_be (vh_file_count x),
      to_be (vh_folder_count x),
      to_be (vh_block_size x),
      to_be (vh_total_blocks x),
      to_be (vh_free_blocks x),
      to_be (vh_next_allocation x),
      to_be (vh_rsrc_clump_size x),
      to_be (vh_data_clump_size x),
      to_be (vh_next_catalog_id x),
      to_be (vh_write_count x),
      to_be (vh_encodings_bitmap x),
      concat (map to_be (vh_finder_info x)),
      fd_layout (vh_allocation_file x),
      fd_layout (vh_extents_file x),
      fd_layout (vh_catalog_file x),
      fd_layout (vh_attributes_file x),
      fd_layout (vh_startup_file x)]"

definition HFSP_SIGNATURE :: u16 where
  "HFSP_SIGNATURE = 0x482b"

definition HFSX_SIGNATURE :: u16 where
  "HFSX_SIGNATURE = 0x4858"

section \<open>B-tree nodes\<close>

datatype bt_node_kind = KLeafNode | KIndexNode | KHeaderNode | KMapNode

definition kind_from_i8 :: "i8 \<Rightarrow> ('s, hfs_error, bt_node_kind) act" where
  "kind_from_i8 v =
     (if sint v = -1 then ret KLeafNode
      else if sint v = 0 then ret KIndexNode
      else if sint v = 1 then ret KHeaderNode
      else if sint v = 2 then ret KMapNode
      else fail (InvalidData (''Invalid BTNodeKind: '' @ show_int (sint v))))"

fun kind_i8 :: "bt_node_kind \<Rightarrow> i8" where
  "kind_i8 KLeafNode = -1"
| "kind_i8 KIndexNode = 0"
| "kind_i8 KHeaderNode = 1"
| "kind_i8 KMapNode = 2"

record bt_node_descriptor =
  btn_f_link :: u32
  btn_b_link :: u32
  btn_kind :: bt_node_kind
  btn_height :: u8
  btn_num_records :: u16
  btn_reserved :: u16

definition btn_import :: "'s reader \<Rightarrow> ('s, hfs_error, bt_node_descriptor) act" where
  "btn_import rd =
     bnd (read_u32_be rd) (\<lambda>f_link.
     bnd (read_u32_be rd) (\<lambda>b_link.
     bnd (bnd (read_i8 rd) kind_from_i8) (\<lambda>kind.
     bnd (read_u8 rd) (\<lambda>height.
     bnd (read_u16_be rd) (\<lambda>num_records.
     bnd (read_u16_be rd) (\<lambda>reserved.
     ret \<lparr>btn_f_link = f_link, btn_b_link = b_link, btn_kind = kind, btn_height = height,
       btn_num_records = num_records, btn_reserved = reserved\<rparr>))))))"

definition btn_layout :: "bt_node_descriptor \<Rightarrow> bytes" where
  "btn_layout x = concat
     [to_be (btn_f_link x),
      to_be (btn_b_link x),
      [kind_i8 (btn_kind x)],
      [btn_height x],
      to_be (btn_num_records x),
      to_be (btn_reserved x)]"

definition btn_export :: "'s writer \<Rightarrow> bt_node_descriptor \<Rightarrow> ('s, hfs_error, unit) act" where
  "btn_export wr x =
     bnd (write_u32_be wr (btn_f_link x)) (\<lambda>_.
     bnd (write_u32_be wr (btn_b_link x)) (\<lambda>_.
     bnd (write_i8 wr (kind_i8 (btn_kind x))) (\<lambda>_.
     bnd (write_u8 wr (btn_height x)) (\<lambda>_.
     bnd (write_u16_be wr (btn_num_records x)) (\<lambda>_.
     bnd (write_u16_be wr (btn_reserved x)) (\<lambda>_.
     ret ()))))))"

record bt_header_rec =
  bth_tree_depth :: u16
  bth_root_node :: u32
  bth_leaf_records :: u32
  bth_first_leaf_node :: u32
  bth_last_leaf_node :: u32
  bth_node_size :: u16
  bth_max_key_length :: u16
  bth_total_nodes :: u32
  bth_free_nodes :: u32
  bth_reserved1 :: u16
  bth_clump_size :: u32
  bth_b_tree_type :: u8
  bth_key_compare_type :: u8
  bth_attributes :: u32
  bth_reserved3 :: "u32 list"

definition bth_import :: "'s reader \<Rightarrow> ('s, hfs_error, bt_header_rec) act" where
  "bth_import rd =
     bnd (read_u16_be rd) (\<lambda>tree_depth.
     bnd (read_u32_be rd) (\<lambda>root_node.
     bnd (read_u32_be rd) (\<lambda>leaf_records.
     bnd (read_u32_be rd) (\<lambda>first_leaf_node.
     bnd (read_u32_be rd) (\<lambda>last_leaf_node.
     bnd (read_u16_be rd) (\<lambda>node_size.
     bnd (read_u16_be rd) (\<lambda>max_key_length.
     bnd (read_u32_be rd) (\<lambda>total_nodes.
     bnd (read_u32_be rd) (\<lambda>free_nodes.
     bnd (read_u16_be rd) (\<lambda>reserved1.
     bnd (read_u32_be rd) (\<lambda>clump_size.
     bnd (read_u8 rd) (\<lambda>b_tree_type.
     bnd (read_u8 rd) (\<lambda>key_compare_type.
     bnd (read_u32_be rd) (\<lambda>attributes.
     bnd (times_act 16 (read_u32_be rd)) (\<lambda>reserved3.
     ret \<lparr>bth_tree_depth = tree_depth, bth_root_node = root_node,
       bth_leaf_records = leaf_records, bth_first_leaf_node = first_leaf_node,
       bth_last_leaf_node = last_leaf_node, bth_node_size = node_size,
       bth_max_key_length = max_key_length, bth_total_nodes = total_nodes,
       bth_free_nodes = free_nodes, bth_reserved1 = reserved1, bth_clump_size = clump_size,
       bth_b_tree_type = b_tree_type, bth_key_compare_type = key_compare_type,
       bth_attributes = attributes, bth_reserved3 = reserved3\<rparr>)))))))))))))))"

definition bth_layout :: "bt_header_rec \<Rightarrow> bytes" where
  "bth_layout x = concat
     [to_be (bth_tree_depth x),
      to_be (bth_root_node x),
      to_be (bth_leaf_records x),
      to_be (bth_first_leaf_node x),
      to_be (bth_last_leaf_node x),
      to_be (bth_node_size x),
      to_be (bth_max_key_length x),
      to_be (bth_total_nodes x),
      to_be (bth_free_nodes x),
      to_be (bth_reserved1 x),
      to_be (bth_clump_size x),
      [bth_b_tree_type x],
      [bth_key_compare_type x],
      to_be (bth_attributes x),
      concat (map to_be (bth_reserved3 x))]"

definition bth_export :: "'s writer \<Rightarrow> bt_header_rec \<Rightarrow> ('s, hfs_error, unit) act" where
  "bth_export wr x =
     bnd (write_u16_be wr (bth_tree_depth x)) (\<lambda>_.
     bnd (write_u32_be wr (bth_root_node x)) (\<lambda>_.
     bnd (write_u32_be wr (bth_leaf_records x)) (\<lambda>_.
     bnd (write_u32_be wr (bth_first_leaf_node x)) (\<lambda>_.
     bnd (write_u32_be wr (bth_last_leaf_node x)) (\<lambda>_.
     bnd (write_u16_be wr (bth_node_size x)) (\<lambda>_.
     bnd (write_u16_be wr (bth_max_key_length x)) (\<lambda>_.
     bnd (write_u32_be wr (bth_total_nodes x)) (\<lambda>_.
     bnd (write_u32_be wr (bth_free_nodes x)) (\<lambda>_.
     bnd (write_u16_be wr (bth_reserved1 x)) (\<lambda>_.
     bnd (write_u32_be wr (bth_clump_size x)) (\<lambda>_.
     bnd (write_u8 wr (bth_b_tree_type x)) (\<lambda>_.
     bnd (write_u8 wr (bth_key_compare_type x)) (\<lambda>_.
     bnd (write_u32_be wr (bth_attributes x)) (\<lambda>_.
     bnd (each_act (write_u32_be wr) (bth_reserved3 x)) (\<lambda>_.
     ret ())))))))))))))))"

section \<open>Extent keys\<close>

definition K_HFSCATALOG_FILE_ID :: u32 where
  "K_HFSCATALOG_FILE_ID = 4"

definition K_HFSEXTENTS_FILE_ID :: u32 where
  "K_HFSEXTENTS_FILE_ID = 3"

record extent_key_rec =
  ek_key_length :: u16
  ek_fork_type :: u8
  ek_pad :: u8
  ek_file_id :: u32
  ek_start_block :: u32

definition ek_import :: "'s reader \<Rightarrow> ('s, hfs_error, extent_key_rec) act" where
  "ek_import rd =
     bnd (read_u16_be rd) (\<lambda>key_length.
     bnd (read_u8 rd) (\<lambda>fork_type.
     bnd (read_u8 rd) (\<lambda>pad.
     bnd (read_u32_be rd) (\<lambda>file_id.
     bnd (read_u32_be rd) (\<lambda>start_block.
     ret \<lparr>ek_key_length = key_length, ek_fork_type = fork_type, ek_pad = pad,
       ek_file_id = file_id, ek_start_block = start_block\<rparr>)))))"

definition ek_layout :: "extent_key_rec \<Rightarrow> bytes" where
  "ek_layout x = concat
     [to_be (ek_key_length x),
      [ek_fork_type x],
      [ek_pad x],
      to_be (ek_file_id x),
      to_be (ek_start_block x)]"

definition ek_export :: "'s writer \<Rightarrow> extent_key_rec \<Rightarrow> ('s, hfs_error, unit) act" where
  "ek_export wr x =
     bnd (write_u16_be wr (ek_key_length x)) (\<lambda>_.
     bnd (write_u8 wr (ek_fork_type x)) (\<lambda>_.
     bnd (write_u8 wr (ek_pad x)) (\<lambda>_.
     bnd (write_u32_be wr (ek_file_id x)) (\<lambda>_.
     bnd (write_u32_be wr (ek_start_block x)) (\<lambda>_.
     ret ())))))"
definition extent_key_new :: "u32 \<Rightarrow> u8 \<Rightarrow> u32 \<Rightarrow> extent_key_rec" where
  "extent_key_new file_id fork_type start_block =
     \<lparr>ek_key_length = 10, ek_fork_type = fork_type, ek_pad = 0, ek_file_id = file_id,
       ek_start_block = start_block\<rparr>"

definition extent_key_cmp :: "extent_key_rec \<Rightarrow> extent_key_rec \<Rightarrow> ordering" where
  "extent_key_cmp a b =
     (case cmp (ek_file_id a) (ek_file_id b) of
        Less \<Rightarrow> Less
      | Greater \<Rightarrow> Greater
      | Equal \<Rightarrow>
          (case cmp (ek_fork_type a) (ek_fork_type b) of
             Less \<Rightarrow> Less
           | Greater \<Rightarrow> Greater
           | Equal \<Rightarrow> cmp (ek_start_block a) (ek_start_block b)))"

definition extent_key_eq :: "extent_key_rec \<Rightarrow> extent_key_rec \<Rightarrow> bool" where
  "extent_key_eq a b \<longleftrightarrow> extent_key_cmp a b = Equal"

record extent_record =
  er_key :: extent_key_rec
  er_body :: "extent_descriptor list"

definition er_import :: "'s reader \<Rightarrow> extent_key_rec \<Rightarrow> ('s, hfs_error, extent_record) act" where
  "er_import rd key = bnd (import_record rd) (\<lambda>body. ret \<lparr>er_key = key, er_body = body\<rparr>)"

definition er_export :: "'s writer \<Rightarrow> extent_record \<Rightarrow> ('s, hfs_error, unit) act" where
  "er_export wr x = bnd (export_record wr (er_body x)) (\<lambda>_. ret ())"

section \<open>Imports read exactly the prescribed bytes\<close>

text \<open>Well-formedness is the length of the fixed arrays.\<close>

definition fd_ok :: "fork_data \<Rightarrow> bool" where
  "fd_ok x \<longleftrightarrow> length (fd_extents x) = 8"

definition vh_ok :: "volume_header \<Rightarrow> bool" where
  "vh_ok x \<longleftrightarrow> length (vh_finder_info x) = 8 \<and> fd_ok (vh_allocation_file x) \<and>
     fd_ok (vh_extents_file x) \<and> fd_ok (vh_catalog_file x) \<and> fd_ok (vh_attributes_file x) \<and>
     fd_ok (vh_startup_file x)"

definition bth_ok :: "bt_header_rec \<Rightarrow> bool" where
  "bth_ok x \<longleftrightarrow> length (bth_reserved3 x) = 16"

lemma length_concat_map:
  "(\<And>x. x \<in> set xs \<Longrightarrow> length (f x) = k) \<Longrightarrow> length (concat (map f xs)) = k * length xs"
  by (induction xs) auto

lemma length_layouts [layout_simps]:
  "length (bsd_layout b) = 16"
  "length (ext_layout e) = 8"
  "length (btn_layout n) = 14"
  "length (ek_layout k) = 12"
  by (simp_all add: bsd_layout_def ext_layout_def btn_layout_def ek_layout_def)

lemma length_fd_layout [layout_simps]: "fd_ok x \<Longrightarrow> length (fd_layout x) = 80"
  by (simp add: fd_layout_def fd_ok_def length_concat_map [of _ ext_layout 8] layout_simps)

lemma length_bth_layout [layout_simps]: "bth_ok x \<Longrightarrow> length (bth_layout x) = 106"
  by (simp add: bth_layout_def bth_ok_def length_concat_map [of _ to_be 4])

lemma length_vh_layout [layout_simps]: "vh_ok x \<Longrightarrow> length (vh_layout x) = 512"
  by (simp add: vh_layout_def vh_ok_def length_concat_map [of _ to_be 4] length_fd_layout)

lemma kind_from_i8_kind [simp]: "kind_from_i8 (kind_i8 k) = ret k"
  by (cases k) (simp_all add: kind_from_i8_def)

context byte_source begin

lemma reads_bsd [reads_rules]: "reads nxt (bsd_import rd) (bsd_layout x) x"
  unfolding bsd_import_def bsd_layout_def concat.simps
  by (rule reads_rules | simp)+

lemma reads_ext [reads_rules]: "reads nxt (ext_import rd) (ext_layout x) x"
  unfolding ext_import_def ext_layout_def concat.simps
  by (rule reads_rules | simp)+

lemma reads_extents [reads_rules]:
  "length xs = 8 \<Longrightarrow> reads nxt (import_record rd) (concat (map ext_layout xs)) xs"
  unfolding import_record_def
  using reads_times [where xs = xs and m = "ext_import rd" and enc = ext_layout] reads_ext by simp

lemma reads_words [reads_rules]: "length xs = n \<Longrightarrow> reads nxt (times_act n (read_u32_be rd)) (concat (map to_be xs)) xs"
  using reads_times [where xs = xs and m = "read_u32_be rd" and enc = to_be] reads_u32 by simp

lemma reads_fd [reads_rules]: "fd_ok x \<Longrightarrow> reads nxt (fd_import rd) (fd_layout x) x"
  unfolding fd_import_def fd_layout_def concat.simps fd_ok_def
  by (rule reads_rules | simp)+

lemma reads_vh [reads_rules]: "vh_ok x \<Longrightarrow> reads nxt (vh_import rd) (vh_layout x) x"
  unfolding vh_import_def vh_layout_def concat.simps vh_ok_def
  by (rule reads_rules | simp)+

lemma reads_kind [reads_rules]: "reads nxt (bnd (read_i8 rd) kind_from_i8) [kind_i8 k] k"
  using reads_bnd [OF reads_i8, of kind_from_i8 "kind_i8 k" "[]" k] by (simp add: reads_ret)

lemma reads_btn [reads_rules]: "reads nxt (btn_import rd) (btn_layout x) x"
  unfolding btn_import_def btn_layout_def concat.simps
  by (rule reads_rules | simp)+

lemma reads_bth [reads_rules]: "bth_ok x \<Longrightarrow> reads nxt (bth_import rd) (bth_layout x) x"
  unfolding bth_import_def bth_layout_def concat.simps bth_ok_def
  by (rule reads_rules | simp)+

lemma reads_ek [reads_rules]: "reads nxt (ek_import rd) (ek_layout x) x"
  unfolding ek_import_def ek_layout_def concat.simps
  by (rule reads_rules | simp)+

lemma reads_er [reads_rules]:
  "length (er_body x) = 8 \<Longrightarrow> reads nxt (er_import rd (er_key x)) (concat (map ext_layout (er_body x))) x"
  unfolding er_import_def
  by (rule reads_map, rule reads_extents) simp_all

end

context sink begin

lemma writes_ext [writes_rules]: "writes out (ext_export wr x) (ext_layout x)"
  unfolding ext_export_def ext_layout_def concat.simps
  by (rule writes_rules)+

lemma writes_extents [writes_rules]: "writes out (export_record wr xs) (concat (map ext_layout xs))"
  unfolding export_record_def by (rule writes_each) (rule writes_ext)

lemma writes_fd [writes_rules]: "writes out (fd_export wr x) (fd_layout x)"
  unfolding fd_export_def fd_layout_def concat.simps
  by (rule writes_rules)+

lemma writes_btn [writes_rules]: "writes out (btn_export wr x) (btn_layout x)"
  unfolding btn_export_def btn_layout_def concat.simps
  by (rule writes_rules)+

lemma writes_bth [writes_rules]: "writes out (bth_export wr x) (bth_layout x)"
  unfolding bth_export_def bth_layout_def concat.simps
  by (rule writes_rules writes_each)+

lemma writes_ek [writes_rules]: "writes out (ek_export wr x) (ek_layout x)"
  unfolding ek_export_def ek_layout_def concat.simps
  by (rule writes_rules)+

end

interpretation ekey: key_order extent_key_cmp
proof unfold_locales
  fix a b c :: extent_key_rec
  show "extent_key_cmp a a = Equal"
    by (simp add: extent_key_cmp_def cmp_def)
  show "extent_key_cmp a b = Less \<longleftrightarrow> extent_key_cmp b a = Greater"
    by (auto simp: extent_key_cmp_def cmp_def split: if_splits)
  show "extent_key_cmp a b = Less \<Longrightarrow> extent_key_cmp b c = Less \<Longrightarrow> extent_key_cmp a c = Less"
    by (auto simp: extent_key_cmp_def cmp_def split: if_splits)
  show "extent_key_cmp a b = Equal \<Longrightarrow> extent_key_cmp a c = extent_key_cmp b c"
    by (auto simp: extent_key_cmp_def cmp_def split: if_splits)
qed

end
