(* ===== verification/HfsCatalog.thy ===== *)
theory HfsCatalog
  imports HfsDisk
begin

text \<open>
  The catalog of \<open>src/src/lib/hfsplus/internal.rs\<close>: the Finder information of files and folders,
  the folder and file records, catalog keys with their order, and the parser of catalog
  records. The string type parameter \<open>S\<close> of the source only selects the comparison of names,
  so a name is its list of UTF-16 units and the comparison is an argument.
\<close>

section \<open>Finder information\<close>

record point =
  pt_v :: i16
  pt_h :: i16

definition pt_import :: "'s reader \<Rightarrow> ('s, hfs_error, point) act" where
  "pt_import rd =
     bnd (read_i16_be rd) (\<lambda>v.
     bnd (read_i16_be rd) (\<lambda>h.
     ret \<lparr>pt_v = v, pt_h = h\<rparr>))"

definition pt_layout :: "point \<Rightarrow> bytes" where
  "pt_layout x = concat
     [to_be (pt_v x),
      to_be (pt_h x)]"

record rect =
  rect_top :: i16
  rect_left :: i16
  rect_bottom :: i16
  rect_right :: i16

definition rect_import :: "'s reader \<Rightarrow> ('s, hfs_error, rect) act" where
  "rect_import rd =
     bnd (read_i16_be rd) (\<lambda>top.
     bnd (read_i16_be rd) (\<lambda>left.
     bnd (read_i16_be rd) (\<lambda>bottom.
     bnd (read_i16_be rd) (\<lambda>right.
     ret \<lparr>rect_top = top, rect_left = left, rect_bottom = bottom,
       rect_right = right\<rparr>))))"

definition rect_layout :: "rect \<Rightarrow> bytes" where
  "rect_layout x = concat
     [to_be (rect_top x),
      to_be (rect_left x),
      to_be (rect_bottom x),
      to_be (rect_right x)]"

record file_info =
  fi_file_type :: u32
  fi_file_creator :: u32
  fi_finder_flags :: u16
  fi_location :: point
  fi_reserved :: u16

definition fi_import :: "'s reader \<Rightarrow> ('s, hfs_error, file_info) act" where
  "fi_import rd =
     bnd (read_u32_be rd) (\<lambda>file_type.
     bnd (read_u32_be rd) (\<lambda>file_creator.
     bnd (read_u16_be rd) (\<lambda>finder_flags.
     bnd (pt_import rd) (\<lambda>location.
     bnd (read_u16_be rd) (\<lambda>reserved.
     ret \<lparr>fi_file_type = file_type, fi_file_creator = file_creator,
       fi_finder_flags = finder_flags, fi_location = location,
       fi_reserved = reserved\<rparr>)))))"

definition fi_layout :: "file_info \<Rightarrow> bytes" where
  "fi_layout x = concat
     [to_be (fi_file_type x),
      to_be (fi_file_creator x),
      to_be (fi_finder_flags x),
      pt_layout (fi_location x),
      to_be (fi_reserved x)]"

record extended_file_info =
  xfi_reserved1 :: "i16 list"
  xfi_extended_finder_flags :: u16
  xfi_reserved2 :: i16
  xfi_put_away_folder_id :: i32

definition xfi_import :: "'s reader \<Rightarrow> ('s, hfs_error, extended_file_info) act" where
  "xfi_import rd =
     bnd (times_act 4 (read_i16_be rd)) (\<lambda>reserved1.
     bnd (read_u16_be rd) (\<lambda>extended_finder_flags.
     bnd (read_i16_be rd) (\<lambda>reserved2.
     bnd (read_i32_be rd) (\<lambda>put_away_folder_id.
     ret \<lparr>xfi_reserved1 = reserved1, xfi_extended_finder_flags = extended_finder_flags,
       xfi_reserved2 = reserved2, xfi_put_away_folder_id = put_away_folder_id\<rparr>))))"

definition xfi_layout :: "extended_file_info \<Rightarrow> bytes" where
  "xfi_layout x = concat
     [concat (map to_be (xfi_reserved1 x)),
      to_be (xfi_extended_finder_flags x),
      to_be (xfi_reserved2 x),
      to_be (xfi_put_away_folder_id x)]"

record folder_info =
  foi_window_bounds :: rect
  foi_finder_flags :: u16
  foi_location :: point
  foi_reserved_field :: u16

definition foi_import :: "'s reader \<Rightarrow> ('s, hfs_error, folder_info) act" where
  "foi_import rd =
     bnd (rect_import rd) (\<lambda>window_bounds.
     bnd (read_u16_be rd) (\<lambda>finder_flags.
     bnd (pt_import rd) (\<lambda>location.
     bnd (read_u16_be rd) (\<lambda>reserved_field.
     ret \<lparr>foi_window_bounds = window_bounds, foi_finder_flags = finder_flags,
       foi_location = location, foi_reserved_field = reserved_field\<rparr>))))"

definition foi_layout :: "folder_info \<Rightarrow> bytes" where
  "foi_layout x = concat
     [rect_layout (foi_window_bounds x),
      to_be (foi_finder_flags x),
      pt_layout (foi_location x),
      to_be (foi_reserved_field x)]"

record extended_folder_info =
  xfoi_scroll_position :: point
  xfoi_reserved1 :: i32
  xfoi_extended_finder_flags :: u16
  xfoi_reserved2 :: i16
  xfoi_put_away_folder_id :: i32

definition xfoi_import :: "'s reader \<Rightarrow> ('s, hfs_error, extended_folder_info) act" where
  "xfoi_import rd =
     bnd (pt_import rd) (\<lambda>scroll_position.
     bnd (read_i32_be rd) (\<lambda>reserved1.
     bnd (read_u16_be rd) (\<lambda>extended_finder_flags.
     bnd (read_i16_be rd) (\<lambda>reserved2.
     bnd (read_i32_be rd) (\<lambda>put_away_folder_id.
     ret \<lparr>xfoi_scroll_position = scroll_position, xfoi_reserved1 = reserved1,
       xfoi_extended_finder_flags = extended_finder_flags, xfoi_reserved2 = reserved2,
       xfoi_put_away_folder_id = put_away_folder_id\<rparr>)))))"

definition xfoi_layout :: "extended_folder_info \<Rightarrow> bytes" where
  "xfoi_layout x = concat
     [pt_layout (xfoi_scroll_position x),
      to_be (xfoi_reserved1 x),
      to_be (xfoi_extended_finder_flags x),
      to_be (xfoi_reserved2 x),
      to_be (xfoi_put_away_folder_id x)]"

record catalog_folder =
  cfo_flags :: u16
  cfo_valence :: u32
  cfo_folder_id :: u32
  cfo_created_at :: u32
  cfo_content_modified_at :: u32
  cfo_attribute_modified_at :: u32
  cfo_accessed_at :: u32
  cfo_backed_up_at :: u32
  cfo_permissions :: bsd_info
  cfo_user_info :: folder_info
  cfo_finder_info :: extended_folder_info
  cfo_text_encoding :: u32
  cfo_reserved :: u32

definition cfo_import :: "'s reader \<Rightarrow> ('s, hfs_error, catalog_folder) act" where
  "cfo_import rd =
     bnd (read_u16_be rd) (\<lambda>flags.
     bnd (read_u32_be rd) (\<lambda>valence.
     bnd (read_u32_be rd) (\<lambda>folder_id.
     bnd (read_u32_be rd) (\<lambda>created_at.
     bnd (read_u32_be rd) (\<lambda>content_modified_at.
     bnd (read_u32_be rd) (\<lambda>attribute_modified_at.
     bnd (read_u32_be rd) (\<lambda>accessed_at.
     bnd (read_u32_be rd) (\<lambda>backed_up_at.
     bnd (bsd_import rd) (\<lambda>permissions.
     bnd (foi_import rd) (\<lambda>user_info.
     bnd (xfoi_import rd) (\<lambda>finder_info.
     bnd (read_u32_be rd) (\<lambda>text_encoding.
     bnd (read_u32_be rd) (\<lambda>reserved.
     ret \<lparr>cfo_flags = flags, cfo_valence = valence, cfo_folder_id = folder_id,
       cfo_created_at = created_at, cfo_content_modified_at = content_modified_at,
       cfo_attribute_modified_at = attribute_modified_at, cfo_accessed_at = accessed_at,
       cfo_backed_up_at = backed_up_at, cfo_permissions = permissions, cfo_user_info = user_info,
       cfo_finder_info = finder_info, cfo_text_encoding = text_encoding,
       cfo_reserved = reserved\<rparr>)))))))))))))"

definition cfo_layout :: "catalog_folder \<Rightarrow> bytes" where
  "cfo_layout x = concat
     [to_be (cfo_flags x),
      to_be (cfo_valence x),
      to_be (cfo_folder_id x),
      to_be (cfo_created_at x),
      to_be (cfo_content_modified_at x),
      to_be (cfo_attribute_modified_at x),
      to_be (cfo_accessed_at x),
      to_be (cfo_backed_up_at x),
      bsd_layout (cfo_permissions x),
      foi_layout (cfo_user_info x),
      xfoi_layout (cfo_finder_info x),
      to_be (cfo_text_encoding x),
      to_be (cfo_reserved x)]"

record catalog_file =
  cfi_flags :: u16
  cfi_reserved1 :: u32
  cfi_file_id :: u32
  cfi_created_at :: u32
  cfi_content_modified_at :: u32
  cfi_attribute_modified_at :: u32
  cfi_accessed_at :: u32
  cfi_backed_up_at :: u32
  cfi_permissions :: bsd_info
  cfi_user_info :: file_info
  cfi_finder_info :: extended_file_info
  cfi_text_encoding :: u32
  cfi_reserved2 :: u32
  cfi_data_fork :: fork_data
  cfi_resource_fork :: fork_data

definition cfi_import :: "'s reader \<Rightarrow> ('s, hfs_error, catalog_file) act" where
  "cfi_import rd =
     bnd (read_u16_be rd) (\<lambda>flags.
     bnd (read_u32_be rd) (\<lambda>reserved1.
     bnd (read_u32_be rd) (\<lambda>file_id.
     bnd (read_u32_be rd) (\<lambda>created_at.
     bnd (read_u32_be rd) (\<lambda>content_modified_at.
     bnd (read_u32_be rd) (\<lambda>attribute_modified_at.
     bnd (read_u32_be rd) (\<lambda>accessed_at.
     bnd (read_u32_be rd) (\<lambda>backed_up_at.
     bnd (bsd_import rd) (\<lambda>permissions.
     bnd (fi_import rd) (\<lambda>user_info.
     bnd (xfi_import rd) (\<lambda>finder_info.
     bnd (read_u32_be rd) (\<lambda>text_encoding.
     bnd (read_u32_be rd) (\<lambda>reserved2.
     bnd (fd_import rd) (\<lambda>data_fork.
     bnd (fd_import rd) (\<lambda>resource_fork.
     ret \<lparr>cfi_flags = flags, cfi_reserved1 = reserved1, cfi_file_id = file_id,
       cfi_created_at = created_at, cfi_content_modified_at = content_modified_at,
       cfi_attribute_modified_at = attribute_modified_at, cfi_accessed_at = accessed_at,
       cfi_backed_up_at = backed_up_at, cfi_permissions = permissions, cfi_user_info = user_info,
       cfi_finder_info = finder_info, cfi_text_encoding = text_encoding,
       cfi_reserved2 = reserved2, cfi_data_fork = data_fork,
       cfi_resource_fork = resource_fork\<rparr>)))))))))))))))"

definition cfi_layout :: "catalog_file \<Rightarrow> bytes" where
  "cfi_layout x = concat
     [to_be (cfi_flags x),
      to_be (cfi_reserved1 x),
      to_be (cfi_file_id x),
      to_be (cfi_created_at x),
      to_be (cfi_content_modified_at x),
      to_be (cfi_attribute_modified_at x),
      to_be (cfi_accessed_at x),
      to_be (cfi_backed_up_at x),
      bsd_layout (cfi_permissions x),
      fi_layout (cfi_user_info x),
      xfi_layout (cfi_finder_info x),
      to_be (cfi_text_encoding x),
      to_be (cfi_reserved2 x),
      fd_layout (cfi_data_fork x),
      fd_layout (cfi_resource_fork x)]"

section \<open>Catalog keys\<close>

datatype catalog_record_type = CFolder | CFile | CFolderThread | CFileThread

definition record_type_from_i16 :: "i16 \<Rightarrow> ('s, hfs_error, catalog_record_type) act" where
  "record_type_from_i16 v =
     (if sint v = 1 then ret CFolder
      else if sint v = 2 then ret CFile
      else if sint v = 3 then ret CFolderThread
      else if sint v = 4 then ret CFileThread
      else fail InvalidRecordType)"

record catalog_key =
  ck_case_match :: bool
  ck_parent_id :: u32
  ck_node_name :: "u16 list"

definition ck_import :: "'s reader \<Rightarrow> ('s, hfs_error, catalog_key) act" where
  "ck_import rd =
     bnd (read_u16_be rd) (\<lambda>key_length.
     if key_length < 6 then fail InvalidRecordKey
     else
       bnd (read_u32_be rd) (\<lambda>parent_id.
       bnd (read_u16_be rd) (\<lambda>count.
       bnd (times_act (unat count) (read_u16_be rd)) (\<lambda>node_name.
       ret \<lparr>ck_case_match = False, ck_parent_id = parent_id, ck_node_name = node_name\<rparr>))))"

definition ck_export :: "'s writer \<Rightarrow> catalog_key \<Rightarrow> ('s, hfs_error, unit) act" where
  "ck_export wr k = fail UnsupportedOperation"

definition catalog_key_cmp ::
  "(u16 list \<Rightarrow> u16 list \<Rightarrow> ordering) \<Rightarrow> catalog_key \<Rightarrow> catalog_key \<Rightarrow> ordering" where
  "catalog_key_cmp scmp a b =
     (case cmp (ck_parent_id a) (ck_parent_id b) of
        Less \<Rightarrow> Less
      | Greater \<Rightarrow> Greater
      | Equal \<Rightarrow> scmp (ck_node_name a) (ck_node_name b))"

definition catalog_key_eq ::
  "(u16 list \<Rightarrow> u16 list \<Rightarrow> ordering) \<Rightarrow> catalog_key \<Rightarrow> catalog_key \<Rightarrow> bool" where
  "catalog_key_eq scmp a b \<longleftrightarrow> catalog_key_cmp scmp a b = Equal"

section \<open>Catalog records\<close>

datatype catalog_body =
    BFolder catalog_folder
  | BFile catalog_file
  | BFolderThread catalog_key
  | BFileThread catalog_key

record catalog_record =
  cr_key :: catalog_key
  cr_body :: catalog_body

text \<open>The body of a thread record: a reserved field, then the key the thread points to.\<close>

definition thread_import :: "'s reader \<Rightarrow> ('s, hfs_error, catalog_key) act" where
  "thread_import rd =
     bnd (read_i16_be rd) (\<lambda>reserved.
     bnd (read_u32_be rd) (\<lambda>parent_id.
     bnd (read_u16_be rd) (\<lambda>count.
     bnd (times_act (unat count) (read_u16_be rd)) (\<lambda>node_name.
     ret \<lparr>ck_case_match = False, ck_parent_id = parent_id, ck_node_name = node_name\<rparr>))))"

definition cr_import :: "'s reader \<Rightarrow> catalog_key \<Rightarrow> ('s, hfs_error, catalog_record) act" where
  "cr_import rd key =
     bnd (bnd (read_i16_be rd) record_type_from_i16) (\<lambda>record_type.
     bnd (case record_type of
            CFolder \<Rightarrow> bnd (cfo_import rd) (\<lambda>f. ret (BFolder f))
          | CFile \<Rightarrow> bnd (cfi_import rd) (\<lambda>f. ret (BFile f))
          | CFolderThread \<Rightarrow> bnd (thread_import rd) (\<lambda>k. ret (BFolderThread k))
          | CFileThread \<Rightarrow> bnd (thread_import rd) (\<lambda>k. ret (BFileThread k))) (\<lambda>body.
     ret \<lparr>cr_key = key, cr_body = body\<rparr>))"

definition cr_export :: "'s writer \<Rightarrow> catalog_record \<Rightarrow> ('s, hfs_error, unit) act" where
  "cr_export wr x = fail UnsupportedOperation"

section \<open>Prescribed layouts and what the imports read\<close>

definition xfi_ok :: "extended_file_info \<Rightarrow> bool" where
  "xfi_ok x \<longleftrightarrow> length (xfi_reserved1 x) = 4"

definition cfi_ok :: "catalog_file \<Rightarrow> bool" where
  "cfi_ok x \<longleftrightarrow> xfi_ok (cfi_finder_info x) \<and> fd_ok (cfi_data_fork x) \<and> fd_ok (cfi_resource_fork x)"

text \<open>A key on disk; a name has at most 255 units, so its count fits its field.\<close>

definition ck_ok :: "catalog_key \<Rightarrow> bool" where
  "ck_ok k \<longleftrightarrow> \<not> ck_case_match k \<and> length (ck_node_name k) \<le> 255"

definition name_layout :: "u16 list \<Rightarrow> bytes" where
  "name_layout name = to_be (word_of_nat (length name) :: u16) @ concat (map to_be name)"

definition ck_layout :: "catalog_key \<Rightarrow> bytes" where
  "ck_layout k =
     to_be (word_of_nat (6 + 2 * length (ck_node_name k)) :: u16) @ to_be (ck_parent_id k) @
     name_layout (ck_node_name k)"

definition thread_layout :: "i16 \<Rightarrow> catalog_key \<Rightarrow> bytes" where
  "thread_layout reserved k =
     to_be reserved @ to_be (ck_parent_id k) @ name_layout (ck_node_name k)"

fun body_ok :: "catalog_body \<Rightarrow> bool" where
  "body_ok (BFolder f) = True"
| "body_ok (BFile f) = cfi_ok f"
| "body_ok (BFolderThread k) = ck_ok k"
| "body_ok (BFileThread k) = ck_ok k"

fun body_layout :: "i16 \<Rightarrow> catalog_body \<Rightarrow> bytes" where
  "body_layout r (BFolder f) = to_be (1 :: i16) @ cfo_layout f"
| "body_layout r (BFile f) = to_be (2 :: i16) @ cfi_layout f"
| "body_layout r (BFolderThread k) = to_be (3 :: i16) @ thread_layout r k"
| "body_layout r (BFileThread k) = to_be (4 :: i16) @ thread_layout r k"

lemma length_catalog_layouts [layout_simps]:
  "length (pt_layout p) = 4"
  "length (rect_layout r) = 8"
  "length (fi_layout fi) = 16"
  "length (foi_layout foi) = 16"
  "length (xfoi_layout xfoi) = 16"
  "length (cfo_layout cfo) = 86"
  by (simp_all add: pt_layout_def rect_layout_def fi_layout_def foi_layout_def xfoi_layout_def
      cfo_layout_def layout_simps)

lemma length_xfi_layout [layout_simps]: "xfi_ok x \<Longrightarrow> length (xfi_layout x) = 16"
  by (simp add: xfi_layout_def xfi_ok_def length_concat_map [of _ to_be 2])

lemma length_cfi_layout [layout_simps]: "cfi_ok x \<Longrightarrow> length (cfi_layout x) = 246"
  by (simp add: cfi_layout_def cfi_ok_def layout_simps)

context byte_source begin

lemma reads_pt [reads_rules]: "reads nxt (pt_import rd) (pt_layout x) x"
  unfolding pt_import_def pt_layout_def concat.simps
  by (rule reads_rules | simp)+

lemma reads_rect [reads_rules]: "reads nxt (rect_import rd) (rect_layout x) x"
  unfolding rect_import_def rect_layout_def concat.simps
  by (rule reads_rules | simp)+

lemma reads_fi [reads_rules]: "reads nxt (fi_import rd) (fi_layout x) x"
  unfolding fi_import_def fi_layout_def concat.simps
  by (rule reads_rules | simp)+

lemma reads_halves [reads_rules]:
  "length xs = n \<Longrightarrow> reads nxt (times_act n (read_i16_be rd)) (concat (map to_be xs)) xs"
  using reads_times [where xs = xs and m = "read_i16_be rd" and enc = to_be] reads_i16 by simp

lemma reads_units [reads_rules]:
  "length xs = n \<Longrightarrow> reads nxt (times_act n (read_u16_be rd)) (concat (map to_be xs)) xs"
  using reads_times [where xs = xs and m = "read_u16_be rd" and enc = to_be] reads_u16 by simp

lemma reads_xfi [reads_rules]: "xfi_ok x \<Longrightarrow> reads nxt (xfi_import rd) (xfi_layout x) x"
  unfolding xfi_import_def xfi_layout_def concat.simps xfi_ok_def
  by (rule reads_rules | simp)+

lemma reads_foi [reads_rules]: "reads nxt (foi_import rd) (foi_layout x) x"
  unfolding foi_import_def foi_layout_def concat.simps
  by (rule reads_rules | simp)+

lemma reads_xfoi [reads_rules]: "reads nxt (xfoi_import rd) (xfoi_layout x) x"
  unfolding xfoi_import_def xfoi_layout_def concat.simps
  by (rule reads_rules | simp)+

lemma reads_cfo [reads_rules]: "reads nxt (cfo_import rd) (cfo_layout x) x"
  unfolding cfo_import_def cfo_layout_def concat.simps
  by (rule reads_rules | simp)+

lemma reads_cfi [reads_rules]: "cfi_ok x \<Longrightarrow> reads nxt (cfi_import rd) (cfi_layout x) x"
  unfolding cfi_import_def cfi_layout_def concat.simps cfi_ok_def
  by (rule reads_rules | simp)+

lemma reads_name:
  assumes "length name \<le> 255" and "f name = ret w" and "v = w"
  shows "reads nxt (bnd (read_u16_be rd) (\<lambda>count. bnd (times_act (unat count) (read_u16_be rd)) f))
    (name_layout name) v"
proof -
  have len: "unat (word_of_nat (length name) :: u16) = length name"
    using assms(1) by (simp add: unat_of_nat take_bit_nat_eq_self)
  have "reads nxt (bnd (times_act (length name) (read_u16_be rd)) f) (concat (map to_be name)) v"
    using reads_bnd [OF reads_units [OF refl, of name], of f "[]" v] assms(2,3)
    by (simp add: reads_ret)
  then show ?thesis
    unfolding name_layout_def by (intro reads_bnd [OF reads_u16]) (simp add: len)
qed

lemma reads_thread [reads_rules]: "ck_ok k \<Longrightarrow> reads nxt (thread_import rd) (thread_layout r k) k"
  unfolding thread_import_def thread_layout_def ck_ok_def
  by (rule reads_bnd [OF reads_i16] reads_bnd [OF reads_u32] reads_name refl | simp)+

lemma reads_ck: "ck_ok k \<Longrightarrow> reads nxt (ck_import rd) (ck_layout k) k"
proof -
  assume ok: "ck_ok k"
  then have "\<not> (word_of_nat (6 + 2 * length (ck_node_name k)) :: u16) < 6"
    by (simp add: ck_ok_def word_less_nat_alt unat_of_nat take_bit_nat_eq_self
        del: of_nat_add of_nat_mult)
  with ok show ?thesis
    unfolding ck_import_def ck_layout_def ck_ok_def
    by (intro reads_bnd [OF reads_u16])
      (simp, (rule reads_bnd [OF reads_u32] reads_name refl | simp)+)
qed

lemma reads_record_type:
  "(record_type_from_i16 v :: ('s, hfs_error, _) act) = ret t \<Longrightarrow>
   reads nxt (bnd (read_i16_be rd) record_type_from_i16) (to_be v) t"
  using reads_bnd [OF reads_i16, of record_type_from_i16 v "[]" t] by (simp add: reads_ret)

lemma reads_cr:
  assumes "body_ok (cr_body x)"
  shows "reads nxt (cr_import rd (cr_key x)) (body_layout r (cr_body x)) x"
proof (cases "cr_body x")
  case (BFolder f)
  with assms show ?thesis
    by (simp add: cr_import_def)
      (rule reads_bnd [OF reads_record_type [where t = CFolder]],
       simp_all add: record_type_from_i16_def bnd_assoc reads_map [OF reads_cfo])
next
  case (BFile f)
  with assms show ?thesis
    by (simp add: cr_import_def)
      (rule reads_bnd [OF reads_record_type [where t = CFile]],
       simp_all add: record_type_from_i16_def bnd_assoc reads_map [OF reads_cfi])
next
  case (BFolderThread k)
  with assms show ?thesis
    by (simp add: cr_import_def)
      (rule reads_bnd [OF reads_record_type [where t = CFolderThread]],
       simp_all add: record_type_from_i16_def bnd_assoc reads_map [OF reads_thread])
next
  case (BFileThread k)
  with assms show ?thesis
    by (simp add: cr_import_def)
      (rule reads_bnd [OF reads_record_type [where t = CFileThread]],
       simp_all add: record_type_from_i16_def bnd_assoc reads_map [OF reads_thread])
qed

end

text \<open>
  The order of catalog keys inherits what the order of names promises; the name order is the
  case folding one of \<open>hfs_strings.rs\<close> or the binary one.
\<close>

lemma catalog_key_order: "key_order scmp \<Longrightarrow> key_order (catalog_key_cmp scmp)"
proof (unfold_locales, goal_cases)
  case (1 a)
  then show ?case by (simp add: catalog_key_cmp_def key_order.kcmp_refl cmp_def)
next
  case (2 a b)
  then show ?case
    by (auto simp: catalog_key_cmp_def cmp_def key_order.kcmp_flip split: if_splits)
next
  case (3 a b c)
  then show ?case
    by (auto simp: catalog_key_cmp_def cmp_def split: if_splits dest: key_order.kcmp_trans)
next
  case (4 a b c)
  then show ?case
    by (auto simp: catalog_key_cmp_def cmp_def split: if_splits dest: key_order.kcmp_equal)
qed

end
