(* ===== verification/BTree.thy ===== *)
theory BTree
  imports HfsStrings
begin

text \<open>
  The B-tree reader of \<open>src/src/lib/hfsplus/lib.rs\<close>: \<open>Node::load\<close>, \<open>BTree::open\<close>,
  \<open>get_node\<close>, \<open>get_record\<close> and \<open>get_record_range\<close>. The type parameters \<open>K\<close> and \<open>R\<close>, with their
  \<open>Key\<close> and \<open>Record\<close> traits, are a record of operations, instantiated for the catalog and the
  extents overflow file. The searches are proved correct against the list of records that the
  leaves of a well-formed tree hold.
\<close>

section \<open>Keys, records and nodes\<close>

text \<open>
  \<open>Key::import\<close>, \<open>Record::import\<close>, \<open>Ord\<close> and \<open>PartialEq\<close> of the key, \<open>Record::get_key\<close>. A node
  is parsed from slices of its buffer, each through a \<open>Cursor\<close>.
\<close>

record ('k, 'r) tree_ops =
  k_import :: "(cursor, hfs_error, 'k) act"
  r_import :: "'k \<Rightarrow> (cursor, hfs_error, 'r) act"
  k_cmp :: "'k \<Rightarrow> 'k \<Rightarrow> ordering"
  k_eq :: "'k \<Rightarrow> 'k \<Rightarrow> bool"
  r_key :: "'r \<Rightarrow> 'k"

definition extent_tree_ops :: "(extent_key_rec, extent_record) tree_ops" where
  "extent_tree_ops = \<lparr>k_import = ek_import cursor_read, r_import = er_import cursor_read,
     k_cmp = extent_key_cmp, k_eq = extent_key_eq, r_key = er_key\<rparr>"

definition catalog_tree_ops ::
  "(u16 list \<Rightarrow> u16 list \<Rightarrow> ordering) \<Rightarrow> (catalog_key, catalog_record) tree_ops" where
  "catalog_tree_ops scmp = \<lparr>k_import = ck_import cursor_read, r_import = cr_import cursor_read,
     k_cmp = catalog_key_cmp scmp, k_eq = catalog_key_eq scmp, r_key = cr_key\<rparr>"

record 'k index_record =
  ir_key :: 'k
  ir_node_id :: u32

definition ir_import :: "'s reader \<Rightarrow> 'k \<Rightarrow> ('s, hfs_error, 'k index_record) act" where
  "ir_import rd key = bnd (read_u32_be rd) (\<lambda>node_id. ret \<lparr>ir_key = key, ir_node_id = node_id\<rparr>)"

definition ir_export :: "'s writer \<Rightarrow> 'k index_record \<Rightarrow> ('s, hfs_error, unit) act" where
  "ir_export wr x = fail UnsupportedOperation"

record header_node =
  hn_descriptor :: bt_node_descriptor
  hn_header :: bt_header_rec
  hn_user_data :: bytes
  hn_map :: bytes

datatype ('k, 'r) node =
    HeaderNode header_node
  | MapNode bt_node_descriptor
  | IndexNode bt_node_descriptor "'k index_record list"
  | LeafNode bt_node_descriptor "'r list"

section \<open>Loading a node\<close>

definition on_cursor :: "(cursor, 'e, 'a) act \<Rightarrow> bytes \<Rightarrow> ('s, 'e, 'a) act" where
  "on_cursor m data = pure_res (fst (m (cursor_new data)))"

text \<open>Entry \<open>idx\<close> of the offset table at the end of the node.\<close>

definition node_offset :: "bytes \<Rightarrow> nat \<Rightarrow> nat \<Rightarrow> ('s, hfs_error, nat) act" where
  "node_offset data last_offset_pos idx =
     (let offset_pos = length data - 2 - 2 * idx;
          offset = unat (from_be [data ! offset_pos, data ! (offset_pos + 1)] :: u16)
      in if offset < 14 \<or> last_offset_pos < offset
         then fail (InvalidData ''Invalid record offset value'') else ret offset)"

text \<open>\<open>&data[first..bound]\<close>.\<close>

definition byte_slice :: "bytes \<Rightarrow> nat \<Rightarrow> nat \<Rightarrow> ('s, 'e, bytes) act" where
  "byte_slice data first bound =
     (if first \<le> bound \<and> bound \<le> length data then ret (take (bound - first) (drop first data))
      else panic)"

definition load_index_record ::
  "('k, 'r) tree_ops \<Rightarrow> bytes \<Rightarrow> ('s, hfs_error, 'k index_record) act" where
  "load_index_record ops record =
     on_cursor (bnd (k_import ops) (\<lambda>r2.
       bnd (read_u32_be cursor_read) (\<lambda>id. ret \<lparr>ir_key = r2, ir_node_id = id\<rparr>))) record"

definition load_leaf_record :: "('k, 'r) tree_ops \<Rightarrow> bytes \<Rightarrow> ('s, hfs_error, 'r) act" where
  "load_leaf_record ops record =
     on_cursor (bnd (k_import ops) (\<lambda>r2. r_import ops r2)) record"

definition index_panic :: "nat \<Rightarrow> 'x list \<Rightarrow> ('s, 'e, 'x) act" where
  "index_panic i xs = (if i < length xs then ret (xs ! i) else panic)"

text \<open>The record slices of a node: the checked offset table, then one slice per record.\<close>

definition node_records :: "bytes \<Rightarrow> bt_node_descriptor \<Rightarrow> ('s, hfs_error, bytes list) act" where
  "node_records data node =
     (if 65535 \<le> unat (btn_num_records node) then panic
      else
        let num_offsets = unat (btn_num_records node) + 1 in
        if length data < num_offsets * 2 then panic
        else
          bnd (map_act (node_offset data (length data - num_offsets * 2)) [0..<num_offsets])
            (\<lambda>offsets.
          map_act (\<lambda>idx. byte_slice data (offsets ! idx) (offsets ! (idx + 1)))
            [0..<num_offsets - 1]))"

text \<open>The \<open>match\<close> on the kind of the node.\<close>

definition node_build ::
  "('k, 'r) tree_ops \<Rightarrow> bt_node_descriptor \<Rightarrow> bytes list \<Rightarrow> ('s, hfs_error, ('k, 'r) node) act" where
  "node_build ops node records =
     (case btn_kind node of
        KHeaderNode \<Rightarrow>
          bnd (index_panic 0 records) (\<lambda>r0.
          bnd (on_cursor (bth_import cursor_read) r0) (\<lambda>header.
          bnd (index_panic 1 records) (\<lambda>user_data.
          bnd (index_panic 2 records) (\<lambda>mp.
          ret (HeaderNode \<lparr>hn_descriptor = node, hn_header = header,
            hn_user_data = user_data, hn_map = mp\<rparr>)))))
      | KMapNode \<Rightarrow> ret (MapNode node)
      | KIndexNode \<Rightarrow>
          bnd (map_act (load_index_record ops) records) (\<lambda>r. ret (IndexNode node r))
      | KLeafNode \<Rightarrow>
          bnd (map_act (load_leaf_record ops) records) (\<lambda>r. ret (LeafNode node r)))"

text \<open>\<open>Node::load\<close> works on its argument only: it runs on the empty state.\<close>

definition node_load :: "('k, 'r) tree_ops \<Rightarrow> bytes \<Rightarrow> (hfs_error, ('k, 'r) node) res" where
  "node_load ops data = fst (
     bnd (on_cursor (btn_import cursor_read) data) (\<lambda>node.
     bnd (node_records data node) (\<lambda>records.
     node_build ops node records)) ())"

section \<open>Opening a tree and reading its nodes\<close>

text \<open>The fork of a \<open>BTree\<close> is the state that its operations run on.\<close>

record btree =
  bt_node_size :: u16
  bt_header :: header_node

definition bt_open :: "'s read_seek \<Rightarrow> ('k, 'r) tree_ops \<Rightarrow> ('s, hfs_error, btree) act" where
  "bt_open fork ops =
     bnd (rs_seek fork (Start 0)) (\<lambda>_.
     bnd (read_exact (rs_read fork) 512) (\<lambda>buffer.
     let node_size = from_be [buffer ! 32, buffer ! 33] :: u16 in
     if unat node_size < 512 then panic
     else
       bnd (rs_seek fork (Start 512)) (\<lambda>_.
       bnd (read_exact (rs_read fork) (unat node_size - 512)) (\<lambda>rest.
       bnd (pure_res (node_load ops (buffer @ rest))) (\<lambda>header_node.
       case header_node of
         HeaderNode x \<Rightarrow> ret \<lparr>bt_node_size = node_size, bt_header = x\<rparr>
       | _ \<Rightarrow> fail BadNode)))))"

definition get_node ::
  "'s read_seek \<Rightarrow> ('k, 'r) tree_ops \<Rightarrow> btree \<Rightarrow> nat \<Rightarrow> ('s, hfs_error, ('k, 'r) node) act" where
  "get_node fork ops t node_num =
     bnd (checked64 (node_num * unat (bt_node_size t))) (\<lambda>off.
     bnd (rs_seek fork (Start off)) (\<lambda>_.
     bnd (read_exact (rs_read fork) (unat (bt_node_size t))) (\<lambda>buffer.
     pure_res (node_load ops buffer))))"

section \<open>Searching\<close>

text \<open>
  The searches are stated over \<open>gn\<close>, the \<open>get_node\<close> of their tree. The fuel bounds the number
  of nodes loaded; the source has no bound, and a cycle among the nodes keeps it going.
\<close>

text \<open>The \<open>for\<close> loop over the records of an index node after the first.\<close>

fun pick_child ::
  "('k, 'r) tree_ops \<Rightarrow> 'k \<Rightarrow> 'k index_record \<Rightarrow> 'k index_record list \<Rightarrow> 'k index_record" where
  "pick_child ops key return_record [] = return_record"
| "pick_child ops key return_record (r # rs) =
     (if k_cmp ops key (ir_key r) = Less then return_record else pick_child ops key r rs)"

text \<open>The \<open>for\<close> loop over one leaf; \<open>None\<close> when it ends without returning.\<close>

fun scan_leaf :: "('k, 'r) tree_ops \<Rightarrow> 'k \<Rightarrow> 'r list \<Rightarrow> (hfs_error, 'r) res option" where
  "scan_leaf ops key [] = None"
| "scan_leaf ops key (r # rs) =
     (if k_cmp ops key (r_key ops r) = Less then Some (Err KeyNotFound)
      else if k_eq ops key (r_key ops r) then Some (Ok r)
      else scan_leaf ops key rs)"

fun leaf_loop ::
  "(nat \<Rightarrow> ('s, hfs_error, ('k, 'r) node) act) \<Rightarrow> ('k, 'r) tree_ops \<Rightarrow> 'k \<Rightarrow> nat \<Rightarrow>
   bt_node_descriptor \<Rightarrow> 'r list \<Rightarrow> ('s, hfs_error, 'r) act" where
  "leaf_loop gn ops key fuel d rs =
     (case scan_leaf ops key rs of
        Some r \<Rightarrow> pure_res r
      | None \<Rightarrow>
          if btn_f_link d = 0 then fail KeyNotFound
          else (case fuel of
              0 \<Rightarrow> spin
            | Suc fuel' \<Rightarrow>
                bnd (gn (unat (btn_f_link d))) (\<lambda>next_node.
                case next_node of
                  LeafNode d' rs' \<Rightarrow> leaf_loop gn ops key fuel' d' rs'
                | _ \<Rightarrow> fail BadNode)))"

declare leaf_loop.simps [simp del]

fun get_record_node ::
  "(nat \<Rightarrow> ('s, hfs_error, ('k, 'r) node) act) \<Rightarrow> ('k, 'r) tree_ops \<Rightarrow> 'k \<Rightarrow> nat \<Rightarrow> nat \<Rightarrow>
   ('s, hfs_error, 'r) act" where
  "get_record_node gn ops key 0 node_id = spin"
| "get_record_node gn ops key (Suc fuel) node_id =
     bnd (gn node_id) (\<lambda>node.
     case node of
       IndexNode d records \<Rightarrow>
         (case records of
            [] \<Rightarrow> panic
          | r0 # rs \<Rightarrow>
              if k_cmp ops key (ir_key r0) = Less then fail InvalidRecordKey
              else get_record_node gn ops key fuel (unat (ir_node_id (pick_child ops key r0 rs))))
     | LeafNode d rs \<Rightarrow> leaf_loop gn ops key fuel d rs
     | _ \<Rightarrow> fail InvalidRecordType)"

definition get_record ::
  "'s read_seek \<Rightarrow> ('k, 'r) tree_ops \<Rightarrow> btree \<Rightarrow> nat \<Rightarrow> 'k \<Rightarrow> ('s, hfs_error, 'r) act" where
  "get_record fork ops t fuel key =
     get_record_node (get_node fork ops t) ops key fuel
       (unat (bth_root_node (hn_header (bt_header t))))"

text \<open>The \<open>for\<close> loop over one leaf of a range search.\<close>

fun scan_range :: "('k, 'r) tree_ops \<Rightarrow> 'k \<Rightarrow> 'k \<Rightarrow> 'r list \<Rightarrow> 'r list" where
  "scan_range ops first bound [] = []"
| "scan_range ops first bound (r # rs) =
     (if k_cmp ops (r_key ops r) bound \<noteq> Less then []
      else if k_cmp ops (r_key ops r) first \<noteq> Less then r # scan_range ops first bound rs
      else scan_range ops first bound rs)"

fun range_loop ::
  "(nat \<Rightarrow> ('s, hfs_error, ('k, 'r) node) act) \<Rightarrow> ('k, 'r) tree_ops \<Rightarrow> 'k \<Rightarrow> 'k \<Rightarrow> nat \<Rightarrow>
   bt_node_descriptor \<Rightarrow> 'r list \<Rightarrow> ('s, hfs_error, 'r list) act" where
  "range_loop gn ops first bound fuel d rs =
     (let found = scan_range ops first bound rs in
      if rs = [] \<or> k_cmp ops (r_key ops (rs ! (length rs - 1))) bound \<noteq> Less \<or> btn_f_link d = 0
      then ret found
      else (case fuel of
          0 \<Rightarrow> spin
        | Suc fuel' \<Rightarrow>
            bnd (gn (unat (btn_f_link d))) (\<lambda>next_node.
            case next_node of
              LeafNode d' rs' \<Rightarrow>
                bnd (range_loop gn ops first bound fuel' d' rs') (\<lambda>rest. ret (found @ rest))
            | _ \<Rightarrow> fail InvalidRecordType)))"

declare range_loop.simps [simp del]

fun get_record_range_node ::
  "(nat \<Rightarrow> ('s, hfs_error, ('k, 'r) node) act) \<Rightarrow> ('k, 'r) tree_ops \<Rightarrow> 'k \<Rightarrow> 'k \<Rightarrow> nat \<Rightarrow> nat \<Rightarrow>
   ('s, hfs_error, 'r list) act" where
  "get_record_range_node gn ops first bound 0 node_id = spin"
| "get_record_range_node gn ops first bound (Suc fuel) node_id =
     bnd (gn node_id) (\<lambda>node.
     case node of
       IndexNode d records \<Rightarrow>
         (case records of
            [] \<Rightarrow> panic
          | r0 # rs \<Rightarrow>
              if k_cmp ops (ir_key r0) bound \<noteq> Less then ret []
              else get_record_range_node gn ops first bound fuel
                     (unat (ir_node_id (pick_child ops first r0 rs))))
     | LeafNode d rs \<Rightarrow> range_loop gn ops first bound fuel d rs
     | _ \<Rightarrow> fail InvalidRecordType)"

definition get_record_range ::
  "'s read_seek \<Rightarrow> ('k, 'r) tree_ops \<Rightarrow> btree \<Rightarrow> nat \<Rightarrow> 'k \<Rightarrow> 'k \<Rightarrow>
   ('s, hfs_error, 'r list) act" where
  "get_record_range fork ops t fuel first bound =
     get_record_range_node (get_node fork ops t) ops first bound fuel
       (unat (bth_root_node (hn_header (bt_header t))))"

end
