(* ===== verification/BTreeSearch.thy ===== *)
theory BTreeSearch
  imports BTree
begin

text \<open>
  What a B-tree promises and the proof that the searches of \<open>BTree\<close> keep the promise. A tree
  on disk is described by a value of the type \<open>tree\<close>, whose leaves give the sorted list of
  records; \<open>stored\<close> and \<open>chained\<close> say that the nodes of the disk are those of the tree, \<open>ordered\<close>
  that its index keys separate the subtrees.
\<close>

section \<open>Trees\<close>

datatype ('k, 'r) tree = BLeaf nat "'r list" | BIndex nat "('k \<times> ('k, 'r) tree) list"

fun node_id :: "('k, 'r) tree \<Rightarrow> nat" where
  "node_id (BLeaf i rs) = i"
| "node_id (BIndex i cs) = i"

fun leaves :: "('k, 'r) tree \<Rightarrow> (nat \<times> 'r list) list" where
  "leaves (BLeaf i rs) = [(i, rs)]"
| "leaves (BIndex i cs) = concat (map (\<lambda>c. leaves (snd c)) cs)"

fun height :: "('k, 'r) tree \<Rightarrow> nat" where
  "height (BLeaf i rs) = 1"
| "height (BIndex i cs) = Suc (foldr max (map (\<lambda>c. height (snd c)) cs) 0)"

definition leaf_records :: "(nat \<times> 'r list) list \<Rightarrow> 'r list" where
  "leaf_records ls = concat (map snd ls)"

definition tree_records :: "('k, 'r) tree \<Rightarrow> 'r list" where
  "tree_records t = leaf_records (leaves t)"

text \<open>The index nodes of the disk are those of the tree.\<close>

fun stored :: "(nat \<Rightarrow> ('k, 'r) node option) \<Rightarrow> ('k, 'r) tree \<Rightarrow> bool" where
  "stored nodes (BLeaf i rs) = True"
| "stored nodes (BIndex i cs) =
     (cs \<noteq> [] \<and>
      (\<exists>d rs. nodes i = Some (IndexNode d rs) \<and> map ir_key rs = map fst cs \<and>
         map (\<lambda>r. unat (ir_node_id r)) rs = map (\<lambda>c. node_id (snd c)) cs) \<and>
      (\<forall>c \<in> set cs. stored nodes (snd c)))"

text \<open>The leaf nodes hold the records, each linked to the next, the last one to zero.\<close>

fun chained :: "(nat \<Rightarrow> ('k, 'r) node option) \<Rightarrow> (nat \<times> 'r list) list \<Rightarrow> bool" where
  "chained nodes [] = True"
| "chained nodes ((i, rs) # ls) =
     (i \<noteq> 0 \<and>
      (\<exists>d. nodes i = Some (LeafNode d rs) \<and>
         unat (btn_f_link d) = (case ls of [] \<Rightarrow> 0 | l # _ \<Rightarrow> fst l)) \<and>
      chained nodes ls)"

fun first_key_le :: "('k, 'r) tree_ops \<Rightarrow> ('k, 'r) tree \<Rightarrow> 'k \<Rightarrow> bool" where
  "first_key_le ops (BIndex i ((k', c) # cs)) k \<longleftrightarrow> k_cmp ops k k' \<noteq> Less"
| "first_key_le ops t k \<longleftrightarrow> True"

fun ordered :: "('k, 'r) tree_ops \<Rightarrow> ('k, 'r) tree \<Rightarrow> bool" where
  "ordered ops (BLeaf i rs) = True"
| "ordered ops (BIndex i cs) =
     (sorted_wrt (\<lambda>a b. \<forall>r \<in> set (tree_records (snd a)).
        k_cmp ops (r_key ops r) (fst b) = Less) cs \<and>
      (\<forall>c \<in> set cs. ordered ops (snd c) \<and> first_key_le ops (snd c) (fst c)))"

definition sorted_records :: "('k, 'r) tree_ops \<Rightarrow> 'r list \<Rightarrow> bool" where
  "sorted_records ops rs \<longleftrightarrow>
     sorted_wrt (\<lambda>a b. k_cmp ops (r_key ops a) (r_key ops b) = Less) rs"

text \<open>
  Every index key is a lower bound of the records below it; it suffices to say so of the first
  key of each index node.
\<close>

fun bounded :: "('k, 'r) tree_ops \<Rightarrow> ('k, 'r) tree \<Rightarrow> bool" where
  "bounded ops (BLeaf i rs) = True"
| "bounded ops (BIndex i cs) =
     ((case cs of [] \<Rightarrow> True | c # _ \<Rightarrow>
         \<forall>r \<in> set (tree_records (BIndex i cs)). k_cmp ops (r_key ops r) (fst c) \<noteq> Less) \<and>
      (\<forall>c \<in> set cs. bounded ops (snd c)))"

definition tree_on ::
  "(nat \<Rightarrow> ('k, 'r) node option) \<Rightarrow> ('k, 'r) tree_ops \<Rightarrow> ('k, 'r) tree \<Rightarrow> bool" where
  "tree_on nodes ops t \<longleftrightarrow>
     stored nodes t \<and> chained nodes (leaves t) \<and> ordered ops t \<and> bounded ops t \<and>
     sorted_records ops (tree_records t)"

section \<open>Specifications of the searches\<close>

fun lookup :: "('k, 'r) tree_ops \<Rightarrow> 'k \<Rightarrow> 'r list \<Rightarrow> (hfs_error, 'r) res" where
  "lookup ops key [] = Err KeyNotFound"
| "lookup ops key (r # rs) =
     (if k_cmp ops key (r_key ops r) = Less then Err KeyNotFound
      else if k_cmp ops key (r_key ops r) = Equal then Ok r
      else lookup ops key rs)"

definition between :: "('k, 'r) tree_ops \<Rightarrow> 'k \<Rightarrow> 'k \<Rightarrow> 'r list \<Rightarrow> 'r list" where
  "between ops first bound rs =
     filter (\<lambda>r. k_cmp ops (r_key ops r) first \<noteq> Less \<and> k_cmp ops (r_key ops r) bound = Less) rs"

lemma leaf_records_simps [simp]:
  "leaf_records [] = []"
  "leaf_records (l # ls) = snd l @ leaf_records ls"
  "leaf_records (ls @ ms) = leaf_records ls @ leaf_records ms"
  by (simp_all add: leaf_records_def)

lemma between_simps [simp]:
  "between ops first bound [] = []"
  "between ops first bound (xs @ ys) = between ops first bound xs @ between ops first bound ys"
  by (simp_all add: between_def)

lemma chained_append: "chained nodes (xs @ ys) \<Longrightarrow> chained nodes ys"
  by (induction nodes xs rule: chained.induct) auto

lemma leaves_split:
  "cs = pre @ c # post \<Longrightarrow>
   leaves (BIndex i cs) =
     concat (map (\<lambda>c. leaves (snd c)) pre) @ leaves (snd c) @ concat (map (\<lambda>c. leaves (snd c)) post)"
  by simp

lemma leaf_records_concat:
  "leaf_records (concat (map (\<lambda>c. leaves (snd c)) cs)) = concat (map (\<lambda>c. tree_records (snd c)) cs)"
  by (induction cs) (simp_all add: tree_records_def)

lemma height_child: "c \<in> set cs \<Longrightarrow> height (snd c) < height (BIndex i cs)"
  by (induction cs) auto

section \<open>The keys of a tree\<close>

locale tree_keys = key_order "k_cmp ops" for ops :: "('k, 'r) tree_ops" +
  assumes k_eq_iff: "k_eq ops a b \<longleftrightarrow> k_cmp ops a b = Equal"
begin

lemma scan_leaf_lookup:
  "lookup ops key (rs @ ms) =
     (case scan_leaf ops key rs of Some r \<Rightarrow> r | None \<Rightarrow> lookup ops key ms)"
  by (induction rs) (simp_all add: k_eq_iff)

lemma lookup_skip:
  "(\<And>r. r \<in> set as \<Longrightarrow> k_cmp ops (r_key ops r) key = Less) \<Longrightarrow>
   lookup ops key (as @ rs) = lookup ops key rs"
proof (induction as)
  case (Cons a as)
  then have "k_cmp ops key (r_key ops a) = Greater" using kcmp_flip by simp
  with Cons show ?case by simp
qed simp

lemma lookup_found:
  "sorted_records ops rs \<Longrightarrow> r \<in> set rs \<Longrightarrow> k_cmp ops key (r_key ops r) = Equal \<Longrightarrow>
   lookup ops key rs = Ok r"
proof (induction rs)
  case (Cons a rs)
  show ?case
  proof (cases "a = r")
    case True
    with Cons.prems show ?thesis by simp
  next
    case False
    with Cons.prems have r: "r \<in> set rs" and lt: "k_cmp ops (r_key ops a) (r_key ops r) = Less"
      by (auto simp: sorted_records_def)
    then have "k_cmp ops (r_key ops a) key = Less"
      using Cons.prems(3) kcmp_equal_right by metis
    then have "k_cmp ops key (r_key ops a) = Greater" using kcmp_flip by simp
    with Cons r show ?thesis by (simp add: sorted_records_def)
  qed
qed simp

lemma lookup_absent:
  "(\<And>r. r \<in> set rs \<Longrightarrow> k_cmp ops key (r_key ops r) \<noteq> Equal) \<Longrightarrow>
   lookup ops key rs = Err KeyNotFound"
  by (induction rs) simp_all

lemma pick_child_split:
  "\<exists>pre r post. r0 # rs = pre @ r # post \<and> pick_child ops key r0 rs = r \<and>
     (pre = [] \<or> k_cmp ops key (ir_key r) \<noteq> Less)"
proof (induction rs arbitrary: r0)
  case Nil
  show ?case by auto
next
  case (Cons r1 rs)
  show ?case
  proof (cases "k_cmp ops key (ir_key r1) = Less")
    case True
    then show ?thesis by auto
  next
    case False
    from Cons [of r1] obtain pre r post where s: "r1 # rs = pre @ r # post"
      "pick_child ops key r1 rs = r" "pre = [] \<or> k_cmp ops key (ir_key r) \<noteq> Less" by blast
    with False have "k_cmp ops key (ir_key r) \<noteq> Less" by auto
    moreover have "r0 # r1 # rs = (r0 # pre) @ r # post" using s(1) by simp
    moreover have "pick_child ops key r0 (r1 # rs) = r" using False s(2) by simp
    ultimately have "r0 # r1 # rs = (r0 # pre) @ r # post \<and>
        pick_child ops key r0 (r1 # rs) = r \<and>
        (r0 # pre = [] \<or> k_cmp ops key (ir_key r) \<noteq> Less)" by blast
    then show ?thesis by blast
  qed
qed

text \<open>The child that an index node leads to, and what lies to its left.\<close>

lemma pick_child_tree:
  assumes st: "map ir_key (r0 # rs) = map fst cs"
      "map (\<lambda>r. unat (ir_node_id r)) (r0 # rs) = map (\<lambda>c. node_id (snd c)) cs"
    and ord: "ordered ops (BIndex i cs)"
  obtains pre k c post where
    "cs = pre @ (k, c) # post"
    "unat (ir_node_id (pick_child ops key r0 rs)) = node_id c"
    "\<And>r. r \<in> set (concat (map (\<lambda>c. tree_records (snd c)) pre)) \<Longrightarrow>
        k_cmp ops (r_key ops r) key = Less"
    "pre = [] \<or> k_cmp ops key k \<noteq> Less"
    "pre = [] \<Longrightarrow> k = ir_key r0"
    "ordered ops c" "first_key_le ops c k"
proof -
  obtain pre' r post' where s: "r0 # rs = pre' @ r # post'" "pick_child ops key r0 rs = r"
    "pre' = [] \<or> k_cmp ops key (ir_key r) \<noteq> Less"
    using pick_child_split by blast
  define n where "n = length pre'"
  have len: "length cs = length (r0 # rs)" using st(1) by (metis length_map)
  then have n: "n < length cs" using s(1) by (simp add: n_def)
  obtain k c where kc: "cs ! n = (k, c)" by (cases "cs ! n")
  have cs: "cs = take n cs @ (k, c) # drop (Suc n) cs"
    using n kc by (metis id_take_nth_drop)
  have r: "r = (r0 # rs) ! n" using s(1) by (simp add: n_def)
  have key: "ir_key r = k"
    using st(1) n len kc r by (metis fst_conv nth_map)
  have id: "unat (ir_node_id r) = node_id c"
    using arg_cong [OF st(2), of "\<lambda>xs. xs ! n"] n len kc r by (simp del: list.map)
  have mem: "(k, c) \<in> set cs" using n kc by (metis nth_mem)
  have left: "k_cmp ops (r_key ops x) key = Less"
    if x: "x \<in> set (concat (map (\<lambda>c. tree_records (snd c)) (take n cs)))" for x
  proof -
    from x have "n \<noteq> 0" by (cases n) auto
    then have ge: "k_cmp ops key k \<noteq> Less" using s(3) key by (auto simp: n_def)
    have "sorted_wrt (\<lambda>a b. \<forall>r \<in> set (tree_records (snd a)).
        k_cmp ops (r_key ops r) (fst b) = Less) (take n cs @ (k, c) # drop (Suc n) cs)"
      using ord cs by simp
    then have "k_cmp ops (r_key ops x) k = Less"
      using x unfolding sorted_wrt_append by fastforce
    then show ?thesis using ge kcmp_less_not_less_trans by blast
  qed
  have first: "take n cs = [] \<Longrightarrow> k = ir_key r0"
    using n r key by (cases n) auto
  have edge: "take n cs = [] \<or> k_cmp ops key k \<noteq> Less"
    using s(3) key by (auto simp: n_def)
  have sub: "ordered ops c" "first_key_le ops c k" using ord mem by auto
  show ?thesis
    by (rule that [OF cs _ left edge first sub]) (use s(2) id in auto)
qed

end

section \<open>A store of nodes\<close>

text \<open>\<open>gn\<close> is the \<open>get_node\<close> of the tree; it returns the node that the disk holds.\<close>

locale node_store = tree_keys ops for ops :: "('k, 'r) tree_ops" +
  fixes gn :: "nat \<Rightarrow> ('s, hfs_error, ('k, 'r) node) act"
    and nodes :: "nat \<Rightarrow> ('k, 'r) node option"
    and ready :: "'s \<Rightarrow> bool"
  assumes gn_node: "ready s \<Longrightarrow> nodes i = Some n \<Longrightarrow> \<exists>s'. gn i s = (Ok n, s') \<and> ready s'"
begin

lemma leaf_loop_lookup:
  "ready s \<Longrightarrow> chained nodes ((i, rs) # ls) \<Longrightarrow> nodes i = Some (LeafNode d rs) \<Longrightarrow>
   length ls \<le> fuel \<Longrightarrow>
   \<exists>s'. leaf_loop gn ops key fuel d rs s = (lookup ops key (rs @ leaf_records ls), s') \<and> ready s'"
proof (induction ls arbitrary: s i rs d fuel)
  case Nil
  then have "btn_f_link d = 0" by (auto simp: unat_eq_0)
  with Nil scan_leaf_lookup [of key rs "[]"] show ?case
    by (auto simp: leaf_loop.simps [of _ _ _ fuel] fail_run pure_res_def
        split: option.split)
next
  case (Cons l ls)
  obtain j rs' where l: "l = (j, rs')" by (cases l)
  from Cons.prems l obtain d' where link: "unat (btn_f_link d) = j" and j: "j \<noteq> 0"
    and d': "nodes j = Some (LeafNode d' rs')" and ch: "chained nodes ((j, rs') # ls)" by auto
  from Cons.prems(4) obtain fuel' where f: "fuel = Suc fuel'" "length ls \<le> fuel'"
    by (cases fuel) auto
  have nz: "btn_f_link d \<noteq> 0" using link j by auto
  show ?case
  proof (cases "scan_leaf ops key rs")
    case (Some r)
    with Cons.prems(1) show ?thesis
      by (simp add: leaf_loop.simps [of _ _ _ fuel] scan_leaf_lookup pure_res_def)
  next
    case None
    from gn_node [OF Cons.prems(1) d'] obtain t where
      t: "gn j s = (Ok (LeafNode d' rs'), t)" "ready t" by blast
    have "leaf_loop gn ops key fuel d rs s = leaf_loop gn ops key fuel' d' rs' t"
      using None nz t(1) link f(1)
      by (subst leaf_loop.simps) (simp add: bnd_Ok [where m = "gn j"])
    with Cons.IH [OF t(2) ch d' f(2)] None show ?thesis
      by (simp add: scan_leaf_lookup [of key rs] l)
  qed
qed

lemma get_record_node_lookup:
  "ready s \<Longrightarrow> stored nodes t \<Longrightarrow> chained nodes (leaves t @ ls) \<Longrightarrow> ordered ops t \<Longrightarrow>
   first_key_le ops t key \<Longrightarrow> height t + length (leaves t @ ls) \<le> fuel \<Longrightarrow>
   \<exists>s'. get_record_node gn ops key fuel (node_id t) s =
        (lookup ops key (tree_records t @ leaf_records ls), s') \<and> ready s'"
proof (induction t arbitrary: s ls fuel)
  case (BLeaf i rs)
  then obtain d where d: "nodes i = Some (LeafNode d rs)" by auto
  from BLeaf.prems obtain fuel' where f: "fuel = Suc fuel'" "length ls \<le> fuel'"
    by (cases fuel) auto
  from gn_node [OF BLeaf.prems(1) d] obtain s1 where
    s1: "gn i s = (Ok (LeafNode d rs), s1)" "ready s1" by blast
  from leaf_loop_lookup [OF s1(2) _ d f(2), of key] BLeaf.prems(3) s1(1) f(1) show ?case
    by (simp add: bnd_Ok [where m = "gn i"] tree_records_def)
next
  case (BIndex i cs)
  let ?t = "BIndex i cs"
  from BIndex.prems obtain d r0 rs where
    node: "nodes i = Some (IndexNode d (r0 # rs))" and
    keys: "map ir_key (r0 # rs) = map fst cs" and
    ids: "map (\<lambda>r. unat (ir_node_id r)) (r0 # rs) = map (\<lambda>c. node_id (snd c)) cs"
    by (auto simp: neq_Nil_conv)
  from gn_node [OF BIndex.prems(1) node] obtain s1 where
    s1: "gn i s = (Ok (IndexNode d (r0 # rs)), s1)" "ready s1" by blast
  have ge: "k_cmp ops key (ir_key r0) \<noteq> Less"
    using BIndex.prems(5) keys by (cases cs) auto
  from pick_child_tree [OF keys ids BIndex.prems(4), of key] obtain pre k c post where
    cs: "cs = pre @ (k, c) # post" and
    id: "unat (ir_node_id (pick_child ops key r0 rs)) = node_id c" and
    left: "\<And>r. r \<in> set (concat (map (\<lambda>c. tree_records (snd c)) pre)) \<Longrightarrow>
        k_cmp ops (r_key ops r) key = Less" and
    edge: "pre = [] \<or> k_cmp ops key k \<noteq> Less" "pre = [] \<Longrightarrow> k = ir_key r0" and
    sub: "ordered ops c" "first_key_le ops c k" by blast
  have kle: "k_cmp ops key k \<noteq> Less" using edge ge by auto
  have fkl: "first_key_le ops c key"
  proof (cases "(ops, c, k)" rule: first_key_le.cases)
    case (1 ops' i' k' c' cs' k'')
    with sub(2) kle have "k_cmp ops k k' \<noteq> Less" "k_cmp ops key k \<noteq> Less" by auto
    then have "k_cmp ops key k' \<noteq> Less"
      by (metis kcmp_not_less_trans kcmp_flip kcmp_equal kcmp_equal_sym kcmp_trans ordering.exhaust)
    with 1 show ?thesis by simp
  qed auto
  define post' where "post' = concat (map (\<lambda>c. leaves (snd c)) post) @ ls"
  have lv: "leaves ?t @ ls = concat (map (\<lambda>c. leaves (snd c)) pre) @ leaves c @ post'"
    by (simp add: cs post'_def)
  from BIndex.prems obtain fuel' where f: "fuel = Suc fuel'" by (cases fuel) auto
  have h: "height c < height ?t" using height_child [of "(k, c)" cs i] cs by auto
  have "height c + length (leaves c @ post') \<le> fuel'"
    using BIndex.prems(6) f h arg_cong [OF lv, of length] by simp
  moreover have "chained nodes (leaves c @ post')"
    using BIndex.prems(3) lv chained_append by metis
  moreover have "stored nodes c" using BIndex.prems(2) cs by auto
  ultimately obtain s2 where
    "get_record_node gn ops key fuel' (node_id c) s1
       = (lookup ops key (tree_records c @ leaf_records post'), s2)" "ready s2"
    using BIndex.IH [of "(k, c)" c s1 post' fuel'] cs sub(1) fkl s1(2) by auto
  moreover have "tree_records ?t @ leaf_records ls =
      concat (map (\<lambda>c. tree_records (snd c)) pre) @ tree_records c @ leaf_records post'"
    by (simp add: tree_records_def leaf_records_concat cs post'_def)
  ultimately show ?case
    using f ge id s1(1)
      lookup_skip [of "concat (map (\<lambda>c. tree_records (snd c)) pre)" key, OF left] by (simp add: bnd_Ok [where m = "gn i"])
qed

text \<open>The same for ranges; here no leaf may be empty, since an empty leaf ends the loop.\<close>

lemma scan_range_between:
  "sorted_records ops rs \<Longrightarrow> scan_range ops first bound rs = between ops first bound rs"
proof (induction rs)
  case (Cons r rs)
  show ?case
  proof (cases "k_cmp ops (r_key ops r) bound = Less")
    case True
    with Cons show ?thesis by (simp add: sorted_records_def between_def)
  next
    case False
    have "k_cmp ops (r_key ops x) bound \<noteq> Less" if "x \<in> set rs" for x
      using Cons.prems that False by (auto simp: sorted_records_def dest: kcmp_trans)
    then have "between ops first bound rs = []" by (auto simp: between_def filter_empty_conv)
    with False show ?thesis by (simp add: between_def)
  qed
qed simp

lemma between_beyond:
  "\<not> k_cmp ops (r_key ops r) bound = Less \<Longrightarrow>
   (\<And>x. x \<in> set rs \<Longrightarrow> k_cmp ops (r_key ops r) (r_key ops x) = Less) \<Longrightarrow>
   between ops first bound rs = []"
  by (auto simp: between_def filter_empty_conv dest: kcmp_trans)

lemma range_loop_between:
  "ready s \<Longrightarrow> chained nodes ((i, rs) # ls) \<Longrightarrow> nodes i = Some (LeafNode d rs) \<Longrightarrow>
   length ls \<le> fuel \<Longrightarrow> sorted_records ops (rs @ leaf_records ls) \<Longrightarrow>
   (\<forall>l \<in> set ((i, rs) # ls). snd l \<noteq> []) \<Longrightarrow>
   \<exists>s'. range_loop gn ops first bound fuel d rs s
        = (Ok (between ops first bound (rs @ leaf_records ls)), s') \<and> ready s'"
proof (induction ls arbitrary: s i rs d fuel)
  case Nil
  then have "btn_f_link d = 0" by (auto simp: unat_eq_0)
  with Nil show ?case
    by (subst range_loop.simps) (auto simp: Let_def ret_run scan_range_between)
next
  case (Cons l ls)
  obtain j rs' where l: "l = (j, rs')" by (cases l)
  from Cons.prems l obtain d' where link: "unat (btn_f_link d) = j" and j: "j \<noteq> 0"
    and d': "nodes j = Some (LeafNode d' rs')" and ch: "chained nodes ((j, rs') # ls)" by auto
  from Cons.prems(4) obtain fuel' where f: "fuel = Suc fuel'" "length ls \<le> fuel'"
    by (cases fuel) auto
  have nz: "btn_f_link d \<noteq> 0" using link j by auto
  have ne: "rs \<noteq> []" using Cons.prems(6) by simp
  have srt: "sorted_records ops rs" "sorted_records ops (rs' @ leaf_records ls)"
    using Cons.prems(5) l by (auto simp: sorted_records_def sorted_wrt_append)
  show ?case
  proof (cases "k_cmp ops (r_key ops (last rs)) bound = Less")
    case False
    have "k_cmp ops (r_key ops (last rs)) (r_key ops x) = Less"
      if "x \<in> set (leaf_records (l # ls))" for x
      using Cons.prems(5) ne that by (auto simp: sorted_records_def sorted_wrt_append)
    with False have "between ops first bound (leaf_records (l # ls)) = []"
      by (rule between_beyond)
    with False ne srt(1) Cons.prems(1) show ?thesis
      by (subst range_loop.simps)
        (auto simp: Let_def ret_run scan_range_between last_conv_nth simp del: leaf_records_simps)
  next
    case True
    from gn_node [OF Cons.prems(1) d'] obtain t where
      t: "gn j s = (Ok (LeafNode d' rs'), t)" "ready t" by blast
    from Cons.IH [OF t(2) ch d' f(2) srt(2)] Cons.prems(6) l obtain s2 where
      "range_loop gn ops first bound fuel' d' rs' t
         = (Ok (between ops first bound (rs' @ leaf_records ls)), s2)" "ready s2" by auto
    with True ne nz t(1) link f(1) srt(1) l show ?thesis
      by (subst range_loop.simps)
        (simp add: Let_def last_conv_nth scan_range_between bnd_Ok [where m = "gn j"]
          bnd_Ok [where m = "range_loop gn ops first bound fuel' d' rs'"] ret_run)
  qed
qed

lemma tree_records_nonempty:
  "stored nodes t \<Longrightarrow> (\<forall>l \<in> set (leaves t). snd l \<noteq> []) \<Longrightarrow> tree_records t \<noteq> []"
proof (induction t)
  case (BLeaf i rs)
  then show ?case by (simp add: tree_records_def)
next
  case (BIndex i cs)
  then obtain c cs' where cs: "cs = c # cs'" by (auto simp: neq_Nil_conv)
  have "tree_records (snd c) \<noteq> []"
    by (rule BIndex.IH [of c]) (use BIndex.prems cs in \<open>auto simp: snds.simps\<close>)
  then show ?case by (simp add: tree_records_def cs)
qed

lemma between_before:
  "(\<And>r. r \<in> set as \<Longrightarrow> k_cmp ops (r_key ops r) first = Less) \<Longrightarrow> between ops first bound as = []"
  by (auto simp: between_def filter_empty_conv)

lemma get_record_range_node_between:
  "ready s \<Longrightarrow> stored nodes t \<Longrightarrow> chained nodes (leaves t @ ls) \<Longrightarrow> ordered ops t \<Longrightarrow>
   bounded ops t \<Longrightarrow> (\<forall>l \<in> set (leaves t @ ls). snd l \<noteq> []) \<Longrightarrow>
   sorted_records ops (tree_records t @ leaf_records ls) \<Longrightarrow>
   height t + length (leaves t @ ls) \<le> fuel \<Longrightarrow>
   \<exists>s'. get_record_range_node gn ops first bound fuel (node_id t) s =
        (Ok (between ops first bound (tree_records t @ leaf_records ls)), s') \<and> ready s'"
proof (induction t arbitrary: s ls fuel)
  case (BLeaf i rs)
  then obtain d where d: "nodes i = Some (LeafNode d rs)" by auto
  from BLeaf.prems obtain fuel' where f: "fuel = Suc fuel'" "length ls \<le> fuel'"
    by (cases fuel) auto
  from gn_node [OF BLeaf.prems(1) d] obtain s1 where
    s1: "gn i s = (Ok (LeafNode d rs), s1)" "ready s1" by blast
  have "sorted_records ops (rs @ leaf_records ls)"
    using BLeaf.prems(7) by (simp add: tree_records_def)
  from range_loop_between [OF s1(2) _ d f(2) this] BLeaf.prems(3,6) s1(1) f(1) show ?case
    by (simp add: bnd_Ok [where m = "gn i"] tree_records_def)
next
  case (BIndex i cs)
  let ?t = "BIndex i cs"
  from BIndex.prems obtain d r0 rs where
    node: "nodes i = Some (IndexNode d (r0 # rs))" and
    keys: "map ir_key (r0 # rs) = map fst cs" and
    ids: "map (\<lambda>r. unat (ir_node_id r)) (r0 # rs) = map (\<lambda>c. node_id (snd c)) cs"
    by (auto simp: neq_Nil_conv)
  from gn_node [OF BIndex.prems(1) node] obtain s1 where
    s1: "gn i s = (Ok (IndexNode d (r0 # rs)), s1)" "ready s1" by blast
  from BIndex.prems obtain fuel' where f: "fuel = Suc fuel'" by (cases fuel) auto
  show ?case
  proof (cases "k_cmp ops (ir_key r0) bound = Less")
    case False
    have ge: "k_cmp ops (r_key ops r) (ir_key r0) \<noteq> Less" if "r \<in> set (tree_records ?t)" for r
      using BIndex.prems(5) keys that by (cases cs) auto
    have "tree_records ?t \<noteq> []"
      by (rule tree_records_nonempty [OF BIndex.prems(2)]) (use BIndex.prems(6) in auto)
    then obtain r rest where rr: "tree_records ?t = r # rest" by (auto simp: neq_Nil_conv)
    with ge [of r] False have rb: "k_cmp ops (r_key ops r) bound \<noteq> Less"
      by (auto dest: kcmp_less_not_less_trans)
    with BIndex.prems(7) rr have "between ops first bound (rest @ leaf_records ls) = []"
      by (intro between_beyond [of r]) (auto simp: sorted_records_def)
    with rb rr f s1 False show ?thesis
      by (auto simp: bnd_Ok [where m = "gn i"] ret_run between_def)
  next
    case True
    from pick_child_tree [OF keys ids BIndex.prems(4), of first] obtain pre k c post where
      cs: "cs = pre @ (k, c) # post" and
      id: "unat (ir_node_id (pick_child ops first r0 rs)) = node_id c" and
      left: "\<And>r. r \<in> set (concat (map (\<lambda>c. tree_records (snd c)) pre)) \<Longrightarrow>
          k_cmp ops (r_key ops r) first = Less" and
      edge: "pre = [] \<or> k_cmp ops first k \<noteq> Less" "pre = [] \<Longrightarrow> k = ir_key r0" and
      sub: "ordered ops c" "first_key_le ops c k" by blast
    define post' where "post' = concat (map (\<lambda>c. leaves (snd c)) post) @ ls"
    define as where "as = concat (map (\<lambda>c. tree_records (snd c)) pre)"
    have lv: "leaves ?t @ ls = concat (map (\<lambda>c. leaves (snd c)) pre) @ leaves c @ post'"
      by (simp add: cs post'_def)
    have recs: "tree_records ?t @ leaf_records ls = as @ tree_records c @ leaf_records post'"
      by (simp add: tree_records_def leaf_records_concat cs post'_def as_def)
    have h: "height c < height ?t" using height_child [of "(k, c)" cs i] cs by auto
    have "height c + length (leaves c @ post') \<le> fuel'"
      using BIndex.prems(8) f h arg_cong [OF lv, of length] by simp
    moreover have "chained nodes (leaves c @ post')"
      using BIndex.prems(3) lv chained_append by metis
    moreover have "stored nodes c" "bounded ops c" using BIndex.prems(2,5) cs by auto
    moreover have "\<forall>l \<in> set (leaves c @ post'). snd l \<noteq> []"
      using BIndex.prems(6) unfolding lv by (auto simp del: leaves.simps)
    moreover have "sorted_records ops (tree_records c @ leaf_records post')"
      using BIndex.prems(7) unfolding recs by (auto simp: sorted_records_def sorted_wrt_append)
    ultimately obtain s2 where
      "get_record_range_node gn ops first bound fuel' (node_id c) s1
         = (Ok (between ops first bound (tree_records c @ leaf_records post')), s2)" "ready s2"
      using BIndex.IH [of "(k, c)" c s1 post' fuel'] cs sub(1) s1(2) by auto
    moreover have "between ops first bound as = []"
      using left by (intro between_before) (simp add: as_def)
    ultimately show ?thesis
      using f id s1(1) True unfolding recs by (simp add: bnd_Ok [where m = "gn i"])
  qed
qed

text \<open>The three outcomes of a search from the root.\<close>

lemma get_record_node_found:
  assumes "ready s" and "tree_on nodes ops t" and "height t + length (leaves t) \<le> fuel"
    and "r \<in> set (tree_records t)" and "k_cmp ops key (r_key ops r) = Equal"
  shows "\<exists>s'. get_record_node gn ops key fuel (node_id t) s = (Ok r, s') \<and> ready s'"
proof -
  have "first_key_le ops t key"
  proof (cases "(ops, t, key)" rule: first_key_le.cases)
    case (1 ops' i k c cs k')
    with assms(2,4) have "k_cmp ops (r_key ops r) k \<noteq> Less" by (auto simp: tree_on_def)
    moreover have "k_cmp ops key k = k_cmp ops (r_key ops r) k" by (rule kcmp_equal [OF assms(5)])
    ultimately show ?thesis using 1 by simp
  qed auto
  with assms lookup_found [OF _ assms(4,5)] get_record_node_lookup [of s t "[]" key fuel]
  show ?thesis by (auto simp: tree_on_def)
qed

lemma get_record_node_absent:
  assumes "ready s" and "tree_on nodes ops t" and "height t + length (leaves t) \<le> fuel"
    and "\<And>r. r \<in> set (tree_records t) \<Longrightarrow> k_cmp ops key (r_key ops r) \<noteq> Equal"
    and "first_key_le ops t key"
  shows "\<exists>s'. get_record_node gn ops key fuel (node_id t) s = (Err KeyNotFound, s') \<and> ready s'"
  using assms lookup_absent [OF assms(4)] get_record_node_lookup [of s t "[]" key fuel]
  by (auto simp: tree_on_def)

lemma get_record_node_below:
  assumes "ready s" and "tree_on nodes ops t" and "0 < fuel" and "\<not> first_key_le ops t key"
  shows "\<exists>s'. get_record_node gn ops key fuel (node_id t) s = (Err InvalidRecordKey, s') \<and> ready s'"
proof (cases "(ops, t, key)" rule: first_key_le.cases)
  case (1 ops' i k c cs key')
  with assms(2) obtain d r0 rs where
    node: "nodes i = Some (IndexNode d (r0 # rs))" and key: "ir_key r0 = k"
    by (auto simp: tree_on_def)
  from gn_node [OF assms(1) node] obtain s1 where
    "gn i s = (Ok (IndexNode d (r0 # rs)), s1)" "ready s1" by blast
  moreover obtain fuel' where "fuel = Suc fuel'" using assms(3) by (cases fuel) auto
  ultimately show ?thesis using assms(4) 1 key by (auto simp: bnd_Ok [where m = "gn i"] fail_run)
qed (use assms(4) in auto)

end

section \<open>The nodes of a device\<close>

text \<open>Node \<open>i\<close> of a fork whose bytes are \<open>content\<close>.\<close>

definition node_bytes :: "bytes \<Rightarrow> nat \<Rightarrow> nat \<Rightarrow> bytes" where
  "node_bytes content sz i = take sz (drop (i * sz) content)"

definition disk_nodes ::
  "bytes \<Rightarrow> ('k, 'r) tree_ops \<Rightarrow> btree \<Rightarrow> nat \<Rightarrow> ('k, 'r) node option" where
  "disk_nodes content ops t i =
     (let sz = unat (bt_node_size t) in
      if i * sz + sz \<le> length content \<and> i * sz < 2 ^ 64
      then (case node_load ops (node_bytes content sz i) of Ok n \<Rightarrow> Some n | _ \<Rightarrow> None)
      else None)"

context disk begin

lemma get_node_disk:
  assumes "ready s p" and "disk_nodes content ops t i = Some n"
  shows "\<exists>s'. get_node dev ops t i s = (Ok n, s') \<and> (\<exists>p'. ready s' p')"
proof -
  define sz where "sz = unat (bt_node_size t)"
  have fits: "i * sz + sz \<le> length content" "i * sz < 2 ^ 64"
    and n: "node_load ops (take sz (drop (i * sz) content)) = Ok n"
    using assms(2) by (auto simp: disk_nodes_def Let_def sz_def node_bytes_def
        split: if_splits res.splits)
  from read_exact_from [OF assms(1) fits(1)] obtain s1 s2 where
    s1: "rs_seek dev (Start (i * sz)) s = (Ok (i * sz), s1)" and
    s2: "read_exact (rs_read dev) sz s1 = (Ok (take sz (drop (i * sz) content)), s2)" and
    r: "ready s2 (i * sz + sz)" by blast
  have "get_node dev ops t i s = (Ok n, s2)"
    using fits(2) n by (simp add: get_node_def checked64_def flip: sz_def)
      (simp add: bnd_Ok [where m = "rs_seek dev (Start (i * sz))", OF s1]
        bnd_Ok [where m = "read_exact (rs_read dev) sz", OF s2] ret_run)
  with r show ?thesis by blast
qed

end

lemma extent_keys: "tree_keys extent_tree_ops"
  by (intro tree_keys.intro tree_keys_axioms.intro)
    (simp_all add: extent_tree_ops_def extent_key_eq_def ekey.key_order_axioms)

lemma catalog_keys: "key_order scmp \<Longrightarrow> tree_keys (catalog_tree_ops scmp)"
  by (intro tree_keys.intro tree_keys_axioms.intro)
    (simp_all add: catalog_tree_ops_def catalog_key_eq_def catalog_key_order)

context disk begin

lemma store_of_disk:
  "tree_keys ops \<Longrightarrow>
   node_store ops (get_node dev ops t) (disk_nodes content ops t) (\<lambda>s. \<exists>p. ready s p)"
  by (intro node_store.intro node_store_axioms.intro) (auto intro: get_node_disk)

end

text \<open>A tree that \<open>get_record\<close> and \<open>get_record_range\<close> search, with fuel for every node of it.\<close>

definition tree_at ::
  "bytes \<Rightarrow> ('k, 'r) tree_ops \<Rightarrow> btree \<Rightarrow> ('k, 'r) tree \<Rightarrow> nat \<Rightarrow> bool" where
  "tree_at bs ops t tr fuel \<longleftrightarrow> tree_keys ops \<and> tree_on (disk_nodes bs ops t) ops tr \<and>
     node_id tr = unat (bth_root_node (hn_header (bt_header t))) \<and>
     height tr + length (leaves tr) \<le> fuel"

context disk begin

lemma get_record_present:
  assumes "tree_at content ops t tr fuel" and "ready s p"
    and "r \<in> set (tree_records tr)" and "k_cmp ops key (r_key ops r) = Equal"
  shows "\<exists>s' p'. get_record dev ops t fuel key s = (Ok r, s') \<and> ready s' p'"
  using node_store.get_record_node_found [OF store_of_disk, of ops s t tr fuel r key] assms
  by (auto simp: tree_at_def get_record_def)

lemma get_record_missing:
  assumes "tree_at content ops t tr fuel" and "ready s p"
    and "\<And>r. r \<in> set (tree_records tr) \<Longrightarrow> k_cmp ops key (r_key ops r) \<noteq> Equal"
  shows "\<exists>s' p'. get_record dev ops t fuel key s =
    (Err (if first_key_le ops tr key then KeyNotFound else InvalidRecordKey), s') \<and> ready s' p'"
proof -
  have "0 < fuel" using assms(1) by (cases tr) (auto simp: tree_at_def)
  with assms show ?thesis
    using node_store.get_record_node_absent [OF store_of_disk, of ops s t tr fuel key]
      node_store.get_record_node_below [OF store_of_disk, of ops s t tr fuel key]
    by (auto simp: tree_at_def get_record_def)
qed

lemma get_record_range_between:
  assumes "tree_at content ops t tr fuel" and "ready s p"
    and "\<forall>l \<in> set (leaves tr). snd l \<noteq> []"
  shows "\<exists>s' p'. get_record_range dev ops t fuel first bound s =
    (Ok (between ops first bound (tree_records tr)), s') \<and> ready s' p'"
  using node_store.get_record_range_node_between [OF store_of_disk, of ops s t tr "[]" fuel first bound]
    assms
  by (auto simp: tree_at_def tree_on_def get_record_range_def)

end

section \<open>Interpretations\<close>

interpretation extent_order: tree_keys extent_tree_ops
  by (rule extent_keys)

interpretation folded_order: tree_keys "catalog_tree_ops hfs_string_cmp"
  by (rule catalog_keys [OF folded_names.key_order_axioms])

interpretation binary_order: tree_keys "catalog_tree_ops hfs_string_binary_cmp"
  by (rule catalog_keys [OF binary_names.key_order_axioms])

interpretation extent_nodes: node_store extent_tree_ops "get_node cursor_ops extent_tree_ops t"
    "disk_nodes content extent_tree_ops t" "\<lambda>c. \<exists>p. cursor_ready content c p"
  for content t
  by (rule cursor_disk.store_of_disk [OF extent_keys])

end
