(* ===== verification/Fork.thy ===== *)
theory Fork
  imports BTreeSearch
begin

text \<open>
  \<open>Fork\<close> of \<open>src/src/lib/hfsplus/lib.rs\<close>: the extents of one fork of a file, loaded from its
  catalog record and from the extents overflow tree, and the reader that turns positions in the
  fork into positions on the volume. A compressed fork is replaced by its decompressed bytes
  the first time it is read at position zero. \<open>inflate\<close> is third-party code: it is a parameter.
\<close>

section \<open>State\<close>

text \<open>\<open>fk_extents\<close> holds \<open>(start_block, block_count, first byte, end byte)\<close> for each extent.\<close>

type_synonym mapped_extent = "u32 \<times> u32 \<times> nat \<times> nat"

record fork =
  fk_position :: nat
  fk_catalog_id :: u32
  fk_fork_type :: u8
  fk_block_size :: nat
  fk_logical_size :: nat
  fk_extents :: "mapped_extent list"
  fk_cache :: "bytes option"

text \<open>
  The file of a fork is shared (\<open>Arc<Mutex<F>>\<close>), so it is kept beside the fork: an operation
  of a fork runs on the pair.
\<close>

definition fk_get :: "(fork \<times> 's, 'e, fork) act" where
  "fk_get = (\<lambda>(fk, s). (Ok fk, (fk, s)))"

definition fk_mod :: "(fork \<Rightarrow> fork) \<Rightarrow> (fork \<times> 's, 'e, unit) act" where
  "fk_mod f = (\<lambda>(fk, s). (Ok (), (f fk, s)))"

definition on_file :: "('s, 'e, 'a) act \<Rightarrow> (fork \<times> 's, 'e, 'a) act" where
  "on_file m = (\<lambda>(fk, s). case m s of (r, s') \<Rightarrow> (r, (fk, s')))"

definition fk_seek_to :: "nat \<Rightarrow> (fork \<times> 's, 'e, unit) act" where
  "fk_seek_to p = fk_mod (\<lambda>fk. fk\<lparr>fk_position := p\<rparr>)"

section \<open>Loading\<close>

text \<open>The \<open>for\<close> loop over one extent record: byte position, block number, extents so far.\<close>

fun add_extents ::
  "nat \<Rightarrow> nat \<Rightarrow> extent_descriptor list \<Rightarrow> nat \<times> nat \<times> mapped_extent list \<Rightarrow>
   ('s, 'e, nat \<times> nat \<times> mapped_extent list) act" where
  "add_extents block_size logical_size [] st = ret st"
| "add_extents block_size logical_size (e # es) (extent_position, extent_block, extents) =
     (if ext_block_count e = 0
      then add_extents block_size logical_size es (extent_position, extent_block, extents)
      else
        bnd (checked64 (unat (ext_block_count e) * block_size)) (\<lambda>extent_size.
        bnd (checked64 (extent_position + extent_size)) (\<lambda>extent_end.
        if 2 ^ 32 \<le> extent_block + unat (ext_block_count e) then panic
        else add_extents block_size logical_size es
          (extent_end, extent_block + unat (ext_block_count e),
           extents @ [(ext_start_block e, ext_block_count e,
             min logical_size extent_position, min logical_size extent_end)]))))"

text \<open>
  The \<open>while\<close> loop of \<open>Fork::load\<close>. \<open>overflow\<close> is the lookup in the extents overflow tree of the
  volume, absent while the volume is being opened; the fuel bounds the records fetched.
\<close>

fun load_loop ::
  "(extent_key_rec \<Rightarrow> ('s, 'e, extent_record) act) option \<Rightarrow> u32 \<Rightarrow> u8 \<Rightarrow> nat \<Rightarrow> nat \<Rightarrow> nat \<Rightarrow>
   extent_descriptor list \<Rightarrow> nat \<times> nat \<times> mapped_extent list \<Rightarrow>
   ('s, 'e, mapped_extent list) act" where
  "load_loop overflow catalog_id fork_type block_size logical_size fuel extent_list st =
     bnd (add_extents block_size logical_size extent_list st)
       (\<lambda>(extent_position, extent_block, extents).
        if extent_position < logical_size then
          (case overflow of
             None \<Rightarrow> ret extents
           | Some look \<Rightarrow>
               (case fuel of
                  0 \<Rightarrow> spin
                | Suc fuel' \<Rightarrow>
                    bnd (look (extent_key_new catalog_id fork_type (of_nat extent_block)))
                      (\<lambda>extent_record.
                       load_loop overflow catalog_id fork_type block_size logical_size fuel'
                         (er_body extent_record) (extent_position, extent_block, extents))))
        else ret extents)"

declare load_loop.simps [simp del]

definition fork_load ::
  "(extent_key_rec \<Rightarrow> ('s, 'e, extent_record) act) option \<Rightarrow> nat \<Rightarrow> u32 \<Rightarrow> u8 \<Rightarrow> nat \<Rightarrow>
   fork_data \<Rightarrow> ('s, 'e, fork) act" where
  "fork_load overflow fuel catalog_id fork_type block_size data =
     bnd (load_loop overflow catalog_id fork_type block_size (unat (fd_logical_size data)) fuel
            (fd_extents data) (0, 0, [])) (\<lambda>extents.
     ret \<lparr>fk_position = 0, fk_catalog_id = catalog_id, fk_fork_type = fork_type,
       fk_block_size = block_size, fk_logical_size = unat (fd_logical_size data),
       fk_extents = extents, fk_cache = None\<rparr>)"

section \<open>Reading the extents\<close>

text \<open>
  The \<open>for\<close> loop of \<open>read_internal\<close>, with the bytes copied so far; \<open>want\<close> is the length of the
  buffer. Subtraction of natural numbers is \<open>saturating_sub\<close>.
\<close>

fun read_extents ::
  "'s read_seek \<Rightarrow> nat \<Rightarrow> nat \<Rightarrow> nat \<Rightarrow> mapped_extent list \<Rightarrow> bytes \<Rightarrow> ('s, hfs_error, bytes) act"
where
  "read_extents dev block_size offset want [] got = ret got"
| "read_extents dev block_size offset want ((start_block, _, extent_begin, extent_end) # es) got =
     bnd (checked64 (offset + length got)) (\<lambda>current_offset.
     if extent_end \<le> current_offset then read_extents dev block_size offset want es got
     else
       let extent_offset = current_offset - extent_begin in
       bnd (checked64 (unat start_block * block_size + extent_offset)) (\<lambda>target.
       bnd (rs_seek dev (Start target)) (\<lambda>_.
       let bytes_to_read = min (extent_end - current_offset) (want - length got) in
       bnd (read_exact (rs_read dev) bytes_to_read) (\<lambda>bs.
       if want \<le> length (got @ bs) then ret (got @ bs)
       else read_extents dev block_size offset want es (got @ bs)))))"

definition read_internal :: "'s read_seek \<Rightarrow> nat \<Rightarrow> (fork \<times> 's, hfs_error, bytes) act" where
  "read_internal dev want =
     bnd fk_get (\<lambda>fk.
     bnd (on_file (read_extents dev (fk_block_size fk) (fk_position fk) want (fk_extents fk) []))
       (\<lambda>bs.
     bnd (checked64 (fk_position fk + length bs)) (\<lambda>p.
     bnd (fk_seek_to p) (\<lambda>_.
     ret bs))))"

text \<open>\<open>read_exact_internal\<close> is the loop of \<open>Read::read_exact\<close> over \<open>read_internal\<close>.\<close>

definition read_exact_internal :: "'s read_seek \<Rightarrow> nat \<Rightarrow> (fork \<times> 's, hfs_error, bytes) act" where
  "read_exact_internal dev n = read_exact (read_internal dev) n"

text \<open>\<open>while let Ok(n) = self.read_internal(&mut buf)\<close>: an error ends the loop like the end does.\<close>

fun read_to_end_loop :: "'s read_seek \<Rightarrow> nat \<Rightarrow> bytes \<Rightarrow> (fork \<times> 's, hfs_error, bytes) act" where
  "read_to_end_loop dev 0 data = spin"
| "read_to_end_loop dev (Suc fuel) data = (\<lambda>st.
     case read_internal dev 4096 st of
       (Ok bs, st') \<Rightarrow>
         if bs = [] then (Ok data, st') else read_to_end_loop dev fuel (data @ bs) st'
     | (Err e, st') \<Rightarrow> (Ok data, st')
     | (Panic, st') \<Rightarrow> (Panic, st')
     | (Loop, st') \<Rightarrow> (Loop, st'))"

text \<open>Every round but the last advances the position, which stays below the last extent's end.\<close>

definition read_to_end :: "'s read_seek \<Rightarrow> (fork \<times> 's, hfs_error, bytes) act" where
  "read_to_end dev =
     bnd fk_get (\<lambda>fk.
       read_to_end_loop dev (Suc (sum_list (map (\<lambda>(_, _, b, e). e - b) (fk_extents fk)))) [])"

section \<open>Decompression\<close>

text \<open>
  \<open>z_stream\<close> of the crate \<open>zlib_rs\<close>: a call of \<open>inflate\<close> gets the rest of the input and the room
  left in the output, and returns its code, the input left, the bytes it produced.
\<close>

datatype zret = ZOk | ZStreamEnd | ZBufError | ZOther string

record 'z zlib =
  z_init :: "'z option"
  z_inflate :: "'z \<Rightarrow> bytes \<Rightarrow> nat \<Rightarrow> zret \<times> bytes \<times> bytes \<times> 'z"
  z_reset :: "'z \<Rightarrow> 'z"

definition MAX_DECOMPRESSED :: nat where
  "MAX_DECOMPRESSED = 512 * 1024 * 1024"

text \<open>
  The loop of \<open>decompress_zlib\<close>: the input left, the bytes produced, the size of the output
  buffer. The two casts to \<open>u32\<close> of the lengths are those of \<open>avail_in\<close> and \<open>avail_out\<close>.
\<close>

fun inflate_loop :: "'z zlib \<Rightarrow> nat \<Rightarrow> 'z \<Rightarrow> bytes \<Rightarrow> bytes \<Rightarrow> nat \<Rightarrow> (hfs_error, bytes) res" where
  "inflate_loop zl 0 z inp out buf_len = Loop"
| "inflate_loop zl (Suc fuel) z inp out buf_len =
     (let avail_out = (buf_len - length out) mod 2 ^ 32;
          (code, inp', produced, z') = z_inflate zl z inp avail_out;
          out' = out @ produced
      in case code of
           ZStreamEnd \<Rightarrow>
             if inp' \<noteq> [] \<and> hd inp' = 0x78 then
               inflate_loop zl fuel (z_reset zl z') inp' out'
                 (if length out' = buf_len then length out' + 65536 else buf_len)
             else Ok out'
         | ZOther msg \<Rightarrow> Err (InvalidData (''inflate failed '' @ msg))
         | _ \<Rightarrow>
             if avail_out - length produced = 0 then
               if MAX_DECOMPRESSED \<le> buf_len then Err (InvalidData ''Decompressed data too large'')
               else inflate_loop zl fuel z' inp' out' (buf_len + max 65536 buf_len)
             else if inp' \<noteq> [] then inflate_loop zl fuel z' inp' out' buf_len
             else Ok out')"

definition decompress_zlib :: "'z zlib \<Rightarrow> nat \<Rightarrow> bytes \<Rightarrow> nat \<Rightarrow> (hfs_error, bytes) res" where
  "decompress_zlib zl fuel compressed uncompressed_size =
     (case z_init zl of
        None \<Rightarrow> Err (InvalidData ''inflateInit failed'')
      | Some z \<Rightarrow>
          inflate_loop zl fuel z (take (length compressed mod 2 ^ 32) compressed) []
            (if 0 < uncompressed_size \<and> uncompressed_size < MAX_DECOMPRESSED
             then uncompressed_size else 65536))"

text \<open>The readers below take the decompressor as an argument.\<close>

type_synonym inflater = "bytes \<Rightarrow> nat \<Rightarrow> (hfs_error, bytes) res"

text \<open>The \<open>for\<close> loop over the chunks; \<open>ends\<close> is the list of offsets still to be visited.\<close>

fun chunk_loop ::
  "'s read_seek \<Rightarrow> inflater \<Rightarrow> nat \<Rightarrow> nat \<Rightarrow> nat list \<Rightarrow> bytes \<Rightarrow>
   (fork \<times> 's, hfs_error, bytes) act" where
  "chunk_loop dev unz table_start uncompressed_size [] decompressed = ret decompressed"
| "chunk_loop dev unz table_start uncompressed_size (start_offset # rest) decompressed =
     bnd fk_get (\<lambda>fk.
     bnd (case rest of
            next_offset # _ \<Rightarrow> ret next_offset
          | [] \<Rightarrow> if fk_logical_size fk < table_start then panic
                  else ret (fk_logical_size fk - table_start)) (\<lambda>end_offset.
     if end_offset < start_offset then fail (InvalidData ''Invalid chunk offset'')
     else if end_offset = start_offset
     then chunk_loop dev unz table_start uncompressed_size rest decompressed
     else
       bnd (checked64 (table_start + start_offset)) (\<lambda>p.
       bnd (fk_seek_to p) (\<lambda>_.
       bnd (read_exact_internal dev (end_offset - start_offset)) (\<lambda>compressed_chunk.
       let chunk_size =
             (if rest \<noteq> [] then 65536
              else if length decompressed < uncompressed_size
              then uncompressed_size - length decompressed else 0)
       in bnd (pure_res (unz compressed_chunk chunk_size)) (\<lambda>chunk.
          chunk_loop dev unz table_start uncompressed_size rest (decompressed @ chunk)))))))"

definition read_u32_le_internal :: "'s read_seek \<Rightarrow> (fork \<times> 's, hfs_error, nat) act" where
  "read_u32_le_internal dev =
     bnd (read_exact_internal dev 4) (\<lambda>buf. ret (unat (from_le buf :: u32)))"

definition decompress_chunked_zlib ::
  "'s read_seek \<Rightarrow> inflater \<Rightarrow> nat \<Rightarrow> (fork \<times> 's, hfs_error, bytes) act" where
  "decompress_chunked_zlib dev unz uncompressed_size =
     bnd (read_u32_le_internal dev) (\<lambda>num_chunks.
     bnd (times_act num_chunks (read_u32_le_internal dev)) (\<lambda>offsets.
     bnd fk_get (\<lambda>fk.
     if fk_position fk < num_chunks * 4 then panic
     else chunk_loop dev unz (fk_position fk - num_chunks * 4) uncompressed_size offsets [])))"

text \<open>Install the decompressed bytes.\<close>

definition set_cache :: "bytes \<Rightarrow> nat \<Rightarrow> (fork \<times> 's, 'e, unit) act" where
  "set_cache data sz =
     fk_mod (\<lambda>fk. fk\<lparr>fk_cache := Some data, fk_logical_size := sz, fk_position := 0\<rparr>)"

text \<open>\<open>if let Ok(d) = ... { install d } else { self.position = 0 }\<close>.\<close>

definition try_cache :: "(fork \<times> 's, 'e, bytes) act \<Rightarrow> (fork \<times> 's, 'e, unit) act" where
  "try_cache m = (\<lambda>st.
     case m st of
       (Ok data, st') \<Rightarrow> set_cache data (length data) st'
     | (Err e, st') \<Rightarrow> fk_seek_to 0 st'
     | (Panic, st') \<Rightarrow> (Panic, st')
     | (Loop, st') \<Rightarrow> (Loop, st'))"

definition CMPF_MAGIC :: u32 where
  "CMPF_MAGIC = 0x636d7066"

text \<open>The \<open>cmpf\<close> branch of \<open>check_compression\<close>.\<close>

definition check_cmpf :: "'s read_seek \<Rightarrow> inflater \<Rightarrow> bytes \<Rightarrow> (fork \<times> 's, hfs_error, unit) act" where
  "check_cmpf dev unz header =
     (let compression_type = from_be (take 4 (drop 4 header)) :: u32;
          uncompressed_size = unat (from_be (take 8 (drop 8 header)) :: u64)
      in if compression_type = 1 then
           bnd (read_exact_internal dev uncompressed_size) (\<lambda>uncompressed.
             set_cache uncompressed uncompressed_size)
         else if compression_type = 3 \<or> compression_type = 4 then
           bnd (read_to_end dev) (\<lambda>compressed.
           bnd (pure_res (unz compressed uncompressed_size)) (\<lambda>decompressed.
             set_cache decompressed uncompressed_size))
         else if compression_type = 5 then
           bnd (decompress_chunked_zlib dev unz uncompressed_size) (\<lambda>decompressed.
             set_cache decompressed uncompressed_size)
         else fk_seek_to 0)"

text \<open>Type, uncompressed size and header size from the header of the first resource.\<close>

definition resource_header_info :: "bytes \<Rightarrow> u32 \<times> nat \<times> nat" where
  "resource_header_info h =
     (if (from_be (take 4 h) :: u32) = CMPF_MAGIC then
        (from_be (take 4 (drop 4 h)), unat (from_be (take 8 (drop 8 h)) :: u64), 16)
      else if h ! 0 \<in> {3, 4, 5} \<and> h ! 1 = 0 \<and> h ! 2 = 0 \<and> h ! 3 = 0 then
        (let raw_header_size = unat (from_le (take 4 (drop 4 h)) :: u32);
             raw_uncompressed_size = unat (from_le (take 4 (drop 8 h)) :: u32)
         in (ucast (h ! 0), raw_uncompressed_size,
             if 4 \<le> raw_header_size \<and> raw_header_size \<le> 256 then raw_header_size else 4))
      else (0, 0, 0))"

text \<open>The resource fork branch; the data section starts at byte 256.\<close>

definition check_resource :: "'s read_seek \<Rightarrow> inflater \<Rightarrow> (fork \<times> 's, hfs_error, unit) act" where
  "check_resource dev unz =
     bnd (fk_seek_to 256) (\<lambda>_.
     bnd (read_internal dev 4) (\<lambda>res_length.
     if length res_length \<noteq> 4 then fk_seek_to 0
     else
       bnd (read_internal dev 16) (\<lambda>h.
       if length h \<noteq> 16 then fk_seek_to 0
       else
         let (compression_type, uncompressed_size, header_size) = resource_header_info h in
         if compression_type = 3 \<or> compression_type = 4 then
           bnd (fk_seek_to (256 + 4 + header_size)) (\<lambda>_.
           bnd (read_to_end dev) (\<lambda>compressed.
           try_cache (pure_res (unz compressed uncompressed_size))))
         else if compression_type = 5 then
           bnd (fk_seek_to (256 + 4 + header_size)) (\<lambda>_.
           try_cache (decompress_chunked_zlib dev unz uncompressed_size))
         else
           bnd (fk_seek_to (256 + 4)) (\<lambda>_.
           bnd (read_to_end dev) (\<lambda>compressed.
           if compressed \<noteq> [] \<and> hd compressed = 0x78 then try_cache (pure_res (unz compressed 0))
           else fk_seek_to 0)))))"

definition check_compression :: "'s read_seek \<Rightarrow> inflater \<Rightarrow> (fork \<times> 's, hfs_error, unit) act" where
  "check_compression dev unz =
     bnd fk_get (\<lambda>fk.
     if fk_cache fk \<noteq> None \<or> fk_position fk \<noteq> 0 then ret ()
     else
       bnd (read_internal dev 16) (\<lambda>header.
       if length header < 16 then fk_seek_to 0
       else if (from_be (take 4 header) :: u32) = CMPF_MAGIC then check_cmpf dev unz header
       else if take 4 header = [0, 0, 1, 0] then check_resource dev unz
       else fk_seek_to 0))"

section \<open>The reader\<close>

definition fork_read :: "'s read_seek \<Rightarrow> inflater \<Rightarrow> (fork \<times> 's) reader" where
  "fork_read dev unz want =
     bnd (check_compression dev unz) (\<lambda>_.
     bnd fk_get (\<lambda>fk.
     case fk_cache fk of
       Some cache \<Rightarrow>
         if length cache \<le> fk_position fk then ret []
         else
           let to_copy = min want (length cache - fk_position fk) in
           bnd (fk_seek_to (fk_position fk + to_copy)) (\<lambda>_.
           ret (take to_copy (drop (fk_position fk) cache)))
     | None \<Rightarrow> read_internal dev want))"

definition fork_seek :: "seek_from \<Rightarrow> (fork \<times> 's, hfs_error, nat) act" where
  "fork_seek p =
     bnd fk_get (\<lambda>fk.
     bnd (case p of
            Start x \<Rightarrow> ret x
          | Current x \<Rightarrow> bnd (add_i64 (as_i64 (fk_position fk)) x) (\<lambda>y. ret (as_u64 y))
          | End x \<Rightarrow> bnd (add_i64 (as_i64 (fk_logical_size fk)) x) (\<lambda>y. ret (as_u64 y)))
       (\<lambda>new_position.
     bnd (fk_seek_to new_position) (\<lambda>_. ret new_position)))"

definition fork_ops :: "'s read_seek \<Rightarrow> inflater \<Rightarrow> (fork \<times> 's) read_seek" where
  "fork_ops dev unz = \<lparr>rs_read = fork_read dev unz, rs_seek = fork_seek\<rparr>"

definition fork_read_all :: "'s read_seek \<Rightarrow> inflater \<Rightarrow> (fork \<times> 's, hfs_error, bytes) act" where
  "fork_read_all dev unz =
     bnd fk_get (\<lambda>fk.
     bnd (fork_seek (Start 0)) (\<lambda>_.
     read_exact (fork_read dev unz) (fk_logical_size fk)))"

end
