(* ===== verification/ForkRead.thy ===== *)
theory ForkRead
  imports Fork
begin

text \<open>
  What a fork reads: the bytes of its extents, in order, cut at its logical size. \<open>fork_load\<close>
  builds extents that follow each other without gap, \<open>read_internal\<close> copies exactly the bytes
  asked for, and an uncompressed fork is again a device, so that the B-tree searches apply to
  a tree that is stored in a fork.
\<close>

section \<open>The extents of a loaded fork\<close>

fun contiguous :: "nat \<Rightarrow> mapped_extent list \<Rightarrow> bool" where
  "contiguous p [] = True"
| "contiguous p ((start, cnt, b, e) # es) = (b = p \<and> b \<le> e \<and> contiguous e es)"

text \<open>The extents that \<open>load\<close> makes of a list of descriptors, from byte position \<open>p\<close> on.\<close>

fun map_extents :: "nat \<Rightarrow> nat \<Rightarrow> nat \<Rightarrow> extent_descriptor list \<Rightarrow> mapped_extent list" where
  "map_extents block_size logical_size p [] = []"
| "map_extents block_size logical_size p (e # es) =
     (if ext_block_count e = 0 then map_extents block_size logical_size p es
      else
        let p' = p + unat (ext_block_count e) * block_size in
        (ext_start_block e, ext_block_count e, min logical_size p, min logical_size p')
          # map_extents block_size logical_size p' es)"

definition block_total :: "extent_descriptor list \<Rightarrow> nat" where
  "block_total es = sum_list (map (\<lambda>e. unat (ext_block_count e)) es)"

lemma block_total_simps [simp]:
  "block_total [] = 0"
  "block_total (e # es) = unat (ext_block_count e) + block_total es"
  "block_total (es @ fs) = block_total es + block_total fs"
  by (simp_all add: block_total_def)

lemma contiguous_map_extents: "contiguous (min l p) (map_extents bs l p es)"
  by (induction es arbitrary: p) (auto simp: Let_def)

lemma map_extents_append:
  "map_extents bs l p (es @ fs) =
     map_extents bs l p es @ map_extents bs l (p + block_total es * bs) fs"
proof (induction es arbitrary: p)
  case (Cons e es)
  then show ?case by (simp add: Let_def algebra_simps)
qed simp

lemma add_extents_map:
  "p + block_total es * bs < 2 ^ 64 \<Longrightarrow> blk + block_total es < 2 ^ 32 \<Longrightarrow>
   add_extents bs l es (p, blk, acc) =
     ret (p + block_total es * bs, blk + block_total es, acc @ map_extents bs l p es)"
proof (induction es arbitrary: p blk acc)
  case (Cons e es)
  show ?case
  proof (cases "ext_block_count e = 0")
    case True
    with Cons show ?thesis by simp
  next
    case False
    let ?n = "unat (ext_block_count e)"
    from Cons.prems have b: "?n * bs < 2 ^ 64" "p + ?n * bs < 2 ^ 64" "blk + ?n < 2 ^ 32"
      "p + ?n * bs + block_total es * bs < 2 ^ 64" "blk + ?n + block_total es < 2 ^ 32"
      by (simp_all add: algebra_simps)
    from Cons.IH [OF b(4,5)] False b(1-3) show ?thesis
      by (simp add: Let_def algebra_simps)
  qed
qed simp

section \<open>Looking up overflow extents\<close>

text \<open>
  \<open>overflow_chain db ... p blk recs\<close>: from byte \<open>p\<close> and block \<open>blk\<close> on, the records \<open>recs\<close> of
  the overflow tree \<open>db\<close> cover the rest of a fork of \<open>l\<close> bytes.
\<close>

fun overflow_chain ::
  "(extent_key_rec \<Rightarrow> extent_record option) \<Rightarrow> u32 \<Rightarrow> u8 \<Rightarrow> nat \<Rightarrow> nat \<Rightarrow> nat \<Rightarrow> nat \<Rightarrow>
   extent_record list \<Rightarrow> bool" where
  "overflow_chain db cid ft bs l p blk [] \<longleftrightarrow> l \<le> p"
| "overflow_chain db cid ft bs l p blk (r # rs) \<longleftrightarrow>
     p < l \<and> db (extent_key_new cid ft (of_nat blk)) = Some r \<and>
     overflow_chain db cid ft bs l (p + block_total (er_body r) * bs)
       (blk + block_total (er_body r)) rs"

text \<open>What a fork relies on: the overflow tree maps a key to its record.\<close>

locale overflow_tree =
  fixes look :: "extent_key_rec \<Rightarrow> ('s, 'e, extent_record) act"
    and db :: "extent_key_rec \<Rightarrow> extent_record option"
    and tree_ready :: "'s \<Rightarrow> bool"
  assumes look_db: "tree_ready s \<Longrightarrow> db key = Some r \<Longrightarrow>
    \<exists>s'. look key s = (Ok r, s') \<and> tree_ready s'"
begin

lemma load_loop_chain:
  "tree_ready s \<Longrightarrow>
   overflow_chain db cid ft bs l (p + block_total es * bs) (blk + block_total es) recs \<Longrightarrow>
   p + block_total (es @ concat (map er_body recs)) * bs < 2 ^ 64 \<Longrightarrow>
   blk + block_total (es @ concat (map er_body recs)) < 2 ^ 32 \<Longrightarrow>
   length recs \<le> fuel \<Longrightarrow>
   \<exists>s'. load_loop (Some look) cid ft bs l fuel es (p, blk, acc) s =
        (Ok (acc @ map_extents bs l p (es @ concat (map er_body recs))), s') \<and> tree_ready s'"
proof (induction recs arbitrary: s p blk es acc fuel)
  case Nil
  then have "p + block_total es * bs < 2 ^ 64" "blk + block_total es < 2 ^ 32" by simp_all
  with Nil show ?case by (subst load_loop.simps) (simp add: ret_run add_extents_map)
next
  case (Cons r recs)
  let ?p = "p + block_total es * bs" and ?blk = "blk + block_total es"
  have "?p < 2 ^ 64" "?blk < 2 ^ 32" using Cons.prems(3,4) by (simp_all add: algebra_simps)
  note add = add_extents_map [OF this, of l acc]
  obtain fuel' where f: "fuel = Suc fuel'" "length recs \<le> fuel'"
    using Cons.prems(5) by (cases fuel) auto
  moreover obtain s1 where
    s1: "look (extent_key_new cid ft (of_nat ?blk)) s = (Ok r, s1)" "tree_ready s1"
    using look_db [OF Cons.prems(1)] Cons.prems(2) by auto
  moreover have "\<exists>s'. load_loop (Some look) cid ft bs l fuel' (er_body r)
        (?p, ?blk, acc @ map_extents bs l p es) s1 =
      (Ok ((acc @ map_extents bs l p es) @
         map_extents bs l ?p (er_body r @ concat (map er_body recs))), s') \<and> tree_ready s'"
    by (rule Cons.IH [OF s1(2) _ _ _ f(2)]) (use Cons.prems in \<open>simp_all add: algebra_simps\<close>)
  ultimately show ?case
    using Cons.prems(2)
    by (subst load_loop.simps)
      (auto simp: add bnd_Ok [where m = "look (extent_key_new cid ft (of_nat ?blk))"]
        map_extents_append simp del: of_nat_add)
qed

text \<open>A record that describes no block keeps the loop fetching it.\<close>

lemma load_loop_stuck:
  "tree_ready s \<Longrightarrow> p < l \<Longrightarrow> p < 2 ^ 64 \<Longrightarrow> blk < 2 ^ 32 \<Longrightarrow> block_total es = 0 \<Longrightarrow>
   db (extent_key_new cid ft (of_nat blk)) = Some r \<Longrightarrow> block_total (er_body r) = 0 \<Longrightarrow>
   fst (load_loop (Some look) cid ft bs l fuel es (p, blk, acc) s) = Loop"
proof (induction fuel arbitrary: s es acc)
  case 0
  then show ?case
    by (subst load_loop.simps) (simp add: spin_run add_extents_map [of p es bs blk l acc])
next
  case (Suc fuel)
  note add = add_extents_map [of p es bs blk l acc]
  obtain s1 where
    s1: "look (extent_key_new cid ft (of_nat blk)) s = (Ok r, s1)" "tree_ready s1"
    using look_db [OF Suc.prems(1,6)] by blast
  then show ?case
    using Suc.IH [OF s1(2) Suc.prems(2-4,7,6,7)] Suc.prems(2-5)
    by (subst load_loop.simps)
      (simp add: add bnd_Ok [where m = "look (extent_key_new cid ft (of_nat blk))"])
qed

end

section \<open>The bytes of a fork\<close>

definition fork_content :: "bytes \<Rightarrow> nat \<Rightarrow> mapped_extent list \<Rightarrow> bytes" where
  "fork_content content bs exts =
     concat (map (\<lambda>(start, cnt, b, e). take (e - b) (drop (unat start * bs) content)) exts)"

text \<open>All extents lie on the volume.\<close>

definition on_volume :: "bytes \<Rightarrow> nat \<Rightarrow> mapped_extent list \<Rightarrow> bool" where
  "on_volume content bs exts \<longleftrightarrow> length content < 2 ^ 64 \<and>
     (\<forall>(start, cnt, b, e) \<in> set exts. unat start * bs + (e - b) \<le> length content \<and> e < 2 ^ 64)"

lemma fork_content_simps [simp]:
  "fork_content content bs [] = []"
  "fork_content content bs ((start, cnt, b, e) # es) =
     take (e - b) (drop (unat start * bs) content) @ fork_content content bs es"
  by (simp_all add: fork_content_def)

text \<open>Extents that cover the logical size hold exactly that many bytes.\<close>

lemma map_extents_length:
  "on_volume content bs (map_extents bs l p es) \<Longrightarrow>
   length (fork_content content bs (map_extents bs l p es)) =
     min l (p + block_total es * bs) - min l p"
proof (induction es arbitrary: p)
  case (Cons e es)
  show ?case
  proof (cases "ext_block_count e = 0")
    case True
    with Cons show ?thesis by simp
  next
    case False
    let ?p = "p + unat (ext_block_count e) * bs"
    from Cons.prems False have "on_volume content bs (map_extents bs l ?p es)"
      and le: "unat (ext_start_block e) * bs + (min l ?p - min l p) \<le> length content"
      by (auto simp: on_volume_def Let_def)
    let ?B = "take (min l ?p - min l p) (drop (unat (ext_start_block e) * bs) content)"
    have len: "length ?B = min l ?p - min l p" using le by simp
    have "fork_content content bs (map_extents bs l p (e # es)) =
        ?B @ fork_content content bs (map_extents bs l ?p es)"
      using False by (simp add: Let_def)
    then have "length (fork_content content bs (map_extents bs l p (e # es))) =
        (min l ?p - min l p) + (min l (?p + block_total es * bs) - min l ?p)"
      by (simp only: length_append len Cons.IH [OF \<open>on_volume content bs (map_extents bs l ?p es)\<close>])
    moreover have "?p + block_total es * bs = p + block_total (e # es) * bs"
      by (simp add: algebra_simps)
    moreover have "min l p \<le> min l ?p" "min l ?p \<le> min l (?p + block_total es * bs)" by auto
    ultimately show ?thesis by simp
  qed
qed simp

context disk begin

lemma read_extents_content:
  "ready s q \<Longrightarrow> contiguous b0 es \<Longrightarrow> on_volume content bs es \<Longrightarrow>
   b0 \<le> offset + length got \<Longrightarrow> offset + length got < 2 ^ 64 \<Longrightarrow> length got \<le> want \<Longrightarrow>
   \<exists>s' q'. read_extents dev bs offset want es got s =
     (Ok (got @ take (want - length got)
        (drop (offset + length got - b0) (fork_content content bs es))), s') \<and> ready s' q'"
proof (induction es arbitrary: s q b0 got)
  case Nil
  then show ?case by (auto simp: ret_run)
next
  case (Cons x es)
  obtain start cnt b e where x: "x = (start, cnt, b, e)" by (cases x)
  let ?cur = "offset + length got" and ?lo = "unat start * bs"
  from Cons.prems x have be: "b = b0" "b \<le> e" "contiguous e es"
    and vol: "?lo + (e - b) \<le> length content" "e < 2 ^ 64" "length content < 2 ^ 64"
      "on_volume content bs es"
    by (auto simp: on_volume_def)
  have len: "length (take (e - b) (drop ?lo content)) = e - b" using vol by simp
  show ?case
  proof (cases "e \<le> ?cur")
    case True
    from Cons.IH [OF Cons.prems(1) be(3) vol(4) True Cons.prems(5,6)] True be len
    show ?thesis using Cons.prems(5) by (simp add: x)
  next
    case False
    define off where "off = ?cur - b"
    define k where "k = min (e - ?cur) (want - length got)"
    define bs' where "bs' = take k (drop (?lo + off) content)"
    have off: "off < e - b" using False Cons.prems(4) be by (auto simp: off_def)
    have fit: "?lo + off + k \<le> length content"
      using off vol Cons.prems(4) be by (auto simp: off_def k_def)
    from read_exact_from [OF Cons.prems(1) fit] obtain s1 s2 where
      s1: "rs_seek dev (Start (?lo + off)) s = (Ok (?lo + off), s1)" and
      s2: "read_exact (rs_read dev) k s1 = (Ok bs', s2)" and r2: "ready s2 (?lo + off + k)"
      unfolding bs'_def by blast
    have lbs: "length bs' = k" using fit by (simp add: bs'_def)
    have part: "take k (drop off (take (e - b) (drop ?lo content))) = bs'"
      using off Cons.prems(4) be by (auto simp: bs'_def k_def off_def drop_take min_def add.commute)
    have run: "read_extents dev bs offset want ((start, cnt, b, e) # es) got s =
        (if want \<le> length got + k then (Ok (got @ bs'), s2)
         else read_extents dev bs offset want es (got @ bs') s2)"
      using False Cons.prems(5) fit vol(3) lbs
      by (simp add: Let_def bnd_Ok [where m = "rs_seek dev (Start (?lo + off))", OF s1]
          bnd_Ok [where m = "read_exact (rs_read dev) k", OF s2] ret_run flip: off_def k_def)
    show ?thesis
    proof (cases "want \<le> length got + k")
      case True
      then have k: "k = want - length got" using Cons.prems(6) by (auto simp: k_def)
      have "want - length got \<le> e - b - off"
        using k False Cons.prems(4) be by (auto simp: k_def off_def)
      then have "take (want - length got) (drop off (fork_content content bs (x # es))) = bs'"
        using part len off k by (simp add: x)
      with True run r2 show ?thesis by (auto simp: x off_def be)
    next
      case False
      then have k: "k = e - ?cur" by (auto simp: k_def)
      then have cur': "offset + length (got @ bs') = e"
        using lbs \<open>\<not> e \<le> ?cur\<close> by simp
      have "length (got @ bs') \<le> want" using False lbs by simp
      from Cons.IH [OF r2 be(3) vol(4) _ _ this] cur' vol(2) obtain s3 q3 where
        s3: "read_extents dev bs offset want es (got @ bs') s2 =
          (Ok ((got @ bs') @ take (want - length (got @ bs')) (fork_content content bs es)), s3)"
        "ready s3 q3" by auto
      have ke: "k = e - b - off" using k \<open>\<not> e \<le> ?cur\<close> Cons.prems(4) be by (auto simp: off_def)
      have "take (want - length got) (drop off (fork_content content bs (x # es))) =
          bs' @ take (want - length got - k) (fork_content content bs es)"
      proof -
        have "drop off (take (e - b) (drop ?lo content)) = bs'" using part len ke by simp
        moreover have "off - length (take (e - b) (drop ?lo content)) = 0" using len off by simp
        ultimately show ?thesis using lbs False by (simp only: x fork_content_simps drop_append
            take_append) simp
      qed
      with run s3 False lbs show ?thesis by (auto simp: x off_def be)
    qed
  qed
qed

end

definition fork_bytes :: "bytes \<Rightarrow> fork \<Rightarrow> bytes" where
  "fork_bytes content fk = fork_content content (fk_block_size fk) (fk_extents fk)"

definition fork_ok :: "bytes \<Rightarrow> fork \<Rightarrow> bool" where
  "fork_ok content fk \<longleftrightarrow>
     contiguous 0 (fk_extents fk) \<and> on_volume content (fk_block_size fk) (fk_extents fk) \<and>
     fk_position fk < 2 ^ 64"

lemma fork_content_length:
  "on_volume content bs es \<Longrightarrow>
   length (fork_content content bs es) = sum_list (map (\<lambda>(_, _, b, e). e - b) es)"
  by (induction es) (auto simp: on_volume_def)

lemma contiguous_bound:
  "contiguous p es \<Longrightarrow> on_volume content bs es \<Longrightarrow> p < 2 ^ 64 \<Longrightarrow>
   p + length (fork_content content bs es) < 2 ^ 64"
proof (induction es arbitrary: p)
  case (Cons x es)
  obtain start cnt b e where x: "x = (start, cnt, b, e)" by (cases x)
  with Cons.prems have be: "b = p" "b \<le> e" "contiguous e es" "e < 2 ^ 64"
    "unat start * bs + (e - b) \<le> length content" "on_volume content bs es"
    by (auto simp: on_volume_def)
  from Cons.IH [OF be(3,6,4)] be show ?case by (simp add: x)
qed simp

lemma fork_bytes_bound: "fork_ok content fk \<Longrightarrow> length (fork_bytes content fk) < 2 ^ 64"
  using contiguous_bound [of 0 "fk_extents fk"] by (simp add: fork_ok_def fork_bytes_def)

lemma fork_ok_move [simp]:
  "p < 2 ^ 64 \<Longrightarrow> fork_ok content fk \<Longrightarrow> fork_ok content (fk\<lparr>fk_position := p\<rparr>)"
  by (simp add: fork_ok_def)

lemma fork_bytes_move [simp]: "fork_bytes content (fk\<lparr>fk_position := p\<rparr>) = fork_bytes content fk"
  by (simp add: fork_bytes_def)

lemma fork_act_runs [simp]:
  "bnd fk_get f (fk, s) = f fk (fk, s)"
  "fk_seek_to p (fk, s) = (Ok (), (fk\<lparr>fk_position := p\<rparr>, s))"
  "bnd (fk_seek_to p) g (fk, s) = g () (fk\<lparr>fk_position := p\<rparr>, s)"
  by (simp_all add: bnd_def fk_get_def fk_seek_to_def fk_mod_def)

lemma take_then_drop: "take k xs @ drop (length (take k xs)) xs = xs"
  by (cases "k \<le> length xs") simp_all

text \<open>A file whose first bytes do not announce a compressed file.\<close>

definition plain :: "bytes \<Rightarrow> bool" where
  "plain bs \<longleftrightarrow> length bs < 16 \<or>
     (from_be (take 4 bs) :: u32) \<noteq> CMPF_MAGIC \<and> take 4 bs \<noteq> [0, 0, 1, 0]"

definition fork_ready ::
  "('s \<Rightarrow> nat \<Rightarrow> bool) \<Rightarrow> nat \<Rightarrow> mapped_extent list \<Rightarrow> fork \<times> 's \<Rightarrow> nat \<Rightarrow> bool" where
  "fork_ready ready bs exts st p \<longleftrightarrow>
     fk_block_size (fst st) = bs \<and> fk_extents (fst st) = exts \<and> fk_cache (fst st) = None \<and>
     fk_position (fst st) = p \<and> p < 2 ^ 64 \<and> (\<exists>q. ready (snd st) q)"

lemma fork_read_cached:
  assumes "fk_cache fk = Some data"
  shows "fork_read dev unz want (fk, s) =
    (Ok (take want (drop (fk_position fk) data)),
     (fk\<lparr>fk_position := fk_position fk + length (take want (drop (fk_position fk) data))\<rparr>, s))"
proof -
  have "check_compression dev unz (fk, s) = (Ok (), (fk, s))"
    using assms by (simp add: check_compression_def ret_run)
  with assms show ?thesis
    by (auto simp: fork_read_def bnd_Ok [where m = "check_compression dev unz"] ret_run Let_def min_def)
qed

context disk begin

lemma read_internal_content:
  assumes "ready s q" and "fork_ok content fk"
  shows "\<exists>s' q'. read_internal dev want (fk, s) =
    (Ok (take want (drop (fk_position fk) (fork_bytes content fk))),
     (fk\<lparr>fk_position := fk_position fk +
        length (take want (drop (fk_position fk) (fork_bytes content fk)))\<rparr>, s')) \<and> ready s' q'"
proof -
  let ?p = "fk_position fk" and ?es = "fk_extents fk" and ?bs = "fk_block_size fk"
  let ?r = "take want (drop ?p (fork_bytes content fk))"
  from assms(2) have ok: "contiguous 0 ?es" "on_volume content ?bs ?es" "?p < 2 ^ 64"
    by (auto simp: fork_ok_def)
  from read_extents_content [OF assms(1) ok(1,2), of ?p "[]" want] ok(3) obtain s1 q1 where
    s1: "read_extents dev ?bs ?p want ?es [] s = (Ok ?r, s1)" "ready s1 q1"
    by (auto simp: fork_bytes_def)
  have "?p + length ?r < 2 ^ 64"
    using fork_bytes_bound [OF assms(2)] ok(3) by (cases "?p < length (fork_bytes content fk)") auto
  moreover have "on_file (read_extents dev ?bs ?p want ?es []) (fk, s) = (Ok ?r, (fk, s1))"
    by (simp add: on_file_def s1)
  ultimately have "read_internal dev want (fk, s) = (Ok ?r, (fk\<lparr>fk_position := ?p + length ?r\<rparr>, s1))"
    by (simp only: read_internal_def fork_act_runs checked64_ok bnd_ret ret_run bnd_Ok)
  with s1(2) show ?thesis by blast
qed

lemma read_to_end_content:
  "ready s q \<Longrightarrow> fork_ok content fk \<Longrightarrow> length (fork_bytes content fk) - fk_position fk < fuel \<Longrightarrow>
   \<exists>p s' q'. read_to_end_loop dev fuel data (fk, s) =
    (Ok (data @ drop (fk_position fk) (fork_bytes content fk)), (fk\<lparr>fk_position := p\<rparr>, s')) \<and>
    p < 2 ^ 64 \<and> ready s' q'"
proof (induction fuel arbitrary: s q fk data)
  case (Suc fuel)
  let ?p = "fk_position fk" and ?F = "fork_bytes content fk"
  let ?r = "take 4096 (drop ?p ?F)"
  from read_internal_content [OF Suc.prems(1,2), of 4096] obtain s1 q1 where
    s1: "read_internal dev 4096 (fk, s) = (Ok ?r, (fk\<lparr>fk_position := ?p + length ?r\<rparr>, s1))"
    "ready s1 q1" by blast
  have pb: "?p < 2 ^ 64" using Suc.prems(2) by (simp add: fork_ok_def)
  show ?case
  proof (cases "?r = []")
    case True
    then have e: "drop ?p ?F = []" by simp
    show ?thesis
      by (rule exI [of _ ?p], rule exI [of _ s1], rule exI [of _ q1]) (use s1 e pb in simp)
  next
    case False
    let ?fk = "fk\<lparr>fk_position := ?p + length ?r\<rparr>"
    have lt: "?p < length ?F" using False by simp
    then have b: "?p + length ?r < 2 ^ 64" using fork_bytes_bound [OF Suc.prems(2)] by auto
    have "fork_ok content ?fk" using Suc.prems(2) b by simp
    moreover have "length (fork_bytes content ?fk) - fk_position ?fk < fuel"
      using Suc.prems(3) lt by auto
    ultimately obtain p s2 q2 where
      "read_to_end_loop dev fuel (data @ ?r) (?fk, s1) =
        (Ok ((data @ ?r) @ drop (fk_position ?fk) (fork_bytes content ?fk)),
          (?fk\<lparr>fk_position := p\<rparr>, s2))" "p < 2 ^ 64" "ready s2 q2"
      using Suc.IH [OF s1(2)] by blast
    moreover have "?r @ drop (?p + length ?r) ?F = drop ?p ?F"
      using take_then_drop [of 4096 "drop ?p ?F"] by (simp add: add.commute)
    ultimately show ?thesis
      using s1(1) False by (intro exI [of _ p] exI [of _ s2] exI [of _ q2]) simp
  qed
qed simp

lemma check_compression_plain:
  assumes "ready s q" and "fork_ok content fk" and "plain (fork_bytes content fk)"
    and "fk_cache fk = None"
  shows "\<exists>s' q'. check_compression dev unz (fk, s) = (Ok (), (fk, s')) \<and> ready s' q'"
proof (cases "fk_position fk = 0")
  case False
  with assms show ?thesis by (auto simp: check_compression_def ret_run)
next
  case True
  let ?F = "fork_bytes content fk"
  from read_internal_content [OF assms(1,2), of 16] True obtain s1 q1 where
    s1: "read_internal dev 16 (fk, s) = (Ok (take 16 ?F), (fk\<lparr>fk_position := length (take 16 ?F)\<rparr>, s1))"
    "ready s1 q1" by auto
  have "fk\<lparr>fk_position := 0\<rparr> = fk" using True by simp
  moreover have "16 \<le> length ?F \<Longrightarrow> take 4 (take 16 ?F) = take 4 ?F" by simp
  ultimately have "check_compression dev unz (fk, s) = (Ok (), (fk, s1))"
    using True assms(3,4) s1(1)
    by (auto simp: check_compression_def bnd_Ok [where m = "read_internal dev 16"] plain_def min_def)
  with s1(2) show ?thesis by blast
qed

lemma fork_read_plain:
  assumes "ready s q" and "fork_ok content fk" and "plain (fork_bytes content fk)"
    and "fk_cache fk = None"
  shows "\<exists>s' q'. fork_read dev unz want (fk, s) =
    (Ok (take want (drop (fk_position fk) (fork_bytes content fk))),
     (fk\<lparr>fk_position := fk_position fk +
        length (take want (drop (fk_position fk) (fork_bytes content fk)))\<rparr>, s')) \<and> ready s' q'"
proof -
  from check_compression_plain [OF assms] obtain s1 q1 where
    s1: "check_compression dev unz (fk, s) = (Ok (), (fk, s1))" "ready s1 q1" by blast
  from read_internal_content [OF s1(2) assms(2)] show ?thesis
    by (simp add: fork_read_def bnd_Ok [where m = "check_compression dev unz", OF s1(1)] assms(4))
qed

lemma disk_of_fork:
  assumes "contiguous 0 exts" and "on_volume content bs exts"
    and "plain (fork_content content bs exts)"
  shows "disk (fork_ops dev unz) (fork_content content bs exts) (fork_ready ready bs exts)"
proof
  fix st p q
  assume st: "fork_ready ready bs exts st p" and q: "q \<le> length (fork_content content bs exts)"
  obtain fk s where fs: "st = (fk, s)" by (cases st)
  have "q < 2 ^ 64" using q contiguous_bound [OF assms(1,2)] by simp
  with st show "\<exists>st'. rs_seek (fork_ops dev unz) (Start q) st = (Ok q, st') \<and>
      fork_ready ready bs exts st' q"
    by (auto simp: fs fork_ops_def fork_seek_def fork_ready_def ret_run)
next
  fix st p n
  let ?F = "fork_content content bs exts"
  assume st: "fork_ready ready bs exts st p" and n: "0 < n" "p + n \<le> length ?F"
  obtain fk s where fs: "st = (fk, s)" by (cases st)
  from st obtain q where q: "ready s q" by (auto simp: fs fork_ready_def)
  have ok: "fork_ok content fk" and F: "fork_bytes content fk = ?F" and c: "fk_cache fk = None"
    and p: "fk_position fk = p"
    using st assms by (auto simp: fs fork_ready_def fork_ok_def fork_bytes_def)
  from fork_read_plain [OF q ok _ c, of unz n] assms(3) F p n obtain s1 q1 where
    s1: "fork_read dev unz n (fk, s) =
      (Ok (take n (drop p ?F)), (fk\<lparr>fk_position := p + n\<rparr>, s1))" "ready s1 q1"
    by auto
  have "p + n < 2 ^ 64" using n contiguous_bound [OF assms(1,2)] by simp
  then have "fork_ready ready bs exts (fk\<lparr>fk_position := p + n\<rparr>, s1) (p + n)"
    using st s1(2) by (auto simp: fs fork_ready_def)
  with s1(1) n(1) show "\<exists>k st'. 0 < k \<and> k \<le> n \<and>
      rs_read (fork_ops dev unz) n st = (Ok (take k (drop p ?F)), st') \<and>
      fork_ready ready bs exts st' (p + k)"
    by (auto simp: fs fork_ops_def)
qed

lemma fork_read_all_plain:
  assumes "ready s q" and "fork_ok content fk" and "plain (fork_bytes content fk)"
    and "fk_cache fk = None" and "fk_logical_size fk = length (fork_bytes content fk)"
  shows "\<exists>st'. fork_read_all dev unz (fk, s) = (Ok (fork_bytes content fk), st')"
proof -
  let ?es = "fk_extents fk" and ?bs = "fk_block_size fk" and ?F = "fork_bytes content fk"
  have d: "disk (fork_ops dev unz) ?F (fork_ready ready ?bs ?es)"
    using assms(2,3) unfolding fork_bytes_def by (intro disk_of_fork) (auto simp: fork_ok_def)
  have r: "fork_ready ready ?bs ?es (fk\<lparr>fk_position := 0\<rparr>, s) 0"
    using assms(1,4) by (auto simp: fork_ready_def)
  from disk.read_exact_at [OF d r, of "length ?F"] obtain st' where
    "read_exact (fork_read dev unz) (length ?F) (fk\<lparr>fk_position := 0\<rparr>, s) = (Ok ?F, st')"
    by (auto simp: fork_ops_def)
  moreover have "fork_seek (Start 0) (fk, s) = (Ok 0, (fk\<lparr>fk_position := 0\<rparr>, s))"
    by (simp add: fork_seek_def ret_run)
  ultimately show ?thesis
    by (auto simp: fork_read_all_def bnd_Ok [where m = "fork_seek (Start 0)"] assms(5))
qed

end

end
