(* ===== verification/Volume.thy ===== *)
theory Volume
  imports ForkRead
begin

text \<open>
  \<open>HFSVolume\<close> of \<open>src/src/lib/hfsplus/lib.rs\<close>: opening a volume, resolving a path through the
  catalog tree, listing a folder. Unicode normalisation is third-party code: \<open>nfd\<close> is a
  parameter. A Rust string is the list of its Unicode scalar values.
\<close>

section \<open>Strings\<close>

type_synonym ustring = "nat list"

text \<open>\<open>str::split('/')\<close>; 47 is the slash.\<close>

fun split_slash :: "ustring \<Rightarrow> ustring list" where
  "split_slash [] = [[]]"
| "split_slash (c # cs) =
     (if c = 47 then [] # split_slash cs
      else (case split_slash cs of p # ps \<Rightarrow> (c # p) # ps | [] \<Rightarrow> [[c]]))"

definition path_parts :: "ustring \<Rightarrow> ustring list" where
  "path_parts filename = filter (\<lambda>s. s \<noteq> []) (split_slash filename)"

text \<open>\<open>encode_utf16\<close>.\<close>

definition utf16_units :: "nat \<Rightarrow> u16 list" where
  "utf16_units c =
     (if c < 0x10000 then [of_nat c]
      else [of_nat (0xD800 + (c - 0x10000) div 1024), of_nat (0xDC00 + (c - 0x10000) mod 1024)])"

definition encode_utf16 :: "ustring \<Rightarrow> u16 list" where
  "encode_utf16 s = concat (map utf16_units s)"

text \<open>\<open>Display\<close> of both string types: \<open>char::from_u32\<close> fails on a surrogate, which is left out.\<close>

definition display_name :: "u16 list \<Rightarrow> ustring" where
  "display_name name = map unat (filter (\<lambda>c. \<not> (0xD800 \<le> c \<and> c \<le> 0xDFFF)) name)"

section \<open>State\<close>

datatype catalog_btree = CaseFolding btree | Binary btree

record volume =
  vol_header :: volume_header
  vol_catalog :: catalog_btree
  vol_extents :: btree

text \<open>The forks of the two trees and the file that they share.\<close>

record 's volume_state =
  vs_catalog :: fork
  vs_extents :: fork
  vs_file :: 's

definition on_catalog :: "(fork \<times> 's, 'e, 'a) act \<Rightarrow> ('s volume_state, 'e, 'a) act" where
  "on_catalog m = (\<lambda>v. case m (vs_catalog v, vs_file v) of
     (r, (fk, s)) \<Rightarrow> (r, v\<lparr>vs_catalog := fk, vs_file := s\<rparr>))"

definition on_extents :: "(fork \<times> 's, 'e, 'a) act \<Rightarrow> ('s volume_state, 'e, 'a) act" where
  "on_extents m = (\<lambda>v. case m (vs_extents v, vs_file v) of
     (r, (fk, s)) \<Rightarrow> (r, v\<lparr>vs_extents := fk, vs_file := s\<rparr>))"

text \<open>Run an action on a fork that is not yet part of the volume.\<close>

definition with_fork :: "fork \<Rightarrow> (fork \<times> 's, 'e, 'a) act \<Rightarrow> ('s, 'e, 'a \<times> fork) act" where
  "with_fork fk m = (\<lambda>s. case m (fk, s) of
     (Ok a, (fk', s')) \<Rightarrow> (Ok (a, fk'), s')
   | (Err e, (fk', s')) \<Rightarrow> (Err e, s')
   | (Panic, (fk', s')) \<Rightarrow> (Panic, s')
   | (Loop, (fk', s')) \<Rightarrow> (Loop, s'))"

section \<open>Opening a volume\<close>

text \<open>
  \<open>HFSVolume::load\<close> returns the volume and its two forks. Both forks are loaded while the
  volume has no extents tree yet, so that neither looks for overflow extents.
\<close>

definition open_catalog ::
  "'s read_seek \<Rightarrow> inflater \<Rightarrow> fork \<Rightarrow> ('s, hfs_error, catalog_btree \<times> fork) act" where
  "open_catalog dev unz catalog_fork =
     bnd (with_fork catalog_fork
            (bt_open (fork_ops dev unz) (catalog_tree_ops hfs_string_cmp))) (\<lambda>(temp_btree, fk).
     if bth_key_compare_type (hn_header (bt_header temp_btree)) = 0xBC then
       bnd (with_fork catalog_fork
              (bt_open (fork_ops dev unz) (catalog_tree_ops hfs_string_binary_cmp)))
         (\<lambda>(t, fk'). ret (Binary t, fk'))
     else ret (CaseFolding temp_btree, fk))"

definition volume_load ::
  "'s read_seek \<Rightarrow> inflater \<Rightarrow> ('s, hfs_error, volume \<times> fork \<times> fork) act" where
  "volume_load dev unz =
     bnd (rs_seek dev (Start 1024)) (\<lambda>_.
     bnd (vh_import (rs_read dev)) (\<lambda>header.
     if vh_signature header \<noteq> HFSP_SIGNATURE \<and> vh_signature header \<noteq> HFSX_SIGNATURE
     then fail (InvalidData ''Invalid volume signature'')
     else
       bnd (fork_load None 0 K_HFSCATALOG_FILE_ID 0 (unat (vh_block_size header))
              (vh_catalog_file header)) (\<lambda>catalog_fork.
       bnd (open_catalog dev unz catalog_fork) (\<lambda>(catalog, cfk).
       bnd (fork_load None 0 K_HFSEXTENTS_FILE_ID 0 (unat (vh_block_size header))
              (vh_extents_file header)) (\<lambda>extents_fork.
       bnd (with_fork extents_fork (bt_open (fork_ops dev unz) extent_tree_ops)) (\<lambda>(ext, efk).
       ret (\<lparr>vol_header = header, vol_catalog = catalog, vol_extents = ext\<rparr>, cfk, efk)))))))"

text \<open>Loading the fork of a file once the volume is open.\<close>

definition volume_overflow ::
  "'s read_seek \<Rightarrow> inflater \<Rightarrow> volume \<Rightarrow> nat \<Rightarrow> extent_key_rec \<Rightarrow>
   ('s volume_state, hfs_error, extent_record) act" where
  "volume_overflow dev unz vol fuel key =
     on_extents (get_record (fork_ops dev unz) extent_tree_ops (vol_extents vol) fuel key)"

definition volume_fork ::
  "'s read_seek \<Rightarrow> inflater \<Rightarrow> volume \<Rightarrow> nat \<Rightarrow> u32 \<Rightarrow> u8 \<Rightarrow> fork_data \<Rightarrow>
   ('s volume_state, hfs_error, fork) act" where
  "volume_fork dev unz vol fuel file_id fork_type data =
     fork_load (Some (volume_overflow dev unz vol fuel)) fuel file_id fork_type
       (unat (vh_block_size (vol_header vol))) data"

section \<open>Paths\<close>

definition name_key :: "u32 \<Rightarrow> u16 list \<Rightarrow> catalog_key" where
  "name_key parent_id name = \<lparr>ck_case_match = False, ck_parent_id = parent_id, ck_node_name = name\<rparr>"

definition convert_key :: "catalog_key \<Rightarrow> catalog_key" where
  "convert_key k = \<lparr>ck_case_match = ck_case_match k, ck_parent_id = ck_parent_id k,
     ck_node_name = ck_node_name k\<rparr>"

definition convert_record :: "catalog_record \<Rightarrow> catalog_record" where
  "convert_record rec =
     \<lparr>cr_key = convert_key (cr_key rec),
      cr_body = (case cr_body rec of
          BFolder f \<Rightarrow> BFolder f
        | BFile f \<Rightarrow> BFile f
        | BFolderThread k \<Rightarrow> BFolderThread (convert_key k)
        | BFileThread k \<Rightarrow> BFileThread (convert_key k))\<rparr>"

text \<open>The loop over the parts of a path; \<open>get\<close> is the \<open>get_record\<close> of the catalog tree.\<close>

fun path_loop ::
  "(ustring \<Rightarrow> ustring) \<Rightarrow> (catalog_key \<Rightarrow> ('s, hfs_error, catalog_record) act) \<Rightarrow> u32 \<Rightarrow>
   catalog_record option \<Rightarrow> ustring list \<Rightarrow> ('s, hfs_error, catalog_record) act" where
  "path_loop nfd get current_folder_id current_record [] =
     (case current_record of Some r \<Rightarrow> ret r | None \<Rightarrow> fail KeyNotFound)"
| "path_loop nfd get current_folder_id current_record (part # parts) =
     bnd (get (name_key current_folder_id (encode_utf16 (nfd part)))) (\<lambda>record.
     case cr_body record of
       BFolder f \<Rightarrow> path_loop nfd get (cfo_folder_id f) (Some record) parts
     | BFile _ \<Rightarrow>
         if parts \<noteq> [] then fail KeyNotFound
         else path_loop nfd get current_folder_id (Some record) parts
     | _ \<Rightarrow> fail InvalidRecordType)"

definition root_thread_record ::
  "(catalog_key \<Rightarrow> ('s, hfs_error, catalog_record) act) \<Rightarrow>
   ('s, hfs_error, catalog_record option) act" where
  "root_thread_record get = (\<lambda>s.
     case get (name_key 2 []) s of
       (Ok record, s') \<Rightarrow>
         (case cr_body record of
            BFolderThread thread_data \<Rightarrow> bnd (get thread_data) (\<lambda>r. ret (Some r)) s'
          | _ \<Rightarrow> (Ok None, s'))
     | (Err _, s') \<Rightarrow> (Ok None, s')
     | (Panic, s') \<Rightarrow> (Panic, s')
     | (Loop, s') \<Rightarrow> (Loop, s'))"

definition get_path_record_impl ::
  "(ustring \<Rightarrow> ustring) \<Rightarrow> (catalog_key \<Rightarrow> ('s, hfs_error, catalog_record) act) \<Rightarrow> ustring \<Rightarrow>
   ('s, hfs_error, catalog_record) act" where
  "get_path_record_impl nfd get filename =
     (let parts = path_parts filename in
      bnd (if parts = [] then root_thread_record get else ret None) (\<lambda>root.
      case root of
        Some r \<Rightarrow> ret r
      | None \<Rightarrow> path_loop nfd get 2 None parts))"

definition get_path_record ::
  "'s read_seek \<Rightarrow> inflater \<Rightarrow> (ustring \<Rightarrow> ustring) \<Rightarrow> volume \<Rightarrow> nat \<Rightarrow> ustring \<Rightarrow>
   ('s volume_state, hfs_error, catalog_record) act" where
  "get_path_record dev unz nfd vol fuel filename =
     (case vol_catalog vol of
        CaseFolding t \<Rightarrow>
          on_catalog (get_path_record_impl nfd
            (get_record (fork_ops dev unz) (catalog_tree_ops hfs_string_cmp) t fuel) filename)
      | Binary t \<Rightarrow>
          bnd (on_catalog (get_path_record_impl nfd
            (get_record (fork_ops dev unz) (catalog_tree_ops hfs_string_binary_cmp) t fuel)
            filename)) (\<lambda>rec. ret (convert_record rec)))"

section \<open>Folders\<close>

definition list_dir_impl ::
  "(catalog_key \<Rightarrow> catalog_key \<Rightarrow> ('s, hfs_error, catalog_record list) act) \<Rightarrow> u32 \<Rightarrow>
   ('s, hfs_error, (ustring \<times> catalog_record) list) act" where
  "list_dir_impl get_range folder_id =
     (if 2 ^ 32 \<le> unat folder_id + 1 then panic
      else
        bnd (get_range (name_key folder_id []) (name_key (folder_id + 1) [])) (\<lambda>records.
        ret (map (\<lambda>r. (display_name (ck_node_name (cr_key r)), r))
               (filter (\<lambda>r. ck_parent_id (cr_key r) = folder_id) records))))"

definition list_dir ::
  "'s read_seek \<Rightarrow> inflater \<Rightarrow> (ustring \<Rightarrow> ustring) \<Rightarrow> volume \<Rightarrow> nat \<Rightarrow> ustring \<Rightarrow>
   ('s volume_state, hfs_error, (ustring \<times> catalog_record) list) act" where
  "list_dir dev unz nfd vol fuel path =
     bnd (get_path_record dev unz nfd vol fuel path) (\<lambda>record.
     case cr_body record of
       BFolder f \<Rightarrow>
         (case vol_catalog vol of
            CaseFolding t \<Rightarrow>
              on_catalog (list_dir_impl (get_record_range (fork_ops dev unz)
                (catalog_tree_ops hfs_string_cmp) t fuel) (cfo_folder_id f))
          | Binary t \<Rightarrow>
              bnd (on_catalog (list_dir_impl (get_record_range (fork_ops dev unz)
                (catalog_tree_ops hfs_string_binary_cmp) t fuel) (cfo_folder_id f)))
                (\<lambda>results. ret (map (\<lambda>(n, r). (n, convert_record r)) results)))
     | _ \<Rightarrow> fail InvalidRecordType)"

end
