(* ===== verification/VolumeSearch.thy ===== *)
theory VolumeSearch
  imports Volume
begin

text \<open>
  What path resolution and folder listing compute, in terms of the list of records that the
  catalog holds: a path names the record reached by walking from the root folder, a listing is
  the records whose parent is the folder.
\<close>

section \<open>Walking the catalog\<close>

definition named :: "(u16 list \<Rightarrow> u16 list \<Rightarrow> ordering) \<Rightarrow> u32 \<Rightarrow> u16 list \<Rightarrow> catalog_record \<Rightarrow> bool" where
  "named scmp parent_id name r \<longleftrightarrow> catalog_key_cmp scmp (name_key parent_id name) (cr_key r) = Equal"

fun is_file :: "catalog_body \<Rightarrow> bool" where
  "is_file (BFile f) = True"
| "is_file _ = False"

fun is_folder :: "catalog_body \<Rightarrow> bool" where
  "is_folder (BFolder f) = True"
| "is_folder _ = False"

text \<open>\<open>walk recs id names r\<close>: the names lead from the folder \<open>id\<close> to the record \<open>r\<close>.\<close>

fun walk ::
  "(u16 list \<Rightarrow> u16 list \<Rightarrow> ordering) \<Rightarrow> catalog_record list \<Rightarrow> u32 \<Rightarrow> u16 list list \<Rightarrow>
   catalog_record \<Rightarrow> bool" where
  "walk scmp recs parent_id [] r \<longleftrightarrow> False"
| "walk scmp recs parent_id [name] r \<longleftrightarrow>
     r \<in> set recs \<and> named scmp parent_id name r \<and> (is_file (cr_body r) \<or> is_folder (cr_body r))"
| "walk scmp recs parent_id (name # names) r \<longleftrightarrow>
     (\<exists>x \<in> set recs. named scmp parent_id name x \<and>
        (\<exists>f. cr_body x = BFolder f \<and> walk scmp recs (cfo_folder_id f) names r))"

text \<open>What the resolution relies on: the catalog tree finds the record of a key, or fails.\<close>

locale catalog_lookup =
  fixes get :: "catalog_key \<Rightarrow> ('s, hfs_error, catalog_record) act"
    and scmp :: "u16 list \<Rightarrow> u16 list \<Rightarrow> ordering"
    and recs :: "catalog_record list"
    and cat_ready :: "'s \<Rightarrow> bool"
  assumes get_found: "cat_ready s \<Longrightarrow> r \<in> set recs \<Longrightarrow> named scmp i n r \<Longrightarrow>
      \<exists>s'. get (name_key i n) s = (Ok r, s') \<and> cat_ready s'"
    and get_absent: "cat_ready s \<Longrightarrow> (\<And>r. r \<in> set recs \<Longrightarrow> \<not> named scmp i n r) \<Longrightarrow>
      \<exists>e s'. get (name_key i n) s = (Err e, s') \<and> cat_ready s'"
begin

lemma named_unique:
  "cat_ready s \<Longrightarrow> r \<in> set recs \<Longrightarrow> named scmp i n r \<Longrightarrow> x \<in> set recs \<Longrightarrow> named scmp i n x \<Longrightarrow> x = r"
  using get_found [of s r i n] get_found [of s x i n] by auto

lemma path_loop_walk:
  "cat_ready s \<Longrightarrow> parts \<noteq> [] \<Longrightarrow>
   (\<exists>r s'. path_loop nfd get i cur parts s = (Ok r, s') \<and> cat_ready s' \<and>
       walk scmp recs i (map (\<lambda>p. encode_utf16 (nfd p)) parts) r) \<or>
   (\<exists>e s'. path_loop nfd get i cur parts s = (Err e, s') \<and> cat_ready s' \<and>
       \<not> (\<exists>r. walk scmp recs i (map (\<lambda>p. encode_utf16 (nfd p)) parts) r))"
proof (induction parts arbitrary: s i cur)
  case (Cons part parts)
  let ?n = "encode_utf16 (nfd part)" and ?ns = "map (\<lambda>p. encode_utf16 (nfd p)) parts"
  show ?case
  proof (cases "\<exists>x \<in> set recs. named scmp i ?n x")
    case False
    with get_absent [OF Cons.prems(1), of i ?n] obtain e s' where
      "get (name_key i ?n) s = (Err e, s')" "cat_ready s'" by blast
    moreover have "\<not> walk scmp recs i (?n # ?ns) r" for r
      using False by (cases ?ns) auto
    ultimately show ?thesis by (auto simp: bnd_Err [where m = "get (name_key i ?n)"])
  next
    case True
    then obtain x where x: "x \<in> set recs" "named scmp i ?n x" by blast
    from get_found [OF Cons.prems(1) this] obtain s1 where
      s1: "get (name_key i ?n) s = (Ok x, s1)" "cat_ready s1" by blast
    note uniq = named_unique [OF Cons.prems(1) x]
    show ?thesis
    proof (cases "parts = []")
      case True
      have w: "walk scmp recs i [?n] r \<longleftrightarrow> r = x \<and> (is_file (cr_body x) \<or> is_folder (cr_body x))" for r
        unfolding walk.simps using x uniq by blast
      show ?thesis
      proof (cases "cr_body x")
        case (BFolder f)
        with True s1 show ?thesis
          by (simp add: w bnd_Ok [where m = "get (name_key i ?n)"] ret_run del: walk.simps)
      next
        case (BFile f)
        with True s1 show ?thesis
          by (simp add: w bnd_Ok [where m = "get (name_key i ?n)"] ret_run del: walk.simps)
      qed (use True s1 in
          \<open>simp_all add: w bnd_Ok [where m = "get (name_key i ?n)"] fail_run del: walk.simps\<close>)
    next
      case False
      then obtain m ms where ms: "?ns = m # ms" by (cases parts) auto
      have w: "walk scmp recs i (?n # ?ns) r \<longleftrightarrow>
          (\<exists>f. cr_body x = BFolder f \<and> walk scmp recs (cfo_folder_id f) ?ns r)" for r
        unfolding ms walk.simps using x uniq by blast
      show ?thesis
      proof (cases "cr_body x")
        case (BFolder f)
        have "walk scmp recs i (?n # ?ns) r \<longleftrightarrow> walk scmp recs (cfo_folder_id f) ?ns r" for r
          unfolding w BFolder by simp
        with Cons.IH [OF s1(2) False, of "cfo_folder_id f" "Some x"] s1(1) BFolder show ?thesis
          by (simp add: bnd_Ok [where m = "get (name_key i ?n)"])
      next
        case (BFile f)
        have "\<not> walk scmp recs i (?n # ?ns) r" for r
          unfolding w BFile by simp
        with BFile s1 False show ?thesis
          by (simp add: bnd_Ok [where m = "get (name_key i ?n)"] fail_run del: walk.simps)
      next
        case (BFolderThread k)
        have "\<not> walk scmp recs i (?n # ?ns) r" for r
          unfolding w BFolderThread by simp
        with BFolderThread s1 show ?thesis
          by (simp add: bnd_Ok [where m = "get (name_key i ?n)"] fail_run del: walk.simps)
      next
        case (BFileThread k)
        have "\<not> walk scmp recs i (?n # ?ns) r" for r
          unfolding w BFileThread by simp
        with BFileThread s1 show ?thesis
          by (simp add: bnd_Ok [where m = "get (name_key i ?n)"] fail_run del: walk.simps)
      qed
    qed
  qed
qed simp

lemma resolve_walk:
  assumes "cat_ready s" and "path_parts filename \<noteq> []"
  shows "(\<exists>s'. get_path_record_impl nfd get filename s = (Ok r, s')) \<longleftrightarrow>
    walk scmp recs 2 (map (\<lambda>p. encode_utf16 (nfd p)) (path_parts filename)) r"
proof -
  let ?ps = "path_parts filename"
  have run: "get_path_record_impl nfd get filename s = path_loop nfd get 2 None ?ps s"
    using assms(2) by (simp add: get_path_record_impl_def)
  have det: "walk scmp recs i ns r \<Longrightarrow> walk scmp recs i ns r' \<Longrightarrow> r = r'" for i ns r r'
  proof (induction ns arbitrary: i)
    case (Cons n ns)
    then show ?case
    proof (cases ns)
      case Nil
      with Cons.prems named_unique [OF assms(1)] show ?thesis by auto
    next
      case (Cons m ms)
      with Cons.prems obtain x f y g where
        "x \<in> set recs" "named scmp i n x" "cr_body x = BFolder f" "walk scmp recs (cfo_folder_id f) ns r"
        "y \<in> set recs" "named scmp i n y" "cr_body y = BFolder g" "walk scmp recs (cfo_folder_id g) ns r'"
        by auto
      moreover from this named_unique [OF assms(1)] have "x = y" by blast
      ultimately show ?thesis using Cons.IH by auto
    qed
  qed simp
  from path_loop_walk [OF assms, of nfd 2 None] show ?thesis
    unfolding run using det by fastforce
qed

lemma resolve_ready:
  assumes "cat_ready s" and "path_parts filename \<noteq> []"
    and "get_path_record_impl nfd get filename s = (Ok r, s')"
  shows "cat_ready s'"
proof -
  have "get_path_record_impl nfd get filename s = path_loop nfd get 2 None (path_parts filename) s"
    using assms(2) by (simp add: get_path_record_impl_def)
  with path_loop_walk [OF assms(1,2), of nfd 2 None] assms(3) show ?thesis by auto
qed

end

section \<open>Listing a folder\<close>

text \<open>No name sorts before the empty one, in both orders.\<close>

lemma nothing_below_empty:
  "hfs_string_cmp n [] \<noteq> Less" "hfs_string_binary_cmp n [] \<noteq> Less"
proof -
  have "lex_cmp xs [] \<noteq> Less" for xs :: "u16 list" by (cases xs) simp_all
  then show "hfs_string_cmp n [] \<noteq> Less" "hfs_string_binary_cmp n [] \<noteq> Less"
    by (simp_all add: hfs_string_cmp_folded hfs_string_binary_cmp_def folded_def)
qed

lemma between_parent:
  assumes "\<And>n. scmp n [] \<noteq> Less" and "unat i + 1 < 2 ^ 32"
  shows "between (catalog_tree_ops scmp) (name_key i []) (name_key (i + 1) []) recs =
    filter (\<lambda>r. ck_parent_id (cr_key r) = i) recs"
proof -
  have i: "unat (i + 1) = unat i + 1" using assms(2) by (simp add: unat_word_ariths)
  have "k_cmp (catalog_tree_ops scmp) (cr_key r) (name_key i []) \<noteq> Less \<and>
      k_cmp (catalog_tree_ops scmp) (cr_key r) (name_key (i + 1) []) = Less \<longleftrightarrow>
      ck_parent_id (cr_key r) = i" for r
    using assms(1) [of "ck_node_name (cr_key r)"] i
    by (auto simp: catalog_tree_ops_def catalog_key_cmp_def name_key_def cmp_def word_less_nat_alt
        word_unat_eq_iff less_Suc_eq split: if_splits)
  then show ?thesis
    unfolding between_def by (intro filter_cong) (simp_all add: catalog_tree_ops_def)
qed

section \<open>A mounted volume\<close>

text \<open>
  Where a tree lives: the block size and the extents of its fork. \<open>fork_tree\<close> says that the
  extents lie on the volume and that the bytes of the fork hold the tree.
\<close>

definition fork_tree ::
  "bytes \<Rightarrow> nat \<Rightarrow> mapped_extent list \<Rightarrow> ('k, 'r) tree_ops \<Rightarrow> btree \<Rightarrow> ('k, 'r) tree \<Rightarrow> nat \<Rightarrow> bool"
where
  "fork_tree content bs exts ops t tr fuel \<longleftrightarrow>
     contiguous 0 exts \<and> on_volume content bs exts \<and> plain (fork_content content bs exts) \<and>
     tree_at (fork_content content bs exts) ops t tr fuel"

fun catalog_order :: "catalog_btree \<Rightarrow> u16 list \<Rightarrow> u16 list \<Rightarrow> ordering" where
  "catalog_order (CaseFolding t) = hfs_string_cmp"
| "catalog_order (Binary t) = hfs_string_binary_cmp"

fun catalog_tree :: "catalog_btree \<Rightarrow> btree" where
  "catalog_tree (CaseFolding t) = t"
| "catalog_tree (Binary t) = t"

lemma catalog_order_keys: "tree_keys (catalog_tree_ops (catalog_order c))"
  by (cases c) (simp_all add: folded_order.tree_keys_axioms binary_order.tree_keys_axioms)

lemma convert_record_id [simp]: "convert_record r = r"
  by (cases r) (simp add: convert_record_def convert_key_def split: catalog_body.splits)

definition volume_ready ::
  "('s \<Rightarrow> nat \<Rightarrow> bool) \<Rightarrow> nat \<Rightarrow> mapped_extent list \<Rightarrow> mapped_extent list \<Rightarrow> 's volume_state \<Rightarrow> bool"
where
  "volume_ready ready bs cexts eexts v \<longleftrightarrow>
     (\<exists>p. fork_ready ready bs cexts (vs_catalog v, vs_file v) p) \<and>
     (\<exists>p. fork_ready ready bs eexts (vs_extents v, vs_file v) p)"

lemma on_catalog_ready:
  assumes "volume_ready ready bs cexts eexts v"
    and "m (vs_catalog v, vs_file v) = (r, st)" and "fork_ready ready bs cexts st p"
  shows "\<exists>v'. on_catalog m v = (r, v') \<and> volume_ready ready bs cexts eexts v'"
  using assms by (auto simp: on_catalog_def volume_ready_def fork_ready_def split: prod.split)

lemma on_extents_ready:
  assumes "volume_ready ready bs cexts eexts v"
    and "m (vs_extents v, vs_file v) = (r, st)" and "fork_ready ready bs eexts st p"
  shows "\<exists>v'. on_extents m v = (r, v') \<and> volume_ready ready bs cexts eexts v'"
  using assms by (auto simp: on_extents_def volume_ready_def fork_ready_def split: prod.split)

text \<open>The lookups of a mounted volume, as instances of the two interfaces.\<close>

definition tree_db :: "('k, 'r) tree_ops \<Rightarrow> ('k, 'r) tree \<Rightarrow> 'k \<Rightarrow> 'r option" where
  "tree_db ops tr key = find (\<lambda>r. k_cmp ops key (r_key ops r) = Equal) (tree_records tr)"

lemma tree_db_Some:
  "tree_db ops tr key = Some r \<Longrightarrow> r \<in> set (tree_records tr) \<and> k_cmp ops key (r_key ops r) = Equal"
  by (auto simp: tree_db_def find_Some_iff)

context disk begin

lemma disk_of_fork_tree:
  "fork_tree content bs exts ops t tr fuel \<Longrightarrow>
   disk (fork_ops dev unz) (fork_content content bs exts) (fork_ready ready bs exts)"
  by (intro disk_of_fork) (auto simp: fork_tree_def)

lemma fork_get_found:
  assumes "fork_tree content bs exts ops t tr fuel" and "fork_ready ready bs exts st p"
    and "r \<in> set (tree_records tr)" and "k_cmp ops key (r_key ops r) = Equal"
  shows "\<exists>st' p'. get_record (fork_ops dev unz) ops t fuel key st = (Ok r, st') \<and>
    fork_ready ready bs exts st' p'"
  using disk.get_record_present [OF disk_of_fork_tree [OF assms(1)], of ops t tr fuel] assms
  by (simp add: fork_tree_def)

lemma fork_get_missing:
  assumes "fork_tree content bs exts ops t tr fuel" and "fork_ready ready bs exts st p"
    and "\<And>r. r \<in> set (tree_records tr) \<Longrightarrow> k_cmp ops key (r_key ops r) \<noteq> Equal"
  shows "\<exists>e st' p'. get_record (fork_ops dev unz) ops t fuel key st = (Err e, st') \<and>
    fork_ready ready bs exts st' p'"
proof -
  have "tree_at (fork_content content bs exts) ops t tr fuel"
    using assms(1) by (simp add: fork_tree_def)
  from disk.get_record_missing [OF disk_of_fork_tree [OF assms(1)] this assms(2,3)]
  show ?thesis by blast
qed

lemma fork_range:
  assumes "fork_tree content bs exts ops t tr fuel" and "fork_ready ready bs exts st p"
    and "\<forall>l \<in> set (leaves tr). snd l \<noteq> []"
  shows "\<exists>st' p'. get_record_range (fork_ops dev unz) ops t fuel first bound st =
    (Ok (between ops first bound (tree_records tr)), st') \<and> fork_ready ready bs exts st' p'"
proof -
  have "tree_at (fork_content content bs exts) ops t tr fuel"
    using assms(1) by (simp add: fork_tree_def)
  from disk.get_record_range_between [OF disk_of_fork_tree [OF assms(1)] this assms(2,3)]
  show ?thesis by blast
qed

lemma fork_catalog_lookup:
  assumes "fork_tree content bs exts (catalog_tree_ops scmp) t tr fuel"
  shows "catalog_lookup (get_record (fork_ops dev unz) (catalog_tree_ops scmp) t fuel) scmp
    (tree_records tr) (\<lambda>st. \<exists>p. fork_ready ready bs exts st p)"
proof (unfold_locales, goal_cases)
  case (1 st r i n)
  then obtain p where "fork_ready ready bs exts st p" by blast
  from fork_get_found [OF assms this 1(2), of "name_key i n"] 1(3) show ?case
    by (auto simp: named_def catalog_tree_ops_def)
next
  case (2 st i n)
  then obtain p where "fork_ready ready bs exts st p" by blast
  from fork_get_missing [OF assms this, of "name_key i n"] 2(2) show ?case
    by (auto simp: named_def catalog_tree_ops_def)
qed

lemma volume_overflow_tree:
  assumes "fork_tree content bs eexts extent_tree_ops (vol_extents vol) tr fuel"
  shows "overflow_tree (volume_overflow dev unz vol fuel) (tree_db extent_tree_ops tr)
    (volume_ready ready bs cexts eexts)"
proof
  fix v key r
  assume v: "volume_ready ready bs cexts eexts v" and r: "tree_db extent_tree_ops tr key = Some r"
  from v obtain p where "fork_ready ready bs eexts (vs_extents v, vs_file v) p"
    by (auto simp: volume_ready_def)
  from fork_get_found [OF assms this, of r key] tree_db_Some [OF r] obtain st' p' where
    "get_record (fork_ops dev unz) extent_tree_ops (vol_extents vol) fuel key
       (vs_extents v, vs_file v) = (Ok r, st')" "fork_ready ready bs eexts st' p'" by blast
  from on_extents_ready [where m = "get_record (fork_ops dev unz) extent_tree_ops
      (vol_extents vol) fuel key", OF v this]
  show "\<exists>v'. volume_overflow dev unz vol fuel key v = (Ok r, v') \<and>
      volume_ready ready bs cexts eexts v'"
    by (simp add: volume_overflow_def)
qed

lemma get_path_record_walk:
  assumes "fork_tree content bs cexts (catalog_tree_ops (catalog_order (vol_catalog vol)))
      (catalog_tree (vol_catalog vol)) tr fuel"
    and "volume_ready ready bs cexts eexts v" and "path_parts filename \<noteq> []"
  shows "(\<exists>v'. get_path_record dev unz nfd vol fuel filename v = (Ok r, v')) \<longleftrightarrow>
    walk (catalog_order (vol_catalog vol)) (tree_records tr) 2
      (map (\<lambda>p. encode_utf16 (nfd p)) (path_parts filename)) r"
proof -
  let ?get = "get_record (fork_ops dev unz)
    (catalog_tree_ops (catalog_order (vol_catalog vol))) (catalog_tree (vol_catalog vol)) fuel"
  have run: "fst (get_path_record dev unz nfd vol fuel filename v) =
      fst (get_path_record_impl nfd ?get filename (vs_catalog v, vs_file v))"
    by (cases "vol_catalog vol")
      (auto simp: get_path_record_def on_catalog_def bnd_def ret_def split: prod.split res.split)
  have "(\<exists>v'. get_path_record dev unz nfd vol fuel filename v = (Ok r, v')) \<longleftrightarrow>
      fst (get_path_record dev unz nfd vol fuel filename v) = Ok r"
    by (metis fst_conv prod.collapse)
  also have "\<dots> \<longleftrightarrow> (\<exists>st'. get_path_record_impl nfd ?get filename (vs_catalog v, vs_file v) = (Ok r, st'))"
    unfolding run by (metis fst_conv prod.collapse)
  also have "\<dots> \<longleftrightarrow> walk (catalog_order (vol_catalog vol)) (tree_records tr) 2
      (map (\<lambda>p. encode_utf16 (nfd p)) (path_parts filename)) r"
    by (rule catalog_lookup.resolve_walk [OF fork_catalog_lookup [OF assms(1)] _ assms(3)])
      (use assms(2) in \<open>auto simp: volume_ready_def\<close>)
  finally show ?thesis .
qed

lemma list_dir_impl_children:
  assumes "fork_tree content bs exts (catalog_tree_ops scmp) t tr fuel"
    and "fork_ready ready bs exts st p" and "\<forall>l \<in> set (leaves tr). snd l \<noteq> []"
    and "\<And>n. scmp n [] \<noteq> Less" and "unat i + 1 < 2 ^ 32"
  shows "\<exists>st' p'. list_dir_impl (get_record_range (fork_ops dev unz) (catalog_tree_ops scmp) t fuel) i st =
    (Ok (map (\<lambda>r. (display_name (ck_node_name (cr_key r)), r))
       (filter (\<lambda>r. ck_parent_id (cr_key r) = i) (tree_records tr))), st') \<and>
    fork_ready ready bs exts st' p'"
proof -
  from fork_range [OF assms(1-3), of unz "name_key i []" "name_key (i + 1) []"] obtain st' p' where
    "get_record_range (fork_ops dev unz) (catalog_tree_ops scmp) t fuel
       (name_key i []) (name_key (i + 1) []) st =
      (Ok (filter (\<lambda>r. ck_parent_id (cr_key r) = i) (tree_records tr)), st')"
    "fork_ready ready bs exts st' p'"
    unfolding between_parent [where scmp = scmp, OF assms(4,5)] by blast
  then show ?thesis using assms(5)
    by (auto simp: list_dir_impl_def ret_run
        bnd_Ok [where m = "get_record_range (fork_ops dev unz) (catalog_tree_ops scmp) t fuel
          (name_key i []) (name_key (i + 1) [])"])
qed

lemma get_path_record_ready:
  assumes "fork_tree content bs cexts (catalog_tree_ops (catalog_order (vol_catalog vol)))
      (catalog_tree (vol_catalog vol)) tr fuel"
    and "volume_ready ready bs cexts eexts v" and "path_parts filename \<noteq> []"
    and "get_path_record dev unz nfd vol fuel filename v = (Ok r, v')"
  shows "volume_ready ready bs cexts eexts v'"
proof -
  let ?get = "get_record (fork_ops dev unz)
    (catalog_tree_ops (catalog_order (vol_catalog vol))) (catalog_tree (vol_catalog vol)) fuel"
  let ?m = "get_path_record_impl nfd ?get filename" and ?st = "(vs_catalog v, vs_file v)"
  have v': "v' = snd (on_catalog ?m v)"
    using assms(4) by (cases "vol_catalog vol")
      (auto simp: get_path_record_def on_catalog_def bnd_def ret_def split: prod.splits res.splits)
  have ok: "fst (?m ?st) = Ok r"
    using assms(4) by (cases "vol_catalog vol")
      (auto simp: get_path_record_def on_catalog_def bnd_def ret_def split: prod.splits res.splits)
  from ok obtain st' where st': "?m ?st = (Ok r, st')" by (metis prod.collapse)
  have "\<exists>p. fork_ready ready bs cexts st' p"
    by (rule catalog_lookup.resolve_ready [OF fork_catalog_lookup [OF assms(1)] _ assms(3) st'])
      (use assms(2) in \<open>auto simp: volume_ready_def\<close>)
  then obtain p' where "fork_ready ready bs cexts st' p'" ..
  from on_catalog_ready [where m = ?m, OF assms(2) st' this] v' show ?thesis by auto
qed

lemma list_dir_children:
  assumes tree: "fork_tree content bs cexts (catalog_tree_ops (catalog_order (vol_catalog vol)))
      (catalog_tree (vol_catalog vol)) tr fuel"
    and ready: "volume_ready ready bs cexts eexts v" and ne: "\<forall>l \<in> set (leaves tr). snd l \<noteq> []"
    and parts: "path_parts path \<noteq> []"
    and w: "walk (catalog_order (vol_catalog vol)) (tree_records tr) 2
      (map (\<lambda>p. encode_utf16 (nfd p)) (path_parts path)) r"
    and f: "cr_body r = BFolder f" "unat (cfo_folder_id f) + 1 < 2 ^ 32"
  shows "\<exists>v'. list_dir dev unz nfd vol fuel path v =
    (Ok (map (\<lambda>r. (display_name (ck_node_name (cr_key r)), r))
       (filter (\<lambda>r. ck_parent_id (cr_key r) = cfo_folder_id f) (tree_records tr))), v')"
proof -
  let ?scmp = "catalog_order (vol_catalog vol)" and ?t = "catalog_tree (vol_catalog vol)"
  let ?m = "list_dir_impl (get_record_range (fork_ops dev unz) (catalog_tree_ops ?scmp) ?t fuel)
    (cfo_folder_id f)"
  from get_path_record_walk [OF tree ready parts, of unz nfd r] w obtain v1 where
    v1: "get_path_record dev unz nfd vol fuel path v = (Ok r, v1)" by blast
  have r1: "volume_ready ready bs cexts eexts v1"
    by (rule get_path_record_ready [OF tree ready parts v1])
  then obtain p where p: "fork_ready ready bs cexts (vs_catalog v1, vs_file v1) p"
    by (auto simp: volume_ready_def)
  have "?scmp n [] \<noteq> Less" for n
    by (cases "vol_catalog vol") (simp_all add: nothing_below_empty)
  from list_dir_impl_children [where scmp = ?scmp, OF tree p ne this f(2), of unz]
  obtain st' p' where st': "?m (vs_catalog v1, vs_file v1) =
    (Ok (map (\<lambda>r. (display_name (ck_node_name (cr_key r)), r))
       (filter (\<lambda>r. ck_parent_id (cr_key r) = cfo_folder_id f) (tree_records tr))), st')"
    "fork_ready ready bs cexts st' p'" by blast
  from on_catalog_ready [where m = ?m, OF r1 st'] show ?thesis
    using f(1)
    by (cases "vol_catalog vol")
      (auto simp: list_dir_def bnd_Ok [where m = "get_path_record dev unz nfd vol fuel path", OF v1]
        bnd_Ok [where m = "on_catalog m" for m] ret_run case_prod_beta)
qed

end

section \<open>Interpretations on a mounted volume\<close>

definition mounted ::
  "'s read_seek \<Rightarrow> bytes \<Rightarrow> ('s \<Rightarrow> nat \<Rightarrow> bool) \<Rightarrow> nat \<Rightarrow> mapped_extent list \<Rightarrow>
   mapped_extent list \<Rightarrow> volume \<Rightarrow> (catalog_key, catalog_record) tree \<Rightarrow>
   (extent_key_rec, extent_record) tree \<Rightarrow> nat \<Rightarrow> 's volume_state \<Rightarrow> bool" where
  "mounted dev content ready bs cexts eexts vol ctr etr fuel v \<longleftrightarrow>
     disk dev content ready \<and>
     fork_tree content bs cexts (catalog_tree_ops (catalog_order (vol_catalog vol)))
       (catalog_tree (vol_catalog vol)) ctr fuel \<and>
     fork_tree content bs eexts extent_tree_ops (vol_extents vol) etr fuel \<and>
     volume_ready ready bs cexts eexts v"

definition fork_mounted ::
  "'s read_seek \<Rightarrow> bytes \<Rightarrow> ('s \<Rightarrow> nat \<Rightarrow> bool) \<Rightarrow> nat \<Rightarrow> mapped_extent list \<Rightarrow>
   ('k, 'r) tree_ops \<Rightarrow> btree \<Rightarrow> ('k, 'r) tree \<Rightarrow> nat \<Rightarrow> fork \<times> 's \<Rightarrow> bool" where
  "fork_mounted dev content ready bs exts ops t tr fuel st \<longleftrightarrow>
     disk dev content ready \<and> fork_tree content bs exts ops t tr fuel \<and>
     (\<exists>p. fork_ready ready bs exts st p)"

interpretation mounted_overflow: overflow_tree "volume_overflow dev unz vol fuel"
    "tree_db extent_tree_ops etr" "mounted dev content ready bs cexts eexts vol ctr etr fuel"
  for dev unz vol fuel etr content ready bs cexts eexts ctr
proof
  fix v key r
  assume v: "mounted dev content ready bs cexts eexts vol ctr etr fuel v"
    and r: "tree_db extent_tree_ops etr key = Some r"
  from v have "disk dev content ready"
    "fork_tree content bs eexts extent_tree_ops (vol_extents vol) etr fuel"
    and rd: "volume_ready ready bs cexts eexts v" by (auto simp: mounted_def)
  from overflow_tree.look_db [OF disk.volume_overflow_tree [OF this(1,2)] rd r]
  show "\<exists>v'. volume_overflow dev unz vol fuel key v = (Ok r, v') \<and>
      mounted dev content ready bs cexts eexts vol ctr etr fuel v'"
    using v by (auto simp: mounted_def)
qed

interpretation mounted_catalog: catalog_lookup
    "get_record (fork_ops dev unz) (catalog_tree_ops scmp) t fuel" scmp "tree_records tr"
    "fork_mounted dev content ready bs exts (catalog_tree_ops scmp) t tr fuel"
  for dev unz scmp t fuel tr content ready bs exts
proof (unfold_locales, goal_cases)
  case (1 st r i n)
  then have "disk dev content ready" "fork_tree content bs exts (catalog_tree_ops scmp) t tr fuel"
    by (auto simp: fork_mounted_def)
  from catalog_lookup.get_found [OF disk.fork_catalog_lookup [OF this], of st r i n unz] 1
  show ?case by (auto simp: fork_mounted_def)
next
  case (2 st i n)
  then have "disk dev content ready" "fork_tree content bs exts (catalog_tree_ops scmp) t tr fuel"
    by (auto simp: fork_mounted_def)
  from catalog_lookup.get_absent [OF disk.fork_catalog_lookup [OF this], of st i n unz] 2
  show ?case by (auto simp: fork_mounted_def)
qed

section \<open>Operations of a mounted volume\<close>

text \<open>The fork that \<open>Fork::load\<close> builds from a catalog record and the overflow records.\<close>

definition loaded_fork :: "u32 \<Rightarrow> u8 \<Rightarrow> nat \<Rightarrow> nat \<Rightarrow> extent_descriptor list \<Rightarrow> fork" where
  "loaded_fork cid ft bs l es = \<lparr>fk_position = 0, fk_catalog_id = cid, fk_fork_type = ft, fk_block_size = bs,
    fk_logical_size = l, fk_extents = map_extents bs l 0 es, fk_cache = None\<rparr>"

lemma mounted_disk:
  "mounted dev content ready bs cexts eexts vol ctr etr fuel v \<Longrightarrow>
   disk dev content ready \<and> (\<exists>q. ready (vs_file v) q)"
  by (auto simp: mounted_def volume_ready_def fork_ready_def)

lemma volume_fork_loads:
  assumes "mounted dev content ready vbs cexts eexts vol ctr etr fuel v"
    and "bs = unat (vh_block_size (vol_header vol))" and "l = unat (fd_logical_size data)"
    and "es = fd_extents data @ concat (map er_body recs)"
    and "overflow_chain (tree_db extent_tree_ops etr) cid ft bs l
      (block_total (fd_extents data) * bs) (block_total (fd_extents data)) recs"
    and "block_total es * bs < 2 ^ 64" and "block_total es < 2 ^ 32" and "length recs \<le> fuel"
  shows "\<exists>v'. volume_fork dev unz vol fuel cid ft data v = (Ok (loaded_fork cid ft bs l es), v') \<and>
    mounted dev content ready vbs cexts eexts vol ctr etr fuel v'"
proof -
  from mounted_overflow.load_loop_chain [OF assms(1), of cid ft bs l 0 "fd_extents data" 0 recs fuel
      unz "[]"] assms(2-8)
  obtain v' where "load_loop (Some (volume_overflow dev unz vol fuel)) cid ft bs l fuel
      (fd_extents data) (0, 0, []) v = (Ok (map_extents bs l 0 es), v')"
    and v': "mounted dev content ready vbs cexts eexts vol ctr etr fuel v'" by auto
  then have "volume_fork dev unz vol fuel cid ft data v = (Ok (loaded_fork cid ft bs l es), v')"
    using assms(2,3) by (simp add: volume_fork_def fork_load_def ret_run loaded_fork_def
        bnd_Ok [where m = "load_loop look a b c d e f g" for look a b c d e f g])
  with v' show ?thesis by blast
qed

lemma loaded_fork_ok:
  assumes "on_volume content bs (map_extents bs l 0 es)"
  shows "fork_ok content (loaded_fork cid ft bs l es)"
    "fork_bytes content (loaded_fork cid ft bs l es) = fork_content content bs (map_extents bs l 0 es)"
    "fk_cache (loaded_fork cid ft bs l es) = None" "fk_logical_size (loaded_fork cid ft bs l es) = l"
    "fk_position (loaded_fork cid ft bs l es) = 0"
  using assms contiguous_map_extents [of l 0 bs es] by (simp_all add: fork_ok_def fork_bytes_def loaded_fork_def)

lemma mounted_path:
  assumes "mounted dev content ready bs cexts eexts vol ctr etr fuel v" and "path_parts path \<noteq> []"
    and "walk (catalog_order (vol_catalog vol)) (tree_records ctr) 2
      (map (\<lambda>p. encode_utf16 (nfd p)) (path_parts path)) r"
  shows "\<exists>v'. get_path_record dev unz nfd vol fuel path v = (Ok r, v') \<and>
    mounted dev content ready bs cexts eexts vol ctr etr fuel v'"
proof -
  from assms(1) have m: "disk dev content ready" "fork_tree content bs cexts
      (catalog_tree_ops (catalog_order (vol_catalog vol))) (catalog_tree (vol_catalog vol)) ctr fuel"
    "volume_ready ready bs cexts eexts v" by (auto simp: mounted_def)
  from disk.get_path_record_walk [OF m assms(2), of unz nfd r] assms(3) obtain v' where
    v': "get_path_record dev unz nfd vol fuel path v = (Ok r, v')" by blast
  from disk.get_path_record_ready [OF m assms(2) v'] assms(1) have
    "mounted dev content ready bs cexts eexts vol ctr etr fuel v'" by (simp add: mounted_def)
  with v' show ?thesis by blast
qed

end
