(* ===== verification/HfsFs.thy ===== *)
theory HfsFs
  imports VolumeSearch
begin

text \<open>
  The HFS+ reader of the kernel (\<open>src/src/kernel/src/hfsfs.rs\<close>): the block device as a seekable
  stream, the read buffer in front of it, mounting a volume, opening a file by its path, and the
  file handle. The block device is a trait object with a state of its own: \<open>read_at\<close> of \<open>n\<close>
  bytes at \<open>off\<close> returns \<open>Some\<close> of the bytes, or \<open>None\<close> for \<open>false\<close>.
\<close>

section \<open>The device\<close>

type_synonym 'd block_reader = "nat \<Rightarrow> nat \<Rightarrow> ('d, hfs_error, bytes option) act"

record 'd device_wrapper =
  dw_device :: 'd
  dw_base_offset :: nat
  dw_pos :: nat

definition device_wrapper_new :: "'d \<Rightarrow> nat \<Rightarrow> 'd device_wrapper" where
  "device_wrapper_new device base_offset = \<lparr>dw_device = device, dw_base_offset = base_offset, dw_pos = 0\<rparr>"

definition on_device :: "('d, 'e, 'a) act \<Rightarrow> ('d device_wrapper, 'e, 'a) act" where
  "on_device m = (\<lambda>w. case m (dw_device w) of (r, d) \<Rightarrow> (r, w\<lparr>dw_device := d\<rparr>))"

definition device_read :: "'d block_reader \<Rightarrow> 'd device_wrapper reader" where
  "device_read read_at n = (\<lambda>w.
     bnd (checked64 (dw_base_offset w + dw_pos w)) (\<lambda>off.
     bnd (on_device (read_at off n)) (\<lambda>r.
     case r of
       Some buf \<Rightarrow> (\<lambda>w. bnd (checked64 (dw_pos w + n)) (\<lambda>p w. (Ok buf, w\<lparr>dw_pos := p\<rparr>)) w)
     | None \<Rightarrow> fail (InvalidData ''Read failed''))) w)"

definition device_seek :: "seek_from \<Rightarrow> ('d device_wrapper, hfs_error, nat) act" where
  "device_seek p = (\<lambda>w.
     case p of
       Start s \<Rightarrow> (Ok s, w\<lparr>dw_pos := s\<rparr>)
     | Current c \<Rightarrow> bnd (add_i64 (as_i64 (dw_pos w)) c) (\<lambda>x w. (Ok (as_u64 x), w\<lparr>dw_pos := as_u64 x\<rparr>)) w
     | End _ \<Rightarrow> (Err UnsupportedOperation, w))"

definition device_ops :: "'d block_reader \<Rightarrow> 'd device_wrapper read_seek" where
  "device_ops read_at = \<lparr>rs_read = device_read read_at, rs_seek = device_seek\<rparr>"

section \<open>The buffer\<close>

record 's buf_reader =
  br_inner :: 's
  br_buffer :: bytes
  br_pos :: nat
  br_cap :: nat

definition with_capacity :: "nat \<Rightarrow> 's \<Rightarrow> 's buf_reader" where
  "with_capacity cap s = \<lparr>br_inner = s, br_buffer = replicate cap 0, br_pos = 0, br_cap = 0\<rparr>"

definition on_inner :: "('s, 'e, 'a) act \<Rightarrow> ('s buf_reader, 'e, 'a) act" where
  "on_inner m = (\<lambda>b. case m (br_inner b) of (r, s) \<Rightarrow> (r, b\<lparr>br_inner := s\<rparr>))"

text \<open>Copy from the buffer.\<close>

definition buf_copy :: "nat \<Rightarrow> ('s buf_reader, hfs_error, bytes) act" where
  "buf_copy want = (\<lambda>b.
     let n = min want (br_cap b - br_pos b)
     in if length (br_buffer b) < br_pos b + n then (Panic, b)
        else (Ok (take n (drop (br_pos b) (br_buffer b))), b\<lparr>br_pos := br_pos b + n\<rparr>))"

text \<open>
  A failed fill leaves \<open>pos\<close> at zero and \<open>cap\<close> at its old value.
\<close>

definition buf_read :: "'s read_seek \<Rightarrow> 's buf_reader reader" where
  "buf_read dev want = (\<lambda>b.
     if br_cap b \<le> br_pos b then
       if length (br_buffer b) \<le> want then on_inner (rs_read dev want) b
       else
         bnd (on_inner (rs_read dev (length (br_buffer b)))) (\<lambda>bs b.
           let b' = b\<lparr>br_buffer := bs @ drop (length bs) (br_buffer b), br_cap := length bs\<rparr>
           in if bs = [] then (Ok [], b') else buf_copy want b') (b\<lparr>br_pos := 0\<rparr>)
     else buf_copy want b)"

definition buf_restart :: "'s read_seek \<Rightarrow> seek_from \<Rightarrow> ('s buf_reader, hfs_error, nat) act" where
  "buf_restart dev p = (\<lambda>b. on_inner (rs_seek dev p) (b\<lparr>br_pos := 0, br_cap := 0\<rparr>))"

definition buf_seek :: "'s read_seek \<Rightarrow> seek_from \<Rightarrow> ('s buf_reader, hfs_error, nat) act" where
  "buf_seek dev p = (\<lambda>b.
     case p of
       Current n \<Rightarrow>
         bnd (add_i64 (as_i64 (br_pos b)) n) (\<lambda>new_pos b.
           if 0 \<le> new_pos \<and> new_pos \<le> as_i64 (br_cap b)
           then on_inner (rs_seek dev (Current 0)) (b\<lparr>br_pos := nat new_pos\<rparr>)
           else buf_restart dev p b) b
     | _ \<Rightarrow> buf_restart dev p b)"

definition buf_ops :: "'s read_seek \<Rightarrow> 's buf_reader read_seek" where
  "buf_ops dev = \<lparr>rs_read = buf_read dev, rs_seek = buf_seek dev\<rparr>"

type_synonym 'd volume_file = "'d device_wrapper buf_reader"

definition volume_file_ops :: "'d block_reader \<Rightarrow> 'd volume_file read_seek" where
  "volume_file_ops read_at = buf_ops (device_ops read_at)"

section \<open>Mounting\<close>

text \<open>\<open>unwrap()\<close>: an error is a panic.\<close>

definition unwrap :: "('s, 'e, 'a) act \<Rightarrow> ('s, 'e, 'a) act" where
  "unwrap m = (\<lambda>s. case m s of (Err _, s') \<Rightarrow> (Panic, s') | x \<Rightarrow> x)"

text \<open>\<open>.ok()\<close> and \<open>.unwrap_or(d)\<close>.\<close>

definition ok_or_none :: "('s, 'e, 'a) act \<Rightarrow> ('s, 'e, 'a option) act" where
  "ok_or_none m = (\<lambda>s. case m s of
     (Ok a, s') \<Rightarrow> (Ok (Some a), s') | (Err _, s') \<Rightarrow> (Ok None, s')
   | (Panic, s') \<Rightarrow> (Panic, s') | (Loop, s') \<Rightarrow> (Loop, s'))"

definition unwrap_or :: "'a \<Rightarrow> ('s, 'e, 'a) act \<Rightarrow> ('s, 'e, 'a) act" where
  "unwrap_or d m = bnd (ok_or_none m) (\<lambda>x. ret (case x of Some a \<Rightarrow> a | None \<Rightarrow> d))"

text \<open>
  \<open>HfsFs::new\<close>, which is \<open>HFSVolume::load\<close> written out again: without the check of the signature,
  and with both forks loaded before the trees are opened.
\<close>

definition hfsfs_open ::
  "'s read_seek \<Rightarrow> inflater \<Rightarrow> ('s, hfs_error, volume \<times> fork \<times> fork) act" where
  "hfsfs_open dev unz =
     bnd (unwrap (rs_seek dev (Start 1024))) (\<lambda>_.
     bnd (unwrap (vh_import (rs_read dev))) (\<lambda>header.
     bnd (unwrap (fork_load None 0 K_HFSCATALOG_FILE_ID 0 (unat (vh_block_size header))
            (vh_catalog_file header))) (\<lambda>catalog_fork.
     bnd (unwrap (fork_load None 0 K_HFSEXTENTS_FILE_ID 0 (unat (vh_block_size header))
            (vh_extents_file header))) (\<lambda>extents_fork.
     bnd (unwrap (open_catalog dev unz catalog_fork)) (\<lambda>(catalog, cfk).
     bnd (unwrap (with_fork extents_fork (bt_open (fork_ops dev unz) extent_tree_ops))) (\<lambda>(ext, efk).
     ret (\<lparr>vol_header = header, vol_catalog = catalog, vol_extents = ext\<rparr>, cfk, efk)))))))"

definition hfsfs_new ::
  "'d block_reader \<Rightarrow> inflater \<Rightarrow> 'd \<Rightarrow> nat \<Rightarrow>
   (hfs_error, volume \<times> fork \<times> fork) res \<times> 'd volume_file" where
  "hfsfs_new read_at unz device base_offset =
     hfsfs_open (volume_file_ops read_at) unz
       (with_capacity (64 * 1024) (device_wrapper_new device base_offset))"

section \<open>Files\<close>

text \<open>\<open>HfsFs::open\<close>; an empty data fork gives way to the resource fork, of type 255.\<close>

definition chosen_fork :: "catalog_file \<Rightarrow> fork_data \<times> u8" where
  "chosen_fork f =
     (if fd_logical_size (cfi_data_fork f) = 0 \<and> 0 < fd_logical_size (cfi_resource_fork f)
      then (cfi_resource_fork f, 0xFF) else (cfi_data_fork f, 0))"

definition hfsfs_open_file ::
  "'s read_seek \<Rightarrow> inflater \<Rightarrow> (ustring \<Rightarrow> ustring) \<Rightarrow> volume \<Rightarrow> nat \<Rightarrow> ustring \<Rightarrow>
   ('s volume_state, hfs_error, fork option) act" where
  "hfsfs_open_file dev unz nfd vol fuel path =
     bnd (ok_or_none (get_path_record dev unz nfd vol fuel path)) (\<lambda>record.
     case record of
       None \<Rightarrow> ret None
     | Some r \<Rightarrow>
         (case cr_body r of
            BFile f \<Rightarrow>
              (case chosen_fork f of (data, fork_type) \<Rightarrow>
                 ok_or_none (volume_fork dev unz vol fuel (cfi_file_id f) fork_type data))
          | _ \<Rightarrow> ret None))"

text \<open>\<open>HfsFileHandle\<close>: an error of a read counts as no bytes.\<close>

definition hfs_file_read :: "'s read_seek \<Rightarrow> inflater \<Rightarrow> nat \<Rightarrow> (fork \<times> 's, hfs_error, bytes) act" where
  "hfs_file_read dev unz want = unwrap_or [] (fork_read dev unz want)"

definition hfs_file_seek :: "nat \<Rightarrow> (fork \<times> 's, hfs_error, unit) act" where
  "hfs_file_seek p = bnd (unwrap_or 0 (fork_seek (Start p))) (\<lambda>_. ret ())"

definition hfs_file_read_at ::
  "'s read_seek \<Rightarrow> inflater \<Rightarrow> nat \<Rightarrow> nat \<Rightarrow> (fork \<times> 's, hfs_error, bytes) act" where
  "hfs_file_read_at dev unz offset want =
     bnd fk_get (\<lambda>fk.
     bnd (hfs_file_seek offset) (\<lambda>_.
     bnd (hfs_file_read dev unz want) (\<lambda>bs.
     bnd (hfs_file_seek (fk_position fk)) (\<lambda>_.
     ret bs))))"

definition hfs_file_size :: "fork \<Rightarrow> nat" where
  "hfs_file_size fk = fk_logical_size fk"

end
