(* ===== verification/Vfs.thy ===== *)
theory Vfs
  imports HfsFs
begin

text \<open>
  The virtual file system of the kernel (\<open>src/src/kernel/src/vfs.rs\<close>): the random device, the mounted
  HFS+ volume, and the operations of an open file. The generator of the crate \<open>rand_chacha\<close> is a
  parameter: its seeded state, and the bytes that a fill draws from a state.
\<close>

section \<open>Files\<close>

text \<open>\<open>Box<dyn File>\<close>: the random device with its position, or a file of the volume.\<close>

datatype file_handle = RandomFile nat | HfsFile fork

text \<open>What the statics \<open>VFS\<close> and \<open>RANDOM_RNG\<close> hold; the state of the volume is shared by its files.\<close>

record ('s, 'g) vfs =
  fs_hfs :: "(volume \<times> 's volume_state) option"
  fs_rng :: "'g option"

record ('s, 'g) vfs_env =
  ve_dev :: "'s read_seek"
  ve_unz :: inflater
  ve_nfd :: "ustring \<Rightarrow> ustring"
  ve_fuel :: nat
  ve_seed :: 'g
  ve_fill :: "'g \<Rightarrow> nat \<Rightarrow> bytes \<times> 'g"

text \<open>\<open>init\<close>, with the outcome of \<open>HfsFs::new\<close>.\<close>

definition vfs_init :: "volume \<times> fork \<times> fork \<Rightarrow> 's \<Rightarrow> ('s, 'g) vfs \<Rightarrow> ('s, 'g) vfs" where
  "vfs_init m s v = (case m of (vol, cfk, efk) \<Rightarrow>
     v\<lparr>fs_hfs := Some (vol, \<lparr>vs_catalog = cfk, vs_extents = efk, vs_file = s\<rparr>)\<rparr>)"

text \<open>An action on the state of the volume; a file of a volume exists only once it is mounted.\<close>

definition with_volume :: "(volume \<Rightarrow> ('s volume_state, 'e, 'a) act) \<Rightarrow> (('s, 'g) vfs, 'e, 'a) act" where
  "with_volume m = (\<lambda>v. case fs_hfs v of
     None \<Rightarrow> (Panic, v)
   | Some (vol, st) \<Rightarrow> (case m vol st of (r, st') \<Rightarrow> (r, v\<lparr>fs_hfs := Some (vol, st')\<rparr>)))"

definition on_hfs_file :: "fork \<Rightarrow> (fork \<times> 's, 'e, 'a) act \<Rightarrow> (('s, 'g) vfs, 'e, 'a \<times> file_handle) act" where
  "on_hfs_file fk m = with_volume (\<lambda>_ st. case m (fk, vs_file st) of
     (Ok a, (fk', s')) \<Rightarrow> (Ok (a, HfsFile fk'), st\<lparr>vs_file := s'\<rparr>)
   | (Err e, (fk', s')) \<Rightarrow> (Err e, st\<lparr>vs_file := s'\<rparr>)
   | (Panic, (fk', s')) \<Rightarrow> (Panic, st\<lparr>vs_file := s'\<rparr>)
   | (Loop, (fk', s')) \<Rightarrow> (Loop, st\<lparr>vs_file := s'\<rparr>))"

section \<open>Opening\<close>

definition DEV_RANDOM :: ustring where
  "DEV_RANDOM = map of_char ''/dev/random''"

definition DEV_URANDOM :: ustring where
  "DEV_URANDOM = map of_char ''/dev/urandom''"

definition vfs_open :: "('s, 'g) vfs_env \<Rightarrow> ustring \<Rightarrow> (('s, 'g) vfs, hfs_error, file_handle option) act" where
  "vfs_open env path = (\<lambda>v.
     if path = DEV_RANDOM \<or> path = DEV_URANDOM then (Ok (Some (RandomFile 0)), v)
     else if fs_hfs v = None then (Ok None, v)
     else
       bnd (with_volume (\<lambda>vol. hfsfs_open_file (ve_dev env) (ve_unz env) (ve_nfd env) vol (ve_fuel env) path))
         (\<lambda>file. ret (map_option HfsFile file)) v)"

section \<open>Operations of a file\<close>

definition random_fill :: "('s, 'g) vfs_env \<Rightarrow> nat \<Rightarrow> (('s, 'g) vfs, hfs_error, bytes) act" where
  "random_fill env n = (\<lambda>v.
     let g = (case fs_rng v of None \<Rightarrow> ve_seed env | Some g \<Rightarrow> g);
         (bs, g') = ve_fill env g n
     in (Ok bs, v\<lparr>fs_rng := Some g'\<rparr>))"

text \<open>A read returns its bytes and the file with its new position.\<close>

definition file_read ::
  "('s, 'g) vfs_env \<Rightarrow> file_handle \<Rightarrow> nat \<Rightarrow> (('s, 'g) vfs, hfs_error, bytes \<times> file_handle) act" where
  "file_read env h n =
     (case h of
        RandomFile p \<Rightarrow> bnd (random_fill env n) (\<lambda>bs. ret (bs, RandomFile p))
      | HfsFile fk \<Rightarrow> on_hfs_file fk (hfs_file_read (ve_dev env) (ve_unz env) n))"

definition file_read_at ::
  "('s, 'g) vfs_env \<Rightarrow> file_handle \<Rightarrow> nat \<Rightarrow> nat \<Rightarrow> (('s, 'g) vfs, hfs_error, bytes \<times> file_handle) act" where
  "file_read_at env h offset n =
     (case h of
        RandomFile p \<Rightarrow> bnd (random_fill env n) (\<lambda>bs. ret (bs, RandomFile p))
      | HfsFile fk \<Rightarrow> on_hfs_file fk (hfs_file_read_at (ve_dev env) (ve_unz env) offset n))"

definition file_seek :: "file_handle \<Rightarrow> nat \<Rightarrow> (('s, 'g) vfs, hfs_error, file_handle) act" where
  "file_seek h p =
     (case h of
        RandomFile _ \<Rightarrow> ret (RandomFile p)
      | HfsFile fk \<Rightarrow> bnd (on_hfs_file fk (hfs_file_seek p)) (\<lambda>(_, h'). ret h'))"

fun file_size :: "file_handle \<Rightarrow> nat" where
  "file_size (RandomFile _) = 2 ^ 64 - 1"
| "file_size (HfsFile fk) = hfs_file_size fk"

text \<open>\<open>read_to_end\<close>: chunks of 4096 bytes until one is empty.\<close>

fun file_read_to_end ::
  "('s, 'g) vfs_env \<Rightarrow> nat \<Rightarrow> file_handle \<Rightarrow> bytes \<Rightarrow> (('s, 'g) vfs, hfs_error, bytes \<times> file_handle) act" where
  "file_read_to_end env 0 h buf = spin"
| "file_read_to_end env (Suc fuel) h buf =
     bnd (file_read env h 4096) (\<lambda>(chunk, h').
     if chunk = [] then ret (buf, h') else file_read_to_end env fuel h' (buf @ chunk))"

section \<open>What the operations promise\<close>

text \<open>A generator that fills what it is asked to fill.\<close>

definition fills :: "('g \<Rightarrow> nat \<Rightarrow> bytes \<times> 'g) \<Rightarrow> bool" where
  "fills f \<longleftrightarrow> (\<forall>g n. length (fst (f g n)) = n)"

text \<open>The random device has no end.\<close>

lemma random_never_ends:
  assumes "fills (ve_fill env)"
  shows "fst (file_read_to_end env fuel (RandomFile p) buf v) = Loop"
proof (induction fuel arbitrary: buf v)
  case 0
  then show ?case by (simp add: spin_run)
next
  case (Suc fuel)
  let ?g = "case fs_rng v of None \<Rightarrow> ve_seed env | Some g \<Rightarrow> g"
  obtain bs g' where f: "ve_fill env ?g 4096 = (bs, g')" by (cases "ve_fill env ?g 4096")
  have "length bs = 4096" using assms f unfolding fills_def by (metis fst_conv)
  then have "bs \<noteq> []" by auto
  moreover have "random_fill env 4096 v = (Ok bs, v\<lparr>fs_rng := Some g'\<rparr>)"
    by (simp add: random_fill_def f)
  then have "file_read env (RandomFile p) 4096 v = (Ok (bs, RandomFile p), v\<lparr>fs_rng := Some g'\<rparr>)"
    by (simp add: file_read_def ret_run bnd_Ok [where m = "random_fill env 4096"])
  ultimately show ?case
    using Suc by (simp add: bnd_Ok [where m = "file_read env (RandomFile p) 4096"])
qed

end
