(* ===== verification/Mmu.thy ===== *)
theory Mmu
  imports Prelude
begin

text \<open>
  The page tables of \<open>src/src/kernel/src/mmu.rs\<close>: three levels of tables of 512 descriptors, two
  pools of tables, \<open>map_range\<close> with its block splitting, and the tables that \<open>init\<close> sets up. A
  table is addressed by where the linker put it, which is a parameter (\<open>table_layout\<close>); the
  system registers, the barriers and the console output are left out.
\<close>

unbundle bit_operations_syntax

section \<open>Descriptors\<close>

definition TABLE_ADDR_MASK :: u64 where
  "TABLE_ADDR_MASK = 0x0000FFFFFFFFF000"

definition BLOCK_ADDR_MASK :: u64 where
  "BLOCK_ADDR_MASK = 0x0000FFFFFFE00000"

definition DESC_VALID :: u64 where "DESC_VALID = 1"
definition DESC_TABLE :: u64 where "DESC_TABLE = 2"
definition DESC_PAGE :: u64 where "DESC_PAGE = 2"
definition DESC_BLOCK :: u64 where "DESC_BLOCK = 0"

definition AP_RW_EL1 :: u64 where "AP_RW_EL1 = 0"
definition AP_RW_EL0_EL1 :: u64 where "AP_RW_EL0_EL1 = 0x40"
definition AP_RO_EL1 :: u64 where "AP_RO_EL1 = 0x80"
definition AP_RO_EL0_EL1 :: u64 where "AP_RO_EL0_EL1 = 0xC0"
definition AF :: u64 where "AF = 0x400"
definition SH_INNER :: u64 where "SH_INNER = 0x300"
definition MAIR_DEV :: u64 where "MAIR_DEV = 0"
definition MAIR_MEM :: u64 where "MAIR_MEM = 4"
definition UXN :: u64 where "UXN = 0x0040000000000000"
definition PXN :: u64 where "PXN = 0x0020000000000000"

datatype map_permission = KernelRW | KernelRO | KernelRWDevice | UserRW | UserRO | UserRX | UserRWX

fun get_ap_bits :: "map_permission \<Rightarrow> u64" where
  "get_ap_bits KernelRW = AP_RW_EL1"
| "get_ap_bits KernelRO = AP_RO_EL1"
| "get_ap_bits KernelRWDevice = AP_RW_EL1"
| "get_ap_bits UserRW = AP_RW_EL0_EL1"
| "get_ap_bits UserRO = AP_RO_EL0_EL1"
| "get_ap_bits UserRX = AP_RO_EL0_EL1"
| "get_ap_bits UserRWX = AP_RW_EL0_EL1"

fun get_xn_bits :: "map_permission \<Rightarrow> u64" where
  "get_xn_bits UserRX = 0"
| "get_xn_bits UserRWX = 0"
| "get_xn_bits UserRO = (UXN OR PXN)"
| "get_xn_bits UserRW = (UXN OR PXN)"
| "get_xn_bits KernelRWDevice = (UXN OR PXN)"
| "get_xn_bits KernelRO = UXN"
| "get_xn_bits KernelRW = UXN"

section \<open>State\<close>

text \<open>Where the statics are: \<open>L1_TABLE\<close>, \<open>L2_TABLES\<close>, \<open>L2_POOL\<close>, \<open>L3_POOL\<close>.\<close>

record table_layout =
  ly_l1 :: u64
  ly_l2 :: "nat \<Rightarrow> u64"
  ly_l2_pool :: "nat \<Rightarrow> u64"
  ly_l3_pool :: "nat \<Rightarrow> u64"

text \<open>\<open>mm_tables a i\<close> is entry \<open>i\<close> of the table at address \<open>a\<close>.\<close>

record mmu =
  mm_tables :: "u64 \<Rightarrow> nat \<Rightarrow> u64"
  mm_l2_alloc_idx :: nat
  mm_l3_alloc_idx :: nat

definition write_entry :: "u64 \<Rightarrow> nat \<Rightarrow> u64 \<Rightarrow> mmu \<Rightarrow> mmu" where
  "write_entry a i e m = m\<lparr>mm_tables := (mm_tables m)(a := (mm_tables m a)(i := e))\<rparr>"

definition fill_table :: "u64 \<Rightarrow> (nat \<Rightarrow> u64) \<Rightarrow> mmu \<Rightarrow> mmu" where
  "fill_table a f m =
     m\<lparr>mm_tables := (mm_tables m)(a := (\<lambda>i. if i < 512 then f i else mm_tables m a i))\<rparr>"

section \<open>Mapping a page\<close>

text \<open>Ensure that an L2 table exists. \<open>None\<close> is the panic \<open>Out of L2 tables!\<close>.\<close>

definition ensure_l2 :: "table_layout \<Rightarrow> nat \<Rightarrow> mmu \<Rightarrow> mmu option" where
  "ensure_l2 ly l1_idx m =
     (if mm_tables m (ly_l1 ly) l1_idx AND DESC_VALID = 0 then
        if 16 \<le> mm_l2_alloc_idx m then None
        else
          let t = ly_l2_pool ly (mm_l2_alloc_idx m);
              m1 = m\<lparr>mm_l2_alloc_idx := mm_l2_alloc_idx m + 1\<rparr>;
              m2 = fill_table t (\<lambda>_. 0) m1
          in Some (write_entry (ly_l1 ly) l1_idx (t OR DESC_VALID OR DESC_TABLE) m2)
      else Some m)"

text \<open>Ensure that an L3 table exists below entry \<open>l2_idx\<close> of the L2 table, splitting a block.\<close>

definition ensure_l3 :: "table_layout \<Rightarrow> u64 \<Rightarrow> nat \<Rightarrow> mmu \<Rightarrow> mmu option" where
  "ensure_l3 ly l2_ptr l2_idx m =
     (let l2_entry = mm_tables m l2_ptr l2_idx in
      if l2_entry AND DESC_VALID = 0 then
        if 256 \<le> mm_l3_alloc_idx m then None
        else
          let t = ly_l3_pool ly (mm_l3_alloc_idx m);
              m1 = m\<lparr>mm_l3_alloc_idx := mm_l3_alloc_idx m + 1\<rparr>;
              m2 = fill_table t (\<lambda>_. 0) m1
          in Some (write_entry l2_ptr l2_idx (t OR DESC_VALID OR DESC_TABLE) m2)
      else if l2_entry AND DESC_TABLE = 0 then
        let block_paddr = l2_entry AND BLOCK_ADDR_MASK;
            block_flags = l2_entry AND NOT TABLE_ADDR_MASK;
            l3_idx_to_use = mm_l3_alloc_idx m;
            m1 = m\<lparr>mm_l3_alloc_idx := mm_l3_alloc_idx m + 1\<rparr>
        in if 256 \<le> mm_l3_alloc_idx m1 then None
           else
             let t = ly_l3_pool ly l3_idx_to_use;
                 m2 = fill_table t (\<lambda>p. (block_paddr + of_nat p * 0x1000)
                        OR DESC_VALID OR DESC_PAGE OR (block_flags AND NOT DESC_TABLE)) m1
             in Some (write_entry l2_ptr l2_idx (t OR DESC_VALID OR DESC_TABLE) m2)
      else Some m)"

definition page_flags :: "map_permission \<Rightarrow> u64" where
  "page_flags perm =
     (let is_device = perm = KernelRWDevice;
          attr = if is_device then MAIR_DEV else MAIR_MEM;
          sh = if is_device then 0 else SH_INNER
      in attr OR AF OR sh OR get_ap_bits perm OR get_xn_bits perm)"

text \<open>One round of the loop of \<open>map_range\<close>, for the page at \<open>curr_v\<close>.\<close>

definition map_page ::
  "table_layout \<Rightarrow> map_permission \<Rightarrow> nat \<Rightarrow> u64 \<Rightarrow> mmu \<Rightarrow> mmu option" where
  "map_page ly perm curr_v curr_p m =
     (let l1_idx = curr_v div 2 ^ 30;
          l2_idx = (curr_v div 2 ^ 21) mod 512;
          l3_idx = (curr_v div 2 ^ 12) mod 512
      in case ensure_l2 ly l1_idx m of
           None \<Rightarrow> None
         | Some m1 \<Rightarrow>
             let l2_ptr = mm_tables m1 (ly_l1 ly) l1_idx AND TABLE_ADDR_MASK in
             (case ensure_l3 ly l2_ptr l2_idx m1 of
                None \<Rightarrow> None
              | Some m2 \<Rightarrow>
                  let l3_ptr = mm_tables m2 l2_ptr l2_idx AND TABLE_ADDR_MASK
                  in Some (write_entry l3_ptr l3_idx
                       (curr_p OR DESC_VALID OR DESC_PAGE OR page_flags perm) m2)))"

text \<open>
  The loop: \<open>n\<close> pages are left. A page beyond the 512 GB that the L1 table covers is skipped
  without advancing \<open>curr_p\<close>.
\<close>

fun map_pages ::
  "table_layout \<Rightarrow> map_permission \<Rightarrow> nat \<Rightarrow> nat \<Rightarrow> u64 \<Rightarrow> mmu \<Rightarrow> mmu option" where
  "map_pages ly perm 0 curr_v curr_p m = Some m"
| "map_pages ly perm (Suc n) curr_v curr_p m =
     (if 512 \<le> curr_v div 2 ^ 30 then map_pages ly perm n (curr_v + 0x1000) curr_p m
      else
        (case map_page ly perm curr_v curr_p m of
           None \<Rightarrow> None
         | Some m' \<Rightarrow>
             if 2 ^ 64 \<le> unat curr_p + 0x1000 then None
             else map_pages ly perm n (curr_v + 0x1000) (curr_p + 0x1000) m'))"

definition map_range ::
  "table_layout \<Rightarrow> u64 \<Rightarrow> u64 \<Rightarrow> u64 \<Rightarrow> map_permission \<Rightarrow> mmu \<Rightarrow> mmu option" where
  "map_range ly vaddr paddr sz perm m =
     (if 2 ^ 64 \<le> unat vaddr + unat sz + 0xFFF then None
      else
        let start_v = unat vaddr div 0x1000 * 0x1000;
            end_v = (unat vaddr + unat sz + 0xFFF) div 0x1000 * 0x1000
        in map_pages ly perm ((end_v - start_v) div 0x1000) start_v (paddr AND NOT 0xFFF) m)"

section \<open>Initial tables\<close>

definition init_block :: "nat \<Rightarrow> nat \<Rightarrow> u64" where
  "init_block i j =
     (let paddr = i * 2 ^ 30 + j * 0x200000
      in if 0x10000000 \<le> paddr \<and> paddr < 0x40000000 then 0
         else of_nat paddr OR DESC_VALID OR DESC_BLOCK OR MAIR_MEM OR AF OR AP_RW_EL1)"

text \<open>The statics are zero when the loops of \<open>init\<close> run.\<close>

definition init_tables :: "table_layout \<Rightarrow> mmu" where
  "init_tables ly =
     \<lparr>mm_tables = (\<lambda>a i.
        if a = ly_l1 ly \<and> i < 4 then ly_l2 ly i OR DESC_VALID OR DESC_TABLE
        else if i < 512 then
          (case find (\<lambda>k. a = ly_l2 ly k) [0..<4] of Some k \<Rightarrow> init_block k i | None \<Rightarrow> 0)
        else 0),
      mm_l2_alloc_idx = 0, mm_l3_alloc_idx = 0\<rparr>"

definition bind_opt :: "'a option \<Rightarrow> ('a \<Rightarrow> 'b option) \<Rightarrow> 'b option" where
  "bind_opt x f = (case x of None \<Rightarrow> None | Some a \<Rightarrow> f a)"

text \<open>\<open>init\<close>: the tables, then the devices and the comm page.\<close>

definition mmu_init :: "table_layout \<Rightarrow> u64 \<Rightarrow> mmu option" where
  "mmu_init ly commpage =
     bind_opt (map_range ly 0x09000000 0x09000000 4096 KernelRWDevice (init_tables ly)) (\<lambda>m1.
     bind_opt (map_range ly 0x3f000000 0x3f000000 0x1000000 KernelRWDevice m1) (\<lambda>m2.
     bind_opt (map_range ly 0x10000000 0x10000000 0x10000000 KernelRWDevice m2) (\<lambda>m3.
     map_range ly 0xFFFF0000 commpage 16384 UserRO m3)))"

text \<open>\<open>populate_commpage\<close>: the fields of the comm page (little endian).\<close>

definition populate_commpage :: "bytes \<Rightarrow> bytes" where
  "populate_commpage cp = cp[0x1E := 13, 0x1F := 0, 0x22 := 1, 0x23 := 1, 0x24 := 1]"

end
