(* ===== verification/MmuSpec.thy ===== *)
theory MmuSpec
  imports Mmu
begin

text \<open>
  What the page tables mean: \<open>translate\<close> is the table walk of the processor for 4 KB granules
  (Arm Architecture Reference Manual, VMSAv8-64), from a virtual page number to the physical
  page and the attribute bits. \<open>map_range\<close> is an update of this map at the pages of its range
  and nowhere else, also when it splits a block.
\<close>

unbundle bit_operations_syntax

section \<open>The walk\<close>

definition ATTR_MASK :: u64 where
  "ATTR_MASK = NOT (TABLE_ADDR_MASK OR DESC_VALID OR DESC_TABLE)"

definition walk_l3 :: "mmu \<Rightarrow> u64 \<Rightarrow> nat \<Rightarrow> (u64 \<times> u64) option" where
  "walk_l3 m t i =
     (let e = mm_tables m t i in
      if e AND DESC_VALID = 0 then None else Some (e AND TABLE_ADDR_MASK, e AND ATTR_MASK))"

definition walk_l2 :: "mmu \<Rightarrow> u64 \<Rightarrow> nat \<Rightarrow> nat \<Rightarrow> (u64 \<times> u64) option" where
  "walk_l2 m t i j =
     (let e = mm_tables m t i in
      if e AND DESC_VALID = 0 then None
      else if e AND DESC_TABLE = 0
      then Some ((e AND BLOCK_ADDR_MASK) + of_nat j * 0x1000, e AND ATTR_MASK)
      else walk_l3 m (e AND TABLE_ADDR_MASK) j)"

definition translate :: "table_layout \<Rightarrow> mmu \<Rightarrow> nat \<Rightarrow> (u64 \<times> u64) option" where
  "translate ly m vpn =
     (let e = mm_tables m (ly_l1 ly) (vpn div 2 ^ 18) in
      if e AND DESC_VALID = 0 then None
      else walk_l2 m (e AND TABLE_ADDR_MASK) ((vpn div 512) mod 512) (vpn mod 512))"

section \<open>Bit fields\<close>

lemma and_field: "x AND push_bit n (mask k) = push_bit n (take_bit k (drop_bit n x))"
  for x :: "'a::len word"
  by (rule bit_word_eqI) (auto simp: bit_simps)

lemma table_mask_field: "TABLE_ADDR_MASK = push_bit 12 (mask 36)"
  by (simp add: TABLE_ADDR_MASK_def mask_eq_exp_minus_1 push_bit_eq_mult)

lemma block_mask_field: "BLOCK_ADDR_MASK = push_bit 21 (mask 27)"
  by (simp add: BLOCK_ADDR_MASK_def mask_eq_exp_minus_1 push_bit_eq_mult)

text \<open>An address that a descriptor can hold: page aligned and below \<open>2 ^ 48\<close>.\<close>

definition frame :: "u64 \<Rightarrow> bool" where
  "frame a \<longleftrightarrow> a AND TABLE_ADDR_MASK = a"

lemma unat_field:
  assumes "n + k \<le> 64"
  shows "unat ((x :: u64) AND push_bit n (mask k)) = unat x div 2 ^ n mod 2 ^ k * 2 ^ n"
proof -
  have lt: "unat x div 2 ^ n mod 2 ^ k * 2 ^ n < 2 ^ 64"
  proof -
    have "unat x div 2 ^ n mod 2 ^ k < 2 ^ k" by simp
    then have "unat x div 2 ^ n mod 2 ^ k * 2 ^ n < 2 ^ k * 2 ^ n" by simp
    also have "(2 :: nat) ^ k * 2 ^ n = 2 ^ (n + k)" by (simp add: power_add)
    also have "(2 :: nat) ^ (n + k) \<le> 2 ^ 64" using assms by (rule power_increasing) simp
    finally show ?thesis .
  qed
  have "unat (push_bit n (take_bit k (drop_bit n x))) =
      take_bit 64 (push_bit n (take_bit k (drop_bit n (unat x))))"
    by (simp only: unsigned_push_bit_eq unsigned_take_bit_eq unat_drop_bit_eq) simp
  also have "push_bit n (take_bit k (drop_bit n (unat x))) = unat x div 2 ^ n mod 2 ^ k * 2 ^ n"
    by (simp add: push_bit_eq_mult take_bit_eq_mod drop_bit_eq_div)
  also have "take_bit 64 (unat x div 2 ^ n mod 2 ^ k * 2 ^ n) = unat x div 2 ^ n mod 2 ^ k * 2 ^ n"
    using lt by (rule take_bit_nat_eq_self)
  finally show ?thesis unfolding and_field .
qed

lemma frame_iff: "frame a \<longleftrightarrow> 4096 dvd unat a \<and> unat a < 2 ^ 48"
proof -
  have "unat (a AND TABLE_ADDR_MASK) = unat a div 2 ^ 12 mod 2 ^ 36 * 2 ^ 12"
    unfolding table_mask_field by (rule unat_field) simp
  moreover have "n div 2 ^ 12 mod 2 ^ 36 * 2 ^ 12 = n \<longleftrightarrow> 4096 dvd n \<and> n < 2 ^ 48" for n :: nat
  proof
    assume h: "n div 2 ^ 12 mod 2 ^ 36 * 2 ^ 12 = n"
    define q where "q = n div 2 ^ 12 mod 2 ^ 36"
    have "q < 2 ^ 36" and "n = q * 4096" using h by (simp_all add: q_def)
    then show "4096 dvd n \<and> n < 2 ^ 48" by simp
  next
    assume "4096 dvd n \<and> n < 2 ^ 48"
    then show "n div 2 ^ 12 mod 2 ^ 36 * 2 ^ 12 = n" by auto
  qed
  ultimately show ?thesis by (simp add: frame_def word_unat_eq_iff)
qed

lemma block_page:
  assumes "j < 512"
  shows "frame ((e AND BLOCK_ADDR_MASK) + of_nat j * 0x1000)"
proof -
  let ?b = "e AND BLOCK_ADDR_MASK"
  have b: "unat ?b = unat e div 2 ^ 21 mod 2 ^ 27 * 2 ^ 21"
    unfolding block_mask_field by (rule unat_field) simp
  define q where "q = unat e div 2 ^ 21 mod 2 ^ 27"
  have q: "q < 2 ^ 27" by (simp add: q_def)
  have bq: "unat ?b = q * 2 ^ 21" using b by (simp add: q_def)
  have j: "unat (of_nat j * 0x1000 :: u64) = j * 4096"
    using assms by (simp add: unat_word_ariths unat_of_nat take_bit_nat_eq_self)
  have "unat (?b + of_nat j * 0x1000) = q * 2 ^ 21 + j * 4096"
    using bq j q assms by (simp add: unat_word_ariths)
  moreover have "q * 2 ^ 21 + j * 4096 = 4096 * (q * 512 + j)" by simp
  ultimately show ?thesis using q assms unfolding frame_iff by auto
qed

text \<open>Descriptors built from an address, the type bits and attributes.\<close>

lemma valid_bits [simp]:
  "(a OR DESC_VALID OR b) AND DESC_VALID \<noteq> 0"
  "(DESC_VALID OR b) AND DESC_VALID \<noteq> 0"
proof -
  have *: "bit ((x OR DESC_VALID OR y) AND DESC_VALID) 0" for x y
    by (simp add: bit_simps DESC_VALID_def)
  show "(a OR DESC_VALID OR b) AND DESC_VALID \<noteq> 0" using * [of a b] by (metis bit_0_eq bot_apply bot_bool_def)
  show "(DESC_VALID OR b) AND DESC_VALID \<noteq> 0" using * [of 0 b] by (metis bit_0_eq bot_apply bot_bool_def or.left_neutral)
qed

lemma table_bits [simp]: "(a OR DESC_VALID OR DESC_TABLE) AND DESC_TABLE \<noteq> 0"
proof -
  have "bit ((a OR DESC_VALID OR DESC_TABLE) AND DESC_TABLE) 1"
    by (simp add: bit_simps DESC_VALID_def DESC_TABLE_def)
  then show ?thesis by (metis bit_0_eq bot_apply bot_bool_def)
qed

lemma masked_out:
  fixes a :: u64
  assumes "a AND m = a" and "b AND m = 0"
  shows "(a OR b) AND m = a"
  using assms by (simp add: bit.conj_disj_distrib2)

lemma type_bits: "(DESC_VALID OR DESC_TABLE) AND TABLE_ADDR_MASK = 0"
  by (simp add: DESC_VALID_def DESC_TABLE_def TABLE_ADDR_MASK_def)

lemma table_desc_addr: "frame a \<Longrightarrow> (a OR DESC_VALID OR DESC_TABLE) AND TABLE_ADDR_MASK = a"
  using masked_out [of a TABLE_ADDR_MASK "DESC_VALID OR DESC_TABLE"] type_bits
  by (simp add: frame_def)

lemma table_desc_inj:
  "frame a \<Longrightarrow> frame b \<Longrightarrow> a OR DESC_VALID OR DESC_TABLE = b OR DESC_VALID OR DESC_TABLE \<longleftrightarrow> a = b"
  by (metis table_desc_addr)

lemma page_desc:
  assumes "frame p" and "F AND TABLE_ADDR_MASK = 0"
  shows "(p OR DESC_VALID OR DESC_PAGE OR F) AND TABLE_ADDR_MASK = p"
    and "(p OR DESC_VALID OR DESC_PAGE OR F) AND ATTR_MASK = F AND ATTR_MASK"
proof -
  have "(DESC_VALID OR DESC_PAGE OR F) AND TABLE_ADDR_MASK = 0"
    using type_bits assms(2) by (simp add: bit.conj_disj_distrib2 DESC_PAGE_def DESC_TABLE_def)
  then show "(p OR DESC_VALID OR DESC_PAGE OR F) AND TABLE_ADDR_MASK = p"
    using assms(1) by (intro masked_out) (simp_all add: frame_def)
  have *: "((q AND m) OR c OR d OR g) AND NOT (m OR c OR d) = g AND NOT (m OR c OR d)"
    for q m c d g :: u64
    by (rule bit_word_eqI) (auto simp: bit_simps)
  from * [of p TABLE_ADDR_MASK DESC_VALID DESC_TABLE F] assms(1)
  show "(p OR DESC_VALID OR DESC_PAGE OR F) AND ATTR_MASK = F AND ATTR_MASK"
    by (simp add: ATTR_MASK_def frame_def DESC_PAGE_def DESC_TABLE_def)
qed

lemma page_flags_masks [simp]:
  "page_flags perm AND TABLE_ADDR_MASK = 0" "page_flags perm AND ATTR_MASK = page_flags perm"
  by (cases perm; simp add: page_flags_def Let_def ATTR_MASK_def TABLE_ADDR_MASK_def DESC_VALID_def
      DESC_TABLE_def MAIR_DEV_def MAIR_MEM_def AF_def SH_INNER_def AP_RW_EL1_def
      AP_RW_EL0_EL1_def AP_RO_EL1_def AP_RO_EL0_EL1_def UXN_def PXN_def)+

lemma split_page_desc:
  fixes e :: u64
  assumes "j < 512"
  defines "d \<equiv> ((e AND BLOCK_ADDR_MASK) + of_nat j * 0x1000) OR DESC_VALID OR DESC_PAGE OR
     ((e AND NOT TABLE_ADDR_MASK) AND NOT DESC_TABLE)"
  shows "d AND DESC_VALID \<noteq> 0"
    and "d AND TABLE_ADDR_MASK = (e AND BLOCK_ADDR_MASK) + of_nat j * 0x1000"
    and "d AND ATTR_MASK = e AND ATTR_MASK"
proof -
  let ?F = "(e AND NOT TABLE_ADDR_MASK) AND NOT DESC_TABLE"
  have F: "?F AND TABLE_ADDR_MASK = 0"
    by (rule bit_word_eqI) (auto simp: bit_simps)
  have A: "?F AND ATTR_MASK = e AND ATTR_MASK"
    by (rule bit_word_eqI) (auto simp: bit_simps ATTR_MASK_def)
  show "d AND DESC_VALID \<noteq> 0" by (simp add: d_def)
  show "d AND TABLE_ADDR_MASK = (e AND BLOCK_ADDR_MASK) + of_nat j * 0x1000"
    unfolding d_def by (rule page_desc(1) [OF block_page [OF assms(1)] F])
  show "d AND ATTR_MASK = e AND ATTR_MASK"
    unfolding d_def page_desc(2) [OF block_page [OF assms(1)] F] by (rule A)
qed

section \<open>Memory\<close>

lemma write_entry_tables [simp]:
  "mm_tables (write_entry a i e m) b j = (if b = a \<and> j = i then e else mm_tables m b j)"
  "mm_l2_alloc_idx (write_entry a i e m) = mm_l2_alloc_idx m"
  "mm_l3_alloc_idx (write_entry a i e m) = mm_l3_alloc_idx m"
  by (simp_all add: write_entry_def)

lemma fill_table_tables [simp]:
  "mm_tables (fill_table a f m) b j = (if b = a \<and> j < 512 then f j else mm_tables m b j)"
  "mm_l2_alloc_idx (fill_table a f m) = mm_l2_alloc_idx m"
  "mm_l3_alloc_idx (fill_table a f m) = mm_l3_alloc_idx m"
  by (simp_all add: fill_table_def)

section \<open>The invariant\<close>

text \<open>The linker gives every table a page of its own.\<close>

definition layout_ok :: "table_layout \<Rightarrow> bool" where
  "layout_ok ly \<longleftrightarrow>
     frame (ly_l1 ly) \<and>
     (\<forall>k < 4. frame (ly_l2 ly k) \<and> ly_l2 ly k \<noteq> ly_l1 ly) \<and>
     (\<forall>k < 16. frame (ly_l2_pool ly k) \<and> ly_l2_pool ly k \<noteq> ly_l1 ly) \<and>
     (\<forall>k < 256. frame (ly_l3_pool ly k) \<and> ly_l3_pool ly k \<noteq> ly_l1 ly) \<and>
     (\<forall>k < 4. \<forall>k' < 16. ly_l2 ly k \<noteq> ly_l2_pool ly k') \<and>
     (\<forall>k < 4. \<forall>k' < 256. ly_l2 ly k \<noteq> ly_l3_pool ly k') \<and>
     (\<forall>k < 16. \<forall>k' < 256. ly_l2_pool ly k \<noteq> ly_l3_pool ly k') \<and>
     inj_on (ly_l2 ly) {..<4} \<and> inj_on (ly_l2_pool ly) {..<16} \<and> inj_on (ly_l3_pool ly) {..<256}"

definition l2_used :: "table_layout \<Rightarrow> mmu \<Rightarrow> u64 set" where
  "l2_used ly m = ly_l2 ly ` {..<4} \<union> ly_l2_pool ly ` {..<mm_l2_alloc_idx m}"

definition l3_used :: "table_layout \<Rightarrow> mmu \<Rightarrow> u64 set" where
  "l3_used ly m = ly_l3_pool ly ` {..<mm_l3_alloc_idx m}"

text \<open>
  Every valid L1 entry points to an L2 table in use, every valid table entry of those to an L3
  table in use, and no two entries share a table.
\<close>

definition tables_ok :: "table_layout \<Rightarrow> mmu \<Rightarrow> bool" where
  "tables_ok ly m \<longleftrightarrow>
     mm_l2_alloc_idx m \<le> 16 \<and> mm_l3_alloc_idx m \<le> 256 \<and>
     (\<forall>i < 512. mm_tables m (ly_l1 ly) i AND DESC_VALID \<noteq> 0 \<longrightarrow>
        (\<exists>t \<in> l2_used ly m. mm_tables m (ly_l1 ly) i = (t OR DESC_VALID OR DESC_TABLE))) \<and>
     (\<forall>i < 512. \<forall>i' < 512. mm_tables m (ly_l1 ly) i AND DESC_VALID \<noteq> 0 \<longrightarrow>
        mm_tables m (ly_l1 ly) i = mm_tables m (ly_l1 ly) i' \<longrightarrow> i = i') \<and>
     (\<forall>t \<in> l2_used ly m. \<forall>j < 512. mm_tables m t j AND DESC_VALID \<noteq> 0 \<longrightarrow>
        mm_tables m t j AND DESC_TABLE \<noteq> 0 \<longrightarrow>
        (\<exists>u \<in> l3_used ly m. mm_tables m t j = (u OR DESC_VALID OR DESC_TABLE))) \<and>
     (\<forall>t \<in> l2_used ly m. \<forall>t' \<in> l2_used ly m. \<forall>j < 512. \<forall>j' < 512.
        mm_tables m t j AND DESC_VALID \<noteq> 0 \<longrightarrow> mm_tables m t j AND DESC_TABLE \<noteq> 0 \<longrightarrow>
        mm_tables m t j = mm_tables m t' j' \<longrightarrow> t = t' \<and> j = j')"

lemma layout_facts:
  assumes "layout_ok ly"
  shows "frame (ly_l1 ly)" "k < 4 \<Longrightarrow> frame (ly_l2 ly k)"
    "k < 16 \<Longrightarrow> frame (ly_l2_pool ly k)" "k < 256 \<Longrightarrow> frame (ly_l3_pool ly k)"
    "k < 4 \<Longrightarrow> ly_l2 ly k \<noteq> ly_l1 ly" "k < 16 \<Longrightarrow> ly_l2_pool ly k \<noteq> ly_l1 ly"
    "k < 256 \<Longrightarrow> ly_l3_pool ly k \<noteq> ly_l1 ly"
    "k < 4 \<Longrightarrow> k' < 16 \<Longrightarrow> ly_l2 ly k \<noteq> ly_l2_pool ly k'"
    "k < 4 \<Longrightarrow> k' < 256 \<Longrightarrow> ly_l2 ly k \<noteq> ly_l3_pool ly k'"
    "k < 16 \<Longrightarrow> k' < 256 \<Longrightarrow> ly_l2_pool ly k \<noteq> ly_l3_pool ly k'"
    "k < 4 \<Longrightarrow> k' < 4 \<Longrightarrow> ly_l2 ly k = ly_l2 ly k' \<longleftrightarrow> k = k'"
    "k < 16 \<Longrightarrow> k' < 16 \<Longrightarrow> ly_l2_pool ly k = ly_l2_pool ly k' \<longleftrightarrow> k = k'"
    "k < 256 \<Longrightarrow> k' < 256 \<Longrightarrow> ly_l3_pool ly k = ly_l3_pool ly k' \<longleftrightarrow> k = k'"
  using assms unfolding layout_ok_def inj_on_def by (simp_all, blast+)

end
