(* ===== verification/KMem.thy ===== *)
theory KMem
  imports Mmu MmuSpec
begin

text \<open>
  The memory that the kernel accesses through user pointers. An access at EL1 goes through the same
  tables as user code (\<open>TTBR0\<close>, 32 bit addresses: \<open>T0SZ\<close> is 32), so a pointer is translated by the walk of
  \<open>MmuSpec\<close>; an unmapped address, or a write to a read-only page, is a data abort, which the kernel
  does not recover from. Device memory behaves as memory here.
\<close>

unbundle bit_operations_syntax

section \<open>Access\<close>

record vm =
  vm_phys :: "u64 \<Rightarrow> u8"
  vm_mmu :: mmu

text \<open>How a run of the kernel can stop: a data abort, or a loop that waits for events for ever.\<close>

datatype fault = DataAbort u64 | Parked

type_synonym 'a vmact = "(vm, fault, 'a) act"

definition phys_addr :: "table_layout \<Rightarrow> mmu \<Rightarrow> u64 \<Rightarrow> (u64 \<times> u64) option" where
  "phys_addr ly m va =
     (if 2 ^ 32 \<le> unat va then None
      else case translate ly m (unat va div 0x1000) of
        None \<Rightarrow> None
      | Some (p, attr) \<Rightarrow> Some (p + of_nat (unat va mod 0x1000), attr))"

definition load8 :: "table_layout \<Rightarrow> u64 \<Rightarrow> u8 vmact" where
  "load8 ly va = (\<lambda>s. case phys_addr ly (vm_mmu s) va of
     None \<Rightarrow> (Err (DataAbort va), s) | Some (p, attr) \<Rightarrow> (Ok (vm_phys s p), s))"

definition store8 :: "table_layout \<Rightarrow> u64 \<Rightarrow> u8 \<Rightarrow> unit vmact" where
  "store8 ly va b = (\<lambda>s. case phys_addr ly (vm_mmu s) va of
     None \<Rightarrow> (Err (DataAbort va), s)
   | Some (p, attr) \<Rightarrow>
       if attr AND AP_RO_EL1 \<noteq> 0 then (Err (DataAbort va), s)
       else (Ok (), s\<lparr>vm_phys := (vm_phys s)(p := b)\<rparr>))"

fun load_bytes :: "table_layout \<Rightarrow> u64 \<Rightarrow> nat \<Rightarrow> bytes vmact" where
  "load_bytes ly va 0 = ret []"
| "load_bytes ly va (Suc n) = bnd (load8 ly va) (\<lambda>b. bnd (load_bytes ly (va + 1) n) (\<lambda>bs. ret (b # bs)))"

fun store_bytes :: "table_layout \<Rightarrow> u64 \<Rightarrow> bytes \<Rightarrow> unit vmact" where
  "store_bytes ly va [] = ret ()"
| "store_bytes ly va (b # bs) = bnd (store8 ly va b) (\<lambda>_. store_bytes ly (va + 1) bs)"

definition load32 :: "table_layout \<Rightarrow> u64 \<Rightarrow> u32 vmact" where
  "load32 ly va = bnd (load_bytes ly va 4) (\<lambda>bs. ret (from_le bs))"

definition store32 :: "table_layout \<Rightarrow> u64 \<Rightarrow> u32 \<Rightarrow> unit vmact" where
  "store32 ly va w = store_bytes ly va (to_le w)"

definition store64 :: "table_layout \<Rightarrow> u64 \<Rightarrow> u64 \<Rightarrow> unit vmact" where
  "store64 ly va w = store_bytes ly va (to_le w)"

section \<open>Buffers\<close>

text \<open>
  \<open>frame_of\<close> is where the bytes of a range are; a \<open>buffer\<close> is a range whose bytes are mapped, at
  different places, and may be written.
\<close>

definition place :: "table_layout \<Rightarrow> mmu \<Rightarrow> u64 \<Rightarrow> nat \<Rightarrow> u64" where
  "place ly m va i = (case phys_addr ly m (va + of_nat i) of Some (p, _) \<Rightarrow> p | None \<Rightarrow> 0)"

definition buffer :: "table_layout \<Rightarrow> mmu \<Rightarrow> u64 \<Rightarrow> nat \<Rightarrow> bool" where
  "buffer ly m va n \<longleftrightarrow>
     (\<forall>i < n. \<exists>p attr. phys_addr ly m (va + of_nat i) = Some (p, attr) \<and> attr AND AP_RO_EL1 = 0) \<and>
     inj_on (place ly m va) {..<n}"

definition content :: "table_layout \<Rightarrow> vm \<Rightarrow> u64 \<Rightarrow> nat \<Rightarrow> bytes" where
  "content ly s va n = map (\<lambda>i. vm_phys s (place ly (vm_mmu s) va i)) [0..<n]"

text \<open>Everything but the bytes of the range is as before.\<close>

definition only_changed :: "table_layout \<Rightarrow> u64 \<Rightarrow> nat \<Rightarrow> vm \<Rightarrow> vm \<Rightarrow> bool" where
  "only_changed ly va n s s' \<longleftrightarrow>
     vm_mmu s' = vm_mmu s \<and> (\<forall>p. p \<notin> place ly (vm_mmu s) va ` {..<n} \<longrightarrow> vm_phys s' p = vm_phys s p)"

lemma length_content [simp]: "length (content ly s va n) = n"
  by (simp add: content_def)

lemma content_nth [simp]: "i < n \<Longrightarrow> content ly s va n ! i = vm_phys s (place ly (vm_mmu s) va i)"
  by (simp add: content_def)

lemma place_shift: "place ly m (va + of_nat k) i = place ly m va (k + i)"
  by (simp add: place_def add.assoc)

lemma buffer_shift:
  assumes "buffer ly m va n" and "k + j \<le> n"
  shows "buffer ly m (va + of_nat k) j"
proof -
  have "inj_on (place ly m va) {..<n}" using assms(1) by (simp add: buffer_def)
  then have "inj_on (place ly m (va + of_nat k)) {..<j}"
  proof (intro inj_onI)
    fix x y
    assume "x \<in> {..<j}" "y \<in> {..<j}" "place ly m (va + of_nat k) x = place ly m (va + of_nat k) y"
    then show "x = y" using inj_onD [OF \<open>inj_on (place ly m va) {..<n}\<close>, of "k + x" "k + y"] assms(2)
      by (simp add: place_shift)
  qed
  moreover have "\<exists>p attr. phys_addr ly m (va + of_nat k + of_nat i) = Some (p, attr) \<and> attr AND AP_RO_EL1 = 0"
    if "i < j" for i
  proof -
    have "k + i < n" using that assms(2) by simp
    with assms(1) have "\<exists>p attr. phys_addr ly m (va + of_nat (k + i)) = Some (p, attr) \<and> attr AND AP_RO_EL1 = 0"
      unfolding buffer_def by blast
    then show ?thesis by (simp add: add.assoc)
  qed
  ultimately show ?thesis by (simp add: buffer_def)
qed

lemma buffer_prefix: "buffer ly m va n \<Longrightarrow> k \<le> n \<Longrightarrow> buffer ly m va k"
  using buffer_shift [of ly m va n 0 k] by simp

lemma buffer_byte:
  assumes "buffer ly m va n" and "i < n"
  shows "\<exists>attr. phys_addr ly m (va + of_nat i) = Some (place ly m va i, attr) \<and> attr AND AP_RO_EL1 = 0"
  using assms by (fastforce simp: buffer_def place_def)

lemma load_bytes_ok:
  "buffer ly (vm_mmu s) va n \<Longrightarrow> load_bytes ly va n s = (Ok (content ly s va n), s)"
proof (induction n arbitrary: va)
  case 0
  then show ?case by (simp add: ret_run content_def)
next
  case (Suc n)
  from buffer_byte [OF Suc.prems, of 0] obtain attr where
    p: "phys_addr ly (vm_mmu s) va = Some (place ly (vm_mmu s) va 0, attr)" by auto
  have "buffer ly (vm_mmu s) (va + 1) n" using buffer_shift [OF Suc.prems, of 1 n] by simp
  from Suc.IH [OF this] have r: "load_bytes ly (va + 1) n s = (Ok (content ly s (va + 1) n), s)" .
  have "content ly s va (Suc n) = vm_phys s (place ly (vm_mmu s) va 0) # content ly s (va + 1) n"
    using place_shift [of ly "vm_mmu s" va 1]
    by (simp add: content_def upt_conv_Cons map_Suc_upt [symmetric] del: upt_Suc)
  moreover have "load8 ly va s = (Ok (vm_phys s (place ly (vm_mmu s) va 0)), s)"
    by (simp add: load8_def p)
  ultimately show ?case
    by (simp add: bnd_Ok [where m = "load8 ly va"] bnd_Ok [where m = "load_bytes ly (va + 1) n", OF r] ret_run)
qed

lemma store_bytes_ok:
  "buffer ly (vm_mmu s) va (length bs) \<Longrightarrow>
   \<exists>s'. store_bytes ly va bs s = (Ok (), s') \<and> content ly s' va (length bs) = bs \<and>
     only_changed ly va (length bs) s s'"
proof (induction bs arbitrary: va s)
  case Nil
  then show ?case by (simp add: ret_run content_def only_changed_def)
next
  case (Cons b bs)
  let ?m = "vm_mmu s" and ?n = "length bs"
  from buffer_byte [OF Cons.prems, of 0] obtain attr where
    p: "phys_addr ly ?m va = Some (place ly ?m va 0, attr)" "attr AND AP_RO_EL1 = 0" by auto
  let ?s = "s\<lparr>vm_phys := (vm_phys s)(place ly ?m va 0 := b)\<rparr>"
  have st: "store8 ly va b s = (Ok (), ?s)" by (simp add: store8_def p)
  have "buffer ly (vm_mmu ?s) (va + 1) ?n" using buffer_shift [OF Cons.prems, of 1 ?n] by simp
  from Cons.IH [OF this] obtain s' where s': "store_bytes ly (va + 1) bs ?s = (Ok (), s')"
    "content ly s' (va + 1) ?n = bs" "only_changed ly (va + 1) ?n ?s s'" by blast
  have m': "vm_mmu s' = ?m" using s'(3) by (simp add: only_changed_def)
  have sh: "place ly ?m (va + 1) i = place ly ?m va (Suc i)" for i
    using place_shift [of ly ?m va 1 i] by simp
  have inj: "inj_on (place ly ?m va) {..<Suc ?n}" using Cons.prems by (simp add: buffer_def)
  have "place ly ?m va 0 \<notin> place ly ?m (va + 1) ` {..<?n}"
    using inj by (auto simp: sh inj_on_def)
  then have "vm_phys s' (place ly ?m va 0) = b"
    using s'(3) by (simp add: only_changed_def)
  then have c: "content ly s' va (Suc ?n) = b # bs"
    using s'(2) by (simp add: content_def m' sh upt_conv_Cons map_Suc_upt [symmetric] o_def del: upt_Suc)
  have "only_changed ly va (Suc ?n) s s'"
    unfolding only_changed_def
  proof (intro conjI allI impI)
    fix q
    assume q: "q \<notin> place ly ?m va ` {..<Suc ?n}"
    then have "q \<noteq> place ly ?m va 0" "q \<notin> place ly ?m (va + 1) ` {..<?n}" by (auto simp: sh)
    then show "vm_phys s' q = vm_phys s q" using s'(3) by (simp add: only_changed_def)
  qed (rule m')
  with c st s'(1) show ?case by (auto simp: bnd_Ok [where m = "store8 ly va b", OF st])
qed

lemma content_unchanged:
  assumes "only_changed ly va n s s'" and "\<And>i. i < k \<Longrightarrow> place ly (vm_mmu s) vb i \<notin> place ly (vm_mmu s) va ` {..<n}"
  shows "content ly s' vb k = content ly s vb k"
  using assms by (auto simp: content_def only_changed_def)

text \<open>The part of a buffer next to the part that was written.\<close>

lemma content_rest:
  assumes "buffer ly (vm_mmu s) va n" and "only_changed ly (va + of_nat k) j s s'" and "k + j \<le> n"
  shows "content ly s' va n = take k (content ly s va n) @ content ly s' (va + of_nat k) j
    @ drop (k + j) (content ly s va n)"
proof (rule nth_equalityI)
  show "length (content ly s' va n) = length (take k (content ly s va n) @ content ly s' (va + of_nat k) j
    @ drop (k + j) (content ly s va n))" using assms(3) by simp
next
  fix i
  assume "i < length (content ly s' va n)"
  then have i: "i < n" by simp
  have m: "vm_mmu s' = vm_mmu s" using assms(2) by (simp add: only_changed_def)
  have inj: "inj_on (place ly (vm_mmu s) va) {..<n}" using assms(1) by (simp add: buffer_def)
  have out: "vm_phys s' (place ly (vm_mmu s) va i) = vm_phys s (place ly (vm_mmu s) va i)"
    if "i < k \<or> k + j \<le> i"
  proof -
    have "place ly (vm_mmu s) va i \<notin> place ly (vm_mmu s) (va + of_nat k) ` {..<j}"
    proof
      assume "place ly (vm_mmu s) va i \<in> place ly (vm_mmu s) (va + of_nat k) ` {..<j}"
      then obtain x where x: "x < j" "place ly (vm_mmu s) va i = place ly (vm_mmu s) va (k + x)"
        by (auto simp: place_shift)
      have "i = k + x" by (rule inj_onD [OF inj x(2)]) (use x i assms(3) in auto)
      with that x(1) show False by simp
    qed
    then show ?thesis using assms(2) by (simp add: only_changed_def)
  qed
  show "content ly s' va n ! i = (take k (content ly s va n) @ content ly s' (va + of_nat k) j
    @ drop (k + j) (content ly s va n)) ! i"
  proof (cases "i < k \<or> k + j \<le> i")
    case True
    then show ?thesis using i m out assms(3) by (auto simp: nth_append)
  next
    case False
    then have "k \<le> i" "i - k < j" by auto
    then show ?thesis using i m assms(3) by (simp add: nth_append place_shift)
  qed
qed

end
