(* ===== verification/Ipc.thy ===== *)
theory Ipc
  imports KMem
begin

text \<open>
  Mach ports and messages (\<open>src/src/kernel/src/ipc.rs\<close>). A port belongs to one space, so the
  \<open>Arc<Mutex<Port>>\<close> of the source is the port itself. \<open>mach_msg\<close> runs on the memory and the space
  of the current process; its result is the Mach return code.
\<close>

unbundle bit_operations_syntax

section \<open>Ports\<close>

datatype port_right = Receive | Send | SendOnce | DeadName

record port =
  po_messages :: "bytes list"

definition port_new :: port where
  "port_new = \<lparr>po_messages = []\<rparr>"

record ipc_space =
  sp_ports :: "u32 \<Rightarrow> port option"
  sp_next_name :: u32

definition ipc_space_new :: ipc_space where
  "ipc_space_new = \<lparr>sp_ports = [1 \<mapsto> port_new, 2 \<mapsto> port_new, 3 \<mapsto> port_new], sp_next_name = 0x200\<rparr>"

text \<open>The increment of the next name overflows after \<open>2 ^ 32 - 0x201\<close> names.\<close>

definition allocate_port :: "(ipc_space, 'e, u32) act" where
  "allocate_port = (\<lambda>sp.
     let name = sp_next_name sp in
     if unat name + 1 = 2 ^ 32 then (Panic, sp)
     else (Ok name, sp\<lparr>sp_next_name := name + 1, sp_ports := (sp_ports sp)(name \<mapsto> port_new)\<rparr>))"

definition get_port :: "ipc_space \<Rightarrow> u32 \<Rightarrow> port option" where
  "get_port sp name = sp_ports sp name"

definition set_messages :: "u32 \<Rightarrow> bytes list \<Rightarrow> ipc_space \<Rightarrow> ipc_space" where
  "set_messages name ms sp = sp\<lparr>sp_ports := (sp_ports sp)(name \<mapsto> \<lparr>po_messages = ms\<rparr>)\<rparr>"

text \<open>Both senders bound the queue before they push.\<close>

definition push_message :: "bytes list \<Rightarrow> bytes \<Rightarrow> bytes list" where
  "push_message ms m = (if 10 < length ms then drop 1 ms else ms) @ [m]"

section \<open>Messages\<close>

record mach_msg_header =
  msgh_bits :: u32
  msgh_size :: u32
  msgh_remote_port :: u32
  msgh_local_port :: u32
  msgh_reserved :: u32
  msgh_id :: i32

definition header_bytes :: "mach_msg_header \<Rightarrow> bytes" where
  "header_bytes h = to_le (msgh_bits h) @ to_le (msgh_size h) @ to_le (msgh_remote_port h) @
     to_le (msgh_local_port h) @ to_le (msgh_reserved h) @ to_le (msgh_id h)"

definition parse_header :: "bytes \<Rightarrow> mach_msg_header" where
  "parse_header bs = \<lparr>msgh_bits = from_le (take 4 bs), msgh_size = from_le (take 4 (drop 4 bs)),
     msgh_remote_port = from_le (take 4 (drop 8 bs)), msgh_local_port = from_le (take 4 (drop 12 bs)),
     msgh_reserved = from_le (take 4 (drop 16 bs)), msgh_id = from_le (take 4 (drop 20 bs))\<rparr>"

lemma length_header [simp]: "length (header_bytes h) = 24"
  by (simp add: header_bytes_def)

lemma parse_header_bytes [simp]: "parse_header (header_bytes h @ bs) = h"
  by (simp add: parse_header_def header_bytes_def from_le_to_le)

definition MACH_SEND_MSG :: u32 where "MACH_SEND_MSG = 1"
definition MACH_RCV_MSG :: u32 where "MACH_RCV_MSG = 2"
definition MACH_MSG_SUCCESS :: u32 where "MACH_MSG_SUCCESS = 0"
definition MACH_RCV_TIMED_OUT :: u32 where "MACH_RCV_TIMED_OUT = 0x10004003"
definition MACH_SEND_INVALID_DEST :: u32 where "MACH_SEND_INVALID_DEST = 0x10000003"
definition MACH_RCV_TOO_LARGE :: u32 where "MACH_RCV_TOO_LARGE = 0x10004004"
definition KERN_INVALID_ADDRESS :: u32 where "KERN_INVALID_ADDRESS = 0x10000000"

section \<open>Host calls\<close>

text \<open>The size field and the bytes behind the header of the reply to a call.\<close>

definition kernel_version :: bytes where
  "kernel_version = map (\<lambda>c. of_nat (of_char c))
     ''Darwin Kernel Version 11.0.0: arm-v7; root:xnu-1699.22.73~1/RELEASE_ARM_S5L8940X'' @ [0]"

definition host_reply :: "int \<Rightarrow> u32 \<times> bytes" where
  "host_reply call =
     (if call = 3409 then (48, to_le (1 :: u32) @ to_le (1 :: u32) @ to_le (0x40000000 :: u32) @
        to_le (12 :: u32) @ to_le (9 :: u32) @ to_le (1 :: u32))
      else if call = 3402 then (28, to_le (4096 :: u32))
      else if call = 3406 then (28, to_le (0x104 :: u32))
      else if call = 3407 then (128, take 100 kernel_version)
      else (24, []))"

definition host_message :: "mach_msg_header \<Rightarrow> bytes" where
  "host_message header =
     (let (sz, data) = host_reply (sint (msgh_id header));
          h = \<lparr>msgh_bits = 0x12, msgh_size = sz, msgh_remote_port = 1,
               msgh_local_port = msgh_local_port header, msgh_reserved = 0,
               msgh_id = msgh_id header + 100\<rparr>
      in header_bytes h @ data @ replicate (128 - 24 - length data) 0)"

definition handle_host_rpc :: "mach_msg_header \<Rightarrow> ipc_space \<Rightarrow> ipc_space" where
  "handle_host_rpc header sp =
     (case get_port sp (msgh_local_port header) of
        None \<Rightarrow> sp
      | Some p \<Rightarrow> set_messages (msgh_local_port header) (push_message (po_messages p) (host_message header)) sp)"

section \<open>\<open>mach_msg\<close>\<close>

type_synonym ipc_state = "vm \<times> ipc_space"
type_synonym 'a ipcact = "(ipc_state, fault, 'a) act"

definition on_vm :: "'a vmact \<Rightarrow> 'a ipcact" where
  "on_vm m = (\<lambda>(s, sp). case m s of (r, s') \<Rightarrow> (r, (s', sp)))"

definition on_space :: "(ipc_space \<Rightarrow> ipc_space) \<Rightarrow> unit ipcact" where
  "on_space f = (\<lambda>(s, sp). (Ok (), (s, f sp)))"

definition get_space :: "ipc_space ipcact" where
  "get_space = (\<lambda>(s, sp). (Ok sp, (s, sp)))"

definition is_host_call :: "mach_msg_header \<Rightarrow> bool" where
  "is_host_call h \<longleftrightarrow> msgh_remote_port h \<in> {1, 2, 3} \<and> 3400 \<le> sint (msgh_id h) \<and> sint (msgh_id h) < 3500"

text \<open>The send half; \<open>Some code\<close> ends the call.\<close>

definition msg_send :: "table_layout \<Rightarrow> u64 \<Rightarrow> mach_msg_header \<Rightarrow> u32 option ipcact" where
  "msg_send ly msg header =
     bnd get_space (\<lambda>sp.
     let dest_name = msgh_remote_port header in
     if is_host_call header then bnd (on_space (handle_host_rpc header)) (\<lambda>_. ret None)
     else (case get_port sp dest_name of
         Some p \<Rightarrow>
           bnd (on_vm (load_bytes ly msg (unat (msgh_size header)))) (\<lambda>buf.
           bnd (on_space (set_messages dest_name (push_message (po_messages p) buf))) (\<lambda>_.
           ret None))
       | None \<Rightarrow> ret (Some MACH_SEND_INVALID_DEST)))"

text \<open>The bytes that a receive of a message of length \<open>n\<close> copies, or \<open>None\<close> when it is too large.\<close>

definition receive_size :: "nat \<Rightarrow> nat \<Rightarrow> nat option" where
  "receive_size n rcv_size =
     (if rcv_size < n then (if n \<le> rcv_size + 16 then Some rcv_size else None) else Some n)"

definition msg_receive :: "table_layout \<Rightarrow> u64 \<Rightarrow> u32 \<Rightarrow> u32 \<Rightarrow> u32 ipcact" where
  "msg_receive ly msg rcv_size rcv_name =
     bnd get_space (\<lambda>sp.
     case get_port sp rcv_name of
       None \<Rightarrow> ret MACH_SEND_INVALID_DEST
     | Some p \<Rightarrow>
         if po_messages p = [] then ret MACH_RCV_TIMED_OUT
         else
           let data = last (po_messages p) in
           (case receive_size (length data) (unat rcv_size) of
              None \<Rightarrow> ret MACH_RCV_TOO_LARGE
            | Some n \<Rightarrow>
                bnd (on_space (set_messages rcv_name (butlast (po_messages p)))) (\<lambda>_.
                bnd (on_vm (store_bytes ly msg (take n data))) (\<lambda>_.
                bnd (on_vm (store32 ly (msg + 4) (of_nat n))) (\<lambda>_.
                bnd (on_vm (store32 ly (msg + 12) rcv_name)) (\<lambda>_.
                bnd (on_vm (store32 ly (msg + 8) 0)) (\<lambda>_.
                ret MACH_MSG_SUCCESS)))))))"

definition mach_msg :: "table_layout \<Rightarrow> u64 \<Rightarrow> u32 \<Rightarrow> u32 \<Rightarrow> u32 \<Rightarrow> u32 ipcact" where
  "mach_msg ly msg option rcv_size rcv_name =
     (if msg = 0 then ret KERN_INVALID_ADDRESS
      else
        bnd (on_vm (load_bytes ly msg 24)) (\<lambda>bs.
        let header = parse_header bs in
        bnd (if option AND MACH_SEND_MSG \<noteq> 0 then msg_send ly msg header else ret None) (\<lambda>r.
        case r of
          Some code \<Rightarrow> ret code
        | None \<Rightarrow>
            if option AND MACH_RCV_MSG \<noteq> 0 then msg_receive ly msg rcv_size rcv_name
            else ret MACH_MSG_SUCCESS)))"

section \<open>The invariant\<close>

text \<open>No queue is longer than eleven messages; every name is below the next one.\<close>

definition space_ok :: "ipc_space \<Rightarrow> bool" where
  "space_ok sp \<longleftrightarrow> 0x200 \<le> sp_next_name sp \<and>
     (\<forall>name p. sp_ports sp name = Some p \<longrightarrow> name < sp_next_name sp \<and> length (po_messages p) \<le> 11)"

lemma space_ok_new: "space_ok ipc_space_new"
  by (auto simp: space_ok_def ipc_space_new_def port_new_def split: if_splits)

lemma push_message_bound: "length ms \<le> 11 \<Longrightarrow> length (push_message ms m) \<le> 11"
  by (auto simp: push_message_def)

lemma set_messages_ok:
  "space_ok sp \<Longrightarrow> sp_ports sp name = Some p \<Longrightarrow> length ms \<le> 11 \<Longrightarrow> space_ok (set_messages name ms sp)"
  by (auto simp: space_ok_def set_messages_def)

lemma push_ok:
  assumes "space_ok sp" and "get_port sp name = Some p"
  shows "space_ok (set_messages name (push_message (po_messages p) m) sp)"
    "space_ok (set_messages name (butlast (po_messages p)) sp)"
proof -
  have p: "sp_ports sp name = Some p" using assms(2) by (simp add: get_port_def)
  then have "length (po_messages p) \<le> 11" using assms(1) by (simp add: space_ok_def)
  then show "space_ok (set_messages name (push_message (po_messages p) m) sp)"
    "space_ok (set_messages name (butlast (po_messages p)) sp)"
    by (simp_all add: set_messages_ok [OF assms(1) p] push_message_bound)
qed

lemma handle_host_rpc_ok: "space_ok sp \<Longrightarrow> space_ok (handle_host_rpc header sp)"
  by (simp add: handle_host_rpc_def push_ok split: option.split)

lemma allocate_port_fresh:
  assumes "space_ok sp" and "unat (sp_next_name sp) + 1 < 2 ^ 32"
  shows "\<exists>name sp'. allocate_port sp = (Ok name, sp') \<and> space_ok sp' \<and> sp_ports sp name = None \<and>
    sp_ports sp' = (sp_ports sp)(name \<mapsto> port_new) \<and> 0x200 \<le> name"
proof -
  have lt: "sp_next_name sp < sp_next_name sp + 1"
    using assms(2) by (simp add: word_less_nat_alt unat_word_ariths)
  have "sp_ports sp (sp_next_name sp) = None"
    using assms(1) by (cases "sp_ports sp (sp_next_name sp)") (auto simp: space_ok_def)
  moreover have "space_ok (sp\<lparr>sp_next_name := sp_next_name sp + 1,
      sp_ports := (sp_ports sp)(sp_next_name sp \<mapsto> port_new)\<rparr>)"
    using assms(1) lt by (fastforce simp: space_ok_def port_new_def intro: less_trans)
  ultimately show ?thesis using assms by (auto simp: allocate_port_def Let_def space_ok_def)
qed

text \<open>An action that keeps the invariant of the space, whatever its outcome.\<close>

definition keeps :: "'a ipcact \<Rightarrow> bool" where
  "keeps m \<longleftrightarrow> (\<forall>s sp. space_ok sp \<longrightarrow> space_ok (snd (snd (m (s, sp)))))"

lemma ipc_runs [simp]:
  "bnd get_space f (s, sp) = f sp (s, sp)" "bnd (on_space g) h (s, sp) = h () (s, g sp)"
  by (simp_all add: bnd_def get_space_def on_space_def)

lemma on_vm_then:
  assumes "\<And>a s'. space_ok (snd (snd (h a (s', sp))))" and "space_ok sp"
  shows "space_ok (snd (snd (bnd (on_vm m) h (s, sp))))"
  using assms by (auto simp: bnd_def on_vm_def split: prod.split res.split)

lemma keepsI: "(\<And>s sp. space_ok sp \<Longrightarrow> space_ok (snd (snd (m (s, sp))))) \<Longrightarrow> keeps m"
  by (simp add: keeps_def)

lemma keeps_bnd: "keeps m \<Longrightarrow> (\<And>a. keeps (f a)) \<Longrightarrow> keeps (bnd m f)"
proof (rule keepsI)
  fix s sp
  assume m: "keeps m" and f: "\<And>a. keeps (f a)" and ok: "space_ok sp"
  obtain r s' sp' where e: "m (s, sp) = (r, (s', sp'))" by (metis prod.collapse)
  have "space_ok sp'" using m ok unfolding keeps_def by (metis e snd_conv)
  then show "space_ok (snd (snd (bnd m f (s, sp))))"
    using f by (cases r) (simp_all add: bnd_def e keeps_def)
qed

lemma keeps_ret: "keeps (ret a)"
  by (simp add: keeps_def ret_def)

lemma keeps_on_vm: "keeps (on_vm m)"
  by (auto simp: keeps_def on_vm_def split: prod.split)

lemma msg_send_keeps: "keeps (msg_send ly msg header)"
proof (rule keepsI)
  fix s sp
  assume ok: "space_ok sp"
  show "space_ok (snd (snd (msg_send ly msg header (s, sp))))"
  proof (cases "get_port sp (msgh_remote_port header)")
    case None
    then show ?thesis using ok by (simp add: msg_send_def Let_def ret_run handle_host_rpc_ok)
  next
    case (Some p)
    have "space_ok (snd (snd (bnd (on_vm (load_bytes ly msg k)) (\<lambda>buf.
        bnd (on_space (set_messages (msgh_remote_port header) (push_message (po_messages p) buf)))
          (\<lambda>_. ret None :: u32 option ipcact)) (s, sp))))" for k
      by (rule on_vm_then) (use ok Some in \<open>simp_all add: ret_run push_ok\<close>)
    with Some show ?thesis using ok by (simp add: msg_send_def Let_def ret_run handle_host_rpc_ok)
  qed
qed

lemma msg_receive_keeps: "keeps (msg_receive ly msg rcv_size rcv_name)"
proof (rule keepsI)
  fix s sp
  assume ok: "space_ok sp"
  show "space_ok (snd (snd (msg_receive ly msg rcv_size rcv_name (s, sp))))"
  proof (cases "get_port sp rcv_name")
    case None
    then show ?thesis using ok by (simp add: msg_receive_def ret_run)
  next
    case (Some p)
    let ?sp = "set_messages rcv_name (butlast (po_messages p)) sp"
    have ok': "space_ok ?sp" using ok Some by (simp add: push_ok)
    have "space_ok (snd (snd (bnd (on_vm m1) (\<lambda>_. bnd (on_vm m2) (\<lambda>_. bnd (on_vm m3) (\<lambda>_. bnd (on_vm m4)
        (\<lambda>_. ret MACH_MSG_SUCCESS)))) (s, ?sp))))" for m1 m2 m3 m4 :: "unit vmact"
      by (rule on_vm_then, rule on_vm_then, rule on_vm_then, rule on_vm_then) (simp_all add: ret_run ok')
    with Some show ?thesis using ok by (simp add: msg_receive_def Let_def ret_run split: option.split)
  qed
qed

lemma mach_msg_keeps: "keeps (mach_msg ly msg option rcv_size rcv_name)"
  unfolding mach_msg_def Let_def
  by (auto intro!: keeps_bnd keeps_ret keeps_on_vm msg_send_keeps msg_receive_keeps split: option.split)

section \<open>What a call does\<close>

lemma on_vm_run:
  assumes "m s = (Ok a, s')"
  shows "bnd (on_vm m) h (s, sp) = h a (s', sp)"
  by (simp add: bnd_def on_vm_def assms)

text \<open>The buffer of a call holds at least a header.\<close>

definition msg_buffer :: "table_layout \<Rightarrow> vm \<Rightarrow> u64 \<Rightarrow> nat \<Rightarrow> bool" where
  "msg_buffer ly s msg n \<longleftrightarrow> msg \<noteq> 0 \<and> 24 \<le> n \<and> buffer ly (vm_mmu s) msg n"

lemma msg_buffer_header:
  assumes "msg_buffer ly s msg n"
  shows "load_bytes ly msg 24 s = (Ok (take 24 (content ly s msg n)), s)"
proof -
  have b: "buffer ly (vm_mmu s) msg 24" using assms buffer_prefix by (auto simp: msg_buffer_def)
  have "content ly s msg 24 = take 24 (content ly s msg n)"
    using assms by (intro nth_equalityI) (auto simp: msg_buffer_def)
  then show ?thesis using load_bytes_ok [OF b] by simp
qed

lemma parse_take: "24 \<le> length bs \<Longrightarrow> parse_header (take 24 bs) = parse_header bs"
  by (simp add: parse_header_def drop_take)

lemma mach_msg_split:
  assumes "msg_buffer ly s msg n"
  shows "mach_msg ly msg opts rcv_size rcv_name (s, sp) =
    bnd (if opts AND MACH_SEND_MSG \<noteq> 0 then msg_send ly msg (parse_header (content ly s msg n)) else ret None)
      (\<lambda>r. case r of Some code \<Rightarrow> ret code | None \<Rightarrow>
         if opts AND MACH_RCV_MSG \<noteq> 0 then msg_receive ly msg rcv_size rcv_name else ret MACH_MSG_SUCCESS) (s, sp)"
proof -
  have "24 \<le> length (content ly s msg n)" "msg \<noteq> 0" using assms by (simp_all add: msg_buffer_def)
  then show ?thesis
    by (simp add: mach_msg_def Let_def parse_take
        on_vm_run [where m = "load_bytes ly msg 24", OF msg_buffer_header [OF assms]])
qed

lemma msg_send_ok:
  assumes "msg_buffer ly s msg n" and "\<not> is_host_call header" and "get_port sp (msgh_remote_port header) = Some p"
    and "unat (msgh_size header) \<le> n"
  shows "msg_send ly msg header (s, sp) = (Ok None, (s, set_messages (msgh_remote_port header)
    (push_message (po_messages p) (take (unat (msgh_size header)) (content ly s msg n))) sp))"
proof -
  let ?k = "unat (msgh_size header)"
  have "content ly s msg ?k = take ?k (content ly s msg n)" using assms(4) by (intro nth_equalityI) auto
  moreover have "load_bytes ly msg ?k s = (Ok (content ly s msg ?k), s)"
    using assms buffer_prefix load_bytes_ok by (auto simp: msg_buffer_def)
  ultimately have run: "load_bytes ly msg ?k s = (Ok (take ?k (content ly s msg n)), s)" by simp
  show ?thesis
    using assms(2,3) by (simp add: msg_send_def Let_def ret_run on_vm_run [where m = "load_bytes ly msg ?k", OF run])
qed

text \<open>The header fields that a receive overwrites.\<close>

definition received :: "u32 \<Rightarrow> bytes \<Rightarrow> bytes" where
  "received name data = take 4 data @ to_le (of_nat (length data) :: u32) @ to_le (0 :: u32) @ to_le name @ drop 16 data"

lemma store32_ok:
  assumes "buffer ly (vm_mmu s) va n" and "k + 4 \<le> n"
  shows "\<exists>s'. store32 ly (va + of_nat k) w s = (Ok (), s') \<and> vm_mmu s' = vm_mmu s \<and>
    content ly s' va n = take k (content ly s va n) @ to_le w @ drop (k + 4) (content ly s va n) \<and>
    only_changed ly va n s s'"
proof -
  have b: "buffer ly (vm_mmu s) (va + of_nat k) (length (to_le w))"
    using buffer_shift [OF assms(1), of k 4] assms(2) by simp
  from store_bytes_ok [OF b] obtain s' where
    s': "store_bytes ly (va + of_nat k) (to_le w) s = (Ok (), s')"
    "content ly s' (va + of_nat k) 4 = to_le w" "only_changed ly (va + of_nat k) 4 s s'" by auto
  have "place ly (vm_mmu s) (va + of_nat k) ` {..<4} \<subseteq> place ly (vm_mmu s) va ` {..<n}"
    using assms(2) by (auto simp: place_shift)
  then have "only_changed ly va n s s'" using s'(3) unfolding only_changed_def by blast
  with s' content_rest [OF assms(1) s'(3) assms(2)] show ?thesis
    by (auto simp: store32_def only_changed_def)
qed

lemma only_changed_trans:
  "only_changed ly va n s s' \<Longrightarrow> only_changed ly va n s' s'' \<Longrightarrow> only_changed ly va n s s''"
  by (simp add: only_changed_def)

lemma msg_receive_ok:
  assumes b: "buffer ly (vm_mmu s) msg (length data)" and p: "get_port sp name = Some p"
    and last: "po_messages p \<noteq> []" "last (po_messages p) = data" and len: "16 \<le> length data" "length data \<le> unat rcv_size"
  shows "\<exists>s'. msg_receive ly msg rcv_size name (s, sp) =
      (Ok MACH_MSG_SUCCESS, (s', set_messages name (butlast (po_messages p)) sp)) \<and>
    content ly s' msg (length data) = received name data \<and> only_changed ly msg (length data) s s'"
proof -
  let ?n = "length data"
  from store_bytes_ok [OF b] obtain s1 where
    s1: "store_bytes ly msg data s = (Ok (), s1)" "content ly s1 msg ?n = data" "only_changed ly msg ?n s s1" by blast
  have b1: "buffer ly (vm_mmu s1) msg ?n" using b s1(3) by (simp add: only_changed_def)
  from store32_ok [OF b1, of 4 "of_nat ?n"] len obtain s2 where
    s2: "store32 ly (msg + 4) (of_nat ?n) s1 = (Ok (), s2)" "vm_mmu s2 = vm_mmu s1"
    "content ly s2 msg ?n = take 4 data @ to_le (of_nat ?n :: u32) @ drop 8 data" "only_changed ly msg ?n s1 s2"
    by (auto simp: s1(2))
  have b2: "buffer ly (vm_mmu s2) msg ?n" using b1 s2(2) by simp
  from store32_ok [OF b2, of 12 name] len obtain s3 where
    s3: "store32 ly (msg + 12) name s2 = (Ok (), s3)" "vm_mmu s3 = vm_mmu s2"
    "content ly s3 msg ?n = take 4 data @ to_le (of_nat ?n :: u32) @ take 4 (drop 8 data) @ to_le name @ drop 16 data"
    "only_changed ly msg ?n s2 s3"
    by (auto simp: s2(3))
  have b3: "buffer ly (vm_mmu s3) msg ?n" using b2 s3(2) by simp
  from store32_ok [OF b3, of 8 0] len obtain s4 where
    s4: "store32 ly (msg + 8) 0 s3 = (Ok (), s4)" "content ly s4 msg ?n = received name data"
    "only_changed ly msg ?n s3 s4"
    by (auto simp: s3(3) received_def)
  have oc: "only_changed ly msg ?n s s4"
    using s1(3) s2(4) s3(4) s4(3) only_changed_trans by blast
  have rs: "receive_size ?n (unat rcv_size) = Some ?n" using len by (simp add: receive_size_def)
  have "msg_receive ly msg rcv_size name (s, sp) =
      (Ok MACH_MSG_SUCCESS, (s4, set_messages name (butlast (po_messages p)) sp))"
    using p last rs
    by (simp add: msg_receive_def Let_def ret_run on_vm_run [where m = "store_bytes ly msg data", OF s1(1)]
        on_vm_run [where m = "store32 ly (msg + 4) (of_nat ?n)", OF s2(1)]
        on_vm_run [where m = "store32 ly (msg + 12) name", OF s3(1)]
        on_vm_run [where m = "store32 ly (msg + 8) 0", OF s4(1)])
  with s4(2) oc show ?thesis by blast
qed

end
