(* ===== verification/Sched.thy ===== *)
theory Sched
  imports Vfs Ipc
begin

text \<open>
  Processes and the scheduler (\<open>src/src/kernel/src/scheduler.rs\<close>), with the switch of contexts
  (\<open>switch.s\<close>) that \<open>sys_yield\<close> makes. The registers that a switch saves are a list of 13: x19..x28,
  the frame pointer, the stack pointer, the return address.
\<close>

unbundle bit_operations_syntax

section \<open>Processes\<close>

datatype process_state = Ready | Running | Dead

text \<open>Of the kernel stack only the address counts.\<close>

record process =
  pr_pid :: u64
  pr_state :: process_state
  pr_context :: "u64 list"
  pr_stack :: u64
  pr_ipc :: ipc_space
  pr_files :: "file_handle option list"
  pr_mask :: u32

definition KSTACK_SIZE :: nat where "KSTACK_SIZE = 64 * 1024"

text \<open>The program status that the first \<open>eret\<close> of a process installs, and its entry point.\<close>

definition entry_state :: "u64 \<Rightarrow> bool \<Rightarrow> u64 \<times> u64" where
  "entry_state entry_point is_64bit =
     (if is_64bit then (entry_point, 0x3c0)
      else
        let (actual_entry, spsr) =
          (if entry_point AND 1 \<noteq> 0 then (entry_point AND NOT 1, 0x3c0 OR 0x20) else (entry_point, 0x3c0))
        in (actual_entry, (spsr AND NOT 0x200) OR 0x10))"

text \<open>\<open>regs[2..n + 2].copy_from_slice(args)\<close> for at most six arguments.\<close>

definition set_args :: "u64 list \<Rightarrow> u64 list \<Rightarrow> u64 list" where
  "set_args args regs =
     (let n = min 6 (length args) in take 2 regs @ take n args @ drop (2 + n) regs)"

definition process_new :: "u64 \<Rightarrow> u64 \<Rightarrow> u64 \<Rightarrow> u64 \<Rightarrow> u64 \<Rightarrow> u64 list \<Rightarrow> u64 \<Rightarrow> bool \<Rightarrow> process" where
  "process_new pid starter stack entry_point user_sp args tls_base is_64bit =
     (let sp = (stack + of_nat KSTACK_SIZE) AND NOT 15;
          (actual_entry, spsr) = entry_state entry_point is_64bit;
          regs = (replicate 13 0)[11 := sp, 12 := starter, 0 := actual_entry, 1 := user_sp, 8 := spsr, 9 := tls_base]
      in \<lparr>pr_pid = pid, pr_state = Ready, pr_context = (set_args args regs)[10 := 0], pr_stack = stack,
          pr_ipc = ipc_space_new,
          pr_files = [Some (RandomFile 0), Some (RandomFile 0), Some (RandomFile 0)] @ replicate 29 None,
          pr_mask = 0\<rparr>)"

section \<open>The scheduler\<close>

record scheduler =
  sc_processes :: "process list"
  sc_current :: "process option"

definition scheduler_new :: scheduler where
  "scheduler_new = \<lparr>sc_processes = [], sc_current = None\<rparr>"

definition add_process :: "process \<Rightarrow> scheduler \<Rightarrow> scheduler" where
  "add_process p sc = sc\<lparr>sc_processes := sc_processes sc @ [p]\<rparr>"

text \<open>
  The pointers that \<open>schedule_next\<close> returns: the context to save to is that of the last process of
  the queue, given by its index, if the queue has one; the context to load is that of the current
  process.
\<close>

definition schedule_next :: "scheduler \<Rightarrow> nat option option \<times> scheduler" where
  "schedule_next sc =
     (case sc_processes sc of
        [] \<Rightarrow> (None, sc)
      | next_proc # rest \<Rightarrow>
          let queue = (case sc_current sc of
                Some prev \<Rightarrow> rest @ [prev\<lparr>pr_state := Ready\<rparr>] | None \<Rightarrow> rest);
              prev_ctx = (if queue = [] then None else Some (length queue - 1))
          in (Some prev_ctx, sc\<lparr>sc_processes := queue, sc_current := Some next_proc\<rparr>))"

definition current_pid :: "scheduler \<Rightarrow> u64" where
  "current_pid sc = (case sc_current sc of Some p \<Rightarrow> pr_pid p | None \<Rightarrow> 0)"

section \<open>Switching\<close>

text \<open>\<open>__switch_to\<close>: the registers go to the one context and come from the other.\<close>

definition switch_to :: "nat \<Rightarrow> u64 list \<Rightarrow> scheduler \<Rightarrow> u64 list \<times> scheduler" where
  "switch_to i cpu sc =
     (case sc_current sc of
        None \<Rightarrow> (cpu, sc)
      | Some p \<Rightarrow> (pr_context p,
          sc\<lparr>sc_processes := (sc_processes sc)[i := (sc_processes sc ! i)\<lparr>pr_context := cpu\<rparr>]\<rparr>))"

text \<open>
  \<open>sys_yield\<close> on the registers and the scheduler, up to the switch; \<open>None\<close> is the panic of
  \<open>expect("No prev context in sys_yield")\<close>.
\<close>

definition yield :: "u64 list \<Rightarrow> scheduler \<Rightarrow> (u64 list \<times> scheduler) option" where
  "yield cpu sc =
     (case schedule_next sc of
        (None, sc') \<Rightarrow> Some (cpu, sc')
      | (Some None, sc') \<Rightarrow> None
      | (Some (Some i), sc') \<Rightarrow> Some (switch_to i cpu sc'))"

section \<open>Round robin\<close>

text \<open>
  The processes in the order in which they run, each with its registers, from the current one on,
  whose registers are those of the processor.
\<close>

definition ring :: "u64 list \<Rightarrow> scheduler \<Rightarrow> (u64 \<times> u64 list) list" where
  "ring cpu sc =
     (case sc_current sc of
        None \<Rightarrow> []
      | Some p \<Rightarrow> (pr_pid p, cpu) # map (\<lambda>q. (pr_pid q, pr_context q)) (sc_processes sc))"

lemma yield_rotates:
  assumes "sc_current sc = Some p"
  shows "\<exists>cpu' sc'. yield cpu sc = Some (cpu', sc') \<and> ring cpu' sc' = rotate1 (ring cpu sc) \<and>
    sc_current sc' \<noteq> None"
  using assms
  by (cases "sc_processes sc")
    (simp_all add: yield_def schedule_next_def switch_to_def ring_def Let_def list_update_append)

fun yields :: "nat \<Rightarrow> u64 list \<times> scheduler \<Rightarrow> (u64 list \<times> scheduler) option" where
  "yields 0 st = Some st"
| "yields (Suc n) st = (case yield (fst st) (snd st) of None \<Rightarrow> None | Some st' \<Rightarrow> yields n st')"

lemma yields_rotate:
  "sc_current sc \<noteq> None \<Longrightarrow> \<exists>cpu' sc'. yields n (cpu, sc) = Some (cpu', sc') \<and>
     ring cpu' sc' = (rotate1 ^^ n) (ring cpu sc) \<and> sc_current sc' \<noteq> None"
proof (induction n arbitrary: cpu sc)
  case 0
  then show ?case by simp
next
  case (Suc n)
  then obtain p where "sc_current sc = Some p" by blast
  from yield_rotates [OF this, of cpu] obtain cpu1 sc1 where
    y: "yield cpu sc = Some (cpu1, sc1)" "ring cpu1 sc1 = rotate1 (ring cpu sc)" "sc_current sc1 \<noteq> None" by blast
  from Suc.IH [OF y(3), of cpu1] y show ?case by (auto simp: funpow_swap1)
qed

end
