(* ===== verification/Utf8.thy ===== *)
theory Utf8
  imports Volume
begin

text \<open>
  \<open>core::str::from_utf8\<close> of the standard library: a byte string is decoded to its code points, or
  refused. A sequence is refused when it is longer than needed, when it denotes a surrogate or a
  number above \<open>0x10FFFF\<close>, and when a continuation byte is missing.
\<close>

definition scalar_value :: "nat \<Rightarrow> bool" where
  "scalar_value c \<longleftrightarrow> c < 0x110000 \<and> \<not> (0xD800 \<le> c \<and> c \<le> 0xDFFF)"

text \<open>The six bits of a continuation byte.\<close>

definition cont :: "u8 \<Rightarrow> nat option" where
  "cont b = (if 0x80 \<le> unat b \<and> unat b < 0xC0 then Some (unat b - 0x80) else None)"

text \<open>A decoded sequence: the code point and the rest.\<close>

definition utf8_char :: "bytes \<Rightarrow> (nat \<times> bytes) option" where
  "utf8_char bs =
     (case bs of
        [] \<Rightarrow> None
      | a # bs1 \<Rightarrow>
          let x = unat a in
          if x < 0x80 then Some (x, bs1)
          else (case bs1 of
              [] \<Rightarrow> None
            | b # bs2 \<Rightarrow>
                (case cont b of
                   None \<Rightarrow> None
                 | Some b' \<Rightarrow>
                     if 0xC2 \<le> x \<and> x < 0xE0 then Some ((x - 0xC0) * 64 + b', bs2)
                     else (case bs2 of
                         [] \<Rightarrow> None
                       | c # bs3 \<Rightarrow>
                           (case cont c of
                              None \<Rightarrow> None
                            | Some c' \<Rightarrow>
                                if 0xE0 \<le> x \<and> x < 0xF0 then
                                  (let v = (x - 0xE0) * 4096 + b' * 64 + c' in
                                   if 0x800 \<le> v \<and> scalar_value v then Some (v, bs3) else None)
                                else (case bs3 of
                                    [] \<Rightarrow> None
                                  | d # bs4 \<Rightarrow>
                                      (case cont d of
                                         None \<Rightarrow> None
                                       | Some d' \<Rightarrow>
                                           if 0xF0 \<le> x \<and> x < 0xF5 then
                                             (let v = (x - 0xF0) * 262144 + b' * 4096 + c' * 64 + d' in
                                              if 0x10000 \<le> v \<and> scalar_value v then Some (v, bs4) else None)
                                           else None)))))))"

lemma utf8_char_shorter: "utf8_char bs = Some (c, rest) \<Longrightarrow> length rest < length bs"
  by (auto simp: utf8_char_def Let_def split: list.splits if_splits option.splits)

function utf8_decode :: "bytes \<Rightarrow> ustring option" where
  "utf8_decode bs =
     (if bs = [] then Some []
      else (case utf8_char bs of
          None \<Rightarrow> None
        | Some (c, rest) \<Rightarrow> map_option (Cons c) (utf8_decode rest)))"
  by pat_completeness auto
termination
  by (relation "measure length") (auto dest: utf8_char_shorter)

declare utf8_decode.simps [simp del]

section \<open>Encoding\<close>

text \<open>The bytes of a \<open>str\<close>.\<close>

definition utf8_bytes :: "nat \<Rightarrow> bytes" where
  "utf8_bytes c =
     (if c < 0x80 then [of_nat c]
      else if c < 0x800 then [of_nat (0xC0 + c div 64), of_nat (0x80 + c mod 64)]
      else if c < 0x10000 then
        [of_nat (0xE0 + c div 4096), of_nat (0x80 + c div 64 mod 64), of_nat (0x80 + c mod 64)]
      else [of_nat (0xF0 + c div 262144), of_nat (0x80 + c div 4096 mod 64), of_nat (0x80 + c div 64 mod 64),
        of_nat (0x80 + c mod 64)])"

definition as_bytes :: "ustring \<Rightarrow> bytes" where
  "as_bytes s = concat (map utf8_bytes s)"

lemma unat_byte: "n < 256 \<Longrightarrow> unat (of_nat n :: u8) = n"
  by (simp add: unat_of_nat take_bit_nat_eq_self)

lemma cont_byte: "n < 64 \<Longrightarrow> cont (of_nat (0x80 + n)) = Some n"
  by (simp add: cont_def unat_byte del: of_nat_add)

lemma utf8_char_two:
  assumes "0x80 \<le> c" "c < 0x800"
  shows "utf8_char (of_nat (0xC0 + c div 64) # of_nat (0x80 + c mod 64) # rest) = Some (c, rest)"
proof -
  have d: "2 \<le> c div 64" "c div 64 < 32" using assms by (simp_all add: less_mult_imp_div_less div_le_mono [of 128 c 64, simplified])
  then have x: "unat (of_nat (0xC0 + c div 64) :: u8) = 0xC0 + c div 64" by (intro unat_byte) simp
  have "c div 64 * 64 + c mod 64 = c" by (rule div_mult_mod_eq)
  then show ?thesis using d by (simp add: utf8_char_def x cont_byte del: of_nat_add)
qed

lemma utf8_char_three:
  assumes "0x800 \<le> c" "c < 0x10000" "scalar_value c"
  shows "utf8_char (of_nat (0xE0 + c div 4096) # of_nat (0x80 + c div 64 mod 64) # of_nat (0x80 + c mod 64) # rest)
    = Some (c, rest)"
proof -
  have d: "c div 4096 < 16" using assms by (simp add: less_mult_imp_div_less)
  then have x: "unat (of_nat (0xE0 + c div 4096) :: u8) = 0xE0 + c div 4096" by (intro unat_byte) simp
  have "c div 64 div 64 = c div 4096" by (simp add: div_mult2_eq [symmetric])
  then have "c div 4096 * 4096 + c div 64 mod 64 * 64 + c mod 64 = c"
    using div_mult_mod_eq [of c 64] div_mult_mod_eq [of "c div 64" 64] by linarith
  then show ?thesis using d assms by (simp add: utf8_char_def x cont_byte Let_def del: of_nat_add)
qed

lemma utf8_char_four:
  assumes "0x10000 \<le> c" "scalar_value c"
  shows "utf8_char (of_nat (0xF0 + c div 262144) # of_nat (0x80 + c div 4096 mod 64) #
    of_nat (0x80 + c div 64 mod 64) # of_nat (0x80 + c mod 64) # rest) = Some (c, rest)"
proof -
  have c: "c < 0x110000" using assms by (simp add: scalar_value_def)
  then have d: "c div 262144 < 5" by (simp add: less_mult_imp_div_less)
  then have x: "unat (of_nat (0xF0 + c div 262144) :: u8) = 0xF0 + c div 262144" by (intro unat_byte) simp
  have "c div 64 div 64 = c div 4096" "c div 4096 div 64 = c div 262144"
    by (simp_all add: div_mult2_eq [symmetric])
  then have "c div 262144 * 262144 + c div 4096 mod 64 * 4096 + c div 64 mod 64 * 64 + c mod 64 = c"
    using div_mult_mod_eq [of c 64] div_mult_mod_eq [of "c div 64" 64] div_mult_mod_eq [of "c div 4096" 64] by linarith
  then show ?thesis using d assms by (simp add: utf8_char_def x cont_byte Let_def del: of_nat_add)
qed

lemma utf8_char_bytes: "scalar_value c \<Longrightarrow> utf8_char (utf8_bytes c @ rest) = Some (c, rest)"
  using utf8_char_two [of c rest] utf8_char_three [of c rest] utf8_char_four [of c rest]
  by (auto simp: utf8_bytes_def utf8_char_def unat_byte simp del: of_nat_add)

lemma utf8_decode_bytes: "list_all scalar_value s \<Longrightarrow> utf8_decode (as_bytes s) = Some s"
proof (induction s)
  case Nil
  then show ?case by (simp add: as_bytes_def utf8_decode.simps)
next
  case (Cons c s)
  then have "utf8_char (as_bytes (c # s)) = Some (c, as_bytes s)"
    by (simp add: as_bytes_def utf8_char_bytes)
  moreover have "as_bytes (c # s) \<noteq> []" by (simp add: as_bytes_def utf8_bytes_def)
  ultimately show ?case using Cons by (simp add: utf8_decode.simps [of "as_bytes (c # s)"])
qed

end
