(* ===== verification/Kernel.thy ===== *)
theory Kernel
  imports Sched Utf8
begin

text \<open>
  The state of the kernel as a whole, and the vocabulary of its system calls: the trap frame, the
  user memory, the file system, the scheduler and the heap as parts of one state. The global
  allocator (crate \<open>linked_list_allocator\<close>), the generic timer and the addresses of
  \<open>kernel_thread_starter\<close> and of the kernel stacks are parameters.
\<close>

unbundle bit_operations_syntax

section \<open>State\<close>

text \<open>\<open>TrapFrame\<close> of \<open>src/src/kernel/src/process.rs\<close>.\<close>

record trap_frame =
  tf_x :: "nat \<Rightarrow> u64"
  tf_elr :: u64
  tf_spsr :: u64
  tf_sp_el0 :: u64

text \<open>
  The statics of the kernel. \<open>kn_cpu\<close> are the registers of the processor that a switch saves,
  \<open>kn_heap\<close> the blocks that the system calls took from the allocator, \<open>kn_console\<close> what \<open>sys_write\<close>
  printed; the other messages of the kernel log are left out.
\<close>

record ('s, 'g) kernel =
  kn_vm :: vm
  kn_fs :: "('s, 'g) vfs"
  kn_sched :: scheduler
  kn_cpu :: "u64 list"
  kn_pids :: u64
  kn_next_mmap :: u64
  kn_sec :: u32
  kn_usec :: u32
  kn_heap :: "(u64 \<times> nat) list"
  kn_exceptions :: u32
  kn_console :: "ustring list"

record ('s, 'g) kernel_env =
  ke_layout :: table_layout
  ke_vfs :: "('s, 'g) vfs_env"
  ke_alloc :: "(u64 \<times> nat) list \<Rightarrow> nat \<Rightarrow> u64 option"
  ke_counter :: u64
  ke_freq :: u64
  ke_starter :: u64
  ke_stack :: "u64 \<Rightarrow> u64"

type_synonym ('s, 'g, 'a) kact = "(('s, 'g) kernel, fault, 'a) act"

section \<open>Frames\<close>

definition CARRY :: u64 where "CARRY = 0x20000000"

definition set_x :: "nat \<Rightarrow> u64 \<Rightarrow> trap_frame \<Rightarrow> trap_frame" where
  "set_x i v f = f\<lparr>tf_x := (tf_x f)(i := v)\<rparr>"

text \<open>\<open>frame.x[0] = v\<close> with the carry flag cleared (a result) or set (an error number).\<close>

definition set_ok :: "u64 \<Rightarrow> trap_frame \<Rightarrow> trap_frame" where
  "set_ok v f = (set_x 0 v f)\<lparr>tf_spsr := tf_spsr f AND NOT CARRY\<rparr>"

definition set_err :: "u64 \<Rightarrow> trap_frame \<Rightarrow> trap_frame" where
  "set_err v f = (set_x 0 v f)\<lparr>tf_spsr := tf_spsr f OR CARRY\<rparr>"

text \<open>The casts \<open>as u32\<close>, \<open>as i32\<close>, and \<open>as usize\<close> of an \<open>i32\<close>.\<close>

definition low32 :: "u64 \<Rightarrow> u32" where
  "low32 v = ucast v"

definition as_i32 :: "u64 \<Rightarrow> int" where
  "as_i32 v = sint (low32 v)"

definition i32_as_usize :: "int \<Rightarrow> nat" where
  "i32_as_usize i = unat (word_of_int i :: u64)"

section \<open>Parts of the state\<close>

definition on_mem :: "'a vmact \<Rightarrow> ('s, 'g, 'a) kact" where
  "on_mem m = (\<lambda>k. case m (kn_vm k) of (r, s) \<Rightarrow> (r, k\<lparr>kn_vm := s\<rparr>))"

text \<open>The operations of the file system return no errors.\<close>

definition on_fs :: "(('s, 'g) vfs, hfs_error, 'a) act \<Rightarrow> ('s, 'g, 'a) kact" where
  "on_fs m = (\<lambda>k. case m (kn_fs k) of
     (Ok a, v) \<Rightarrow> (Ok a, k\<lparr>kn_fs := v\<rparr>)
   | (Loop, v) \<Rightarrow> (Loop, k\<lparr>kn_fs := v\<rparr>)
   | (_, v) \<Rightarrow> (Panic, k\<lparr>kn_fs := v\<rparr>))"

definition get_current :: "('s, 'g, process option) kact" where
  "get_current = (\<lambda>k. (Ok (sc_current (kn_sched k)), k))"

definition set_current :: "process \<Rightarrow> ('s, 'g, unit) kact" where
  "set_current p = (\<lambda>k. (Ok (), k\<lparr>kn_sched := (kn_sched k)\<lparr>sc_current := Some p\<rparr>\<rparr>))"

definition set_file :: "process \<Rightarrow> nat \<Rightarrow> file_handle option \<Rightarrow> ('s, 'g, unit) kact" where
  "set_file p fd h = set_current (p\<lparr>pr_files := (pr_files p)[fd := h]\<rparr>)"

text \<open>\<open>proc.files[fd]\<close> behind the test of \<open>fd\<close> against the length.\<close>

definition file_at :: "process \<Rightarrow> nat \<Rightarrow> file_handle option" where
  "file_at p fd = (if fd < length (pr_files p) then pr_files p ! fd else None)"

text \<open>An action on the memory and the ports of the current process.\<close>

definition on_ipc :: "process \<Rightarrow> 'a ipcact \<Rightarrow> ('s, 'g, 'a) kact" where
  "on_ipc p m = (\<lambda>k. case m (kn_vm k, pr_ipc p) of
     (r, (s, sp)) \<Rightarrow> (r, k\<lparr>kn_vm := s, kn_sched := (kn_sched k)\<lparr>sc_current := Some (p\<lparr>pr_ipc := sp\<rparr>)\<rparr>\<rparr>))"

section \<open>Memory for mappings\<close>

text \<open>
  \<open>Layout::from_size_align(len, 4096).unwrap()\<close> and \<open>alloc_zeroed\<close>: the block is zeroed through its
  own address, which the kernel takes for the physical one.
\<close>

definition alloc_zeroed :: "('s, 'g) kernel_env \<Rightarrow> nat \<Rightarrow> ('s, 'g, u64 option) kact" where
  "alloc_zeroed env len = (\<lambda>k.
     if 2 ^ 63 - 4096 < len then (Panic, k)
     else (case ke_alloc env (kn_heap k) len of
         None \<Rightarrow> (Ok None, k)
       | Some p \<Rightarrow>
           bnd (on_mem (store_bytes (ke_layout env) p (replicate len 0))) (\<lambda>_. ret (Some p))
             (k\<lparr>kn_heap := (p, len) # kn_heap k\<rparr>)))"

text \<open>\<open>mmu::map_range\<close> on the tables in use; running out of tables is a panic.\<close>

definition map_memory ::
  "('s, 'g) kernel_env \<Rightarrow> map_permission \<Rightarrow> u64 \<Rightarrow> u64 \<Rightarrow> u64 \<Rightarrow> ('s, 'g, unit) kact" where
  "map_memory env perm vaddr paddr len = (\<lambda>k.
     case map_range (ke_layout env) vaddr paddr len perm (vm_mmu (kn_vm k)) of
       None \<Rightarrow> (Panic, k)
     | Some m \<Rightarrow> (Ok (), k\<lparr>kn_vm := (kn_vm k)\<lparr>vm_mmu := m\<rparr>\<rparr>))"

section \<open>Reading a file into memory\<close>

text \<open>\<open>handle.read(slice)\<close> for the open file \<open>fd\<close> of the current process; the number of bytes read.\<close>

definition read_fd :: "('s, 'g) kernel_env \<Rightarrow> nat \<Rightarrow> u64 \<Rightarrow> nat \<Rightarrow> ('s, 'g, nat) kact" where
  "read_fd env fd buf len =
     bnd get_current (\<lambda>cur.
     case cur of
       None \<Rightarrow> ret 0
     | Some p \<Rightarrow>
         (case file_at p fd of
            None \<Rightarrow> ret 0
          | Some h \<Rightarrow>
              bnd (on_fs (file_read (ke_vfs env) h len)) (\<lambda>(bs, h').
              bnd (set_file p fd (Some h')) (\<lambda>_.
              bnd (on_mem (store_bytes (ke_layout env) buf bs)) (\<lambda>_.
              ret (length bs))))))"

text \<open>The path at a user address: up to 127 bytes before the first zero.\<close>

fun read_path :: "table_layout \<Rightarrow> u64 \<Rightarrow> nat \<Rightarrow> bytes vmact" where
  "read_path ly va 0 = ret []"
| "read_path ly va (Suc n) =
     bnd (load8 ly va) (\<lambda>c. if c = 0 then ret [] else bnd (read_path ly (va + 1) n) (\<lambda>bs. ret (c # bs)))"

definition user_path :: "('s, 'g) kernel_env \<Rightarrow> u64 \<Rightarrow> ustring \<Rightarrow> ('s, 'g, ustring) kact" where
  "user_path env va fallback =
     bnd (on_mem (read_path (ke_layout env) va 127)) (\<lambda>bs.
     ret (case utf8_decode bs of Some s \<Rightarrow> s | None \<Rightarrow> fallback))"

end
