(* ===== verification/Syscalls.thy ===== *)
theory Syscalls
  imports Kernel
begin

text \<open>
  The system calls (\<open>src/src/kernel/src/process.rs\<close>): one action per call, on the state of the kernel;
  it gets the frame of the caller and returns the frame that the caller resumes with.
\<close>

unbundle bit_operations_syntax

section \<open>Files\<close>

definition sys_read :: "('s, 'g) kernel_env \<Rightarrow> trap_frame \<Rightarrow> ('s, 'g, trap_frame) kact" where
  "sys_read env f =
     bnd (read_fd env (unat (tf_x f 0)) (tf_x f 1) (unat (tf_x f 2))) (\<lambda>n.
     ret (set_ok (of_nat n) f))"

text \<open>The first free descriptor.\<close>

fun free_fd :: "nat \<Rightarrow> 'a option list \<Rightarrow> nat option" where
  "free_fd fd [] = None"
| "free_fd fd (slot # slots) = (if slot = None then Some fd else free_fd (fd + 1) slots)"

definition sys_open :: "('s, 'g) kernel_env \<Rightarrow> trap_frame \<Rightarrow> ('s, 'g, trap_frame) kact" where
  "sys_open env f =
     bnd (user_path env (tf_x f 0) (map of_char ''invalid'')) (\<lambda>path.
     bnd (on_fs (vfs_open (ke_vfs env) path)) (\<lambda>handle.
     case handle of
       None \<Rightarrow> ret (set_err 2 f)
     | Some h \<Rightarrow>
         bnd get_current (\<lambda>cur.
         case cur of
           None \<Rightarrow> ret f
         | Some p \<Rightarrow>
             (case free_fd 0 (pr_files p) of
                Some fd \<Rightarrow> bnd (set_file p fd (Some h)) (\<lambda>_. ret (set_ok (of_nat fd) f))
              | None \<Rightarrow> ret (set_err 24 f)))))"

definition sys_close :: "trap_frame \<Rightarrow> ('s, 'g, trap_frame) kact" where
  "sys_close f =
     bnd get_current (\<lambda>cur.
     bnd (case cur of
            None \<Rightarrow> ret ()
          | Some p \<Rightarrow>
              if unat (tf_x f 0) < length (pr_files p) then set_file p (unat (tf_x f 0)) None else ret ()) (\<lambda>_.
     ret (set_ok 0 f)))"

text \<open>The 100 bytes of a \<open>stat64\<close>: zero but for the mode and the size.\<close>

definition write_stat :: "table_layout \<Rightarrow> u64 \<Rightarrow> nat \<Rightarrow> unit vmact" where
  "write_stat ly stat sz =
     bnd (store_bytes ly stat (replicate 100 0)) (\<lambda>_.
     bnd (store64 ly (stat + 64) (of_nat sz)) (\<lambda>_.
     store_bytes ly (stat + 4) (to_le (0x81A4 :: u16))))"

text \<open>\<open>stat64\<close> and \<open>lstat64\<close>.\<close>

definition sys_stat :: "('s, 'g) kernel_env \<Rightarrow> trap_frame \<Rightarrow> ('s, 'g, trap_frame) kact" where
  "sys_stat env f =
     bnd (user_path env (tf_x f 0) []) (\<lambda>path.
     bnd (on_fs (vfs_open (ke_vfs env) path)) (\<lambda>handle.
     case handle of
       Some h \<Rightarrow>
         bnd (on_mem (write_stat (ke_layout env) (tf_x f 1) (file_size h))) (\<lambda>_. ret (set_ok 0 f))
     | None \<Rightarrow> ret (set_err 2 f)))"

definition sys_fstat :: "('s, 'g) kernel_env \<Rightarrow> trap_frame \<Rightarrow> ('s, 'g, trap_frame) kact" where
  "sys_fstat env f =
     bnd get_current (\<lambda>cur.
     case (case cur of Some p \<Rightarrow> file_at p (unat (tf_x f 0)) | None \<Rightarrow> None) of
       Some h \<Rightarrow>
         bnd (on_mem (write_stat (ke_layout env) (tf_x f 1) (file_size h))) (\<lambda>_. ret (set_ok 0 f))
     | None \<Rightarrow> ret (set_err 9 f))"

section \<open>Processes, signals, time\<close>

definition sys_getpid_a32 :: "trap_frame \<Rightarrow> ('s, 'g, trap_frame) kact" where
  "sys_getpid_a32 f =
     bnd get_current (\<lambda>cur. ret (set_ok (case cur of Some p \<Rightarrow> pr_pid p | None \<Rightarrow> 0) f))"

definition new_mask :: "int \<Rightarrow> u32 \<Rightarrow> u32 \<Rightarrow> u32 option" where
  "new_mask how old_set new_set =
     (if how = 1 then Some (old_set OR new_set)
      else if how = 2 then Some (old_set AND NOT new_set)
      else if how = 3 then Some new_set
      else None)"

definition sys_sigprocmask :: "('s, 'g) kernel_env \<Rightarrow> trap_frame \<Rightarrow> ('s, 'g, trap_frame) kact" where
  "sys_sigprocmask env f =
     (let how = as_i32 (tf_x f 0); set_ptr = tf_x f 1; oset_ptr = tf_x f 2 in
      bnd get_current (\<lambda>cur.
      case cur of
        None \<Rightarrow> ret (set_err 1 f)
      | Some p \<Rightarrow>
          bnd (if oset_ptr = 0 then ret () else on_mem (store32 (ke_layout env) oset_ptr (pr_mask p))) (\<lambda>_.
          if set_ptr = 0 then ret (set_ok 0 f)
          else
            bnd (on_mem (load32 (ke_layout env) set_ptr)) (\<lambda>new_set.
            case new_mask how (pr_mask p) new_set of
              None \<Rightarrow> ret (set_err 22 f)
            | Some m \<Rightarrow> bnd (set_current (p\<lparr>pr_mask := m\<rparr>)) (\<lambda>_. ret (set_ok 0 f))))))"

text \<open>The clock of \<open>gettimeofday\<close> advances by a millisecond at each call.\<close>

definition tick :: "('s, 'g, u32 \<times> u32) kact" where
  "tick = (\<lambda>k.
     if 2 ^ 32 \<le> unat (kn_usec k) + 1000 then (Panic, k)
     else
       let usec = kn_usec k + 1000 in
       if 1000000 \<le> usec then
         (if unat (kn_sec k) + 1 = 2 ^ 32 then (Panic, k\<lparr>kn_usec := 0\<rparr>)
          else (Ok (kn_sec k + 1, 0), k\<lparr>kn_usec := 0, kn_sec := kn_sec k + 1\<rparr>))
       else (Ok (kn_sec k, usec), k\<lparr>kn_usec := usec\<rparr>))"

definition sys_gettimeofday :: "('s, 'g) kernel_env \<Rightarrow> trap_frame \<Rightarrow> ('s, 'g, trap_frame) kact" where
  "sys_gettimeofday env f =
     (let tv = tf_x f 0 in
      bnd (if tv = 0 then ret ()
           else
             bnd tick (\<lambda>(sec, usec).
             bnd (on_mem (store32 (ke_layout env) tv sec)) (\<lambda>_.
             on_mem (store32 (ke_layout env) (tv + 4) usec)))) (\<lambda>_.
      ret (set_ok 0 f)))"

definition sys_getentropy :: "('s, 'g) kernel_env \<Rightarrow> trap_frame \<Rightarrow> ('s, 'g, trap_frame) kact" where
  "sys_getentropy env f =
     bnd (on_mem (store_bytes (ke_layout env) (tf_x f 0) (replicate (unat (tf_x f 1)) 0x42))) (\<lambda>_.
     ret (set_ok 0 f))"

section \<open>Memory\<close>

text \<open>The address for a mapping without one.\<close>

definition next_region :: "u64 \<Rightarrow> ('s, 'g, u64) kact" where
  "next_region len = (\<lambda>k.
     let res = kn_next_mmap k; pages = (len + 0xFFF) AND NOT 0xFFF in
     if 2 ^ 64 \<le> unat len + 0xFFF \<or> 2 ^ 64 \<le> unat res + unat pages then (Panic, k)
     else (Ok res, k\<lparr>kn_next_mmap := res + pages\<rparr>))"

definition sys_mmap :: "('s, 'g) kernel_env \<Rightarrow> trap_frame \<Rightarrow> ('s, 'g, trap_frame) kact" where
  "sys_mmap env f =
     (let addr = tf_x f 0; len = tf_x f 1; fd = as_i32 (tf_x f 4) in
      bnd (if addr = 0 then next_region len else ret addr) (\<lambda>map_addr.
      bnd (alloc_zeroed env (unat len)) (\<lambda>phys.
      case phys of
        None \<Rightarrow> ret (set_err 12 f)
      | Some paddr \<Rightarrow>
          bnd (map_memory env UserRWX map_addr paddr len) (\<lambda>_.
          bnd (if fd = -1 then ret 0 else read_fd env (i32_as_usize fd) map_addr (unat len)) (\<lambda>_.
          ret (set_ok map_addr f))))))"

text \<open>\<open>SharedRegionMapping\<close> of \<open>ipc.rs\<close>.\<close>

record shared_region_mapping =
  sr_address :: u64
  sr_size :: u64
  sr_file_offset :: u64
  sr_max_prot :: u32
  sr_init_prot :: u32

definition parse_mapping :: "bytes \<Rightarrow> shared_region_mapping" where
  "parse_mapping bs = \<lparr>sr_address = from_le (take 8 bs), sr_size = from_le (take 8 (drop 8 bs)),
     sr_file_offset = from_le (take 8 (drop 16 bs)), sr_max_prot = from_le (take 4 (drop 24 bs)),
     sr_init_prot = from_le (take 4 (drop 28 bs))\<rparr>"

text \<open>The chunks of 4096 bytes of a segment; \<open>n\<close> bytes are left.\<close>

function read_chunks :: "('s, 'g) kernel_env \<Rightarrow> nat \<Rightarrow> u64 \<Rightarrow> nat \<Rightarrow> ('s, 'g, unit) kact" where
  "read_chunks env fd va n =
     (if n = 0 then ret ()
      else bnd (read_fd env fd va (min 4096 n)) (\<lambda>_. read_chunks env fd (va + of_nat (min 4096 n)) (n - min 4096 n)))"
  by pat_completeness auto
termination
  by (relation "measure (\<lambda>(_, _, _, n). n)") auto

declare read_chunks.simps [simp del]

definition seek_fd :: "nat \<Rightarrow> nat \<Rightarrow> ('s, 'g, unit) kact" where
  "seek_fd fd off =
     bnd get_current (\<lambda>cur.
     case cur of
       None \<Rightarrow> ret ()
     | Some p \<Rightarrow>
         (case file_at p fd of
            None \<Rightarrow> ret ()
          | Some h \<Rightarrow> bnd (on_fs (file_seek h off)) (\<lambda>h'. set_file p fd (Some h'))))"

definition map_segment :: "('s, 'g) kernel_env \<Rightarrow> nat \<Rightarrow> nat \<Rightarrow> shared_region_mapping \<Rightarrow> ('s, 'g, unit) kact" where
  "map_segment env fd size_of_file m =
     (let off = unat (sr_file_offset m);
          data_size = (if off < size_of_file then min (unat (sr_size m)) (size_of_file - off) else 0)
      in if data_size = 0 then ret ()
         else
           bnd (alloc_zeroed env data_size) (\<lambda>phys.
           case phys of
             None \<Rightarrow> panic
           | Some paddr \<Rightarrow>
               bnd (map_memory env UserRWX (sr_address m) paddr (of_nat data_size)) (\<lambda>_.
               bnd (seek_fd fd off) (\<lambda>_.
               read_chunks env fd (sr_address m) data_size))))"

fun map_segments :: "('s, 'g) kernel_env \<Rightarrow> nat \<Rightarrow> nat \<Rightarrow> u64 \<Rightarrow> nat \<Rightarrow> ('s, 'g, unit) kact" where
  "map_segments env fd size_of_file mappings 0 = ret ()"
| "map_segments env fd size_of_file mappings (Suc n) =
     bnd (on_mem (load_bytes (ke_layout env) mappings 32)) (\<lambda>bs.
     bnd (map_segment env fd size_of_file (parse_mapping bs)) (\<lambda>_.
     map_segments env fd size_of_file (mappings + 32) n))"

definition sys_map_shared_region :: "('s, 'g) kernel_env \<Rightarrow> trap_frame \<Rightarrow> ('s, 'g, trap_frame) kact" where
  "sys_map_shared_region env f =
     (let fd = unat (tf_x f 0) in
      bnd get_current (\<lambda>cur.
      bnd (case (case cur of Some p \<Rightarrow> file_at p fd | None \<Rightarrow> None) of
             None \<Rightarrow> ret ()
           | Some h \<Rightarrow> map_segments env fd (file_size h) (tf_x f 2) (unat (tf_x f 1))) (\<lambda>_.
      ret (set_ok 0 f))))"

end
