(* ===== verification/Traps.thy ===== *)
theory Traps
  imports Syscalls
begin

text \<open>
  The dispatch of exceptions (\<open>src/src/kernel/src/process.rs\<close>): BSD system calls and Mach traps of
  AArch32 programs, the five calls of AArch64 programs, and the handler of synchronous exceptions.
\<close>

unbundle bit_operations_syntax

section \<open>\<open>sysctl\<close>\<close>

datatype sysctl_entry = NoEntry | Entry bytes "u32 option" | Refused

definition ascii :: "string \<Rightarrow> bytes" where
  "ascii s = map (\<lambda>c. of_nat (of_char c)) s"

definition sysctl_entry :: "int \<Rightarrow> int \<Rightarrow> sysctl_entry" where
  "sysctl_entry m0 m1 =
     (if m0 = 1 then
        (if m1 = 1 then Entry (ascii ''Darwin'' @ [0]) None
         else if m1 = 4 then Entry (ascii ''Darwin Kernel Version 11.0.0'' @ [0]) None
         else if m1 = 8 then Entry (to_le (262144 :: u32)) None
         else if m1 = 35 then Entry (to_le (1 :: u32)) None
         else if m1 = 14 then Refused
         else NoEntry)
      else if m0 = 6 then
        (if m1 = 2 then Entry (to_le (4096 :: u32)) (Some 4)
         else if m1 = 3 then Entry (to_le (1 :: u32)) (Some 4)
         else if m1 = 24 then Entry (to_le (0x40000000 :: u64)) (Some 8)
         else NoEntry)
      else NoEntry)"

definition sys_sysctl :: "('s, 'g) kernel_env \<Rightarrow> trap_frame \<Rightarrow> ('s, 'g, trap_frame) kact" where
  "sys_sysctl env f =
     (let ly = ke_layout env; name = tf_x f 0; namelen = low32 (tf_x f 1); oldp = tf_x f 2; oldlenp = tf_x f 3 in
      if namelen < 2 then ret (set_ok 0 f)
      else
        bnd (on_mem (load32 ly name)) (\<lambda>m0.
        bnd (on_mem (load32 ly (name + 4))) (\<lambda>m1.
        case sysctl_entry (sint m0) (sint m1) of
          Refused \<Rightarrow> ret (set_err 2 f)
        | NoEntry \<Rightarrow> ret (set_ok 0 f)
        | Entry value len \<Rightarrow>
            bnd (if oldp = 0 then ret () else on_mem (store_bytes ly oldp value)) (\<lambda>_.
            bnd (case len of
                   None \<Rightarrow> ret ()
                 | Some n \<Rightarrow> if oldlenp = 0 then ret () else on_mem (store32 ly oldlenp n)) (\<lambda>_.
            ret (set_ok 0 f))))))"

section \<open>Mach traps\<close>

definition on_ports :: "(ipc_space, fault, 'a) act \<Rightarrow> 'a ipcact" where
  "on_ports m = (\<lambda>(s, sp). case m sp of (r, sp') \<Rightarrow> (r, (s, sp')))"

text \<open>\<open>mach_msg_trap\<close>; after a receive the local port of the header is written once more.\<close>

definition mach_msg_trap :: "('s, 'g) kernel_env \<Rightarrow> trap_frame \<Rightarrow> ('s, 'g, u64) kact" where
  "mach_msg_trap env f =
     (let ly = ke_layout env; msg = tf_x f 0; opts = low32 (tf_x f 1); rcv_size = low32 (tf_x f 3);
          rcv_name = low32 (tf_x f 4) in
      bnd get_current (\<lambda>cur.
      case cur of
        None \<Rightarrow> ret 0x10000003
      | Some p \<Rightarrow>
          bnd (on_ipc p (mach_msg ly msg opts rcv_size rcv_name)) (\<lambda>res.
          bnd (if res = 0 \<and> opts AND MACH_RCV_MSG \<noteq> 0 then
                 bnd (on_mem (load_bytes ly msg 24)) (\<lambda>bs.
                 on_mem (store_bytes ly msg (header_bytes ((parse_header bs)\<lparr>msgh_local_port := rcv_name\<rparr>))))
               else ret ()) (\<lambda>_.
          ret (ucast res)))))"

definition mach_reply_port :: "('s, 'g, u64) kact" where
  "mach_reply_port =
     bnd get_current (\<lambda>cur.
     case cur of
       None \<Rightarrow> ret 0x200
     | Some p \<Rightarrow> bnd (on_ipc p (on_ports allocate_port)) (\<lambda>name. ret (ucast name)))"

definition mach_timebase_info :: "('s, 'g) kernel_env \<Rightarrow> trap_frame \<Rightarrow> ('s, 'g, u64) kact" where
  "mach_timebase_info env f =
     (let ly = ke_layout env; info = tf_x f 0 in
      if info = 0 then ret 0
      else
        bnd (on_mem (store32 ly info 1000000000)) (\<lambda>_.
        bnd (on_mem (store32 ly (info + 4) (low32 (ke_freq env)))) (\<lambda>_.
        ret 0)))"

definition handle_a32_mach_trap :: "('s, 'g) kernel_env \<Rightarrow> int \<Rightarrow> trap_frame \<Rightarrow> ('s, 'g, trap_frame) kact" where
  "handle_a32_mach_trap env num f =
     (if num = -3 then
        ret (set_x 1 (drop_bit 32 (ke_counter env)) (set_x 0 (ke_counter env AND 0xFFFFFFFF) f))
      else
        bnd (if num = -26 then mach_reply_port
             else if num = -27 then ret 3
             else if num = -28 then ret 2
             else if num = -29 then ret 1
             else if num = -31 then mach_msg_trap env f
             else if num = -89 then mach_timebase_info env f
             else ret 0) (\<lambda>res.
        ret (set_x 0 res f)))"

section \<open>BSD system calls\<close>

text \<open>The calls with a fixed answer: a result, or an error number on the left.\<close>

definition user_answers :: "(int \<times> (u64 + u64)) list" where
  "user_answers = [(24, Inr 501), (25, Inr 501), (26, Inr 20), (33, Inl 2), (37, Inr 0), (43, Inr 20), (46, Inr 0)]"

definition file_answers :: "(int \<times> (u64 + u64)) list" where
  "file_answers = [(54, Inr 0), (58, Inl 2), (73, Inr 0), (74, Inr 0), (92, Inr 0), (100, Inr 0)]"

definition system_answers :: "(int \<times> (u64 + u64)) list" where
  "system_answers = [(220, Inl 2), (274, Inr 0), (281, Inr 0), (294, Inl 78), (301, Inr 0)]"

definition fixed_answers :: "(int \<times> (u64 + u64)) list" where
  "fixed_answers = user_answers @ file_answers @ [(126, Inr 0), (196, Inr 0)] @ system_answers @
     [(327, Inr 1), (423, Inr 0), (388, Inr 0)]"

lemma fixed_answers_eq:
  "fixed_answers = [(24, Inr 501), (25, Inr 501), (26, Inr 20), (33, Inl 2), (37, Inr 0), (43, Inr 20),
     (46, Inr 0), (54, Inr 0), (58, Inl 2), (73, Inr 0), (74, Inr 0), (92, Inr 0), (100, Inr 0),
     (126, Inr 0), (196, Inr 0), (220, Inl 2), (274, Inr 0), (281, Inr 0), (294, Inl 78),
     (301, Inr 0), (327, Inr 1), (423, Inr 0), (388, Inr 0)]"
  by (simp add: fixed_answers_def user_answers_def file_answers_def system_answers_def)

text \<open>\<open>sys_write\<close> prints to the console and returns nothing.\<close>

definition sys_write :: "('s, 'g) kernel_env \<Rightarrow> u64 \<Rightarrow> u64 \<Rightarrow> u64 \<Rightarrow> ('s, 'g, unit) kact" where
  "sys_write env fd buf len =
     (if fd = 1 \<or> fd = 2 \<or> fd = 4 then
        bnd (on_mem (load_bytes (ke_layout env) buf (unat len))) (\<lambda>bs k.
          (Ok (), case utf8_decode bs of Some s \<Rightarrow> k\<lparr>kn_console := kn_console k @ [s]\<rparr> | None \<Rightarrow> k))
      else ret ())"

text \<open>\<open>sys_exit\<close> and every other end of the road: the processor waits for ever.\<close>

definition park :: "('s, 'g, 'a) kact" where
  "park = fail Parked"

text \<open>\<open>dump_mem\<close> reads 16 bytes at a time where it takes the address for mapped.\<close>

definition dumpable :: "nat \<Rightarrow> bool" where
  "dumpable a \<longleftrightarrow> 0x20000000 \<le> a \<and> a < 0x80000000 \<or> 0x09000000 \<le> a \<and> a < 0x09001000 \<or> a < 0x1000000"

fun dump_mem :: "table_layout \<Rightarrow> u64 \<Rightarrow> nat \<Rightarrow> nat \<Rightarrow> ('s, 'g, unit) kact" where
  "dump_mem ly addr i 0 = ret ()"
| "dump_mem ly addr i (Suc n) =
     (if 2 ^ 64 \<le> unat addr + i then panic
      else
        bnd (if dumpable (unat addr + i) then on_mem (load_bytes ly (addr + of_nat i) 16) else ret []) (\<lambda>_.
        dump_mem ly addr (i + 16) n))"

definition a32_call :: "('s, 'g) kernel_env \<Rightarrow> int \<Rightarrow> trap_frame \<Rightarrow> ('s, 'g, trap_frame) kact" where
  "a32_call env num f =
     (case map_of fixed_answers num of
        Some (Inr v) \<Rightarrow> ret (set_ok v f)
      | Some (Inl e) \<Rightarrow> ret (set_err e f)
      | None \<Rightarrow>
          if num = 1 then park
          else if num = 3 \<or> num = 153 then sys_read env f
          else if num = 4 then bnd (sys_write env (tf_x f 0) (tf_x f 1) (tf_x f 2)) (\<lambda>_. ret f)
          else if num = 5 then sys_open env f
          else if num = 6 then sys_close f
          else if num = 20 then sys_getpid_a32 f
          else if num = 48 then sys_sigprocmask env f
          else if num = 116 then sys_gettimeofday env f
          else if num = 197 then sys_mmap env f
          else if num = 202 then sys_sysctl env f
          else if num = 316 then sys_getentropy env f
          else if num = 338 \<or> num = 340 then sys_stat env f
          else if num = 339 then sys_fstat env f
          else if num = 438 then sys_map_shared_region env f
          else bnd (dump_mem (ke_layout env) (of_nat (unat (tf_elr f AND NOT 0xF) - 32)) 0 4) (\<lambda>_. ret f))"

text \<open>\<open>syscall(num, ...)\<close> shifts its arguments and starts over. The fuel bounds these rounds.\<close>

definition shift_args :: "trap_frame \<Rightarrow> trap_frame" where
  "shift_args f = set_x 3 (tf_x f 4) (set_x 2 (tf_x f 3) (set_x 1 (tf_x f 2) (set_x 0 (tf_x f 1) f)))"

fun handle_a32_syscall_internal ::
  "('s, 'g) kernel_env \<Rightarrow> nat \<Rightarrow> int \<Rightarrow> trap_frame \<Rightarrow> ('s, 'g, trap_frame) kact" where
  "handle_a32_syscall_internal env 0 num f = spin"
| "handle_a32_syscall_internal env (Suc fuel) num f =
     (if num = 0 then handle_a32_syscall_internal env fuel (as_i32 (tf_x f 0)) (shift_args f)
      else a32_call env num f)"

definition INDIRECT_FUEL :: nat where "INDIRECT_FUEL = 6"

definition handle_a32_syscall :: "('s, 'g) kernel_env \<Rightarrow> u32 \<Rightarrow> trap_frame \<Rightarrow> ('s, 'g, trap_frame) kact" where
  "handle_a32_syscall env iss f =
     (let num = (if iss = 0x80 then as_i32 (tf_x f 12) else as_i32 (tf_x f 7)) in
      if num < 0 then handle_a32_mach_trap env num f
      else handle_a32_syscall_internal env INDIRECT_FUEL num f)"

section \<open>Calls of AArch64 programs\<close>

text \<open>A process that yields resumes, with its frame, when a later switch loads its registers.\<close>

definition sys_yield :: "('s, 'g, unit) kact" where
  "sys_yield = (\<lambda>k. case yield (kn_cpu k) (kn_sched k) of
     None \<Rightarrow> (Panic, k)
   | Some (cpu, sc) \<Rightarrow> (Ok (), k\<lparr>kn_cpu := cpu, kn_sched := sc\<rparr>))"

definition sys_spawn :: "('s, 'g) kernel_env \<Rightarrow> u64 \<Rightarrow> u64 \<Rightarrow> ('s, 'g, u64) kact" where
  "sys_spawn env fn_ptr arg = (\<lambda>k.
     let pid = kn_pids k;
         p = process_new pid (ke_starter env) (ke_stack env pid) fn_ptr 0 [arg] 0 True
     in (Ok pid, k\<lparr>kn_pids := pid + 1, kn_sched := add_process p (kn_sched k)\<rparr>))"

definition handle_a64_syscall :: "('s, 'g) kernel_env \<Rightarrow> trap_frame \<Rightarrow> ('s, 'g, trap_frame) kact" where
  "handle_a64_syscall env f =
     (let num = tf_x f 8 in
      if num = 0 then bnd sys_yield (\<lambda>_. ret f)
      else if num = 1 then park
      else if num = 2 then bnd (sys_write env (tf_x f 0) (tf_x f 1) (tf_x f 2)) (\<lambda>_. ret f)
      else if num = 3 then bnd (sys_spawn env (tf_x f 0) (tf_x f 1)) (\<lambda>pid. ret (set_x 0 pid f))
      else if num = 4 then ret (set_x 0 1 f)
      else ret f)"

section \<open>Exceptions\<close>

text \<open>The handler counts the exceptions, system calls among them.\<close>

definition count_exception :: "('s, 'g, unit) kact" where
  "count_exception = (\<lambda>k.
     if unat (kn_exceptions k) + 1 = 2 ^ 32 then (Panic, k)
     else
       let k' = k\<lparr>kn_exceptions := kn_exceptions k + 1\<rparr>
       in if 100 < kn_exceptions k' then (Err Parked, k') else (Ok (), k'))"

text \<open>What is dumped for an exception that is no system call.\<close>

definition dump_state :: "table_layout \<Rightarrow> u64 \<Rightarrow> u64 \<Rightarrow> trap_frame \<Rightarrow> ('s, 'g, unit) kact" where
  "dump_state ly ec far f =
     (let pc = (if tf_spsr f AND 0x10 \<noteq> 0 \<and> tf_spsr f AND 0x20 \<noteq> 0 then tf_elr f OR 1 else tf_elr f) in
      bnd (dump_mem ly (of_nat (unat (pc AND NOT 0x3F) - 64)) 0 8) (\<lambda>_.
      bnd (dump_mem ly (tf_sp_el0 f AND NOT 0x3F) 0 16) (\<lambda>_.
      if ec = 0x24 \<or> ec = 0x25 then dump_mem ly (far AND NOT 0x3F) 0 8 else ret ())))"

definition handle_sync_exception ::
  "('s, 'g) kernel_env \<Rightarrow> u64 \<Rightarrow> u64 \<Rightarrow> u64 \<Rightarrow> trap_frame \<Rightarrow> ('s, 'g, trap_frame) kact" where
  "handle_sync_exception env esr far sp_el0 fr =
     bnd count_exception (\<lambda>_.
     let f = fr\<lparr>tf_sp_el0 := sp_el0\<rparr>; ec = drop_bit 26 esr; iss = esr AND 0x1FFFFFF in
     if ec = 0x15 then handle_a64_syscall env f
     else if ec = 0x11 then handle_a32_syscall env (low32 iss) f
     else bnd (dump_state (ke_layout env) ec far f) (\<lambda>_. park))"

end
