(* ===== verification/KernelInv.thy ===== *)
theory KernelInv
  imports Traps
begin

text \<open>
  The invariant of the kernel state: file tables of 32 slots, contexts of 13 registers, well-formed
  port spaces, distinct process identifiers below the counter. It is stated over the part of the
  state that only few actions change (the \<open>core\<close>); the others are \<open>quiet\<close>.
\<close>

section \<open>The invariant\<close>

definition proc_ok :: "process \<Rightarrow> bool" where
  "proc_ok p \<longleftrightarrow> length (pr_files p) = 32 \<and> length (pr_context p) = 13 \<and> space_ok (pr_ipc p)"

definition procs :: "scheduler \<Rightarrow> process list" where
  "procs sc = (case sc_current sc of None \<Rightarrow> [] | Some p \<Rightarrow> [p]) @ sc_processes sc"

definition sched_ok :: "u64 \<Rightarrow> scheduler \<Rightarrow> bool" where
  "sched_ok n sc \<longleftrightarrow> (\<forall>p \<in> set (procs sc). proc_ok p \<and> pr_pid p < n) \<and> distinct (map pr_pid (procs sc))"

text \<open>While a trap is handled: the counters are known.\<close>

definition running :: "u64 \<Rightarrow> u32 \<Rightarrow> ('s, 'g) kernel \<Rightarrow> bool" where
  "running n e k \<longleftrightarrow> sched_ok n (kn_sched k) \<and> length (kn_cpu k) = 13 \<and> kn_pids k = n \<and> kn_exceptions k = e"

definition running_as :: "u64 \<Rightarrow> u32 \<Rightarrow> process \<Rightarrow> ('s, 'g) kernel \<Rightarrow> bool" where
  "running_as n e p k \<longleftrightarrow> running n e k \<and> sc_current (kn_sched k) = Some p"

definition kernel_ok :: "('s, 'g) kernel \<Rightarrow> bool" where
  "kernel_ok k \<longleftrightarrow> sched_ok (kn_pids k) (kn_sched k) \<and> length (kn_cpu k) = 13 \<and>
     unat (kn_pids k) \<le> unat (kn_exceptions k) + 2 \<and> kn_exceptions k \<le> 100"

lemma running_asD: "running_as n e p k \<Longrightarrow> running n e k"
  by (simp add: running_as_def)

lemma running_as_proc: "running_as n e p k \<Longrightarrow> proc_ok p"
  by (auto simp: running_as_def running_def sched_ok_def procs_def)

section \<open>Triples\<close>

named_theorems holds_rules \<open>what the actions keep\<close>
named_theorems quiet_rules \<open>actions that leave the core alone\<close>

text \<open>If the action returns, what it returns satisfies the second predicate.\<close>

definition holds :: "('k \<Rightarrow> bool) \<Rightarrow> ('k, 'e, 'a) act \<Rightarrow> ('a \<Rightarrow> 'k \<Rightarrow> bool) \<Rightarrow> bool" where
  "holds P m Q \<longleftrightarrow> (\<forall>k a k'. P k \<longrightarrow> m k = (Ok a, k') \<longrightarrow> Q a k')"

lemma holdsD: "holds P m Q \<Longrightarrow> P k \<Longrightarrow> m k = (Ok a, k') \<Longrightarrow> Q a k'"
  by (simp add: holds_def)

lemma holds_bnd: "holds P m Q \<Longrightarrow> (\<And>a. holds (Q a) (f a) R) \<Longrightarrow> holds P (bnd m f) R"
  unfolding holds_def by (metis bnd_eq_Ok)

lemma holds_ret: "(\<And>k. P k \<Longrightarrow> Q a k) \<Longrightarrow> holds P (ret a) Q"
  by (simp add: holds_def ret_def)

lemma holds_fail: "holds P (fail e) Q" "holds P panic Q" "holds P spin Q"
  by (simp_all add: holds_def fail_def panic_def spin_def)

lemma holds_pre: "holds P m Q \<Longrightarrow> (\<And>k. P' k \<Longrightarrow> P k) \<Longrightarrow> holds P' m Q"
  by (auto simp: holds_def)

definition core :: "('s, 'g) kernel \<Rightarrow> scheduler \<times> u64 \<times> u64 list \<times> u32" where
  "core k = (kn_sched k, kn_pids k, kn_cpu k, kn_exceptions k)"

definition quiet :: "('s, 'g, 'a) kact \<Rightarrow> bool" where
  "quiet m \<longleftrightarrow> (\<forall>k. core (snd (m k)) = core k)"

lemma quiet_bnd: "quiet m \<Longrightarrow> (\<And>a. quiet (f a)) \<Longrightarrow> quiet (bnd m f)"
proof (unfold quiet_def, intro allI)
  fix k
  assume m: "\<forall>k. core (snd (m k)) = core k" and f: "\<And>a. \<forall>k. core (snd (f a k)) = core k"
  obtain r k' where e: "m k = (r, k')" by (cases "m k")
  then have "core k' = core k" using m by (metis snd_conv)
  then show "core (snd (bnd m f k)) = core k"
    using f by (cases r) (simp_all add: bnd_def e)
qed

lemma quiet_basic [quiet_rules]:
  "quiet (ret a)" "quiet (fail e)" "quiet panic" "quiet spin" "quiet get_current" "quiet (on_mem m)"
  "quiet (on_fs v)" "quiet (map_memory env perm va pa n)" "quiet (next_region w)" "quiet tick"
  by (auto simp: quiet_def core_def ret_def fail_def panic_def spin_def get_current_def on_mem_def on_fs_def
      map_memory_def next_region_def tick_def Let_def split: prod.split res.split option.split)

lemma core_heap: "core (k\<lparr>kn_heap := h\<rparr>) = core k"
  by (simp add: core_def)

lemma quiet_alloc_zeroed [quiet_rules]: "quiet (alloc_zeroed env len)"
  unfolding quiet_def
proof
  fix k
  show "core (snd (alloc_zeroed env len k)) = core k"
  proof (cases "ke_alloc env (kn_heap k) len")
    case None
    then show ?thesis by (simp add: alloc_zeroed_def)
  next
    case (Some p)
    have "quiet (bnd (on_mem (store_bytes (ke_layout env) p (replicate len 0))) (\<lambda>_. ret (Some p)))"
      by (intro quiet_bnd quiet_rules)
    then have "core (snd (bnd (on_mem (store_bytes (ke_layout env) p (replicate len 0))) (\<lambda>_. ret (Some p))
        (k\<lparr>kn_heap := h\<rparr>))) = core k" for h
      unfolding quiet_def by (metis core_heap)
    then show ?thesis by (simp add: alloc_zeroed_def Some)
  qed
qed

lemma quiet_user_path [quiet_rules]: "quiet (user_path env va s)"
  unfolding user_path_def by (intro quiet_bnd quiet_rules)

lemma quiet_dump_mem [quiet_rules]: "quiet (dump_mem ly addr i n)"
  by (induction n arbitrary: i) (auto intro!: quiet_bnd quiet_rules)

lemma quiet_sys_write [quiet_rules]: "quiet (sys_write env fd buf len)"
proof -
  have "quiet (\<lambda>k. (Ok (), case utf8_decode bs of Some s \<Rightarrow> k\<lparr>kn_console := kn_console k @ [s]\<rparr> | None \<Rightarrow> k))" for bs
    by (auto simp: quiet_def core_def split: option.split)
  then show ?thesis unfolding sys_write_def by (auto intro!: quiet_bnd quiet_rules)
qed

lemma quiet_running: "quiet m \<Longrightarrow> holds (running n e) m (\<lambda>_. running n e)"
  unfolding holds_def quiet_def core_def running_def by (metis snd_conv prod.inject)

lemma quiet_running_as: "quiet m \<Longrightarrow> holds (running_as n e p) m (\<lambda>_. running_as n e p)"
  unfolding holds_def quiet_def core_def running_def running_as_def by (metis snd_conv prod.inject)

text \<open>Rules for the actions that are not quiet.\<close>

lemma holds_get_current:
  "holds (running n e) get_current
     (\<lambda>cur. case cur of None \<Rightarrow> running n e | Some p \<Rightarrow> running_as n e p)"
  by (auto simp: holds_def get_current_def running_as_def split: option.split)

lemma sched_ok_current:
  assumes "sched_ok n sc" and "sc_current sc = Some p" and "proc_ok p'" and "pr_pid p' = pr_pid p"
  shows "sched_ok n (sc\<lparr>sc_current := Some p'\<rparr>)"
  using assms by (simp add: sched_ok_def procs_def)

lemma holds_set_current:
  assumes "proc_ok p'" and "pr_pid p' = pr_pid p"
  shows "holds (running_as n e p) (set_current p') (\<lambda>_. running n e)"
  using sched_ok_current assms by (auto simp: holds_def set_current_def running_as_def running_def)

lemma holds_set_file: "holds (running_as n e p) (set_file p fd h) (\<lambda>_. running n e)"
proof (cases "proc_ok p")
  case True
  then show ?thesis
    unfolding set_file_def by (intro holds_set_current) (simp_all add: proc_ok_def)
next
  case False
  then show ?thesis using running_as_proc by (auto simp: holds_def)
qed

lemma holds_set_mask: "holds (running_as n e p) (set_current (p\<lparr>pr_mask := m\<rparr>)) (\<lambda>_. running n e)"
proof (cases "proc_ok p")
  case True
  then show ?thesis by (intro holds_set_current) (simp_all add: proc_ok_def)
next
  case False
  then show ?thesis using running_as_proc by (auto simp: holds_def)
qed

lemma holds_on_ipc:
  assumes "keeps m"
  shows "holds (running_as n e p) (on_ipc p m) (\<lambda>_. running n e)"
  unfolding holds_def
proof (intro allI impI)
  fix k a k'
  assume r: "running_as n e p k" and m: "on_ipc p m k = (Ok a, k')"
  obtain res s sp where e: "m (kn_vm k, pr_ipc p) = (res, (s, sp))" by (metis prod.collapse)
  have "proc_ok p" using r by (rule running_as_proc)
  moreover have "space_ok sp"
    using assms calculation unfolding keeps_def proc_ok_def by (metis e snd_conv)
  ultimately have "proc_ok (p\<lparr>pr_ipc := sp\<rparr>)" by (simp add: proc_ok_def)
  then show "running n e k'"
    using r m e sched_ok_current [of n "kn_sched k" p "p\<lparr>pr_ipc := sp\<rparr>"]
    by (auto simp: on_ipc_def running_as_def running_def)
qed

section \<open>System calls\<close>

text \<open>A call keeps the invariant.\<close>

definition safe :: "u64 \<Rightarrow> u32 \<Rightarrow> ('s, 'g, 'a) kact \<Rightarrow> bool" where
  "safe n e m \<longleftrightarrow> holds (running n e) m (\<lambda>_. running n e)"

lemma safe_quiet: "quiet m \<Longrightarrow> safe n e m"
  by (simp add: safe_def quiet_running)

lemma safe_bnd: "safe n e m \<Longrightarrow> (\<And>a. safe n e (f a)) \<Longrightarrow> safe n e (bnd m f)"
  unfolding safe_def by (rule holds_bnd)

lemma safe_ret: "safe n e (ret a)"
  by (intro safe_quiet quiet_rules)

lemma safe_current:
  assumes "safe n e (f None)" and "\<And>p. holds (running_as n e p) (f (Some p)) (\<lambda>_. running n e)"
  shows "safe n e (bnd get_current f)"
  unfolding safe_def
proof (rule holds_bnd [OF holds_get_current])
  fix cur
  show "holds (case cur of None \<Rightarrow> running n e | Some p \<Rightarrow> running_as n e p) (f cur) (\<lambda>_. running n e)"
    using assms by (cases cur) (simp_all add: safe_def)
qed

text \<open>The same while the current process is known.\<close>

lemma as_quiet:
  assumes "quiet m" and "\<And>a. holds (running_as n e p) (f a) Q"
  shows "holds (running_as n e p) (bnd m f) Q"
  by (rule holds_bnd [OF quiet_running_as [OF assms(1)] assms(2)])

lemma as_safe: "safe n e m \<Longrightarrow> holds (running_as n e p) m (\<lambda>_. running n e)"
  unfolding safe_def by (erule holds_pre) (rule running_asD)

lemma as_then:
  assumes "holds (running_as n e p) m (\<lambda>_. running n e)" and "\<And>a. safe n e (f a)"
  shows "holds (running_as n e p) (bnd m f) (\<lambda>_. running n e)"
  using assms unfolding safe_def by (rule holds_bnd)

lemmas quiet_steps = safe_quiet quiet_bnd quiet_rules

lemma quiet_parts: "quiet (on_mem m)" "quiet (on_fs v)"
  by (intro quiet_rules)+

lemma as_ret: "holds (running_as n e p) (ret a) (\<lambda>_. running n e)"
  by (rule holds_ret) (rule running_asD)

lemma safe_option:
  "safe n e a \<Longrightarrow> (\<And>x. safe n e (b x)) \<Longrightarrow> safe n e (case r of None \<Rightarrow> a | Some x \<Rightarrow> b x)"
  by (cases r) simp_all

lemma safe_read_fd: "safe n e (read_fd env fd buf len)"
  unfolding read_fd_def
proof (rule safe_current)
  fix p
  have "holds (running_as n e p) (bnd (on_fs (file_read (ke_vfs env) h len)) (\<lambda>(bs, h').
      bnd (set_file p fd (Some h')) (\<lambda>_. bnd (on_mem (store_bytes (ke_layout env) buf bs)) (\<lambda>_. ret (length bs)))))
      (\<lambda>_. running n e)" for h
    by (rule as_quiet [OF quiet_parts(2)]) (auto intro!: as_then [OF holds_set_file] quiet_steps)
  then show "holds (running_as n e p) (case Some p of None \<Rightarrow> ret 0 | Some p \<Rightarrow> (case file_at p fd of None \<Rightarrow> ret 0
    | Some h \<Rightarrow> bnd (on_fs (file_read (ke_vfs env) h len)) (\<lambda>(bs, h').
        bnd (set_file p fd (Some h')) (\<lambda>_. bnd (on_mem (store_bytes (ke_layout env) buf bs)) (\<lambda>_. ret (length bs))))))
    (\<lambda>_. running n e)"
    by (auto split: option.split intro: as_ret)
qed (simp add: safe_ret)

lemma safe_seek_fd: "safe n e (seek_fd fd off)"
  unfolding seek_fd_def
  by (rule safe_current)
    (auto split: option.split intro!: safe_ret as_quiet holds_set_file quiet_rules as_safe [OF safe_ret])

lemma safe_sys_read: "safe n e (sys_read env f)"
  unfolding sys_read_def by (intro safe_bnd safe_read_fd safe_ret)

lemma safe_sys_open: "safe n e (sys_open env f)"
proof -
  have o: "holds (running_as n e p) (case free_fd 0 (pr_files p) of
      Some fd \<Rightarrow> bnd (set_file p fd (Some h)) (\<lambda>_. ret (set_ok (of_nat fd) f))
    | None \<Rightarrow> ret (set_err 24 f)) (\<lambda>_. running n e)" for p h
    by (auto split: option.split intro!: as_then [OF holds_set_file] safe_ret as_ret)
  have "safe n e (bnd get_current (\<lambda>cur. case cur of None \<Rightarrow> ret f | Some p \<Rightarrow> (case free_fd 0 (pr_files p) of
      Some fd \<Rightarrow> bnd (set_file p fd (Some h)) (\<lambda>_. ret (set_ok (of_nat fd) f))
    | None \<Rightarrow> ret (set_err 24 f))))" for h
    by (rule safe_current) (simp_all add: safe_ret o)
  then show ?thesis
    unfolding sys_open_def
    by (auto split: option.split intro!: safe_ret safe_bnd [OF safe_quiet [OF quiet_user_path]]
        safe_bnd [OF safe_quiet [OF quiet_parts(2)]])
qed

lemma safe_sys_close: "safe n e (sys_close f)"
  unfolding sys_close_def
  by (rule safe_current) (auto intro!: as_then holds_set_file safe_ret as_safe [OF safe_ret])

lemma safe_sys_stat: "safe n e (sys_stat env f)"
  unfolding sys_stat_def by (auto split: option.split intro!: quiet_steps)

lemma safe_sys_fstat: "safe n e (sys_fstat env f)"
  unfolding sys_fstat_def by (auto split: option.split intro!: quiet_steps)

lemma safe_sys_sigprocmask: "safe n e (sys_sigprocmask env f)"
proof -
  have set_mask: "holds (running_as n e p) (case r of None \<Rightarrow> ret (set_err 22 f)
      | Some m \<Rightarrow> bnd (set_current (p\<lparr>pr_mask := m\<rparr>)) (\<lambda>_. ret (set_ok 0 f))) (\<lambda>_. running n e)" for p r
    by (auto split: option.split intro: as_ret as_then [OF holds_set_mask] safe_ret)
  have old: "quiet (if p = 0 then ret () else on_mem m)" for p :: u64 and m
    by (auto intro: quiet_rules)
  show ?thesis
    unfolding sys_sigprocmask_def Let_def
    by (rule safe_current) (auto simp: safe_ret intro!: as_quiet [OF old] as_ret as_quiet [OF quiet_parts(1)] set_mask)
qed

lemma safe_sys_mmap: "safe n e (sys_mmap env f)"
proof -
  have addr: "quiet (if a = 0 then next_region len else ret a)" for a len by (auto intro: quiet_rules)
  have body: "safe n e (bnd (map_memory env UserRWX a b len) (\<lambda>_. bnd (if fd = -1 then ret 0 else read_fd env i a m)
      (\<lambda>_. ret (set_ok a f))))" for a b len i m and fd :: int
    by (auto intro!: safe_bnd safe_read_fd safe_ret safe_quiet [OF quiet_basic(8)])
  show ?thesis
    unfolding sys_mmap_def Let_def
    by (intro safe_bnd [OF safe_quiet [OF addr]] safe_bnd [OF safe_quiet [OF quiet_alloc_zeroed]] safe_option safe_ret body)
qed

lemma safe_read_chunks: "safe n e (read_chunks env fd va m)"
proof (induction env fd va m rule: read_chunks.induct)
  case (1 env fd va m)
  show ?case
  proof (cases "m = 0")
    case True
    then show ?thesis by (simp add: read_chunks.simps safe_ret)
  next
    case False
    with 1 have "safe n e (bnd (read_fd env fd va (min 4096 m))
        (\<lambda>_. read_chunks env fd (va + of_nat (min 4096 m)) (m - min 4096 m)))"
      by (intro safe_bnd safe_read_fd) auto
    then show ?thesis using False by (simp add: read_chunks.simps [of env fd va m])
  qed
qed

lemma safe_map_segment: "safe n e (map_segment env fd sz m)"
proof -
  have "safe n e (bnd (alloc_zeroed env d) (\<lambda>phys. case phys of None \<Rightarrow> panic
      | Some paddr \<Rightarrow> bnd (map_memory env UserRWX a paddr w) (\<lambda>_. bnd (seek_fd fd off) (\<lambda>_. read_chunks env fd a d))))" for d a w off
    by (intro safe_bnd [OF safe_quiet [OF quiet_alloc_zeroed]] safe_option safe_quiet [OF quiet_basic(3)]
        safe_bnd [OF safe_quiet [OF quiet_basic(8)]] safe_bnd [OF safe_seek_fd] safe_read_chunks)
  then show ?thesis by (simp add: map_segment_def Let_def safe_ret)
qed

lemma safe_map_segments: "safe n e (map_segments env fd sz mappings m)"
  by (induction m arbitrary: mappings)
    (auto intro!: safe_ret safe_bnd [OF safe_quiet [OF quiet_parts(1)]] safe_bnd [OF safe_map_segment])

lemma safe_sys_map_shared_region: "safe n e (sys_map_shared_region env f)"
proof -
  have "safe n e (case r of None \<Rightarrow> ret () | Some h \<Rightarrow> map_segments env fd (file_size h) a m)" for r fd a m
    by (intro safe_option safe_ret safe_map_segments)
  then show ?thesis
    unfolding sys_map_shared_region_def Let_def
    by (intro safe_bnd [OF safe_quiet [OF quiet_basic(5)]] safe_bnd safe_ret)
qed

lemma quiet_sys_sysctl [quiet_rules]: "quiet (sys_sysctl env f)"
  unfolding sys_sysctl_def Let_def
  by (auto split: sysctl_entry.split option.split intro!: quiet_bnd quiet_rules)

lemma quiet_small_calls [quiet_rules]: "quiet (sys_getpid_a32 f)" "quiet (sys_gettimeofday env f)" "quiet (sys_getentropy env f)"
  unfolding sys_getpid_a32_def sys_gettimeofday_def sys_getentropy_def Let_def
  by (auto intro!: quiet_bnd quiet_rules)

lemma safe_a32_call: "safe n e (a32_call env num f)"
proof (cases "map_of fixed_answers num")
  case None
  show ?thesis
    unfolding a32_call_def None option.case
    by (auto simp: park_def intro!: safe_quiet [OF quiet_basic(2)] safe_sys_read safe_sys_open safe_sys_close
        safe_sys_sigprocmask safe_sys_mmap safe_sys_stat safe_sys_fstat safe_sys_map_shared_region
        safe_quiet [OF quiet_sys_sysctl] safe_quiet [OF quiet_small_calls(1)] safe_quiet [OF quiet_small_calls(2)]
        safe_quiet [OF quiet_small_calls(3)] safe_bnd [OF safe_quiet [OF quiet_sys_write]]
        safe_bnd [OF safe_quiet [OF quiet_dump_mem]] safe_ret)
next
  case (Some r)
  then show ?thesis by (cases r) (simp_all add: a32_call_def safe_ret)
qed

lemma safe_a32_internal: "safe n e (handle_a32_syscall_internal env fuel num f)"
  by (induction env fuel num f rule: handle_a32_syscall_internal.induct)
    (simp_all add: safe_a32_call safe_quiet [OF quiet_basic(4)])

section \<open>Traps\<close>

lemma keeps_on_ports: "(\<And>sp. space_ok sp \<Longrightarrow> space_ok (snd (m sp))) \<Longrightarrow> keeps (on_ports m)"
  by (simp add: keeps_def on_ports_def split: prod.split) (metis snd_conv)

lemma allocate_port_ok:
  assumes "space_ok sp"
  shows "space_ok (snd (allocate_port sp :: (fault, u32) res \<times> ipc_space))"
proof (cases "unat (sp_next_name sp) + 1 < 2 ^ 32")
  case True
  with allocate_port_fresh [OF assms] show ?thesis by (metis snd_conv)
next
  case False
  moreover have "unat (sp_next_name sp) < 2 ^ 32" using unsigned_less [of "sp_next_name sp"] by simp
  ultimately show ?thesis using assms by (simp add: allocate_port_def Let_def)
qed

lemma safe_mach_reply_port: "safe n e mach_reply_port"
  unfolding mach_reply_port_def
  by (rule safe_current)
    (auto intro!: safe_ret as_then [OF holds_on_ipc [OF keeps_on_ports]] allocate_port_ok)

lemma safe_mach_msg_trap: "safe n e (mach_msg_trap env f)"
  unfolding mach_msg_trap_def Let_def
  by (rule safe_current)
    (auto intro!: safe_ret as_then [OF holds_on_ipc [OF mach_msg_keeps]] quiet_steps)

lemma safe_mach_trap: "safe n e (handle_a32_mach_trap env num f)"
proof -
  have "quiet (mach_timebase_info env f)"
    unfolding mach_timebase_info_def Let_def by (auto intro!: quiet_bnd quiet_rules)
  then show ?thesis
    unfolding handle_a32_mach_trap_def
    by (auto intro!: safe_ret safe_bnd [OF safe_mach_reply_port] safe_bnd [OF safe_mach_msg_trap]
        safe_bnd [OF safe_quiet])
qed

lemma safe_a32_syscall: "safe n e (handle_a32_syscall env iss f)"
  by (simp add: handle_a32_syscall_def Let_def safe_mach_trap safe_a32_internal)

text \<open>The calls of AArch64 programs: a switch and a new process.\<close>

lemma proc_ok_context: "proc_ok p \<Longrightarrow> length cpu = 13 \<Longrightarrow> proc_ok (p\<lparr>pr_context := cpu\<rparr>)"
  by (simp add: proc_ok_def)

lemma yield_ok:
  assumes "sched_ok n sc" and "length cpu = 13" and "yield cpu sc = Some (cpu', sc')"
  shows "sched_ok n sc' \<and> length cpu' = 13"
proof (cases "sc_processes sc")
  case Nil
  then show ?thesis using assms by (auto simp: yield_def schedule_next_def)
next
  case (Cons q rest)
  then obtain p where p: "sc_current sc = Some p \<or> sc_current sc = None \<and> rest \<noteq> []"
    using assms(3) by (cases "sc_current sc") (auto simp: yield_def schedule_next_def Let_def split: if_splits)
  have q: "proc_ok q" using assms(1) Cons by (simp add: sched_ok_def procs_def)
  show ?thesis
  proof (cases "sc_current sc")
    case None
    with p have "rest \<noteq> []" by simp
    then obtain rs l where r: "rest = rs @ [l]" by (metis rev_exhaust)
    have s: "sc' = sc\<lparr>sc_processes := rs @ [l\<lparr>pr_context := cpu\<rparr>], sc_current := Some q\<rparr>" "cpu' = pr_context q"
      using assms(3) None Cons r
      by (auto simp: yield_def schedule_next_def switch_to_def Let_def list_update_append)
    show ?thesis
      using assms(1,2) None Cons q r by (auto simp: s sched_ok_def procs_def proc_ok_def)
  next
    case (Some c)
    have s: "sc' = sc\<lparr>sc_processes := rest @ [c\<lparr>pr_state := Ready, pr_context := cpu\<rparr>], sc_current := Some q\<rparr>"
      "cpu' = pr_context q"
      using assms(3) Some Cons
      by (auto simp: yield_def schedule_next_def switch_to_def Let_def list_update_append)
    show ?thesis
      using assms(1,2) Some Cons q by (auto simp: s sched_ok_def procs_def proc_ok_def)
  qed
qed

lemma process_new_ok: "proc_ok (process_new pid starter stack entry sp args tls is64)"
  by (simp add: process_new_def proc_ok_def Let_def set_args_def space_ok_new split: prod.split)

lemma add_process_ok:
  assumes "sched_ok n sc" and "proc_ok p" and "pr_pid p = n" and "n < n'"
  shows "sched_ok n' (add_process p sc)"
proof -
  have "procs (add_process p sc) = procs sc @ [p]" by (simp add: procs_def add_process_def)
  then show ?thesis using assms by (fastforce simp: sched_ok_def)
qed

lemma holds_yield: "holds (running n e) sys_yield (\<lambda>_. running n e)"
  unfolding holds_def
proof (intro allI impI)
  fix k a k'
  assume r: "running n e k" and y: "sys_yield k = (Ok a, k')"
  then obtain cpu sc where c: "yield (kn_cpu k) (kn_sched k) = Some (cpu, sc)"
    "k' = k\<lparr>kn_cpu := cpu, kn_sched := sc\<rparr>"
    by (auto simp: sys_yield_def split: option.splits)
  show "running n e k'" using yield_ok [of n "kn_sched k" "kn_cpu k" cpu sc] r c by (simp add: running_def)
qed

text \<open>The counter of process identifiers after a trap.\<close>

lemma a64_pids:
  assumes "running n e k" and "unat n + 1 < 2 ^ 64" and "handle_a64_syscall env f k = (Ok f', k')"
  shows "running n e k' \<or> running (n + 1) e k'"
proof (cases "tf_x f 8 = 3")
  case True
  have "n < n + 1" using assms(2) by (simp add: word_less_nat_alt unat_word_ariths)
  moreover have "pr_pid (process_new n (ke_starter env) (ke_stack env n) (tf_x f 0) 0 [tf_x f 1] 0 True) = n"
    by (simp add: process_new_def Let_def entry_state_def)
  ultimately have "sched_ok (n + 1) (add_process (process_new n (ke_starter env) (ke_stack env n) (tf_x f 0) 0
      [tf_x f 1] 0 True) (kn_sched k))"
    using assms(1) by (intro add_process_ok [where n = n]) (simp_all add: running_def process_new_ok)
  moreover have "k' = snd (sys_spawn env (tf_x f 0) (tf_x f 1) k)"
    using assms(3) True by (auto simp: handle_a64_syscall_def Let_def bnd_eq_Ok ret_def)
  ultimately show ?thesis using assms(1) by (auto simp: sys_spawn_def Let_def running_def)
next
  case False
  have "holds (running n e) (handle_a64_syscall env f) (\<lambda>_. running n e)"
    unfolding handle_a64_syscall_def Let_def safe_def [symmetric] using False
    by (auto simp: park_def intro!: safe_ret safe_bnd [OF holds_yield [folded safe_def]]
        safe_quiet [OF quiet_basic(2)] safe_bnd [OF safe_quiet [OF quiet_sys_write]])
  from holdsD [OF this assms(1,3)] show ?thesis by simp
qed

theorem exception_keeps:
  assumes "kernel_ok k" and "handle_sync_exception env esr far sp_el0 f k = (Ok f', k')"
  shows "kernel_ok k' \<and> unat (kn_exceptions k') = unat (kn_exceptions k) + 1"
proof -
  let ?e = "kn_exceptions k + 1" and ?n = "kn_pids k" and ?k = "k\<lparr>kn_exceptions := kn_exceptions k + 1\<rparr>"
  have le: "unat (kn_exceptions k) \<le> 100" using assms(1) by (simp add: kernel_ok_def word_le_nat_alt)
  then have e: "unat ?e = unat (kn_exceptions k) + 1" by (simp add: unat_word_ariths)
  let ?f = "f\<lparr>tf_sp_el0 := sp_el0\<rparr>" and ?ec = "drop_bit 26 esr"
  have c: "?e \<le> 100" and run: "(if ?ec = 0x15 then handle_a64_syscall env ?f
      else if ?ec = 0x11 then handle_a32_syscall env (low32 (esr AND 0x1FFFFFF)) ?f
      else bnd (dump_state (ke_layout env) ?ec far ?f) (\<lambda>_. park)) ?k = (Ok f', k')"
    using assms(2) le
    by (auto simp: handle_sync_exception_def bnd_eq_Ok count_exception_def Let_def split: if_splits)
  have r: "running ?n ?e ?k" using assms(1) by (simp add: kernel_ok_def running_def)
  have n: "unat ?n \<le> unat (kn_exceptions k) + 2" using assms(1) by (simp add: kernel_ok_def)
  have park: "\<not> (\<exists>a k1. bnd m (\<lambda>_. park) k0 = (Ok a, k1))" for m :: "('s, 'g, unit) kact" and k0
    by (auto simp: bnd_eq_Ok park_def fail_def)
  consider "handle_a64_syscall env ?f ?k = (Ok f', k')" | "handle_a32_syscall env (low32 (esr AND 0x1FFFFFF)) ?f ?k = (Ok f', k')"
    using run by (auto simp: bnd_eq_Ok park_def fail_def split: if_splits)
  then have "running ?n ?e k' \<or> running (?n + 1) ?e k'"
  proof cases
    case 1
    then show ?thesis using a64_pids [OF r] n le by simp
  next
    case 2
    from holdsD [OF safe_a32_syscall [unfolded safe_def] r 2] show ?thesis by simp
  qed
  moreover have "unat (?n + 1) \<le> unat (kn_exceptions k) + 3"
    using n le by (simp add: unat_word_ariths)
  ultimately show ?thesis using c e n by (auto simp: kernel_ok_def running_def)
qed

section \<open>Traps that are system calls\<close>

text \<open>A trap of an AArch32 program by \<open>SVC\<close>, with the number in r12 for \<open>SVC 0x80\<close> and in r7 else.\<close>

definition svc :: "u64 \<Rightarrow> u64" where
  "svc iss = 0x44000000 OR iss"

lemma svc_syndrome:
  assumes "iss < 0x2000000"
  shows "drop_bit 26 (svc iss) = 0x11" "svc iss AND 0x1FFFFFF = iss"
proof -
  have m: "iss AND 0x1FFFFFF = iss"
  proof -
    have "unat iss < 2 ^ 25" using assms by (simp add: word_less_nat_alt)
    then have "take_bit 25 iss = iss"
      by (simp only: word_unat_eq_iff unsigned_take_bit_eq take_bit_nat_eq_self)
    then show ?thesis by (simp add: take_bit_eq_mask mask_eq_exp_minus_1)
  qed
  show "svc iss AND 0x1FFFFFF = iss"
    by (simp add: svc_def m bit.conj_disj_distrib2)
  have "drop_bit 26 iss = 0"
    by (subst m [symmetric]) (simp add: drop_bit_and)
  then show "drop_bit 26 (svc iss) = 0x11" by (simp add: svc_def drop_bit_or)
qed

lemma trap_a32:
  assumes "kn_exceptions k < 100" and "iss < 0x2000000"
  shows "handle_sync_exception env (svc iss) far sp_el0 f k =
    handle_a32_syscall env (low32 iss) (f\<lparr>tf_sp_el0 := sp_el0\<rparr>) (k\<lparr>kn_exceptions := kn_exceptions k + 1\<rparr>)"
proof -
  have e: "unat (kn_exceptions k) < 100" using assms(1) by (simp add: word_less_nat_alt)
  then have "unat (kn_exceptions k + 1) = unat (kn_exceptions k) + 1" by (simp add: unat_word_ariths)
  then have "\<not> 100 < kn_exceptions k + 1" using e by (simp add: word_less_nat_alt)
  then have "count_exception k = (Ok (), k\<lparr>kn_exceptions := kn_exceptions k + 1\<rparr>)"
    using e by (simp add: count_exception_def Let_def)
  then show ?thesis
    using svc_syndrome [OF assms(2)]
    by (simp add: handle_sync_exception_def bnd_Ok [where m = count_exception] Let_def)
qed

lemma bsd_call:
  assumes "as_i32 (if iss = 0x80 then tf_x f 12 else tf_x f 7) = num" and "0 < num"
  shows "handle_a32_syscall env iss f = a32_call env num f"
  using assms by (auto simp: handle_a32_syscall_def Let_def INDIRECT_FUEL_def numeral_eq_Suc split: if_splits)

end
