(* ===== verification/Virtio.thy ===== *)
theory Virtio
  imports HfsIo
begin

text \<open>
  The block device driver (\<open>src/src/kernel/src/virtio.rs\<close>): the virtqueue request of
  \<open>read_sectors\<close> and the byte addressed \<open>read_at\<close> on top of it. The device itself is hardware: it is a
  parameter that sees the descriptor chain of the request. The search of the PCI bus and the
  set-up of the device are in \<open>VirtioInit\<close>; the cache operations of a request are left out.
\<close>

section \<open>The virtqueue\<close>

definition QUEUE_SIZE :: nat where "QUEUE_SIZE = 16"
definition VIRTIO_BLK_T_IN :: u32 where "VIRTIO_BLK_T_IN = 0"
definition VIRTQ_DESC_F_NEXT :: u16 where "VIRTQ_DESC_F_NEXT = 1"
definition VIRTQ_DESC_F_WRITE :: u16 where "VIRTQ_DESC_F_WRITE = 2"

text \<open>What a descriptor points to is named instead of addressed.\<close>

record virtio_blk_req =
  rq_type :: u32
  rq_reserved :: u32
  rq_sector :: nat

datatype desc_target = NoTarget | ReqBuf | DataBuf | StatusBuf

record virtq_desc =
  vd_addr :: desc_target
  vd_len :: nat
  vd_flags :: u16
  vd_next :: nat

record virtio_blk =
  vb_desc :: "virtq_desc list"
  vb_avail_idx :: u16
  vb_avail_ring :: "nat list"
  vb_used_idx :: u16
  vb_last_used_idx :: u16
  vb_req_buf :: virtio_blk_req
  vb_status_buf :: u8
  vb_next_desc_idx :: nat

text \<open>
  \<open>device b n\<close>: what the driver observes when it has notified the device and polled: the used
  index at the end of the polling, the status byte, and the content of the data buffer of
  \<open>n\<close> bytes. The used index is the old one when the device did not answer in 1000001 polls.
\<close>

type_synonym virtio_device = "virtio_blk \<Rightarrow> nat \<Rightarrow> u16 \<times> u8 \<times> bytes"

definition allocate_desc :: "virtio_blk \<Rightarrow> nat \<times> virtio_blk" where
  "allocate_desc b =
     (vb_next_desc_idx b, b\<lparr>vb_next_desc_idx := (vb_next_desc_idx b + 1) mod QUEUE_SIZE\<rparr>)"

text \<open>The request is written, its three descriptors are chained, the head goes to the ring.\<close>

definition queue_request :: "nat \<Rightarrow> nat \<Rightarrow> virtio_blk \<Rightarrow> virtio_blk" where
  "queue_request sector n b0 =
     (let b1 = b0\<lparr>vb_req_buf := \<lparr>rq_type = VIRTIO_BLK_T_IN, rq_reserved = 0, rq_sector = sector\<rparr>,
            vb_status_buf := 0xFF\<rparr>;
          (h, b2) = allocate_desc b1;
          (d, b3) = allocate_desc b2;
          (s, b4) = allocate_desc b3;
          desc = (vb_desc b4)
            [h := \<lparr>vd_addr = ReqBuf, vd_len = 16, vd_flags = VIRTQ_DESC_F_NEXT, vd_next = d\<rparr>,
             d := \<lparr>vd_addr = DataBuf, vd_len = n mod 2 ^ 32,
                vd_flags = or VIRTQ_DESC_F_NEXT VIRTQ_DESC_F_WRITE, vd_next = s\<rparr>,
             s := \<lparr>vd_addr = StatusBuf, vd_len = 1, vd_flags = VIRTQ_DESC_F_WRITE, vd_next = 0\<rparr>]
      in b4\<lparr>vb_desc := desc,
           vb_avail_ring := (vb_avail_ring b4)[unat (vb_avail_idx b4) mod QUEUE_SIZE := h],
           vb_avail_idx := vb_avail_idx b4 + 1\<rparr>)"

definition read_sectors ::
  "virtio_device \<Rightarrow> nat \<Rightarrow> nat \<Rightarrow> (virtio_blk, hfs_error, bytes option) act" where
  "read_sectors device sector n = (\<lambda>b.
     if \<not> 512 dvd n then (Ok None, b)
     else
       let b1 = queue_request sector n b;
           (used, status, buf) = device b1 n;
           b2 = b1\<lparr>vb_used_idx := used, vb_status_buf := status\<rparr>
       in if used = vb_last_used_idx b then (Ok None, b2)
          else (Ok (if status = 0 then Some buf else None), b2\<lparr>vb_last_used_idx := used\<rparr>))"

text \<open>\<open>BlockReader for Mutex<VirtioBlk>\<close>.\<close>

definition virtio_read_at ::
  "virtio_device \<Rightarrow> nat \<Rightarrow> nat \<Rightarrow> (virtio_blk, hfs_error, bytes option) act" where
  "virtio_read_at device offset n =
     (let start_sector = offset div 512 in
      if 512 dvd offset \<and> 512 dvd n then read_sectors device start_sector n
      else
        bnd (checked64 (offset + n)) (\<lambda>e.
        let end_sector = (e + 511) div 512 in
        bnd (read_sectors device start_sector ((end_sector - start_sector) * 512)) (\<lambda>r.
        case r of
          None \<Rightarrow> ret None
        | Some temp \<Rightarrow>
            let off = offset mod 512
            in if length temp < off + n then panic else ret (Some (take n (drop off temp))))))"

section \<open>The ring\<close>

definition ring_ok :: "virtio_blk \<Rightarrow> bool" where
  "ring_ok b \<longleftrightarrow> length (vb_desc b) = QUEUE_SIZE \<and> length (vb_avail_ring b) = QUEUE_SIZE \<and>
     vb_next_desc_idx b < QUEUE_SIZE"

text \<open>No request is under way.\<close>

definition idle :: "virtio_blk \<Rightarrow> bool" where
  "idle b \<longleftrightarrow> ring_ok b \<and> vb_used_idx b = vb_last_used_idx b"

text \<open>The chain that starts at the descriptor \<open>h\<close>, as a device walks it.\<close>

fun walk_chain :: "nat \<Rightarrow> virtq_desc list \<Rightarrow> nat \<Rightarrow> (desc_target \<times> nat \<times> bool) list" where
  "walk_chain 0 desc h = []"
| "walk_chain (Suc fuel) desc h =
     (let d = desc ! h in
      (vd_addr d, vd_len d, and (vd_flags d) VIRTQ_DESC_F_WRITE \<noteq> 0) #
      (if and (vd_flags d) VIRTQ_DESC_F_NEXT \<noteq> 0 then walk_chain fuel desc (vd_next d) else []))"

text \<open>The request that the device finds at the entry of the ring that was added last.\<close>

definition posted_chain :: "virtio_blk \<Rightarrow> (desc_target \<times> nat \<times> bool) list" where
  "posted_chain b =
     walk_chain QUEUE_SIZE (vb_desc b) (vb_avail_ring b ! (unat (vb_avail_idx b - 1) mod QUEUE_SIZE))"

lemma queue_request_facts:
  assumes "ring_ok b"
  shows "ring_ok (queue_request sector n b)"
    "vb_req_buf (queue_request sector n b) = \<lparr>rq_type = VIRTIO_BLK_T_IN, rq_reserved = 0, rq_sector = sector\<rparr>"
    "vb_last_used_idx (queue_request sector n b) = vb_last_used_idx b"
    "vb_used_idx (queue_request sector n b) = vb_used_idx b"
  using assms
  by (simp_all add: queue_request_def allocate_desc_def Let_def ring_ok_def QUEUE_SIZE_def)

lemma desc_flags:
  "and VIRTQ_DESC_F_NEXT VIRTQ_DESC_F_WRITE = 0" "and VIRTQ_DESC_F_NEXT VIRTQ_DESC_F_NEXT \<noteq> 0"
  "and (or VIRTQ_DESC_F_NEXT VIRTQ_DESC_F_WRITE) VIRTQ_DESC_F_WRITE \<noteq> 0"
  "and (or VIRTQ_DESC_F_NEXT VIRTQ_DESC_F_WRITE) VIRTQ_DESC_F_NEXT \<noteq> 0"
  "and VIRTQ_DESC_F_WRITE VIRTQ_DESC_F_WRITE \<noteq> 0" "and VIRTQ_DESC_F_WRITE VIRTQ_DESC_F_NEXT = 0"
  "VIRTQ_DESC_F_NEXT \<noteq> 0" "VIRTQ_DESC_F_WRITE \<noteq> 0"
  by (simp_all add: VIRTQ_DESC_F_NEXT_def VIRTQ_DESC_F_WRITE_def)

lemma three_chain:
  assumes "length desc = 16" and "h < 16" "d < 16" "s < 16" and "h \<noteq> d" "d \<noteq> s" "h \<noteq> s"
  shows "walk_chain (Suc (Suc (Suc k)))
    (desc[h := \<lparr>vd_addr = ReqBuf, vd_len = 16, vd_flags = VIRTQ_DESC_F_NEXT, vd_next = d\<rparr>,
          d := \<lparr>vd_addr = DataBuf, vd_len = n, vd_flags = or VIRTQ_DESC_F_NEXT VIRTQ_DESC_F_WRITE, vd_next = s\<rparr>,
          s := \<lparr>vd_addr = StatusBuf, vd_len = 1, vd_flags = VIRTQ_DESC_F_WRITE, vd_next = 0\<rparr>]) h =
    [(ReqBuf, 16, False), (DataBuf, n, True), (StatusBuf, 1, True)]"
  using assms by (simp add: desc_flags Let_def)

lemma queue_request_chain:
  assumes "ring_ok b" and "n < 2 ^ 32"
  shows "posted_chain (queue_request sector n b) = [(ReqBuf, 16, False), (DataBuf, n, True), (StatusBuf, 1, True)]"
proof -
  define h where "h = vb_next_desc_idx b"
  define d where "d = (h + 1) mod 16"
  define s where "s = (d + 1) mod 16"
  have h: "h < 16" using assms by (simp add: ring_ok_def QUEUE_SIZE_def h_def)
  then have d: "d = (if h = 15 then 0 else h + 1)" by (simp add: d_def mod_if)
  then have s: "s = (if d = 15 then 0 else d + 1)" using h by (auto simp: s_def mod_if)
  have ne: "h < 16" "d < 16" "s < 16" "h \<noteq> d" "d \<noteq> s" "h \<noteq> s" using h d s by (auto split: if_splits)
  have len: "length (vb_desc b) = 16" "length (vb_avail_ring b) = 16"
    using assms by (simp_all add: ring_ok_def QUEUE_SIZE_def)
  let ?q = "queue_request sector n b"
  have q: "vb_desc ?q = (vb_desc b)[h := \<lparr>vd_addr = ReqBuf, vd_len = 16, vd_flags = VIRTQ_DESC_F_NEXT, vd_next = d\<rparr>,
      d := \<lparr>vd_addr = DataBuf, vd_len = n, vd_flags = or VIRTQ_DESC_F_NEXT VIRTQ_DESC_F_WRITE, vd_next = s\<rparr>,
      s := \<lparr>vd_addr = StatusBuf, vd_len = 1, vd_flags = VIRTQ_DESC_F_WRITE, vd_next = 0\<rparr>]"
    "vb_avail_ring ?q ! (unat (vb_avail_idx ?q - 1) mod QUEUE_SIZE) = h"
    unfolding s_def d_def h_def using assms(2) len
    by (simp_all add: queue_request_def allocate_desc_def Let_def QUEUE_SIZE_def del: mod_Suc_eq)
  have sixteen: "QUEUE_SIZE = Suc (Suc (Suc 13))" by (simp add: QUEUE_SIZE_def)
  show ?thesis
    unfolding posted_chain_def q unfolding sixteen by (rule three_chain [OF len(1) ne])
qed

section \<open>The device law\<close>

text \<open>
  What a virtio block device does (Virtual I/O Device specification, 5.2.6): it answers a request
  whose chain is header, data, status by advancing the used index, and reading sectors inside the
  disk gives status 0 and their bytes.
\<close>

locale sector_device =
  fixes device :: virtio_device and img :: bytes
  assumes serve: "vb_req_buf b = \<lparr>rq_type = VIRTIO_BLK_T_IN, rq_reserved = 0, rq_sector = sector\<rparr> \<Longrightarrow>
      posted_chain b = [(ReqBuf, 16, False), (DataBuf, n, True), (StatusBuf, 1, True)] \<Longrightarrow>
      sector * 512 + n \<le> length img \<Longrightarrow> 512 dvd n \<Longrightarrow>
      device b n = (vb_used_idx b + 1, 0, take n (drop (sector * 512) img))"
    and whole_sectors: "512 dvd length img"
    and below_4gb: "length img < 2 ^ 32"
begin

lemma read_sectors_ok:
  assumes "idle b" and "sector * 512 + n \<le> length img" and "512 dvd n"
  shows "\<exists>b'. read_sectors device sector n b = (Ok (Some (take n (drop (sector * 512) img))), b') \<and> idle b'"
proof -
  have ring: "ring_ok b" and used: "vb_used_idx b = vb_last_used_idx b" using assms(1) by (simp_all add: idle_def)
  have n: "n < 2 ^ 32" using assms(2) below_4gb by simp
  note f = queue_request_facts [OF ring, of sector n]
  have "device (queue_request sector n b) n =
      (vb_used_idx b + 1, 0, take n (drop (sector * 512) img))"
    using serve [OF f(2) queue_request_chain [OF ring n] assms(2,3)] f(4) by simp
  with f assms(3) used show ?thesis
    by (auto simp: read_sectors_def Let_def idle_def ring_ok_def)
qed

lemma virtio_read_at_ok:
  assumes "idle b" and "offset + n \<le> length img"
  shows "\<exists>b'. virtio_read_at device offset n b = (Ok (Some (take n (drop offset img))), b') \<and> idle b'"
proof (cases "512 dvd offset \<and> 512 dvd n")
  case True
  then have "offset div 512 * 512 = offset" by simp
  with read_sectors_ok [OF assms(1), of "offset div 512" n] assms(2) True show ?thesis
    by (simp add: virtio_read_at_def)
next
  case False
  let ?s = "offset div 512" and ?e = "(offset + n + 511) div 512"
  let ?k = "(?e - ?s) * 512"
  obtain m where m: "length img = 512 * m" using whole_sectors ..
  have em: "?e \<le> m" using assms(2) m by simp
  have se: "?s \<le> ?e" by (intro div_le_mono) simp
  then have "?s * 512 + ?k = ?e * 512" by (simp flip: add_mult_distrib)
  then have fit: "?s * 512 + ?k \<le> length img" using em m by simp
  from read_sectors_ok [OF assms(1) fit] obtain b' where
    b': "read_sectors device ?s ?k b = (Ok (Some (take ?k (drop (?s * 512) img))), b')" "idle b'" by auto
  have "offset + n \<le> ?e * 512"
    using div_mult_mod_eq [of "offset + n + 511" 512] mod_less_divisor [of 512 "offset + n + 511"] by linarith
  then have k: "offset mod 512 + n \<le> ?k"
    using \<open>?s * 512 + ?k = ?e * 512\<close> div_mult_mod_eq [of offset 512] by linarith
  have len: "length (take ?k (drop (?s * 512) img)) = ?k" using fit by simp
  have t: "take n (drop (offset mod 512) (take ?k (drop (?s * 512) img))) = take n (drop offset img)"
  proof -
    have "offset mod 512 + ?s * 512 = offset" by simp
    then have "drop (offset mod 512) (take ?k (drop (?s * 512) img)) = take (?k - offset mod 512) (drop offset img)"
      by (simp only: drop_take drop_drop)
    then show ?thesis using k by (simp only: take_take) (simp only: min.absorb1)
  qed
  have c: "checked64 (offset + n) = ret (offset + n)" using assms(2) below_4gb by simp
  have run: "virtio_read_at device offset n b = bnd (read_sectors device ?s ?k) (\<lambda>r. case r of None \<Rightarrow> ret None
      | Some temp \<Rightarrow> (if length temp < offset mod 512 + n then panic
          else ret (Some (take n (drop (offset mod 512) temp))))) b"
    using False unfolding virtio_read_at_def Let_def c bnd_ret by (simp only: if_False)
  have nl: "\<not> length (take ?k (drop (?s * 512) img)) < offset mod 512 + n"
    using k unfolding len by (simp only: not_less)
  have "virtio_read_at device offset n b = (Ok (Some (take n (drop offset img))), b')"
    unfolding run bnd_Ok [where m = "read_sectors device ?s ?k", OF b'(1)] option.case if_not_P [OF nl] t
      ret_run ..
  with b'(2) show ?thesis by blast
qed

end

text \<open>A device that answers at once from an image, as an emulator does.\<close>

definition image_device :: "bytes \<Rightarrow> virtio_device" where
  "image_device img b n =
     (let off = rq_sector (vb_req_buf b) * 512 in
      if off + n \<le> length img then (vb_used_idx b + 1, 0, take n (drop off img))
      else (vb_used_idx b + 1, 1, replicate n 0))"

lemma image_sector_device:
  "512 dvd length img \<Longrightarrow> length img < 2 ^ 32 \<Longrightarrow> sector_device (image_device img) img"
  by unfold_locales (simp_all add: image_device_def Let_def)

end
