(* ===== verification/HfsFsSpec.thy ===== *)
theory HfsFsSpec
  imports HfsFs Virtio
begin

text \<open>
  The read path of the kernel, from the block device to a file handle. \<open>block_device\<close> states what
  \<open>BlockReader\<close> promises; the buffered stream over such a device is a \<open>disk\<close>, so that everything
  shown of the HFS+ reader holds for a volume that the kernel has mounted; the virtio driver keeps
  the promise.
\<close>

section \<open>A block device\<close>

text \<open>\<open>full\<close> is the content of the device from the start of the volume on; \<open>len\<close> is the part of it
  that may be read through a buffer of \<open>cap\<close> bytes.\<close>

locale block_device =
  fixes read_at :: "'d block_reader" and dinv :: "'d \<Rightarrow> bool" and base :: nat and full :: bytes
  assumes read_at_ok: "dinv d \<Longrightarrow> off + n \<le> length full \<Longrightarrow>
      \<exists>d'. read_at (base + off) n d = (Ok (Some (take n (drop off full))), d') \<and> dinv d'"
    and below_64: "base + length full < 2 ^ 64"

text \<open>
  The unread part of the buffer is a window of the volume, and the device stands at its end.
\<close>

definition buf_window :: "'d volume_file \<Rightarrow> nat" where
  "buf_window b = br_cap b - br_pos b"

definition buf_ready ::
  "('d \<Rightarrow> bool) \<Rightarrow> nat \<Rightarrow> bytes \<Rightarrow> nat \<Rightarrow> 'd volume_file \<Rightarrow> nat \<Rightarrow> bool" where
  "buf_ready dinv base full cap b p \<longleftrightarrow>
     dinv (dw_device (br_inner b)) \<and> dw_base_offset (br_inner b) = base \<and>
     length (br_buffer b) = cap \<and> br_cap b \<le> cap \<and> br_pos b \<le> br_cap b \<and>
     dw_pos (br_inner b) = p + buf_window b \<and> p + buf_window b \<le> length full \<and>
     take (buf_window b) (drop (br_pos b) (br_buffer b)) = take (buf_window b) (drop p full)"

context block_device begin

lemma device_read_ok:
  assumes "dinv (dw_device w)" and "dw_base_offset w = base" and "dw_pos w + n \<le> length full"
  shows "\<exists>d'. device_read read_at n w = (Ok (take n (drop (dw_pos w) full)),
    w\<lparr>dw_device := d', dw_pos := dw_pos w + n\<rparr>) \<and> dinv d'"
proof -
  from read_at_ok [OF assms(1,3)] obtain d' where
    d: "read_at (base + dw_pos w) n (dw_device w) = (Ok (Some (take n (drop (dw_pos w) full))), d')" "dinv d'"
    by blast
  have "base + dw_pos w < 2 ^ 64" "dw_pos w + n < 2 ^ 64" using assms(3) below_64 by simp_all
  moreover have "on_device (read_at (base + dw_pos w) n) w =
      (Ok (Some (take n (drop (dw_pos w) full))), w\<lparr>dw_device := d'\<rparr>)"
    by (simp add: on_device_def d(1))
  ultimately show ?thesis
    using d(2) assms(2)
    by (intro exI [of _ d']) (simp add: device_read_def bnd_Ok [where m = "on_device (read_at _ n)"])
qed

lemma buf_copy_ok:
  assumes "buf_ready dinv base full cap b p" and "0 < buf_window b"
  shows "\<exists>b'. buf_copy n b = (Ok (take (min n (buf_window b)) (drop p full)), b') \<and>
    buf_ready dinv base full cap b' (p + min n (buf_window b))"
proof -
  define w k where "w = buf_window b" and "k = min n w"
  note r = assms(1) [unfolded buf_ready_def]
  have k: "k \<le> w" by (simp add: k_def)
  have cw: "br_cap b = br_pos b + w" using r by (simp add: w_def buf_window_def)
  have fit: "\<not> length (br_buffer b) < br_pos b + k" using r k cw by simp
  have win: "take w (drop (br_pos b) (br_buffer b)) = take w (drop p full)" using r unfolding w_def by blast
  have part: "take k (drop (br_pos b) (br_buffer b)) = take k (drop p full)"
    using arg_cong [OF win, of "take k"] k by (simp only: take_take min.absorb1)
  define b' where "b' = b\<lparr>br_pos := br_pos b + k\<rparr>"
  have w': "buf_window b' = w - k" using cw k by (simp add: buf_window_def b'_def)
  have "take (w - k) (drop (br_pos b + k) (br_buffer b)) = drop k (take w (drop (br_pos b) (br_buffer b)))"
    by (simp only: drop_take drop_drop add.commute)
  also have "\<dots> = drop k (take w (drop p full))" using win by simp
  also have "\<dots> = take (w - k) (drop (p + k) full)" by (simp only: drop_take drop_drop add.commute)
  finally have "buf_ready dinv base full cap b' (p + k)"
    using r k cw unfolding buf_ready_def w' by (simp add: b'_def flip: w_def)
  moreover have "buf_copy n b = (Ok (take k (drop p full)), b')"
    using fit part cw by (simp add: buf_copy_def Let_def b'_def flip: k_def)
  ultimately show ?thesis unfolding w_def [symmetric] k_def [symmetric] by blast
qed

end

section \<open>A mounted volume is a disk\<close>

locale volume_device = block_device +
  fixes cap len :: nat
  assumes cap_pos: "0 < cap" and fits: "len + cap \<le> length full"

sublocale volume_device \<subseteq> vfile: disk "volume_file_ops read_at" "take len full" "buf_ready dinv base full cap"
proof
  fix b p q
  assume "buf_ready dinv base full cap b p" and "q \<le> length (take len full)"
  then show "\<exists>b'. rs_seek (volume_file_ops read_at) (Start q) b = (Ok q, b') \<and> buf_ready dinv base full cap b' q"
    by (auto simp: volume_file_ops_def buf_ops_def buf_seek_def buf_restart_def on_inner_def
        device_ops_def device_seek_def buf_ready_def buf_window_def)
next
  fix b p n
  assume r: "buf_ready dinv base full cap b p" and n: "0 < n" "p + n \<le> length (take len full)"
  have pn: "p + n \<le> len" using n(2) fits by simp
  have part: "take k (drop p (take len full)) = take k (drop p full)" if "k \<le> n" for k
    using that pn by (simp add: drop_take min_def)
  note R = r [unfolded buf_ready_def]
  have "\<exists>k b'. 0 < k \<and> k \<le> n \<and> buf_read (device_ops read_at) n b = (Ok (take k (drop p full)), b') \<and>
      buf_ready dinv base full cap b' (p + k)"
  proof (cases "br_cap b \<le> br_pos b")
    case False
    then have w: "0 < buf_window b" by (simp add: buf_window_def)
    from buf_copy_ok [OF r w, of n] obtain b' where
      "buf_copy n b = (Ok (take (min n (buf_window b)) (drop p full)), b')"
      "buf_ready dinv base full cap b' (p + min n (buf_window b))" by blast
    then show ?thesis using False w n(1)
      by (intro exI [of _ "min n (buf_window b)"] exI [of _ b']) (simp add: buf_read_def)
  next
    case True
    then have w: "buf_window b = 0" "dw_pos (br_inner b) = p" using R by (simp_all add: buf_window_def)
    show ?thesis
    proof (cases "cap \<le> n")
      case big: True
      from device_read_ok [of "br_inner b" n] R w pn fits obtain d' where
        d: "device_read read_at n (br_inner b) = (Ok (take n (drop p full)),
           (br_inner b)\<lparr>dw_device := d', dw_pos := p + n\<rparr>)" "dinv d'" by auto
      let ?b = "b\<lparr>br_inner := (br_inner b)\<lparr>dw_device := d', dw_pos := p + n\<rparr>\<rparr>"
      have "buf_read (device_ops read_at) n b = (Ok (take n (drop p full)), ?b)"
        using True big R d(1) by (simp add: buf_read_def on_inner_def device_ops_def)
      moreover have "buf_ready dinv base full cap ?b (p + n)"
        using R True d(2) pn fits w by (simp add: buf_ready_def buf_window_def)
      ultimately show ?thesis using n(1) by blast
    next
      case small: False
      from device_read_ok [of "br_inner b" cap] R w pn fits obtain d' where
        d: "device_read read_at cap (br_inner b) = (Ok (take cap (drop p full)),
           (br_inner b)\<lparr>dw_device := d', dw_pos := p + cap\<rparr>)" "dinv d'" by auto
      define b' where "b' = b\<lparr>br_pos := 0, br_inner := (br_inner b)\<lparr>dw_device := d', dw_pos := p + cap\<rparr>,
        br_buffer := take cap (drop p full), br_cap := cap\<rparr>"
      have len: "length (take cap (drop p full)) = cap" using pn fits by simp
      have ne: "take cap (drop p full) \<noteq> []" using len cap_pos by auto
      have r': "buf_ready dinv base full cap b' p"
        using R d(2) pn fits len by (simp add: buf_ready_def buf_window_def b'_def)
      have w': "buf_window b' = cap" by (simp add: buf_window_def b'_def)
      from buf_copy_ok [OF r', of n] cap_pos small obtain b'' where
        c: "buf_copy n b' = (Ok (take n (drop p full)), b'')" "buf_ready dinv base full cap b'' (p + n)"
        unfolding w' by (auto simp: min_def)
      have "on_inner (rs_read (device_ops read_at) cap) (b\<lparr>br_pos := 0\<rparr>) =
          (Ok (take cap (drop p full)), b\<lparr>br_pos := 0, br_inner := (br_inner b)\<lparr>dw_device := d', dw_pos := p + cap\<rparr>\<rparr>)"
        by (simp add: on_inner_def device_ops_def d(1))
      then have "buf_read (device_ops read_at) n b = buf_copy n b'"
        using True small R len ne
        by (simp add: buf_read_def bnd_Ok [where m = "on_inner (rs_read (device_ops read_at) cap)"] b'_def Let_def)
      with c n(1) show ?thesis by (intro exI [of _ n] exI [of _ b'']) simp
    qed
  qed
  then show "\<exists>k b'. 0 < k \<and> k \<le> n \<and>
      rs_read (volume_file_ops read_at) n b = (Ok (take k (drop p (take len full))), b') \<and>
      buf_ready dinv base full cap b' (p + k)"
    using part by (fastforce simp: volume_file_ops_def buf_ops_def)
qed

context volume_device begin

lemma vfile_disk: "disk (volume_file_ops read_at) (take len full) (buf_ready dinv base full cap)"
  by (rule vfile.disk_axioms)

end

section \<open>The virtio disk\<close>

context sector_device begin

lemma virtio_block_device:
  "base \<le> length img \<Longrightarrow> block_device (virtio_read_at device) idle base (drop base img)"
proof
  fix b off n
  assume "base \<le> length img" "idle b" "off + n \<le> length (drop base img)"
  with virtio_read_at_ok [of b "base + off" n]
  show "\<exists>b'. virtio_read_at device (base + off) n b = (Ok (Some (take n (drop off (drop base img)))), b') \<and> idle b'"
    by (simp add: add.commute add.left_commute)
next
  assume "base \<le> length img"
  then show "base + length (drop base img) < 2 ^ 64" using below_4gb by simp
qed

lemma virtio_volume_device:
  "base \<le> length img \<Longrightarrow> 0 < cap \<Longrightarrow> base + len + cap \<le> length img \<Longrightarrow>
   volume_device (virtio_read_at device) idle base (drop base img) cap len"
  by (intro volume_device.intro volume_device_axioms.intro virtio_block_device) simp_all

end

section \<open>File handles\<close>

text \<open>What a handle holds: the decompressed bytes, or the bytes of the extents.\<close>

definition file_bytes :: "bytes \<Rightarrow> fork \<Rightarrow> bytes" where
  "file_bytes content fk = (case fk_cache fk of Some data \<Rightarrow> data | None \<Rightarrow> fork_bytes content fk)"

definition handle_ok :: "bytes \<Rightarrow> fork \<Rightarrow> bool" where
  "handle_ok content fk \<longleftrightarrow> fork_ok content fk \<and> (fk_cache fk = None \<longrightarrow> plain (fork_bytes content fk))"

lemma file_bytes_move [simp]: "file_bytes content (fk\<lparr>fk_position := p\<rparr>) = file_bytes content fk"
  by (simp add: file_bytes_def split: option.split)

lemma handle_ok_move [simp]: "p < 2 ^ 64 \<Longrightarrow> handle_ok content fk \<Longrightarrow> handle_ok content (fk\<lparr>fk_position := p\<rparr>)"
  by (simp add: handle_ok_def)

lemma unwrap_or_Ok: "m s = (Ok a, s') \<Longrightarrow> unwrap_or d m s = (Ok a, s')"
  by (simp add: unwrap_or_def ok_or_none_def bnd_def ret_def)

lemma unwrap_or_Err: "m s = (Err e, s') \<Longrightarrow> unwrap_or d m s = (Ok d, s')"
  by (simp add: unwrap_or_def ok_or_none_def bnd_def ret_def)

lemma hfs_file_seek_run:
  "hfs_file_seek p (fk, s) = (Ok (), (fk\<lparr>fk_position := p\<rparr>, s))"
proof -
  have "fork_seek (Start p) (fk, s) = (Ok p, (fk\<lparr>fk_position := p\<rparr>, s))"
    by (simp add: fork_seek_def ret_run)
  from unwrap_or_Ok [where m = "fork_seek (Start p)", OF this, of 0] show ?thesis
    by (simp add: hfs_file_seek_def bnd_Ok [where m = "unwrap_or 0 (fork_seek (Start p))"] ret_run)
qed

context disk begin

lemma hfs_file_read_ok:
  assumes "ready s q" and "handle_ok content fk"
  shows "\<exists>s' q'. hfs_file_read dev unz want (fk, s) =
    (Ok (take want (drop (fk_position fk) (file_bytes content fk))),
     (fk\<lparr>fk_position := fk_position fk +
        length (take want (drop (fk_position fk) (file_bytes content fk)))\<rparr>, s')) \<and> ready s' q'"
proof (cases "fk_cache fk")
  case None
  with fork_read_plain [OF assms(1), of fk unz want] assms(2) show ?thesis
    unfolding hfs_file_read_def handle_ok_def by (auto simp: file_bytes_def intro: unwrap_or_Ok)
next
  case (Some data)
  from unwrap_or_Ok [where m = "fork_read dev unz want" and d = "[]", OF fork_read_cached [OF Some, of dev unz want s]] assms(1) Some show ?thesis
    by (auto simp: hfs_file_read_def file_bytes_def)
qed

lemma hfs_file_read_at_ok:
  assumes "ready s q" and "handle_ok content fk" and "off < 2 ^ 64"
  shows "\<exists>s' q'. hfs_file_read_at dev unz off want (fk, s) =
    (Ok (take want (drop off (file_bytes content fk))), (fk, s')) \<and> ready s' q'"
proof -
  let ?fk = "fk\<lparr>fk_position := off\<rparr>"
  from hfs_file_read_ok [OF assms(1), of ?fk unz want] assms(2,3) obtain s' q' where
    r: "hfs_file_read dev unz want (?fk, s) = (Ok (take want (drop off (file_bytes content fk))),
      (?fk\<lparr>fk_position := off + length (take want (drop off (file_bytes content fk)))\<rparr>, s'))" "ready s' q'"
    by (auto simp del: length_take length_drop)
  have "hfs_file_read_at dev unz off want (fk, s) = (Ok (take want (drop off (file_bytes content fk))), (fk, s'))"
    unfolding hfs_file_read_at_def fork_act_runs
    by (simp add: bnd_Ok [where m = "hfs_file_seek _", OF hfs_file_seek_run]
        bnd_Ok [where m = "hfs_file_read dev unz want", OF r(1)] ret_run)
  with r(2) show ?thesis by blast
qed

end

section \<open>Opening a file\<close>

lemma hfsfs_open_file_ok:
  assumes m: "mounted dev content ready vbs cexts eexts vol ctr etr fuel v"
    and path: "path_parts path \<noteq> []" "walk (catalog_order (vol_catalog vol)) (tree_records ctr) 2
      (map (\<lambda>p. encode_utf16 (nfd p)) (path_parts path)) r"
    and ff: "cr_body r = BFile f" "chosen_fork f = (data, ft)"
    and "bs = unat (vh_block_size (vol_header vol))" and "l = unat (fd_logical_size data)"
    and "es = fd_extents data @ concat (map er_body recs)"
    and "overflow_chain (tree_db extent_tree_ops etr) (cfi_file_id f) ft bs l
      (block_total (fd_extents data) * bs) (block_total (fd_extents data)) recs"
    and "block_total es * bs < 2 ^ 64" and "block_total es < 2 ^ 32" and "length recs \<le> fuel"
  shows "\<exists>v'. hfsfs_open_file dev unz nfd vol fuel path v =
      (Ok (Some (loaded_fork (cfi_file_id f) ft bs l es)), v') \<and>
    mounted dev content ready vbs cexts eexts vol ctr etr fuel v'"
proof -
  from mounted_path [OF m path, of unz] obtain v1 where
    v1: "get_path_record dev unz nfd vol fuel path v = (Ok r, v1)"
    and m1: "mounted dev content ready vbs cexts eexts vol ctr etr fuel v1" by blast
  from volume_fork_loads [OF m1 assms(6-12), of unz] obtain v2 where
    v2: "volume_fork dev unz vol fuel (cfi_file_id f) ft data v1 =
      (Ok (loaded_fork (cfi_file_id f) ft bs l es), v2)"
    and m2: "mounted dev content ready vbs cexts eexts vol ctr etr fuel v2" by blast
  have "ok_or_none (get_path_record dev unz nfd vol fuel path) v = (Ok (Some r), v1)"
    "ok_or_none (volume_fork dev unz vol fuel (cfi_file_id f) ft data) v1 =
      (Ok (Some (loaded_fork (cfi_file_id f) ft bs l es)), v2)"
    by (simp_all add: ok_or_none_def v1 v2)
  then have "hfsfs_open_file dev unz nfd vol fuel path v =
      (Ok (Some (loaded_fork (cfi_file_id f) ft bs l es)), v2)"
    using ff by (simp add: hfsfs_open_file_def
        bnd_Ok [where m = "ok_or_none (get_path_record dev unz nfd vol fuel path)"])
  with m2 show ?thesis by blast
qed

section \<open>Limits of the buffer\<close>

lemma buf_seek_current_far:
  assumes "buf_ready dinv base full cap b p" and "buf_window b < n" and "p + buf_window b + n < 2 ^ 63"
    and "cap < 2 ^ 62" and "n < 2 ^ 62"
  shows "\<exists>b'. rs_seek (volume_file_ops rd) (Current (int n)) b = (Ok (p + buf_window b + n), b')"
proof -
  note r = assms(1) [unfolded buf_ready_def]
  have c: "br_cap b = br_pos b + buf_window b" using r by (simp add: buf_window_def)
  have "add_i64 (as_i64 (br_pos b)) (int n) = (ret (int (br_pos b + n)) :: ('a device_wrapper buf_reader, hfs_error, int) act)"
    using r assms(4,5) by (simp add: add_i64_def)
  moreover have "\<not> int (br_pos b + n) \<le> as_i64 (br_cap b)" using r c assms(2,4) by simp
  moreover have "add_i64 (as_i64 (dw_pos (br_inner b))) (int n) =
      (ret (int (p + buf_window b + n)) :: ('a device_wrapper, hfs_error, int) act)"
    using r assms(3) by (simp add: add_i64_def)
  moreover have "as_u64 (int p + int (buf_window b) + int n) = p + buf_window b + n"
    using as_u64_small [of "p + buf_window b + n"] assms(3) by simp
  ultimately show ?thesis
    by (simp add: volume_file_ops_def buf_ops_def buf_seek_def buf_restart_def on_inner_def
        device_ops_def device_seek_def)
qed

lemma failed_fill_then_stale:
  assumes "rs_read dev (length (br_buffer b)) (br_inner b) = (Err e, s)"
    and "br_cap b \<le> br_pos b" and "0 < br_cap b" and "br_cap b \<le> length (br_buffer b)"
    and "0 < n" and "n < length (br_buffer b)"
  shows "\<exists>b' b''. buf_read dev n b = (Err e, b') \<and>
    buf_read dev n b' = (Ok (take (min n (br_cap b)) (br_buffer b)), b'')"
proof -
  let ?b = "b\<lparr>br_pos := 0, br_inner := s\<rparr>"
  have "on_inner (rs_read dev (length (br_buffer b))) (b\<lparr>br_pos := 0\<rparr>) = (Err e, ?b)"
    using assms(1) by (simp add: on_inner_def)
  then have "buf_read dev n b = (Err e, ?b)"
    using assms(2,6) by (simp add: buf_read_def bnd_Err [where m = "on_inner m" for m])
  moreover have "buf_read dev n ?b =
      (Ok (take (min n (br_cap b)) (br_buffer b)), ?b\<lparr>br_pos := min n (br_cap b)\<rparr>)"
    using assms(3,4) by (simp add: buf_read_def buf_copy_def Let_def)
  ultimately show ?thesis by blast
qed

end
