(* ===== verification/MmuMap.thy ===== *)
theory MmuMap
  imports MmuSpec
begin

text \<open>
  Each step of \<open>map_range\<close> keeps the invariant of \<open>MmuSpec\<close>; the two \<open>ensure\<close> steps do not change
  any translation, the final write changes exactly one.
\<close>

unbundle bit_operations_syntax

section \<open>Tables in use\<close>

lemma l2_used_facts:
  assumes "layout_ok ly" and "tables_ok ly m" and "t \<in> l2_used ly m"
  shows "frame t" "t \<noteq> ly_l1 ly" "k < 256 \<Longrightarrow> t \<noteq> ly_l3_pool ly k"
    "mm_l2_alloc_idx m < 16 \<Longrightarrow> t \<noteq> ly_l2_pool ly (mm_l2_alloc_idx m)"
proof -
  note ly = layout_facts [OF assms(1)]
  have "mm_l2_alloc_idx m \<le> 16" using assms(2) by (simp add: tables_ok_def)
  with assms(3) obtain i where i: "t = ly_l2 ly i \<and> i < 4 \<or> t = ly_l2_pool ly i \<and> i < 16 \<and> i < mm_l2_alloc_idx m"
    by (force simp: l2_used_def)
  show "frame t" "t \<noteq> ly_l1 ly" using i ly(2,3,5,6) by (elim disjE; simp)+
  show "t \<noteq> ly_l3_pool ly k" if "k < 256" using i that ly(9,10) by (elim disjE; simp)
  show "t \<noteq> ly_l2_pool ly (mm_l2_alloc_idx m)" if "mm_l2_alloc_idx m < 16"
    using i that ly(8,12) by (elim disjE; simp)
qed

lemma l3_used_facts:
  assumes "layout_ok ly" and "tables_ok ly m" and "u \<in> l3_used ly m"
  shows "frame u" "u \<noteq> ly_l1 ly" "k < 16 \<Longrightarrow> u \<noteq> ly_l2_pool ly k" "k < 4 \<Longrightarrow> u \<noteq> ly_l2 ly k"
    "mm_l3_alloc_idx m < 256 \<Longrightarrow> u \<noteq> ly_l3_pool ly (mm_l3_alloc_idx m)"
proof -
  note ly = layout_facts [OF assms(1)]
  have "mm_l3_alloc_idx m \<le> 256" using assms(2) by (simp add: tables_ok_def)
  with assms(3) obtain i where i: "u = ly_l3_pool ly i" "i < 256" "i < mm_l3_alloc_idx m"
    by (force simp: l3_used_def)
  show "frame u" "u \<noteq> ly_l1 ly" using i ly(4,7) by simp_all
  show "u \<noteq> ly_l2_pool ly k" if "k < 16" using i ly(10) [OF that i(2)] by simp
  show "u \<noteq> ly_l2 ly k" if "k < 4" using i ly(9) [OF that i(2)] by simp
  show "u \<noteq> ly_l3_pool ly (mm_l3_alloc_idx m)" if "mm_l3_alloc_idx m < 256"
    using i ly(13) [OF i(2) that] by simp
qed

lemma tables_okD:
  assumes "tables_ok ly m"
  shows "mm_l2_alloc_idx m \<le> 16" "mm_l3_alloc_idx m \<le> 256"
    "i < 512 \<Longrightarrow> mm_tables m (ly_l1 ly) i AND DESC_VALID \<noteq> 0 \<Longrightarrow>
      \<exists>t \<in> l2_used ly m. mm_tables m (ly_l1 ly) i = (t OR DESC_VALID OR DESC_TABLE)"
    "i < 512 \<Longrightarrow> i' < 512 \<Longrightarrow> mm_tables m (ly_l1 ly) i AND DESC_VALID \<noteq> 0 \<Longrightarrow>
      mm_tables m (ly_l1 ly) i = mm_tables m (ly_l1 ly) i' \<Longrightarrow> i = i'"
    "t \<in> l2_used ly m \<Longrightarrow> j < 512 \<Longrightarrow> mm_tables m t j AND DESC_VALID \<noteq> 0 \<Longrightarrow>
      mm_tables m t j AND DESC_TABLE \<noteq> 0 \<Longrightarrow>
      \<exists>u \<in> l3_used ly m. mm_tables m t j = (u OR DESC_VALID OR DESC_TABLE)"
    "t \<in> l2_used ly m \<Longrightarrow> t' \<in> l2_used ly m \<Longrightarrow> j < 512 \<Longrightarrow> j' < 512 \<Longrightarrow>
      mm_tables m t j AND DESC_VALID \<noteq> 0 \<Longrightarrow> mm_tables m t j AND DESC_TABLE \<noteq> 0 \<Longrightarrow>
      mm_tables m t j = mm_tables m t' j' \<Longrightarrow> t = t' \<and> j = j'"
  using assms unfolding tables_ok_def by blast+

lemma tables_okI:
  assumes "mm_l2_alloc_idx m \<le> 16" "mm_l3_alloc_idx m \<le> 256"
    "\<And>i. i < 512 \<Longrightarrow> mm_tables m (ly_l1 ly) i AND DESC_VALID \<noteq> 0 \<Longrightarrow>
      \<exists>t \<in> l2_used ly m. mm_tables m (ly_l1 ly) i = (t OR DESC_VALID OR DESC_TABLE)"
    "\<And>i i'. i < 512 \<Longrightarrow> i' < 512 \<Longrightarrow> mm_tables m (ly_l1 ly) i AND DESC_VALID \<noteq> 0 \<Longrightarrow>
      mm_tables m (ly_l1 ly) i = mm_tables m (ly_l1 ly) i' \<Longrightarrow> i = i'"
    "\<And>t j. t \<in> l2_used ly m \<Longrightarrow> j < 512 \<Longrightarrow> mm_tables m t j AND DESC_VALID \<noteq> 0 \<Longrightarrow>
      mm_tables m t j AND DESC_TABLE \<noteq> 0 \<Longrightarrow>
      \<exists>u \<in> l3_used ly m. mm_tables m t j = (u OR DESC_VALID OR DESC_TABLE)"
    "\<And>t t' j j'. t \<in> l2_used ly m \<Longrightarrow> t' \<in> l2_used ly m \<Longrightarrow> j < 512 \<Longrightarrow> j' < 512 \<Longrightarrow>
      mm_tables m t j AND DESC_VALID \<noteq> 0 \<Longrightarrow> mm_tables m t j AND DESC_TABLE \<noteq> 0 \<Longrightarrow>
      mm_tables m t j = mm_tables m t' j' \<Longrightarrow> t = t' \<and> j = j'"
  shows "tables_ok ly m"
  unfolding tables_ok_def using assms by blast

text \<open>
  Two states with the same translations: it is enough that they agree on the entries that a
  walk reads.
\<close>

lemma vpn_parts: "vpn < 2 ^ 27 \<Longrightarrow> vpn div 2 ^ 18 < 512 \<and> (vpn div 512) mod 512 < 512 \<and> vpn mod 512 < 512"
  for vpn :: nat
  by simp

lemma vpn_split: "vpn = vpn div 2 ^ 18 * 2 ^ 18 + (vpn div 512) mod 512 * 512 + vpn mod 512"
  for vpn :: nat
proof -
  have e: "vpn div 2 ^ 18 = vpn div 512 div 512" by (simp add: div_mult2_eq [symmetric])
  have "a * 512 + b = c \<Longrightarrow> c * 512 + d = vpn \<Longrightarrow> vpn = a * 2 ^ 18 + b * 512 + d" for a b c d
    by simp
  from this [OF div_mult_mod_eq div_mult_mod_eq] show ?thesis unfolding e .
qed

lemma vpn_join:
  fixes i j k :: nat
  assumes "i < 512" "j < 512" "k < 512"
  shows "(i * 2 ^ 18 + j * 512 + k) div 2 ^ 18 = i" "((i * 2 ^ 18 + j * 512 + k) div 512) mod 512 = j"
    "(i * 2 ^ 18 + j * 512 + k) mod 512 = k"
proof -
  have e: "i * 2 ^ 18 + j * 512 + k = (i * 512 + j) * 512 + k" by simp
  have d: "((i * 512 + j) * 512 + k) div 512 = i * 512 + j" using assms(3) by simp
  show "(i * 2 ^ 18 + j * 512 + k) div 2 ^ 18 = i"
  proof -
    have "(i * 2 ^ 18 + j * 512 + k) div 2 ^ 18 = ((i * 512 + j) * 512 + k) div 512 div 512"
      unfolding e by (simp add: div_mult2_eq [symmetric])
    then show ?thesis unfolding d using assms(2) by simp
  qed
  show "((i * 2 ^ 18 + j * 512 + k) div 512) mod 512 = j" unfolding e d using assms(2) by simp
  show "(i * 2 ^ 18 + j * 512 + k) mod 512 = k" unfolding e mod_mult_self3 using assms(3) by simp
qed

definition same_map :: "table_layout \<Rightarrow> mmu \<Rightarrow> mmu \<Rightarrow> bool" where
  "same_map ly m m' \<longleftrightarrow> (\<forall>vpn < 2 ^ 27. translate ly m' vpn = translate ly m vpn)"

lemma same_mapI:
  assumes "\<And>i. i < 512 \<Longrightarrow> mm_tables m (ly_l1 ly) i AND DESC_VALID \<noteq> 0 \<Longrightarrow>
      mm_tables m' (ly_l1 ly) i = mm_tables m (ly_l1 ly) i"
    and "\<And>i j k. i < 512 \<Longrightarrow> j < 512 \<Longrightarrow> k < 512 \<Longrightarrow> mm_tables m (ly_l1 ly) i AND DESC_VALID \<noteq> 0 \<Longrightarrow>
      walk_l2 m' (mm_tables m (ly_l1 ly) i AND TABLE_ADDR_MASK) j k =
      walk_l2 m (mm_tables m (ly_l1 ly) i AND TABLE_ADDR_MASK) j k"
    and "\<And>i j k. i < 512 \<Longrightarrow> j < 512 \<Longrightarrow> k < 512 \<Longrightarrow> mm_tables m (ly_l1 ly) i AND DESC_VALID = 0 \<Longrightarrow>
      mm_tables m' (ly_l1 ly) i AND DESC_VALID \<noteq> 0 \<Longrightarrow>
      walk_l2 m' (mm_tables m' (ly_l1 ly) i AND TABLE_ADDR_MASK) j k = None"
  shows "same_map ly m m'"
  unfolding same_map_def translate_def Let_def
proof (intro allI impI)
  fix vpn :: nat
  let ?i = "vpn div 2 ^ 18" and ?j = "(vpn div 512) mod 512" and ?k = "vpn mod 512"
  assume "vpn < 2 ^ 27"
  then have b: "?i < 512" "?j < 512" "?k < 512" using vpn_parts [of vpn] by auto
  show "(if mm_tables m' (ly_l1 ly) ?i AND DESC_VALID = 0 then None
       else walk_l2 m' (mm_tables m' (ly_l1 ly) ?i AND TABLE_ADDR_MASK) ?j ?k) =
      (if mm_tables m (ly_l1 ly) ?i AND DESC_VALID = 0 then None
       else walk_l2 m (mm_tables m (ly_l1 ly) ?i AND TABLE_ADDR_MASK) ?j ?k)"
    using assms(1) [OF b(1)] assms(2) [OF b] assms(3) [OF b] by auto
qed

section \<open>Ensuring an L2 table\<close>

lemma ensure_l2_ok:
  assumes ly: "layout_ok ly" and ok: "tables_ok ly m" and i1: "i1 < 512"
    and run: "ensure_l2 ly i1 m = Some m'"
  shows "tables_ok ly m'" and "same_map ly m m'"
    and "\<exists>t \<in> l2_used ly m'. mm_tables m' (ly_l1 ly) i1 = (t OR DESC_VALID OR DESC_TABLE)"
proof -
  note okD = tables_okD [OF ok]
  consider (old) "mm_tables m (ly_l1 ly) i1 AND DESC_VALID \<noteq> 0" "m' = m"
    | (new) "mm_tables m (ly_l1 ly) i1 AND DESC_VALID = 0" "mm_l2_alloc_idx m < 16"
      "m' = write_entry (ly_l1 ly) i1 (ly_l2_pool ly (mm_l2_alloc_idx m) OR DESC_VALID OR DESC_TABLE)
         (fill_table (ly_l2_pool ly (mm_l2_alloc_idx m)) (\<lambda>_. 0)
           (m\<lparr>mm_l2_alloc_idx := mm_l2_alloc_idx m + 1\<rparr>))"
    using run by (auto simp: ensure_l2_def Let_def not_le split: if_splits)
  then have "tables_ok ly m' \<and> same_map ly m m' \<and>
      (\<exists>t \<in> l2_used ly m'. mm_tables m' (ly_l1 ly) i1 = (t OR DESC_VALID OR DESC_TABLE))"
  proof cases
    case old
    with ok okD(3) [OF i1] show ?thesis by (simp add: same_map_def)
  next
    case new
    define t where "t = ly_l2_pool ly (mm_l2_alloc_idx m)"
    let ?d = "t OR DESC_VALID OR DESC_TABLE"
    have t: "frame t" "t \<noteq> ly_l1 ly" using layout_facts [OF ly] new(2) by (simp_all add: t_def)
    have used: "l2_used ly m' = insert t (l2_used ly m)" "l3_used ly m' = l3_used ly m"
      using new(3) by (auto simp: l2_used_def l3_used_def t_def lessThan_Suc)
    have fresh: "x \<noteq> t" if "x \<in> l2_used ly m" for x
      using l2_used_facts(4) [OF ly ok that] new(2) by (simp add: t_def)
    have l1: "mm_tables m' (ly_l1 ly) i = (if i = i1 then ?d else mm_tables m (ly_l1 ly) i)" for i
      using new(3) t(2) by (simp flip: t_def)
    have l2: "mm_tables m' x j = mm_tables m x j" if "x \<in> l2_used ly m" for x j
      using new(3) fresh [OF that] l2_used_facts(2) [OF ly ok that] by (simp flip: t_def)
    have l3: "mm_tables m' u j = mm_tables m u j" if "u \<in> l3_used ly m" for u j
      using new(2,3) l3_used_facts(2,3) [OF ly ok that] by (simp flip: t_def) (metis t_def)
    have z: "mm_tables m' t j = 0" if "j < 512" for j
      using new(3) t(2) that by (simp flip: t_def)
    have "tables_ok ly m'"
    proof (rule tables_okI)
      show "mm_l2_alloc_idx m' \<le> 16" "mm_l3_alloc_idx m' \<le> 256" using new(2,3) okD(2) by simp_all
    next
      fix i
      assume "i < 512" "mm_tables m' (ly_l1 ly) i AND DESC_VALID \<noteq> 0"
      then show "\<exists>t \<in> l2_used ly m'. mm_tables m' (ly_l1 ly) i = (t OR DESC_VALID OR DESC_TABLE)"
        using okD(3) [of i] by (auto simp: l1 used split: if_splits)
    next
      fix i i'
      assume a: "i < 512" "i' < 512" "mm_tables m' (ly_l1 ly) i AND DESC_VALID \<noteq> 0"
        "mm_tables m' (ly_l1 ly) i = mm_tables m' (ly_l1 ly) i'"
      have no: "mm_tables m (ly_l1 ly) x \<noteq> ?d" if "x < 512" for x
      proof
        assume e: "mm_tables m (ly_l1 ly) x = ?d"
        with okD(3) [OF that] obtain t' where "t' \<in> l2_used ly m" "?d = (t' OR DESC_VALID OR DESC_TABLE)"
          by auto
        with table_desc_inj [OF t(1)] l2_used_facts(1) [OF ly ok] fresh show False by blast
      qed
      show "i = i'"
        using a no [of i] no [of i'] okD(4) [of i i'] by (auto simp: l1 split: if_splits)
    next
      fix x j
      assume "x \<in> l2_used ly m'" "j < 512" "mm_tables m' x j AND DESC_VALID \<noteq> 0"
        "mm_tables m' x j AND DESC_TABLE \<noteq> 0"
      then show "\<exists>u \<in> l3_used ly m'. mm_tables m' x j = (u OR DESC_VALID OR DESC_TABLE)"
        using okD(5) [of x j] z [of j] l2 [of x] by (auto simp: used)
    next
      fix x x' j j'
      assume "x \<in> l2_used ly m'" "x' \<in> l2_used ly m'" "j < 512" "j' < 512"
        "mm_tables m' x j AND DESC_VALID \<noteq> 0" "mm_tables m' x j AND DESC_TABLE \<noteq> 0"
        "mm_tables m' x j = mm_tables m' x' j'"
      then show "x = x' \<and> j = j'"
        using okD(6) [of x x' j j'] z l2 by (auto simp: used)
    qed
    moreover have "same_map ly m m'"
    proof (rule same_mapI)
      fix i
      assume "i < 512" "mm_tables m (ly_l1 ly) i AND DESC_VALID \<noteq> 0"
      with new(1) show "mm_tables m' (ly_l1 ly) i = mm_tables m (ly_l1 ly) i" by (auto simp: l1)
    next
      fix i j k :: nat
      assume a: "i < 512" "j < 512" "k < 512" "mm_tables m (ly_l1 ly) i AND DESC_VALID \<noteq> 0"
      from okD(3) [OF a(1,4)] obtain t' where t': "t' \<in> l2_used ly m"
        "mm_tables m (ly_l1 ly) i = (t' OR DESC_VALID OR DESC_TABLE)" by blast
      have addr: "mm_tables m (ly_l1 ly) i AND TABLE_ADDR_MASK = t'"
        using t' table_desc_addr l2_used_facts(1) [OF ly ok t'(1)] by simp
      have "walk_l3 m' (mm_tables m t' j AND TABLE_ADDR_MASK) k = walk_l3 m (mm_tables m t' j AND TABLE_ADDR_MASK) k"
        if v: "mm_tables m t' j AND DESC_VALID \<noteq> 0" "mm_tables m t' j AND DESC_TABLE \<noteq> 0"
      proof -
        from okD(5) [OF t'(1) a(2) v] obtain u where u: "u \<in> l3_used ly m"
          "mm_tables m t' j = (u OR DESC_VALID OR DESC_TABLE)" by blast
        then have "mm_tables m t' j AND TABLE_ADDR_MASK = u"
          using table_desc_addr l3_used_facts(1) [OF ly ok u(1)] by simp
        then show ?thesis using l3 [OF u(1)] by (simp add: walk_l3_def)
      qed
      then show "walk_l2 m' (mm_tables m (ly_l1 ly) i AND TABLE_ADDR_MASK) j k =
          walk_l2 m (mm_tables m (ly_l1 ly) i AND TABLE_ADDR_MASK) j k"
        unfolding addr walk_l2_def l2 [OF t'(1)] by (simp add: Let_def)
    next
      fix i j k :: nat
      assume a: "i < 512" "j < 512" "mm_tables m (ly_l1 ly) i AND DESC_VALID = 0"
        "mm_tables m' (ly_l1 ly) i AND DESC_VALID \<noteq> 0"
      then have "mm_tables m' (ly_l1 ly) i = ?d" by (auto simp: l1 split: if_splits)
      then show "walk_l2 m' (mm_tables m' (ly_l1 ly) i AND TABLE_ADDR_MASK) j k = None"
        using z [OF a(2)] by (simp add: walk_l2_def table_desc_addr [OF t(1)])
    qed
    moreover have "mm_tables m' (ly_l1 ly) i1 = ?d" by (simp add: l1)
    ultimately show ?thesis using used by blast
  qed
  then show "tables_ok ly m'" "same_map ly m m'"
    "\<exists>t \<in> l2_used ly m'. mm_tables m' (ly_l1 ly) i1 = (t OR DESC_VALID OR DESC_TABLE)" by auto
qed

section \<open>Ensuring an L3 table\<close>

text \<open>Both branches that allocate install a table \<open>f\<close> that means what the entry meant before.\<close>

lemma install_l3:
  assumes ly: "layout_ok ly" and ok: "tables_ok ly m" and t: "t \<in> l2_used ly m" and j: "j < 512"
    and room: "mm_l3_alloc_idx m < 256"
    and m': "m' = write_entry t j (ly_l3_pool ly (mm_l3_alloc_idx m) OR DESC_VALID OR DESC_TABLE)
        (fill_table (ly_l3_pool ly (mm_l3_alloc_idx m)) f
          (m\<lparr>mm_l3_alloc_idx := mm_l3_alloc_idx m + 1\<rparr>))"
    and plain: "mm_tables m t j AND DESC_VALID = 0 \<or> mm_tables m t j AND DESC_TABLE = 0"
    and same: "\<And>k. k < 512 \<Longrightarrow> walk_l2 m t j k =
        (if f k AND DESC_VALID = 0 then None else Some (f k AND TABLE_ADDR_MASK, f k AND ATTR_MASK))"
  shows "tables_ok ly m' \<and> same_map ly m m' \<and> l2_used ly m' = l2_used ly m \<and>
    mm_tables m' (ly_l1 ly) = mm_tables m (ly_l1 ly) \<and>
    (\<exists>u \<in> l3_used ly m'. mm_tables m' t j = (u OR DESC_VALID OR DESC_TABLE))"
proof -
  note okD = tables_okD [OF ok]
  define u where "u = ly_l3_pool ly (mm_l3_alloc_idx m)"
  let ?d = "u OR DESC_VALID OR DESC_TABLE"
  have u: "frame u" "u \<noteq> ly_l1 ly" using layout_facts [OF ly] room by (simp_all add: u_def)
  have used: "l2_used ly m' = l2_used ly m" "l3_used ly m' = insert u (l3_used ly m)"
    using m' by (auto simp: l2_used_def l3_used_def u_def lessThan_Suc)
  have t1: "t \<noteq> ly_l1 ly" by (rule l2_used_facts(2) [OF ly ok t])
  have not2: "x \<noteq> u" if "x \<in> l2_used ly m" for x
    using l2_used_facts(3) [OF ly ok that room] by (simp add: u_def)
  have fresh: "x \<noteq> u" if "x \<in> l3_used ly m" for x
    using l3_used_facts(5) [OF ly ok that room] by (simp add: u_def)
  have not3: "x \<noteq> t" if x: "x \<in> l3_used ly m" for x
  proof -
    obtain i where "x = ly_l3_pool ly i" "i < 256"
      using x okD(2) by (force simp: l3_used_def)
    then show ?thesis using l2_used_facts(3) [OF ly ok t, of i] by simp
  qed
  have l1: "mm_tables m' (ly_l1 ly) = mm_tables m (ly_l1 ly)"
    using m' t1 u(2) by (auto simp: fun_eq_iff simp flip: u_def)
  have l2: "mm_tables m' x i = (if x = t \<and> i = j then ?d else mm_tables m x i)"
    if "x \<in> l2_used ly m" for x i
    using m' not2 [OF that] by (simp flip: u_def)
  have l3: "mm_tables m' x i = mm_tables m x i" if "x \<in> l3_used ly m" for x i
    using m' fresh [OF that] not3 [OF that] by (simp flip: u_def)
  have new: "mm_tables m' u k = f k" if "k < 512" for k
    using m' not2 [OF t] that by (simp flip: u_def)
  have addr3: "e AND TABLE_ADDR_MASK = x" if "x \<in> l3_used ly m" "e = (x OR DESC_VALID OR DESC_TABLE)" for e x
    using that table_desc_addr l3_used_facts(1) [OF ly ok that(1)] by simp
  have no: "mm_tables m x i \<noteq> ?d" if x: "x \<in> l2_used ly m" "i < 512" for x i
  proof
    assume e: "mm_tables m x i = ?d"
    with okD(5) [OF x] obtain w where "w \<in> l3_used ly m" "?d = (w OR DESC_VALID OR DESC_TABLE)"
      by auto
    with table_desc_inj [OF u(1)] l3_used_facts(1) [OF ly ok] fresh show False by blast
  qed
  have "tables_ok ly m'"
  proof (rule tables_okI)
    show "mm_l2_alloc_idx m' \<le> 16" "mm_l3_alloc_idx m' \<le> 256" using room m' okD(1) by simp_all
  next
    fix i
    assume "i < 512" "mm_tables m' (ly_l1 ly) i AND DESC_VALID \<noteq> 0"
    then show "\<exists>t \<in> l2_used ly m'. mm_tables m' (ly_l1 ly) i = (t OR DESC_VALID OR DESC_TABLE)"
      using okD(3) [of i] by (simp add: l1 used)
  next
    fix i i'
    assume "i < 512" "i' < 512" "mm_tables m' (ly_l1 ly) i AND DESC_VALID \<noteq> 0"
      "mm_tables m' (ly_l1 ly) i = mm_tables m' (ly_l1 ly) i'"
    then show "i = i'" using okD(4) [of i i'] by (simp add: l1)
  next
    fix x i
    assume "x \<in> l2_used ly m'" "i < 512" "mm_tables m' x i AND DESC_VALID \<noteq> 0"
      "mm_tables m' x i AND DESC_TABLE \<noteq> 0"
    then show "\<exists>u \<in> l3_used ly m'. mm_tables m' x i = (u OR DESC_VALID OR DESC_TABLE)"
      using okD(5) [of x i] l2 [of x i] by (auto simp: used split: if_splits)
  next
    fix x x' i i'
    assume a: "x \<in> l2_used ly m'" "x' \<in> l2_used ly m'" "i < 512" "i' < 512"
      "mm_tables m' x i AND DESC_VALID \<noteq> 0" "mm_tables m' x i AND DESC_TABLE \<noteq> 0"
      "mm_tables m' x i = mm_tables m' x' i'"
    then have x: "x \<in> l2_used ly m" "x' \<in> l2_used ly m" by (simp_all add: used)
    show "x = x' \<and> i = i'"
      using a no [OF x(1) a(3)] no [OF x(2) a(4)] okD(6) [OF x a(3,4)]
      by (auto simp: l2 [OF x(1)] l2 [OF x(2)] split: if_splits)
  qed
  moreover have "same_map ly m m'"
  proof (rule same_mapI)
    fix i
    show "mm_tables m' (ly_l1 ly) i = mm_tables m (ly_l1 ly) i" by (simp add: l1)
  next
    fix i' j' k :: nat
    assume a: "i' < 512" "j' < 512" "k < 512" "mm_tables m (ly_l1 ly) i' AND DESC_VALID \<noteq> 0"
    from okD(3) [OF a(1,4)] obtain x where x: "x \<in> l2_used ly m"
      "mm_tables m (ly_l1 ly) i' = (x OR DESC_VALID OR DESC_TABLE)" by blast
    have addr: "mm_tables m (ly_l1 ly) i' AND TABLE_ADDR_MASK = x"
      using x table_desc_addr l2_used_facts(1) [OF ly ok x(1)] by simp
    show "walk_l2 m' (mm_tables m (ly_l1 ly) i' AND TABLE_ADDR_MASK) j' k =
        walk_l2 m (mm_tables m (ly_l1 ly) i' AND TABLE_ADDR_MASK) j' k"
    proof (cases "x = t \<and> j' = j")
      case True
      then have "mm_tables m' x j' = ?d" using l2 [OF x(1), of j'] by simp
      then have "walk_l2 m' x j' k = walk_l3 m' u k"
        by (simp add: walk_l2_def table_desc_addr [OF u(1)])
      also have "\<dots> = walk_l2 m t j k"
        using same [OF a(3)] new [OF a(3)] by (simp add: walk_l3_def Let_def)
      finally show ?thesis using True by (simp add: addr)
    next
      case False
      then have e: "mm_tables m' x j' = mm_tables m x j'" by (auto simp: l2 [OF x(1)])
      have "walk_l3 m' (mm_tables m x j' AND TABLE_ADDR_MASK) k =
          walk_l3 m (mm_tables m x j' AND TABLE_ADDR_MASK) k"
        if v: "mm_tables m x j' AND DESC_VALID \<noteq> 0" "mm_tables m x j' AND DESC_TABLE \<noteq> 0"
      proof -
        from okD(5) [OF x(1) a(2) v] obtain w where w: "w \<in> l3_used ly m"
          "mm_tables m x j' = (w OR DESC_VALID OR DESC_TABLE)" by blast
        show ?thesis using l3 [OF w(1)] by (simp add: walk_l3_def addr3 [OF w])
      qed
      then show ?thesis unfolding addr walk_l2_def e by (simp add: Let_def)
    qed
  next
    fix i j k :: nat
    assume "mm_tables m (ly_l1 ly) i AND DESC_VALID = 0" "mm_tables m' (ly_l1 ly) i AND DESC_VALID \<noteq> 0"
    then show "walk_l2 m' (mm_tables m' (ly_l1 ly) i AND TABLE_ADDR_MASK) j k = None" by (simp add: l1)
  qed
  moreover have "mm_tables m' t j = ?d" by (simp add: l2 [OF t])
  ultimately show ?thesis using used l1 by blast
qed

lemma ensure_l3_ok:
  assumes ly: "layout_ok ly" and ok: "tables_ok ly m" and t: "t \<in> l2_used ly m" and j: "j < 512"
    and run: "ensure_l3 ly t j m = Some m'"
  shows "tables_ok ly m' \<and> same_map ly m m' \<and> l2_used ly m' = l2_used ly m \<and>
    mm_tables m' (ly_l1 ly) = mm_tables m (ly_l1 ly) \<and>
    (\<exists>u \<in> l3_used ly m'. mm_tables m' t j = (u OR DESC_VALID OR DESC_TABLE))"
proof -
  let ?e = "mm_tables m t j"
  consider (old) "?e AND DESC_VALID \<noteq> 0" "?e AND DESC_TABLE \<noteq> 0"
    | (new) "?e AND DESC_VALID = 0" | (split) "?e AND DESC_VALID \<noteq> 0" "?e AND DESC_TABLE = 0"
    by blast
  then show ?thesis
  proof cases
    case old
    then have "m' = m" using run by (simp add: ensure_l3_def Let_def)
    with ok tables_okD(5) [OF ok t j old] show ?thesis by (simp add: same_map_def)
  next
    case new
    show ?thesis
      by (rule install_l3 [OF ly ok t j, of _ "\<lambda>_. 0"])
        (use new run in \<open>auto simp: ensure_l3_def Let_def not_le walk_l2_def split: if_splits\<close>)
  next
    case split
    show ?thesis
      by (rule install_l3 [OF ly ok t j, of _ "\<lambda>p. ((?e AND BLOCK_ADDR_MASK) + of_nat p * 0x1000)
          OR DESC_VALID OR DESC_PAGE OR ((?e AND NOT TABLE_ADDR_MASK) AND NOT DESC_TABLE)"])
        (use split run split_page_desc [of _ ?e] in
          \<open>auto simp: ensure_l3_def Let_def not_le walk_l2_def split: if_splits\<close>)
  qed
qed

section \<open>Writing the page\<close>

lemma write_page:
  fixes perm :: map_permission
  assumes ly: "layout_ok ly" and ok: "tables_ok ly m" and b: "i < 512" "j < 512" "k < 512"
    and t: "t \<in> l2_used ly m" "mm_tables m (ly_l1 ly) i = (t OR DESC_VALID OR DESC_TABLE)"
    and u: "u \<in> l3_used ly m" "mm_tables m t j = (u OR DESC_VALID OR DESC_TABLE)"
    and p: "frame p"
  defines "m' \<equiv> write_entry u k (p OR DESC_VALID OR DESC_PAGE OR page_flags perm) m"
  shows "tables_ok ly m'"
    and "vpn < 2 ^ 27 \<Longrightarrow> translate ly m' vpn =
      (if vpn = i * 2 ^ 18 + j * 512 + k then Some (p, page_flags perm) else translate ly m vpn)"
proof -
  note okD = tables_okD [OF ok]
  have used: "l2_used ly m' = l2_used ly m" "l3_used ly m' = l3_used ly m"
    by (simp_all add: m'_def l2_used_def l3_used_def)
  have u1: "u \<noteq> ly_l1 ly" by (rule l3_used_facts(2) [OF ly ok u(1)])
  have u2: "x \<noteq> u" if "x \<in> l2_used ly m" for x
  proof -
    obtain i where "u = ly_l3_pool ly i" "i < 256"
      using u(1) okD(2) by (force simp: l3_used_def)
    then show ?thesis using l2_used_facts(3) [OF ly ok that, of i] by simp
  qed
  have l1: "mm_tables m' (ly_l1 ly) = mm_tables m (ly_l1 ly)"
    using u1 by (auto simp: m'_def fun_eq_iff)
  have l2: "mm_tables m' x y = mm_tables m x y" if "x \<in> l2_used ly m" for x y
    using u2 [OF that] by (simp add: m'_def)
  have idx: "mm_l2_alloc_idx m' = mm_l2_alloc_idx m" "mm_l3_alloc_idx m' = mm_l3_alloc_idx m"
    by (simp_all add: m'_def)
  show "tables_ok ly m'"
    by (rule tables_okI)
      (use okD in \<open>simp_all add: l1 l2 used idx\<close>)
  assume v: "vpn < 2 ^ 27"
  let ?i = "vpn div 2 ^ 18" and ?j = "(vpn div 512) mod 512" and ?k = "vpn mod 512"
  have bv: "?i < 512" "?j < 512" "?k < 512" using vpn_parts [OF v] by auto
  note parts = vpn_split [of vpn]
  have here: "vpn = i * 2 ^ 18 + j * 512 + k \<longleftrightarrow> ?i = i \<and> ?j = j \<and> ?k = k"
    using parts vpn_join [OF b] by metis
  let ?e1 = "mm_tables m (ly_l1 ly) ?i"
  show "translate ly m' vpn =
      (if vpn = i * 2 ^ 18 + j * 512 + k then Some (p, page_flags perm) else translate ly m vpn)"
  proof (cases "?e1 AND DESC_VALID = 0")
    case True
    moreover have "?i \<noteq> i" using True t(2) by auto
    ultimately show ?thesis using here by (auto simp: translate_def l1)
  next
    case False
    from okD(3) [OF bv(1) False] obtain x where x: "x \<in> l2_used ly m" "?e1 = (x OR DESC_VALID OR DESC_TABLE)"
      by blast
    have ax: "?e1 AND TABLE_ADDR_MASK = x"
      using x table_desc_addr l2_used_facts(1) [OF ly ok x(1)] by simp
    let ?e2 = "mm_tables m x ?j"
    have tr: "translate ly n vpn = walk_l2 n x ?j ?k" if "mm_tables n (ly_l1 ly) = mm_tables m (ly_l1 ly)" for n
      using False ax that by (simp add: translate_def)
    have xt: "x = t \<longleftrightarrow> ?i = i"
      using x t okD(4) [OF bv(1) b(1) False] table_desc_inj l2_used_facts(1) [OF ly ok] by metis
    show ?thesis
    proof (cases "?e2 AND DESC_VALID \<noteq> 0 \<and> ?e2 AND DESC_TABLE \<noteq> 0")
      case False
      then have "\<not> (x = t \<and> ?j = j)" using u(2) by auto
      then have "vpn \<noteq> i * 2 ^ 18 + j * 512 + k" using here xt by auto
      moreover have "walk_l2 m' x ?j ?k = walk_l2 m x ?j ?k"
        using False by (auto simp: walk_l2_def l2 [OF x(1)] Let_def)
      ultimately show ?thesis using tr [of m'] tr [of m] l1 by simp
    next
      case True
      from okD(5) [OF x(1) bv(2)] True obtain w where w: "w \<in> l3_used ly m"
        "?e2 = (w OR DESC_VALID OR DESC_TABLE)" by blast
      have aw: "?e2 AND TABLE_ADDR_MASK = w"
        using w table_desc_addr l3_used_facts(1) [OF ly ok w(1)] by simp
      have wk: "walk_l2 n x ?j ?k = walk_l3 n w ?k" if "mm_tables n x ?j = ?e2" for n
        using True aw that by (simp add: walk_l2_def)
      have wu: "w = u \<longleftrightarrow> x = t \<and> ?j = j"
      proof
        assume "w = u"
        then have "?e2 = mm_tables m t j" using w(2) u(2) by simp
        then show "x = t \<and> ?j = j" using okD(6) [OF x(1) t(1) bv(2) b(2)] True by blast
      next
        assume "x = t \<and> ?j = j"
        then show "w = u"
          using w(2) u(2) table_desc_inj l3_used_facts(1) [OF ly ok] w(1) u(1) by metis
      qed
      have pg: "walk_l3 m' w ?k = (if w = u \<and> ?k = k then Some (p, page_flags perm) else walk_l3 m w ?k)"
        using page_desc [OF p page_flags_masks(1) [of perm]] by (auto simp: walk_l3_def m'_def Let_def)
      have "translate ly m' vpn = walk_l3 m' w ?k" "translate ly m vpn = walk_l3 m w ?k"
        using tr [of m'] tr [of m] wk [of m'] wk [of m] l1 l2 [OF x(1)] by simp_all
      moreover have "vpn = i * 2 ^ 18 + j * 512 + k \<longleftrightarrow> w = u \<and> ?k = k" using here wu xt by blast
      ultimately show ?thesis using pg by auto
    qed
  qed
qed

section \<open>A page, a range\<close>

lemma page_index:
  fixes v :: nat
  assumes "v = vpn * 0x1000"
  shows "v div 2 ^ 30 = vpn div 2 ^ 18" "v div 2 ^ 21 = vpn div 512" "v div 2 ^ 12 = vpn"
proof -
  have "v div 2 ^ 30 = v div 0x1000 div 2 ^ 18" "v div 2 ^ 21 = v div 0x1000 div 512"
    by (simp_all add: div_mult2_eq [symmetric])
  then show "v div 2 ^ 30 = vpn div 2 ^ 18" "v div 2 ^ 21 = vpn div 512" "v div 2 ^ 12 = vpn"
    using assms by simp_all
qed

lemma map_page_ok:
  assumes ly: "layout_ok ly" and ok: "tables_ok ly m" and v: "vpn < 2 ^ 27" and p: "frame p"
    and run: "map_page ly perm (vpn * 0x1000) p m = Some m'"
  shows "tables_ok ly m'"
    and "vpn' < 2 ^ 27 \<Longrightarrow> translate ly m' vpn' =
      (if vpn' = vpn then Some (p, page_flags perm) else translate ly m vpn')"
proof -
  let ?i = "vpn div 2 ^ 18" and ?j = "(vpn div 512) mod 512" and ?k = "vpn mod 512"
  have b: "?i < 512" "?j < 512" "?k < 512" using vpn_parts [OF v] by auto
  note ix = page_index [OF refl, of vpn]
  from run obtain m1 m2 where
    m1: "ensure_l2 ly ?i m = Some m1" and
    m2: "ensure_l3 ly (mm_tables m1 (ly_l1 ly) ?i AND TABLE_ADDR_MASK) ?j m1 = Some m2" and
    m3: "m' = write_entry (mm_tables m2 (mm_tables m1 (ly_l1 ly) ?i AND TABLE_ADDR_MASK) ?j
        AND TABLE_ADDR_MASK) ?k (p OR DESC_VALID OR DESC_PAGE OR page_flags perm) m2"
    unfolding map_page_def ix Let_def by (auto split: option.splits)
  note a = ensure_l2_ok [OF ly ok b(1) m1]
  obtain t where t: "t \<in> l2_used ly m1" "mm_tables m1 (ly_l1 ly) ?i = (t OR DESC_VALID OR DESC_TABLE)"
    using a(3) by blast
  have at: "mm_tables m1 (ly_l1 ly) ?i AND TABLE_ADDR_MASK = t"
    using t table_desc_addr l2_used_facts(1) [OF ly a(1) t(1)] by simp
  from ensure_l3_ok [OF ly a(1) t(1) b(2) m2 [unfolded at]] obtain u where
    c: "tables_ok ly m2" "same_map ly m1 m2" "l2_used ly m2 = l2_used ly m1"
      "mm_tables m2 (ly_l1 ly) = mm_tables m1 (ly_l1 ly)"
    and u: "u \<in> l3_used ly m2" "mm_tables m2 t ?j = (u OR DESC_VALID OR DESC_TABLE)" by blast
  have au: "mm_tables m2 t ?j AND TABLE_ADDR_MASK = u"
    using u table_desc_addr l3_used_facts(1) [OF ly c(1) u(1)] by simp
  have t': "t \<in> l2_used ly m2" "mm_tables m2 (ly_l1 ly) ?i = (t OR DESC_VALID OR DESC_TABLE)"
    using t c(3,4) by simp_all
  note w = write_page [OF ly c(1) b t' u p]
  have m': "m' = write_entry u ?k (p OR DESC_VALID OR DESC_PAGE OR page_flags perm) m2"
    using m3 unfolding at au .
  show "tables_ok ly m'" unfolding m' by (rule w(1))
  note parts = vpn_split [of vpn]
  assume v': "vpn' < 2 ^ 27"
  have "translate ly m2 vpn' = translate ly m vpn'"
    using v' a(2) c(2) by (simp add: same_map_def)
  then show "translate ly m' vpn' =
      (if vpn' = vpn then Some (p, page_flags perm) else translate ly m vpn')"
    unfolding m' w(2) [OF v'] parts [symmetric] by simp
qed

lemma frame_next:
  assumes "frame p" and "unat p + n * 0x1000 < 2 ^ 48" and "0 < n"
  shows "unat (p + 0x1000) = unat p + 0x1000" "frame (p + of_nat n * 0x1000)"
proof -
  have n: "unat (of_nat n * 0x1000 :: u64) = n * 0x1000"
    using assms(2) by (simp add: unat_word_ariths unat_of_nat take_bit_nat_eq_self)
  show "unat (p + 0x1000) = unat p + 0x1000" using assms(2,3) by (simp add: unat_word_ariths)
  have "unat (p + of_nat n * 0x1000) = unat p + n * 0x1000"
    using assms(2) n by (simp add: unat_word_ariths)
  then show "frame (p + of_nat n * 0x1000)" using assms(1,2) by (auto simp: frame_iff)
qed

lemma map_pages_ok:
  assumes "layout_ok ly" and "tables_ok ly m" and "vpn + n \<le> 2 ^ 27" and "frame p"
    and "unat p + n * 0x1000 < 2 ^ 48" and "map_pages ly perm n (vpn * 0x1000) p m = Some m'"
  shows "tables_ok ly m' \<and> (\<forall>vpn' < 2 ^ 27. translate ly m' vpn' =
      (if vpn \<le> vpn' \<and> vpn' < vpn + n
       then Some (p + of_nat (vpn' - vpn) * 0x1000, page_flags perm)
       else translate ly m vpn'))"
  using assms(2-)
proof (induction n arbitrary: vpn p m)
  case 0
  then show ?case by auto
next
  case (Suc n)
  have v: "vpn < 2 ^ 27" "\<not> 512 \<le> vpn * 0x1000 div 2 ^ 30"
    using Suc.prems(2) by (simp_all add: page_index(1) [OF refl])
  have n: "unat (p + 0x1000) = unat p + 0x1000"
    using frame_next(1) [OF Suc.prems(3), of 1] Suc.prems(4) by simp
  have f: "frame (p + 0x1000)"
    using frame_next(2) [OF Suc.prems(3), of 1] Suc.prems(4) by simp
  from Suc.prems(5) v obtain m1 where m1: "map_page ly perm (vpn * 0x1000) p m = Some m1"
    and m2: "map_pages ly perm n (Suc vpn * 0x1000) (p + 0x1000) m1 = Some m'"
    by (auto split: option.splits if_splits simp: add.commute)
  note s = map_page_ok [OF assms(1) Suc.prems(1) v(1) Suc.prems(3) m1]
  have r: "tables_ok ly m' \<and> (\<forall>vpn' < 2 ^ 27. translate ly m' vpn' =
      (if Suc vpn \<le> vpn' \<and> vpn' < Suc vpn + n
       then Some (p + 0x1000 + of_nat (vpn' - Suc vpn) * 0x1000, page_flags perm)
       else translate ly m1 vpn'))"
    by (rule Suc.IH [OF s(1) _ f _ m2]) (use Suc.prems(2,4) n in simp_all)
  have shift: "p + 0x1000 + of_nat (vpn' - Suc vpn) * 0x1000 = p + of_nat (vpn' - vpn) * 0x1000"
    if "Suc vpn \<le> vpn'" for vpn'
  proof -
    from that obtain d where "vpn' = Suc vpn + d" using le_Suc_ex by blast
    then show ?thesis by (simp add: algebra_simps)
  qed
  show ?case
  proof (intro conjI allI impI)
    show "tables_ok ly m'" using r by blast
  next
    fix vpn' :: nat
    assume v': "vpn' < 2 ^ 27"
    show "translate ly m' vpn' = (if vpn \<le> vpn' \<and> vpn' < vpn + Suc n
       then Some (p + of_nat (vpn' - vpn) * 0x1000, page_flags perm) else translate ly m vpn')"
      using r v' s(2) [OF v'] shift [of vpn'] by auto
  qed
qed

lemma unat_page: "unat (a AND NOT 0xFFF :: u64) = unat a div 0x1000 * 0x1000"
proof -
  have m: "(NOT 0xFFF :: u64) = push_bit 12 (mask 52)" by (simp add: mask_eq_exp_minus_1)
  have "unat a < 2 ^ LENGTH(64)" by (rule unsigned_less)
  then have "unat a < 2 ^ 64" by simp
  then show ?thesis unfolding m using unat_field [of 12 52 a] by simp
qed

lemma map_range_ok:
  assumes ly: "layout_ok ly" and ok: "tables_ok ly m"
    and v: "unat vaddr + unat sz + 0xFFF \<le> 2 ^ 39" and p: "unat paddr + unat sz + 0x1FFF < 2 ^ 48"
    and run: "map_range ly vaddr paddr sz perm m = Some m'"
  shows "tables_ok ly m' \<and> (\<forall>vpn < 2 ^ 27. translate ly m' vpn =
     (if unat vaddr div 0x1000 \<le> vpn \<and> vpn < (unat vaddr + unat sz + 0xFFF) div 0x1000
      then Some ((paddr AND NOT 0xFFF) + of_nat (vpn - unat vaddr div 0x1000) * 0x1000, page_flags perm)
      else translate ly m vpn))"
proof -
  let ?s = "unat vaddr div 0x1000" and ?e = "(unat vaddr + unat sz + 0xFFF) div 0x1000"
  have le: "?s \<le> ?e" by (intro div_le_mono) simp
  have e27: "?e \<le> 2 ^ 27" using div_le_mono [OF v, where k = "0x1000"] by simp
  have n: "(?e * 0x1000 - ?s * 0x1000) div 0x1000 = ?e - ?s" by (simp flip: diff_mult_distrib)
  have "?e * 0x1000 \<le> unat vaddr + unat sz + 0xFFF" "unat vaddr < ?s * 0x1000 + 0x1000"
    using div_mult_mod_eq [of "unat vaddr + unat sz + 0xFFF" "0x1000"]
      div_mult_mod_eq [of "unat vaddr" "0x1000"]
      mod_less_divisor [where n = "0x1000" and m = "unat vaddr"] by linarith+
  then have "?e * 0x1000 \<le> ?s * 0x1000 + unat sz + 0x1FFE" by simp
  then have len: "(?e - ?s) * 0x1000 \<le> unat sz + 0x1FFE" unfolding diff_mult_distrib by simp
  have pp: "unat (paddr AND NOT 0xFFF) \<le> unat paddr" unfolding unat_page by simp
  have room: "unat (paddr AND NOT 0xFFF) + (?e - ?s) * 0x1000 < 2 ^ 48" using len pp p by linarith
  have f: "frame (paddr AND NOT 0xFFF)" using room unfolding frame_iff unat_page by simp
  have "map_pages ly perm (?e - ?s) (?s * 0x1000) (paddr AND NOT 0xFFF) m = Some m'"
    using run v unfolding map_range_def Let_def n by (simp split: if_splits)
  from map_pages_ok [OF ly ok _ f room this] le e27 show ?thesis by simp
qed

end
