(* ===== verification/SyscallSpec.thy ===== *)
theory SyscallSpec
  imports KernelInv HfsFsSpec MmuMap
begin

text \<open>What the system calls do when nothing goes wrong: the lemmas behind the properties of \<open>SyscallProps\<close>.\<close>

unbundle bit_operations_syntax

section \<open>Parts\<close>

lemma on_mem_Ok:
  assumes "m (kn_vm k) = (Ok a, s)"
  shows "bnd (on_mem m) h k = h a (k\<lparr>kn_vm := s\<rparr>)"
  by (simp add: bnd_def on_mem_def assms)

lemma on_fs_Ok:
  assumes "m (kn_fs k) = (Ok a, v)"
  shows "bnd (on_fs m) h k = h a (k\<lparr>kn_fs := v\<rparr>)"
  by (simp add: bnd_def on_fs_def assms)

lemma kernel_runs [simp]:
  "bnd get_current h k = h (sc_current (kn_sched k)) k"
  "bnd (set_current p) g k = g () (k\<lparr>kn_sched := (kn_sched k)\<lparr>sc_current := Some p\<rparr>\<rparr>)"
  "bnd (set_file p fd x) g k = g () (k\<lparr>kn_sched := (kn_sched k)\<lparr>sc_current := Some (p\<lparr>pr_files := (pr_files p)[fd := x]\<rparr>)\<rparr>\<rparr>)"
  by (simp_all add: bnd_def get_current_def set_current_def set_file_def)

section \<open>Reading\<close>

context disk begin

text \<open>A file of the mounted volume reads its bytes from its position on.\<close>

lemma file_read_ok:
  assumes "fs_hfs v = Some (vol, st)" and "ready (vs_file st) q" and "handle_ok content fk"
    and "ve_dev env = dev"
  shows "\<exists>s' q'. file_read env (HfsFile fk) n v =
    (Ok (take n (drop (fk_position fk) (file_bytes content fk)),
         HfsFile (fk\<lparr>fk_position := fk_position fk +
           length (take n (drop (fk_position fk) (file_bytes content fk)))\<rparr>)),
     v\<lparr>fs_hfs := Some (vol, st\<lparr>vs_file := s'\<rparr>)\<rparr>) \<and> ready s' q'"
proof -
  from hfs_file_read_ok [OF assms(2,3), of "ve_unz env" n] obtain s' q' where
    "hfs_file_read dev (ve_unz env) n (fk, vs_file st) =
      (Ok (take n (drop (fk_position fk) (file_bytes content fk))),
       (fk\<lparr>fk_position := fk_position fk + length (take n (drop (fk_position fk) (file_bytes content fk)))\<rparr>, s'))"
    "ready s' q'" by blast
  then show ?thesis
    using assms(1,4) by (auto simp: file_read_def on_hfs_file_def with_volume_def)
qed

text \<open>A read of an open file into memory.\<close>

lemma read_fd_ok:
  assumes "sc_current (kn_sched k) = Some p" and "file_at p fd = Some (HfsFile fk)"
    and "fs_hfs (kn_fs k) = Some (vol, st)" and "ready (vs_file st) q" and "handle_ok content fk"
    and "ve_dev (ke_vfs env) = dev" and "bs = take n (drop (fk_position fk) (file_bytes content fk))"
    and "buffer (ke_layout env) (vm_mmu (kn_vm k)) buf (length bs)"
  shows "\<exists>k' s' q'. read_fd env fd buf n k = (Ok (length bs), k') \<and>
    KMem.content (ke_layout env) (kn_vm k') buf (length bs) = bs \<and>
    only_changed (ke_layout env) buf (length bs) (kn_vm k) (kn_vm k') \<and>
    sc_current (kn_sched k') = Some (p\<lparr>pr_files := (pr_files p)
      [fd := Some (HfsFile (fk\<lparr>fk_position := fk_position fk + length bs\<rparr>))]\<rparr>) \<and>
    sc_processes (kn_sched k') = sc_processes (kn_sched k) \<and>
    fs_hfs (kn_fs k') = Some (vol, st\<lparr>vs_file := s'\<rparr>) \<and> ready s' q'"
proof -
  let ?h = "HfsFile (fk\<lparr>fk_position := fk_position fk + length bs\<rparr>)"
  from file_read_ok [OF assms(3-6), of n, folded assms(7)] obtain s' q' where
    r: "file_read (ke_vfs env) (HfsFile fk) n (kn_fs k) = (Ok (bs, ?h), (kn_fs k)\<lparr>fs_hfs := Some (vol, st\<lparr>vs_file := s'\<rparr>)\<rparr>)"
    and q: "ready s' q'" by blast
  let ?k = "k\<lparr>kn_fs := (kn_fs k)\<lparr>fs_hfs := Some (vol, st\<lparr>vs_file := s'\<rparr>)\<rparr>,
    kn_sched := (kn_sched k)\<lparr>sc_current := Some (p\<lparr>pr_files := (pr_files p)[fd := Some ?h]\<rparr>)\<rparr>\<rparr>"
  from store_bytes_ok [OF assms(8)] obtain s where
    s: "store_bytes (ke_layout env) buf bs (kn_vm k) = (Ok (), s)"
    "KMem.content (ke_layout env) s buf (length bs) = bs" "only_changed (ke_layout env) buf (length bs) (kn_vm k) s" by blast
  have "read_fd env fd buf n k = (Ok (length bs), ?k\<lparr>kn_vm := s\<rparr>)"
    using assms(1,2) s(1)
    by (simp add: read_fd_def on_fs_Ok [where m = "file_read (ke_vfs env) (HfsFile fk) n", OF r]
        on_mem_Ok [where m = "store_bytes (ke_layout env) buf bs" and s = s] ret_run)
  with s q show ?thesis by auto
qed

end

section \<open>Paths\<close>

text \<open>Bytes that can be read at a user address.\<close>

definition bytes_at :: "table_layout \<Rightarrow> vm \<Rightarrow> u64 \<Rightarrow> bytes \<Rightarrow> bool" where
  "bytes_at ly s va bs \<longleftrightarrow> (\<forall>i < length bs. \<exists>p attr. phys_addr ly (vm_mmu s) (va + of_nat i) = Some (p, attr) \<and>
     vm_phys s p = bs ! i)"

lemma bytes_at_Cons:
  assumes "bytes_at ly s va (b # bs)"
  shows "load8 ly va s = (Ok b, s)" and "bytes_at ly s (va + 1) bs"
proof -
  have all: "\<exists>p attr. phys_addr ly (vm_mmu s) (va + of_nat i) = Some (p, attr) \<and> vm_phys s p = (b # bs) ! i"
    if "i < Suc (length bs)" for i using assms that by (simp add: bytes_at_def)
  show "load8 ly va s = (Ok b, s)" using all [of 0] by (auto simp: load8_def)
  show "bytes_at ly s (va + 1) bs"
    using all [of "Suc i" for i] by (auto simp: bytes_at_def add.assoc)
qed

lemma read_path_ok:
  "bytes_at ly s va (bs @ [0]) \<Longrightarrow> 0 \<notin> set bs \<Longrightarrow> length bs \<le> n \<Longrightarrow> read_path ly va n s = (Ok bs, s)"
proof (induction bs arbitrary: va n)
  case Nil
  then show ?case
    using bytes_at_Cons(1) [of ly s va 0 "[]"]
    by (cases n) (simp_all add: ret_run bnd_Ok [where m = "load8 ly va"])
next
  case (Cons b bs)
  then obtain m where n: "n = Suc m" "length bs \<le> m" by (cases n) auto
  have c: "load8 ly va s = (Ok b, s)" "bytes_at ly s (va + 1) (bs @ [0])"
    using bytes_at_Cons [of ly s va b "bs @ [0]"] Cons.prems(1) by simp_all
  from Cons.IH [OF c(2) _ n(2)] Cons.prems(2)
  have "read_path ly (va + 1) m s = (Ok bs, s)" by simp
  then show ?case
    using Cons.prems(2) n(1)
    by (auto simp: bnd_Ok [where m = "load8 ly va", OF c(1)] bnd_Ok [where m = "read_path ly (va + 1) m"] ret_run)
qed

text \<open>A path in user memory: its encoding and a final zero.\<close>

definition path_at :: "table_layout \<Rightarrow> vm \<Rightarrow> u64 \<Rightarrow> ustring \<Rightarrow> bool" where
  "path_at ly s va path \<longleftrightarrow> bytes_at ly s va (as_bytes path @ [0]) \<and> list_all scalar_value path \<and>
     0 \<notin> set path \<and> length (as_bytes path) \<le> 127"

lemma utf8_bytes_no_zero: "scalar_value c \<Longrightarrow> c \<noteq> 0 \<Longrightarrow> 0 \<notin> set (utf8_bytes c)"
proof -
  assume c: "scalar_value c" "c \<noteq> 0"
  have nz: "(of_nat n :: u8) \<noteq> 0" if "0 < n" "n < 256" for n
    using that unat_byte [of n] by (metis less_numeral_extra(3) unat_0)
  have d: "c div 262144 < 5" "c < 0x110000" using c by (auto simp: scalar_value_def less_mult_imp_div_less)
  consider "c < 0x80" | "0x80 \<le> c" "c < 0x800" | "0x800 \<le> c" "c < 0x10000" | "0x10000 \<le> c" by linarith
  then show ?thesis
  proof cases
    case 1
    then show ?thesis using c nz [of c] by (simp add: utf8_bytes_def)
  next
    case 2
    then have "c div 64 < 32" by (simp add: less_mult_imp_div_less)
    then show ?thesis using 2 nz [of "0xC0 + c div 64"] nz [of "0x80 + c mod 64"] by (simp add: utf8_bytes_def del: of_nat_add)
  next
    case 3
    then have "c div 4096 < 16" by (simp add: less_mult_imp_div_less)
    then show ?thesis
      using 3 nz [of "0xE0 + c div 4096"] nz [of "0x80 + c div 64 mod 64"] nz [of "0x80 + c mod 64"]
      by (simp add: utf8_bytes_def del: of_nat_add)
  next
    case 4
    then show ?thesis
      using d nz [of "0xF0 + c div 262144"] nz [of "0x80 + c div 4096 mod 64"] nz [of "0x80 + c div 64 mod 64"]
        nz [of "0x80 + c mod 64"] by (simp add: utf8_bytes_def del: of_nat_add)
  qed
qed

lemma user_path_ok:
  assumes "path_at (ke_layout env) (kn_vm k) va path"
  shows "user_path env va d k = (Ok path, k)"
proof -
  have "0 \<notin> set (as_bytes path)"
    using assms utf8_bytes_no_zero by (fastforce simp: path_at_def as_bytes_def list_all_iff)
  then have "read_path (ke_layout env) va 127 (kn_vm k) = (Ok (as_bytes path), kn_vm k)"
    using assms by (intro read_path_ok) (simp_all add: path_at_def)
  moreover have "utf8_decode (as_bytes path) = Some path"
    using assms by (intro utf8_decode_bytes) (simp add: path_at_def)
  ultimately show ?thesis
    by (simp add: user_path_def on_mem_Ok [where m = "read_path (ke_layout env) va 127" and s = "kn_vm k"] ret_run)
qed

section \<open>Opening\<close>

lemma free_fd_takeWhile:
  "free_fd n slots = (if None \<in> set slots then Some (n + length (takeWhile (\<lambda>s. s \<noteq> None) slots)) else None)"
  by (induction slots arbitrary: n) auto

lemma free_fd_None: "free_fd 0 slots = None \<longleftrightarrow> None \<notin> set slots"
  by (simp add: free_fd_takeWhile)

lemma free_fd_Some:
  assumes "free_fd 0 slots = Some fd"
  shows "fd < length slots" "slots ! fd = None" "\<And>i. i < fd \<Longrightarrow> slots ! i \<noteq> None"
proof -
  let ?t = "takeWhile (\<lambda>s. s \<noteq> None) slots"
  have fd: "fd = length ?t" and m: "None \<in> set slots"
    using assms by (auto simp: free_fd_takeWhile split: if_splits)
  have "?t \<noteq> slots" using m set_takeWhileD by fastforce
  then show l: "fd < length slots"
    unfolding fd by (metis length_takeWhile_le nat_less_le takeWhile_eq_take take_all_iff)
  then show "slots ! fd = None" using nth_length_takeWhile [of "\<lambda>s. s \<noteq> None" slots] by (simp add: fd)
  show "slots ! i \<noteq> None" if "i < fd" for i
  proof -
    have "?t ! i \<in> set ?t" using that by (simp add: fd)
    moreover have "?t ! i = slots ! i" using that by (simp add: fd takeWhile_nth)
    ultimately show ?thesis using set_takeWhileD by metis
  qed
qed

text \<open>The path names the file whose fork is \<open>fk\<close>, in the catalog and the extents of the volume.\<close>

definition names_file ::
  "bytes \<Rightarrow> volume \<Rightarrow> (catalog_key, catalog_record) tree \<Rightarrow> (extent_key_rec, extent_record) tree \<Rightarrow> nat \<Rightarrow>
   (ustring \<Rightarrow> ustring) \<Rightarrow> ustring \<Rightarrow> fork \<Rightarrow> bool" where
  "names_file img vol ctr etr fuel nfd path fk \<longleftrightarrow> (\<exists>r f data ft recs bs l es.
     path_parts path \<noteq> [] \<and>
     walk (catalog_order (vol_catalog vol)) (tree_records ctr) 2 (map (\<lambda>p. encode_utf16 (nfd p)) (path_parts path)) r \<and>
     cr_body r = BFile f \<and> chosen_fork f = (data, ft) \<and>
     bs = unat (vh_block_size (vol_header vol)) \<and> l = unat (fd_logical_size data) \<and>
     es = fd_extents data @ concat (map er_body recs) \<and>
     overflow_chain (tree_db extent_tree_ops etr) (cfi_file_id f) ft bs l
       (block_total (fd_extents data) * bs) (block_total (fd_extents data)) recs \<and>
     block_total es * bs < 2 ^ 64 \<and> block_total es < 2 ^ 32 \<and> length recs \<le> fuel \<and>
     on_volume img bs (map_extents bs l 0 es) \<and> plain (fork_content img bs (map_extents bs l 0 es)) \<and>
     fk = loaded_fork (cfi_file_id f) ft bs l es)"

lemma names_file_ok:
  assumes "mounted dev img ready vbs cexts eexts vol ctr etr fuel v"
    and "names_file img vol ctr etr fuel nfd path fk"
  shows "\<exists>v'. hfsfs_open_file dev unz nfd vol fuel path v = (Ok (Some fk), v') \<and>
      mounted dev img ready vbs cexts eexts vol ctr etr fuel v'"
    and "handle_ok img fk" and "fk_position fk = 0"
proof -
  from assms(2) obtain r f data ft recs bs l es where n: "path_parts path \<noteq> []"
    "walk (catalog_order (vol_catalog vol)) (tree_records ctr) 2 (map (\<lambda>p. encode_utf16 (nfd p)) (path_parts path)) r"
    "cr_body r = BFile f" "chosen_fork f = (data, ft)"
    "bs = unat (vh_block_size (vol_header vol))" "l = unat (fd_logical_size data)"
    "es = fd_extents data @ concat (map er_body recs)"
    "overflow_chain (tree_db extent_tree_ops etr) (cfi_file_id f) ft bs l
       (block_total (fd_extents data) * bs) (block_total (fd_extents data)) recs"
    "block_total es * bs < 2 ^ 64" "block_total es < 2 ^ 32" "length recs \<le> fuel"
    and o: "on_volume img bs (map_extents bs l 0 es)" "plain (fork_content img bs (map_extents bs l 0 es))"
    and fk: "fk = loaded_fork (cfi_file_id f) ft bs l es"
    unfolding names_file_def by blast
  from hfsfs_open_file_ok [OF assms(1) n, of unz] show "\<exists>v'. hfsfs_open_file dev unz nfd vol fuel path v = (Ok (Some fk), v') \<and>
      mounted dev img ready vbs cexts eexts vol ctr etr fuel v'" unfolding fk .
  show "handle_ok img fk" "fk_position fk = 0"
    using loaded_fork_ok [OF o(1), of "cfi_file_id f" ft] o(2) by (simp_all add: fk handle_ok_def loaded_fork_def)
qed

lemma vfs_open_ok:
  assumes "fs_hfs v = Some (vol, st)" and "path \<noteq> DEV_RANDOM" and "path \<noteq> DEV_URANDOM"
    and "hfsfs_open_file (ve_dev env) (ve_unz env) (ve_nfd env) vol (ve_fuel env) path st = (Ok file, st')"
  shows "vfs_open env path v = (Ok (map_option HfsFile file), v\<lparr>fs_hfs := Some (vol, st')\<rparr>)"
proof -
  have "with_volume (\<lambda>vol. hfsfs_open_file (ve_dev env) (ve_unz env) (ve_nfd env) vol (ve_fuel env) path) v =
      (Ok file, v\<lparr>fs_hfs := Some (vol, st')\<rparr>)"
    using assms(1,4) by (simp add: with_volume_def)
  then show ?thesis
    using assms(1-3) by (simp add: vfs_open_def ret_run bnd_Ok [where m = "with_volume _"])
qed

text \<open>The call \<open>open\<close>, and a read of what it opened.\<close>

lemma open_call_ok:
  assumes "mounted dev img ready vbs cexts eexts vol ctr etr fuel st" and "fs_hfs (kn_fs k) = Some (vol, st)"
    and "ve_dev (ke_vfs env) = dev" and "ve_fuel (ke_vfs env) = fuel"
    and "path_at (ke_layout env) (kn_vm k) (tf_x f 0) path" and "path \<noteq> DEV_RANDOM" and "path \<noteq> DEV_URANDOM"
    and "names_file img vol ctr etr fuel (ve_nfd (ke_vfs env)) path fk"
    and "sc_current (kn_sched k) = Some p"
  shows "\<exists>st'. mounted dev img ready vbs cexts eexts vol ctr etr fuel st' \<and>
    a32_call env 5 f k = (case free_fd 0 (pr_files p) of
      Some fd \<Rightarrow> (Ok (set_ok (of_nat fd) f), k\<lparr>kn_fs := (kn_fs k)\<lparr>fs_hfs := Some (vol, st')\<rparr>,
        kn_sched := (kn_sched k)\<lparr>sc_current := Some (p\<lparr>pr_files := (pr_files p)[fd := Some (HfsFile fk)]\<rparr>)\<rparr>\<rparr>)
    | None \<Rightarrow> (Ok (set_err 24 f), k\<lparr>kn_fs := (kn_fs k)\<lparr>fs_hfs := Some (vol, st')\<rparr>\<rparr>))"
proof -
  from names_file_ok(1) [OF assms(1,8), of "ve_unz (ke_vfs env)"] assms(3,4) obtain st' where
    o: "hfsfs_open_file (ve_dev (ke_vfs env)) (ve_unz (ke_vfs env)) (ve_nfd (ke_vfs env)) vol (ve_fuel (ke_vfs env)) path st
      = (Ok (Some fk), st')" and m: "mounted dev img ready vbs cexts eexts vol ctr etr fuel st'" by blast
  have v: "vfs_open (ke_vfs env) path (kn_fs k) = (Ok (Some (HfsFile fk)), (kn_fs k)\<lparr>fs_hfs := Some (vol, st')\<rparr>)"
    using vfs_open_ok [OF assms(2,6,7) o] by simp
  have "a32_call env 5 f k = sys_open env f k" by (simp add: a32_call_def fixed_answers_eq)
  then show ?thesis
    using m assms(9)
    by (intro exI [of _ st'] conjI) (simp_all add: sys_open_def ret_run
        bnd_Ok [where m = "user_path env _ _", OF user_path_ok [OF assms(5)]]
        on_fs_Ok [where m = "vfs_open (ke_vfs env) path", OF v] split: option.split)
qed

lemma read_call_ok:
  assumes "mounted dev img ready vbs cexts eexts vol ctr etr fuel st"
    and "sc_current (kn_sched k) = Some p" and "file_at p fd = Some (HfsFile fk)" and "fs_hfs (kn_fs k) = Some (vol, st)"
    and "unat (tf_x g 0) = fd" and "ve_dev (ke_vfs env) = dev" and "handle_ok img fk"
    and "buffer (ke_layout env) (vm_mmu (kn_vm k)) (tf_x g 1) (length bs)" and "num = 3 \<or> num = 153"
    and "bs = take (unat (tf_x g 2)) (drop (fk_position fk) (file_bytes img fk))"
  shows "\<exists>k2. a32_call env num g k = (Ok (set_ok (of_nat (length bs)) g), k2) \<and>
    content (ke_layout env) (kn_vm k2) (tf_x g 1) (length bs) = bs \<and>
    only_changed (ke_layout env) (tf_x g 1) (length bs) (kn_vm k) (kn_vm k2)"
proof -
  obtain q where d: "disk dev img ready" "ready (vs_file st) q" using mounted_disk [OF assms(1)] by blast
  from disk.read_fd_ok [OF d(1) assms(2-4) d(2) assms(7,6,10,8)]
  obtain k2 where r: "read_fd env fd (tf_x g 1) (unat (tf_x g 2)) k = (Ok (length bs), k2)"
    "content (ke_layout env) (kn_vm k2) (tf_x g 1) (length bs) = bs"
    "only_changed (ke_layout env) (tf_x g 1) (length bs) (kn_vm k) (kn_vm k2)" by blast
  have "a32_call env num g = sys_read env g"
    using assms(9) by (auto simp: a32_call_def fixed_answers_eq)
  then have "a32_call env num g k = (Ok (set_ok (of_nat (length bs)) g), k2)"
    by (simp add: sys_read_def assms(5) bnd_Ok [where m = "read_fd env fd (tf_x g 1) (unat (tf_x g 2))", OF r(1)] ret_run
        del: One_nat_def)
  with r show ?thesis by blast
qed

section \<open>Mapping\<close>

lemma frame_aligned: "frame p \<Longrightarrow> p AND NOT 0xFFF = p"
  unfolding frame_iff word_unat_eq_iff unat_page by simp

lemma unat_offset: "unat (va :: u64) + i < 2 ^ 64 \<Longrightarrow> unat (va + of_nat i) = unat va + i"
  by (simp add: unat_word_ariths unat_of_nat take_bit_nat_eq_self)

text \<open>The addresses of a range that was mapped.\<close>

lemma mapped_address:
  assumes "layout_ok ly" and "tables_ok ly m" and "map_range ly va p sz perm m = Some m'"
    and "unat va mod 0x1000 = 0" and "frame p" and "unat va + unat sz + 0xFFF \<le> 2 ^ 32"
    and "unat p + unat sz + 0x1FFF < 2 ^ 48" and "i < unat sz"
  shows "phys_addr ly m' (va + of_nat i) = Some (p + of_nat i, page_flags perm)"
proof -
  have u: "unat (va + of_nat i) = unat va + i" using assms(6,8) by (intro unat_offset) simp
  have d: "(unat va + i) div 0x1000 = unat va div 0x1000 + i div 0x1000" "(unat va + i) mod 0x1000 = i mod 0x1000"
    using assms(4) by (simp_all add: div_add1_eq mod_add_eq [symmetric])
  have "unat va + i < unat va + unat sz + 0xFFF - 0xFFE" using assms(8) by simp
  have hi: "(unat va + i) div 0x1000 < (unat va + unat sz + 0xFFF) div 0x1000"
  proof -
    have "(unat va + i + 0x1000) div 0x1000 \<le> (unat va + unat sz + 0xFFF) div 0x1000"
      using assms(8) by (intro div_le_mono) simp
    then show ?thesis by simp
  qed
  have b: "(unat va + i) div 0x1000 < 2 ^ 27"
    using assms(6,8) by (simp add: less_mult_imp_div_less)
  have "translate ly m' ((unat va + i) div 0x1000) =
      Some (p + of_nat ((unat va + i) div 0x1000 - unat va div 0x1000) * 0x1000, page_flags perm)"
    using map_range_ok [OF assms(1,2) _ assms(7,3), unfolded frame_aligned [OF assms(5)]] assms(6) b hi
    by (simp add: div_le_mono)
  then have t: "translate ly m' (unat (va + of_nat i) div 0x1000) = Some (p + of_nat (i div 0x1000) * 0x1000, page_flags perm)"
    by (simp add: u d(1))
  have "of_nat (i div 0x1000) * 0x1000 + of_nat (i mod 0x1000) = (of_nat (i div 0x1000 * 0x1000 + i mod 0x1000) :: u64)"
    by (simp only: of_nat_add of_nat_mult of_nat_numeral)
  then have s: "p + of_nat (i div 0x1000) * 0x1000 + of_nat (i mod 0x1000) = p + of_nat i"
    by (simp only: div_mult_mod_eq add.assoc)
  have lt: "\<not> 2 ^ 32 \<le> unat (va + of_nat i)" using u assms(6,8) by simp
  show ?thesis
    unfolding phys_addr_def t using lt s by (simp add: u d(2))
qed

text \<open>A block of the heap, at its own address.\<close>

definition heap_block :: "table_layout \<Rightarrow> mmu \<Rightarrow> u64 \<Rightarrow> nat \<Rightarrow> bool" where
  "heap_block ly m p n \<longleftrightarrow> buffer ly m p n \<and> (\<forall>i < n. place ly m p i = p + of_nat i)"

lemma alloc_zeroed_ok:
  assumes "ke_alloc env (kn_heap k) n = Some p" and "n < 2 ^ 62" and "heap_block (ke_layout env) (vm_mmu (kn_vm k)) p n"
  shows "\<exists>s. alloc_zeroed env n k = (Ok (Some p), k\<lparr>kn_heap := (p, n) # kn_heap k, kn_vm := s\<rparr>) \<and>
    vm_mmu s = vm_mmu (kn_vm k) \<and> (\<forall>i < n. vm_phys s (p + of_nat i) = 0) \<and> only_changed (ke_layout env) p n (kn_vm k) s"
proof -
  let ?ly = "ke_layout env"
  have "buffer ?ly (vm_mmu (kn_vm k)) p (length (replicate n (0 :: u8)))" using assms(3) by (simp add: heap_block_def)
  from store_bytes_ok [OF this] obtain s where s: "store_bytes ?ly p (replicate n 0) (kn_vm k) = (Ok (), s)"
    "content ?ly s p n = replicate n 0" "only_changed ?ly p n (kn_vm k) s" by auto
  have m: "vm_mmu s = vm_mmu (kn_vm k)" using s(3) by (simp add: only_changed_def)
  have "vm_phys s (p + of_nat i) = 0" if "i < n" for i
  proof -
    have "content ?ly s p n ! i = 0" using s(2) that by simp
    then show ?thesis using that assms(3) m by (simp add: heap_block_def)
  qed
  moreover have "alloc_zeroed env n k = (Ok (Some p), k\<lparr>kn_heap := (p, n) # kn_heap k, kn_vm := s\<rparr>)"
    using assms(1,2) s(1)
    by (simp add: alloc_zeroed_def on_mem_Ok [where m = "store_bytes ?ly p (replicate n 0)" and s = s] ret_run)
  ultimately show ?thesis using m s(3) by blast
qed

lemma next_region_ok:
  assumes "unat (kn_next_mmap k) + unat len + 0xFFF < 2 ^ 64"
  shows "\<exists>nx. next_region len k = (Ok (kn_next_mmap k), k\<lparr>kn_next_mmap := nx\<rparr>) \<and>
    unat nx = unat (kn_next_mmap k) + (unat len + 0xFFF) div 0x1000 * 0x1000"
proof -
  let ?pages = "(len + 0xFFF) AND NOT 0xFFF"
  have "unat (len + 0xFFF) = unat len + 0xFFF" using assms by (simp add: unat_word_ariths)
  then have p: "unat ?pages = (unat len + 0xFFF) div 0x1000 * 0x1000" by (simp only: unat_page)
  moreover have "(unat len + 0xFFF) div 0x1000 * 0x1000 \<le> unat len + 0xFFF" by (rule div_times_less_eq_dividend)
  ultimately have lt: "unat (kn_next_mmap k) + unat ?pages < 2 ^ 64" using assms by linarith
  then have "unat (kn_next_mmap k + ?pages) = unat (kn_next_mmap k) + unat ?pages" by (simp add: unat_word_ariths)
  then show ?thesis using assms lt p
    by (intro exI [of _ "kn_next_mmap k + ?pages"]) (simp add: next_region_def Let_def)
qed

section \<open>Answers\<close>

text \<open>What a call may answer: a result, or one of the error numbers in use.\<close>

definition answered :: "trap_frame \<Rightarrow> trap_frame \<Rightarrow> bool" where
  "answered f f' \<longleftrightarrow> (\<exists>v. f' = set_ok v f) \<or> (\<exists>e \<in> {1, 2, 9, 12, 22, 24, 78}. f' = set_err e f)"

definition answers :: "trap_frame \<Rightarrow> ('s, 'g, trap_frame) kact \<Rightarrow> bool" where
  "answers f m \<longleftrightarrow> (\<forall>k f' k'. m k = (Ok f', k') \<longrightarrow> answered f f')"

lemma answersD: "answers f m \<Longrightarrow> m k = (Ok f', k') \<Longrightarrow> answered f f'"
  unfolding answers_def by blast

lemma answers_bnd: "(\<And>a. answers f (h a)) \<Longrightarrow> answers f (bnd m h)"
  unfolding answers_def by (metis bnd_eq_Ok)

lemma answers_ret:
  "answers f (ret (set_ok v f))" "e \<in> {1, 2, 9, 12, 22, 24, 78} \<Longrightarrow> answers f (ret (set_err e f))"
  by (auto simp: answers_def ret_def answered_def)

lemma answers_calls:
  "answers f (sys_read env f)" "answers f (sys_close f)" "answers f (sys_stat env f)" "answers f (sys_fstat env f)"
  "answers f (sys_getpid_a32 f)" "answers f (sys_sigprocmask env f)" "answers f (sys_gettimeofday env f)"
  "answers f (sys_getentropy env f)" "answers f (sys_mmap env f)" "answers f (sys_map_shared_region env f)"
  "answers f (sys_sysctl env f)"
  unfolding sys_read_def sys_close_def sys_stat_def sys_fstat_def sys_getpid_a32_def sys_sigprocmask_def
    sys_gettimeofday_def sys_getentropy_def sys_mmap_def sys_map_shared_region_def sys_sysctl_def Let_def
  by (auto intro!: answers_bnd answers_ret split: option.split sysctl_entry.split)

lemma answers_open:
  assumes "sys_open env f k = (Ok f', k')" and "sc_current (kn_sched k) \<noteq> None"
  shows "answered f f'"
proof -
  from assms(1) obtain path k1 h k2 where r: "user_path env (tf_x f 0) (map of_char ''invalid'') k = (Ok path, k1)"
    "on_fs (vfs_open (ke_vfs env) path) k1 = (Ok h, k2)"
    "(case h of None \<Rightarrow> ret (set_err 2 f) | Some h \<Rightarrow> bnd get_current (\<lambda>cur. case cur of None \<Rightarrow> ret f
      | Some p \<Rightarrow> (case free_fd 0 (pr_files p) of
          Some fd \<Rightarrow> bnd (set_file p fd (Some h)) (\<lambda>_. ret (set_ok (of_nat fd) f)) | None \<Rightarrow> ret (set_err 24 f)))) k2
      = (Ok f', k')"
    unfolding sys_open_def bnd_eq_Ok by blast
  have "core k1 = core k" "core k2 = core k1"
    using quiet_user_path quiet_parts(2) r(1,2) unfolding quiet_def by (metis snd_conv)+
  then have "sc_current (kn_sched k2) \<noteq> None" using assms(2) by (simp add: core_def)
  then show ?thesis
    using r(3) by (cases h) (auto simp: ret_def answered_def split: option.splits)
qed

text \<open>The calls that have an arm of their own and answer.\<close>

definition answering :: "int set" where
  "answering = set (map fst fixed_answers) \<union> {1, 3, 5, 6, 20, 48, 116, 153, 197, 202, 316, 338, 339, 340, 438}"

lemma a32_call_answers:
  assumes "num \<in> answering" and "a32_call env num f k = (Ok f', k')" and "sc_current (kn_sched k) \<noteq> None"
  shows "answered f f'"
proof (cases "map_of fixed_answers num")
  case (Some r)
  then have "(num, r) \<in> set fixed_answers" by (rule map_of_SomeD)
  then have "case r of Inl e \<Rightarrow> e \<in> {1, 2, 9, 12, 22, 24, 78} | Inr v \<Rightarrow> True" by (auto simp: fixed_answers_eq)
  then show ?thesis using Some assms(2) by (cases r) (auto simp: a32_call_def ret_def answered_def)
next
  case None
  then have "num \<notin> fst ` set fixed_answers" by (simp add: map_of_eq_None_iff)
  then have "num \<in> {1, 3, 5, 6, 20, 48, 116, 153, 197, 202, 316, 338, 339, 340, 438}"
    using assms(1) by (auto simp: answering_def)
  then show ?thesis
    using None assms(2)
    by (auto simp: a32_call_def park_def fail_def dest: answers_calls [THEN answersD] answers_open [OF _ assms(3)])
qed

lemma a32_call_silent:
  assumes "num \<notin> answering" and "a32_call env num f k = (Ok f', k')"
  shows "f' = f"
proof -
  have "map_of fixed_answers num = None" using assms(1) by (auto simp: answering_def map_of_eq_None_iff)
  then show ?thesis using assms by (auto simp: a32_call_def answering_def bnd_eq_Ok ret_def split: if_splits)
qed

section \<open>Indirect calls\<close>

lemma shift_args_x: "tf_x (shift_args f) i = (if i < 4 then tf_x f (i + 1) else tf_x f i)"
  by (auto simp: shift_args_def set_x_def less_Suc_eq numeral_eq_Suc)

lemma indirect_forever:
  "\<forall>i < 5. as_i32 (tf_x f i) = 0 \<Longrightarrow> handle_a32_syscall_internal env fuel 0 f = spin"
proof (induction fuel arbitrary: f)
  case 0
  then show ?case by simp
next
  case (Suc fuel)
  have "\<forall>i < 5. as_i32 (tf_x (shift_args f) i) = 0" using Suc.prems by (simp add: shift_args_x)
  then show ?case using Suc by simp
qed

lemma indirect_call:
  "i < 5 \<Longrightarrow> as_i32 (tf_x f i) \<noteq> 0 \<Longrightarrow> \<forall>j < i. as_i32 (tf_x f j) = 0 \<Longrightarrow>
   handle_a32_syscall_internal env (Suc (Suc i) + n) 0 f = a32_call env (as_i32 (tf_x f i)) ((shift_args ^^ Suc i) f)"
proof (induction i arbitrary: f)
  case 0
  then show ?case by simp
next
  case (Suc i)
  have z: "as_i32 (tf_x f 0) = 0" using Suc.prems(3) by simp
  have s: "tf_x (shift_args f) j = tf_x f (Suc j)" if "j \<le> i" for j
    using that Suc.prems(1) by (simp add: shift_args_x)
  have "\<forall>j < i. as_i32 (tf_x (shift_args f) j) = 0" using Suc.prems(3) s by simp
  with Suc.IH [of "shift_args f"] Suc.prems z s show ?case by (simp add: funpow_swap1)
qed

section \<open>Reading to the end\<close>

context disk begin

text \<open>The file is read in chunks of 4096 bytes; one round more than there are chunks is enough.\<close>

lemma file_read_to_end_ok:
  assumes "ve_dev env = dev"
  shows "fs_hfs v = Some (vol, st) \<Longrightarrow> ready (vs_file st) q \<Longrightarrow> handle_ok content fk \<Longrightarrow>
    length (file_bytes content fk) < 2 ^ 64 \<Longrightarrow>
    length (file_bytes content fk) \<le> fk_position fk + fuel * 4096 \<Longrightarrow>
    \<exists>h v'. file_read_to_end env (Suc fuel) (HfsFile fk) buf v =
      (Ok (buf @ drop (fk_position fk) (file_bytes content fk), h), v')"
proof (induction fuel arbitrary: v st q fk buf)
  case 0
  from file_read_ok [OF 0(1,2,3) assms, of 4096] 0(5) show ?case
    by (auto simp: ret_run bnd_Ok [where m = "file_read env (HfsFile fk) 4096"])
next
  case (Suc fuel)
  let ?F = "file_bytes content fk" and ?p = "fk_position fk"
  define bs where "bs = take 4096 (drop ?p ?F)"
  let ?fk = "fk\<lparr>fk_position := ?p + length bs\<rparr>"
  from file_read_ok [OF Suc.prems(1,2,3) assms, of 4096, folded bs_def] obtain s' q' where
    r: "file_read env (HfsFile fk) 4096 v = (Ok (bs, HfsFile ?fk), v\<lparr>fs_hfs := Some (vol, st\<lparr>vs_file := s'\<rparr>)\<rparr>)"
    and q: "ready s' q'" by blast
  note step = bnd_Ok [where m = "file_read env (HfsFile fk) 4096", OF r]
  show ?case
  proof (cases "bs = []")
    case True
    then show ?thesis
      by (simp add: bs_def ret_run file_read_to_end.simps(2) [of env "Suc fuel"] step del: file_read_to_end.simps)
  next
    case False
    have len: "length bs = min 4096 (length ?F - ?p)" by (simp add: bs_def)
    then have "?p < length ?F" using False by (cases "length ?F \<le> ?p") auto
    then have le: "?p + length bs \<le> length ?F" using len by simp
    then have ok: "handle_ok content ?fk" using Suc.prems(3,4) by simp
    have "length ?F \<le> ?p + length bs + fuel * 4096" using Suc.prems(5) len by auto
    then obtain h v' where ih: "file_read_to_end env (Suc fuel) (HfsFile ?fk) (buf @ bs)
        (v\<lparr>fs_hfs := Some (vol, st\<lparr>vs_file := s'\<rparr>)\<rparr>) = (Ok ((buf @ bs) @ drop (?p + length bs) ?F, h), v')"
      using Suc.IH [of "v\<lparr>fs_hfs := Some (vol, st\<lparr>vs_file := s'\<rparr>)\<rparr>" "st\<lparr>vs_file := s'\<rparr>" q' ?fk "buf @ bs"]
        q ok Suc.prems(4) by auto
    have "bs @ drop (?p + length bs) ?F = drop ?p ?F"
    proof -
      have "drop (?p + length bs) ?F = drop 4096 (drop ?p ?F)"
        using len by (cases "length ?F - ?p \<le> 4096") (auto simp: add.commute)
      then show ?thesis unfolding bs_def by (simp only: append_take_drop_id)
    qed
    with ih False show ?thesis
      by (simp add: file_read_to_end.simps(2) [of env "Suc fuel"] step del: file_read_to_end.simps)
  qed
qed

end

end
