(* ===== verification/BTreeNode.thy ===== *)
theory BTreeNode
  imports BTreeSearch
begin

text \<open>
  The node format: \<open>node_layout\<close> writes a node the way the volume format prescribes (descriptor,
  records, free space, offset table from the end), and \<open>node_load\<close> of \<open>BTree\<close> reads it back.
\<close>

section \<open>Layout\<close>

fun offsets_from :: "nat \<Rightarrow> bytes list \<Rightarrow> nat list" where
  "offsets_from k [] = [k]"
| "offsets_from k (r # rs) = k # offsets_from (k + length r) rs"

definition offset_table :: "nat list \<Rightarrow> bytes" where
  "offset_table offs = concat (map (\<lambda>k. to_be (of_nat k :: u16)) (rev offs))"

definition node_layout :: "bt_node_descriptor \<Rightarrow> bytes list \<Rightarrow> bytes \<Rightarrow> bytes" where
  "node_layout d recs free =
     btn_layout d @ concat recs @ free @ offset_table (offsets_from 14 recs)"

text \<open>The descriptor counts the records, and the offsets fit their sixteen bits.\<close>

definition node_fits :: "bt_node_descriptor \<Rightarrow> bytes list \<Rightarrow> bytes \<Rightarrow> bool" where
  "node_fits d recs free \<longleftrightarrow> unat (btn_num_records d) = length recs \<and> length recs < 65535 \<and>
     14 + length (concat recs) + length free < 65536"

section \<open>Reading it back\<close>

lemma on_cursor_reads:
  "reads cursor_next m bs v \<Longrightarrow> on_cursor m (bs @ ys) = ret v"
  unfolding reads_def
proof -
  assume r: "\<forall>s cs. cursor_next s (bs @ cs) \<longrightarrow> (\<exists>s'. m s = (Ok v, s') \<and> cursor_next s' cs)"
  have "cursor_next (cursor_new (bs @ ys)) (bs @ ys)"
    by (simp add: cursor_next_def cursor_new_def)
  with r obtain s' where "m (cursor_new (bs @ ys)) = (Ok v, s')" by blast
  then show "on_cursor m (bs @ ys) = ret v" by (simp add: on_cursor_def)
qed

lemma length_offsets_from [simp]: "length (offsets_from k recs) = Suc (length recs)"
  by (induction recs arbitrary: k) simp_all

lemma offsets_from_nth:
  "i \<le> length recs \<Longrightarrow> offsets_from k recs ! i = k + length (concat (take i recs))"
proof (induction recs arbitrary: k i)
  case (Cons r recs)
  then show ?case by (cases i) simp_all
qed simp

lemma concat_pairs_nth:
  "(\<And>x. length (f x) = 2) \<Longrightarrow> i < length xs \<Longrightarrow> take 2 (drop (2 * i) (concat (map f xs))) = f (xs ! i)"
proof (induction xs arbitrary: i)
  case (Cons x xs)
  then show ?case by (cases i) simp_all
qed simp

lemma length_concat_pairs: "(\<And>x. length (f x) = 2) \<Longrightarrow> length (concat (map f xs)) = 2 * length xs"
  by (induction xs) simp_all

lemma length_offset_table [simp]: "length (offset_table offs) = 2 * length offs"
  by (simp add: offset_table_def length_concat_pairs)

lemma two_bytes: "p + 2 \<le> length xs \<Longrightarrow> [xs ! p, xs ! (p + 1)] = take 2 (drop p xs)"
  by (simp add: numeral_2_eq_2 take_Suc_conv_app_nth Cons_nth_drop_Suc [symmetric])

lemma offset_table_entry:
  assumes "i < length offs"
  shows "take 2 (drop (2 * (length offs - Suc i)) (offset_table offs)) = to_be (of_nat (offs ! i) :: u16)"
proof -
  have "take 2 (drop (2 * (length offs - Suc i)) (offset_table offs)) =
      to_be (of_nat (rev offs ! (length offs - Suc i)) :: u16)"
    unfolding offset_table_def using assms by (intro concat_pairs_nth) simp_all
  then show ?thesis using assms by (simp add: rev_nth)
qed

lemma node_offset_layout:
  assumes "length offs = Suc n" and "i < Suc n" and "14 \<le> offs ! i" and "offs ! i \<le> length h"
    and "length h < 65536"
  shows "node_offset (h @ offset_table offs) (length h) i = ret (offs ! i)"
proof -
  let ?data = "h @ offset_table offs"
  let ?p = "length ?data - 2 - 2 * i"
  have len: "length ?data = length h + 2 * Suc n" using assms(1) by simp
  have p: "?p = length h + 2 * (length offs - Suc i)" using len assms(1,2) by simp
  have "?p + 2 \<le> length ?data" using len assms(2) by simp
  from two_bytes [OF this] have "[?data ! ?p, ?data ! (?p + 1)] = to_be (of_nat (offs ! i) :: u16)"
    using offset_table_entry [of i offs] assms(1,2) unfolding p by simp
  then show ?thesis using assms(3,4,5)
    by (simp add: node_offset_def Let_def from_be_to_be unat_of_nat take_bit_nat_eq_self)
qed

lemma node_records_layout:
  assumes "node_fits d recs free"
  shows "(node_records (node_layout d recs free) d :: ('s, hfs_error, bytes list) act) = ret recs"
proof -
  let ?h = "btn_layout d @ concat recs @ free" and ?offs = "offsets_from 14 recs"
  let ?data = "?h @ offset_table ?offs" and ?n = "length recs"
  have lh: "length ?h = 14 + length (concat recs) + length free"
    by (simp add: layout_simps)
  have part: "length (concat (take i recs)) \<le> length (concat recs)" for i
    by (metis append_take_drop_id concat_append le_add1 length_append)
  have off: "?offs ! i = 14 + length (concat (take i recs))" if "i \<le> ?n" for i
    using that by (rule offsets_from_nth)
  have offs: "(map_act (node_offset ?data (length ?h)) [0..<Suc ?n] :: ('s, hfs_error, nat list) act) =
      ret ?offs"
  proof -
    have "(map_act (node_offset ?data (length ?h)) [0..<Suc ?n] :: ('s, hfs_error, nat list) act) =
        ret (map (\<lambda>i. ?offs ! i) [0..<Suc ?n])"
    proof (rule map_act_ret)
      fix i
      assume "i \<in> set [0..<Suc ?n]"
      then have i: "i < Suc ?n" by auto
      show "node_offset ?data (length ?h) i = ret (?offs ! i)"
        by (rule node_offset_layout [where n = ?n])
          (use i off [of i] part [of i] lh assms in \<open>auto simp: node_fits_def\<close>)
    qed
    also have "map (\<lambda>i. ?offs ! i) [0..<Suc ?n] = ?offs"
      using map_nth [of ?offs] by (simp del: upt_Suc)
    finally show ?thesis .
  qed
  have sl: "(map_act (\<lambda>i. byte_slice ?data (?offs ! i) (?offs ! (i + 1))) [0..<?n]
      :: ('s, hfs_error, bytes list) act) = ret recs"
  proof -
    have "(map_act (\<lambda>i. byte_slice ?data (?offs ! i) (?offs ! (i + 1))) [0..<?n]
        :: ('s, hfs_error, bytes list) act) = ret (map (\<lambda>i. recs ! i) [0..<?n])"
    proof (rule map_act_ret)
      fix i
      assume "i \<in> set [0..<?n]"
      then have i: "i < ?n" by auto
      have nxt: "concat (take (Suc i) recs) = concat (take i recs) @ recs ! i"
        using i by (simp add: take_Suc_conv_app_nth)
      have whole: "concat recs = concat (take i recs) @ recs ! i @ concat (drop (Suc i) recs)"
        using i by (metis append_assoc append_take_drop_id concat_append nxt)
      have "drop (?offs ! i) ?data = recs ! i @ concat (drop (Suc i) recs) @ free @ offset_table ?offs"
        using off [of i] i by (simp add: whole layout_simps)
      moreover have "?offs ! (i + 1) = ?offs ! i + length (recs ! i)"
        using off [of i] off [of "i + 1"] i nxt by simp
      moreover have "?offs ! (i + 1) \<le> length ?data"
        using off [of "i + 1"] part [of "i + 1"] i lh by simp
      ultimately show "byte_slice ?data (?offs ! i) (?offs ! (i + 1)) = ret (recs ! i)"
        by (simp add: byte_slice_def)
    qed
    then show ?thesis by (simp add: map_nth)
  qed
  have layout: "node_layout d recs free = ?data" by (simp add: node_layout_def)
  have "length ?data - (?n + 1) * 2 = length ?h" by simp
  then show ?thesis
    using assms offs sl unfolding layout node_records_def node_fits_def
    by (simp add: Let_def del: upt_Suc)
qed

lemma node_load_layout:
  assumes "node_fits d recs free"
  shows "node_load ops (node_layout d recs free) = fst (node_build ops d recs ())"
proof -
  have "(on_cursor (btn_import cursor_read) (node_layout d recs free) :: (unit, hfs_error, _) act) = ret d"
    unfolding node_layout_def by (rule on_cursor_reads [OF cursor_src.reads_btn])
  then show ?thesis by (simp add: node_load_def node_records_layout [OF assms])
qed

lemma map_act_map: "map_act f (map g xs) = map_act (\<lambda>x. f (g x)) xs"
  by (induction xs) simp_all

lemma map_act_enc: "(\<And>x. x \<in> set xs \<Longrightarrow> f (enc x) = ret x) \<Longrightarrow> map_act f (map enc xs) = ret xs"
  by (induction xs) (simp_all add: map_act_map)

lemma leaf_node_load:
  assumes "node_fits d (map enc rs) free" and "btn_kind d = KLeafNode"
    and "\<And>r. r \<in> set rs \<Longrightarrow>
      reads cursor_next (bnd (k_import ops) (\<lambda>k. r_import ops k)) (enc r) r"
  shows "node_load ops (node_layout d (map enc rs) free) = Ok (LeafNode d rs)"
proof -
  have "(map_act (load_leaf_record ops) (map enc rs) :: (unit, hfs_error, _) act) = ret rs"
    by (rule map_act_enc) (use on_cursor_reads [where ys = "[]", OF assms(3)] in
        \<open>simp add: load_leaf_record_def\<close>)
  then show ?thesis
    by (simp add: node_load_layout [OF assms(1)] node_build_def assms(2) ret_run)
qed

lemma index_node_load:
  assumes "node_fits d (map (\<lambda>r. kenc (ir_key r) @ to_be (ir_node_id r)) rs) free"
    and "btn_kind d = KIndexNode"
    and "\<And>r. r \<in> set rs \<Longrightarrow> reads cursor_next (k_import ops) (kenc (ir_key r)) (ir_key r)"
  shows "node_load ops (node_layout d (map (\<lambda>r. kenc (ir_key r) @ to_be (ir_node_id r)) rs) free) =
    Ok (IndexNode d rs)"
proof -
  have "(map_act (load_index_record ops) (map (\<lambda>r. kenc (ir_key r) @ to_be (ir_node_id r)) rs)
      :: (unit, hfs_error, _) act) = ret rs"
  proof (rule map_act_enc)
    fix r
    assume r: "r \<in> set rs"
    have "reads cursor_next (bnd (k_import ops) (\<lambda>r2. bnd (read_u32_be cursor_read)
        (\<lambda>id. ret \<lparr>ir_key = r2, ir_node_id = id\<rparr>))) (kenc (ir_key r) @ to_be (ir_node_id r)) r"
      by (rule reads_bnd [OF assms(3) [OF r]], rule reads_map, rule cursor_src.reads_u32) simp
    from on_cursor_reads [OF this, of "[]"]
    show "(load_index_record ops (kenc (ir_key r) @ to_be (ir_node_id r)) :: (unit, hfs_error, _) act) = ret r"
      by (simp add: load_index_record_def)
  qed
  then show ?thesis
    by (simp add: node_load_layout [OF assms(1)] node_build_def assms(2) ret_run)
qed

section \<open>The records of the two trees\<close>

definition extent_entry :: "extent_record \<Rightarrow> bytes" where
  "extent_entry r = ek_layout (er_key r) @ concat (map ext_layout (er_body r))"

definition catalog_entry :: "catalog_record \<Rightarrow> bytes" where
  "catalog_entry r = ck_layout (cr_key r) @ body_layout 0 (cr_body r)"

definition extent_entry_ok :: "extent_record \<Rightarrow> bool" where
  "extent_entry_ok r \<longleftrightarrow> length (er_body r) = 8"

definition catalog_entry_ok :: "catalog_record \<Rightarrow> bool" where
  "catalog_entry_ok r \<longleftrightarrow> ck_ok (cr_key r) \<and> body_ok (cr_body r)"

lemma extent_leaf_load:
  assumes "node_fits d (map extent_entry rs) free" and "btn_kind d = KLeafNode"
    and "\<forall>r \<in> set rs. extent_entry_ok r"
  shows "node_load extent_tree_ops (node_layout d (map extent_entry rs) free) = Ok (LeafNode d rs)"
proof (rule leaf_node_load [OF assms(1,2)])
  fix r
  assume "r \<in> set rs"
  with assms(3) have "length (er_body r) = 8" by (simp add: extent_entry_ok_def)
  then show "reads cursor_next (bnd (k_import extent_tree_ops) (\<lambda>k. r_import extent_tree_ops k))
      (extent_entry r) r"
    unfolding extent_entry_def extent_tree_ops_def
    by (simp add: reads_bnd [OF cursor_src.reads_ek] cursor_src.reads_er)
qed

lemma catalog_leaf_load:
  assumes "node_fits d (map catalog_entry rs) free" and "btn_kind d = KLeafNode"
    and "\<forall>r \<in> set rs. catalog_entry_ok r"
  shows "node_load (catalog_tree_ops scmp) (node_layout d (map catalog_entry rs) free) =
    Ok (LeafNode d rs)"
proof (rule leaf_node_load [OF assms(1,2)])
  fix r
  assume "r \<in> set rs"
  with assms(3) have ok: "ck_ok (cr_key r)" "body_ok (cr_body r)"
    by (auto simp: catalog_entry_ok_def)
  show "reads cursor_next (bnd (k_import (catalog_tree_ops scmp))
      (\<lambda>k. r_import (catalog_tree_ops scmp) k)) (catalog_entry r) r"
    unfolding catalog_entry_def catalog_tree_ops_def
    by (simp add: reads_bnd [OF cursor_src.reads_ck [OF ok(1)]] cursor_src.reads_cr [OF ok(2)])
qed

end
