(* ===== verification/HfsSample.thy ===== *)
theory HfsSample
  imports VolumeSearch BTreeNode
begin

text \<open>
  A small volume, laid out byte by byte, on which the hypotheses of the volume theorems hold: a
  catalog with a folder \<open>a\<close> that holds a file \<open>b\<close>, and an extents overflow tree of an index node
  and two leaves. It is used by the witnesses only.
\<close>

section \<open>Records\<close>

definition sample_bsd :: bsd_info where
  "sample_bsd = \<lparr>bsd_owner_id = 0, bsd_group_id = 0, bsd_admin_flags = 0, bsd_owner_flags = 0,
     bsd_file_mode = 0, bsd_special = 0\<rparr>"

definition no_extent :: extent_descriptor where
  "no_extent = \<lparr>ext_start_block = 0, ext_block_count = 0\<rparr>"

text \<open>A file of 1000 bytes in two blocks, the second one recorded in the overflow tree.\<close>

definition sample_fork_data :: fork_data where
  "sample_fork_data = \<lparr>fd_logical_size = 1000, fd_clump_size = 0, fd_total_blocks = 2,
     fd_extents = \<lparr>ext_start_block = 6, ext_block_count = 1\<rparr> # replicate 7 no_extent\<rparr>"

definition sample_folder :: catalog_folder where
  "sample_folder = \<lparr>cfo_flags = 0, cfo_valence = 1, cfo_folder_id = 16, cfo_created_at = 0,
     cfo_content_modified_at = 0, cfo_attribute_modified_at = 0, cfo_accessed_at = 0,
     cfo_backed_up_at = 0, cfo_permissions = sample_bsd,
     cfo_user_info = \<lparr>foi_window_bounds = \<lparr>rect_top = 0, rect_left = 0, rect_bottom = 0, rect_right = 0\<rparr>,
       foi_finder_flags = 0, foi_location = \<lparr>pt_v = 0, pt_h = 0\<rparr>, foi_reserved_field = 0\<rparr>,
     cfo_finder_info = \<lparr>xfoi_scroll_position = \<lparr>pt_v = 0, pt_h = 0\<rparr>, xfoi_reserved1 = 0,
       xfoi_extended_finder_flags = 0, xfoi_reserved2 = 0, xfoi_put_away_folder_id = 0\<rparr>,
     cfo_text_encoding = 0, cfo_reserved = 0\<rparr>"

definition sample_file :: catalog_file where
  "sample_file = \<lparr>cfi_flags = 0, cfi_reserved1 = 0, cfi_file_id = 17, cfi_created_at = 0,
     cfi_content_modified_at = 0, cfi_attribute_modified_at = 0, cfi_accessed_at = 0,
     cfi_backed_up_at = 0, cfi_permissions = sample_bsd,
     cfi_user_info = \<lparr>fi_file_type = 0, fi_file_creator = 0, fi_finder_flags = 0,
       fi_location = \<lparr>pt_v = 0, pt_h = 0\<rparr>, fi_reserved = 0\<rparr>,
     cfi_finder_info = \<lparr>xfi_reserved1 = replicate 4 0, xfi_extended_finder_flags = 0,
       xfi_reserved2 = 0, xfi_put_away_folder_id = 0\<rparr>,
     cfi_text_encoding = 0, cfi_reserved2 = 0, cfi_data_fork = sample_fork_data,
     cfi_resource_fork = \<lparr>fd_logical_size = 0, fd_clump_size = 0, fd_total_blocks = 0,
       fd_extents = replicate 8 no_extent\<rparr>\<rparr>"

definition folder_record :: catalog_record where
  "folder_record = \<lparr>cr_key = name_key 2 [97], cr_body = BFolder sample_folder\<rparr>"

definition file_record :: catalog_record where
  "file_record = \<lparr>cr_key = name_key 16 [98], cr_body = BFile sample_file\<rparr>"

definition extents_a :: extent_record where
  "extents_a = \<lparr>er_key = extent_key_new 5 0 0, er_body = replicate 8 no_extent\<rparr>"

definition extents_b :: extent_record where
  "extents_b = \<lparr>er_key = extent_key_new 17 0 1,
     er_body = \<lparr>ext_start_block = 7, ext_block_count = 1\<rparr> # replicate 7 no_extent\<rparr>"

section \<open>Nodes\<close>

definition sample_descriptor :: "bt_node_kind \<Rightarrow> u32 \<Rightarrow> u16 \<Rightarrow> bt_node_descriptor" where
  "sample_descriptor kind f_link n = \<lparr>btn_f_link = f_link, btn_b_link = 0, btn_kind = kind,
     btn_height = 1, btn_num_records = n, btn_reserved = 0\<rparr>"

definition sample_btree :: "u32 \<Rightarrow> btree" where
  "sample_btree root = \<lparr>bt_node_size = 512,
     bt_header = \<lparr>hn_descriptor = sample_descriptor KHeaderNode 0 3,
       hn_header = \<lparr>bth_tree_depth = 1, bth_root_node = root, bth_leaf_records = 2,
         bth_first_leaf_node = 1, bth_last_leaf_node = 1, bth_node_size = 512,
         bth_max_key_length = 255, bth_total_nodes = 4, bth_free_nodes = 0, bth_reserved1 = 0,
         bth_clump_size = 0, bth_b_tree_type = 0, bth_key_compare_type = 0xCF,
         bth_attributes = 0, bth_reserved3 = replicate 16 0\<rparr>,
       hn_user_data = [], hn_map = []\<rparr>\<rparr>"

definition catalog_leaf :: bytes where
  "catalog_leaf = node_layout (sample_descriptor KLeafNode 0 2)
     (map catalog_entry [folder_record, file_record]) (replicate 136 0)"

definition sample_catalog :: bytes where
  "sample_catalog = replicate 512 0 @ catalog_leaf"

definition extents_leaf_a :: bytes where
  "extents_leaf_a = node_layout (sample_descriptor KLeafNode 2 1)
     (map extent_entry [extents_a]) (replicate 418 0)"

definition extents_leaf_b :: bytes where
  "extents_leaf_b = node_layout (sample_descriptor KLeafNode 0 1)
     (map extent_entry [extents_b]) (replicate 418 0)"

definition sample_index :: "extent_key_rec index_record list" where
  "sample_index = [\<lparr>ir_key = extent_key_new 5 0 0, ir_node_id = 1\<rparr>,
     \<lparr>ir_key = extent_key_new 17 0 1, ir_node_id = 2\<rparr>]"

definition extents_index :: bytes where
  "extents_index = node_layout (sample_descriptor KIndexNode 0 2)
     (map (\<lambda>r. ek_layout (ir_key r) @ to_be (ir_node_id r)) sample_index) (replicate 460 0)"

definition sample_extents :: bytes where
  "sample_extents = replicate 512 0 @ extents_leaf_a @ extents_leaf_b @ extents_index"

definition sample_disk :: bytes where
  "sample_disk = sample_catalog @ sample_extents @ replicate 1024 7"

definition sample_cexts :: "mapped_extent list" where
  "sample_cexts = [(0, 2, 0, 1024)]"

definition sample_eexts :: "mapped_extent list" where
  "sample_eexts = [(2, 4, 0, 2048)]"

definition sample_ctree :: "(catalog_key, catalog_record) tree" where
  "sample_ctree = BLeaf 1 [folder_record, file_record]"

definition sample_etree :: "(extent_key_rec, extent_record) tree" where
  "sample_etree = BIndex 3 [(extent_key_new 5 0 0, BLeaf 1 [extents_a]),
     (extent_key_new 17 0 1, BLeaf 2 [extents_b])]"

section \<open>The nodes load\<close>

lemma length_node_layout:
  "length (node_layout d recs free) = 16 + length (concat recs) + length free + 2 * length recs"
  by (simp add: node_layout_def layout_simps)

lemma disk_nodes_at:
  assumes "content = pre @ node @ post" and "length pre = i * unat (bt_node_size t)"
    and "length node = unat (bt_node_size t)" and "node_load ops node = Ok n"
    and "i * unat (bt_node_size t) < 2 ^ 64"
  shows "disk_nodes content ops t i = Some n"
proof -
  define sz where "sz = unat (bt_node_size t)"
  have "take sz (drop (i * sz) content) = node" "i * sz + sz \<le> length content"
    using assms(1-3) by (simp_all flip: sz_def)
  with assms(4,5) show ?thesis
    by (simp add: disk_nodes_def node_bytes_def Let_def flip: sz_def)
qed

lemma sample_entry_ok [simp]:
  "catalog_entry_ok folder_record" "catalog_entry_ok file_record"
  "extent_entry_ok extents_a" "extent_entry_ok extents_b"
  by (simp_all add: catalog_entry_ok_def folder_record_def file_record_def ck_ok_def name_key_def
      cfi_ok_def xfi_ok_def fd_ok_def sample_file_def sample_fork_data_def extent_entry_ok_def
      extents_a_def extents_b_def)

lemma length_entries [simp]:
  "length (catalog_entry folder_record) = 98" "length (catalog_entry file_record) = 258"
  "extent_entry_ok r \<Longrightarrow> length (extent_entry r) = 76"
proof -
  have "cfi_ok sample_file"
    by (simp add: cfi_ok_def xfi_ok_def fd_ok_def sample_file_def sample_fork_data_def)
  then show "length (catalog_entry folder_record) = 98" "length (catalog_entry file_record) = 258"
    by (simp_all add: catalog_entry_def folder_record_def file_record_def ck_layout_def
        name_key_def name_layout_def layout_simps)
  show "length (extent_entry r) = 76" if "extent_entry_ok r"
    using that length_concat_map [of "er_body r" ext_layout 8]
    by (simp add: extent_entry_def extent_entry_ok_def layout_simps)
qed

lemma length_nodes [simp]:
  "length catalog_leaf = 512" "length extents_leaf_a = 512" "length extents_leaf_b = 512"
  "length extents_index = 512"
  by (simp_all add: catalog_leaf_def extents_leaf_a_def extents_leaf_b_def extents_index_def
      length_node_layout sample_index_def layout_simps)

lemma length_sample [simp]:
  "length sample_catalog = 1024" "length sample_extents = 2048" "length sample_disk = 4096"
  by (simp_all add: sample_catalog_def sample_extents_def sample_disk_def)

lemma catalog_leaf_loads:
  "node_load (catalog_tree_ops scmp) catalog_leaf =
     Ok (LeafNode (sample_descriptor KLeafNode 0 2) [folder_record, file_record])"
  unfolding catalog_leaf_def
  by (rule catalog_leaf_load) (simp_all add: node_fits_def sample_descriptor_def)

lemma extents_leaf_loads:
  "node_load extent_tree_ops extents_leaf_a = Ok (LeafNode (sample_descriptor KLeafNode 2 1) [extents_a])"
  "node_load extent_tree_ops extents_leaf_b = Ok (LeafNode (sample_descriptor KLeafNode 0 1) [extents_b])"
  unfolding extents_leaf_a_def extents_leaf_b_def
  by (rule extent_leaf_load; simp add: node_fits_def sample_descriptor_def)+

lemma extents_index_loads:
  "node_load extent_tree_ops extents_index = Ok (IndexNode (sample_descriptor KIndexNode 0 2) sample_index)"
  unfolding extents_index_def
  by (rule index_node_load)
    (simp_all add: node_fits_def sample_descriptor_def sample_index_def layout_simps
      extent_tree_ops_def cursor_src.reads_ek)

lemma catalog_nodes:
  "disk_nodes sample_catalog (catalog_tree_ops scmp) (sample_btree r) 1 =
     Some (LeafNode (sample_descriptor KLeafNode 0 2) [folder_record, file_record])"
  by (rule disk_nodes_at [where pre = "replicate 512 0" and node = catalog_leaf and post = "[]"])
    (simp_all add: sample_catalog_def sample_btree_def catalog_leaf_loads)

lemma extents_nodes:
  "disk_nodes sample_extents extent_tree_ops (sample_btree r) 1 =
     Some (LeafNode (sample_descriptor KLeafNode 2 1) [extents_a])"
  "disk_nodes sample_extents extent_tree_ops (sample_btree r) 2 =
     Some (LeafNode (sample_descriptor KLeafNode 0 1) [extents_b])"
  "disk_nodes sample_extents extent_tree_ops (sample_btree r) 3 =
     Some (IndexNode (sample_descriptor KIndexNode 0 2) sample_index)"
proof -
  show "disk_nodes sample_extents extent_tree_ops (sample_btree r) 1 =
      Some (LeafNode (sample_descriptor KLeafNode 2 1) [extents_a])"
    by (rule disk_nodes_at [where pre = "replicate 512 0" and node = extents_leaf_a
          and post = "extents_leaf_b @ extents_index"])
      (simp_all add: sample_extents_def sample_btree_def extents_leaf_loads)
  show "disk_nodes sample_extents extent_tree_ops (sample_btree r) 2 =
      Some (LeafNode (sample_descriptor KLeafNode 0 1) [extents_b])"
    by (rule disk_nodes_at [where pre = "replicate 512 0 @ extents_leaf_a" and node = extents_leaf_b
          and post = extents_index])
      (simp_all add: sample_extents_def sample_btree_def extents_leaf_loads)
  show "disk_nodes sample_extents extent_tree_ops (sample_btree r) 3 =
      Some (IndexNode (sample_descriptor KIndexNode 0 2) sample_index)"
    by (rule disk_nodes_at [where pre = "replicate 512 0 @ extents_leaf_a @ extents_leaf_b"
          and node = extents_index and post = "[]"])
      (simp_all add: sample_extents_def sample_btree_def extents_index_loads)
qed

section \<open>The trees are well formed\<close>

lemmas tree_eval = tree_on_def sorted_records_def tree_records_def leaf_records_def
  sample_descriptor_def sample_index_def

lemma name_a_b:
  "catalog_key_cmp scmp (cr_key folder_record) (cr_key file_record) = Less"
  by (simp add: catalog_key_cmp_def folder_record_def file_record_def name_key_def cmp_def)

lemma sample_ctree_at:
  "tree_keys (catalog_tree_ops scmp) \<Longrightarrow>
   tree_at sample_catalog (catalog_tree_ops scmp) (sample_btree 1) sample_ctree 10"
  using name_a_b [of scmp] catalog_nodes [of scmp 1]
  by (simp add: tree_at_def tree_eval sample_ctree_def catalog_tree_ops_def sample_btree_def)

lemma sample_etree_at: "tree_at sample_extents extent_tree_ops (sample_btree 3) sample_etree 10"
  using extents_nodes [of 3]
  by (simp add: tree_at_def tree_eval sample_etree_def extent_keys)
    (simp add: extent_tree_ops_def sample_btree_def extents_a_def extents_b_def
      extent_key_new_def extent_key_cmp_def cmp_def)

lemma sample_forks:
  "fork_content sample_disk 512 sample_cexts = sample_catalog"
  "fork_content sample_disk 512 sample_eexts = sample_extents"
  "contiguous 0 sample_cexts" "contiguous 0 sample_eexts"
  "on_volume sample_disk 512 sample_cexts" "on_volume sample_disk 512 sample_eexts"
  by (simp_all add: sample_cexts_def sample_eexts_def sample_disk_def on_volume_def)

lemma plain_zeros: "plain (replicate 512 0 @ xs)"
proof -
  have "take 4 (replicate 512 (0 :: u8) @ xs) = [0, 0, 0, 0]"
    by (simp add: numeral_eq_Suc)
  then show ?thesis by (simp add: plain_def CMPF_MAGIC_def from_be_def from_le_def)
qed

lemma sample_plain: "plain sample_catalog" "plain sample_extents"
  unfolding sample_catalog_def sample_extents_def by (rule plain_zeros)+

section \<open>The mounted sample\<close>

definition sample_header :: volume_header where
  "sample_header = \<lparr>vh_signature = HFSP_SIGNATURE, vh_version = 4, vh_attributes = 0,
     vh_last_mounted_version = 0, vh_journal_info_block = 0, vh_create_date = 0,
     vh_modify_date = 0, vh_backup_date = 0, vh_checked_date = 0, vh_file_count = 1,
     vh_folder_count = 1, vh_block_size = 512, vh_total_blocks = 8, vh_free_blocks = 0,
     vh_next_allocation = 0, vh_rsrc_clump_size = 0, vh_data_clump_size = 0,
     vh_next_catalog_id = 18, vh_write_count = 0, vh_encodings_bitmap = 0,
     vh_finder_info = replicate 8 0, vh_allocation_file = sample_fork_data,
     vh_extents_file = sample_fork_data, vh_catalog_file = sample_fork_data,
     vh_attributes_file = sample_fork_data, vh_startup_file = sample_fork_data\<rparr>"

definition sample_volume :: volume where
  "sample_volume = \<lparr>vol_header = sample_header, vol_catalog = CaseFolding (sample_btree 1),
     vol_extents = sample_btree 3\<rparr>"

definition sample_fork :: "u32 \<Rightarrow> nat \<Rightarrow> mapped_extent list \<Rightarrow> fork" where
  "sample_fork cid sz exts = \<lparr>fk_position = 0, fk_catalog_id = cid, fk_fork_type = 0,
     fk_block_size = 512, fk_logical_size = sz, fk_extents = exts, fk_cache = None\<rparr>"

definition sample_state :: "cursor volume_state" where
  "sample_state = \<lparr>vs_catalog = sample_fork 4 1024 sample_cexts,
     vs_extents = sample_fork 3 2048 sample_eexts, vs_file = cursor_new sample_disk\<rparr>"

lemma sample_cursor: "cursor_ready sample_disk (cursor_new sample_disk) 0"
  by (simp add: cursor_ready_def cursor_new_def)

lemma sample_fork_trees:
  "fork_tree sample_disk 512 sample_cexts (catalog_tree_ops hfs_string_cmp) (sample_btree 1)
     sample_ctree 10"
  "fork_tree sample_disk 512 sample_eexts extent_tree_ops (sample_btree 3) sample_etree 10"
  by (simp_all add: fork_tree_def sample_forks sample_plain sample_etree_at
      sample_ctree_at folded_order.tree_keys_axioms)

lemma sample_mounted:
  "mounted cursor_ops sample_disk (cursor_ready sample_disk) 512 sample_cexts sample_eexts
     sample_volume sample_ctree sample_etree 10 sample_state"
  using sample_fork_trees sample_cursor cursor_disk.disk_axioms
  by (auto simp: mounted_def sample_volume_def volume_ready_def sample_state_def fork_ready_def
      sample_fork_def)

lemma folded_letters:
  "folded [97] = [97]" "folded [98] = [98]" "folded [65] = [97]" "folded [66] = [98]"
  by (simp_all add: folded_def fold_unit_latin lower_case_00_def)

lemma none_simps [simp]:
  "ext_block_count no_extent = 0"
  "map_extents bs l p (replicate n no_extent @ es) = map_extents bs l p es"
  "map_extents bs l p (replicate n no_extent) = []"
  "block_total (replicate n no_extent) = 0"
proof -
  show [simp]: "ext_block_count no_extent = 0" by (simp add: no_extent_def)
  show "map_extents bs l p (replicate n no_extent @ es) = map_extents bs l p es"
    "map_extents bs l p (replicate n no_extent) = []"
    "block_total (replicate n no_extent) = 0"
    by (induction n) simp_all
qed

text \<open>A decompressor for the witnesses, which are about uncompressed files.\<close>

definition no_inflate :: inflater where
  "no_inflate bs n = Err (InvalidData ''inflateInit failed'')"

end
