(* ===== verification/ForkCmpf.thy ===== *)
theory ForkCmpf
  imports ForkRead
begin

text \<open>
  What the first read of a file with a \<open>cmpf\<close> header makes of it: the contents for each type of compression, errors of the
  decompressor and of short files included.
\<close>

section \<open>Contents\<close>

text \<open>
  Chunks behind a table: their number, the offset of each from the start of the table of offsets, the chunks. Each chunk is
  decompressed for itself; all but the last announce 64 KB, the last one what is left, and an empty chunk is passed over.
\<close>

fun chunk_offsets :: "nat \<Rightarrow> bytes list \<Rightarrow> nat list" where
  "chunk_offsets a [] = []"
| "chunk_offsets a (c # cs) = a # chunk_offsets (a + length c) cs"

definition chunked_layout :: "bytes list \<Rightarrow> bytes" where
  "chunked_layout cs =
     to_le (of_nat (length cs) :: u32) @ concat (map (\<lambda>a. to_le (of_nat a :: u32)) (chunk_offsets (4 * length cs) cs)) @ concat cs"

fun inflate_chunks :: "inflater \<Rightarrow> nat \<Rightarrow> bytes list \<Rightarrow> bytes \<Rightarrow> (hfs_error, bytes) res" where
  "inflate_chunks unz n [] d = Ok d"
| "inflate_chunks unz n (c # cs) d =
     (if c = [] then inflate_chunks unz n cs d
      else
        case unz c (if cs \<noteq> [] then 65536 else n - length d) of
          Ok e \<Rightarrow> inflate_chunks unz n cs (d @ e)
        | r \<Rightarrow> r)"

definition cmpf_contents :: "inflater \<Rightarrow> u32 \<Rightarrow> nat \<Rightarrow> bytes \<Rightarrow> bytes list \<Rightarrow> (hfs_error, bytes) res" where
  "cmpf_contents unz ctype n body cs =
     (if ctype = 1 then if n \<le> length body then Ok (take n body) else Err (InvalidData ''Unexpected EOF'')
      else if ctype = 3 \<or> ctype = 4 then unz body n
      else inflate_chunks unz n cs [])"

lemma length_chunk_offsets [simp]: "length (chunk_offsets a cs) = length cs"
  by (induction cs arbitrary: a) simp_all

lemma chunk_offsets_le: "x \<in> set (chunk_offsets a cs) \<Longrightarrow> x \<le> a + length (concat cs)"
  by (induction cs arbitrary: a) fastforce+

section \<open>Exact reads of a fork\<close>

text \<open>The states of one fork: only the position moves.\<close>

definition fork_at :: "bytes \<Rightarrow> ('s \<Rightarrow> nat \<Rightarrow> bool) \<Rightarrow> fork \<Rightarrow> fork \<times> 's \<Rightarrow> bytes \<Rightarrow> bool" where
  "fork_at content ready fk st bs \<longleftrightarrow> (\<exists>p s q. st = (fk\<lparr>fk_position := p\<rparr>, s) \<and> p \<le> length (fork_bytes content fk) \<and>
     ready s q \<and> bs = drop p (fork_bytes content fk))"

context disk begin

lemma fork_source:
  assumes "fork_ok content fk"
  shows "byte_source (read_internal dev) (fork_at content ready fk)"
proof unfold_locales
  fix st bs n
  assume "fork_at content ready fk st bs" and n: "0 < n" "n \<le> length bs"
  then obtain p s q where st: "st = (fk\<lparr>fk_position := p\<rparr>, s)" "p \<le> length (fork_bytes content fk)" "ready s q"
    "bs = drop p (fork_bytes content fk)" by (auto simp: fork_at_def)
  have "p < 2 ^ 64" using st(2) fork_bytes_bound [OF assms] by simp
  from read_internal_content [OF st(3) fork_ok_move [OF this assms], of n] n st obtain s' q' where
    "read_internal dev n st = (Ok (take n bs), (fk\<lparr>fk_position := p + n\<rparr>, s'))" "ready s' q'"
    by (auto simp: min_def)
  with n st show "\<exists>k st'. 0 < k \<and> k \<le> n \<and> read_internal dev n st = (Ok (take k bs), st') \<and>
      fork_at content ready fk st' (drop k bs)"
    by (intro exI [of _ n] exI [of _ "(fk\<lparr>fk_position := p + n\<rparr>, s')"]) (auto simp: fork_at_def add.commute)
qed

lemma read_exact_fork:
  assumes "ready s q" and "fork_ok content fk" and "p + n \<le> length (fork_bytes content fk)"
  shows "\<exists>s' q'. read_exact_internal dev n (fk\<lparr>fk_position := p\<rparr>, s) =
    (Ok (take n (drop p (fork_bytes content fk))), (fk\<lparr>fk_position := p + n\<rparr>, s')) \<and> ready s' q'"
proof -
  let ?F = "fork_bytes content fk"
  have "fork_at content ready fk (fk\<lparr>fk_position := p\<rparr>, s) (take n (drop p ?F) @ drop n (drop p ?F))"
    unfolding append_take_drop_id fork_at_def using assms(1,3)
    by (intro exI [of _ p] exI [of _ s] exI [of _ q]) simp
  from readsD [OF byte_source.reads_exact [OF fork_source [OF assms(2)]] this, of n] assms(3) obtain st' where
    st': "read_exact (read_internal dev) n (fk\<lparr>fk_position := p\<rparr>, s) = (Ok (take n (drop p ?F)), st')"
      "fork_at content ready fk st' (drop (p + n) ?F)" by (auto simp: add.commute)
  then obtain p' s' q' where p': "st' = (fk\<lparr>fk_position := p'\<rparr>, s')" "p' \<le> length ?F" "ready s' q'"
    "drop (p + n) ?F = drop p' ?F" by (auto simp: fork_at_def)
  have "length (drop (p + n) ?F) = length (drop p' ?F)" by (rule arg_cong [OF p'(4)])
  then have "p' = p + n" using p'(2) assms(3) by (simp only: length_drop)
  then have "read_exact_internal dev n (fk\<lparr>fk_position := p\<rparr>, s) = (Ok (take n (drop p ?F)), (fk\<lparr>fk_position := p + n\<rparr>, s'))"
    using st'(1) p'(1) by (simp only: read_exact_internal_def)
  with p'(3) show ?thesis by blast
qed

lemma read_exact_short:
  assumes "ready s q" and "fork_ok content fk" and "fk_position fk \<le> length (fork_bytes content fk)"
    and "length (fork_bytes content fk) < fk_position fk + n"
  shows "\<exists>s' q'. read_exact_internal dev n (fk, s) =
    (Err (InvalidData ''Unexpected EOF''), (fk\<lparr>fk_position := length (fork_bytes content fk)\<rparr>, s')) \<and> ready s' q'"
proof -
  let ?F = "fork_bytes content fk" and ?p = "fk_position fk"
  let ?r = "drop ?p ?F" let ?fk = "fk\<lparr>fk_position := length ?F\<rparr>"
  have n: "0 < n" "take n ?r = ?r" using assms(3,4) by simp_all
  from read_internal_content [OF assms(1,2), of n] obtain s1 q1 where
    s1: "read_internal dev n (fk, s) = (Ok ?r, (?fk, s1))" "ready s1 q1" using n assms(3) by auto
  have empty: "\<exists>s' q'. read_internal dev k (?fk, s1) = (Ok [], (?fk, s')) \<and> ready s' q'" for k
    using read_internal_content [OF s1(2), of ?fk k] assms(2) fork_bytes_bound [OF assms(2)] by simp
  show ?thesis
  proof (cases "?r = []")
    case True
    then show ?thesis using s1 n(1)
      by (auto simp: read_exact_internal_def read_exact_def fill_exact.simps [of _ _ n] act_simps)
  next
    case False
    from empty [of "n - length ?r"] obtain s2 q2 where
      s2: "read_internal dev (n - length ?r) (?fk, s1) = (Ok [], (?fk, s2))" "ready s2 q2" by blast
    have "length ?r < n" using assms(3,4) by simp
    then have "fill_exact (InvalidData ''Unexpected EOF'') (read_internal dev) (n - length ?r) (?fk, s1) =
        (Err (InvalidData ''Unexpected EOF''), (?fk, s2))"
      using s2(1) by (simp add: fill_exact.simps [of _ _ "n - length ?r"] act_simps del: length_drop)
    then have "read_exact_internal dev n (fk, s) = (Err (InvalidData ''Unexpected EOF''), (?fk, s2))"
      using s1(1) n(1) False \<open>length ?r < n\<close>
      by (simp add: read_exact_internal_def read_exact_def fill_exact.simps [of _ _ n] act_simps del: length_drop)
    with s2(2) show ?thesis by blast
  qed
qed

section \<open>Chunks\<close>

lemma chunk_loop_ok:
  assumes fk: "fork_ok content fk" "fk_logical_size fk = length (fork_bytes content fk)"
  shows "ready s q \<Longrightarrow> fork_bytes content fk = pre @ concat cs \<Longrightarrow> length pre = t + a \<Longrightarrow>
   \<exists>p s' q'. chunk_loop dev unz t n (chunk_offsets a cs) d (fk\<lparr>fk_position := p0\<rparr>, s) =
     (inflate_chunks unz n cs d, (fk\<lparr>fk_position := p\<rparr>, s')) \<and> ready s' q'"
proof (induction cs arbitrary: s q pre a d p0)
  case Nil
  then show ?case by (auto simp: ret_run)
next
  case (Cons c cs)
  let ?F = "fork_bytes content fk"
  have "?F = (pre @ c) @ concat cs" "length (pre @ c) = t + (a + length c)" using Cons.prems by simp_all
  note ih = Cons.IH [OF _ this]
  have lF: "length ?F = t + a + length c + length (concat cs)" using Cons.prems(2,3) by simp
  have b: "t + a < 2 ^ 64" using fork_bytes_bound [OF fk(1)] lF by simp
  have next_off: "(case chunk_offsets (a + length c) cs of
        next_offset # _ \<Rightarrow> ret next_offset
      | [] \<Rightarrow> if fk_logical_size (fk\<lparr>fk_position := p0\<rparr>) < t then panic
              else ret (fk_logical_size (fk\<lparr>fk_position := p0\<rparr>) - t)) = (ret (a + length c) :: ('z, hfs_error, nat) act)"
    using fk(2) lF by (cases cs) simp_all
  show ?case
  proof (cases "c = []")
    case True
    then show ?thesis using ih [OF Cons.prems(1), of d p0] True
      unfolding chunk_offsets.simps chunk_loop.simps fork_act_runs next_off by (simp del: chunk_loop.simps)
  next
    case False
    have "t + a + length c \<le> length ?F" using lF by simp
    from read_exact_fork [OF Cons.prems(1) fk(1) this] obtain s1 q1 where
      s1: "read_exact_internal dev (length c) (fk\<lparr>fk_position := t + a\<rparr>, s) =
        (Ok c, (fk\<lparr>fk_position := t + a + length c\<rparr>, s1))" "ready s1 q1"
      using Cons.prems(2,3) by auto
    let ?k = "if cs \<noteq> [] then 65536 else n - length d"
    have ne: "chunk_offsets (a + length c) cs \<noteq> [] \<longleftrightarrow> cs \<noteq> []" by (cases cs) simp_all
    have size: "(if chunk_offsets (a + length c) cs \<noteq> [] then 65536
        else if length d < n then n - length d else 0) = ?k" unfolding ne by simp
    have run: "chunk_loop dev unz t n (chunk_offsets a (c # cs)) d (fk\<lparr>fk_position := p0\<rparr>, s) =
        bnd (pure_res (unz c ?k)) (\<lambda>e. chunk_loop dev unz t n (chunk_offsets (a + length c) cs) (d @ e))
          (fk\<lparr>fk_position := t + a + length c\<rparr>, s1)"
      using False b unfolding chunk_offsets.simps chunk_loop.simps fork_act_runs next_off
      by (simp add: bnd_Ok [where m = "read_exact_internal dev (length c)", OF s1(1)] size del: chunk_loop.simps)
    show ?thesis
    proof (cases "unz c ?k")
      case (Ok e)
      from ih [OF s1(2), of "d @ e" "t + a + length c"] show ?thesis unfolding run using Ok False by (simp add: pure_res_def)
    qed (unfold run, use s1(2) False in \<open>auto simp: pure_res_def bnd_def\<close>)
  qed
qed

lemma reads_u32_le:
  assumes "fork_ok content fk" and "x < 2 ^ 32"
  shows "reads (fork_at content ready fk) (read_u32_le_internal dev) (to_le (of_nat x :: u32)) x"
proof -
  have "reads (fork_at content ready fk) (read_exact_internal dev 4) (to_le (of_nat x :: u32)) (to_le (of_nat x :: u32))"
    unfolding read_exact_internal_def by (rule byte_source.reads_exact [OF fork_source [OF assms(1)]]) (simp add: length_to_le)
  then show ?thesis unfolding read_u32_le_internal_def
    by (rule reads_map) (use assms(2) in \<open>simp add: from_le_to_le unat_of_nat take_bit_nat_eq_self\<close>)
qed

lemma chunked_ok:
  assumes "ready s q" and "fork_ok content fk" and "fk_logical_size fk = length (fork_bytes content fk)"
    and F: "fork_bytes content fk = pre @ chunked_layout cs" and "length (chunked_layout cs) < 2 ^ 32"
  shows "\<exists>p s' q'. decompress_chunked_zlib dev unz n (fk\<lparr>fk_position := length pre\<rparr>, s) =
    (inflate_chunks unz n cs [], (fk\<lparr>fk_position := p\<rparr>, s')) \<and> ready s' q'"
proof -
  let ?offs = "chunk_offsets (4 * length cs) cs" let ?F = "fork_bytes content fk"
  let ?enc = "\<lambda>a. to_le (of_nat a :: u32)"
  have le: "length (concat (map ?enc xs)) = 4 * length xs" for xs by (induction xs) (simp_all add: length_to_le)
  have l: "length (chunked_layout cs) = 4 + 4 * length cs + length (concat cs)"
    by (simp add: chunked_layout_def length_to_le le)
  have n: "reads (fork_at content ready fk) (read_u32_le_internal dev) (?enc (length cs)) (length cs)"
    using assms(2,5) l by (intro reads_u32_le) simp_all
  have "x < 2 ^ 32" if "x \<in> set ?offs" for x using chunk_offsets_le [OF that] assms(5) l by simp
  then have o: "reads (fork_at content ready fk) (times_act (length cs) (read_u32_le_internal dev)) (concat (map ?enc ?offs)) ?offs"
    using reads_times [of ?offs "fork_at content ready fk" "read_u32_le_internal dev" ?enc] reads_u32_le [OF assms(2)] by simp
  have "fork_at content ready fk (fk\<lparr>fk_position := length pre\<rparr>, s) (?enc (length cs) @ concat (map ?enc ?offs) @ concat cs)"
    unfolding fork_at_def using assms(1)
    by (intro exI [of _ "length pre"] exI [of _ s] exI [of _ q]) (simp add: F chunked_layout_def)
  from readsD [OF n this] obtain st1 where
    st1: "read_u32_le_internal dev (fk\<lparr>fk_position := length pre\<rparr>, s) = (Ok (length cs), st1)"
      "fork_at content ready fk st1 (concat (map ?enc ?offs) @ concat cs)" by blast
  from readsD [OF o st1(2)] obtain st2 where
    st2: "times_act (length cs) (read_u32_le_internal dev) st1 = (Ok ?offs, st2)" "fork_at content ready fk st2 (concat cs)" by blast
  then obtain p s2 q2 where p: "st2 = (fk\<lparr>fk_position := p\<rparr>, s2)" "ready s2 q2" "p \<le> length ?F" "concat cs = drop p ?F"
    by (auto simp: fork_at_def)
  have "p = length pre + 4 + 4 * length cs" using arg_cong [OF p(4), of length] p(3) l by (simp add: F)
  moreover have "?F = (pre @ ?enc (length cs) @ concat (map ?enc ?offs)) @ concat cs" by (simp add: F chunked_layout_def)
  moreover have "length (pre @ ?enc (length cs) @ concat (map ?enc ?offs)) = (length pre + 4) + 4 * length cs"
    by (simp add: length_to_le le)
  ultimately have "\<exists>p' s' q'. chunk_loop dev unz (length pre + 4) n ?offs [] (fk\<lparr>fk_position := p\<rparr>, s2) =
      (inflate_chunks unz n cs [], (fk\<lparr>fk_position := p'\<rparr>, s')) \<and> ready s' q'"
    by (intro chunk_loop_ok [OF assms(2,3) p(2)])
  then show ?thesis using \<open>p = _\<close>
    by (simp add: decompress_chunked_zlib_def bnd_Ok [where m = "read_u32_le_internal dev", OF st1(1)]
        bnd_Ok [where m = "times_act (length cs) (read_u32_le_internal dev)", OF st2(1)] p(1))
qed

section \<open>The first read\<close>

lemma fork_read_cmpf:
  assumes "ready s q" and "fork_ok content fk" and "fk_cache fk = None" and "fk_position fk = 0"
    and F: "fork_bytes content fk = to_be CMPF_MAGIC @ to_be (ctype :: u32) @ to_be (n :: u64) @ body"
    and chunked: "ctype = 5 \<Longrightarrow> fk_logical_size fk = length (fork_bytes content fk) \<and> body = chunked_layout cs \<and> length body < 2 ^ 32"
  shows "\<exists>s' q'. ready s' q' \<and>
    (if ctype \<in> {1, 3, 4, 5} then
       case cmpf_contents unz ctype (unat n) body cs of
         Ok data \<Rightarrow> fork_read dev unz want (fk, s) =
           (Ok (take want data), (fk\<lparr>fk_cache := Some data, fk_logical_size := unat n, fk_position := length (take want data)\<rparr>, s'))
       | r \<Rightarrow> fst (fork_read dev unz want (fk, s)) = r
     else fork_read dev unz want (fk, s) =
       (Ok (take want (fork_bytes content fk)), (fk\<lparr>fk_position := length (take want (fork_bytes content fk))\<rparr>, s')))"
proof -
  let ?F = "fork_bytes content fk" and ?fk = "fk\<lparr>fk_position := 16\<rparr>"
  let ?done = "\<lambda>data. fk\<lparr>fk_cache := Some data, fk_logical_size := unat n, fk_position := 0\<rparr>"
  have len: "16 \<le> length ?F" by (simp add: F)
  from read_internal_content [OF assms(1,2), of 16] assms(4) len obtain s1 q1 where
    s1: "read_internal dev 16 (fk, s) = (Ok (take 16 ?F), (?fk, s1))" "ready s1 q1" by (auto simp: min_def)
  have parts: "take 4 (take 16 ?F) = to_be CMPF_MAGIC" "take 4 (drop 4 (take 16 ?F)) = to_be ctype"
    "take 8 (drop 8 (take 16 ?F)) = to_be n" by (simp_all add: F)
  have check: "check_compression dev unz (fk, s) = check_cmpf dev unz (take 16 ?F) (?fk, s1)"
    using assms(3,4) len
    by (simp add: check_compression_def bnd_Ok [where m = "read_internal dev 16", OF s1(1)] parts from_be_to_be del: take_take)
  have ok: "fork_ok content ?fk" using assms(2) by simp
  have run: "\<exists>p s2 q2. m (?fk, s1) = (cmpf_contents unz ctype (unat n) body cs, (fk\<lparr>fk_position := p\<rparr>, s2)) \<and> ready s2 q2 \<and>
      check_cmpf dev unz (take 16 ?F) (?fk, s1) = bnd m (\<lambda>d. set_cache d (unat n)) (?fk, s1)"
    if m: "m = (if ctype = 1 then read_exact_internal dev (unat n)
      else if ctype = 3 \<or> ctype = 4 then bnd (read_to_end dev) (\<lambda>z. pure_res (unz z (unat n)))
      else decompress_chunked_zlib dev unz (unat n))" and known: "ctype \<in> {1, 3, 4, 5}" for m
  proof -
    have body: "drop 16 ?F = body" by (simp add: F)
    have cmpf: "check_cmpf dev unz (take 16 ?F) (?fk, s1) = bnd m (\<lambda>d. set_cache d (unat n)) (?fk, s1)"
      unfolding m using known by (auto simp: check_cmpf_def parts from_be_to_be Let_def bnd_assoc)
    consider "ctype = 1" | "ctype = 3 \<or> ctype = 4" | "ctype = 5" using known by auto
    then have "\<exists>p s2 q2. m (?fk, s1) = (cmpf_contents unz ctype (unat n) body cs, (fk\<lparr>fk_position := p\<rparr>, s2)) \<and> ready s2 q2"
    proof cases
      case 1
      show ?thesis
      proof (cases "unat n \<le> length body")
        case True
        then have "16 + unat n \<le> length ?F" by (simp add: F)
        from read_exact_fork [OF s1(2) assms(2) this] obtain s2 q2 where
          "read_exact_internal dev (unat n) (?fk, s1) = (Ok (take (unat n) body), (fk\<lparr>fk_position := 16 + unat n\<rparr>, s2))" "ready s2 q2"
          by (auto simp: body)
        then show ?thesis using 1 True by (auto simp: m cmpf_contents_def)
      next
        case False
        then have "fk_position ?fk \<le> length (fork_bytes content ?fk)" "length (fork_bytes content ?fk) < fk_position ?fk + unat n"
          by (simp_all add: F)
        from read_exact_short [OF s1(2) ok this] obtain s2 q2 where
          "read_exact_internal dev (unat n) (?fk, s1) =
            (Err (InvalidData ''Unexpected EOF''), (fk\<lparr>fk_position := length ?F\<rparr>, s2))" "ready s2 q2" by auto
        then show ?thesis using 1 False by (auto simp: m cmpf_contents_def)
      qed
    next
      case 2
      have "length (fork_bytes content ?fk) - fk_position ?fk < Suc (sum_list (map (\<lambda>(_, _, b, e). e - b) (fk_extents ?fk)))"
        using fork_content_length [of content "fk_block_size fk" "fk_extents fk"] assms(2) by (simp add: fork_bytes_def fork_ok_def)
      from read_to_end_content [OF s1(2) ok this, of "[]"] obtain p s2 q2 where
        "read_to_end dev (?fk, s1) = (Ok body, (fk\<lparr>fk_position := p\<rparr>, s2))" "ready s2 q2"
        by (auto simp: read_to_end_def body simp del: read_to_end_loop.simps)
      then show ?thesis using 2 by (auto simp: m cmpf_contents_def bnd_Ok [where m = "read_to_end dev"] pure_res_def)
    next
      case 3
      have c: "fk_logical_size fk = length ?F" "body = chunked_layout cs" "length body < 2 ^ 32" using chunked [OF 3] by blast+
      have "?F = (to_be CMPF_MAGIC @ to_be ctype @ to_be n) @ chunked_layout cs" by (simp add: F c(2))
      from chunked_ok [OF s1(2) assms(2) c(1) this, of unz "unat n"] c(2,3) obtain p s2 q2 where
        "decompress_chunked_zlib dev unz (unat n) (?fk, s1) = (inflate_chunks unz (unat n) cs [], (fk\<lparr>fk_position := p\<rparr>, s2))"
        "ready s2 q2" by auto
      then show ?thesis using 3 by (auto simp: m cmpf_contents_def)
    qed
    with cmpf show ?thesis by blast
  qed
  show ?thesis
  proof (cases "ctype \<in> {1, 3, 4, 5}")
    case False
    then have "check_compression dev unz (fk, s) = (Ok (), (fk\<lparr>fk_position := 0\<rparr>, s1))"
      unfolding check by (simp add: check_cmpf_def parts from_be_to_be Let_def)
    moreover have "fk\<lparr>fk_position := 0\<rparr> = fk" using assms(4) by simp
    ultimately have "fork_read dev unz want (fk, s) = read_internal dev want (fk, s1)"
      using assms(3) by (simp add: fork_read_def bnd_Ok [where m = "check_compression dev unz"])
    moreover obtain s2 q2 where "read_internal dev want (fk, s1) =
        (Ok (take want ?F), (fk\<lparr>fk_position := length (take want ?F)\<rparr>, s2))" "ready s2 q2"
      using read_internal_content [OF s1(2) assms(2), of want] assms(4) by auto
    ultimately show ?thesis using False by (intro exI [of _ s2] exI [of _ q2]) (simp only: if_False simp_thms)
  next
    case True
    from run [OF refl True] obtain m p s2 q2 where
      m: "m (?fk, s1) = (cmpf_contents unz ctype (unat n) body cs, (fk\<lparr>fk_position := p\<rparr>, s2))" "ready s2 q2"
      "check_cmpf dev unz (take 16 ?F) (?fk, s1) = bnd m (\<lambda>d. set_cache d (unat n)) (?fk, s1)" by blast
    show ?thesis
    proof (cases "cmpf_contents unz ctype (unat n) body cs")
      case (Ok data)
      then have "check_compression dev unz (fk, s) = (Ok (), (?done data, s2))"
        unfolding check m(3) using m(1) by (simp add: bnd_def set_cache_def fk_mod_def)
      moreover have "check_compression dev unz (?done data, s2) = (Ok (), (?done data, s2))"
        by (simp add: check_compression_def ret_run)
      ultimately have "fork_read dev unz want (fk, s) = fork_read dev unz want (?done data, s2)"
        by (simp add: fork_read_def bnd_Ok [where m = "check_compression dev unz"])
      then show ?thesis using m(2) True Ok fork_read_cached [of "?done data" data dev unz want s2] by auto
    qed (use m True in \<open>auto simp: fork_read_def bnd_def check intro!: exI [of _ s2] exI [of _ q2]\<close>)
  qed
qed

end

end
