(* ===== verification/HfsProps.thy ===== *)
theory HfsProps
  imports HfsSample ForkCmpf
begin

text \<open>
  The properties of the HFS+ reader, each over the definitions of the theories before, with a
  witness on the volume of \<open>HfsSample\<close>.
\<close>

section \<open>Names\<close>

text \<open>C7: the comparison of names never indexes outside its table, always ends, and is the
  lexicographic comparison of the two names after folding each unit and dropping the ignored ones.\<close>

theorem name_order_is_folded_lex:
  "fast_unicode_compare a b = Some (lex_cmp (folded a) (folded b))"
  by (rule fast_unicode_compare_lex_aux)

section \<open>Trees\<close>

text \<open>C4: on a device that holds a well-formed tree, \<open>get_record\<close> returns the record whose key
  equals the key searched for; without one it fails with \<open>KeyNotFound\<close>, or \<open>InvalidRecordKey\<close> when
  the key is below the first key of the root. Fuel for every node of the tree suffices.\<close>

theorem get_record_finds:
  assumes "disk dev content ready" and "tree_at content ops t tr fuel" and "ready s p"
  shows "fst (get_record dev ops t fuel key s) =
    (case tree_db ops tr key of
       Some r \<Rightarrow> Ok r
     | None \<Rightarrow> Err (if first_key_le ops tr key then KeyNotFound else InvalidRecordKey))"
proof (cases "tree_db ops tr key")
  case None
  then have "k_cmp ops key (r_key ops r) \<noteq> Equal" if "r \<in> set (tree_records tr)" for r
    using that by (auto simp: tree_db_def find_None_iff)
  from disk.get_record_missing [OF assms this] None show ?thesis by auto
next
  case (Some r)
  from tree_db_Some [OF Some] have "r \<in> set (tree_records tr)" "k_cmp ops key (r_key ops r) = Equal"
    by auto
  from disk.get_record_present [OF assms this] Some show ?thesis by auto
qed

theorem get_record_finds_witness:
  "fst (get_record cursor_ops extent_tree_ops (sample_btree 3) 10 (extent_key_new 17 0 1)
     (cursor_new sample_extents)) = Ok extents_b"
proof -
  have "cursor_ready sample_extents (cursor_new sample_extents) 0"
    by (simp add: cursor_ready_def cursor_new_def)
  from get_record_finds [OF cursor_disk.disk_axioms sample_etree_at this, of "extent_key_new 17 0 1"]
  show ?thesis
    by (simp add: tree_db_def sample_etree_def tree_records_def leaf_records_def extent_tree_ops_def
        extents_a_def extents_b_def extent_key_new_def extent_key_cmp_def cmp_def)
qed

text \<open>C5: \<open>get_record_range\<close> returns exactly the records between the two keys, first included and
  last excluded, in the order of the leaves.\<close>

theorem get_record_range_selects:
  assumes "disk dev content ready" and "tree_at content ops t tr fuel" and "ready s p"
    and "\<forall>l \<in> set (leaves tr). snd l \<noteq> []"
  shows "fst (get_record_range dev ops t fuel first bound s) =
    Ok (filter (\<lambda>r. k_cmp ops (r_key ops r) first \<noteq> Less \<and> k_cmp ops (r_key ops r) bound = Less)
      (tree_records tr))"
  using disk.get_record_range_between [OF assms, of first bound] by (auto simp: between_def)

theorem get_record_range_selects_witness:
  "fst (get_record_range cursor_ops extent_tree_ops (sample_btree 3) 10
     (extent_key_new 5 0 0) (extent_key_new 17 0 1) (cursor_new sample_extents)) = Ok [extents_a]"
proof -
  have "cursor_ready sample_extents (cursor_new sample_extents) 0"
    by (simp add: cursor_ready_def cursor_new_def)
  moreover have "\<forall>l \<in> set (leaves sample_etree). snd l \<noteq> []" by (simp add: sample_etree_def)
  ultimately show ?thesis
    using get_record_range_selects [OF cursor_disk.disk_axioms sample_etree_at, of _ _
        "extent_key_new 5 0 0" "extent_key_new 17 0 1"]
    by (simp add: sample_etree_def tree_records_def leaf_records_def extent_tree_ops_def
        extents_a_def extents_b_def extent_key_new_def extent_key_cmp_def cmp_def)
qed

text \<open>C6: \<open>Node::load\<close> reads back a catalog leaf laid out as the format prescribes: descriptor,
  records, free space, offset table.\<close>

theorem catalog_leaf_roundtrip:
  assumes "node_fits d (map catalog_entry rs) free" and "btn_kind d = KLeafNode"
    and "\<forall>r \<in> set rs. catalog_entry_ok r"
  shows "node_load (catalog_tree_ops scmp) (node_layout d (map catalog_entry rs) free) =
    Ok (LeafNode d rs)"
  using assms by (rule catalog_leaf_load)

theorem catalog_leaf_roundtrip_witness:
  "node_load (catalog_tree_ops hfs_string_cmp) catalog_leaf =
     Ok (LeafNode (sample_descriptor KLeafNode 0 2) [folder_record, file_record])"
  unfolding catalog_leaf_def
  by (rule catalog_leaf_roundtrip) (simp_all add: node_fits_def sample_descriptor_def)

section \<open>Forks\<close>

text \<open>\<open>read_internal\<close> copies the bytes that follow the position in the concatenation of the
  extents, as many as asked for or as there are, and advances the position by as many.\<close>

theorem read_internal_copies:
  assumes "disk dev content ready" and "ready s q" and "fork_ok content fk"
  shows "\<exists>s' q'. read_internal dev want (fk, s) =
    (Ok (take want (drop (fk_position fk) (fork_bytes content fk))),
     (fk\<lparr>fk_position := fk_position fk +
        length (take want (drop (fk_position fk) (fork_bytes content fk)))\<rparr>, s')) \<and> ready s' q'"
  by (rule disk.read_internal_content [OF assms])

theorem read_internal_copies_witness:
  "\<exists>s'. read_internal cursor_ops 3 (\<lparr>fk_position = 1, fk_catalog_id = 20, fk_fork_type = 0,
       fk_block_size = 2, fk_logical_size = 4, fk_extents = [(2, 1, 0, 2), (0, 1, 2, 4)],
       fk_cache = None\<rparr>, cursor_new [0, 1, 2, 3, 4, 5]) = (Ok [5, 0, 1], s')"
proof -
  let ?c = "[0, 1, 2, 3, 4, 5] :: bytes"
  let ?fk = "\<lparr>fk_position = 1, fk_catalog_id = 20, fk_fork_type = 0, fk_block_size = 2,
    fk_logical_size = 4, fk_extents = [(2, 1, 0, 2), (0, 1, 2, 4)], fk_cache = None\<rparr>"
  have r: "cursor_ready ?c (cursor_new ?c) 0" by (simp add: cursor_ready_def cursor_new_def)
  have ok: "fork_ok ?c ?fk" by (simp add: fork_ok_def on_volume_def)
  have bytes: "take 3 (drop 1 (fork_bytes ?c ?fk)) = [5, 0, 1]" by (simp add: fork_bytes_def)
  show ?thesis
    using read_internal_copies [OF cursor_disk.disk_axioms [of ?c] r ok, of 3] bytes by auto
qed

text \<open>C8: the first read at the start of a file with a \<open>cmpf\<close> header, by the type of compression in the header: for type 1 the
  contents are the bytes behind the header up to the size that it announces, and an error when the file is shorter; for types 3 and 4
  what these bytes decompress to; for type 5 what the chunks behind a table decompress to, one by one. The read answers from the contents
  and sets the size to the one that the header announces; an error of the decompressor is the error of the read. A file of any other type is
  read as it is, with its header.\<close>

theorem compressed_file_reads_decompressed:
  assumes "disk dev content ready" and "ready s q" and "fork_ok content fk"
    and "fk_cache fk = None" and "fk_position fk = 0"
    and "fork_bytes content fk = to_be CMPF_MAGIC @ to_be (ctype :: u32) @ to_be (n :: u64) @ body"
    and "ctype = 5 \<Longrightarrow> fk_logical_size fk = length (fork_bytes content fk) \<and> body = chunked_layout cs \<and> length body < 2 ^ 32"
  shows "\<exists>s' q'. ready s' q' \<and>
    (if ctype \<in> {1, 3, 4, 5} then
       case cmpf_contents unz ctype (unat n) body cs of
         Ok data \<Rightarrow> fork_read dev unz want (fk, s) =
           (Ok (take want data), (fk\<lparr>fk_cache := Some data, fk_logical_size := unat n, fk_position := length (take want data)\<rparr>, s'))
       | r \<Rightarrow> fst (fork_read dev unz want (fk, s)) = r
     else fork_read dev unz want (fk, s) =
       (Ok (take want (fork_bytes content fk)), (fk\<lparr>fk_position := length (take want (fork_bytes content fk))\<rparr>, s')))"
  using assms by (rule disk.fork_read_cmpf)

text \<open>Once a fork is decompressed, a read copies from the decompressed bytes and leaves the
  file alone.\<close>

theorem cached_fork_reads_cache:
  assumes "fk_cache fk = Some data"
  shows "fork_read dev unz want (fk, s) =
    (Ok (take want (drop (fk_position fk) data)),
     (fk\<lparr>fk_position := fk_position fk + length (take want (drop (fk_position fk) data))\<rparr>, s))"
  by (rule fork_read_cached [OF assms])

text \<open>A record of the overflow tree that describes no block makes \<open>Fork::load\<close> fetch it again
  and again: no number of rounds ends the loop.\<close>

theorem empty_overflow_record_never_ends:
  assumes "overflow_tree look db tree_ready" and "tree_ready s"
    and "block_total (fd_extents data) = 0" and "0 < fd_logical_size data"
    and "db (extent_key_new cid ft 0) = Some r" and "block_total (er_body r) = 0"
  shows "fst (fork_load (Some look) fuel cid ft bs data s) = Loop"
proof -
  have "fst (load_loop (Some look) cid ft bs (unat (fd_logical_size data)) fuel (fd_extents data)
      (0, 0, []) s) = Loop"
    by (rule overflow_tree.load_loop_stuck [OF assms(1,2)])
      (use assms(3-6) in \<open>simp_all add: word_less_nat_alt\<close>)
  then show ?thesis
    by (auto simp: fork_load_def bnd_def split: prod.splits res.splits)
qed

theorem empty_overflow_record_never_ends_witness:
  "\<forall>fuel. fst (fork_load (Some (volume_overflow cursor_ops no_inflate sample_volume 10)) fuel 5 0 512
     \<lparr>fd_logical_size = 1, fd_clump_size = 0, fd_total_blocks = 0, fd_extents = replicate 8 no_extent\<rparr>
     sample_state) = Loop"
proof
  fix fuel
  have total: "block_total (er_body extents_a) = 0"
    by (simp add: extents_a_def)
  have db: "tree_db extent_tree_ops sample_etree (extent_key_new 5 0 0) = Some extents_a"
    by (simp add: tree_db_def sample_etree_def tree_records_def leaf_records_def extent_tree_ops_def
        extents_a_def extent_key_new_def extent_key_cmp_def cmp_def)
  show "fst (fork_load (Some (volume_overflow cursor_ops no_inflate sample_volume 10)) fuel 5 0 512
     \<lparr>fd_logical_size = 1, fd_clump_size = 0, fd_total_blocks = 0, fd_extents = replicate 8 no_extent\<rparr>
     sample_state) = Loop"
    by (rule empty_overflow_record_never_ends
          [OF mounted_overflow.overflow_tree_axioms sample_mounted _ _ db])
      (simp_all add: total)
qed

section \<open>Volumes\<close>


text \<open>C1: resolving a path finds a record exactly when the names of the path, decomposed and
  compared by the order of the catalog, lead from the root folder to it through folders.\<close>

theorem path_resolution_walks:
  assumes "mounted dev content ready bs cexts eexts vol ctr etr fuel v"
    and "path_parts filename \<noteq> []"
  shows "(\<exists>v'. get_path_record dev unz nfd vol fuel filename v = (Ok r, v')) \<longleftrightarrow>
    walk (catalog_order (vol_catalog vol)) (tree_records ctr) 2
      (map (\<lambda>p. encode_utf16 (nfd p)) (path_parts filename)) r"
proof -
  from assms(1) have "disk dev content ready" "fork_tree content bs cexts
      (catalog_tree_ops (catalog_order (vol_catalog vol))) (catalog_tree (vol_catalog vol)) ctr fuel"
    "volume_ready ready bs cexts eexts v" by (auto simp: mounted_def)
  from disk.get_path_record_walk [OF this assms(2)] show ?thesis .
qed

text \<open>\<open>/a/b\<close> and \<open>/A//B\<close> both lead to the file.\<close>

theorem path_resolution_walks_witness:
  "(\<exists>v'. get_path_record cursor_ops no_inflate (\<lambda>s. s) sample_volume 10 [47, 97, 47, 98] sample_state =
      (Ok file_record, v')) \<and>
   (\<exists>v'. get_path_record cursor_ops no_inflate (\<lambda>s. s) sample_volume 10 [47, 65, 47, 47, 66] sample_state =
      (Ok file_record, v'))"
proof -
  have parts: "path_parts [47, 97, 47, 98] = [[97], [98]]" "path_parts [47, 65, 47, 47, 66] = [[65], [66]]"
    by (simp_all add: path_parts_def)
  have utf: "encode_utf16 [97] = [97]" "encode_utf16 [98] = [98]" "encode_utf16 [65] = [65]"
    "encode_utf16 [66] = [66]"
    by (simp_all add: encode_utf16_def utf16_units_def)
  have walk: "walk (catalog_order (vol_catalog sample_volume)) (tree_records sample_ctree) 2 ns file_record"
    if "ns = [[97], [98]] \<or> ns = [[65], [66]]" for ns
    using that name_a_b by (auto simp: sample_volume_def sample_ctree_def tree_records_def
        leaf_records_def named_def catalog_key_cmp_def name_key_def folder_record_def
        file_record_def sample_folder_def cmp_def folded_letters hfs_string_cmp_folded)
  show ?thesis
    using path_resolution_walks [OF sample_mounted, of _ no_inflate "\<lambda>s. s" file_record] parts utf
      walk [of "[[97], [98]]"] walk [of "[[65], [66]]"]
    by (simp del: walk.simps)
qed

text \<open>C3: listing a folder returns the records whose parent is the folder, all of them and in the
  order of the catalog, each with its name.\<close>

theorem list_dir_lists_children:
  assumes "mounted dev content ready bs cexts eexts vol ctr etr fuel v"
    and "\<forall>l \<in> set (leaves ctr). snd l \<noteq> []" and "path_parts path \<noteq> []"
    and "walk (catalog_order (vol_catalog vol)) (tree_records ctr) 2
      (map (\<lambda>p. encode_utf16 (nfd p)) (path_parts path)) r"
    and "cr_body r = BFolder f" and "unat (cfo_folder_id f) + 1 < 2 ^ 32"
  shows "\<exists>v'. list_dir dev unz nfd vol fuel path v =
    (Ok (map (\<lambda>r. (display_name (ck_node_name (cr_key r)), r))
       (filter (\<lambda>r. ck_parent_id (cr_key r) = cfo_folder_id f) (tree_records ctr))), v')"
proof -
  from assms(1) have "disk dev content ready" "fork_tree content bs cexts
      (catalog_tree_ops (catalog_order (vol_catalog vol))) (catalog_tree (vol_catalog vol)) ctr fuel"
    "volume_ready ready bs cexts eexts v" by (auto simp: mounted_def)
  from disk.list_dir_children [OF this assms(2-6)] show ?thesis .
qed

theorem list_dir_lists_children_witness:
  "\<exists>v'. list_dir cursor_ops no_inflate (\<lambda>s. s) sample_volume 10 [47, 97] sample_state =
     (Ok [([98], file_record)], v')"
proof -
  have parts: "path_parts [47, 97] = [[97]]" by (simp add: path_parts_def)
  have utf: "encode_utf16 [97] = [97]" by (simp add: encode_utf16_def utf16_units_def)
  have ne: "\<forall>l \<in> set (leaves sample_ctree). snd l \<noteq> []" by (simp add: sample_ctree_def)
  have w: "walk (catalog_order (vol_catalog sample_volume)) (tree_records sample_ctree) 2
      (map (\<lambda>p. encode_utf16 p) (path_parts [47, 97])) folder_record"
    by (simp add: parts utf sample_volume_def sample_ctree_def tree_records_def leaf_records_def
        named_def catalog_key_cmp_def name_key_def folder_record_def cmp_def folded_names.kcmp_refl)
  show ?thesis
    using list_dir_lists_children [OF sample_mounted ne _ w, of sample_folder no_inflate]
    by (simp add: parts folder_record_def file_record_def sample_folder_def sample_ctree_def
        tree_records_def leaf_records_def name_key_def display_name_def)
qed


text \<open>Two chunks behind a table, which come to three bytes each.\<close>

theorem compressed_file_reads_decompressed_witness:
  "\<exists>s'. fork_read cursor_ops (\<lambda>bs n. Ok (bs @ bs @ bs)) 4
     (\<lparr>fk_position = 0, fk_catalog_id = 20, fk_fork_type = 0, fk_block_size = 512,
        fk_logical_size = 30, fk_extents = [(0, 1, 0, 30)], fk_cache = None\<rparr>,
      cursor_new (to_be CMPF_MAGIC @ to_be (5 :: u32) @ to_be (6 :: u64) @ chunked_layout [[9], [8]])) = (Ok [9, 9, 9, 8], s')"
proof -
  let ?b = "chunked_layout [[9], [8]]" let ?c = "to_be CMPF_MAGIC @ to_be (5 :: u32) @ to_be (6 :: u64) @ ?b"
  let ?fk = "\<lparr>fk_position = 0, fk_catalog_id = 20, fk_fork_type = 0, fk_block_size = 512,
    fk_logical_size = 30, fk_extents = [(0, 1, 0, 30)], fk_cache = None\<rparr>"
  have l: "length ?b = 14" by (simp add: chunked_layout_def length_to_le)
  have "cursor_ready ?c (cursor_new ?c) 0" by (simp add: cursor_ready_def cursor_new_def l)
  moreover have "fork_ok ?c ?fk" by (simp add: fork_ok_def on_volume_def l)
  moreover have "fork_bytes ?c ?fk = ?c" by (simp add: fork_bytes_def l)
  ultimately show ?thesis
    using compressed_file_reads_decompressed [OF cursor_disk.disk_axioms, of ?c "cursor_new ?c" 0 ?fk
        5 6 ?b "[[9], [8]]" "\<lambda>bs n. Ok (bs @ bs @ bs)" 4]
    by (auto simp: cmpf_contents_def l)
qed

theorem cached_fork_reads_cache_witness:
  "fork_read cursor_ops no_inflate 2
     (\<lparr>fk_position = 1, fk_catalog_id = 20, fk_fork_type = 0, fk_block_size = 512,
        fk_logical_size = 3, fk_extents = [], fk_cache = Some [1, 2, 3]\<rparr>, cursor_new []) =
   (Ok [2, 3], (\<lparr>fk_position = 3, fk_catalog_id = 20, fk_fork_type = 0, fk_block_size = 512,
        fk_logical_size = 3, fk_extents = [], fk_cache = Some [1, 2, 3]\<rparr>, cursor_new []))"
  by (simp add: cached_fork_reads_cache)

end
