(* ===== verification/HfsFsProps.thy ===== *)
theory HfsFsProps
  imports HfsFsSpec HfsProps
begin

text \<open>The properties of the read path: driver, buffer, file handles.\<close>

section \<open>A concrete disk\<close>

definition sample_blk :: virtio_blk where
  "sample_blk = \<lparr>vb_desc = replicate 16 \<lparr>vd_addr = NoTarget, vd_len = 0, vd_flags = 0, vd_next = 0\<rparr>,
     vb_avail_idx = 0, vb_avail_ring = replicate 16 0, vb_used_idx = 0, vb_last_used_idx = 0,
     vb_req_buf = \<lparr>rq_type = 0, rq_reserved = 0, rq_sector = 0\<rparr>, vb_status_buf = 0, vb_next_desc_idx = 14\<rparr>"

lemma sample_blk_idle: "idle sample_blk"
  by (simp add: idle_def ring_ok_def sample_blk_def QUEUE_SIZE_def)

text \<open>One sector in front of the volume, and enough behind it to fill the buffer.\<close>

definition sample_image :: bytes where
  "sample_image = replicate 512 0 @ sample_disk @ replicate 65536 0"

lemma sample_image_facts:
  "length sample_image = 70144" "drop 512 sample_image = sample_disk @ replicate 65536 0"
  by (simp_all add: sample_image_def)

interpretation sample_device: sector_device "image_device sample_image" sample_image
  by (rule image_sector_device) (simp_all add: sample_image_facts)

interpretation sample_volume_device: volume_device "virtio_read_at (image_device sample_image)" idle 512
    "drop 512 sample_image" 65536 4096
  by (rule sample_device.virtio_volume_device) (simp_all add: sample_image_facts(1))

definition sample_reader :: "virtio_blk volume_file" where
  "sample_reader = with_capacity (64 * 1024) (device_wrapper_new sample_blk 512)"

lemma sample_reader_ready: "buf_ready idle 512 (drop 512 sample_image) 65536 sample_reader 0"
  by (simp add: buf_ready_def buf_window_def sample_reader_def with_capacity_def device_wrapper_new_def
      sample_blk_idle)

lemma sample_content: "take 4096 (drop 512 sample_image) = sample_disk"
  by (simp add: sample_image_facts)

definition sample_kernel_state :: "virtio_blk volume_file volume_state" where
  "sample_kernel_state = \<lparr>vs_catalog = sample_fork 4 1024 sample_cexts,
     vs_extents = sample_fork 3 2048 sample_eexts, vs_file = sample_reader\<rparr>"

lemma sample_virtio_mounted:
  "mounted (volume_file_ops (virtio_read_at (image_device sample_image))) sample_disk
     (buf_ready idle 512 (drop 512 sample_image) 65536) 512 sample_cexts sample_eexts sample_volume
     sample_ctree sample_etree 10 sample_kernel_state"
  using sample_fork_trees sample_reader_ready sample_volume_device.vfile.disk_axioms
  by (auto simp: mounted_def sample_volume_def volume_ready_def sample_kernel_state_def fork_ready_def
      sample_fork_def sample_content)

section \<open>The driver\<close>

text \<open>C15: whatever descriptor is next, the request that \<open>read_sectors\<close> posts is a chain of the header,
  the data buffer and the status byte, of which the device may write the last two; the ring stays
  well formed and the header asks for the sector.\<close>

theorem virtio_request_chain:
  assumes "ring_ok b" and "n < 2 ^ 32"
  shows "posted_chain (queue_request sector n b) = [(ReqBuf, 16, False), (DataBuf, n, True), (StatusBuf, 1, True)] \<and>
    ring_ok (queue_request sector n b) \<and> rq_sector (vb_req_buf (queue_request sector n b)) = sector"
  using queue_request_chain [OF assms] queue_request_facts [OF assms(1)] by simp

theorem virtio_request_chain_witness:
  "posted_chain (queue_request 3 1024 sample_blk) = [(ReqBuf, 16, False), (DataBuf, 1024, True), (StatusBuf, 1, True)]"
  using virtio_request_chain [of sample_blk 1024 3] sample_blk_idle by (simp add: idle_def)

text \<open>C14: on a device that keeps to the protocol, the byte addressed \<open>read_at\<close> of the driver returns
  exactly the bytes of the disk at any offset and length, aligned to sectors or not, and leaves the
  driver ready for the next request.\<close>

theorem virtio_read_at_reads:
  assumes "sector_device device img" and "idle b" and "offset + n \<le> length img"
  shows "\<exists>b'. virtio_read_at device offset n b = (Ok (Some (take n (drop offset img))), b') \<and> idle b'"
  by (rule sector_device.virtio_read_at_ok [OF assms])

theorem virtio_read_at_reads_witness:
  "\<exists>b'. virtio_read_at (image_device sample_image) (512 + 3072) 3 sample_blk = (Ok (Some [7, 7, 7]), b')"
proof -
  have "drop (512 + 3072) sample_image = drop 3072 (drop 512 sample_image)" by (simp only: drop_drop add.commute)
  also have "\<dots> = replicate 1024 7 @ replicate 65536 0"
    unfolding sample_image_facts(2) by (simp add: sample_disk_def)
  finally have "take 3 (drop (512 + 3072) sample_image) = replicate 3 7" by simp
  then have "take 3 (drop (512 + 3072) sample_image) = [7, 7, 7]" by (simp add: numeral_3_eq_3)
  then show ?thesis
    using virtio_read_at_reads [OF sample_device.sector_device_axioms sample_blk_idle, of "512 + 3072" 3]
    by (auto simp: sample_image_facts(1))
qed

section \<open>The read path\<close>




text \<open>\<open>/a/b\<close> of the sample volume: 1000 bytes in two extents, the second one from the overflow tree.\<close>

abbreviation sample_path :: ustring where
  "sample_path \<equiv> [47, 97, 47, 98]"

abbreviation sample_extents :: "extent_descriptor list" where
  "sample_extents \<equiv> fd_extents sample_fork_data @ concat (map er_body [extents_b])"

lemma sample_file_facts:
  "path_parts sample_path = [[97], [98]]"
  "walk (catalog_order (vol_catalog sample_volume)) (tree_records sample_ctree) 2
     (map (\<lambda>p. encode_utf16 p) (path_parts sample_path)) file_record"
  "cr_body file_record = BFile sample_file" "chosen_fork sample_file = (sample_fork_data, 0)"
  "map_extents 512 1000 0 sample_extents = [(6, 1, 0, 512), (7, 1, 512, 1000)]"
  "overflow_chain (tree_db extent_tree_ops sample_etree) (cfi_file_id sample_file) 0 512 1000
     (block_total (fd_extents sample_fork_data) * 512) (block_total (fd_extents sample_fork_data)) [extents_b]"
  "on_volume sample_disk 512 [(6, 1, 0, 512), (7, 1, 512, 1000)]"
proof -
  show parts: "path_parts sample_path = [[97], [98]]" by (simp add: path_parts_def)
  have utf: "encode_utf16 [97] = [97]" "encode_utf16 [98] = [98]"
    by (simp_all add: encode_utf16_def utf16_units_def)
  show "walk (catalog_order (vol_catalog sample_volume)) (tree_records sample_ctree) 2
      (map (\<lambda>p. encode_utf16 p) (path_parts sample_path)) file_record"
    using name_a_b by (auto simp: parts utf sample_volume_def sample_ctree_def tree_records_def
        leaf_records_def named_def catalog_key_cmp_def name_key_def folder_record_def
        file_record_def sample_folder_def cmp_def folded_letters hfs_string_cmp_folded)
  show "map_extents 512 1000 0 sample_extents = [(6, 1, 0, 512), (7, 1, 512, 1000)]"
    by (simp add: sample_fork_data_def extents_b_def)
  have "tree_db extent_tree_ops sample_etree (extent_key_new 17 0 1) = Some extents_b"
    by (simp add: tree_db_def sample_etree_def tree_records_def leaf_records_def extent_tree_ops_def
        extents_a_def extents_b_def extent_key_new_def extent_key_cmp_def cmp_def)
  then show "overflow_chain (tree_db extent_tree_ops sample_etree) (cfi_file_id sample_file) 0 512 1000
      (block_total (fd_extents sample_fork_data) * 512) (block_total (fd_extents sample_fork_data)) [extents_b]"
    by (simp add: sample_fork_data_def extents_b_def sample_file_def)
  show "cr_body file_record = BFile sample_file" "chosen_fork sample_file = (sample_fork_data, 0)"
    by (simp_all add: file_record_def chosen_fork_def sample_file_def sample_fork_data_def)
  show "on_volume sample_disk 512 [(6, 1, 0, 512), (7, 1, 512, 1000)]" by (simp add: on_volume_def)
qed

lemma sample_file_content:
  "fork_content sample_disk 512 [(6, 1, 0, 512), (7, 1, 512, 1000)] = replicate 1000 7"
  "plain (fork_content sample_disk 512 [(6, 1, 0, 512), (7, 1, 512, 1000)])"
proof -
  show c: "fork_content sample_disk 512 [(6, 1, 0, 512), (7, 1, 512, 1000)] = replicate 1000 7"
    by (simp add: sample_disk_def replicate_add [symmetric])
  have "take 4 (replicate 1000 (7 :: u8)) = [7, 7, 7, 7]" by (simp add: numeral_eq_Suc)
  then show "plain (fork_content sample_disk 512 [(6, 1, 0, 512), (7, 1, 512, 1000)])"
    unfolding c by (simp add: plain_def CMPF_MAGIC_def from_be_def from_le_def)
qed


section \<open>Limits of the buffer\<close>

text \<open>When a fill of the buffer fails, the read fails, but the next read succeeds and returns bytes
  that were already in the buffer, whatever the position.\<close>

theorem failed_fill_serves_stale_bytes:
  assumes "rs_read dev (length (br_buffer b)) (br_inner b) = (Err e, s)"
    and "br_cap b \<le> br_pos b" and "0 < br_cap b" and "br_cap b \<le> length (br_buffer b)"
    and "0 < n" and "n < length (br_buffer b)"
  shows "\<exists>b' b''. buf_read dev n b = (Err e, b') \<and>
    buf_read dev n b' = (Ok (take (min n (br_cap b)) (br_buffer b)), b'')"
  by (rule failed_fill_then_stale [OF assms])

text \<open>A device that refuses, and a buffer of four bytes that have been read already.\<close>

theorem failed_fill_serves_stale_bytes_witness:
  "\<exists>b' b''. buf_read (device_ops (\<lambda>off n. ret None)) 2 \<lparr>br_inner = device_wrapper_new () 0,
       br_buffer = [1, 2, 3, 4], br_pos = 4, br_cap = 4\<rparr> = (Err (InvalidData ''Read failed''), b') \<and>
     buf_read (device_ops (\<lambda>off n. ret None)) 2 b' = (Ok [1, 2], b'')"
proof -
  let ?w = "device_wrapper_new () 0"
  have "rs_read (device_ops (\<lambda>off n. ret None)) 4 ?w = (Err (InvalidData ''Read failed''), ?w)"
    by (simp add: device_ops_def device_read_def device_wrapper_new_def on_device_def bnd_def ret_def fail_def)
  then show ?thesis
    using failed_fill_serves_stale_bytes [of "device_ops (\<lambda>off n. ret None)" "\<lparr>br_inner = ?w,
       br_buffer = [1, 2, 3, 4], br_pos = 4, br_cap = 4\<rparr>" "InvalidData ''Read failed''" ?w 2]
    by (simp add: numeral_eq_Suc)
qed

text \<open>A relative seek beyond the bytes left in the buffer counts from the end of the buffer, not
  from the position of the reader: with a window of \<open>w\<close> unread bytes it ends \<open>w\<close> bytes too far.\<close>

theorem seek_current_skips_window:
  assumes "buf_ready dinv base full cap b p" and "buf_window b < n" and "p + buf_window b + n < 2 ^ 63"
    and "cap < 2 ^ 62" and "n < 2 ^ 62"
  shows "\<exists>b'. rs_seek (volume_file_ops rd) (Current (int n)) b = (Ok (p + buf_window b + n), b')"
  by (rule buf_seek_current_far [OF assms])

theorem seek_current_skips_window_witness:
  "\<exists>b'. rs_seek (volume_file_ops (\<lambda>off n. ret None)) (Current 5)
     \<lparr>br_inner = \<lparr>dw_device = (), dw_base_offset = 0, dw_pos = 4\<rparr>, br_buffer = [1, 2, 3, 4], br_pos = 1,
      br_cap = 4\<rparr> = (Ok 9, b')"
proof -
  let ?b = "\<lparr>br_inner = \<lparr>dw_device = (), dw_base_offset = 0, dw_pos = 4\<rparr>, br_buffer = [1, 2, 3, 4],
    br_pos = 1, br_cap = 4\<rparr>"
  have "buf_ready (\<lambda>_. True) 0 [1, 2, 3, 4, 5, 6, 7, 8] 4 ?b 1" and w: "buf_window ?b = 3"
    by (simp_all add: buf_ready_def buf_window_def)
  from seek_current_skips_window [OF this(1), of 5 "\<lambda>off n. ret None"] w show ?thesis by simp
qed

end
