(* ===== verification/MmuInit.thy ===== *)
theory MmuInit
  imports MmuMap
begin

text \<open>
  The tables that \<open>init\<close> builds: they satisfy the invariant and map the first 4 GB to themselves
  except the hole of the devices; the calls of \<open>map_range\<close> that follow find room in the pool of L3
  tables.
\<close>

unbundle bit_operations_syntax

section \<open>Progress\<close>

definition l1_valid :: "table_layout \<Rightarrow> mmu \<Rightarrow> nat \<Rightarrow> bool" where
  "l1_valid ly m i \<longleftrightarrow> mm_tables m (ly_l1 ly) i AND DESC_VALID \<noteq> 0"

text \<open>The entry of the 2 MB region \<open>r\<close> is already a table.\<close>

definition has_l3 :: "table_layout \<Rightarrow> mmu \<Rightarrow> nat \<Rightarrow> bool" where
  "has_l3 ly m r =
     (let e = mm_tables m (mm_tables m (ly_l1 ly) (r div 512) AND TABLE_ADDR_MASK) (r mod 512)
      in e AND DESC_VALID \<noteq> 0 \<and> e AND DESC_TABLE \<noteq> 0)"

definition l3_cost :: "table_layout \<Rightarrow> mmu \<Rightarrow> nat \<Rightarrow> nat" where
  "l3_cost ly m r = (if has_l3 ly m r then 0 else 1)"

lemma ensure_l3_runs:
  assumes "mm_l3_alloc_idx m < 255 \<or>
    mm_tables m t j AND DESC_VALID \<noteq> 0 \<and> mm_tables m t j AND DESC_TABLE \<noteq> 0"
  shows "\<exists>m'. ensure_l3 ly t j m = Some m' \<and>
    mm_l3_alloc_idx m' = mm_l3_alloc_idx m +
      (if mm_tables m t j AND DESC_VALID \<noteq> 0 \<and> mm_tables m t j AND DESC_TABLE \<noteq> 0 then 0 else 1)"
  using assms unfolding ensure_l3_def Let_def
  by (cases "mm_tables m t j AND DESC_VALID = 0"; cases "mm_tables m t j AND DESC_TABLE = 0"; simp)

text \<open>Nothing but the entry and a fresh L3 table is written.\<close>

lemma ensure_l3_frame:
  assumes "ensure_l3 ly t j m = Some m'" and "(a, b) \<noteq> (t, j)" and "\<And>k. k < 256 \<Longrightarrow> a \<noteq> ly_l3_pool ly k"
  shows "mm_tables m' a b = mm_tables m a b"
  using assms(1,2) assms(3) [of "mm_l3_alloc_idx m"]
  by (auto simp: ensure_l3_def Let_def not_le split: if_splits)

lemma ensure_l3_cost:
  assumes "ensure_l3 ly t j m = Some m'"
  shows "mm_l3_alloc_idx m' = mm_l3_alloc_idx m +
    (if mm_tables m t j AND DESC_VALID \<noteq> 0 \<and> mm_tables m t j AND DESC_TABLE \<noteq> 0 then 0 else 1)"
  using assms by (auto simp: ensure_l3_def Let_def split: if_splits)

lemma l1_table:
  assumes "layout_ok ly" and "tables_ok ly m" and "i < 512" and "l1_valid ly m i"
  obtains t where "t \<in> l2_used ly m" "mm_tables m (ly_l1 ly) i = (t OR DESC_VALID OR DESC_TABLE)"
    "mm_tables m (ly_l1 ly) i AND TABLE_ADDR_MASK = t"
proof -
  obtain t where t: "t \<in> l2_used ly m" "mm_tables m (ly_l1 ly) i = (t OR DESC_VALID OR DESC_TABLE)"
    using tables_okD(3) [OF assms(2,3)] assms(4) by (auto simp: l1_valid_def)
  moreover have "mm_tables m (ly_l1 ly) i AND TABLE_ADDR_MASK = t"
    using t table_desc_addr l2_used_facts(1) [OF assms(1,2) t(1)] by simp
  ultimately show thesis by (rule that)
qed

text \<open>What mapping a page costs: a table when its region has none; no other region gets one.\<close>

lemma map_page_cost:
  assumes ly: "layout_ok ly" and ok: "tables_ok ly m" and v: "vpn < 2 ^ 27"
    and l1: "l1_valid ly m (vpn div 2 ^ 18)" and run: "map_page ly perm (vpn * 0x1000) p m = Some m'"
  shows "mm_tables m' (ly_l1 ly) = mm_tables m (ly_l1 ly)" and "has_l3 ly m' (vpn div 512)"
    and "mm_l3_alloc_idx m' = mm_l3_alloc_idx m + l3_cost ly m (vpn div 512)"
    and "r < 2 ^ 18 \<Longrightarrow> l1_valid ly m (r div 512) \<Longrightarrow> r \<noteq> vpn div 512 \<Longrightarrow> has_l3 ly m' r \<longleftrightarrow> has_l3 ly m r"
proof -
  let ?i = "vpn div 2 ^ 18" and ?j = "(vpn div 512) mod 512" and ?k = "vpn mod 512"
  have b: "?i < 512" "?j < 512" using vpn_parts [OF v] by auto
  have ii: "vpn div 512 div 512 = ?i" by (simp add: div_mult2_eq [symmetric])
  note ix = page_index [OF refl, of vpn]
  have e2: "ensure_l2 ly ?i m = Some m" using l1 by (simp add: ensure_l2_def l1_valid_def)
  obtain t where t: "t \<in> l2_used ly m" "mm_tables m (ly_l1 ly) ?i = (t OR DESC_VALID OR DESC_TABLE)"
    and at: "mm_tables m (ly_l1 ly) ?i AND TABLE_ADDR_MASK = t" by (rule l1_table [OF ly ok b(1) l1])
  let ?e = "mm_tables m t ?j"
  have has: "has_l3 ly m (vpn div 512) \<longleftrightarrow> ?e AND DESC_VALID \<noteq> 0 \<and> ?e AND DESC_TABLE \<noteq> 0"
    unfolding has_l3_def ii at Let_def ..
  from run obtain m2 where m2: "ensure_l3 ly t ?j m = Some m2"
    and m': "m' = write_entry (mm_tables m2 t ?j AND TABLE_ADDR_MASK) ?k (p OR DESC_VALID OR DESC_PAGE OR page_flags perm) m2"
    unfolding map_page_def Let_def ix e2 by (simp only: option.case at split: option.splits) (auto split: option.splits)
  from ensure_l3_ok [OF ly ok t(1) b(2) m2] obtain u where
    c: "tables_ok ly m2" "l2_used ly m2 = l2_used ly m" "mm_tables m2 (ly_l1 ly) = mm_tables m (ly_l1 ly)"
    and u: "u \<in> l3_used ly m2" "mm_tables m2 t ?j = (u OR DESC_VALID OR DESC_TABLE)" by blast
  have au: "mm_tables m2 t ?j AND TABLE_ADDR_MASK = u"
    using u table_desc_addr l3_used_facts(1) [OF ly c(1) u(1)] by simp
  note m'u = m' [unfolded au]
  have u1: "u \<noteq> ly_l1 ly" by (rule l3_used_facts(2) [OF ly c(1) u(1)])
  have "\<exists>k < 256. u = ly_l3_pool ly k" using u(1) tables_okD(2) [OF c(1)] by (force simp: l3_used_def)
  then have ut: "u \<noteq> x" if "x \<in> l2_used ly m" for x using l2_used_facts(3) [OF ly ok that] by blast
  show l1': "mm_tables m' (ly_l1 ly) = mm_tables m (ly_l1 ly)" using u1 c(3) by (auto simp: m'u fun_eq_iff)
  have "mm_tables m' t ?j = (u OR DESC_VALID OR DESC_TABLE)" using ut [OF t(1)] u(2) by (simp add: m'u)
  then show "has_l3 ly m' (vpn div 512)" unfolding has_l3_def ii l1' at Let_def by simp
  show "mm_l3_alloc_idx m' = mm_l3_alloc_idx m + l3_cost ly m (vpn div 512)"
    using ensure_l3_cost [OF m2] by (simp add: m' l3_cost_def has)
  assume r: "r < 2 ^ 18" "l1_valid ly m (r div 512)" "r \<noteq> vpn div 512"
  have r9: "r div 512 < 512" using r(1) by simp
  obtain x where x: "x \<in> l2_used ly m" "mm_tables m (ly_l1 ly) (r div 512) = (x OR DESC_VALID OR DESC_TABLE)"
    and ax: "mm_tables m (ly_l1 ly) (r div 512) AND TABLE_ADDR_MASK = x" by (rule l1_table [OF ly ok r9 r(2)])
  have "(x, r mod 512) \<noteq> (t, ?j)"
  proof
    assume eq: "(x, r mod 512) = (t, ?j)"
    then have "r div 512 = ?i" using tables_okD(4) [OF ok r9 b(1)] r(2) x(2) t(2) by (simp add: l1_valid_def)
    then show False using eq r(3) ii div_mult_mod_eq [of r 512] div_mult_mod_eq [of "vpn div 512" 512] by simp
  qed
  from ensure_l3_frame [OF m2 this] l2_used_facts(3) [OF ly ok x(1)] have "mm_tables m2 x (r mod 512) = mm_tables m x (r mod 512)"
    by blast
  then have "mm_tables m' x (r mod 512) = mm_tables m x (r mod 512)" using ut [OF x(1)] by (simp add: m'u)
  then show "has_l3 ly m' r \<longleftrightarrow> has_l3 ly m r" by (simp only: has_l3_def l1' ax)
qed

lemma map_page_runs:
  assumes ly: "layout_ok ly" and ok: "tables_ok ly m" and v: "vpn < 2 ^ 27"
    and l1: "l1_valid ly m (vpn div 2 ^ 18)"
    and room: "mm_l3_alloc_idx m + l3_cost ly m (vpn div 512) \<le> 255"
  shows "\<exists>m'. map_page ly perm (vpn * 0x1000) p m = Some m'"
proof -
  let ?i = "vpn div 2 ^ 18" and ?j = "(vpn div 512) mod 512"
  have b: "?i < 512" using vpn_parts [OF v] by auto
  have ii: "vpn div 512 div 512 = ?i" by (simp add: div_mult2_eq [symmetric])
  note ix = page_index [OF refl, of vpn]
  have e2: "ensure_l2 ly ?i m = Some m" using l1 by (simp add: ensure_l2_def l1_valid_def)
  obtain t where at: "mm_tables m (ly_l1 ly) ?i AND TABLE_ADDR_MASK = t" by (rule l1_table [OF ly ok b l1])
  let ?e = "mm_tables m t ?j"
  have "has_l3 ly m (vpn div 512) \<longleftrightarrow> ?e AND DESC_VALID \<noteq> 0 \<and> ?e AND DESC_TABLE \<noteq> 0"
    unfolding has_l3_def ii at Let_def ..
  then have "mm_l3_alloc_idx m < 255 \<or> ?e AND DESC_VALID \<noteq> 0 \<and> ?e AND DESC_TABLE \<noteq> 0"
    using room unfolding l3_cost_def by (auto split: if_splits)
  from ensure_l3_runs [OF this, of ly] obtain m2 where "ensure_l3 ly t ?j m = Some m2" by blast
  then show ?thesis unfolding map_page_def Let_def ix e2 by (simp only: option.case at) simp
qed

text \<open>A range costs one L3 table for each 2 MB region of it that has none.\<close>

definition l3_needed :: "table_layout \<Rightarrow> mmu \<Rightarrow> nat \<Rightarrow> nat \<Rightarrow> nat" where
  "l3_needed ly m s e = (\<Sum>r = s div 512..e div 512. l3_cost ly m r)"

lemma l3_needed_le: "s \<le> e \<Longrightarrow> l3_needed ly m s e \<le> 1 + (e div 512 - s div 512)"
proof -
  assume "s \<le> e"
  then have "s div 512 \<le> e div 512" by (rule div_le_mono)
  moreover have "l3_needed ly m s e \<le> (\<Sum>r = s div 512..e div 512. 1)"
    unfolding l3_needed_def by (rule sum_mono) (simp add: l3_cost_def)
  ultimately show ?thesis by simp
qed

text \<open>After the first page of a range the rest of it needs so many less.\<close>

lemma l3_needed_step:
  assumes ly: "layout_ok ly" and ok: "tables_ok ly m" and v: "vpn + Suc n < 2 ^ 27"
    and l1: "\<And>i. vpn div 2 ^ 18 \<le> i \<Longrightarrow> i \<le> (vpn + Suc n) div 2 ^ 18 \<Longrightarrow> l1_valid ly m i"
    and run: "map_page ly perm (vpn * 0x1000) p m = Some m'"
  shows "l3_needed ly m vpn (vpn + Suc n) = l3_cost ly m (vpn div 512) + l3_needed ly m' (Suc vpn) (vpn + Suc n)"
proof -
  let ?a = "vpn div 512" and ?e = "(vpn + Suc n) div 512"
  have v': "vpn < 2 ^ 27" using v by simp
  have "l1_valid ly m (vpn div 2 ^ 18)" by (rule l1) (simp_all add: div_le_mono)
  note c = map_page_cost [OF ly ok v' this run]
  have le: "?a \<le> ?e" by (intro div_le_mono) simp
  have first: "l3_cost ly m' ?a = 0" using c(2) by (simp add: l3_cost_def)
  have rest: "l3_cost ly m' r = l3_cost ly m r" if r: "r \<in> {Suc ?a..?e}" for r
  proof -
    have "?e < 2 ^ 18" by (rule less_mult_imp_div_less) (use v in simp)
    then have "r < 2 ^ 18" using r by simp
    moreover have "l1_valid ly m (r div 512)"
    proof (rule l1)
      have "vpn div 512 div 512 \<le> r div 512" "r div 512 \<le> ?e div 512" using r by (auto intro: div_le_mono)
      then show "vpn div 2 ^ 18 \<le> r div 512" "r div 512 \<le> (vpn + Suc n) div 2 ^ 18"
        by (simp_all add: div_mult2_eq [symmetric])
    qed
    ultimately show ?thesis using c(4) [of r] r by (simp add: l3_cost_def)
  qed
  have m: "l3_needed ly m vpn (vpn + Suc n) = l3_cost ly m ?a + (\<Sum>r = Suc ?a..?e. l3_cost ly m' r)"
    unfolding l3_needed_def using le rest by (simp add: sum.atLeast_Suc_atMost)
  have "Suc vpn div 512 = ?a \<or> Suc vpn div 512 = Suc ?a" by (simp add: div_Suc)
  then have "l3_needed ly m' (Suc vpn) (vpn + Suc n) = (\<Sum>r = Suc ?a..?e. l3_cost ly m' r)"
    unfolding l3_needed_def using le first by (elim disjE) (simp_all add: sum.atLeast_Suc_atMost)
  with m show ?thesis by simp
qed

lemma map_pages_cost:
  assumes "layout_ok ly" and "tables_ok ly m" and "vpn + Suc n \<le> 2 ^ 27" and "frame p"
    and "unat p + Suc n * 0x1000 < 2 ^ 48"
    and "\<And>i. vpn div 2 ^ 18 \<le> i \<Longrightarrow> i \<le> (vpn + n) div 2 ^ 18 \<Longrightarrow> l1_valid ly m i"
  shows "mm_l3_alloc_idx m + l3_needed ly m vpn (vpn + n) \<le> 255 \<Longrightarrow> map_pages ly perm (Suc n) (vpn * 0x1000) p m \<noteq> None"
    and "map_pages ly perm (Suc n) (vpn * 0x1000) p m = Some m' \<Longrightarrow>
      mm_tables m' (ly_l1 ly) = mm_tables m (ly_l1 ly) \<and> mm_l3_alloc_idx m' = mm_l3_alloc_idx m + l3_needed ly m vpn (vpn + n)"
proof -
  have "(mm_l3_alloc_idx m + l3_needed ly m vpn (vpn + n) \<le> 255 \<longrightarrow> map_pages ly perm (Suc n) (vpn * 0x1000) p m \<noteq> None) \<and>
    (map_pages ly perm (Suc n) (vpn * 0x1000) p m = Some m' \<longrightarrow>
      mm_tables m' (ly_l1 ly) = mm_tables m (ly_l1 ly) \<and> mm_l3_alloc_idx m' = mm_l3_alloc_idx m + l3_needed ly m vpn (vpn + n))"
    using assms(2-)
  proof (induction n arbitrary: vpn p m)
    case (0 vpn p m)
    have v: "vpn < 2 ^ 27" "\<not> 512 \<le> vpn * 0x1000 div 2 ^ 30"
      using 0(2) by (simp_all add: page_index(1) [OF refl])
    have l1: "l1_valid ly m (vpn div 2 ^ 18)" using 0(5) by simp
    have one: "map_pages ly perm (Suc 0) (vpn * 0x1000) p m = map_page ly perm (vpn * 0x1000) p m"
      using v 0(4) by (simp split: option.split)
    have need: "l3_needed ly m vpn (vpn + 0) = l3_cost ly m (vpn div 512)" by (simp add: l3_needed_def)
    show ?case unfolding one need
      using map_page_runs [OF assms(1) 0(1) v(1) l1, of perm p] map_page_cost(1,3) [OF assms(1) 0(1) v(1) l1] by auto
  next
    case (Suc n vpn p m)
    have v: "vpn < 2 ^ 27" "vpn + Suc n < 2 ^ 27" "\<not> 512 \<le> vpn * 0x1000 div 2 ^ 30"
      using Suc.prems(2) by (simp_all add: page_index(1) [OF refl])
    have np: "unat (p + 0x1000) = unat p + 0x1000" "frame (p + 0x1000)"
      using frame_next [OF Suc.prems(3), of 1] Suc.prems(4) by simp_all
    have l1: "l1_valid ly m (vpn div 2 ^ 18)" by (rule Suc.prems(5)) (simp_all add: div_le_mono)
    have step: "map_pages ly perm (Suc (Suc n)) (vpn * 0x1000) p m =
        (case map_page ly perm (vpn * 0x1000) p m of None \<Rightarrow> None
         | Some m1 \<Rightarrow> map_pages ly perm (Suc n) (Suc vpn * 0x1000) (p + 0x1000) m1)"
      unfolding map_pages.simps(2) [of _ _ "Suc n"]
      using v(3) np Suc.prems(4) by (simp del: map_pages.simps add: add.commute split: option.split)
    show ?case
    proof (cases "map_page ly perm (vpn * 0x1000) p m")
      case None
      then have "\<not> mm_l3_alloc_idx m + l3_cost ly m (vpn div 512) \<le> 255"
        using map_page_runs [OF assms(1) Suc.prems(1) v(1) l1, of perm p] by auto
      moreover have "l3_cost ly m (vpn div 512) \<le> l3_needed ly m vpn (vpn + Suc n)"
        unfolding l3_needed_def by (rule member_le_sum) (simp_all add: div_le_mono)
      ultimately show ?thesis unfolding step None by simp
    next
      case (Some m1)
      have ok1: "tables_ok ly m1" by (rule map_page_ok(1) [OF assms(1) Suc.prems(1) v(1) Suc.prems(3) Some])
      note c = map_page_cost [OF assms(1) Suc.prems(1) v(1) l1 Some]
      have l1': "l1_valid ly m1 i" if "Suc vpn div 2 ^ 18 \<le> i" "i \<le> (Suc vpn + n) div 2 ^ 18" for i
      proof -
        have "vpn div 2 ^ 18 \<le> Suc vpn div 2 ^ 18" by (intro div_le_mono) simp
        then have "l1_valid ly m i" using that Suc.prems(5) [of i] by simp
        then show ?thesis by (simp add: l1_valid_def c(1))
      qed
      have b: "Suc vpn + Suc n \<le> 2 ^ 27" "unat (p + 0x1000) + Suc n * 0x1000 < 2 ^ 48"
        using Suc.prems(2,4) np(1) by simp_all
      have "l3_needed ly m vpn (vpn + Suc n) = l3_cost ly m (vpn div 512) + l3_needed ly m1 (Suc vpn) (vpn + Suc n)"
        by (rule l3_needed_step [OF assms(1) Suc.prems(1) v(2) Suc.prems(5) Some])
      then show ?thesis using Suc.IH [OF ok1 b(1) np(2) b(2) l1'] c(1,3) unfolding step Some by auto
    qed
  qed
  then show "mm_l3_alloc_idx m + l3_needed ly m vpn (vpn + n) \<le> 255 \<Longrightarrow> map_pages ly perm (Suc n) (vpn * 0x1000) p m \<noteq> None"
    and "map_pages ly perm (Suc n) (vpn * 0x1000) p m = Some m' \<Longrightarrow>
      mm_tables m' (ly_l1 ly) = mm_tables m (ly_l1 ly) \<and> mm_l3_alloc_idx m' = mm_l3_alloc_idx m + l3_needed ly m vpn (vpn + n)"
    by blast+
qed

lemma map_range_cost:
  assumes ly: "layout_ok ly" and ok: "tables_ok ly m" and sz: "0 < unat sz"
    and v: "unat vaddr + unat sz + 0xFFF \<le> 2 ^ 39" and p: "unat paddr + unat sz + 0x1FFF < 2 ^ 48"
    and s: "s = unat vaddr div 0x1000" and e: "e = (unat vaddr + unat sz - 1) div 0x1000"
    and l1: "\<And>i. s div 2 ^ 18 \<le> i \<Longrightarrow> i \<le> e div 2 ^ 18 \<Longrightarrow> l1_valid ly m i"
  shows "mm_l3_alloc_idx m + l3_needed ly m s e \<le> 255 \<Longrightarrow> map_range ly vaddr paddr sz perm m \<noteq> None"
    and "map_range ly vaddr paddr sz perm m = Some m' \<Longrightarrow>
      mm_tables m' (ly_l1 ly) = mm_tables m (ly_l1 ly) \<and> mm_l3_alloc_idx m' = mm_l3_alloc_idx m + l3_needed ly m s e"
proof -
  let ?e = "(unat vaddr + unat sz + 0xFFF) div 0x1000"
  have "unat vaddr + unat sz + 0xFFF = unat vaddr + unat sz - 1 + 0x1000" using sz by simp
  then have e1: "?e = Suc e" using e by simp
  have le: "s \<le> e" unfolding s e using sz by (intro div_le_mono) simp
  define n where "n = e - s"
  have n: "(?e * 0x1000 - s * 0x1000) div 0x1000 = Suc n" "s + n = e"
    using le e1 by (simp_all add: n_def Suc_diff_le flip: diff_mult_distrib)
  have "?e \<le> 2 ^ 27" using div_le_mono [OF v, where k = "0x1000"] by simp
  then have e27: "s + Suc n \<le> 2 ^ 27" using n(2) e1 by simp
  have pp: "unat (paddr AND NOT 0xFFF) \<le> unat paddr" unfolding unat_page by simp
  have "?e * 0x1000 \<le> unat vaddr + unat sz + 0xFFF" "unat vaddr < s * 0x1000 + 0x1000"
    using div_mult_mod_eq [of "unat vaddr + unat sz + 0xFFF" "0x1000"]
      div_mult_mod_eq [of "unat vaddr" "0x1000"]
      mod_less_divisor [where n = "0x1000" and m = "unat vaddr"] unfolding s by linarith+
  then have "Suc n * 0x1000 \<le> unat sz + 0x1FFE" using e1 n(2) by simp
  then have f: "unat (paddr AND NOT 0xFFF) + Suc n * 0x1000 < 2 ^ 48" using pp p by linarith
  have fr: "frame (paddr AND NOT 0xFFF)" using f unfolding frame_iff unat_page by simp
  have run: "map_range ly vaddr paddr sz perm m = map_pages ly perm (Suc n) (s * 0x1000) (paddr AND NOT 0xFFF) m"
    using v unfolding map_range_def Let_def s [symmetric] n(1) by simp
  note c = map_pages_cost [OF ly ok e27 fr f, unfolded n(2), of perm]
  show "mm_l3_alloc_idx m + l3_needed ly m s e \<le> 255 \<Longrightarrow> map_range ly vaddr paddr sz perm m \<noteq> None"
    unfolding run by (rule c(1) [OF l1])
  show "map_range ly vaddr paddr sz perm m = Some m' \<Longrightarrow>
      mm_tables m' (ly_l1 ly) = mm_tables m (ly_l1 ly) \<and> mm_l3_alloc_idx m' = mm_l3_alloc_idx m + l3_needed ly m s e"
    unfolding run by (rule c(2) [OF l1])
qed

text \<open>At most one table for each region that the range touches.\<close>

lemma map_range_runs:
  assumes "layout_ok ly" and "tables_ok ly m" and "0 < unat sz"
    and "unat vaddr + unat sz + 0xFFF \<le> 2 ^ 39" and "unat paddr + unat sz + 0x1FFF < 2 ^ 48"
    and s: "s = unat vaddr div 0x1000" and e: "e = (unat vaddr + unat sz - 1) div 0x1000"
    and "\<And>i. s div 2 ^ 18 \<le> i \<Longrightarrow> i \<le> e div 2 ^ 18 \<Longrightarrow> l1_valid ly m i"
    and "mm_l3_alloc_idx m + 1 + (e div 512 - s div 512) \<le> 255"
  shows "\<exists>m'. map_range ly vaddr paddr sz perm m = Some m' \<and>
    mm_tables m' (ly_l1 ly) = mm_tables m (ly_l1 ly) \<and>
    mm_l3_alloc_idx m' \<le> mm_l3_alloc_idx m + 1 + (e div 512 - s div 512)"
proof -
  have "s \<le> e" unfolding s e using assms(3) by (intro div_le_mono) simp
  from l3_needed_le [OF this, of ly m] assms(9) map_range_cost(1) [OF assms(1-8), of perm]
    map_range_cost(2) [OF assms(1-8), of perm] show ?thesis by fastforce
qed

section \<open>The tables of \<open>init\<close>\<close>

definition block_addr :: "nat \<Rightarrow> nat \<Rightarrow> u64" where
  "block_addr i j = push_bit 21 (of_nat (i * 512 + j))"

definition hole :: "nat \<Rightarrow> bool" where
  "hole vpn \<longleftrightarrow> 0x10000 \<le> vpn \<and> vpn < 0x40000"

lemma init_block_eq:
  "init_block i j = (if 128 \<le> i * 512 + j \<and> i * 512 + j < 512 then 0
     else block_addr i j OR DESC_VALID OR DESC_BLOCK OR MAIR_MEM OR AF OR AP_RW_EL1)"
proof -
  have p: "i * 2 ^ 30 + j * 0x200000 = (i * 512 + j) * 2 ^ 21" by simp
  have "0x10000000 \<le> (i * 512 + j) * 2 ^ 21 \<longleftrightarrow> 128 \<le> i * 512 + j"
    "(i * 512 + j) * 2 ^ 21 < 0x40000000 \<longleftrightarrow> i * 512 + j < 512" by auto
  moreover have "(of_nat ((i * 512 + j) * 2 ^ 21) :: u64) = block_addr i j"
    by (simp add: block_addr_def push_bit_eq_mult)
  ultimately show ?thesis unfolding init_block_def Let_def p by simp
qed

lemma block_addr_bits:
  assumes "i < 4" and "j < 512"
  shows "block_addr i j AND DESC_TABLE = 0" "block_addr i j AND DESC_VALID = 0"
    "block_addr i j AND BLOCK_ADDR_MASK = block_addr i j" "block_addr i j AND ATTR_MASK = 0"
proof -
  define w :: u64 where "w = of_nat (i * 512 + j)"
  have "i * 512 + j < 2 ^ 11" using assms by simp
  then have w: "take_bit 11 w = w"
    unfolding w_def by (simp only: take_bit_of_nat take_bit_nat_eq_self)
  have bw: "bit w n \<Longrightarrow> n < 11" for n
    using arg_cong [OF w, of "\<lambda>x. bit x n"] by (simp add: bit_simps)
  have masks: "DESC_TABLE = push_bit 1 (mask 1)" "DESC_VALID = mask 1"
    by (simp_all add: DESC_TABLE_def DESC_VALID_def mask_eq_exp_minus_1)
  show "block_addr i j AND DESC_TABLE = 0" "block_addr i j AND DESC_VALID = 0"
    unfolding block_addr_def w_def [symmetric] masks by (auto intro!: bit_word_eqI simp: bit_simps)
  show "block_addr i j AND BLOCK_ADDR_MASK = block_addr i j"
    unfolding block_addr_def w_def [symmetric] block_mask_field
    by (rule bit_word_eqI) (auto simp: bit_simps dest: bw)
  show "block_addr i j AND ATTR_MASK = 0"
    unfolding block_addr_def w_def [symmetric] ATTR_MASK_def table_mask_field
    by (rule bit_word_eqI) (auto simp: bit_simps dest: bw)
qed

lemma block_desc:
  assumes "i < 4" and "j < 512" and "d = block_addr i j OR DESC_VALID OR DESC_BLOCK OR MAIR_MEM OR AF OR AP_RW_EL1"
  shows "d AND DESC_VALID \<noteq> 0" "d AND DESC_TABLE = 0" "d AND BLOCK_ADDR_MASK = block_addr i j"
    "d AND ATTR_MASK = MAIR_MEM OR AF"
  unfolding assms(3)
  by (simp_all add: bit.conj_disj_distrib2 block_addr_bits [OF assms(1,2)])
    (simp_all add: DESC_VALID_def DESC_TABLE_def DESC_BLOCK_def MAIR_MEM_def AF_def AP_RW_EL1_def
      BLOCK_ADDR_MASK_def ATTR_MASK_def TABLE_ADDR_MASK_def)

lemma init_l1:
  assumes "layout_ok ly"
  shows "mm_tables (init_tables ly) (ly_l1 ly) i = (if i < 4 then ly_l2 ly i OR DESC_VALID OR DESC_TABLE else 0)"
proof -
  have "find (\<lambda>k. ly_l1 ly = ly_l2 ly k) [0..<4] = None"
    using layout_facts(5) [OF assms] by (force simp: find_None_iff)
  then show ?thesis by (simp add: init_tables_def)
qed

lemma init_l2:
  assumes "layout_ok ly" and "k < 4"
  shows "mm_tables (init_tables ly) (ly_l2 ly k) j = (if j < 512 then init_block k j else 0)"
proof -
  have "find (\<lambda>k'. ly_l2 ly k = ly_l2 ly k') [0..<4] = Some k"
  proof -
    have eq: "ly_l2 ly k = ly_l2 ly k' \<longleftrightarrow> k = k'" if "k' < 4" for k'
      using layout_facts(11) [OF assms that] .
    have "ly_l2 ly k \<noteq> ly_l2 ly j" if "j < k" for j using eq [of j] that assms(2) by simp
    then show ?thesis unfolding find_Some_iff by (intro exI [of _ k]) (use assms(2) in simp)
  qed
  then show ?thesis using layout_facts(5) [OF assms] by (simp add: init_tables_def)
qed

lemma init_l2_plain:
  assumes "layout_ok ly" and "k < 4" and "j < 512"
  shows "mm_tables (init_tables ly) (ly_l2 ly k) j AND DESC_TABLE = 0"
  using block_desc(2) [OF assms(2,3) refl] assms(3) by (simp add: init_l2 [OF assms(1,2)] init_block_eq)

lemma init_tables_ok:
  assumes ly: "layout_ok ly"
  shows "tables_ok ly (init_tables ly)"
proof (rule tables_okI)
  have used: "l2_used ly (init_tables ly) = ly_l2 ly ` {..<4}"
    by (simp add: l2_used_def init_tables_def)
  have small: "i < 4" if "mm_tables (init_tables ly) (ly_l1 ly) i AND DESC_VALID \<noteq> 0" for i
    using that by (simp add: init_l1 [OF ly] split: if_splits)
  show "mm_l2_alloc_idx (init_tables ly) \<le> 16" "mm_l3_alloc_idx (init_tables ly) \<le> 256"
    by (simp_all add: init_tables_def)
  show "\<exists>t \<in> l2_used ly (init_tables ly). mm_tables (init_tables ly) (ly_l1 ly) i = (t OR DESC_VALID OR DESC_TABLE)"
    if "mm_tables (init_tables ly) (ly_l1 ly) i AND DESC_VALID \<noteq> 0" for i
    using small [OF that] used by (auto simp: init_l1 [OF ly])
  show "i = i'" if "mm_tables (init_tables ly) (ly_l1 ly) i AND DESC_VALID \<noteq> 0"
    "mm_tables (init_tables ly) (ly_l1 ly) i = mm_tables (init_tables ly) (ly_l1 ly) i'" for i i'
  proof -
    have b: "i < 4" "i' < 4" using small [OF that(1)] small [of i'] that by simp_all
    have "ly_l2 ly i = ly_l2 ly i'"
      using that(2) b layout_facts(2) [OF ly] by (simp add: init_l1 [OF ly] table_desc_inj)
    then show ?thesis using layout_facts(11) [OF ly b] by simp
  qed
  show "\<exists>u \<in> l3_used ly (init_tables ly). mm_tables (init_tables ly) t j = (u OR DESC_VALID OR DESC_TABLE)"
    if "t \<in> l2_used ly (init_tables ly)" "j < 512" "mm_tables (init_tables ly) t j AND DESC_TABLE \<noteq> 0" for t j
    using that init_l2_plain [OF ly] by (auto simp: used)
  show "t = t' \<and> j = j'"
    if "t \<in> l2_used ly (init_tables ly)" "j < 512" "mm_tables (init_tables ly) t j AND DESC_TABLE \<noteq> 0" for t t' j j'
    using that init_l2_plain [OF ly] by (auto simp: used)
qed

text \<open>The identity map of the first 4 GB in blocks, without the hole for the devices.\<close>

lemma init_translate:
  assumes ly: "layout_ok ly" and v: "vpn < 2 ^ 27"
  shows "translate ly (init_tables ly) vpn =
    (if vpn < 2 ^ 20 \<and> \<not> hole vpn then Some (of_nat (vpn * 0x1000), MAIR_MEM OR AF) else None)"
proof -
  let ?i = "vpn div 2 ^ 18" and ?j = "(vpn div 512) mod 512" and ?k = "vpn mod 512"
  have lt4: "?i < 4 \<longleftrightarrow> vpn < 2 ^ 20" by (simp add: less_eq_div_iff_mult_less_eq flip: not_le)
  show ?thesis
  proof (cases "vpn < 2 ^ 20")
    case False
    then have "\<not> ?i < 4" using lt4 by blast
    then have "mm_tables (init_tables ly) (ly_l1 ly) ?i AND DESC_VALID = 0" unfolding init_l1 [OF ly] by (simp only: if_False) simp
    then show ?thesis using False by (simp add: translate_def)
  next
    case True
    then have i: "?i < 4" using lt4 by blast
    have j: "?j < 512" by simp
    have l1: "mm_tables (init_tables ly) (ly_l1 ly) ?i = (ly_l2 ly ?i OR DESC_VALID OR DESC_TABLE)"
      using i by (simp only: init_l1 [OF ly] if_True)
    have at: "(ly_l2 ly ?i OR DESC_VALID OR DESC_TABLE) AND TABLE_ADDR_MASK = ly_l2 ly ?i"
      by (rule table_desc_addr [OF layout_facts(2) [OF ly i]])
    have l2: "mm_tables (init_tables ly) (ly_l2 ly ?i) ?j = init_block ?i ?j"
      using init_l2 [OF ly i, of ?j] j by (simp only: if_True)
    have tr: "translate ly (init_tables ly) vpn = walk_l2 (init_tables ly) (ly_l2 ly ?i) ?j ?k"
      unfolding translate_def Let_def l1 at by simp
    have "?i = vpn div 512 div 512" by (simp add: div_mult2_eq [symmetric])
    then have ij: "?i * 512 + ?j = vpn div 512" using div_mult_mod_eq [of "vpn div 512" 512] by simp
    have h: "hole vpn \<longleftrightarrow> 128 \<le> vpn div 512 \<and> vpn div 512 < 512"
      unfolding hole_def by (simp add: less_eq_div_iff_mult_less_eq flip: not_le)
    show ?thesis
    proof (cases "hole vpn")
      case True
      then show ?thesis
        unfolding tr walk_l2_def l2 Let_def init_block_eq ij using h by simp
    next
      case False
      note d = block_desc [OF i j refl]
      have "block_addr ?i ?j + of_nat ?k * 0x1000 = of_nat (vpn div 512 * 512 * 0x1000 + ?k * 0x1000)"
        unfolding block_addr_def ij by (simp add: push_bit_eq_mult)
      also have "vpn div 512 * 512 * 0x1000 + ?k * 0x1000 = vpn * 0x1000"
        using div_mult_mod_eq [of vpn 512] by linarith
      finally show ?thesis
        using False True h d unfolding tr walk_l2_def l2 Let_def init_block_eq ij
        by (simp only: if_False if_True simp_thms d not_False_eq_True)
    qed
  qed
qed

section \<open>The address space after \<open>init\<close>\<close>

definition kernel_space :: "u64 \<Rightarrow> nat \<Rightarrow> (u64 \<times> u64) option" where
  "kernel_space commpage vpn =
     (if 0xFFFF0 \<le> vpn \<and> vpn < 0xFFFF4
      then Some ((commpage AND NOT 0xFFF) + of_nat (vpn - 0xFFFF0) * 0x1000, page_flags UserRO)
      else if vpn = 0x9000 \<or> 0x10000 \<le> vpn \<and> vpn < 0x20000 \<or> 0x3F000 \<le> vpn \<and> vpn < 0x40000
      then Some (of_nat (vpn * 0x1000), page_flags KernelRWDevice)
      else if vpn < 2 ^ 20 \<and> \<not> hole vpn then Some (of_nat (vpn * 0x1000), MAIR_MEM OR AF)
      else None)"

lemma identity_page:
  assumes "b \<le> vpn"
  shows "of_nat (b * 0x1000) + of_nat (vpn - b) * 0x1000 = (of_nat (vpn * 0x1000) :: u64)"
  using assms by (simp add: of_nat_diff algebra_simps)

text \<open>One call of \<open>map_range\<close> that has room: it succeeds, and what it does to the state.\<close>

lemma map_range_step:
  assumes ly: "layout_ok ly" and ok: "tables_ok ly m" and sz: "0 < unat sz"
    and v: "unat vaddr + unat sz + 0xFFF \<le> 2 ^ 39" and p: "unat paddr + unat sz + 0x1FFF < 2 ^ 48"
    and s: "s = unat vaddr div 0x1000" and e: "e = (unat vaddr + unat sz - 1) div 0x1000"
    and l1: "\<forall>i < 4. l1_valid ly m i" and e4: "e < 2 ^ 20"
    and room: "mm_l3_alloc_idx m + 1 + (e div 512 - s div 512) \<le> 255"
  obtains m' where "map_range ly vaddr paddr sz perm m = Some m'" "tables_ok ly m'" "\<forall>i < 4. l1_valid ly m' i"
    "mm_l3_alloc_idx m' \<le> mm_l3_alloc_idx m + 1 + (e div 512 - s div 512)"
    "\<And>vpn. vpn < 2 ^ 27 \<Longrightarrow> translate ly m' vpn =
     (if s \<le> vpn \<and> vpn \<le> e then Some ((paddr AND NOT 0xFFF) + of_nat (vpn - s) * 0x1000, page_flags perm)
      else translate ly m vpn)"
proof -
  have "e div 2 ^ 18 < 4" using e4 by (simp add: less_eq_div_iff_mult_less_eq flip: not_le)
  then have "l1_valid ly m i" if "i \<le> e div 2 ^ 18" for i using l1 that by simp
  from map_range_runs [OF ly ok sz v p s e this room] obtain m' where
    r: "map_range ly vaddr paddr sz perm m = Some m'" "mm_tables m' (ly_l1 ly) = mm_tables m (ly_l1 ly)"
      "mm_l3_alloc_idx m' \<le> mm_l3_alloc_idx m + 1 + (e div 512 - s div 512)" by blast
  have "unat vaddr + unat sz + 0xFFF = unat vaddr + unat sz - 1 + 0x1000" using sz by simp
  then have e1: "(unat vaddr + unat sz + 0xFFF) div 0x1000 = Suc e" using e by simp
  note t = map_range_ok [OF ly ok v p r(1), unfolded e1 s [symmetric] less_Suc_eq_le]
  show ?thesis
  proof (rule that [OF r(1) _ _ r(3)])
    show "tables_ok ly m'" using t by blast
    show "\<forall>i < 4. l1_valid ly m' i" using l1 r(2) by (simp add: l1_valid_def)
    show "translate ly m' vpn = (if s \<le> vpn \<and> vpn \<le> e
        then Some ((paddr AND NOT 0xFFF) + of_nat (vpn - s) * 0x1000, page_flags perm)
        else translate ly m vpn)" if "vpn < 2 ^ 27" for vpn using t that by blast
  qed
qed

lemma mmu_init_ok:
  assumes ly: "layout_ok ly" and cp: "unat commpage + 0x6000 < 2 ^ 48"
  shows "\<exists>m. mmu_init ly commpage = Some m \<and> tables_ok ly m \<and>
    (\<forall>vpn < 2 ^ 27. translate ly m vpn = kernel_space commpage vpn)"
proof -
  define m0 where "m0 = init_tables ly"
  have ok0: "tables_ok ly m0" unfolding m0_def by (rule init_tables_ok [OF ly])
  have l0: "\<forall>i < 4. l1_valid ly m0 i"
    unfolding m0_def l1_valid_def by (simp add: init_l1 [OF ly])
  have a0: "mm_l3_alloc_idx m0 = 0" by (simp add: m0_def init_tables_def)
  obtain m1 where m1: "map_range ly 0x09000000 0x09000000 4096 KernelRWDevice m0 = Some m1"
    "tables_ok ly m1" "\<forall>i < 4. l1_valid ly m1 i" "mm_l3_alloc_idx m1 \<le> 1"
    "\<And>vpn. vpn < 2 ^ 27 \<Longrightarrow> translate ly m1 vpn = (if 0x9000 \<le> vpn \<and> vpn \<le> 0x9000
      then Some ((0x09000000 AND NOT 0xFFF) + of_nat (vpn - 0x9000) * 0x1000, page_flags KernelRWDevice)
      else translate ly m0 vpn)"
    by (rule map_range_step [OF ly ok0, of 4096 "0x09000000" "0x09000000" "0x9000" "0x9000" KernelRWDevice])
      (simp_all add: l0 a0)
  obtain m2 where m2: "map_range ly 0x3f000000 0x3f000000 0x1000000 KernelRWDevice m1 = Some m2"
    "tables_ok ly m2" "\<forall>i < 4. l1_valid ly m2 i" "mm_l3_alloc_idx m2 \<le> mm_l3_alloc_idx m1 + 8"
    "\<And>vpn. vpn < 2 ^ 27 \<Longrightarrow> translate ly m2 vpn = (if 0x3F000 \<le> vpn \<and> vpn \<le> 0x3FFFF
      then Some ((0x3f000000 AND NOT 0xFFF) + of_nat (vpn - 0x3F000) * 0x1000, page_flags KernelRWDevice)
      else translate ly m1 vpn)"
    by (rule map_range_step [OF ly m1(2), of "0x1000000" "0x3f000000" "0x3f000000" "0x3F000" "0x3FFFF" KernelRWDevice])
      (use m1(3,4) in simp_all)
  obtain m3 where m3: "map_range ly 0x10000000 0x10000000 0x10000000 KernelRWDevice m2 = Some m3"
    "tables_ok ly m3" "\<forall>i < 4. l1_valid ly m3 i" "mm_l3_alloc_idx m3 \<le> mm_l3_alloc_idx m2 + 128"
    "\<And>vpn. vpn < 2 ^ 27 \<Longrightarrow> translate ly m3 vpn = (if 0x10000 \<le> vpn \<and> vpn \<le> 0x1FFFF
      then Some ((0x10000000 AND NOT 0xFFF) + of_nat (vpn - 0x10000) * 0x1000, page_flags KernelRWDevice)
      else translate ly m2 vpn)"
    by (rule map_range_step [OF ly m2(2), of "0x10000000" "0x10000000" "0x10000000" "0x10000" "0x1FFFF" KernelRWDevice])
      (use m1(4) m2(3,4) in simp_all)
  obtain m4 where m4: "map_range ly 0xFFFF0000 commpage 16384 UserRO m3 = Some m4"
    "tables_ok ly m4"
    "\<And>vpn. vpn < 2 ^ 27 \<Longrightarrow> translate ly m4 vpn = (if 0xFFFF0 \<le> vpn \<and> vpn \<le> 0xFFFF3
      then Some ((commpage AND NOT 0xFFF) + of_nat (vpn - 0xFFFF0) * 0x1000, page_flags UserRO)
      else translate ly m3 vpn)"
    by (rule map_range_step [OF ly m3(2), of 16384 "0xFFFF0000" commpage "0xFFFF0" "0xFFFF3" UserRO])
      (use m1(4) m2(4) m3(3,4) cp in simp_all)
  have "mmu_init ly commpage = Some m4"
    using m1(1) m2(1) m3(1) m4(1) by (simp add: mmu_init_def bind_opt_def m0_def)
  moreover have "translate ly m4 vpn = kernel_space commpage vpn" if v: "vpn < 2 ^ 27" for vpn
  proof -
    have e1: "vpn = 0x9000 \<Longrightarrow> (0x09000000 :: u64) = of_nat (vpn * 0x1000)" by simp
    have e2: "0x3F000 \<le> vpn \<Longrightarrow> (0x3f000000 :: u64) + of_nat (vpn - 0x3F000) * 0x1000 = of_nat (vpn * 0x1000)"
      using identity_page [of "0x3F000" vpn] by simp
    have e3: "0x10000 \<le> vpn \<Longrightarrow> (0x10000000 :: u64) + of_nat (vpn - 0x10000) * 0x1000 = of_nat (vpn * 0x1000)"
      using identity_page [of "0x10000" vpn] by simp
    show ?thesis
      unfolding kernel_space_def m4(3) [OF v] m3(5) [OF v] m2(5) [OF v] m1(5) [OF v]
        init_translate [OF ly v, folded m0_def]
      using e1 e2 e3 by auto
  qed
  ultimately show ?thesis using m4(2) by blast
qed

end
