(* ===== verification/MmuProps.thy ===== *)
theory MmuProps
  imports MmuInit
begin

text \<open>The properties of the page tables, and a concrete layout for their witnesses.\<close>

unbundle bit_operations_syntax

section \<open>A concrete layout\<close>

definition sample_page :: "nat \<Rightarrow> u64" where
  "sample_page n = of_nat (n * 0x1000)"

definition sample_layout :: table_layout where
  "sample_layout = \<lparr>ly_l1 = sample_page 1, ly_l2 = (\<lambda>k. sample_page (k + 2)),
     ly_l2_pool = (\<lambda>k. sample_page (k + 16)), ly_l3_pool = (\<lambda>k. sample_page (k + 256))\<rparr>"

lemma unat_sample_page: "n < 2 ^ 20 \<Longrightarrow> unat (sample_page n) = n * 0x1000"
  unfolding sample_page_def by (subst unat_of_nat) (simp add: take_bit_nat_eq_self)

lemma sample_page_eq: "n < 2 ^ 20 \<Longrightarrow> n' < 2 ^ 20 \<Longrightarrow> sample_page n = sample_page n' \<longleftrightarrow> n = n'"
  by (simp add: word_unat_eq_iff unat_sample_page)

lemma frame_sample_page: "n < 2 ^ 20 \<Longrightarrow> frame (sample_page n)"
  by (simp add: frame_iff unat_sample_page)

lemma sample_layout_ok: "layout_ok sample_layout"
  by (simp add: layout_ok_def sample_layout_def frame_sample_page sample_page_eq inj_on_def)

lemma sample_tables:
  "tables_ok sample_layout (init_tables sample_layout)"
  "\<forall>i < 4. l1_valid sample_layout (init_tables sample_layout) i"
  "mm_l3_alloc_idx (init_tables sample_layout) = 0"
  using init_tables_ok [OF sample_layout_ok]
  by (simp_all add: l1_valid_def init_l1 [OF sample_layout_ok]) (simp add: init_tables_def)

section \<open>Properties\<close>

text \<open>C9: On well-formed tables a successful \<open>map_range\<close> keeps them well-formed, maps every page of
  its range to the corresponding physical page with the attributes of the permission, and leaves
  the translation of every other page as it was, also where it had to split a 2 MB block.\<close>

theorem map_range_updates:
  assumes "layout_ok ly" and "tables_ok ly m"
    and "unat vaddr + unat sz + 0xFFF \<le> 2 ^ 39" and "unat paddr + unat sz + 0x1FFF < 2 ^ 48"
    and "map_range ly vaddr paddr sz perm m = Some m'"
  shows "tables_ok ly m' \<and> (\<forall>vpn < 2 ^ 27. translate ly m' vpn =
     (if unat vaddr div 0x1000 \<le> vpn \<and> vpn < (unat vaddr + unat sz + 0xFFF) div 0x1000
      then Some ((paddr AND NOT 0xFFF) + of_nat (vpn - unat vaddr div 0x1000) * 0x1000, page_flags perm)
      else translate ly m vpn))"
  by (rule map_range_ok [OF assms])

lemma map_range_updates_witness:
  "\<exists>m'. map_range sample_layout 0x09000000 0x123000 4096 UserRX (init_tables sample_layout) = Some m' \<and>
     translate sample_layout m' 0x9000 = Some (0x123000, page_flags UserRX) \<and>
     translate sample_layout m' 0x9001 = Some (0x9001000, MAIR_MEM OR AF)"
proof -
  let ?m = "init_tables sample_layout"
  have n: "unat (0x09000000 :: u64) = 0x09000000" "unat (4096 :: u64) = 4096" "unat (0x123000 :: u64) = 0x123000"
    by simp_all
  obtain m' where m': "map_range sample_layout 0x09000000 0x123000 4096 UserRX ?m = Some m'"
    by (rule map_range_step [OF sample_layout_ok sample_tables(1), of 4096 "0x09000000" "0x123000"
        "0x9000" "0x9000" UserRX]) (simp_all add: sample_tables(2,3))
  have "unat (0x09000000 :: u64) + unat (4096 :: u64) + 0xFFF \<le> 2 ^ 39"
    "unat (0x123000 :: u64) + unat (4096 :: u64) + 0x1FFF < 2 ^ 48" unfolding n by simp_all
  note t = map_range_updates [OF sample_layout_ok sample_tables(1) this m', unfolded n,
      THEN conjunct2, rule_format]
  have "translate sample_layout m' 0x9000 = Some (0x123000, page_flags UserRX)"
    by (subst t) simp_all
  moreover have "translate sample_layout m' 0x9001 = Some (0x9001000, MAIR_MEM OR AF)"
    by (subst t) (simp_all add: init_translate [OF sample_layout_ok] hole_def)
  ultimately show ?thesis using m' by blast
qed

text \<open>C11: in the part of the address space that has L2 tables, as the first 4 GB have after \<open>init\<close>, \<open>map_range\<close> costs exactly one
  L3 table for each 2 MB region of the range that has none yet. It succeeds when this leaves one of the 256 tables of the pool
  unused, and it panics when the pool has not so many left. (When it would take the very last table the outcome
  depends on the region: a block is not split with that table, see \<open>split_wastes_last_table\<close>.)\<close>

theorem map_range_succeeds:
  assumes "layout_ok ly" and "tables_ok ly m" and "0 < unat sz"
    and "unat vaddr + unat sz + 0xFFF \<le> 2 ^ 39" and "unat paddr + unat sz + 0x1FFF < 2 ^ 48"
    and "s = unat vaddr div 0x1000" and "e = (unat vaddr + unat sz - 1) div 0x1000"
    and "\<And>i. s div 2 ^ 18 \<le> i \<Longrightarrow> i \<le> e div 2 ^ 18 \<Longrightarrow> l1_valid ly m i"
  shows "(mm_l3_alloc_idx m + l3_needed ly m s e \<le> 255 \<longrightarrow> map_range ly vaddr paddr sz perm m \<noteq> None) \<and>
    (256 < mm_l3_alloc_idx m + l3_needed ly m s e \<longrightarrow> map_range ly vaddr paddr sz perm m = None) \<and>
    (\<forall>m'. map_range ly vaddr paddr sz perm m = Some m' \<longrightarrow> mm_l3_alloc_idx m' = mm_l3_alloc_idx m + l3_needed ly m s e)"
proof -
  have c1: "map_range ly vaddr paddr sz perm m \<noteq> None" if "mm_l3_alloc_idx m + l3_needed ly m s e \<le> 255"
    using map_range_cost(1) [OF assms(1-8) that] .
  have c2: "mm_l3_alloc_idx m' = mm_l3_alloc_idx m + l3_needed ly m s e" if "map_range ly vaddr paddr sz perm m = Some m'" for m'
    using map_range_cost(2) [OF assms(1-8) that] by (rule conjunct2)
  have "map_range ly vaddr paddr sz perm m = None" if "256 < mm_l3_alloc_idx m + l3_needed ly m s e"
  proof (cases "map_range ly vaddr paddr sz perm m")
    case (Some m')
    have "tables_ok ly m'" using map_range_ok [OF assms(1,2,4,5) Some] by blast
    then have "mm_l3_alloc_idx m' \<le> 256" by (rule tables_okD(2))
    then show ?thesis using c2 [OF Some] that by simp
  qed
  with c1 c2 show ?thesis by blast
qed

lemma map_range_succeeds_witness:
  "\<exists>m'. map_range sample_layout 0x70000000 0x5000000 0x100000 UserRWX (init_tables sample_layout) = Some m' \<and>
     mm_l3_alloc_idx m' = l3_needed sample_layout (init_tables sample_layout) 0x70000 0x700FF"
  using map_range_succeeds [OF sample_layout_ok sample_tables(1),
      of "0x100000" "0x70000000" "0x5000000" "0x70000" "0x700FF" UserRWX] sample_tables(2,3)
    l3_needed_le [of "0x70000" "0x700FF" sample_layout "init_tables sample_layout"]
  by auto



text \<open>The last L3 table of the pool cannot be used for splitting a block: with exactly one table
  left the split panics, although an empty entry would still get that table.\<close>

theorem split_wastes_last_table:
  assumes "mm_l3_alloc_idx m = 255"
  shows "(mm_tables m t j AND DESC_VALID \<noteq> 0 \<and> mm_tables m t j AND DESC_TABLE = 0 \<longrightarrow>
      ensure_l3 ly t j m = None) \<and>
    (mm_tables m t j AND DESC_VALID = 0 \<longrightarrow>
      (\<exists>m'. ensure_l3 ly t j m = Some m' \<and> mm_l3_alloc_idx m' = 256))"
  using assms by (simp_all add: ensure_l3_def Let_def)

lemma split_wastes_last_table_witness:
  "ensure_l3 sample_layout (sample_page 2) 0 ((init_tables sample_layout)\<lparr>mm_l3_alloc_idx := 255\<rparr>) = None"
proof -
  let ?m = "(init_tables sample_layout)\<lparr>mm_l3_alloc_idx := 255\<rparr>"
  have "mm_tables (init_tables sample_layout) (ly_l2 sample_layout 0) 0 = init_block 0 0"
    using init_l2 [OF sample_layout_ok, of 0 0] by (simp only: if_True) simp
  moreover have "ly_l2 sample_layout 0 = sample_page 2" by (simp only: sample_layout_def table_layout.simps add_0)
  ultimately have e: "mm_tables ?m (sample_page 2) 0 = init_block 0 0" by simp
  show ?thesis
    by (rule split_wastes_last_table [THEN conjunct1, rule_format])
      (simp_all only: e init_block_eq, simp_all add: block_desc(1,2) [of 0 0, OF _ _ refl])
qed

end
