(* ===== verification/IpcProps.thy ===== *)
theory IpcProps
  imports Ipc MmuProps
begin

text \<open>The properties of Mach messages, with witnesses in the identity mapped memory of the kernel.\<close>

unbundle bit_operations_syntax

section \<open>Identity mapped memory\<close>

lemma phys_addr_identity:
  assumes "layout_ok ly" and "unat va < 0x10000000"
  shows "phys_addr ly (init_tables ly) va = Some (va, MAIR_MEM OR AF)"
proof -
  let ?v = "unat va div 0x1000"
  have v: "?v < 2 ^ 27" "?v < 2 ^ 20 \<and> \<not> hole ?v" using assms(2) by (auto simp: hole_def)
  have "of_nat (?v * 0x1000) + of_nat (unat va mod 0x1000) = (of_nat (?v * 0x1000 + unat va mod 0x1000) :: u64)"
    by (simp only: of_nat_add)
  also have "\<dots> = va" by (simp only: div_mult_mod_eq) simp
  finally have e: "of_nat (?v * 0x1000) + of_nat (unat va mod 0x1000) = va" .
  show ?thesis
    using assms(2) v e unfolding phys_addr_def init_translate [OF assms(1) v(1)]
    by (simp only: if_True option.case prod.case) simp
qed

lemma identity_place:
  assumes "layout_ok ly" and "unat va + i < 0x10000000"
  shows "phys_addr ly (init_tables ly) (va + of_nat i) = Some (va + of_nat i, MAIR_MEM OR AF)"
    "place ly (init_tables ly) va i = va + of_nat i"
proof -
  have "unat (va + of_nat i) = unat va + i"
    using assms(2) by (simp add: unat_word_ariths unat_of_nat take_bit_nat_eq_self)
  then show "phys_addr ly (init_tables ly) (va + of_nat i) = Some (va + of_nat i, MAIR_MEM OR AF)"
    using phys_addr_identity [OF assms(1)] assms(2) by simp
  then show "place ly (init_tables ly) va i = va + of_nat i" by (simp add: place_def)
qed

lemma identity_buffer:
  assumes "layout_ok ly" and "unat va + n \<le> 0x10000000"
  shows "buffer ly (init_tables ly) va n"
  unfolding buffer_def
proof (intro conjI allI impI inj_onI)
  fix i
  assume "i < n"
  then show "\<exists>p attr. phys_addr ly (init_tables ly) (va + of_nat i) = Some (p, attr) \<and> attr AND AP_RO_EL1 = 0"
    using identity_place(1) [OF assms(1), of va i] assms(2)
    by (simp add: MAIR_MEM_def AF_def AP_RO_EL1_def)
next
  fix i j
  assume ij: "i \<in> {..<n}" "j \<in> {..<n}" "place ly (init_tables ly) va i = place ly (init_tables ly) va j"
  then have "(of_nat i :: u64) = of_nat j" using assms by (simp add: identity_place(2))
  moreover have "unat (of_nat k :: u64) = k" if "k < 0x10000000" for k
    using that by (simp add: unat_of_nat take_bit_nat_eq_self)
  moreover have "i < 0x10000000" "j < 0x10000000" using ij(1,2) assms(2) by auto
  ultimately show "i = j" by metis
qed

text \<open>Memory that holds the bytes \<open>bs\<close> at \<open>0x5000\<close>.\<close>

definition sample_vm :: "bytes \<Rightarrow> vm" where
  "sample_vm bs = \<lparr>vm_phys = (\<lambda>p. let i = unat (p - 0x5000) in if i < length bs then bs ! i else 0),
     vm_mmu = init_tables sample_layout\<rparr>"

lemma sample_vm_facts:
  assumes "length bs \<le> 0x1000"
  shows "content sample_layout (sample_vm bs) 0x5000 (length bs) = bs"
    "buffer sample_layout (vm_mmu (sample_vm bs)) 0x5000 (length bs)"
proof -
  show "buffer sample_layout (vm_mmu (sample_vm bs)) 0x5000 (length bs)"
    using identity_buffer [OF sample_layout_ok, of "0x5000" "length bs"] assms by (simp add: sample_vm_def)
  show "content sample_layout (sample_vm bs) 0x5000 (length bs) = bs"
  proof (rule nth_equalityI)
    fix i
    assume "i < length (content sample_layout (sample_vm bs) 0x5000 (length bs))"
    then have i: "i < length bs" by simp
    then have "place sample_layout (vm_mmu (sample_vm bs)) 0x5000 i = 0x5000 + of_nat i"
      using identity_place(2) [OF sample_layout_ok, of "0x5000" i] assms by (simp add: sample_vm_def)
    moreover have "unat (of_nat i :: u64) = i" using i assms by (simp add: unat_of_nat take_bit_nat_eq_self)
    ultimately show "content sample_layout (sample_vm bs) 0x5000 (length bs) ! i = bs ! i"
      using i by (simp add: sample_vm_def Let_def)
  qed simp
qed

section \<open>Properties\<close>

text \<open>C17: whatever a call of \<open>mach_msg\<close> does, error and fault included, no queue of the space grows
  beyond eleven messages and no port has a name that is still to be given out; so a new port always
  gets a name that is not in use.\<close>

theorem ipc_space_invariant:
  assumes "space_ok sp"
  shows "space_ok (snd (snd (mach_msg ly msg opts rcv_size rcv_name (s, sp)))) \<and>
    (unat (sp_next_name sp) + 1 < 2 ^ 32 \<longrightarrow>
      (\<exists>name sp'. allocate_port sp = ((Ok name :: (fault, u32) res), sp') \<and> space_ok sp' \<and>
        sp_ports sp name = None \<and> sp_ports sp' = (sp_ports sp)(name \<mapsto> port_new)))"
  using mach_msg_keeps [of ly msg opts rcv_size rcv_name] allocate_port_fresh [OF assms] assms
  unfolding keeps_def by blast

theorem ipc_space_invariant_witness:
  "\<exists>name sp'. allocate_port ipc_space_new = ((Ok name :: (fault, u32) res), sp') \<and> space_ok sp' \<and>
     sp_ports ipc_space_new name = None"
proof -
  have "unat (sp_next_name ipc_space_new) + 1 < 2 ^ 32" by (simp add: ipc_space_new_def)
  then show ?thesis
    using ipc_space_invariant [OF space_ok_new, of sample_layout 0 0 0 0 "sample_vm []"] by blast
qed

text \<open>C16: a message that is sent to a port is what the next receive from that port returns: all its
  bytes, with the size, the remote and the local port of the header replaced by the length, zero and
  the name of the port; the queue is then as it was, unless it was full and has lost its oldest message. Nothing outside of the
  receive buffer changes. (So messages leave a port in the reverse of the order they were sent.)\<close>

theorem message_roundtrip:
  assumes "msg_buffer ly s msg n" and "h = parse_header (content ly s msg n)" and "\<not> is_host_call h"
    and "get_port sp (msgh_remote_port h) = Some p" and "24 \<le> unat (msgh_size h)" and "unat (msgh_size h) \<le> n"
    and "msg_buffer ly s msg' n'" and "unat (msgh_size h) \<le> n'" and "msgh_size h \<le> rcv_size"
  shows "\<exists>sp1 s' sp2. mach_msg ly msg MACH_SEND_MSG ss sn (s, sp) = (Ok MACH_MSG_SUCCESS, (s, sp1)) \<and>
    mach_msg ly msg' MACH_RCV_MSG rcv_size (msgh_remote_port h) (s, sp1) = (Ok MACH_MSG_SUCCESS, (s', sp2)) \<and>
    content ly s' msg' (unat (msgh_size h)) =
      received (msgh_remote_port h) (take (unat (msgh_size h)) (content ly s msg n)) \<and>
    only_changed ly msg' (unat (msgh_size h)) s s' \<and>
    get_port sp2 (msgh_remote_port h) = Some \<lparr>po_messages =
      (if 10 < length (po_messages p) then drop 1 (po_messages p) else po_messages p)\<rparr>"
proof -
  let ?d = "msgh_remote_port h" and ?k = "unat (msgh_size h)"
  define data where "data = take ?k (content ly s msg n)"
  define sp1 where "sp1 = set_messages ?d (push_message (po_messages p) data) sp"
  have data: "length data = ?k" using assms(6) by (simp add: data_def)
  have fl: "MACH_SEND_MSG AND MACH_SEND_MSG \<noteq> 0" "MACH_SEND_MSG AND MACH_RCV_MSG = 0"
    "MACH_RCV_MSG AND MACH_SEND_MSG = 0" "MACH_RCV_MSG AND MACH_RCV_MSG \<noteq> 0"
    by (simp_all add: MACH_SEND_MSG_def MACH_RCV_MSG_def)
  note send = msg_send_ok [OF assms(1,3,4,6), folded data_def, folded sp1_def]
  have "mach_msg ly msg MACH_SEND_MSG ss sn (s, sp) = (Ok MACH_MSG_SUCCESS, (s, sp1))"
    unfolding mach_msg_split [OF assms(1)] assms(2) [symmetric] using fl
    by (simp add: bnd_Ok [where m = "msg_send ly msg h", OF send] ret_run)
  moreover have p1: "get_port sp1 ?d = Some \<lparr>po_messages = push_message (po_messages p) data\<rparr>"
    by (simp add: sp1_def get_port_def set_messages_def)
  moreover obtain s' where s': "msg_receive ly msg' rcv_size ?d (s, sp1) = (Ok MACH_MSG_SUCCESS,
      (s', set_messages ?d (butlast (push_message (po_messages p) data)) sp1))"
    "content ly s' msg' (length data) = received ?d data" "only_changed ly msg' (length data) s s'"
  proof -
    have "buffer ly (vm_mmu s) msg' (length data)"
      using assms(7,8) buffer_prefix by (auto simp: msg_buffer_def data)
    from msg_receive_ok [OF this p1, of rcv_size] assms(5,9) show ?thesis
      using that by (auto simp: push_message_def data word_le_nat_alt)
  qed
  moreover have "mach_msg ly msg' MACH_RCV_MSG rcv_size ?d (s, sp1) = (Ok MACH_MSG_SUCCESS,
      (s', set_messages ?d (butlast (push_message (po_messages p) data)) sp1))"
    unfolding mach_msg_split [OF assms(7)] using fl s'(1) by (simp add: ret_run)
  ultimately show ?thesis
    by (auto simp: data_def [symmetric] data get_port_def set_messages_def push_message_def)
qed

definition sample_message :: bytes where
  "sample_message = header_bytes \<lparr>msgh_bits = 0x13, msgh_size = 28, msgh_remote_port = 0x200, msgh_local_port = 0,
     msgh_reserved = 0, msgh_id = 7\<rparr> @ [1, 2, 3, 4]"

lemma sample_message_facts:
  "length sample_message = 28" "parse_header sample_message = \<lparr>msgh_bits = 0x13, msgh_size = 28,
     msgh_remote_port = 0x200, msgh_local_port = 0, msgh_reserved = 0, msgh_id = 7\<rparr>"
  unfolding sample_message_def by (simp_all only: parse_header_bytes) simp

theorem message_roundtrip_witness:
  "\<exists>sp1 s' sp2. mach_msg sample_layout 0x5000 MACH_SEND_MSG 0 0
      (sample_vm sample_message, ipc_space_new\<lparr>sp_ports := [0x200 \<mapsto> port_new]\<rparr>) =
      (Ok MACH_MSG_SUCCESS, (sample_vm sample_message, sp1)) \<and>
    mach_msg sample_layout 0x5000 MACH_RCV_MSG 28 0x200 (sample_vm sample_message, sp1) =
      (Ok MACH_MSG_SUCCESS, (s', sp2)) \<and>
    drop 24 (content sample_layout s' 0x5000 28) = [1, 2, 3, 4]"
proof -
  let ?s = "sample_vm sample_message" and ?sp = "ipc_space_new\<lparr>sp_ports := [0x200 \<mapsto> port_new]\<rparr>"
  let ?h = "\<lparr>msgh_bits = 0x13, msgh_size = 28, msgh_remote_port = 0x200, msgh_local_port = 0,
    msgh_reserved = 0, msgh_id = 7\<rparr>"
  note f = sample_vm_facts [of sample_message, unfolded sample_message_facts(1)]
  have b: "msg_buffer sample_layout ?s 0x5000 28" using f(2) by (simp add: msg_buffer_def)
  have h: "?h = parse_header (content sample_layout ?s 0x5000 28)"
    using f(1) sample_message_facts(2) by simp
  have p: "get_port ?sp (msgh_remote_port ?h) = Some port_new" by (simp add: get_port_def)
  have nh: "\<not> is_host_call ?h" by (simp add: is_host_call_def)
  have "drop 24 (received 0x200 sample_message) = [1, 2, 3, 4]"
    by (simp add: received_def sample_message_def header_bytes_def)
  moreover have "take 28 sample_message = sample_message" by (simp add: sample_message_facts(1))
  ultimately show ?thesis
    using message_roundtrip [OF b h nh p _ _ b, of 28 0 0] f(1) by fastforce
qed

text \<open>A call to the host, task or thread port whose reply port exists is answered at once: the
  receive that follows returns the reply of 128 bytes, with the identifier of the call plus 100 and,
  behind the header, the data of the call. Its size field is always 128, whatever the size of the
  reply proper, so a caller with less than 112 bytes of room is told that the reply is too large.\<close>

theorem host_call_replies:
  assumes "msg_buffer ly s msg n" and "128 \<le> n" and "h = parse_header (content ly s msg n)" and "is_host_call h"
    and "get_port sp (msgh_local_port h) = Some p"
  shows "(128 \<le> unat rcv_size \<longrightarrow> (\<exists>s' sp'. mach_msg ly msg (MACH_SEND_MSG OR MACH_RCV_MSG) rcv_size (msgh_local_port h) (s, sp) =
      (Ok MACH_MSG_SUCCESS, (s', sp')) \<and>
    content ly s' msg 128 = received (msgh_local_port h) (host_message h))) \<and>
   (unat rcv_size < 112 \<longrightarrow>
    fst (mach_msg ly msg (MACH_SEND_MSG OR MACH_RCV_MSG) rcv_size (msgh_local_port h) (s, sp)) = Ok MACH_RCV_TOO_LARGE)"
proof -
  let ?d = "msgh_local_port h"
  define sp1 where "sp1 = handle_host_rpc h sp"
  have fl: "(MACH_SEND_MSG OR MACH_RCV_MSG) AND MACH_SEND_MSG \<noteq> 0"
    "(MACH_SEND_MSG OR MACH_RCV_MSG) AND MACH_RCV_MSG \<noteq> 0"
    by (simp_all add: MACH_SEND_MSG_def MACH_RCV_MSG_def)
  have send: "msg_send ly msg h (s, sp) = (Ok None, (s, sp1))"
    using assms(4) by (simp add: msg_send_def Let_def ret_run sp1_def)
  have run: "mach_msg ly msg (MACH_SEND_MSG OR MACH_RCV_MSG) rcv_size ?d (s, sp) =
      msg_receive ly msg rcv_size ?d (s, sp1)"
    unfolding mach_msg_split [OF assms(1)] assms(3) [symmetric] using fl
    by (simp add: bnd_Ok [where m = "msg_send ly msg h", OF send])
  have len: "length (host_message h) = 128"
    by (simp add: host_message_def host_reply_def kernel_version_def Let_def)
  have p1: "get_port sp1 ?d = Some \<lparr>po_messages = push_message (po_messages p) (host_message h)\<rparr>"
    using assms(5) by (simp add: sp1_def handle_host_rpc_def get_port_def set_messages_def)
  have b: "buffer ly (vm_mmu s) msg (length (host_message h))"
    using assms(1,2) buffer_prefix by (auto simp: msg_buffer_def len)
  have "\<exists>s' sp'. msg_receive ly msg rcv_size ?d (s, sp1) = (Ok MACH_MSG_SUCCESS, (s', sp')) \<and>
      content ly s' msg 128 = received ?d (host_message h)" if "128 \<le> unat rcv_size"
    using msg_receive_ok [OF b p1, of rcv_size] that by (fastforce simp: push_message_def len)
  moreover have "fst (msg_receive ly msg rcv_size ?d (s, sp1)) = Ok MACH_RCV_TOO_LARGE" if "unat rcv_size < 112"
    using p1 that by (simp add: msg_receive_def Let_def push_message_def receive_size_def len ret_run)
  ultimately show ?thesis unfolding run by blast
qed

definition sample_call :: mach_msg_header where
  "sample_call = \<lparr>msgh_bits = 0x1513, msgh_size = 24, msgh_remote_port = 1, msgh_local_port = 0x200,
     msgh_reserved = 0, msgh_id = 3402\<rparr>"

text \<open>The page size of the host is 4096.\<close>

theorem host_call_replies_witness:
  "\<exists>s' sp'. mach_msg sample_layout 0x5000 (MACH_SEND_MSG OR MACH_RCV_MSG) 128 0x200
      (sample_vm (header_bytes sample_call @ replicate 104 0), ipc_space_new\<lparr>sp_ports := [0x200 \<mapsto> port_new]\<rparr>) =
      (Ok MACH_MSG_SUCCESS, (s', sp')) \<and>
    take 4 (drop 24 (content sample_layout s' 0x5000 128)) = to_le (4096 :: u32)"
proof -
  let ?bs = "header_bytes sample_call @ replicate 104 0"
  let ?s = "sample_vm ?bs" and ?sp = "ipc_space_new\<lparr>sp_ports := [0x200 \<mapsto> port_new]\<rparr>"
  have len: "length ?bs = 128" by simp
  note f = sample_vm_facts [of ?bs, unfolded len]
  have b: "msg_buffer sample_layout ?s 0x5000 128" using f(2) by (simp add: msg_buffer_def)
  have h: "sample_call = parse_header (content sample_layout ?s 0x5000 128)"
    using f(1) by simp
  have c: "is_host_call sample_call" "msgh_local_port sample_call = 0x200"
    by (simp_all add: is_host_call_def sample_call_def)
  have p: "get_port ?sp (msgh_local_port sample_call) = Some port_new" by (simp add: get_port_def c)
  have "take 4 (drop 24 (received 0x200 (host_message sample_call))) = to_le (4096 :: u32)"
    by (simp add: received_def host_message_def host_reply_def sample_call_def Let_def)
  then show ?thesis
    using host_call_replies [OF b _ h c(1) p, of 128] unfolding c(2) by fastforce
qed

end
