(* ===== verification/KernelProps.thy ===== *)
theory KernelProps
  imports KernelInv HfsFsProps IpcProps
begin

text \<open>The properties of the system calls, the scheduler and the trap handler.\<close>

unbundle bit_operations_syntax

section \<open>Runs of the kernel\<close>

text \<open>
  A run from a state: user code changes the memory and the registers as it likes, and traps; the
  number counts the traps that were handled and returned from. The timer may differ at each trap.
\<close>

inductive runs :: "nat \<Rightarrow> ('s, 'g) kernel \<Rightarrow> ('s, 'g) kernel \<Rightarrow> bool" where
  start: "runs 0 k k"
| user: "runs n k k' \<Longrightarrow> length cpu = 13 \<Longrightarrow>
    runs n k (k'\<lparr>kn_vm := (kn_vm k')\<lparr>vm_phys := phys\<rparr>, kn_cpu := cpu\<rparr>)"
| trap: "runs n k k' \<Longrightarrow> handle_sync_exception env esr far sp_el0 f k' = (Ok f', k'') \<Longrightarrow> runs (Suc n) k k''"

lemma runs_invariant:
  "runs n k k' \<Longrightarrow> kernel_ok k \<Longrightarrow> kernel_ok k' \<and> unat (kn_exceptions k') = unat (kn_exceptions k) + n"
proof (induction rule: runs.induct)
  case (start k)
  then show ?case by simp
next
  case (user n k k' cpu phys)
  then show ?case by (simp add: kernel_ok_def)
next
  case (trap n k k' env esr far sp_el0 f f' k'')
  then have "kernel_ok k'" "unat (kn_exceptions k') = unat (kn_exceptions k) + n" by simp_all
  with exception_keeps [OF _ trap.hyps(2)] show ?case by simp
qed

text \<open>The state in which the first process starts, with an identity mapped memory.\<close>

definition first_process :: process where
  "first_process = process_new 1 0x40080000 0x60000000 0x40001000 0x7000 [] 0x8000 False"

definition boot_kernel :: "bytes \<Rightarrow> (virtio_blk volume_file, unit) kernel" where
  "boot_kernel bs = \<lparr>kn_vm = sample_vm bs, kn_fs = \<lparr>fs_hfs = Some (sample_volume, sample_kernel_state), fs_rng = None\<rparr>,
     kn_sched = snd (schedule_next (add_process first_process scheduler_new)),
     kn_cpu = pr_context first_process, kn_pids = 2, kn_next_mmap = 0x70000000, kn_sec = 1643328000, kn_usec = 0,
     kn_heap = [], kn_exceptions = 0, kn_console = []\<rparr>"

definition sample_env :: "(virtio_blk volume_file, unit) kernel_env" where
  "sample_env = \<lparr>ke_layout = sample_layout,
     ke_vfs = \<lparr>ve_dev = volume_file_ops (virtio_read_at (image_device sample_image)), ve_unz = no_inflate,
       ve_nfd = (\<lambda>s. s), ve_fuel = 10, ve_seed = (), ve_fill = (\<lambda>g n. (replicate n 9, g))\<rparr>,
     ke_alloc = (\<lambda>h n. if h = [] then Some 0x9000 else None), ke_counter = 0, ke_freq = 24000000,
     ke_starter = 0x40080000, ke_stack = (\<lambda>_. 0x60000000)\<rparr>"

definition frame_of :: "u64 list \<Rightarrow> trap_frame" where
  "frame_of xs = \<lparr>tf_x = (\<lambda>i. if i < length xs then xs ! i else 0), tf_elr = 0x1000, tf_spsr = 0x10, tf_sp_el0 = 0\<rparr>"

lemma boot_sched:
  "kn_sched (boot_kernel bs) = \<lparr>sc_processes = [], sc_current = Some first_process\<rparr>"
  by (simp add: boot_kernel_def add_process_def scheduler_new_def schedule_next_def)

lemma boot_kernel_ok: "kernel_ok (boot_kernel bs)"
proof -
  have "proc_ok first_process" by (simp add: first_process_def process_new_ok)
  moreover have "pr_pid first_process = 1" by (simp add: first_process_def process_new_def Let_def split: prod.split)
  ultimately have "sched_ok 2 (kn_sched (boot_kernel bs))"
    by (simp add: boot_sched sched_ok_def procs_def)
  moreover have "length (pr_context first_process) = 13" using \<open>proc_ok first_process\<close> by (simp add: proc_ok_def)
  ultimately show ?thesis by (simp add: kernel_ok_def boot_kernel_def)
qed

text \<open>C19: along every run of user programs and traps the state of the kernel stays well formed: every
  process has 32 file slots, a context of 13 registers and a port space whose queues are bounded;
  process identifiers are distinct and below the next one.\<close>

theorem kernel_state_invariant:
  assumes "runs n k k'" and "kernel_ok k"
  shows "kernel_ok k'"
  using runs_invariant [OF assms] by blast

text \<open>A process asks for its identifier.\<close>

lemma getpid_trap:
  "handle_sync_exception sample_env (svc 0x80) 0 0 (frame_of (replicate 12 0 @ [20])) (boot_kernel []) =
    (Ok (set_ok 1 (frame_of (replicate 12 0 @ [20]))), (boot_kernel [])\<lparr>kn_exceptions := 1\<rparr>)"
proof -
  have "pr_pid first_process = 1" by (simp add: first_process_def process_new_def Let_def split: prod.split)
  moreover have "handle_a32_syscall sample_env (low32 0x80) (frame_of (replicate 12 0 @ [20])) = 
      a32_call sample_env 20 (frame_of (replicate 12 0 @ [20]))"
    by (rule bsd_call) (simp_all add: low32_def as_i32_def frame_of_def nth_append)
  ultimately show ?thesis
    by (simp add: trap_a32 boot_kernel_def frame_of_def low32_def a32_call_def fixed_answers_eq sys_getpid_a32_def
        get_current_def bnd_def ret_def schedule_next_def add_process_def scheduler_new_def)
qed

theorem kernel_state_invariant_witness:
  "kernel_ok ((boot_kernel [])\<lparr>kn_exceptions := 1\<rparr> :: (virtio_blk volume_file, unit) kernel)"
  using kernel_state_invariant [OF runs.trap [OF runs.start getpid_trap] boot_kernel_ok] .

text \<open>C20: the handler counts system calls as it counts faults, so that a kernel handles no more than a
  hundred traps after the boot: the next one, a correct system call as well, never returns.\<close>

theorem trap_budget:
  assumes "runs n k k'" and "kernel_ok k" and "kn_exceptions k = 0"
  shows "n \<le> 100 \<and> (n = 100 \<longrightarrow> fst (handle_sync_exception env esr far sp_el0 f k') = Err Parked)"
proof -
  note r = runs_invariant [OF assms(1,2)]
  then have e: "unat (kn_exceptions k') = n" using assms(3) by simp
  moreover have "kn_exceptions k' \<le> 100" using r by (simp add: kernel_ok_def)
  ultimately have "n \<le> 100" by (simp add: word_le_nat_alt)
  moreover have "fst (handle_sync_exception env esr far sp_el0 f k') = Err Parked" if "n = 100"
  proof -
    have "kn_exceptions k' = 100" using e that by (simp add: word_unat_eq_iff)
    then have "count_exception k' = (Err Parked, k'\<lparr>kn_exceptions := 101\<rparr>)" by (simp add: count_exception_def Let_def)
    then show ?thesis by (simp add: handle_sync_exception_def bnd_Err [where m = count_exception])
  qed
  ultimately show ?thesis by blast
qed

lemma getpid_trap_again:
  assumes "kernel_ok k" and "kn_exceptions k < 100"
  shows "\<exists>k'. handle_sync_exception sample_env (svc 0x80) 0 0 (frame_of (replicate 12 0 @ [24])) k =
    (Ok (set_ok 501 (frame_of (replicate 12 0 @ [24]))), k')"
proof -
  have "handle_a32_syscall sample_env (low32 0x80) (frame_of (replicate 12 0 @ [24])) = 
      a32_call sample_env 24 (frame_of (replicate 12 0 @ [24]))"
    by (rule bsd_call) (simp_all add: low32_def as_i32_def frame_of_def nth_append)
  then show ?thesis
    using assms(2) by (simp add: trap_a32 frame_of_def low32_def a32_call_def fixed_answers_eq ret_def)
qed

text \<open>After a hundred calls of \<open>getuid\<close>, the next one hangs.\<close>

theorem trap_budget_witness:
  "\<exists>k. runs 100 (boot_kernel []) k \<and>
     fst (handle_sync_exception sample_env (svc 0x80) 0 0 (frame_of (replicate 12 0 @ [24])) k) = Err Parked"
proof -
  have "n \<le> 100 \<Longrightarrow> \<exists>k. runs n (boot_kernel []) k" for n
  proof (induction n)
    case 0
    then show ?case using runs.start by blast
  next
    case (Suc n)
    then obtain k where k: "runs n (boot_kernel []) k" by auto
    note i = runs_invariant [OF k boot_kernel_ok]
    then have "kn_exceptions k < 100" using Suc.prems by (simp add: word_less_nat_alt boot_kernel_def)
    with getpid_trap_again i obtain k' where "handle_sync_exception sample_env (svc 0x80) 0 0
      (frame_of (replicate 12 0 @ [24])) k = (Ok (set_ok 501 (frame_of (replicate 12 0 @ [24]))), k')" by blast
    from runs.trap [OF k this] show ?case by blast
  qed
  then obtain k where "runs 100 (boot_kernel []) k" by blast
  then show ?thesis using trap_budget [OF _ boot_kernel_ok] by (auto simp: boot_kernel_def)
qed

section \<open>The scheduler\<close>

text \<open>C23: yielding goes round: after \<open>n\<close> yields the processes are in the order of before, rotated by \<open>n\<close>,
  each with the registers that it had, and the processor has those of the process whose turn it is.
  So a process resumes exactly as it yielded, after every other one has run once.\<close>

theorem yields_go_round:
  assumes "sc_current sc \<noteq> None"
  shows "\<exists>cpu' sc'. yields n (cpu, sc) = Some (cpu', sc') \<and> ring cpu' sc' = rotate n (ring cpu sc) \<and>
    (current_pid sc', cpu') = ring cpu sc ! (n mod length (ring cpu sc))"
proof -
  from yields_rotate [OF assms, of n cpu] obtain cpu' sc' where
    y: "yields n (cpu, sc) = Some (cpu', sc')" "ring cpu' sc' = rotate n (ring cpu sc)" "sc_current sc' \<noteq> None"
    by (auto simp: rotate_def)
  have ne: "ring cpu sc \<noteq> []" using assms by (auto simp: ring_def)
  have "hd (ring cpu' sc') = (current_pid sc', cpu')" using y(3) by (auto simp: ring_def current_pid_def)
  then have "(current_pid sc', cpu') = ring cpu sc ! (n mod length (ring cpu sc))"
    using hd_rotate_conv_nth [OF ne, of n] y(2) by simp
  with y show ?thesis by blast
qed

definition two_processes :: scheduler where
  "two_processes = \<lparr>sc_processes = [process_new 2 0 0 0x2000 0 [7] 0 True], sc_current = Some first_process\<rparr>"

text \<open>Two yields bring the first process back with its registers; one yield runs the second.\<close>

theorem yields_go_round_witness:
  "\<exists>cpu' sc'. yields 2 (replicate 13 5, two_processes) = Some (cpu', sc') \<and> current_pid sc' = 1 \<and> cpu' = replicate 13 5"
proof -
  have "current_pid two_processes = 1"
    by (simp add: two_processes_def current_pid_def first_process_def process_new_def Let_def split: prod.split)
  moreover have "ring (replicate 13 5) two_processes ! 0 = (current_pid two_processes, replicate 13 5)"
    "length (ring (replicate 13 5) two_processes) = 2"
    by (simp_all add: ring_def two_processes_def current_pid_def)
  ultimately show ?thesis
    using yields_go_round [of two_processes 2 "replicate 13 5"] by (fastforce simp: two_processes_def)
qed

end
