(* ===== verification/SyscallProps.thy ===== *)
theory SyscallProps
  imports SyscallSpec KernelProps
begin

text \<open>The properties of the system calls, with witnesses on the sample disk and the sample memory.\<close>

unbundle bit_operations_syntax

section \<open>Opening and reading a file\<close>

lemma set_fd_size: "fd < 2 ^ 64 \<Longrightarrow> unat (of_nat fd :: u64) = fd"
  by (simp add: unat_of_nat take_bit_nat_eq_self)

text \<open>C18: \<open>open\<close> of a path that names a file of the mounted volume gives the lowest free descriptor, or
  the error 24 (\<open>EMFILE\<close>) when there is none; the tables of the other processes, and the other slots, are as before. A
  \<open>read\<close> from the new descriptor, or a \<open>pread\<close> whatever its offset, then puts the bytes of the file, from its beginning, into the
  buffer, returns their number, and changes no other memory.\<close>

theorem open_then_read:
  assumes "mounted dev img ready vbs cexts eexts vol ctr etr fuel st" and "fs_hfs (kn_fs k) = Some (vol, st)"
    and "ve_dev (ke_vfs env) = dev" and "ve_fuel (ke_vfs env) = fuel"
    and "path_at (ke_layout env) (kn_vm k) (tf_x f 0) path" and "path \<noteq> DEV_RANDOM" and "path \<noteq> DEV_URANDOM"
    and "names_file img vol ctr etr fuel (ve_nfd (ke_vfs env)) path fk"
    and "sc_current (kn_sched k) = Some p" and "length (pr_files p) = 32"
    and "bs = take (unat (tf_x g 2)) (file_bytes img fk)"
    and "buffer (ke_layout env) (vm_mmu (kn_vm k)) (tf_x g 1) (length bs)" and "num = 3 \<or> num = 153"
  shows "if None \<notin> set (pr_files p) then (\<exists>k1. a32_call env 5 f k = (Ok (set_err 24 f), k1) \<and> kn_sched k1 = kn_sched k)
    else (\<exists>fd k1 k2. fd < 32 \<and> pr_files p ! fd = None \<and> (\<forall>i < fd. pr_files p ! i \<noteq> None) \<and>
      a32_call env 5 f k = (Ok (set_ok (of_nat fd) f), k1) \<and>
      kn_sched k1 = (kn_sched k)\<lparr>sc_current := Some (p\<lparr>pr_files := (pr_files p)[fd := Some (HfsFile fk)]\<rparr>)\<rparr> \<and>
      (tf_x g 0 = of_nat fd \<longrightarrow> a32_call env num g k1 = (Ok (set_ok (of_nat (length bs)) g), k2) \<and>
        content (ke_layout env) (kn_vm k2) (tf_x g 1) (length bs) = bs \<and>
        only_changed (ke_layout env) (tf_x g 1) (length bs) (kn_vm k) (kn_vm k2)))"
proof -
  let ?p = "\<lambda>fd. p\<lparr>pr_files := (pr_files p)[fd := Some (HfsFile fk)]\<rparr>"
  from open_call_ok [OF assms(1-9)] obtain st' where
    m: "mounted dev img ready vbs cexts eexts vol ctr etr fuel st'"
    and call: "a32_call env 5 f k = (case free_fd 0 (pr_files p) of
      Some fd \<Rightarrow> (Ok (set_ok (of_nat fd) f), k\<lparr>kn_fs := (kn_fs k)\<lparr>fs_hfs := Some (vol, st')\<rparr>,
        kn_sched := (kn_sched k)\<lparr>sc_current := Some (?p fd)\<rparr>\<rparr>)
    | None \<Rightarrow> (Ok (set_err 24 f), k\<lparr>kn_fs := (kn_fs k)\<lparr>fs_hfs := Some (vol, st')\<rparr>\<rparr>))" by blast
  show ?thesis
  proof (cases "free_fd 0 (pr_files p)")
    case None
    then show ?thesis using call free_fd_None by auto
  next
    case (Some fd)
    note fd = free_fd_Some [OF Some]
    let ?k = "k\<lparr>kn_fs := (kn_fs k)\<lparr>fs_hfs := Some (vol, st')\<rparr>, kn_sched := (kn_sched k)\<lparr>sc_current := Some (?p fd)\<rparr>\<rparr>"
    have f32: "fd < 32" using fd(1) assms(10) by simp
    then have at: "sc_current (kn_sched ?k) = Some (?p fd)" "file_at (?p fd) fd = Some (HfsFile fk)"
      "fs_hfs (kn_fs ?k) = Some (vol, st')" using assms(10) by (simp_all add: file_at_def)
    have "\<exists>k2. a32_call env num g ?k = (Ok (set_ok (of_nat (length bs)) g), k2) \<and>
        content (ke_layout env) (kn_vm k2) (tf_x g 1) (length bs) = bs \<and>
        only_changed (ke_layout env) (tf_x g 1) (length bs) (kn_vm k) (kn_vm k2)" if "tf_x g 0 = of_nat fd"
      using read_call_ok [OF m at _ assms(3) names_file_ok(2) [OF assms(1,8)] _ assms(13), of g bs] that f32
        names_file_ok(3) [OF assms(1,8)] assms(11,12) by (simp add: set_fd_size)
    moreover have "None \<in> set (pr_files p)" using Some free_fd_None [of "pr_files p"] by auto
    ultimately show ?thesis using call Some fd(2,3) f32 by auto
  qed
qed

text \<open>The path \<open>/a/b\<close> in memory.\<close>

definition path_bytes :: bytes where
  "path_bytes = [47, 97, 47, 98, 0] @ replicate 27 0"

lemma path_bytes_at: "path_at sample_layout (kn_vm (boot_kernel path_bytes)) 0x5000 sample_path"
proof -
  have ab: "as_bytes sample_path = [47, 97, 47, 98]" by (simp add: as_bytes_def utf8_bytes_def)
  have vm: "kn_vm (boot_kernel path_bytes) = sample_vm path_bytes" by (simp add: boot_kernel_def)
  have "bytes_at sample_layout (sample_vm path_bytes) 0x5000 [47, 97, 47, 98, 0]"
    unfolding bytes_at_def
  proof (intro allI impI)
    fix i
    assume i: "i < length ([47, 97, 47, 98, 0] :: bytes)"
    then have "phys_addr sample_layout (vm_mmu (sample_vm path_bytes)) (0x5000 + of_nat i) =
        Some (0x5000 + of_nat i, MAIR_MEM OR AF)"
      using identity_place(1) [OF sample_layout_ok, of "0x5000" i] by (simp add: sample_vm_def)
    moreover have "vm_phys (sample_vm path_bytes) (0x5000 + of_nat i) = path_bytes ! i"
      using i by (simp add: sample_vm_def path_bytes_def set_fd_size Let_def)
    moreover have "path_bytes ! i = [47, 97, 47, 98, 0] ! i" using i by (simp only: path_bytes_def nth_append if_True)
    ultimately show "\<exists>p attr. phys_addr sample_layout (vm_mmu (sample_vm path_bytes)) (0x5000 + of_nat i) = Some (p, attr) \<and>
        vm_phys (sample_vm path_bytes) p = [47, 97, 47, 98, 0] ! i" by simp
  qed
  then show ?thesis by (simp add: path_at_def vm ab scalar_value_def)
qed

definition sample_handle :: fork where
  "sample_handle = loaded_fork (cfi_file_id sample_file) 0 512 1000 sample_extents"

lemma sample_names: "names_file sample_disk sample_volume sample_ctree sample_etree 10 (\<lambda>s. s) sample_path sample_handle"
proof -
  note s = sample_file_facts
  have "unat (vh_block_size (vol_header sample_volume)) = 512" "unat (fd_logical_size sample_fork_data) = 1000"
    "block_total sample_extents * 512 < 2 ^ 64" "block_total sample_extents < 2 ^ 32"
    by (simp_all add: sample_volume_def sample_header_def sample_fork_data_def extents_b_def)
  then show ?thesis
    unfolding names_file_def sample_handle_def
    using s sample_file_content(2) by (intro exI [of _ file_record] exI [of _ sample_file]
        exI [of _ sample_fork_data] exI [of _ 0] exI [of _ "[extents_b]"] exI [of _ 512] exI [of _ 1000] exI) auto
qed

text \<open>The first process, whose descriptors 0 to 2 are in use, opens \<open>/a/b\<close> as 3 and reads three bytes.\<close>

theorem open_then_read_witness:
  "\<exists>k1 k2. a32_call sample_env 5 (frame_of [0x5000]) (boot_kernel path_bytes) =
      (Ok (set_ok 3 (frame_of [0x5000])), k1) \<and>
    a32_call sample_env 3 (frame_of [3, 0x5010, 3]) k1 = (Ok (set_ok 3 (frame_of [3, 0x5010, 3])), k2) \<and>
    content sample_layout (kn_vm k2) 0x5010 3 = [7, 7, 7]"
proof -
  let ?k = "boot_kernel path_bytes" and ?g = "frame_of [3, 0x5010, 3]"
  have F: "file_bytes sample_disk sample_handle = replicate 1000 7"
    using loaded_fork_ok [OF sample_file_facts(7) [folded sample_file_facts(5)], of "cfi_file_id sample_file" 0]
      sample_file_content(1) sample_file_facts(5)
    by (simp add: sample_handle_def file_bytes_def)
  have fp: "length (pr_files first_process) = 32"
    "\<And>fd. fd < 32 \<Longrightarrow> pr_files first_process ! fd = None \<Longrightarrow> (\<forall>i < fd. pr_files first_process ! i \<noteq> None) \<Longrightarrow> fd = 3"
    "None \<in> set (pr_files first_process)"
  proof -
    have f: "pr_files first_process = [Some (RandomFile 0), Some (RandomFile 0), Some (RandomFile 0)] @ replicate 29 None"
      by (simp add: first_process_def process_new_def Let_def split: prod.split)
    show "length (pr_files first_process) = 32" "None \<in> set (pr_files first_process)" by (simp_all add: f)
    fix fd
    assume "fd < 32" "pr_files first_process ! fd = None" "\<forall>i < fd. pr_files first_process ! i \<noteq> None"
    moreover from this have "\<not> 3 < fd" by (auto simp: f dest!: spec [of _ 3])
    ultimately show "fd = 3" by (cases "fd = 0 \<or> fd = 1 \<or> fd = 2") (auto simp: f)
  qed
  have b: "buffer (ke_layout sample_env) (vm_mmu (kn_vm ?k)) (tf_x ?g 1) (length [7 :: u8, 7, 7])"
    using identity_buffer [OF sample_layout_ok, of "0x5010" "length [7 :: u8, 7, 7]"]
    by (simp add: sample_env_def boot_kernel_def sample_vm_def frame_of_def)
  have bs: "take (unat (tf_x ?g 2)) (file_bytes sample_disk sample_handle) = [7, 7, 7]"
  proof -
    have "unat (tf_x ?g 2) = 3" by (simp add: frame_of_def)
    moreover have "take 3 (replicate 1000 7) = [7 :: u8, 7, 7]" by (simp add: numeral_3_eq_3)
    ultimately show ?thesis unfolding F by simp
  qed
  have env: "fs_hfs (kn_fs ?k) = Some (sample_volume, sample_kernel_state)"
    "ve_dev (ke_vfs sample_env) = volume_file_ops (virtio_read_at (image_device sample_image))"
    "ve_fuel (ke_vfs sample_env) = 10" "ve_nfd (ke_vfs sample_env) = (\<lambda>s. s)" "ke_layout sample_env = sample_layout"
    "sc_current (kn_sched ?k) = Some first_process"
    by (simp_all add: sample_env_def boot_sched) (simp add: boot_kernel_def)
  have path: "path_at (ke_layout sample_env) (kn_vm ?k) (tf_x (frame_of [0x5000]) 0) sample_path"
    using path_bytes_at by (simp add: env frame_of_def)
  have dev: "sample_path \<noteq> DEV_RANDOM" "sample_path \<noteq> DEV_URANDOM"
    by (simp_all add: DEV_RANDOM_def DEV_URANDOM_def)
  note o = open_then_read [OF sample_virtio_mounted env(1-3) path dev _ env(6) fp(1) bs [symmetric] b, where num = 3,
      unfolded env(4), OF sample_names]
  then obtain fd k1 k2 where r: "fd < 32" "pr_files first_process ! fd = None" "\<forall>i < fd. pr_files first_process ! i \<noteq> None"
    "a32_call sample_env 5 (frame_of [0x5000]) ?k = (Ok (set_ok (of_nat fd) (frame_of [0x5000])), k1)"
    "tf_x ?g 0 = of_nat fd \<longrightarrow> a32_call sample_env 3 ?g k1 = (Ok (set_ok (of_nat (length [7 :: u8, 7, 7])) ?g), k2) \<and>
       content (ke_layout sample_env) (kn_vm k2) (tf_x ?g 1) (length [7 :: u8, 7, 7]) = [7, 7, 7]"
    using fp(3) by auto
  moreover have "fd = 3" using fp(2) r(1-3) by blast
  moreover have "tf_x ?g 0 = 3" "tf_x ?g 1 = 0x5010" by (simp_all add: frame_of_def)
  ultimately show ?thesis by (auto simp: env(5) numeral_3_eq_3)
qed

section \<open>Mapping memory\<close>

text \<open>C21: an anonymous \<open>mmap\<close> without an address succeeds while the allocator has a block and a translation table is left for
  each 2 MB region touched. It returns the next region, which starts at a page and ends below the
  next one to be given out; the region is backed by the block, in order, and reads as zeros; no other page is
  mapped differently. (The regions start at \<open>0x70000000\<close>, inside of the heap of the kernel,
  \<open>0x60000000\<close> to \<open>0x80000000\<close>: from then on the kernel's own accesses to that part of its heap go to the block.)\<close>

theorem mmap_maps_zeroed_region:
  assumes "layout_ok (ke_layout env)" and "tables_ok (ke_layout env) (vm_mmu (kn_vm k))"
    and "tf_x f 0 = 0" and "tf_x f 1 = len" and "as_i32 (tf_x f 4) = -1" and "va = kn_next_mmap k"
    and "unat va mod 0x1000 = 0" and "0 < unat len" and "unat va + unat len + 0xFFF \<le> 2 ^ 32"
    and "ke_alloc env (kn_heap k) (unat len) = Some p" and "frame p" and "unat p + unat len + 0x1FFF < 2 ^ 48"
    and "heap_block (ke_layout env) (vm_mmu (kn_vm k)) p (unat len)"
    and "s = unat va div 0x1000" and "e = (unat va + unat len - 1) div 0x1000"
    and "\<And>i. s div 2 ^ 18 \<le> i \<Longrightarrow> i \<le> e div 2 ^ 18 \<Longrightarrow> l1_valid (ke_layout env) (vm_mmu (kn_vm k)) i"
    and "mm_l3_alloc_idx (vm_mmu (kn_vm k)) + 1 + (e div 512 - s div 512) \<le> 255"
  shows "\<exists>k'. a32_call env 197 f k = (Ok (set_ok va f), k') \<and>
    unat (kn_next_mmap k') = unat va + (unat len + 0xFFF) div 0x1000 * 0x1000 \<and>
    (\<forall>i < unat len. phys_addr (ke_layout env) (vm_mmu (kn_vm k')) (va + of_nat i) =
       Some (p + of_nat i, page_flags UserRWX) \<and> vm_phys (kn_vm k') (p + of_nat i) = 0) \<and>
    (\<forall>vpn < 2 ^ 27. vpn < unat va div 0x1000 \<or> (unat va + unat len + 0xFFF) div 0x1000 \<le> vpn \<longrightarrow>
       translate (ke_layout env) (vm_mmu (kn_vm k')) vpn = translate (ke_layout env) (vm_mmu (kn_vm k)) vpn)"
proof -
  let ?ly = "ke_layout env" and ?m = "vm_mmu (kn_vm k)"
  have v39: "unat va + unat len + 0xFFF \<le> 2 ^ 39" using assms(9) by simp
  obtain nx where nx: "next_region len k = (Ok va, k\<lparr>kn_next_mmap := nx\<rparr>)"
    "unat nx = unat va + (unat len + 0xFFF) div 0x1000 * 0x1000"
    using next_region_ok [of k len] assms(6,9) by auto
  obtain vm where al: "alloc_zeroed env (unat len) (k\<lparr>kn_next_mmap := nx\<rparr>) =
      (Ok (Some p), k\<lparr>kn_next_mmap := nx, kn_heap := (p, unat len) # kn_heap k, kn_vm := vm\<rparr>)"
    "vm_mmu vm = ?m" "\<forall>i < unat len. vm_phys vm (p + of_nat i) = 0"
    using alloc_zeroed_ok [of env "k\<lparr>kn_next_mmap := nx\<rparr>" "unat len" p] assms(9,10,13) by auto
  obtain m' where m': "map_range ?ly va p len UserRWX ?m = Some m'"
    using map_range_runs [OF assms(1,2,8) v39 assms(12,14,15,16,17), of UserRWX] by blast
  let ?k = "k\<lparr>kn_next_mmap := nx, kn_heap := (p, unat len) # kn_heap k, kn_vm := vm\<lparr>vm_mmu := m'\<rparr>\<rparr>"
  have mm: "map_memory env UserRWX va p len (k\<lparr>kn_next_mmap := nx, kn_heap := (p, unat len) # kn_heap k, kn_vm := vm\<rparr>) = (Ok (), ?k)"
    using m' al(2) by (simp add: map_memory_def)
  have "a32_call env 197 f k = (Ok (set_ok va f), ?k)"
    using assms(3-5)
    by (simp add: a32_call_def fixed_answers_eq sys_mmap_def Let_def bnd_Ok [where m = "next_region len", OF nx(1)]
        bnd_Ok [where m = "alloc_zeroed env (unat len)", OF al(1)] bnd_Ok [where m = "map_memory env UserRWX va p len", OF mm] ret_run)
  moreover have "phys_addr ?ly m' (va + of_nat i) = Some (p + of_nat i, page_flags UserRWX)" if "i < unat len" for i
    by (rule mapped_address [OF assms(1,2) m' assms(7,11,9,12) that])
  moreover have "translate ?ly m' vpn = translate ?ly ?m vpn"
    if "vpn < 2 ^ 27" "vpn < unat va div 0x1000 \<or> (unat va + unat len + 0xFFF) div 0x1000 \<le> vpn" for vpn
    using map_range_ok [OF assms(1,2) v39 assms(12) m'] that by auto
  ultimately show ?thesis using nx(2) al(3) by auto
qed

theorem mmap_maps_zeroed_region_witness:
  "\<exists>k'. a32_call sample_env 197 (frame_of [0, 0x1000, 3, 0x1002, 0xFFFFFFFF]) (boot_kernel []) =
      (Ok (set_ok 0x70000000 (frame_of [0, 0x1000, 3, 0x1002, 0xFFFFFFFF])), k') \<and>
    phys_addr sample_layout (vm_mmu (kn_vm k')) 0x70000000 = Some (0x9000, page_flags UserRWX)"
proof -
  let ?f = "frame_of [0, 0x1000, 3, 0x1002, 0xFFFFFFFF]" and ?k = "boot_kernel [] :: (virtio_blk volume_file, unit) kernel"
  have k: "vm_mmu (kn_vm ?k) = init_tables sample_layout" "kn_next_mmap ?k = 0x70000000" "kn_heap ?k = []"
    "ke_layout sample_env = sample_layout" "ke_alloc sample_env [] n = Some 0x9000" for n
    by (simp_all add: boot_kernel_def sample_vm_def sample_env_def)
  have x: "tf_x ?f 0 = 0" "tf_x ?f 1 = 0x1000" "as_i32 (tf_x ?f 4) = -1"
    by (simp_all add: frame_of_def as_i32_def low32_def)
  have "heap_block sample_layout (init_tables sample_layout) 0x9000 0x1000"
    unfolding heap_block_def
    using identity_buffer [OF sample_layout_ok, of "0x9000" "0x1000"] identity_place(2) [OF sample_layout_ok, of "0x9000"] by simp
  then have h: "heap_block (ke_layout sample_env) (vm_mmu (kn_vm ?k)) 0x9000 (unat (0x1000 :: u64))" by (simp add: k)
  have f: "frame 0x9000" by (simp add: frame_iff)
  have t: "tables_ok (ke_layout sample_env) (vm_mmu (kn_vm ?k))" "layout_ok (ke_layout sample_env)"
    using sample_tables sample_layout_ok by (simp_all add: k)
  have n: "unat (0x70000000 :: u64) mod 0x1000 = 0" "0 < unat (0x1000 :: u64)"
    "unat (0x70000000 :: u64) + unat (0x1000 :: u64) + 0xFFF \<le> 2 ^ 32"
    "unat (0x9000 :: u64) + unat (0x1000 :: u64) + 0x1FFF < 2 ^ 48"
    "0x70000 = unat (0x70000000 :: u64) div 0x1000" "0x70000 = (unat (0x70000000 :: u64) + unat (0x1000 :: u64) - 1) div 0x1000"
    "ke_alloc sample_env (kn_heap ?k) (unat (0x1000 :: u64)) = Some 0x9000"
    by (simp_all add: k)
  have l1: "l1_valid (ke_layout sample_env) (vm_mmu (kn_vm ?k)) i" if "(0x70000 :: nat) div 2 ^ 18 \<le> i" "i \<le> 0x70000 div 2 ^ 18" for i
    using that sample_tables(2) by (simp add: k)
  have room: "mm_l3_alloc_idx (vm_mmu (kn_vm ?k)) + 1 + (0x70000 div 512 - 0x70000 div 512) \<le> 255"
    using sample_tables(3) by (simp add: k)
  obtain k' where r: "a32_call sample_env 197 ?f ?k = (Ok (set_ok 0x70000000 ?f), k')"
    "\<And>i. i < unat (0x1000 :: u64) \<Longrightarrow> phys_addr (ke_layout sample_env) (vm_mmu (kn_vm k')) (0x70000000 + of_nat i) =
       Some (0x9000 + of_nat i, page_flags UserRWX)"
    using mmap_maps_zeroed_region [OF t(2,1) x k(2) [symmetric] n(1-3,7) f n(4) h n(5,6) l1 room] by blast
  from r(2) [of 0] have "phys_addr sample_layout (vm_mmu (kn_vm k')) 0x70000000 = Some (0x9000, page_flags UserRWX)"
    by (simp add: k)
  with r(1) show ?thesis by blast
qed

section \<open>Answers\<close>

text \<open>C22: every system call with an arm of its own, \<open>write\<close> apart, that returns to a running process
  answers by the convention of the platform: either a result in r0 with the carry flag clear, or one of
  the error numbers 1, 2, 9, 12, 22, 24, 78 with the flag set; no other register changes. \<open>write\<close>, and any call that
  the kernel does not know, return with all registers as they were.\<close>

theorem bsd_answers:
  assumes "a32_call env num f k = (Ok f', k')" and "sc_current (kn_sched k) \<noteq> None"
  shows "if num \<in> answering then answered f f' else f' = f"
  using a32_call_answers [OF _ assms] a32_call_silent [OF _ assms(1)] by simp

theorem bsd_answers_witness:
  "answered (frame_of [1, 2]) (set_ok 501 (frame_of [1, 2])) \<and> 4 \<notin> answering"
proof -
  have "a32_call sample_env 24 (frame_of [1, 2]) (boot_kernel []) = (Ok (set_ok 501 (frame_of [1, 2])), boot_kernel [])"
    by (simp add: a32_call_def fixed_answers_eq ret_def)
  moreover have "24 \<in> answering" "4 \<notin> answering" by (simp_all add: answering_def fixed_answers_eq)
  ultimately show ?thesis
    using bsd_answers [of sample_env 24 "frame_of [1, 2]" "boot_kernel []"] by (simp add: boot_sched)
qed

text \<open>C24: an indirect system call is the call named by the first argument that is not zero, with the
  arguments behind it, after at most six rounds; when the first five registers are all zero the kernel
  calls itself without end.\<close>

theorem indirect_call_ends:
  "if \<forall>i < 5. as_i32 (tf_x f i) = 0 then (\<forall>fuel. fst (handle_a32_syscall_internal env fuel 0 f k) = Loop)
   else (\<exists>i < 5. as_i32 (tf_x f i) \<noteq> 0 \<and> (\<forall>fuel \<ge> 6. handle_a32_syscall_internal env fuel 0 f =
     a32_call env (as_i32 (tf_x f i)) ((shift_args ^^ Suc i) f)))"
proof (cases "\<forall>i < 5. as_i32 (tf_x f i) = 0")
  case True
  then show ?thesis by (simp add: indirect_forever spin_run)
next
  case False
  define i where "i = (LEAST i. as_i32 (tf_x f i) \<noteq> 0)"
  obtain j where j: "j < 5" "as_i32 (tf_x f j) \<noteq> 0" using False by blast
  have i: "as_i32 (tf_x f i) \<noteq> 0" "i \<le> j" "\<forall>l < i. as_i32 (tf_x f l) = 0"
    unfolding i_def using j(2) LeastI [of "\<lambda>i. as_i32 (tf_x f i) \<noteq> 0" j] by (auto intro: Least_le dest: not_less_Least)
  have "handle_a32_syscall_internal env fuel 0 f = a32_call env (as_i32 (tf_x f i)) ((shift_args ^^ Suc i) f)"
    if "6 \<le> fuel" for fuel
  proof -
    have e: "Suc (Suc i) + (fuel - Suc (Suc i)) = fuel" using i(2) j(1) that by simp
    show ?thesis by (rule indirect_call [of i f env "fuel - Suc (Suc i)", unfolded e]) (use i j(1) in auto)
  qed
  moreover have "i < 5" using i(2) j(1) by simp
  ultimately show ?thesis using False i(1) by auto
qed

text \<open>\<open>syscall(20)\<close> is \<open>getpid\<close>, through one round.\<close>

theorem indirect_call_ends_witness:
  "handle_a32_syscall_internal sample_env 6 0 (frame_of [20]) = a32_call sample_env 20 (shift_args (frame_of [20]))"
proof -
  have x: "as_i32 (tf_x (frame_of [20]) 0) = 20" "as_i32 (tf_x (frame_of [20]) i) = 0" if "i \<noteq> 0" for i
    using that by (simp_all add: frame_of_def as_i32_def low32_def)
  have "\<not> (\<forall>i < 5. as_i32 (tf_x (frame_of [20]) i) = 0)" using x(1) [of 1] by (auto intro: exI [of _ 0])
  with indirect_call_ends [of "frame_of [20]" sample_env] obtain i where
    i: "as_i32 (tf_x (frame_of [20]) i) \<noteq> 0" "handle_a32_syscall_internal sample_env 6 0 (frame_of [20]) =
      a32_call sample_env (as_i32 (tf_x (frame_of [20]) i)) ((shift_args ^^ Suc i) (frame_of [20]))" by auto
  moreover have "i = 0" using i(1) x(2) by blast
  ultimately show ?thesis using x(1) [of 1] by simp
qed

text \<open>C25: reading an open file of the volume to its end returns all its bytes from the position on, once
  one round more than the file has chunks of 4096 bytes is allowed; the random device is never read to its end.\<close>

theorem read_to_end_reads_all:
  assumes "disk dev img ready" and "ve_dev env = dev" and "fs_hfs v = Some (vol, st)" and "ready (vs_file st) q"
    and "handle_ok img fk" and "length (file_bytes img fk) < 2 ^ 64"
    and "length (file_bytes img fk) \<le> fk_position fk + fuel * 4096" and "fills (ve_fill env)"
  shows "(\<exists>h v'. file_read_to_end env (Suc fuel) (HfsFile fk) [] v = (Ok (drop (fk_position fk) (file_bytes img fk), h), v')) \<and>
    (\<forall>n p. fst (file_read_to_end env n (RandomFile p) [] v) = Loop)"
  using disk.file_read_to_end_ok [OF assms(1-7), of "[]"] random_never_ends [OF assms(8)] by simp

theorem read_to_end_reads_all_witness:
  "\<exists>h v'. file_read_to_end (ke_vfs sample_env) 2 (HfsFile sample_handle) [] (kn_fs (boot_kernel [])) = (Ok (replicate 1000 7, h), v')"
proof -
  have F: "file_bytes sample_disk sample_handle = replicate 1000 7" "handle_ok sample_disk sample_handle" "fk_position sample_handle = 0"
    using loaded_fork_ok [OF sample_file_facts(7) [folded sample_file_facts(5)], of "cfi_file_id sample_file" 0]
      sample_file_content sample_file_facts(5)
    by (simp_all add: sample_handle_def file_bytes_def handle_ok_def)
  obtain q where d: "disk (volume_file_ops (virtio_read_at (image_device sample_image))) sample_disk
      (buf_ready idle 512 (drop 512 sample_image) 65536)"
    "buf_ready idle 512 (drop 512 sample_image) 65536 (vs_file sample_kernel_state) q"
    using mounted_disk [OF sample_virtio_mounted] by blast
  have e: "fills (ve_fill (ke_vfs sample_env))" "fs_hfs (kn_fs (boot_kernel [])) = Some (sample_volume, sample_kernel_state)"
    "ve_dev (ke_vfs sample_env) = volume_file_ops (virtio_read_at (image_device sample_image))"
    by (simp_all add: sample_env_def fills_def boot_kernel_def)
  have n: "length (file_bytes sample_disk sample_handle) < 2 ^ 64"
    "length (file_bytes sample_disk sample_handle) \<le> fk_position sample_handle + 1 * 4096" by (simp_all add: F)
  show ?thesis
    using read_to_end_reads_all [OF d(1) e(3,2) d(2) F(2) n e(1), THEN conjunct1, unfolded F(1,3)]
    by (simp add: numeral_2_eq_2 del: file_read_to_end.simps)
qed

end
