(* ===== verification/KMacho.thy ===== *)
theory KMacho
  imports Kernel
begin

text \<open>
  Loading of Mach-O programs (\<open>src/src/kernel/src/macho.rs\<close>): segments, the choice of an architecture, the
  initial stack. The parser is the crate \<open>goblin\<close>: what it finds in a file is a parameter, its
  types are the records below with the fields that the loader reads.
\<close>

unbundle bit_operations_syntax

section \<open>What the parser finds\<close>

definition CPU_TYPE_ARM :: u32 where "CPU_TYPE_ARM = 12"
definition CPU_TYPE_ARM64 :: u32 where "CPU_TYPE_ARM64 = 0x0100000C"

record segment =
  sg_segname :: bytes
  sg_vmaddr :: u64
  sg_vmsize :: u64
  sg_fileoff :: u64
  sg_filesize :: u64

text \<open>A load command at its offset in the file, of interest or not.\<close>

datatype load_command = LoadDylinker nat nat | OtherCommand

record macho =
  mo_cputype :: u32
  mo_load_commands :: "load_command list"
  mo_segments :: "segment list"
  mo_entry :: u64

record fat_arch =
  fa_cputype :: u32
  fa_offset :: u32
  fa_size :: u32

text \<open>\<open>Mach::parse\<close> and \<open>MachO::parse\<close>; a fat file with the result of \<open>arches()\<close>.\<close>

datatype mach = Binary macho | Fat "fat_arch list option"

record macho_parser =
  mp_mach :: "bytes \<Rightarrow> mach option"
  mp_macho :: "bytes \<Rightarrow> macho option"

section \<open>The stack\<close>

text \<open>A subtraction below zero is a panic.\<close>

definition below :: "u64 \<Rightarrow> nat \<Rightarrow> u64 vmact" where
  "below sp n = (if unat sp < n then panic else ret (sp - of_nat n))"

definition stack_strings :: "ustring \<Rightarrow> bytes list" where
  "stack_strings exec_path =
     [as_bytes exec_path,
      map (\<lambda>c. of_nat (of_char c)) ''dyld_shared_cache_base_address=0x30000000'',
      map (\<lambda>c. of_nat (of_char c)) ''executable_path=/bin/initial'']"

text \<open>The strings, each with a final zero, from the top down; their addresses in order.\<close>

fun push_strings :: "table_layout \<Rightarrow> u64 \<Rightarrow> bytes list \<Rightarrow> (u64 \<times> u64 list) vmact" where
  "push_strings ly sp [] = ret (sp, [])"
| "push_strings ly sp (s # ss) =
     bnd (below sp (length s + 1)) (\<lambda>p.
     bnd (store_bytes ly p s) (\<lambda>_.
     bnd (store8 ly (p + of_nat (length s)) 0) (\<lambda>_.
     bnd (push_strings ly p ss) (\<lambda>(sp', ps).
     ret (sp', p # ps)))))"

definition stack_words :: "u64 \<Rightarrow> u64 list \<Rightarrow> bool \<Rightarrow> u64 list" where
  "stack_words mh ps is_64bit =
     (if is_64bit then [mh, 1, ps ! 0, 0, 0, ps ! 0, ps ! 1, ps ! 2, 0]
      else [mh, 1, ps ! 0, 0, 0, ps ! 0, ps ! 1, ps ! 2, mh, 0])"

fun store_words32 :: "table_layout \<Rightarrow> u64 \<Rightarrow> u64 list \<Rightarrow> unit vmact" where
  "store_words32 ly va [] = ret ()"
| "store_words32 ly va (w # ws) = bnd (store32 ly va (ucast w)) (\<lambda>_. store_words32 ly (va + 4) ws)"

definition setup_stack :: "table_layout \<Rightarrow> u64 \<Rightarrow> ustring \<Rightarrow> u64 \<Rightarrow> bool \<Rightarrow> u64 vmact" where
  "setup_stack ly sp exec_path mh_addr is_64bit =
     bnd (push_strings ly sp (stack_strings exec_path)) (\<lambda>(sp1, ps).
     let values = stack_words mh_addr ps is_64bit in
     if is_64bit then
       bnd (below (sp1 AND NOT 15) (length values * 8)) (\<lambda>top.
       bnd (store_bytes ly top (concat (map to_le values))) (\<lambda>_.
       ret top))
     else
       bnd (below (sp1 AND NOT 3) (length values * 4)) (\<lambda>sp2.
       let top = sp2 AND NOT 15 in
       bnd (store_words32 ly top values) (\<lambda>_.
       ret top)))"

section \<open>Segments\<close>

text \<open>\<open>segname_to_str\<close>: not UTF-8 is the empty string; zeros are trimmed at both ends.\<close>

definition trim_zeros :: "ustring \<Rightarrow> ustring" where
  "trim_zeros s = rev (dropWhile (\<lambda>c. c = 0) (rev (dropWhile (\<lambda>c. c = 0) s)))"

definition segname_to_str :: "bytes \<Rightarrow> ustring" where
  "segname_to_str n = trim_zeros (case utf8_decode n of Some s \<Rightarrow> s | None \<Rightarrow> [])"

definition PAGEZERO :: ustring where
  "PAGEZERO = map of_char ''__PAGEZERO''"

text \<open>One segment: memory, a writable mapping, the bytes of the file, the final mapping.\<close>

definition load_segment :: "('s, 'g) kernel_env \<Rightarrow> bytes \<Rightarrow> u64 \<Rightarrow> segment \<Rightarrow> ('s, 'g, unit) kact" where
  "load_segment env data vm_addr sg =
     (let file_off = unat (sg_fileoff sg); n = unat (sg_filesize sg) in
      bnd (alloc_zeroed env (unat (sg_vmsize sg))) (\<lambda>phys.
      case phys of
        None \<Rightarrow> panic
      | Some paddr \<Rightarrow>
          bnd (map_memory env UserRW vm_addr paddr (sg_vmsize sg)) (\<lambda>_.
          bnd (if 0 < n then
                 (if length data < file_off + n then panic
                  else on_mem (store_bytes (ke_layout env) vm_addr (take n (drop file_off data))))
               else ret ()) (\<lambda>_.
          map_memory env UserRWX vm_addr paddr (sg_vmsize sg)))))"

fun load_segments :: "('s, 'g) kernel_env \<Rightarrow> bytes \<Rightarrow> u64 \<Rightarrow> segment list \<Rightarrow> u64 \<Rightarrow> ('s, 'g, u64) kact" where
  "load_segments env data load_offset [] header_addr = ret header_addr"
| "load_segments env data load_offset (sg # sgs) header_addr =
     (if segname_to_str (sg_segname sg) = PAGEZERO then load_segments env data load_offset sgs header_addr
      else if 2 ^ 64 \<le> unat (sg_vmaddr sg) + unat load_offset then panic
      else
        let vm_addr = sg_vmaddr sg + load_offset;
            header' = (if sg_fileoff sg = 0 \<and> 0 < sg_filesize sg then vm_addr else header_addr)
        in bnd (load_segment env data vm_addr sg) (\<lambda>_. load_segments env data load_offset sgs header'))"

text \<open>The path in the last \<open>LC_LOAD_DYLINKER\<close> command that is UTF-8.\<close>

fun dylinker_path :: "bytes \<Rightarrow> load_command list \<Rightarrow> ustring option \<Rightarrow> (fault, ustring option) res" where
  "dylinker_path data [] found = Ok found"
| "dylinker_path data (OtherCommand # cs) found = dylinker_path data cs found"
| "dylinker_path data (LoadDylinker off name # cs) found =
     (if length data < off + name then Panic
      else dylinker_path data cs
        (case utf8_decode (takeWhile (\<lambda>b. b \<noteq> 0) (drop (off + name) data)) of Some s \<Rightarrow> Some s | None \<Rightarrow> found))"

record macho_loader =
  ml_entry :: u64
  ml_header_addr :: u64
  ml_dylinker :: "ustring option"
  ml_is_64bit :: bool

definition load_macho :: "('s, 'g) kernel_env \<Rightarrow> macho \<Rightarrow> bytes \<Rightarrow> u64 \<Rightarrow> ('s, 'g, macho_loader) kact" where
  "load_macho env mo data load_offset =
     bnd (pure_res (dylinker_path data (mo_load_commands mo) None)) (\<lambda>dylinker.
     bnd (load_segments env data load_offset (mo_segments mo) load_offset) (\<lambda>header_addr.
     if 2 ^ 64 \<le> unat (mo_entry mo) + unat load_offset then panic
     else ret \<lparr>ml_entry = mo_entry mo + load_offset, ml_header_addr = header_addr, ml_dylinker = dylinker,
       ml_is_64bit = (mo_cputype mo = CPU_TYPE_ARM64)\<rparr>))"

text \<open>\<open>MachOLoader::load\<close>; of a fat file the first arm64 architecture, or else the first arm one.\<close>

definition pick_arch :: "fat_arch list \<Rightarrow> fat_arch option" where
  "pick_arch arches =
     (case find (\<lambda>a. fa_cputype a = CPU_TYPE_ARM64) arches of
        Some a \<Rightarrow> Some a
      | None \<Rightarrow> find (\<lambda>a. fa_cputype a = CPU_TYPE_ARM) arches)"

definition macho_load ::
  "('s, 'g) kernel_env \<Rightarrow> macho_parser \<Rightarrow> bytes \<Rightarrow> u64 \<Rightarrow> ('s, 'g, macho_loader option) kact" where
  "macho_load env mp data load_offset =
     (let loaded = (\<lambda>d mo. bnd (load_macho env mo d load_offset) (\<lambda>l. ret (Some l))) in
      case mp_mach mp data of
        None \<Rightarrow> (case mp_macho mp data of Some mo \<Rightarrow> loaded data mo | None \<Rightarrow> ret None)
      | Some (Binary mo) \<Rightarrow> loaded data mo
      | Some (Fat None) \<Rightarrow> ret None
      | Some (Fat (Some arches)) \<Rightarrow>
          (case pick_arch arches of
             None \<Rightarrow> ret None
           | Some a \<Rightarrow>
               let off = unat (fa_offset a); n = unat (fa_size a) in
               if length data < off + n then panic
               else
                 let slice = take n (drop off data) in
                 (case mp_macho mp slice of None \<Rightarrow> ret None | Some mo \<Rightarrow> loaded slice mo)))"

end
