(* ===== verification/KMachoSpec.thy ===== *)
theory KMachoSpec
  imports KMacho SyscallSpec MmuInit
begin

text \<open>What loading a program leaves in memory: the initial stack, and the image of a segment.\<close>

unbundle bit_operations_syntax

section \<open>Writing in a buffer\<close>

text \<open>A store at an offset of a buffer, on the content of the whole buffer.\<close>

lemma store_at:
  assumes "buffer ly (vm_mmu s) base n" and "a + length bs \<le> n"
  shows "\<exists>s'. store_bytes ly (base + of_nat a) bs s = (Ok (), s') \<and> vm_mmu s' = vm_mmu s \<and>
    content ly s' base n = take a (content ly s base n) @ bs @ drop (a + length bs) (content ly s base n) \<and>
    only_changed ly base n s s'"
proof -
  have b: "buffer ly (vm_mmu s) (base + of_nat a) (length bs)" by (rule buffer_shift [OF assms])
  from store_bytes_ok [OF b] obtain s' where s': "store_bytes ly (base + of_nat a) bs s = (Ok (), s')"
    "content ly s' (base + of_nat a) (length bs) = bs" "only_changed ly (base + of_nat a) (length bs) s s'" by blast
  have "place ly (vm_mmu s) (base + of_nat a) ` {..<length bs} \<subseteq> place ly (vm_mmu s) base ` {..<n}"
    using assms(2) by (auto simp: place_shift)
  then have "only_changed ly base n s s'" using s'(3) unfolding only_changed_def by blast
  with s' content_rest [OF assms(1) s'(3) assms(2)] show ?thesis by (auto simp: only_changed_def)
qed

lemma store8_bytes: "store8 ly va b = store_bytes ly va [b]"
  by (auto simp: bnd_def ret_def fun_eq_iff store8_def split: option.split prod.split)

lemma store_words32_bytes:
  "store_words32 ly va ws = store_bytes ly va (concat (map (\<lambda>w. to_le (ucast w :: u32)) ws))"
proof -
  have app: "store_bytes ly va (xs @ ys) = bnd (store_bytes ly va xs) (\<lambda>_. store_bytes ly (va + of_nat (length xs)) ys)"
    for va xs ys
    by (induction xs arbitrary: va) (simp_all add: bnd_assoc add.assoc add.commute [of 1])
  show ?thesis
    by (induction ws arbitrary: va) (simp_all add: app store32_def)
qed

section \<open>Strings on the stack\<close>

definition strings_size :: "bytes list \<Rightarrow> nat" where
  "strings_size ss = sum_list (map (\<lambda>s. length s + 1) ss)"

text \<open>The bytes that \<open>push_strings\<close> writes, from the lowest address up, and where each string starts.\<close>

definition strings_image :: "bytes list \<Rightarrow> bytes" where
  "strings_image ss = concat (rev (map (\<lambda>s. s @ [0]) ss))"

fun string_addrs :: "u64 \<Rightarrow> nat \<Rightarrow> bytes list \<Rightarrow> u64 list" where
  "string_addrs base k [] = []"
| "string_addrs base k (s # ss) = (base + of_nat (k - (length s + 1))) # string_addrs base (k - (length s + 1)) ss"

lemma strings_simps:
  "strings_size [] = 0" "strings_size (s # ss) = length s + 1 + strings_size ss"
  "strings_image [] = []" "strings_image (s # ss) = strings_image ss @ s @ [0]"
  by (simp_all add: strings_size_def strings_image_def)

lemma length_strings_image: "length (strings_image ss) = strings_size ss"
  by (induction ss) (simp_all add: strings_simps)

text \<open>The string at each of the addresses.\<close>

lemma string_at:
  "i < length ss \<Longrightarrow> strings_size ss \<le> k \<Longrightarrow> \<exists>d. string_addrs base k ss ! i = base + of_nat (k - strings_size ss + d) \<and>
     take (length (ss ! i) + 1) (drop d (strings_image ss)) = ss ! i @ [0]"
proof (induction ss arbitrary: i k)
  case Nil
  then show ?case by simp
next
  case (Cons t ss)
  have k: "k - strings_size (t # ss) = k - (length t + 1) - strings_size ss" "strings_size ss \<le> k - (length t + 1)"
    using Cons.prems(2) by (simp_all add: strings_simps)
  show ?case
  proof (cases i)
    case 0
    have "k - (length t + 1) = k - strings_size (t # ss) + strings_size ss" using k by linarith
    then show ?thesis using 0
      by (intro exI [of _ "strings_size ss"]) (simp add: strings_simps(4) length_strings_image del: of_nat_add)
  next
    case (Suc j)
    then obtain d where d: "string_addrs base (k - (length t + 1)) ss ! j = base + of_nat (k - (length t + 1) - strings_size ss + d)"
      "take (length (ss ! j) + 1) (drop d (strings_image ss)) = ss ! j @ [0]"
      using Cons.IH [OF _ k(2), of j] Cons.prems(1) by auto
    have "length (ss ! j) + 1 \<le> length (drop d (strings_image ss))"
      using arg_cong [OF d(2), of length] by simp
    then have "take (length (ss ! j) + 1) (drop d (strings_image (t # ss))) = ss ! j @ [0]"
      using d(2) by (simp add: strings_simps)
    then show ?thesis using d(1) Suc k(1) by (intro exI [of _ d]) simp
  qed
qed

lemma content_part: "a + j \<le> n \<Longrightarrow> content ly s (base + of_nat a) j = take j (drop a (content ly s base n))"
  by (rule nth_equalityI) (simp_all add: place_shift)

lemma strings_content:
  assumes "drop room (content ly s base n) = strings_image ss" and "room = n - strings_size ss" and "strings_size ss \<le> n"
    and "i < length ss"
  shows "content ly s (string_addrs base n ss ! i) (length (ss ! i) + 1) = ss ! i @ [0]"
proof -
  from string_at [OF assms(4,3), of base] obtain d where
    d: "string_addrs base n ss ! i = base + of_nat (room + d)" "take (length (ss ! i) + 1) (drop d (strings_image ss)) = ss ! i @ [0]"
    unfolding assms(2) by blast
  have "length (ss ! i) + 1 \<le> strings_size ss - d"
    using arg_cong [OF d(2), of length] by (simp add: length_strings_image)
  then have "content ly s (string_addrs base n ss ! i) (length (ss ! i) + 1) = take (length (ss ! i) + 1) (drop (room + d) (content ly s base n))"
    unfolding d(1) using assms(2,3) by (intro content_part) simp
  also have "drop (room + d) (content ly s base n) = drop d (strings_image ss)"
    using assms(1) by (metis drop_drop add.commute)
  finally show ?thesis using d(2) by simp
qed

lemma below_ok:
  assumes "unat base + (j + n) < 2 ^ 64"
  shows "below (base + of_nat (j + n)) n = ret (base + of_nat j)"
proof -
  have "unat (base + of_nat (j + n)) = unat base + (j + n)" by (rule unat_offset [OF assms])
  then show ?thesis by (simp add: below_def del: of_nat_add) (simp add: add_diff_eq)
qed

lemma push_strings_ok:
  "buffer ly (vm_mmu s) base n \<Longrightarrow> unat base + n < 2 ^ 64 \<Longrightarrow> k \<le> n \<Longrightarrow> strings_size ss \<le> k \<Longrightarrow>
   \<exists>s'. push_strings ly (base + of_nat k) ss s =
      (Ok (base + of_nat (k - strings_size ss), string_addrs base k ss), s') \<and> vm_mmu s' = vm_mmu s \<and>
    content ly s' base n = take (k - strings_size ss) (content ly s base n) @ strings_image ss @ drop k (content ly s base n) \<and>
    only_changed ly base n s s'"
proof (induction ss arbitrary: k s)
  case Nil
  then show ?case by (auto simp: strings_simps ret_run only_changed_def)
next
  case (Cons t ss)
  let ?C = "content ly s base n"
  define j where "j = k - (length t + 1)"
  have len: "strings_size ss \<le> j" and k: "k = j + (length t + 1)" and jn: "j + length t + 1 \<le> n"
    using Cons.prems(3,4) by (simp_all add: strings_simps j_def)
  have b: "below (base + of_nat k) (length t + 1) = ret (base + of_nat j)"
    unfolding k using Cons.prems(2) jn by (intro below_ok) simp
  from store_at [OF Cons.prems(1), of j t] jn obtain s1 where
    s1: "store_bytes ly (base + of_nat j) t s = (Ok (), s1)" "vm_mmu s1 = vm_mmu s"
    "content ly s1 base n = take j ?C @ t @ drop (j + length t) ?C" "only_changed ly base n s s1" by auto
  from store_at [of ly s1 base n "j + length t" "[0]"] Cons.prems(1) s1(2) jn obtain s2 where
    s2: "store8 ly (base + of_nat j + of_nat (length t)) 0 s1 = (Ok (), s2)" "vm_mmu s2 = vm_mmu s1"
    "content ly s2 base n = take (j + length t) (content ly s1 base n) @ [0] @ drop (j + length t + 1) (content ly s1 base n)"
    "only_changed ly base n s1 s2" unfolding store8_bytes by (auto simp: add.assoc)
  have c2: "content ly s2 base n = take j ?C @ (t @ [0]) @ drop k ?C"
    using s2(3) s1(3) jn k by simp
  from Cons.IH [of s2 j] Cons.prems(1,2) s1(2) s2(2) len jn obtain s3 where
    s3: "push_strings ly (base + of_nat j) ss s2 =
      (Ok (base + of_nat (j - strings_size ss), string_addrs base j ss), s3)" "vm_mmu s3 = vm_mmu s2"
    "content ly s3 base n = take (j - strings_size ss) (content ly s2 base n) @ strings_image ss @ drop j (content ly s2 base n)"
    "only_changed ly base n s2 s3" by auto
  have size: "k - strings_size (t # ss) = j - strings_size ss" by (simp add: k strings_simps)
  have addrs: "string_addrs base k (t # ss) = (base + of_nat j) # string_addrs base j ss" by (simp add: j_def)
  have "content ly s3 base n = take (k - strings_size (t # ss)) ?C @ strings_image (t # ss) @ drop k ?C"
    unfolding size using len jn by (simp add: s3(3) c2 strings_simps)
  moreover have "only_changed ly base n s s3" using s1(4) s2(4) s3(4) only_changed_trans by blast
  moreover have "push_strings ly (base + of_nat k) (t # ss) s =
      (Ok (base + of_nat (k - strings_size (t # ss)), string_addrs base k (t # ss)), s3)"
    unfolding size addrs push_strings.simps b
    by (simp only: bnd_ret bnd_Ok [where m = "store_bytes ly (base + of_nat j) t", OF s1(1)]
        bnd_Ok [where m = "store8 ly (base + of_nat j + of_nat (length t)) 0", OF s2(1)]
        bnd_Ok [where m = "push_strings ly (base + of_nat j) ss", OF s3(1)] prod.case ret_run)
  ultimately show ?case using s3(2) s2(2) s1(2) by auto
qed

section \<open>The initial stack\<close>

lemma unat_aligned: "k + n = 64 \<Longrightarrow> unat (a AND push_bit k (mask n) :: u64) = unat a div 2 ^ k * 2 ^ k"
proof -
  assume k: "k + n = 64"
  have "unat a < 2 ^ LENGTH(64)" by (rule unsigned_less)
  then have "unat a < 2 ^ n * 2 ^ k" using k by (simp add: power_add [symmetric] add.commute [of n])
  then have "unat a div 2 ^ k < 2 ^ n" by (rule less_mult_imp_div_less)
  then show ?thesis using k unat_field [of k n a] by simp
qed

lemma aligned_16: "unat (a AND NOT 15 :: u64) = unat a div 16 * 16"
proof -
  have m: "(NOT 15 :: u64) = push_bit 4 (mask 60)" by (simp add: mask_eq_exp_minus_1)
  show ?thesis unfolding m using unat_aligned [of 4 60 a] by simp
qed

lemma aligned_4: "unat (a AND NOT 3 :: u64) = unat a div 4 * 4"
proof -
  have m: "(NOT 3 :: u64) = push_bit 2 (mask 62)" by (simp add: mask_eq_exp_minus_1)
  show ?thesis unfolding m using unat_aligned [of 2 62 a] by simp
qed

lemma below_at:
  assumes "unat sp = unat base + t + n" and "unat base + t < 2 ^ 64"
  shows "below sp n = ret (base + of_nat t)"
proof -
  have "unat sp < 2 ^ LENGTH(64)" by (rule unsigned_less)
  then have "unat (sp - of_nat n) = unat base + t"
    using assms by (simp add: unat_sub_if' unat_of_nat take_bit_nat_eq_self)
  moreover have "unat (base + of_nat t) = unat base + t" by (rule unat_offset [OF assms(2)])
  ultimately have "sp - of_nat n = base + of_nat t" by (simp add: word_unat_eq_iff)
  then show ?thesis using assms(1) by (simp add: below_def)
qed

text \<open>The words of the frame in memory.\<close>

definition frame_bytes :: "u64 \<Rightarrow> u64 list \<Rightarrow> bool \<Rightarrow> bytes" where
  "frame_bytes mh ps is_64bit = concat (map (\<lambda>w. if is_64bit then to_le w else to_le (ucast w :: u32)) (stack_words mh ps is_64bit))"

definition frame_length :: "bool \<Rightarrow> nat" where
  "frame_length is_64bit = (if is_64bit then 72 else 40)"

lemma length_stack_words: "length (stack_words mh ps b) = (if b then 9 else 10)"
  by (simp add: stack_words_def)

lemma length_frame_bytes: "length (frame_bytes mh ps b) = frame_length b"
  by (simp add: frame_bytes_def frame_length_def stack_words_def length_to_le)

text \<open>A frame below the strings leaves them and everything further down as they were.\<close>

lemma frame_below_strings:
  assumes "buffer ly (vm_mmu s) base n" and "content ly s base n = take j C @ img" and "length C = n" 
    and "t + length fb \<le> j" and "j \<le> n"
  shows "\<exists>s'. store_bytes ly (base + of_nat t) fb s = (Ok (), s') \<and> vm_mmu s' = vm_mmu s \<and>
    content ly s' base n = take t C @ fb @ drop (t + length fb) (take j C) @ img \<and> only_changed ly base n s s'"
proof -
  from store_at [OF assms(1), of t fb] assms(4,5) obtain s' where s': "store_bytes ly (base + of_nat t) fb s = (Ok (), s')"
    "vm_mmu s' = vm_mmu s" "content ly s' base n = take t (content ly s base n) @ fb @ drop (t + length fb) (content ly s base n)"
    "only_changed ly base n s s'" by auto
  then show ?thesis using assms by (auto simp: min_def)
qed

lemma frame_room:
  fixes u a c d base :: nat
  assumes "u - 15 \<le> a" "a \<le> u" "u - 3 \<le> c" "c \<le> u" "c - 40 - 15 \<le> d" "d \<le> c - 40"
    and "u = base + j" and "96 \<le> j" and "t = (if b then a - 72 else d) - base"
  shows "base + t = (if b then a - 72 else d) \<and> t + frame_length b \<le> j \<and> j < t + frame_length b + 32"
  using assms by (cases b) (simp_all add: frame_length_def, linarith+)

lemma setup_stack_ok:
  fixes path :: ustring and mh :: u64
  defines "strs \<equiv> stack_strings path"
  assumes "buffer ly (vm_mmu s) base n" and "unat base + n < 2 ^ 64" and "strings_size strs + 96 \<le> n"
  shows "\<exists>t s'. setup_stack ly (base + of_nat n) path mh b s = (Ok (base + of_nat t), s') \<and> vm_mmu s' = vm_mmu s \<and>
    t + frame_length b \<le> n - strings_size strs \<and> n - strings_size strs < t + frame_length b + 32 \<and>
    unat (base + of_nat t) mod 16 = (if b then 8 else 0) \<and>
    content ly s' base n = take t (content ly s base n) @ frame_bytes mh (string_addrs base n strs) b @
      drop (t + frame_length b) (take (n - strings_size strs) (content ly s base n)) @ strings_image strs \<and>
    only_changed ly base n s s'"
proof -
  define j where "j = n - strings_size strs"
  let ?ps = "string_addrs base n strs" and ?sp = "base + of_nat j" and ?C = "content ly s base n"
  let ?fb = "frame_bytes mh ?ps b"
  have j: "96 \<le> j" "j \<le> n" using assms(4) by (simp_all add: j_def)
  from push_strings_ok [OF assms(2,3) le_refl, of strs] assms(4) obtain s1 where
    s1: "push_strings ly (base + of_nat n) strs s = (Ok (?sp, ?ps), s1)" "vm_mmu s1 = vm_mmu s"
    "content ly s1 base n = take j ?C @ strings_image strs" "only_changed ly base n s s1"
    by (auto simp: j_def)
  define u where "u = unat ?sp"
  have u: "u = unat base + j" unfolding u_def using assms(3) j by (intro unat_offset) simp
  have rem: "v - 3 \<le> v div 4 * 4 \<and> v div 4 * 4 \<le> v" "v - 15 \<le> v div 16 * 16 \<and> v div 16 * 16 \<le> v" for v :: nat
    by linarith+
  obtain a c d where a: "unat (?sp AND NOT 15) = a" "u - 15 \<le> a \<and> a \<le> u" "a mod 16 = 0"
    and c: "unat (?sp AND NOT 3) = c" "u - 3 \<le> c \<and> c \<le> u"
    and d: "\<And>w :: u64. unat w = c - 40 \<Longrightarrow> unat (w AND NOT 15) = d" "c - 40 - 15 \<le> d \<and> d \<le> c - 40" "d mod 16 = 0"
    by (rule that [of "u div 16 * 16" "u div 4 * 4" "(u div 4 * 4 - 40) div 16 * 16"])
      (simp_all only: aligned_16 aligned_4 u_def [symmetric] rem mod_mult_self2_is_0)
  note q = a(2) [THEN conjunct1] a(2) [THEN conjunct2] c(2) [THEN conjunct1] c(2) [THEN conjunct2]
    d(2) [THEN conjunct1] d(2) [THEN conjunct2]
  define t where "t = (if b then a - 72 else d) - unat base"
  have t: "unat base + t = (if b then a - 72 else d)"
    "t + frame_length b \<le> j" "j < t + frame_length b + 32"
    using frame_room [OF q u j(1) t_def] by blast+
  have room: "unat base + t < 2 ^ 64" using t(2) j assms(3) by simp
  then have ut: "unat (base + of_nat t) = unat base + t" by (rule unat_offset)
  from frame_below_strings [of ly s1 base n j ?C "strings_image strs" t ?fb] assms(2) s1(2,3) t(2) j obtain s2 where
    s2: "store_bytes ly (base + of_nat t) ?fb s1 = (Ok (), s2)" "vm_mmu s2 = vm_mmu s1"
    "content ly s2 base n = take t ?C @ ?fb @ drop (t + frame_length b) (take j ?C) @ strings_image strs"
    "only_changed ly base n s1 s2" by (auto simp: length_frame_bytes)
  have "setup_stack ly (base + of_nat n) path mh b s = (Ok (base + of_nat t), s2)"
  proof (cases b)
    case True
    have "unat (?sp AND NOT 15) = unat base + t + 72" using t(1) True a(1) q u j by simp
    then have "below (?sp AND NOT 15) 72 = ret (base + of_nat t)" by (rule below_at) (rule room)
    moreover have st: "store_bytes ly (base + of_nat t) (concat (map to_le (stack_words mh ?ps True))) s1 = (Ok (), s2)"
      using s2(1) True by (simp add: frame_bytes_def)
    ultimately show ?thesis using True
      by (simp add: setup_stack_def strs_def [symmetric] bnd_Ok [where m = "push_strings ly (base + of_nat n) strs", OF s1(1)]
          length_stack_words bnd_Ok [where m = "store_bytes ly (base + of_nat t) (concat (map to_le (stack_words mh ?ps True)))", OF st] ret_run)
  next
    case False
    define v where "v = c - 40 - unat base"
    have v: "unat base + v + 40 = c" using q u j by (simp add: v_def)
    have "unat base + v < 2 ^ 64" using v q u j assms(3) by linarith
    then have uv: "unat (base + of_nat v) = unat base + v" by (rule unat_offset)
    have "below (?sp AND NOT 3) 40 = ret (base + of_nat v)" by (rule below_at) (use c(1) v \<open>unat base + v < 2 ^ 64\<close> in simp_all)
    moreover have "(base + of_nat v) AND NOT 15 = base + of_nat t"
      using d(1) [of "base + of_nat v"] t(1) False v uv ut by (simp add: word_unat_eq_iff)
    moreover have st: "store_words32 ly (base + of_nat t) (stack_words mh ?ps False) s1 = (Ok (), s2)"
      using s2(1) False by (simp add: frame_bytes_def store_words32_bytes)
    ultimately show ?thesis using False
      by (simp add: setup_stack_def strs_def [symmetric] bnd_Ok [where m = "push_strings ly (base + of_nat n) strs", OF s1(1)]
          length_stack_words bnd_Ok [where m = "store_words32 ly (base + of_nat t) (stack_words mh ?ps False)", OF st] ret_run Let_def)
  qed
  moreover have "unat (base + of_nat t) mod 16 = (if b then 8 else 0)"
  proof -
    obtain x where x: "a = 16 * x" using a(3) by (auto elim: dvdE simp: mod_eq_0_iff_dvd)
    have "96 \<le> a + 15" using q(1) u j by linarith
    then have "a - 72 = 8 + 16 * (x - 5)" using x by simp
    then have "(a - 72) mod 16 = 8" by simp
    then show ?thesis unfolding ut t(1) using d(3) by simp
  qed
  moreover have "only_changed ly base n s s2" using s1(4) s2(4) only_changed_trans by blast
  ultimately show ?thesis using s2(2,3) s1(2) t(2,3) unfolding j_def by (intro exI [of _ t] exI [of _ s2]) simp
qed

section \<open>Segments\<close>

text \<open>A mapped range of pages is a buffer over the block behind it.\<close>

lemma mapped_buffer:
  assumes "\<forall>i < n. phys_addr ly m (va + of_nat i) = Some (p + of_nat i, attr)" and "attr AND AP_RO_EL1 = 0"
    and "n < 2 ^ 64"
  shows "buffer ly m va n" and "\<forall>i < n. place ly m va i = p + of_nat i"
proof -
  show pl: "\<forall>i < n. place ly m va i = p + of_nat i" using assms(1) by (simp add: place_def)
  have "inj_on (place ly m va) {..<n}"
  proof (rule inj_onI)
    fix i j
    assume ij: "i \<in> {..<n}" "j \<in> {..<n}" "place ly m va i = place ly m va j"
    then have "(of_nat i :: u64) = of_nat j" using pl by simp
    then show "i = j"
      using ij(1,2) assms(3) by (simp add: word_unat_eq_iff unat_of_nat take_bit_nat_eq_self)
  qed
  then show "buffer ly m va n" using assms(1,2) by (auto simp: buffer_def)
qed

lemma user_pages_writable: "page_flags UserRW AND AP_RO_EL1 = 0"
  by (simp add: page_flags_def Let_def MAIR_MEM_def AF_def SH_INNER_def AP_RO_EL1_def AP_RW_EL0_EL1_def UXN_def PXN_def)

lemma load_segment_ok:
  assumes "layout_ok (ke_layout env)" and "tables_ok (ke_layout env) (vm_mmu (kn_vm k))"
    and "unat va mod 0x1000 = 0" and "0 < unat (sg_vmsize sg)" and "unat va + unat (sg_vmsize sg) + 0xFFF \<le> 2 ^ 32"
    and "ke_alloc env (kn_heap k) (unat (sg_vmsize sg)) = Some p" and "frame p"
    and "unat p + unat (sg_vmsize sg) + 0x1FFF < 2 ^ 48"
    and "heap_block (ke_layout env) (vm_mmu (kn_vm k)) p (unat (sg_vmsize sg))"
    and "s = unat va div 0x1000" and "e = (unat va + unat (sg_vmsize sg) - 1) div 0x1000"
    and "\<And>i. s div 2 ^ 18 \<le> i \<Longrightarrow> i \<le> e div 2 ^ 18 \<Longrightarrow> l1_valid (ke_layout env) (vm_mmu (kn_vm k)) i"
    and "mm_l3_alloc_idx (vm_mmu (kn_vm k)) + 2 * (1 + (e div 512 - s div 512)) \<le> 255"
    and "unat (sg_fileoff sg) + unat (sg_filesize sg) \<le> length data" and "sg_filesize sg \<le> sg_vmsize sg"
  shows "\<exists>k'. load_segment env data va sg k = (Ok (), k') \<and>
    (\<forall>i < unat (sg_vmsize sg). phys_addr (ke_layout env) (vm_mmu (kn_vm k')) (va + of_nat i) =
         Some (p + of_nat i, page_flags UserRWX) \<and>
       vm_phys (kn_vm k') (p + of_nat i) = (if i < unat (sg_filesize sg) then data ! (unat (sg_fileoff sg) + i) else 0)) \<and>
    tables_ok (ke_layout env) (vm_mmu (kn_vm k')) \<and> kn_heap k' = (p, unat (sg_vmsize sg)) # kn_heap k"
proof -
  let ?ly = "ke_layout env" and ?m = "vm_mmu (kn_vm k)" and ?sz = "sg_vmsize sg"
  let ?n = "unat (sg_vmsize sg)" and ?f = "unat (sg_filesize sg)" and ?o = "unat (sg_fileoff sg)"
  let ?bs = "take ?f (drop ?o data)"
  have v39: "unat va + ?n + 0xFFF \<le> 2 ^ 39" and n62: "?n < 2 ^ 62" using assms(5) by simp_all
  have fn: "?f \<le> ?n" "length ?bs = ?f" using assms(14,15) by (simp_all add: word_le_nat_alt)
  have room1: "mm_l3_alloc_idx ?m + 1 + (e div 512 - s div 512) \<le> 255" using assms(13) by simp
  obtain vm where al: "alloc_zeroed env ?n k = (Ok (Some p), k\<lparr>kn_heap := (p, ?n) # kn_heap k, kn_vm := vm\<rparr>)"
    "vm_mmu vm = ?m" "\<forall>i < ?n. vm_phys vm (p + of_nat i) = 0"
    using alloc_zeroed_ok [OF assms(6) n62 assms(9)] by blast
  obtain m1 where m1: "map_range ?ly va p ?sz UserRW ?m = Some m1" "mm_tables m1 (ly_l1 ?ly) = mm_tables ?m (ly_l1 ?ly)"
    "mm_l3_alloc_idx m1 \<le> mm_l3_alloc_idx ?m + 1 + (e div 512 - s div 512)"
    using map_range_runs [OF assms(1,2,4) v39 assms(8,10,11,12) room1, of UserRW] by blast
  have t1: "tables_ok ?ly m1" using map_range_ok [OF assms(1,2) v39 assms(8) m1(1)] by simp
  have l1: "l1_valid ?ly m1 i" if "s div 2 ^ 18 \<le> i" "i \<le> e div 2 ^ 18" for i
    using assms(12) [OF that] m1(2) by (simp add: l1_valid_def)
  obtain m2 where m2: "map_range ?ly va p ?sz UserRWX m1 = Some m2"
    using map_range_runs [OF assms(1) t1 assms(4) v39 assms(8,10,11) l1, of UserRWX] m1(3) assms(13) by force
  have t2: "tables_ok ?ly m2" using map_range_ok [OF assms(1) t1 v39 assms(8) m2] by simp
  have a1: "\<forall>i < ?n. phys_addr ?ly m1 (va + of_nat i) = Some (p + of_nat i, page_flags UserRW)"
    using mapped_address [OF assms(1,2) m1(1) assms(3,7,5,8)] by blast
  have a2: "\<forall>i < ?n. phys_addr ?ly m2 (va + of_nat i) = Some (p + of_nat i, page_flags UserRWX)"
    using mapped_address [OF assms(1) t1 m2 assms(3,7,5,8)] by blast
  have b: "buffer ?ly m1 va ?n" "\<forall>i < ?n. place ?ly m1 va i = p + of_nat i"
    using mapped_buffer [OF a1 user_pages_writable] n62 by simp_all
  let ?vm = "vm\<lparr>vm_mmu := m1\<rparr>" and ?k1 = "k\<lparr>kn_heap := (p, ?n) # kn_heap k, kn_vm := vm\<rparr>"
  obtain vm2 where w: "store_bytes ?ly va ?bs ?vm = (Ok (), vm2)" "vm_mmu vm2 = m1"
    "content ?ly vm2 va ?n = ?bs @ drop ?f (content ?ly ?vm va ?n)"
    using store_at [of ?ly ?vm va ?n 0 ?bs] b(1) fn by auto
  have bytes: "vm_phys vm2 (p + of_nat i) = (if i < ?f then data ! (?o + i) else 0)" if "i < ?n" for i
  proof -
    have "vm_phys vm2 (p + of_nat i) = content ?ly vm2 va ?n ! i" using b(2) w(2) that by simp
    also have "\<dots> = (if i < ?f then data ! (?o + i) else content ?ly ?vm va ?n ! i)"
      unfolding w(3) using fn that assms(14) by (simp add: nth_append)
    finally show ?thesis using b(2) that al(3) by simp
  qed
  let ?k = "k\<lparr>kn_heap := (p, ?n) # kn_heap k, kn_vm := vm2\<lparr>vm_mmu := m2\<rparr>\<rparr>"
  have r: "map_memory env UserRW va p ?sz ?k1 = (Ok (), ?k1\<lparr>kn_vm := ?vm\<rparr>)"
    "map_memory env UserRWX va p ?sz (?k1\<lparr>kn_vm := vm2\<rparr>) = (Ok (), ?k)"
    using m1(1) m2 al(2) w(2) by (simp_all add: map_memory_def)
  let ?w = "if 0 < ?f then if length data < ?o + ?f then panic else on_mem (store_bytes ?ly va ?bs) else ret ()"
  have st: "(if 0 < ?f then if length data < ?o + ?f then panic else on_mem (store_bytes ?ly va ?bs) else ret ())
      (?k1\<lparr>kn_vm := ?vm\<rparr>) = (Ok (), ?k1\<lparr>kn_vm := vm2\<rparr>)"
    using assms(14) w(1) by (auto simp: on_mem_def ret_def)
  have "load_segment env data va sg k = (Ok (), ?k)"
    by (simp only: load_segment_def Let_def bnd_Ok [where m = "alloc_zeroed env ?n", OF al(1)] option.case
        bnd_Ok [where m = "map_memory env UserRW va p ?sz", OF r(1)] bnd_Ok [where m = ?w, OF st] r(2))
  then show ?thesis using a2 bytes t2 by (intro exI [of _ ?k]) simp
qed

end
