(* ===== verification/KMachoProps.thy ===== *)
theory KMachoProps
  imports KMachoSpec KernelProps
begin

text \<open>The properties of the Mach-O loader: the initial stack and the image of a segment.\<close>

unbundle bit_operations_syntax

section \<open>The initial stack\<close>

text \<open>C26: the stack of a new program, given one word more than a page of room: below the strings, which stay intact and
  are reachable from the frame, is the frame with the words in order, 4 or 8 bytes each; everything further down, and
  all other memory, is as it was. The stack pointer of a 32-bit program is aligned to 16
  bytes; that of a 64-bit program is not, it is 8 bytes off (the frame has nine words).\<close>

theorem program_stack:
  fixes path :: ustring
  assumes "buffer ly (vm_mmu s) base n" and "unat base + n < 2 ^ 64" and "strings_size (stack_strings path) + 96 \<le> n"
    and "ps = string_addrs base n (stack_strings path)" and "room = n - strings_size (stack_strings path)"
  shows "\<exists>t s'. setup_stack ly (base + of_nat n) path mh b s = (Ok (base + of_nat t), s') \<and>
    unat (base + of_nat t) mod 16 = (if b then 8 else 0) \<and>
    t + frame_length b \<le> room \<and> room < t + frame_length b + 32 \<and>
    content ly s' (base + of_nat t) (frame_length b) = frame_bytes mh ps b \<and>
    (\<forall>i < 3. content ly s' (ps ! i) (length (stack_strings path ! i) + 1) = stack_strings path ! i @ [0]) \<and>
    content ly s' base t = take t (content ly s base n) \<and> only_changed ly base n s s'"
proof -
  let ?strs = "stack_strings path" and ?C = "content ly s base n" and ?F = "frame_bytes mh ps b"
  from setup_stack_ok [OF assms(1-3), of mh b] obtain t s' where
    r: "setup_stack ly (base + of_nat n) path mh b s = (Ok (base + of_nat t), s')" "t + frame_length b \<le> room"
      "room < t + frame_length b + 32" "unat (base + of_nat t) mod 16 = (if b then 8 else 0)" "only_changed ly base n s s'"
    and c: "content ly s' base n = take t ?C @ ?F @ drop (t + frame_length b) (take room ?C) @ strings_image ?strs"
    unfolding assms(4,5) by blast
  have n: "room + strings_size ?strs = n" using assms(3,5) by simp
  have "content ly s' (base + of_nat t) (frame_length b) = ?F"
    using content_part [of t "frame_length b" n ly s' base] r(2) n by (simp add: c length_frame_bytes)
  moreover have "content ly s' base t = take t ?C"
    using content_part [of 0 t n ly s' base] r(2) n by (simp add: c)
  moreover have "content ly s' (ps ! i) (length (?strs ! i) + 1) = ?strs ! i @ [0]" if "i < 3" for i
  proof -
    have "drop room (content ly s' base n) = strings_image ?strs" using r(2) n by (simp add: c length_frame_bytes)
    from strings_content [OF this assms(5)] show ?thesis using that n unfolding assms(4) by (simp add: stack_strings_def)
  qed
  ultimately show ?thesis using r by blast
qed

text \<open>The stack of the 32-bit program \<open>/x\<close> in a page of memory.\<close>

theorem program_stack_witness:
  "\<exists>sp s'. setup_stack sample_layout (0x5000 + of_nat 0x1000) (map of_char ''/x'') 0x1000 False (sample_vm (replicate 0x1000 7)) =
    (Ok sp, s') \<and> unat sp mod 16 = 0"
proof -
  let ?path = "map of_char ''/x'' :: ustring" and ?s = "sample_vm (replicate 0x1000 7)"
  have b: "buffer sample_layout (vm_mmu ?s) 0x5000 0x1000"
    using sample_vm_facts(2) [of "replicate 0x1000 7"] by simp
  have sz: "strings_size (stack_strings ?path) + 96 \<le> 0x1000"
    by (simp add: strings_size_def stack_strings_def as_bytes_def utf8_bytes_def)
  have n: "unat (0x5000 :: u64) + 0x1000 < 2 ^ 64" by simp
  from program_stack [OF b n sz refl refl, of "0x1000" False] show ?thesis by auto
qed

section \<open>Segments\<close>

text \<open>C27: a segment whose bytes are in the file, and no longer than its memory, is loaded as the Mach-O format
  asks: at its address is a fresh block with the bytes of the file and zeros behind them, and its pages may
  be read, written and executed by the program.\<close>

theorem segment_image:
  assumes "layout_ok (ke_layout env)" and "tables_ok (ke_layout env) (vm_mmu (kn_vm k))"
    and "unat va mod 0x1000 = 0" and "0 < unat (sg_vmsize sg)" and "unat va + unat (sg_vmsize sg) + 0xFFF \<le> 2 ^ 32"
    and "ke_alloc env (kn_heap k) (unat (sg_vmsize sg)) = Some p" and "frame p"
    and "unat p + unat (sg_vmsize sg) + 0x1FFF < 2 ^ 48"
    and "heap_block (ke_layout env) (vm_mmu (kn_vm k)) p (unat (sg_vmsize sg))"
    and "s = unat va div 0x1000" and "e = (unat va + unat (sg_vmsize sg) - 1) div 0x1000"
    and "\<And>i. s div 2 ^ 18 \<le> i \<Longrightarrow> i \<le> e div 2 ^ 18 \<Longrightarrow> l1_valid (ke_layout env) (vm_mmu (kn_vm k)) i"
    and "mm_l3_alloc_idx (vm_mmu (kn_vm k)) + 2 * (1 + (e div 512 - s div 512)) \<le> 255"
    and "unat (sg_fileoff sg) + unat (sg_filesize sg) \<le> length data" and "sg_filesize sg \<le> sg_vmsize sg"
  shows "\<exists>k'. load_segment env data va sg k = (Ok (), k') \<and>
    (\<forall>i < unat (sg_vmsize sg). \<exists>q. phys_addr (ke_layout env) (vm_mmu (kn_vm k')) (va + of_nat i) = Some (q, page_flags UserRWX) \<and>
       vm_phys (kn_vm k') q = (if i < unat (sg_filesize sg) then data ! (unat (sg_fileoff sg) + i) else 0))"
  using load_segment_ok [OF assms(1-11) _ assms(13-15)] assms(12) by blast

text \<open>A segment of two bytes of a file of four, at an address where nothing is mapped yet.\<close>

theorem segment_image_witness:
  "\<exists>k'. load_segment sample_env [1, 2, 3, 4] 0x70000000 \<lparr>sg_segname = [], sg_vmaddr = 0x70000000, sg_vmsize = 0x1000, sg_fileoff = 1, sg_filesize = 2\<rparr>
      (boot_kernel []) = (Ok (), k') \<and>
    (\<exists>q. phys_addr sample_layout (vm_mmu (kn_vm k')) 0x70000001 = Some (q, page_flags UserRWX) \<and> vm_phys (kn_vm k') q = 3)"
proof -
  let ?sg = "\<lparr>sg_segname = [], sg_vmaddr = 0x70000000, sg_vmsize = 0x1000, sg_fileoff = 1, sg_filesize = 2\<rparr>"
  let ?k = "boot_kernel [] :: (virtio_blk volume_file, unit) kernel"
  have k: "vm_mmu (kn_vm ?k) = init_tables sample_layout" "kn_heap ?k = []"
    "ke_layout sample_env = sample_layout" "ke_alloc sample_env [] n = Some 0x9000" for n
    by (simp_all add: boot_kernel_def sample_vm_def sample_env_def)
  have h: "heap_block (ke_layout sample_env) (vm_mmu (kn_vm ?k)) 0x9000 (unat (sg_vmsize ?sg))"
    unfolding heap_block_def k
    using identity_buffer [OF sample_layout_ok, of "0x9000" "0x1000"] identity_place(2) [OF sample_layout_ok, of "0x9000"] by simp
  have t: "tables_ok (ke_layout sample_env) (vm_mmu (kn_vm ?k))" "layout_ok (ke_layout sample_env)"
    using sample_tables sample_layout_ok by (simp_all add: k)
  have f: "frame 0x9000" by (simp add: frame_iff)
  have n: "unat (0x70000000 :: u64) mod 0x1000 = 0" "0 < unat (sg_vmsize ?sg)"
    "unat (0x70000000 :: u64) + unat (sg_vmsize ?sg) + 0xFFF \<le> 2 ^ 32"
    "ke_alloc sample_env (kn_heap ?k) (unat (sg_vmsize ?sg)) = Some 0x9000"
    "unat (0x9000 :: u64) + unat (sg_vmsize ?sg) + 0x1FFF < 2 ^ 48"
    "0x70000 = unat (0x70000000 :: u64) div 0x1000" "0x70000 = (unat (0x70000000 :: u64) + unat (sg_vmsize ?sg) - 1) div 0x1000"
    "unat (sg_fileoff ?sg) + unat (sg_filesize ?sg) \<le> length [1, 2, 3, 4 :: u8]" "sg_filesize ?sg \<le> sg_vmsize ?sg"
    by (simp_all add: k)
  have l1: "l1_valid (ke_layout sample_env) (vm_mmu (kn_vm ?k)) i" if "(0x70000 :: nat) div 2 ^ 18 \<le> i" "i \<le> 0x70000 div 2 ^ 18" for i
    using that sample_tables(2) by (simp add: k)
  have room: "mm_l3_alloc_idx (vm_mmu (kn_vm ?k)) + 2 * (1 + (0x70000 div 512 - 0x70000 div 512)) \<le> 255"
    using sample_tables(3) by (simp add: k)
  obtain k' where r: "load_segment sample_env [1, 2, 3, 4] 0x70000000 ?sg ?k = (Ok (), k')"
    "\<And>i. i < unat (sg_vmsize ?sg) \<Longrightarrow> \<exists>q. phys_addr (ke_layout sample_env) (vm_mmu (kn_vm k')) (0x70000000 + of_nat i) = Some (q, page_flags UserRWX) \<and>
       vm_phys (kn_vm k') q = (if i < unat (sg_filesize ?sg) then [1, 2, 3, 4] ! (unat (sg_fileoff ?sg) + i) else 0)"
    using segment_image [OF t(2,1) n(1-4) f n(5) h n(6,7) l1 room n(8,9)] by blast
  have u: "unat (sg_vmsize ?sg) = 0x1000" "unat (sg_filesize ?sg) = 2" "unat (sg_fileoff ?sg) = 1" by simp_all
  have v: "[1, 2, 3, 4 :: u8] ! (1 + 1) = 3" "(1 :: nat) < 2" "(1 :: nat) < 0x1000" "0x70000000 + of_nat 1 = (0x70000001 :: u64)"
    by simp_all
  from r(2) [of 1, unfolded u k(3) v(1,4) if_P [OF v(2)], OF v(3)]
  have "\<exists>q. phys_addr sample_layout (vm_mmu (kn_vm k')) 0x70000001 = Some (q, page_flags UserRWX) \<and> vm_phys (kn_vm k') q = 3" .
  with r(1) show ?thesis by blast
qed

end
