(* ===== verification/Mem.thy ===== *)
theory Mem
  imports Prelude
begin

text \<open>
  The memory functions that the compiler and the Mach-O code call (\<open>src/src/kernel/src/mem.rs\<close>, and the
  same functions in \<open>src/src/lib/dyld/src/main.rs\<close>), on a flat byte memory. A pointer is a \<open>u64\<close>; \<open>add\<close> on it
  does not leave the address space.
\<close>

type_synonym memory = "u64 \<Rightarrow> u8"

section \<open>Copying\<close>

text \<open>The loop of \<open>memcpy\<close>: \<open>k\<close> bytes are left, from index \<open>i\<close> on.\<close>

fun copy_up :: "u64 \<Rightarrow> u64 \<Rightarrow> nat \<Rightarrow> nat \<Rightarrow> memory \<Rightarrow> memory" where
  "copy_up dest src i 0 m = m"
| "copy_up dest src i (Suc k) m = copy_up dest src (i + 1) k (m(dest + of_nat i := m (src + of_nat i)))"

definition memcpy :: "u64 \<Rightarrow> u64 \<Rightarrow> nat \<Rightarrow> memory \<Rightarrow> memory" where
  "memcpy dest src n m = copy_up dest src 0 n m"

text \<open>The other loop of \<open>memmove\<close>, from the end.\<close>

fun copy_down :: "u64 \<Rightarrow> u64 \<Rightarrow> nat \<Rightarrow> memory \<Rightarrow> memory" where
  "copy_down dest src 0 m = m"
| "copy_down dest src (Suc i) m = copy_down dest src i (m(dest + of_nat i := m (src + of_nat i)))"

definition memmove :: "u64 \<Rightarrow> u64 \<Rightarrow> nat \<Rightarrow> memory \<Rightarrow> memory" where
  "memmove dest src n m = (if dest < src then memcpy dest src n m else copy_down dest src n m)"

fun fill_up :: "u64 \<Rightarrow> u8 \<Rightarrow> nat \<Rightarrow> nat \<Rightarrow> memory \<Rightarrow> memory" where
  "fill_up s c i 0 m = m"
| "fill_up s c i (Suc k) m = fill_up s c (i + 1) k (m(s + of_nat i := c))"

definition memset :: "u64 \<Rightarrow> i32 \<Rightarrow> nat \<Rightarrow> memory \<Rightarrow> memory" where
  "memset s c n m = fill_up s (ucast c) 0 n m"

definition bzero :: "u64 \<Rightarrow> nat \<Rightarrow> memory \<Rightarrow> memory" where
  "bzero s n m = memset s 0 n m"

section \<open>Comparing and measuring\<close>

fun compare_up :: "u64 \<Rightarrow> u64 \<Rightarrow> nat \<Rightarrow> nat \<Rightarrow> memory \<Rightarrow> int" where
  "compare_up s1 s2 i 0 m = 0"
| "compare_up s1 s2 i (Suc k) m =
     (let a = m (s1 + of_nat i); b = m (s2 + of_nat i) in
      if a \<noteq> b then uint a - uint b else compare_up s1 s2 (i + 1) k m)"

definition memcmp :: "u64 \<Rightarrow> u64 \<Rightarrow> nat \<Rightarrow> memory \<Rightarrow> int" where
  "memcmp s1 s2 n m = compare_up s1 s2 0 n m"

text \<open>\<open>strlen\<close> ends at the first zero only.\<close>

partial_function (option) strlen_from :: "u64 \<Rightarrow> memory \<Rightarrow> nat \<Rightarrow> nat option" where
  "strlen_from s m n = (if m (s + of_nat n) = 0 then Some n else strlen_from s m (n + 1))"

definition c_strlen :: "u64 \<Rightarrow> memory \<Rightarrow> nat option" where
  "c_strlen s m = strlen_from s m 0"

section \<open>What they do\<close>

definition bytes_in :: "memory \<Rightarrow> u64 \<Rightarrow> nat \<Rightarrow> bytes" where
  "bytes_in m a n = map (\<lambda>i. m (a + of_nat i)) [0..<n]"

definition outside :: "u64 \<Rightarrow> nat \<Rightarrow> u64 \<Rightarrow> bool" where
  "outside a n x \<longleftrightarrow> (\<forall>i < n. x \<noteq> a + of_nat i)"

lemma unat_plus: "unat (a :: u64) + i < 2 ^ 64 \<Longrightarrow> unat (a + of_nat i) = unat a + i"
  by (simp add: unat_word_ariths unat_of_nat take_bit_nat_eq_self)

lemma address_eq:
  "unat (a :: u64) + i < 2 ^ 64 \<Longrightarrow> unat b + j < 2 ^ 64 \<Longrightarrow> a + of_nat i = b + of_nat j \<longleftrightarrow> unat a + i = unat b + j"
  by (simp add: word_unat_eq_iff unat_plus)

lemma copy_up_ok:
  assumes "dest < src" and "unat src + i + k \<le> 2 ^ 64"
  shows "(\<forall>j. i \<le> j \<and> j < i + k \<longrightarrow> copy_up dest src i k m (dest + of_nat j) = m (src + of_nat j)) \<and>
    (\<forall>x. (\<forall>j. i \<le> j \<and> j < i + k \<longrightarrow> x \<noteq> dest + of_nat j) \<longrightarrow> copy_up dest src i k m x = m x)"
  using assms(2)
proof (induction k arbitrary: i m)
  case 0
  then show ?case by auto
next
  case (Suc k)
  have lt: "unat dest < unat src" using assms(1) by (simp add: word_less_nat_alt)
  let ?m = "m(dest + of_nat i := m (src + of_nat i))"
  have src: "?m (src + of_nat j) = m (src + of_nat j)" if "i < j" "j < i + Suc k" for j
  proof -
    have "src + of_nat j \<noteq> dest + of_nat i"
      using that lt Suc.prems address_eq [of src j dest i] by simp
    then show ?thesis by simp
  qed
  have dest: "dest + of_nat i \<noteq> dest + of_nat j" if "i < j" "j < i + Suc k" for j
    using that lt Suc.prems address_eq [of dest i dest j] by simp
  have p: "unat src + (i + 1) + k \<le> 2 ^ 64" using Suc.prems by simp
  have ih: "\<forall>j. i + 1 \<le> j \<and> j < i + 1 + k \<longrightarrow> copy_up dest src (i + 1) k ?m (dest + of_nat j) = ?m (src + of_nat j)"
    "\<forall>x. (\<forall>j. i + 1 \<le> j \<and> j < i + 1 + k \<longrightarrow> x \<noteq> dest + of_nat j) \<longrightarrow> copy_up dest src (i + 1) k ?m x = ?m x"
    using Suc.IH [OF p, of ?m] by blast+
  show ?case
  proof (intro conjI allI impI)
    fix j
    assume j: "i \<le> j \<and> j < i + Suc k"
    show "copy_up dest src i (Suc k) m (dest + of_nat j) = m (src + of_nat j)"
    proof (cases "j = i")
      case True
      have "\<forall>j. i + 1 \<le> j \<and> j < i + 1 + k \<longrightarrow> dest + of_nat i \<noteq> dest + of_nat j" using dest by simp
      with ih(2) have "copy_up dest src (i + 1) k ?m (dest + of_nat i) = ?m (dest + of_nat i)" by blast
      then show ?thesis by (simp add: True)
    next
      case False
      then have "copy_up dest src (i + 1) k ?m (dest + of_nat j) = ?m (src + of_nat j)" using ih(1) j by simp
      then show ?thesis using src [of j] False j by (simp del: fun_upd_apply)
    qed
  next
    fix x
    assume x: "\<forall>j. i \<le> j \<and> j < i + Suc k \<longrightarrow> x \<noteq> dest + of_nat j"
    then have "copy_up dest src (i + 1) k ?m x = ?m x" using ih(2) by simp
    moreover have "x \<noteq> dest + of_nat i" using x by simp
    ultimately show "copy_up dest src i (Suc k) m x = m x" by simp
  qed
qed

lemma copy_down_ok:
  assumes "src \<le> dest" and "unat dest + n \<le> 2 ^ 64"
  shows "(\<forall>j < n. copy_down dest src n m (dest + of_nat j) = m (src + of_nat j)) \<and>
    (\<forall>x. outside dest n x \<longrightarrow> copy_down dest src n m x = m x)"
  using assms(2)
proof (induction n arbitrary: m)
  case 0
  then show ?case by simp
next
  case (Suc n)
  have le: "unat src \<le> unat dest" using assms(1) by (simp add: word_le_nat_alt)
  let ?m = "m(dest + of_nat n := m (src + of_nat n))"
  have src: "?m (src + of_nat j) = m (src + of_nat j)" if "j < n" for j
  proof -
    have "src + of_nat j \<noteq> dest + of_nat n"
      using that le Suc.prems address_eq [of src j dest n] by simp
    then show ?thesis by simp
  qed
  have "outside dest n (dest + of_nat n)"
    using Suc.prems address_eq [of dest n dest] by (auto simp: outside_def)
  moreover have ih: "\<forall>j < n. copy_down dest src n ?m (dest + of_nat j) = ?m (src + of_nat j)"
    "\<forall>x. outside dest n x \<longrightarrow> copy_down dest src n ?m x = ?m x"
  proof -
    have p: "unat dest + n \<le> 2 ^ 64" using Suc.prems by simp
    show "\<forall>j < n. copy_down dest src n ?m (dest + of_nat j) = ?m (src + of_nat j)"
      "\<forall>x. outside dest n x \<longrightarrow> copy_down dest src n ?m x = ?m x"
      using Suc.IH [OF p, of ?m] by blast+
  qed
  ultimately have "copy_down dest src n ?m (dest + of_nat n) = ?m (dest + of_nat n)" by blast
  then have "copy_down dest src n ?m (dest + of_nat n) = m (src + of_nat n)" by simp
  moreover have "copy_down dest src n ?m x = m x" if "outside dest (Suc n) x" for x
  proof -
    have "outside dest n x" "x \<noteq> dest + of_nat n" using that by (simp_all add: outside_def)
    then show ?thesis using ih(2) by simp
  qed
  ultimately show ?case
    using ih(1) src by (simp add: less_Suc_eq all_conj_distrib del: fun_upd_apply)
qed

lemma memmove_ok:
  assumes "unat dest + n \<le> 2 ^ 64" and "unat src + n \<le> 2 ^ 64"
  shows "bytes_in (memmove dest src n m) dest n = bytes_in m src n \<and>
    (\<forall>x. outside dest n x \<longrightarrow> memmove dest src n m x = m x)"
proof (cases "dest < src")
  case True
  then show ?thesis
    using copy_up_ok [OF True, of 0 n m] assms
    by (auto simp: memmove_def memcpy_def bytes_in_def outside_def)
next
  case False
  then show ?thesis
    using copy_down_ok [of src dest n m] assms by (auto simp: memmove_def bytes_in_def)
qed

lemma fill_up_ok:
  "unat s + i + k \<le> 2 ^ 64 \<Longrightarrow>
   fill_up s c i k m x = (if \<exists>j. i \<le> j \<and> j < i + k \<and> x = s + of_nat j then c else m x)"
proof (induction k arbitrary: i m)
  case 0
  then show ?case by auto
next
  case (Suc k)
  have "(\<exists>j. i \<le> j \<and> j < i + Suc k \<and> x = s + of_nat j) \<longleftrightarrow>
      x = s + of_nat i \<or> (\<exists>j. i + 1 \<le> j \<and> j < i + 1 + k \<and> x = s + of_nat j)"
    by (metis Suc_eq_plus1 Suc_leI add_Suc_right add_Suc le_eq_less_or_eq less_add_Suc1 order_refl Suc_leD)
  then show ?case using Suc.IH [of "i + 1"] Suc.prems by auto
qed

text \<open>The first index at which two strings of bytes differ.\<close>

definition first_difference :: "memory \<Rightarrow> u64 \<Rightarrow> u64 \<Rightarrow> nat \<Rightarrow> nat option" where
  "first_difference m s1 s2 n = find (\<lambda>i. m (s1 + of_nat i) \<noteq> m (s2 + of_nat i)) [0..<n]"

lemma compare_up_find:
  "compare_up s1 s2 i k m = (case find (\<lambda>i. m (s1 + of_nat i) \<noteq> m (s2 + of_nat i)) [i..<i + k] of
     None \<Rightarrow> 0 | Some j \<Rightarrow> uint (m (s1 + of_nat j)) - uint (m (s2 + of_nat j)))"
proof (induction k arbitrary: i)
  case 0
  then show ?case by simp
next
  case (Suc k)
  have "[i..<i + Suc k] = i # [i + 1..<i + 1 + k]" by (simp add: upt_conv_Cons)
  then show ?case using Suc.IH [of "i + 1"] by (simp add: Let_def)
qed

lemma first_difference_facts:
  "first_difference m s1 s2 n = None \<longleftrightarrow> bytes_in m s1 n = bytes_in m s2 n"
  "first_difference m s1 s2 n = Some i \<longleftrightarrow> i < n \<and> m (s1 + of_nat i) \<noteq> m (s2 + of_nat i) \<and>
     (\<forall>j < i. m (s1 + of_nat j) = m (s2 + of_nat j))"
  by (auto simp: first_difference_def find_None_iff find_Some_iff bytes_in_def)

lemma strlen_from_ok:
  "m (s + of_nat k) = 0 \<Longrightarrow> n \<le> k \<Longrightarrow> (\<And>i. n \<le> i \<Longrightarrow> i < k \<Longrightarrow> m (s + of_nat i) \<noteq> 0) \<Longrightarrow> strlen_from s m n = Some k"
proof (induction "k - n" arbitrary: n)
  case 0
  then show ?case by (simp add: strlen_from.simps)
next
  case (Suc d)
  then have "n < k" by simp
  then have "strlen_from s m (n + 1) = Some k" using Suc by (intro Suc.hyps(1)) auto
  then show ?case using Suc.prems \<open>n < k\<close> by (subst strlen_from.simps) auto
qed

text \<open>C28: \<open>memmove\<close> moves the bytes of the source as they were before, whichever way the two ranges overlap, and
  changes nothing outside of the destination.\<close>

theorem memmove_moves:
  assumes "unat dest + n \<le> 2 ^ 64" and "unat src + n \<le> 2 ^ 64"
  shows "bytes_in (memmove dest src n m) dest n = bytes_in m src n \<and>
    (\<forall>x. outside dest n x \<longrightarrow> memmove dest src n m x = m x)"
  using memmove_ok [OF assms] .

text \<open>Three bytes moved up by one over themselves.\<close>

theorem memmove_moves_witness:
  "bytes_in (memmove 0x1001 0x1000 3 (\<lambda>a. ucast a)) 0x1001 3 = [0, 1, 2]"
proof -
  have "bytes_in (\<lambda>a :: u64. ucast a) 0x1000 3 = [0, 1, 2]"
    by (simp add: bytes_in_def numeral_3_eq_3)
  with memmove_moves [of "0x1001" 3 "0x1000" "\<lambda>a. ucast a"] show ?thesis by simp
qed

end
