(* ===== verification/StdIo.thy ===== *)
theory StdIo
  imports Streams
begin

text \<open>
  What the host tools use of \<open>std::io\<close>: readers, writers and files as records of operations, exact and
  limited reads, the big endian readers and writers of the crate \<open>byteorder\<close>, a slice as a reader. The errors are those that
  the crate \<open>anyhow\<close> carries; a failed \<open>ensure!\<close> is one of them.
\<close>

section \<open>Operations\<close>

datatype std_error =
    UnexpectedEof
  | WriteZero
  | InvalidInput string
  | EnsureFailed
  | Malformed
  | OtherError

type_synonym 's std_reader = "nat \<Rightarrow> ('s, std_error, bytes) act"
type_synonym 's std_writer = "bytes \<Rightarrow> ('s, std_error, nat) act"

record 's std_file =
  sf_read :: "'s std_reader"
  sf_seek :: "seek_from \<Rightarrow> ('s, std_error, nat) act"

definition std_read_exact :: "'s std_reader \<Rightarrow> nat \<Rightarrow> ('s, std_error, bytes) act" where
  "std_read_exact rd n = fill_exact UnexpectedEof rd n"

definition std_write_all :: "'s std_writer \<Rightarrow> bytes \<Rightarrow> ('s, std_error, unit) act" where
  "std_write_all wr bs = drain WriteZero wr bs"

definition std_u32_be :: "'s std_reader \<Rightarrow> ('s, std_error, u32) act" where
  "std_u32_be rd = bnd (std_read_exact rd 4) (\<lambda>buf. ret (from_be buf))"

definition std_u64_be :: "'s std_reader \<Rightarrow> ('s, std_error, u64) act" where
  "std_u64_be rd = bnd (std_read_exact rd 8) (\<lambda>buf. ret (from_be buf))"

definition std_put_u32 :: "'s std_writer \<Rightarrow> u32 \<Rightarrow> ('s, std_error, unit) act" where
  "std_put_u32 wr w = std_write_all wr (to_be w)"

definition std_put_u64 :: "'s std_writer \<Rightarrow> u64 \<Rightarrow> ('s, std_error, unit) act" where
  "std_put_u64 wr w = std_write_all wr (to_be w)"

text \<open>\<open>ensure!\<close>.\<close>

definition ensure :: "bool \<Rightarrow> ('s, std_error, unit) act" where
  "ensure b = (if b then ret () else fail EnsureFailed)"

text \<open>
  \<open>r.take(n).read_to_end(&mut v)\<close>: up to \<open>n\<close> bytes, fewer at the end of the input. How much is asked for in
  one read is up to the standard library; here it is all that is left.
\<close>

function take_to_end :: "'s std_reader \<Rightarrow> nat \<Rightarrow> ('s, std_error, bytes) act" where
  "take_to_end rd n =
     (if n = 0 then ret []
      else bnd (rd n) (\<lambda>bs.
        if bs = [] then ret []
        else if n < length bs then panic
        else bnd (take_to_end rd (n - length bs)) (\<lambda>cs. ret (bs @ cs))))"
  by pat_completeness auto
termination
  by (relation "measure (\<lambda>(rd, n). n)") auto

declare take_to_end.simps [simp del]

text \<open>\<open>impl Read for &[u8]\<close> and \<open>impl Write for Vec<u8>\<close>.\<close>

definition slice_read :: "bytes std_reader" where
  "slice_read n s = (Ok (take n s), drop n s)"

definition vec_put :: "bytes std_writer" where
  "vec_put bs v = (Ok (length bs), v @ bs)"

text \<open>Actions on one half of a pair of states, and \<open>slice::chunks\<close>.\<close>

definition on_fst :: "('s, 'e, 'a) act \<Rightarrow> ('s \<times> 't, 'e, 'a) act" where
  "on_fst m = (\<lambda>(s, t). case m s of (r, s') \<Rightarrow> (r, (s', t)))"

definition on_snd :: "('t, 'e, 'a) act \<Rightarrow> ('s \<times> 't, 'e, 'a) act" where
  "on_snd m = (\<lambda>(s, t). case m t of (r, t') \<Rightarrow> (r, (s, t')))"

function pieces :: "nat \<Rightarrow> 'a list \<Rightarrow> 'a list list" where
  "pieces k xs = (if xs = [] \<or> k = 0 then [] else take k xs # pieces k (drop k xs))"
  by pat_completeness auto
termination
  by (relation "measure (\<lambda>(k, xs). length xs)") auto

declare pieces.simps [simp del]

lemma pieces_simps:
  "pieces k [] = []"
  "xs \<noteq> [] \<Longrightarrow> 0 < k \<Longrightarrow> pieces k xs = take k xs # pieces k (drop k xs)"
  by (simp_all add: pieces.simps [of k])

lemma concat_pieces: "0 < k \<Longrightarrow> concat (pieces k xs) = xs"
proof (induction "length xs" arbitrary: xs rule: less_induct)
  case less
  then show ?case by (cases "xs = []") (simp_all add: pieces_simps)
qed

lemma pieces_facts:
  "0 < k \<Longrightarrow> m dvd k \<Longrightarrow> m dvd length xs \<Longrightarrow> p \<in> set (pieces k xs) \<Longrightarrow> m dvd length p \<and> p \<noteq> [] \<and> length p \<le> k"
proof (induction "length xs" arbitrary: xs rule: less_induct)
  case less
  show ?case
  proof (cases "xs = []")
    case True
    then show ?thesis using less.prems by (simp add: pieces_simps)
  next
    case False
    then consider "p = take k xs" | "p \<in> set (pieces k (drop k xs))"
      using less.prems by (auto simp: pieces_simps)
    then show ?thesis
    proof cases
      case 1
      then show ?thesis using less.prems False by (simp add: min_def)
    next
      case 2
      have "m dvd length (drop k xs)" using less.prems by (simp add: dvd_diff_nat)
      then show ?thesis using less.hyps [of "drop k xs"] less.prems(1,2) 2 False by simp
    qed
  qed
qed

text \<open>\<open>map_err\<close>.\<close>

definition map_err :: "('e \<Rightarrow> 'f) \<Rightarrow> ('s, 'e, 'a) act \<Rightarrow> ('s, 'f, 'a) act" where
  "map_err g m = (\<lambda>s. case m s of
     (Ok a, s') \<Rightarrow> (Ok a, s') | (Err e, s') \<Rightarrow> (Err (g e), s') | (Panic, s') \<Rightarrow> (Panic, s') | (Loop, s') \<Rightarrow> (Loop, s'))"

section \<open>What they promise\<close>

locale std_source = source rd nxt for rd :: "'s std_reader" and nxt
begin

lemma reads_std_exact: "length bs = n \<Longrightarrow> reads nxt (std_read_exact rd n) bs bs"
  unfolding std_read_exact_def by (rule reads_fill)

lemma reads_std_u32: "reads nxt (std_u32_be rd) (to_be w) w"
  unfolding std_u32_be_def
  by (rule reads_map, rule reads_std_exact) (simp_all add: from_be_to_be)

lemma reads_std_u64: "reads nxt (std_u64_be rd) (to_be w) w"
  unfolding std_u64_be_def
  by (rule reads_map, rule reads_std_exact) (simp_all add: from_be_to_be)

lemma take_to_end_next:
  "nxt s bs \<Longrightarrow> n \<le> length bs \<Longrightarrow>
   \<exists>s'. take_to_end rd n s = (Ok (take n bs), s') \<and> nxt s' (drop n bs)"
proof (induction n arbitrary: s bs rule: less_induct)
  case (less n)
  show ?case
  proof (cases "n = 0")
    case True
    with less.prems show ?thesis by (simp add: take_to_end.simps [of rd 0] ret_run)
  next
    case False
    with less.prems obtain k s' where k: "0 < k" "k \<le> n"
      and rd: "rd n s = (Ok (take k bs), s')" and nx: "nxt s' (drop k bs)"
      using rd_step [of s bs n] by auto
    from k less.prems(2) have "n - k < n" "n - k \<le> length (drop k bs)" by auto
    from less.IH [OF this(1) nx this(2)] obtain s'' where
      rec: "take_to_end rd (n - k) s' = (Ok (take (n - k) (drop k bs)), s'')" "nxt s'' (drop n bs)"
      using k by auto
    have "take k bs @ take (n - k) (drop k bs) = take n bs"
      using k by (metis le_add_diff_inverse take_add)
    moreover have "length (take k bs) = k" "take k bs \<noteq> []" using k less.prems(2) by auto
    ultimately show ?thesis using False k rec
      by (simp add: take_to_end.simps [of rd n] bnd_Ok [where m = "rd n", OF rd]
          bnd_Ok [where m = "take_to_end rd (n - k)", OF rec(1)] ret_run)
  qed
qed

end

locale std_sink = outlet wr out for wr :: "'s std_writer" and out :: "'s \<Rightarrow> bytes"
begin

lemma writes_std_all: "writes out (std_write_all wr bs) bs"
  using drain_appends by (simp add: writes_def std_write_all_def)

lemma writes_std_words:
  "writes out (std_put_u32 wr w32) (to_be w32)"
  "writes out (std_put_u64 wr w64) (to_be w64)"
  by (simp_all add: std_put_u32_def std_put_u64_def writes_std_all)

end

locale std_disk = random_access "sf_read dev" "sf_seek dev" content ready
  for dev :: "'s std_file" and content :: bytes and ready :: "'s \<Rightarrow> nat \<Rightarrow> bool"
begin

lemma std_exact_at:
  "ready s p \<Longrightarrow> p + n \<le> length content \<Longrightarrow>
   \<exists>s'. std_read_exact (sf_read dev) n s = (Ok (take n (drop p content)), s') \<and> ready s' (p + n)"
  unfolding std_read_exact_def by (rule fill_exact_at)

lemma take_to_end_at:
  assumes "ready s p" and "p + n \<le> length content"
  shows "\<exists>s' q. take_to_end (sf_read dev) n s = (Ok (take n (drop p content)), s') \<and> ready s' q"
proof -
  have src: "std_source (sf_read dev) (ahead content ready)" by (simp add: std_source_def ahead_source)
  have "ahead content ready s (drop p content)" using assms by (auto simp: ahead_def)
  moreover have "n \<le> length (drop p content)" using assms(2) by simp
  ultimately show ?thesis
    using std_source.take_to_end_next [OF src, of s "drop p content" n] unfolding ahead_def by blast
qed

end

lemma ensure_simps [simp]: "ensure True = ret ()" "ensure False = fail EnsureFailed"
  by (simp_all add: ensure_def)

section \<open>Instances\<close>

definition slice_next :: "bytes \<Rightarrow> bytes \<Rightarrow> bool" where
  "slice_next s bs \<longleftrightarrow> (\<exists>rest. s = bs @ rest)"

interpretation slice_source: std_source slice_read slice_next
proof unfold_locales
  fix s bs :: bytes and n :: nat
  assume "slice_next s bs" "0 < n" "n \<le> length bs"
  then show "\<exists>k s'. 0 < k \<and> k \<le> n \<and> slice_read n s = (Ok (take k bs), s') \<and> slice_next s' (drop k bs)"
    by (intro exI [of _ n]) (auto simp: slice_next_def slice_read_def)
qed

interpretation vec_out: std_sink vec_put "\<lambda>v. v"
  by unfold_locales (auto simp: vec_put_def)

text \<open>\<open>std::io::Cursor\<close> over bytes, at a position.\<close>

definition std_cursor :: "(bytes \<times> nat) std_file" where
  "std_cursor = \<lparr>
     sf_read = (\<lambda>n (d, p). let bs = take n (drop p d) in (Ok bs, (d, p + length bs))),
     sf_seek = (\<lambda>w (d, p).
       let to = (case w of Start n \<Rightarrow> int n | Current i \<Rightarrow> int p + i | End i \<Rightarrow> int (length d) + i)
       in if 0 \<le> to \<and> to < 2 ^ 64 then (Ok (nat to), (d, nat to))
          else (Err (InvalidInput ''invalid seek to a negative or overflowing position''), (d, p)))\<rparr>"

definition std_cursor_ready :: "bytes \<Rightarrow> bytes \<times> nat \<Rightarrow> nat \<Rightarrow> bool" where
  "std_cursor_ready content s p \<longleftrightarrow> s = (content, p) \<and> length content < 2 ^ 64"

interpretation std_cursor_disk: std_disk std_cursor content "std_cursor_ready content" for content
proof unfold_locales
  fix s p q
  assume "std_cursor_ready content s p" "q \<le> length content"
  then show "\<exists>s'. sf_seek std_cursor (Start q) s = (Ok q, s') \<and> std_cursor_ready content s' q"
    by (auto simp: std_cursor_ready_def std_cursor_def)
next
  fix s p n
  assume "std_cursor_ready content s p" "0 < n" "p + n \<le> length content"
  then show "\<exists>k s'. 0 < k \<and> k \<le> n \<and> sf_read std_cursor n s = (Ok (take k (drop p content)), s') \<and>
      std_cursor_ready content s' (p + k)"
    by (intro exI [of _ n]) (auto simp: std_cursor_ready_def std_cursor_def)
qed

lemma std_cursor_seek_end:
  "n \<le> length d \<Longrightarrow> length d < 2 ^ 64 \<Longrightarrow> sf_seek std_cursor (End (- int n)) (d, p) = (Ok (length d - n), (d, length d - n))"
  by (auto simp: std_cursor_def Let_def nat_diff_distrib)

end
