(* ===== verification/Udif.thy ===== *)
theory Udif
  imports StdIo
begin

text \<open>
  The structures of an Apple disk image: checksums and the trailer (\<open>src/src/lib/apple-dmg/koly.rs\<close>), block
  tables and chunks (\<open>blkx.rs\<close>), the property list (\<open>xml.rs\<close>), with the encodings that their writers produce
  and their readers accept.
\<close>

section \<open>Checksums\<close>

record udif_checksum =
  uc_type :: u32
  uc_size :: u32
  uc_data :: bytes

text \<open>\<open>default\<close> and \<open>new\<close>.\<close>

definition uc_default :: udif_checksum where
  "uc_default = \<lparr>uc_type = 2, uc_size = 32, uc_data = replicate 128 0\<rparr>"

definition uc_new :: "u32 \<Rightarrow> udif_checksum" where
  "uc_new crc = uc_default\<lparr>uc_data := to_be crc @ replicate 124 0\<rparr>"

text \<open>\<open>impl From<UdifChecksum> for u32\<close>.\<close>

definition uc_value :: "udif_checksum \<Rightarrow> u32" where
  "uc_value c = from_be (take 4 (uc_data c))"

definition uc_read_from :: "'s std_reader \<Rightarrow> ('s, std_error, udif_checksum) act" where
  "uc_read_from rd =
     bnd (std_u32_be rd) (\<lambda>type.
     bnd (std_u32_be rd) (\<lambda>size.
     bnd (std_read_exact rd 128) (\<lambda>data.
     ret \<lparr>uc_type = type, uc_size = size, uc_data = data\<rparr>)))"

definition uc_layout :: "udif_checksum \<Rightarrow> bytes" where
  "uc_layout x = concat
     [to_be (uc_type x),
      to_be (uc_size x),
      uc_data x]"

definition uc_write_to :: "udif_checksum \<Rightarrow> 's std_writer \<Rightarrow> ('s, std_error, unit) act" where
  "uc_write_to x wr =
     bnd (std_put_u32 wr (uc_type x)) (\<lambda>_.
     bnd (std_put_u32 wr (uc_size x)) (\<lambda>_.
     bnd (std_write_all wr (uc_data x)) (\<lambda>_.
     ret ())))"

section \<open>Chunks\<close>

datatype chunk_type = Zero | Raw | Ignore | Comment | Adc | Zlib | Bzlib | Lzfse | Term

fun chunk_type_u32 :: "chunk_type \<Rightarrow> u32" where
  "chunk_type_u32 Zero = 0"
| "chunk_type_u32 Raw = 1"
| "chunk_type_u32 Ignore = 2"
| "chunk_type_u32 Comment = 0x7ffffffe"
| "chunk_type_u32 Adc = 0x80000004"
| "chunk_type_u32 Zlib = 0x80000005"
| "chunk_type_u32 Bzlib = 0x80000006"
| "chunk_type_u32 Lzfse = 0x80000007"
| "chunk_type_u32 Term = 0xffffffff"

text \<open>\<open>ChunkType::from_u32\<close>, arm by arm.\<close>

definition chunk_type_from_u32 :: "u32 \<Rightarrow> chunk_type option" where
  "chunk_type_from_u32 x = find (\<lambda>t. x = chunk_type_u32 t) [Zero, Raw, Ignore, Comment, Adc, Zlib, Bzlib, Lzfse, Term]"

record blkx_chunk =
  bc_type :: u32
  bc_comment :: u32
  bc_sector_number :: u64
  bc_sector_count :: u64
  bc_compressed_offset :: u64
  bc_compressed_length :: u64

definition chunk_new :: "chunk_type \<Rightarrow> u64 \<Rightarrow> u64 \<Rightarrow> u64 \<Rightarrow> u64 \<Rightarrow> blkx_chunk" where
  "chunk_new ty sector_number sector_count compressed_offset compressed_length =
     \<lparr>bc_type = chunk_type_u32 ty, bc_comment = 0, bc_sector_number = sector_number, bc_sector_count = sector_count,
      bc_compressed_offset = compressed_offset, bc_compressed_length = compressed_length\<rparr>"

definition chunk_term :: "u64 \<Rightarrow> u64 \<Rightarrow> blkx_chunk" where
  "chunk_term sector_number compressed_offset = chunk_new Term sector_number 0 compressed_offset 0"

definition chunk_ty :: "blkx_chunk \<Rightarrow> chunk_type option" where
  "chunk_ty c = chunk_type_from_u32 (bc_type c)"

definition bc_read_from :: "'s std_reader \<Rightarrow> ('s, std_error, blkx_chunk) act" where
  "bc_read_from rd =
     bnd (std_u32_be rd) (\<lambda>type.
     bnd (std_u32_be rd) (\<lambda>comment.
     bnd (std_u64_be rd) (\<lambda>sector_number.
     bnd (std_u64_be rd) (\<lambda>sector_count.
     bnd (std_u64_be rd) (\<lambda>compressed_offset.
     bnd (std_u64_be rd) (\<lambda>compressed_length.
     ret \<lparr>bc_type = type, bc_comment = comment, bc_sector_number = sector_number, bc_sector_count = sector_count, bc_compressed_offset = compressed_offset, bc_compressed_length = compressed_length\<rparr>))))))"

definition bc_layout :: "blkx_chunk \<Rightarrow> bytes" where
  "bc_layout x = concat
     [to_be (bc_type x),
      to_be (bc_comment x),
      to_be (bc_sector_number x),
      to_be (bc_sector_count x),
      to_be (bc_compressed_offset x),
      to_be (bc_compressed_length x)]"

definition bc_write_to :: "blkx_chunk \<Rightarrow> 's std_writer \<Rightarrow> ('s, std_error, unit) act" where
  "bc_write_to x wr =
     bnd (std_put_u32 wr (bc_type x)) (\<lambda>_.
     bnd (std_put_u32 wr (bc_comment x)) (\<lambda>_.
     bnd (std_put_u64 wr (bc_sector_number x)) (\<lambda>_.
     bnd (std_put_u64 wr (bc_sector_count x)) (\<lambda>_.
     bnd (std_put_u64 wr (bc_compressed_offset x)) (\<lambda>_.
     bnd (std_put_u64 wr (bc_compressed_length x)) (\<lambda>_.
     ret ()))))))"

section \<open>Block tables\<close>

record blkx_table =
  bt_version :: u32
  bt_sector_number :: u64
  bt_sector_count :: u64
  bt_data_offset :: u64
  bt_buffers_needed :: u32
  bt_block_descriptors :: u32
  bt_reserved :: bytes
  bt_checksum :: udif_checksum
  bt_chunks :: "blkx_chunk list"

text \<open>\<open>new\<close> on top of \<open>default\<close>.\<close>

definition table_new :: "u32 \<Rightarrow> u64 \<Rightarrow> u32 \<Rightarrow> blkx_table" where
  "table_new index sector checksum =
     \<lparr>bt_version = 1, bt_sector_number = sector, bt_sector_count = 0, bt_data_offset = 0, bt_buffers_needed = 2056,
      bt_block_descriptors = index, bt_reserved = replicate 24 0, bt_checksum = uc_new checksum, bt_chunks = []\<rparr>"

text \<open>\<open>add_chunk\<close>: the chunk starts where the table ends; the sum of the sectors is checked.\<close>

definition add_chunk :: "blkx_chunk \<Rightarrow> blkx_table \<Rightarrow> blkx_table option" where
  "add_chunk chunk t =
     (if 2 ^ 64 \<le> unat (bt_sector_count t) + unat (bc_sector_count chunk) then None
      else Some (t\<lparr>bt_sector_count := bt_sector_count t + bc_sector_count chunk,
        bt_chunks := bt_chunks t @ [chunk\<lparr>bc_sector_number := bt_sector_count t\<rparr>]\<rparr>))"

definition MISH :: bytes where "MISH = [0x6D, 0x69, 0x73, 0x68]"

definition bt_read_from :: "'s std_reader \<Rightarrow> ('s, std_error, blkx_table) act" where
  "bt_read_from rd =
     bnd (std_read_exact rd 4) (\<lambda>signature.
     bnd (ensure (signature = MISH)) (\<lambda>_.
     bnd (std_u32_be rd) (\<lambda>version.
     bnd (std_u64_be rd) (\<lambda>sector_number.
     bnd (std_u64_be rd) (\<lambda>sector_count.
     bnd (std_u64_be rd) (\<lambda>data_offset.
     bnd (std_u32_be rd) (\<lambda>buffers_needed.
     bnd (std_u32_be rd) (\<lambda>block_descriptors.
     bnd (std_read_exact rd 24) (\<lambda>reserved.
     bnd (uc_read_from rd) (\<lambda>checksum.
     bnd (std_u32_be rd) (\<lambda>num_chunks.
     bnd (times_act (unat num_chunks) (bc_read_from rd)) (\<lambda>chunks.
     ret \<lparr>bt_version = version, bt_sector_number = sector_number, bt_sector_count = sector_count, bt_data_offset = data_offset, bt_buffers_needed = buffers_needed, bt_block_descriptors = block_descriptors, bt_reserved = reserved, bt_checksum = checksum, bt_chunks = chunks\<rparr>))))))))))))"

definition bt_layout :: "blkx_table \<Rightarrow> bytes" where
  "bt_layout x = concat
     [MISH,
      to_be (bt_version x),
      to_be (bt_sector_number x),
      to_be (bt_sector_count x),
      to_be (bt_data_offset x),
      to_be (bt_buffers_needed x),
      to_be (bt_block_descriptors x),
      bt_reserved x,
      uc_layout (bt_checksum x),
      to_be (of_nat (length (bt_chunks x)) :: u32),
      concat (map bc_layout (bt_chunks x))]"

definition bt_write_to :: "blkx_table \<Rightarrow> 's std_writer \<Rightarrow> ('s, std_error, unit) act" where
  "bt_write_to x wr =
     bnd (std_write_all wr MISH) (\<lambda>_.
     bnd (std_put_u32 wr (bt_version x)) (\<lambda>_.
     bnd (std_put_u64 wr (bt_sector_number x)) (\<lambda>_.
     bnd (std_put_u64 wr (bt_sector_count x)) (\<lambda>_.
     bnd (std_put_u64 wr (bt_data_offset x)) (\<lambda>_.
     bnd (std_put_u32 wr (bt_buffers_needed x)) (\<lambda>_.
     bnd (std_put_u32 wr (bt_block_descriptors x)) (\<lambda>_.
     bnd (std_write_all wr (bt_reserved x)) (\<lambda>_.
     bnd (uc_write_to (bt_checksum x) wr) (\<lambda>_.
     bnd (std_put_u32 wr (of_nat (length (bt_chunks x)))) (\<lambda>_.
     bnd (each_act (\<lambda>c. bc_write_to c wr) (bt_chunks x)) (\<lambda>_.
     ret ())))))))))))"

section \<open>The trailer\<close>

definition KOLY_SIZE :: nat where "KOLY_SIZE = 512"

definition KOLY :: bytes where "KOLY = [0x6B, 0x6F, 0x6C, 0x79]"

record koly_trailer =
  ko_version :: u32
  ko_flags :: u32
  ko_running_data_fork_offset :: u64
  ko_data_fork_offset :: u64
  ko_data_fork_length :: u64
  ko_resource_fork_offset :: u64
  ko_resource_fork_length :: u64
  ko_segment_number :: u32
  ko_segment_count :: u32
  ko_segment_id :: bytes
  ko_data_fork_digest :: udif_checksum
  ko_plist_offset :: u64
  ko_plist_length :: u64
  ko_reserved1 :: bytes
  ko_code_signature_offset :: u64
  ko_code_signature_size :: u64
  ko_reserved2 :: bytes
  ko_main_digest :: udif_checksum
  ko_image_variant :: u32
  ko_sector_count :: u64
  ko_reserved3 :: bytes

text \<open>\<open>KolyTrailer::new\<close> on top of \<open>default\<close>; the identifier is random.\<close>

definition koly_new :: "bytes \<Rightarrow> u64 \<Rightarrow> u64 \<Rightarrow> u64 \<Rightarrow> u64 \<Rightarrow> u32 \<Rightarrow> u32 \<Rightarrow> koly_trailer" where
  "koly_new segment_id data_fork_length sectors plist_offset plist_length data_digest main_digest =
     \<lparr>ko_version = 4, ko_flags = 1, ko_running_data_fork_offset = 0, ko_data_fork_offset = 0, ko_data_fork_length = data_fork_length, ko_resource_fork_offset = 0, ko_resource_fork_length = 0, ko_segment_number = 1, ko_segment_count = 1, ko_segment_id = segment_id, ko_data_fork_digest = uc_new data_digest, ko_plist_offset = plist_offset, ko_plist_length = plist_length, ko_reserved1 = replicate 64 0, ko_code_signature_offset = 0, ko_code_signature_size = 0, ko_reserved2 = replicate 40 0, ko_main_digest = uc_new main_digest, ko_image_variant = 1, ko_sector_count = sectors, ko_reserved3 = replicate 12 0\<rparr>"

text \<open>\<open>read_from\<close> at the start of the trailer, and with the seek to it.\<close>

definition koly_read_body :: "'s std_reader \<Rightarrow> ('s, std_error, koly_trailer) act" where
  "koly_read_body rd =
     bnd (std_read_exact rd 4) (\<lambda>signature.
     bnd (ensure (signature = KOLY)) (\<lambda>_.
     bnd (std_u32_be rd) (\<lambda>version.
     bnd (std_u32_be rd) (\<lambda>header_size.
     bnd (ensure (header_size = 512)) (\<lambda>_.
     bnd (std_u32_be rd) (\<lambda>flags.
     bnd (std_u64_be rd) (\<lambda>running_data_fork_offset.
     bnd (std_u64_be rd) (\<lambda>data_fork_offset.
     bnd (std_u64_be rd) (\<lambda>data_fork_length.
     bnd (std_u64_be rd) (\<lambda>resource_fork_offset.
     bnd (std_u64_be rd) (\<lambda>resource_fork_length.
     bnd (std_u32_be rd) (\<lambda>segment_number.
     bnd (std_u32_be rd) (\<lambda>segment_count.
     bnd (std_read_exact rd 16) (\<lambda>segment_id.
     bnd (uc_read_from rd) (\<lambda>data_fork_digest.
     bnd (std_u64_be rd) (\<lambda>plist_offset.
     bnd (std_u64_be rd) (\<lambda>plist_length.
     bnd (std_read_exact rd 64) (\<lambda>reserved1.
     bnd (std_u64_be rd) (\<lambda>code_signature_offset.
     bnd (std_u64_be rd) (\<lambda>code_signature_size.
     bnd (std_read_exact rd 40) (\<lambda>reserved2.
     bnd (uc_read_from rd) (\<lambda>main_digest.
     bnd (std_u32_be rd) (\<lambda>image_variant.
     bnd (std_u64_be rd) (\<lambda>sector_count.
     bnd (std_read_exact rd 12) (\<lambda>reserved3.
     ret \<lparr>ko_version = version, ko_flags = flags, ko_running_data_fork_offset = running_data_fork_offset, ko_data_fork_offset = data_fork_offset, ko_data_fork_length = data_fork_length, ko_resource_fork_offset = resource_fork_offset, ko_resource_fork_length = resource_fork_length, ko_segment_number = segment_number, ko_segment_count = segment_count, ko_segment_id = segment_id, ko_data_fork_digest = data_fork_digest, ko_plist_offset = plist_offset, ko_plist_length = plist_length, ko_reserved1 = reserved1, ko_code_signature_offset = code_signature_offset, ko_code_signature_size = code_signature_size, ko_reserved2 = reserved2, ko_main_digest = main_digest, ko_image_variant = image_variant, ko_sector_count = sector_count, ko_reserved3 = reserved3\<rparr>)))))))))))))))))))))))))"

definition koly_read_from :: "'s std_file \<Rightarrow> ('s, std_error, koly_trailer) act" where
  "koly_read_from dev = bnd (sf_seek dev (End (- int KOLY_SIZE))) (\<lambda>_. koly_read_body (sf_read dev))"

definition koly_layout :: "koly_trailer \<Rightarrow> bytes" where
  "koly_layout x = concat
     [KOLY,
      to_be (ko_version x),
      to_be (of_nat KOLY_SIZE :: u32),
      to_be (ko_flags x),
      to_be (ko_running_data_fork_offset x),
      to_be (ko_data_fork_offset x),
      to_be (ko_data_fork_length x),
      to_be (ko_resource_fork_offset x),
      to_be (ko_resource_fork_length x),
      to_be (ko_segment_number x),
      to_be (ko_segment_count x),
      ko_segment_id x,
      uc_layout (ko_data_fork_digest x),
      to_be (ko_plist_offset x),
      to_be (ko_plist_length x),
      ko_reserved1 x,
      to_be (ko_code_signature_offset x),
      to_be (ko_code_signature_size x),
      ko_reserved2 x,
      uc_layout (ko_main_digest x),
      to_be (ko_image_variant x),
      to_be (ko_sector_count x),
      ko_reserved3 x]"

definition koly_write_to :: "koly_trailer \<Rightarrow> 's std_writer \<Rightarrow> ('s, std_error, unit) act" where
  "koly_write_to x wr =
     bnd (std_write_all wr KOLY) (\<lambda>_.
     bnd (std_put_u32 wr (ko_version x)) (\<lambda>_.
     bnd (std_put_u32 wr (of_nat KOLY_SIZE)) (\<lambda>_.
     bnd (std_put_u32 wr (ko_flags x)) (\<lambda>_.
     bnd (std_put_u64 wr (ko_running_data_fork_offset x)) (\<lambda>_.
     bnd (std_put_u64 wr (ko_data_fork_offset x)) (\<lambda>_.
     bnd (std_put_u64 wr (ko_data_fork_length x)) (\<lambda>_.
     bnd (std_put_u64 wr (ko_resource_fork_offset x)) (\<lambda>_.
     bnd (std_put_u64 wr (ko_resource_fork_length x)) (\<lambda>_.
     bnd (std_put_u32 wr (ko_segment_number x)) (\<lambda>_.
     bnd (std_put_u32 wr (ko_segment_count x)) (\<lambda>_.
     bnd (std_write_all wr (ko_segment_id x)) (\<lambda>_.
     bnd (uc_write_to (ko_data_fork_digest x) wr) (\<lambda>_.
     bnd (std_put_u64 wr (ko_plist_offset x)) (\<lambda>_.
     bnd (std_put_u64 wr (ko_plist_length x)) (\<lambda>_.
     bnd (std_write_all wr (ko_reserved1 x)) (\<lambda>_.
     bnd (std_put_u64 wr (ko_code_signature_offset x)) (\<lambda>_.
     bnd (std_put_u64 wr (ko_code_signature_size x)) (\<lambda>_.
     bnd (std_write_all wr (ko_reserved2 x)) (\<lambda>_.
     bnd (uc_write_to (ko_main_digest x) wr) (\<lambda>_.
     bnd (std_put_u32 wr (ko_image_variant x)) (\<lambda>_.
     bnd (std_put_u64 wr (ko_sector_count x)) (\<lambda>_.
     bnd (std_write_all wr (ko_reserved3 x)) (\<lambda>_.
     ret ())))))))))))))))))))))))"

section \<open>Reading back\<close>

text \<open>The arrays of the structures have their lengths.\<close>

definition uc_ok :: "udif_checksum \<Rightarrow> bool" where
  "uc_ok c \<longleftrightarrow> length (uc_data c) = 128"

definition bt_ok :: "blkx_table \<Rightarrow> bool" where
  "bt_ok t \<longleftrightarrow> length (bt_reserved t) = 24 \<and> uc_ok (bt_checksum t) \<and> length (bt_chunks t) < 2 ^ 32"

definition koly_ok :: "koly_trailer \<Rightarrow> bool" where
  "koly_ok k \<longleftrightarrow> length (ko_segment_id k) = 16 \<and> uc_ok (ko_data_fork_digest k) \<and> length (ko_reserved1 k) = 64 \<and>
     length (ko_reserved2 k) = 40 \<and> uc_ok (ko_main_digest k) \<and> length (ko_reserved3 k) = 12"

lemma news_ok [simp]: "uc_ok (uc_new c)" "uc_ok uc_default" "bt_ok (table_new i s c)"
  "length sid = 16 \<Longrightarrow> koly_ok (koly_new sid a b p q d m)"
  by (simp_all add: uc_ok_def uc_new_def uc_default_def bt_ok_def table_new_def koly_ok_def koly_new_def)

lemma uc_value_new: "uc_value (uc_new crc) = crc"
  by (simp add: uc_value_def uc_new_def from_be_to_be)

lemma chunk_type_roundtrip: "chunk_type_from_u32 (chunk_type_u32 t) = Some t"
  by (cases t) (simp_all add: chunk_type_from_u32_def)

lemma length_uc_layout [layout_simps]: "uc_ok x \<Longrightarrow> length (uc_layout x) = 136"
  by (simp add: uc_layout_def uc_ok_def)

lemma length_koly_layout: "koly_ok x \<Longrightarrow> length (koly_layout x) = 512"
  by (simp add: koly_layout_def koly_ok_def length_uc_layout KOLY_def)

context std_source begin

lemmas std_rules = reads_done reads_bnd reads_std_u32 reads_std_u64 reads_std_exact

lemma reads_uc: "uc_ok x \<Longrightarrow> reads nxt (uc_read_from rd) (uc_layout x) x"
  unfolding uc_read_from_def uc_layout_def concat.simps uc_ok_def
  by (rule std_rules | simp)+

lemma reads_bc: "reads nxt (bc_read_from rd) (bc_layout x) x"
  unfolding bc_read_from_def bc_layout_def concat.simps
  by (rule std_rules | simp)+

lemma reads_bt:
  assumes "bt_ok x"
  shows "reads nxt (bt_read_from rd) (bt_layout x) x"
proof -
  have n: "length (bt_chunks x) = unat (of_nat (length (bt_chunks x)) :: u32)"
    using assms by (simp add: bt_ok_def unat_of_nat take_bit_nat_eq_self)
  have chunks: "reads nxt (times_act (unat (of_nat (length (bt_chunks x)) :: u32)) (bc_read_from rd))
      (concat (map bc_layout (bt_chunks x))) (bt_chunks x)"
    unfolding n [symmetric] by (rule reads_times) (rule reads_bc)
  have uc: "uc_ok (bt_checksum x)" "length (bt_reserved x) = 24" "length MISH = 4"
    using assms by (simp_all add: bt_ok_def MISH_def)
  show ?thesis
    unfolding bt_read_from_def bt_layout_def concat.simps
    apply (rule reads_bnd, rule reads_std_exact, rule uc(3))
    apply (simp only: ensure_simps simp_thms bnd_ret)
    by (rule std_rules reads_uc uc chunks | simp)+
qed

lemma reads_koly:
  assumes "koly_ok x"
  shows "reads nxt (koly_read_body rd) (koly_layout x) x"
proof -
  have ok: "length (ko_segment_id x) = 16" "uc_ok (ko_data_fork_digest x)" "length (ko_reserved1 x) = 64"
     "length (ko_reserved2 x) = 40" "uc_ok (ko_main_digest x)" "length (ko_reserved3 x) = 12" "length KOLY = 4"
    using assms by (simp_all add: koly_ok_def KOLY_def)
  have sz: "(of_nat KOLY_SIZE :: u32) = 512" by (simp add: KOLY_SIZE_def)
  show ?thesis
    unfolding koly_read_body_def koly_layout_def concat.simps sz
    apply (rule reads_bnd, rule reads_std_exact, rule ok(7))
    apply (simp only: ensure_simps simp_thms bnd_ret)
    apply (rule reads_bnd, rule reads_std_u32)
    apply (rule reads_bnd, rule reads_std_u32)
    apply (simp only: ensure_simps simp_thms bnd_ret)
    by (rule std_rules reads_uc ok | simp)+
qed

end

context std_sink begin

lemmas put_rules = writes_ret writes_bnd writes_std_words writes_std_all

lemma writes_uc: "writes out (uc_write_to x wr) (uc_layout x)"
  unfolding uc_write_to_def uc_layout_def concat.simps
  by (rule put_rules)+

lemma writes_bc: "writes out (bc_write_to x wr) (bc_layout x)"
  unfolding bc_write_to_def bc_layout_def concat.simps
  by (rule put_rules)+

lemma writes_bt: "writes out (bt_write_to x wr) (bt_layout x)"
  unfolding bt_write_to_def bt_layout_def concat.simps
  by (rule put_rules writes_uc writes_each writes_bc)+

lemma writes_koly: "writes out (koly_write_to x wr) (koly_layout x)"
  unfolding koly_write_to_def koly_layout_def concat.simps
  by (rule put_rules writes_uc)+

end

end
