(* ===== verification/Mbr.thy ===== *)
theory Mbr
  imports Prelude
begin

text \<open>The master boot record of a disk image (\<open>src/src/lib/apple-dmg/mbr.rs\<close>).\<close>

record part_record =
  pr_boot_indicator :: u8
  pr_start_head :: u8
  pr_start_sector :: u8
  pr_start_track :: u8
  pr_os_type :: u8
  pr_end_head :: u8
  pr_end_sector :: u8
  pr_end_track :: u8
  pr_lb_start :: u32
  pr_lb_len :: u32

definition part_record_default :: part_record where
  "part_record_default = \<lparr>pr_boot_indicator = 0, pr_start_head = 0, pr_start_sector = 0, pr_start_track = 0,
     pr_os_type = 0, pr_end_head = 0, pr_end_sector = 0, pr_end_track = 0, pr_lb_start = 0, pr_lb_len = 0\<rparr>"

definition new_protective :: "u32 option \<Rightarrow> part_record" where
  "new_protective size_sectors =
     \<lparr>pr_boot_indicator = 0, pr_start_head = 0, pr_start_sector = 2, pr_start_track = 0, pr_os_type = 0xEE,
      pr_end_head = 0xFF, pr_end_sector = 0xFF, pr_end_track = 0xFF, pr_lb_start = 1,
      pr_lb_len = (case size_sectors of Some n \<Rightarrow> n | None \<Rightarrow> 0xFFFFFFFF)\<rparr>"

text \<open>\<open>PartRecord::write_to\<close>: all sixteen bytes of its buffer.\<close>

definition part_bytes :: "part_record \<Rightarrow> bytes" where
  "part_bytes p =
     [pr_boot_indicator p, pr_start_head p, pr_start_sector p, pr_start_track p,
      pr_os_type p, pr_end_head p, pr_end_sector p, pr_end_track p]
     @ to_le (pr_lb_start p) @ to_le (pr_lb_len p)"

record protective_mbr =
  mbr_partitions :: "part_record list"

definition mbr_new :: protective_mbr where
  "mbr_new = \<lparr>mbr_partitions = replicate 4 part_record_default\<rparr>"

definition set_partition :: "nat \<Rightarrow> part_record \<Rightarrow> protective_mbr \<Rightarrow> protective_mbr" where
  "set_partition i p m = (if i < 4 then m\<lparr>mbr_partitions := (mbr_partitions m)[i := p]\<rparr> else m)"

text \<open>\<open>write_at k bs buf\<close> is a store to a slice of the buffer.\<close>

definition write_at :: "nat \<Rightarrow> bytes \<Rightarrow> bytes \<Rightarrow> bytes" where
  "write_at k bs buf = take k buf @ bs @ drop (k + length bs) buf"

fun write_parts :: "nat \<Rightarrow> part_record list \<Rightarrow> bytes \<Rightarrow> bytes" where
  "write_parts i [] buf = buf"
| "write_parts i (p # ps) buf = write_parts (i + 1) ps (write_at (446 + i * 16) (part_bytes p) buf)"

definition mbr_to_bytes :: "protective_mbr \<Rightarrow> bytes" where
  "mbr_to_bytes m = (write_parts 0 (mbr_partitions m) (replicate 512 0))[510 := 0x55, 511 := 0xAA]"

definition part_from :: "bytes \<Rightarrow> part_record" where
  "part_from p =
     \<lparr>pr_boot_indicator = p ! 0, pr_start_head = p ! 1, pr_start_sector = p ! 2, pr_start_track = p ! 3,
      pr_os_type = p ! 4, pr_end_head = p ! 5, pr_end_sector = p ! 6, pr_end_track = p ! 7,
      pr_lb_start = from_le (take 4 (drop 8 p)), pr_lb_len = from_le (take 4 (drop 12 p))\<rparr>"

definition mbr_from_bytes :: "bytes \<Rightarrow> string + protective_mbr" where
  "mbr_from_bytes bs =
     (if length bs < 512 then Inl ''buffer too small''
      else if bs ! 510 \<noteq> 0x55 \<or> bs ! 511 \<noteq> 0xAA then Inl ''invalid signature''
      else Inr \<lparr>mbr_partitions = map (\<lambda>i. part_from (take 16 (drop (446 + i * 16) bs))) [0..<4]\<rparr>)"

section \<open>Reading back\<close>

lemma length_part_bytes [simp]: "length (part_bytes p) = 16"
  by (simp add: part_bytes_def)

lemma part_from_bytes: "part_from (part_bytes p) = p"
proof -
  have w: "from_le (to_le w) = w" for w :: u32 by (rule from_le_to_le) simp
  have l: "length [a, b, c, d, e, f, g, h :: u8] = 8" for a b c d e f g h by simp
  show ?thesis by (simp add: part_from_def part_bytes_def w)
qed

lemma length_write_at [simp]: "k + length bs \<le> length buf \<Longrightarrow> length (write_at k bs buf) = length buf"
  by (simp add: write_at_def)

text \<open>The four entries, as a whole.\<close>

lemma write_parts_layout:
  "446 + (i + length ps) * 16 \<le> length buf \<Longrightarrow>
   write_parts i ps buf = take (446 + i * 16) buf @ concat (map part_bytes ps) @ drop (446 + (i + length ps) * 16) buf"
proof (induction ps arbitrary: i buf)
  case Nil
  then show ?case by simp
next
  case (Cons p ps)
  let ?buf = "write_at (446 + i * 16) (part_bytes p) buf"
  have "446 + (i + 1 + length ps) * 16 \<le> length ?buf" using Cons.prems by simp
  from Cons.IH [OF this] have "write_parts (i + 1) ps ?buf =
    take (446 + (i + 1) * 16) ?buf @ concat (map part_bytes ps) @ drop (446 + (i + 1 + length ps) * 16) ?buf" .
  moreover have "take (446 + (i + 1) * 16) ?buf = take (446 + i * 16) buf @ part_bytes p"
    using Cons.prems by (simp add: write_at_def min_def)
  moreover have "drop (446 + (i + 1 + length ps) * 16) ?buf = drop (446 + (i + 1 + length ps) * 16) buf"
    using Cons.prems by (simp add: write_at_def ac_simps)
  ultimately show ?case by simp
qed

lemma mbr_roundtrip:
  assumes "length (mbr_partitions m) = 4"
  shows "mbr_from_bytes (mbr_to_bytes m) = Inr m" and "length (mbr_to_bytes m) = 512"
proof -
  let ?ps = "mbr_partitions m" and ?z = "replicate 446 (0 :: u8)"
  have len: "length (concat (map part_bytes ?ps)) = 64"
    using assms by (simp add: length_concat o_def sum_list_triv)
  have "mbr_to_bytes m = (?z @ concat (map part_bytes ?ps) @ [0, 0])[510 := 0x55, 511 := 0xAA]"
    using write_parts_layout [of 0 ?ps "replicate 512 0"] assms by (simp add: mbr_to_bytes_def numeral_2_eq_2)
  then have b: "mbr_to_bytes m = ?z @ concat (map part_bytes ?ps) @ [0x55, 0xAA]"
    using len by (simp add: list_update_append)
  then show l: "length (mbr_to_bytes m) = 512" using len by simp
  obtain p q r t where ps: "?ps = [p, q, r, t]"
    using assms by (auto simp: numeral_eq_Suc length_Suc_conv)
  have "map (\<lambda>i. part_from (take 16 (drop (446 + i * 16) (mbr_to_bytes m)))) [0..<4] = ?ps"
    unfolding b ps by (simp add: upt_rec numeral_eq_Suc[symmetric] part_from_bytes)
  moreover have "mbr_to_bytes m ! 510 = 0x55" "mbr_to_bytes m ! 511 = 0xAA"
    unfolding b using len by (simp_all add: nth_append)
  ultimately show "mbr_from_bytes (mbr_to_bytes m) = Inr m"
    using l by (simp add: mbr_from_bytes_def)
qed

end
