(* ===== verification/Dmg.thy ===== *)
theory Dmg
  imports Udif Mbr Volume
begin

text \<open>
  Apple disk images (\<open>src/src/lib/apple-dmg/lib.rs\<close>, \<open>xml.rs\<close>): the reader of an image, the seekable reader of one of
  its partitions with its cache of chunks, and the writer. The property list as XML (crate \<open>plist\<close>), the compression
  (\<open>flate2\<close>) and the checksum (\<open>crc32fast\<close>) are parameters. A reader of a chunk is modelled by the bytes that it
  yields, which are read when the chunk is opened.
\<close>

section \<open>The property list\<close>

record dmg_part =
  pa_attributes :: string
  pa_cfname :: ustring
  pa_data :: bytes
  pa_id :: string
  pa_name :: ustring

record plist =
  pl_blkx :: "dmg_part list"
  pl_plst :: "dmg_part list"

definition plist_default :: plist where
  "plist_default = \<lparr>pl_blkx = [], pl_plst = []\<rparr>"

definition plist_add :: "dmg_part \<Rightarrow> plist \<Rightarrow> plist" where
  "plist_add p x = x\<lparr>pl_blkx := pl_blkx x @ [p]\<rparr>"

text \<open>\<open>Partition::new\<close> and \<open>Partition::table\<close>.\<close>

definition part_new :: "int \<Rightarrow> ustring \<Rightarrow> blkx_table \<Rightarrow> ('s, std_error, dmg_part) act" where
  "part_new i name table =
     (case bt_write_to table vec_put [] of
        (Ok _, v) \<Rightarrow> ret \<lparr>pa_attributes = ''0x0050'', pa_cfname = name, pa_data = v, pa_id = show_int i, pa_name = name\<rparr>
      | _ \<Rightarrow> panic)"

definition part_table :: "dmg_part \<Rightarrow> ('s, std_error, blkx_table) act" where
  "part_table p = pure_res (fst (bt_read_from slice_read (pa_data p)))"

section \<open>Reading an image\<close>

definition dmg_new :: "'s std_file \<Rightarrow> (bytes \<Rightarrow> plist option) \<Rightarrow> ('s, std_error, koly_trailer \<times> plist) act" where
  "dmg_new dev parse =
     bnd (koly_read_from dev) (\<lambda>koly.
     bnd (sf_seek dev (Start (unat (ko_plist_offset koly)))) (\<lambda>_.
     bnd (take_to_end (sf_read dev) (unat (ko_plist_length koly))) (\<lambda>xml.
     case parse xml of None \<Rightarrow> fail Malformed | Some p \<Rightarrow> ret (koly, p))))"

text \<open>\<open>sector_count * 512\<close>.\<close>

definition chunk_size :: "blkx_chunk \<Rightarrow> ('s, std_error, nat) act" where
  "chunk_size c = checked64 (unat (bc_sector_count c) * 512)"

definition compressed_bytes :: "'s std_file \<Rightarrow> blkx_chunk \<Rightarrow> ('s, std_error, bytes) act" where
  "compressed_bytes dev c =
     bnd (sf_seek dev (Start (unat (bc_compressed_offset c)))) (\<lambda>_.
     take_to_end (sf_read dev) (unat (bc_compressed_length c)))"

definition inflate_chunk :: "'s std_file \<Rightarrow> (bytes \<Rightarrow> bytes option) \<Rightarrow> blkx_chunk \<Rightarrow> ('s, std_error, bytes) act" where
  "inflate_chunk dev inflate c =
     bnd (compressed_bytes dev c) (\<lambda>z.
     case inflate z of None \<Rightarrow> fail Malformed | Some d \<Rightarrow> ret d)"

definition sector_bytes :: "'s std_file \<Rightarrow> (bytes \<Rightarrow> bytes option) \<Rightarrow> blkx_chunk \<Rightarrow> ('s, std_error, bytes) act" where
  "sector_bytes dev inflate c =
     (case chunk_ty c of
        None \<Rightarrow> panic
      | Some ty \<Rightarrow>
         (case ty of
            Ignore \<Rightarrow> bnd (chunk_size c) (\<lambda>n. ret (replicate n 0))
          | Zero \<Rightarrow> bnd (chunk_size c) (\<lambda>n. ret (replicate n 0))
          | Comment \<Rightarrow> ret []
          | Raw \<Rightarrow> compressed_bytes dev c
          | Zlib \<Rightarrow> inflate_chunk dev inflate c
          | Term \<Rightarrow> ret []
          | Adc \<Rightarrow> panic | Bzlib \<Rightarrow> panic | Lzfse \<Rightarrow> panic))"

definition data_checksum :: "'s std_file \<Rightarrow> (bytes \<Rightarrow> u32) \<Rightarrow> koly_trailer \<Rightarrow> ('s, std_error, u32) act" where
  "data_checksum dev crc koly =
     bnd (sf_seek dev (Start (unat (ko_data_fork_offset koly)))) (\<lambda>_.
     bnd (take_to_end (sf_read dev) (unat (ko_data_fork_length koly))) (\<lambda>d. ret (crc d)))"

text \<open>\<open>partitions()[i].table()\<close>.\<close>

definition partition_table :: "plist \<Rightarrow> nat \<Rightarrow> ('s, std_error, blkx_table) act" where
  "partition_table x i = (if length (pl_blkx x) \<le> i then panic else part_table (pl_blkx x ! i))"

definition partition_name :: "plist \<Rightarrow> nat \<Rightarrow> ('s, std_error, ustring) act" where
  "partition_name x i = (if length (pl_blkx x) \<le> i then panic else ret (pa_name (pl_blkx x ! i)))"

definition partition_data ::
  "'s std_file \<Rightarrow> (bytes \<Rightarrow> bytes option) \<Rightarrow> plist \<Rightarrow> nat \<Rightarrow> ('s, std_error, bytes) act" where
  "partition_data dev inflate x i =
     bnd (partition_table x i) (\<lambda>table.
     bnd (map_act (sector_bytes dev inflate) (bt_chunks table)) (\<lambda>bss. ret (concat bss)))"

text \<open>\<open>copy_partition_to\<close>: pieces of at most a megabyte, chunk by chunk; the bytes written.\<close>

fun copy_chunks ::
  "'s std_file \<Rightarrow> (bytes \<Rightarrow> bytes option) \<Rightarrow> 'w std_writer \<Rightarrow> blkx_chunk list \<Rightarrow> nat \<Rightarrow>
   ('s \<times> 'w, std_error, nat) act" where
  "copy_chunks dev inflate wr [] n = ret n"
| "copy_chunks dev inflate wr (c # cs) n =
     bnd (on_fst (sector_bytes dev inflate c)) (\<lambda>bs.
     bnd (each_act (\<lambda>p. on_snd (std_write_all wr p)) (pieces (1024 * 1024) bs)) (\<lambda>_.
     bnd (checked64 (n + length bs)) (\<lambda>n'.
     copy_chunks dev inflate wr cs n')))"

definition copy_partition_to ::
  "'s std_file \<Rightarrow> (bytes \<Rightarrow> bytes option) \<Rightarrow> 'w std_writer \<Rightarrow> plist \<Rightarrow> nat \<Rightarrow> ('s \<times> 'w, std_error, nat) act" where
  "copy_partition_to dev inflate wr x i =
     bnd (partition_table x i) (\<lambda>table. copy_chunks dev inflate wr (bt_chunks table) 0)"

section \<open>The reader of a partition\<close>

text \<open>The map from chunk numbers to their bytes is a list of pairs with different keys.\<close>

record 's dmg_partition =
  dp_r :: 's
  dp_chunks :: "blkx_chunk list"
  dp_pos :: nat
  dp_total :: nat
  dp_cache :: "(nat \<times> bytes) list"
  dp_order :: "nat list"

definition MAX_CACHE_CHUNKS :: nat where "MAX_CACHE_CHUNKS = 256"

fun sum_sizes :: "blkx_chunk list \<Rightarrow> nat \<Rightarrow> ('s, std_error, nat) act" where
  "sum_sizes [] n = ret n"
| "sum_sizes (c # cs) n =
     (if chunk_ty c = Some Term then sum_sizes cs n
      else bnd (chunk_size c) (\<lambda>k. bnd (checked64 (n + k)) (sum_sizes cs)))"

definition into_partition_reader :: "plist \<Rightarrow> nat \<Rightarrow> ('s, std_error, 's dmg_partition) act" where
  "into_partition_reader x i =
     bnd (partition_table x i) (\<lambda>table.
     bnd (sum_sizes (bt_chunks table) 0) (\<lambda>n s.
     (Ok \<lparr>dp_r = s, dp_chunks = bt_chunks table, dp_pos = 0, dp_total = n, dp_cache = [], dp_order = []\<rparr>, s)))"

text \<open>\<open>sector >= c.sector_number && sector < c.sector_number + c.sector_count\<close>, and the order of the search.\<close>

definition chunk_end :: "blkx_chunk \<Rightarrow> ('s, 'e, nat) act" where
  "chunk_end c = checked64 (unat (bc_sector_number c) + unat (bc_sector_count c))"

definition contains_sector :: "blkx_chunk \<Rightarrow> nat \<Rightarrow> ('s, 'e, bool) act" where
  "contains_sector c sector =
     (if sector < unat (bc_sector_number c) then ret False
      else bnd (chunk_end c) (\<lambda>e. ret (sector < e)))"

definition sector_order :: "nat \<Rightarrow> blkx_chunk \<Rightarrow> ('s, 'e, ordering) act" where
  "sector_order sector c =
     (if sector < unat (bc_sector_number c) then ret Greater
      else bnd (chunk_end c) (\<lambda>e. ret (if e \<le> sector then Less else Equal)))"

text \<open>\<open>slice::binary_search_by\<close> of the standard library.\<close>

function search_from :: "(nat \<Rightarrow> ('s, 'e, ordering) act) \<Rightarrow> nat \<Rightarrow> nat \<Rightarrow> ('s, 'e, nat) act" where
  "search_from f base n =
     (if n \<le> 1 then ret base
      else
        let half = n div 2; mid = base + half
        in bnd (f mid) (\<lambda>ord. search_from f (if ord = Greater then base else mid) (n - half)))"
  by pat_completeness auto
termination
  by (relation "measure (\<lambda>(f, base, n). n)") auto

declare search_from.simps [simp del]

definition binary_search_by :: "('a \<Rightarrow> ('s, 'e, ordering) act) \<Rightarrow> 'a list \<Rightarrow> ('s, 'e, nat option) act" where
  "binary_search_by f xs =
     (if xs = [] then ret None
      else bnd (search_from (\<lambda>i. f (xs ! i)) 0 (length xs)) (\<lambda>base.
        bnd (f (xs ! base)) (\<lambda>ord. ret (if ord = Equal then Some base else None))))"

text \<open>\<open>get_chunk_at_pos\<close>: the chunk used last, the one behind it, or a search.\<close>

definition near_chunk :: "blkx_chunk list \<Rightarrow> nat \<Rightarrow> nat \<Rightarrow> ('s, std_error, nat option) act" where
  "near_chunk chunks last_idx sector =
     (if length chunks \<le> last_idx then panic
      else bnd (contains_sector (chunks ! last_idx) sector) (\<lambda>here.
        if here then ret (Some last_idx)
        else if last_idx + 1 < length chunks then
          bnd (contains_sector (chunks ! (last_idx + 1)) sector) (\<lambda>there.
          ret (if there then Some (last_idx + 1) else None))
        else ret None))"

definition get_chunk_at_pos :: "'t dmg_partition \<Rightarrow> nat \<Rightarrow> ('s, std_error, nat option) act" where
  "get_chunk_at_pos p at =
     (let sector = at div 512
      in bnd (if dp_order p = [] then ret None else near_chunk (dp_chunks p) (last (dp_order p)) sector) (\<lambda>near.
         case near of
           Some i \<Rightarrow> ret (Some i)
         | None \<Rightarrow> binary_search_by (sector_order sector) (dp_chunks p)))"

definition on_source :: "('s, 'e, 'a) act \<Rightarrow> ('s dmg_partition, 'e, 'a) act" where
  "on_source m = (\<lambda>p. case m (dp_r p) of (r, s) \<Rightarrow> (r, p\<lparr>dp_r := s\<rparr>))"

definition chunk_data :: "'s std_file \<Rightarrow> (bytes \<Rightarrow> bytes option) \<Rightarrow> blkx_chunk \<Rightarrow> ('s, std_error, bytes) act" where
  "chunk_data dev inflate c =
     bnd (chunk_size c) (\<lambda>n.
     case chunk_ty c of
       None \<Rightarrow> panic
     | Some ty \<Rightarrow>
        (case ty of
           Ignore \<Rightarrow> ret (replicate n 0)
         | Zero \<Rightarrow> ret (replicate n 0)
         | Comment \<Rightarrow> ret []
         | Raw \<Rightarrow>
             bnd (sf_seek dev (Start (unat (bc_compressed_offset c)))) (\<lambda>_.
             std_read_exact (sf_read dev) (unat (bc_compressed_length c)))
         | Zlib \<Rightarrow> inflate_chunk dev inflate c
         | Adc \<Rightarrow> panic | Bzlib \<Rightarrow> panic | Lzfse \<Rightarrow> panic | Term \<Rightarrow> panic))"

definition cache_touch :: "nat \<Rightarrow> 's dmg_partition \<Rightarrow> 's dmg_partition" where
  "cache_touch i p = p\<lparr>dp_order := remove1 i (dp_order p) @ [i]\<rparr>"

definition cache_insert :: "nat \<Rightarrow> bytes \<Rightarrow> 's dmg_partition \<Rightarrow> 's dmg_partition" where
  "cache_insert i d p =
     (let p' = (if MAX_CACHE_CHUNKS \<le> length (dp_cache p) \<and> dp_order p \<noteq> [] then
            p\<lparr>dp_order := tl (dp_order p), dp_cache := filter (\<lambda>e. fst e \<noteq> hd (dp_order p)) (dp_cache p)\<rparr>
          else p)
      in p'\<lparr>dp_cache := (i, d) # filter (\<lambda>e. fst e \<noteq> i) (dp_cache p'), dp_order := dp_order p' @ [i]\<rparr>)"

definition load_chunk :: "'s std_file \<Rightarrow> (bytes \<Rightarrow> bytes option) \<Rightarrow> nat \<Rightarrow> ('s dmg_partition, std_error, unit) act" where
  "load_chunk dev inflate i = (\<lambda>p.
     if map_of (dp_cache p) i \<noteq> None then (Ok (), cache_touch i p)
     else if length (dp_chunks p) \<le> i then (Panic, p)
     else bnd (on_source (chunk_data dev inflate (dp_chunks p ! i))) (\<lambda>d p'. (Ok (), cache_insert i d p')) p)"

text \<open>
  \<open>Read::read\<close>; where a chunk has fewer bytes than its sectors the read goes on behind the chunk. Each round ends
  behind another chunk, so one more than the chunks are enough.
\<close>

fun dp_read_loop :: "'s std_file \<Rightarrow> (bytes \<Rightarrow> bytes option) \<Rightarrow> nat \<Rightarrow> nat \<Rightarrow> ('s dmg_partition, std_error, bytes) act" where
  "dp_read_loop dev inflate 0 n = spin"
| "dp_read_loop dev inflate (Suc fuel) n = (\<lambda>p.
     bnd (get_chunk_at_pos p (dp_pos p)) (\<lambda>found.
     case found of
       None \<Rightarrow> ret []
     | Some i \<Rightarrow>
         let c = dp_chunks p ! i in
         bnd (checked64 (unat (bc_sector_number c) * 512)) (\<lambda>start.
         bnd (map_err (\<lambda>_. OtherError) (load_chunk dev inflate i)) (\<lambda>_ p'.
         let data = the (map_of (dp_cache p') i); off = dp_pos p' - start; available = length data - off in
         if available = 0 then
           bnd (chunk_size c) (\<lambda>k.
           bnd (checked64 (start + k)) (\<lambda>next p'.
           dp_read_loop dev inflate fuel n (p'\<lparr>dp_pos := next\<rparr>))) p'
         else
           let k = min n available
           in bnd (checked64 (dp_pos p' + k)) (\<lambda>next p'. (Ok (take k (drop off data)), p'\<lparr>dp_pos := next\<rparr>)) p'))) p)"

definition dp_read :: "'s std_file \<Rightarrow> (bytes \<Rightarrow> bytes option) \<Rightarrow> ('s dmg_partition) std_reader" where
  "dp_read dev inflate n = (\<lambda>p.
     if n = 0 then (Ok [], p) else dp_read_loop dev inflate (Suc (length (dp_chunks p))) n p)"

definition dp_seek :: "seek_from \<Rightarrow> ('s dmg_partition, std_error, nat) act" where
  "dp_seek w = (\<lambda>p.
     bnd (case w of
            Start s \<Rightarrow> ret (as_i64 s)
          | Current c \<Rightarrow> add_i64 (as_i64 (dp_pos p)) c
          | End e \<Rightarrow> add_i64 (as_i64 (dp_total p)) e)
       (\<lambda>new_pos p. if new_pos < 0 then (Err (InvalidInput ''negative seek''), p)
          else (Ok (as_u64 new_pos), p\<lparr>dp_pos := as_u64 new_pos\<rparr>)) p)"

text \<open>The traits of the HFS+ library; \<open>shown\<close> is the text of an error.\<close>

definition dp_ops :: "(std_error \<Rightarrow> string) \<Rightarrow> 's std_file \<Rightarrow> (bytes \<Rightarrow> bytes option) \<Rightarrow> ('s dmg_partition) read_seek" where
  "dp_ops shown dev inflate =
     \<lparr>rs_read = (\<lambda>n. map_err (\<lambda>e. InvalidData (shown e)) (dp_read dev inflate n)),
      rs_seek = (\<lambda>w. map_err (\<lambda>e. InvalidData (shown e)) (dp_seek w))\<rparr>"

end
