(* ===== verification/DmgWriter.thy ===== *)
theory DmgWriter
  imports Dmg
begin

text \<open>
  Writing an Apple disk image (\<open>DmgWriter\<close>, \<open>create_fat32\<close> and \<open>symlink\<close> of \<open>src/src/lib/apple-dmg/lib.rs\<close>), and what the reader makes
  of it. A hasher is modelled by the bytes that it has seen.
\<close>

section \<open>The writer\<close>

record 'w dmg_writer =
  dw_xml :: plist
  dw_w :: 'w
  dw_data :: bytes
  dw_main :: bytes
  dw_sector :: u64
  dw_offset :: u64

definition dw_new :: "'w \<Rightarrow> 'w dmg_writer" where
  "dw_new w = \<lparr>dw_xml = plist_default, dw_w = w, dw_data = [], dw_main = [], dw_sector = 0, dw_offset = 0\<rparr>"

definition on_out :: "('w, 'e, 'a) act \<Rightarrow> ('w dmg_writer, 'e, 'a) act" where
  "on_out m = (\<lambda>d. case m (dw_w d) of (r, w) \<Rightarrow> (r, d\<lparr>dw_w := w\<rparr>))"

text \<open>One round of the loop of \<open>add_partition\<close>: a piece is compressed, written and entered in the table.\<close>

definition advance :: "u64 \<Rightarrow> u64 \<Rightarrow> ('w dmg_writer, std_error, unit) act" where
  "advance count len = (\<lambda>d.
     if 2 ^ 64 \<le> unat (dw_sector d) + unat count \<or> 2 ^ 64 \<le> unat (dw_offset d) + unat len then (Panic, d)
     else (Ok (), d\<lparr>dw_sector := dw_sector d + count, dw_offset := dw_offset d + len\<rparr>))"

definition pack_chunk ::
  "'w std_writer \<Rightarrow> (bytes \<Rightarrow> bytes) \<Rightarrow> bytes \<Rightarrow> blkx_table \<Rightarrow> ('w dmg_writer, std_error, blkx_table) act" where
  "pack_chunk wr deflate chunk table =
     (let compressed = deflate chunk; len = of_nat (length compressed); count = of_nat (length chunk) div 512
      in bnd (on_out (std_write_all wr compressed)) (\<lambda>_ d.
         let d' = d\<lparr>dw_data := dw_data d @ compressed\<rparr>
         in case add_chunk (chunk_new Zlib (dw_sector d') count (dw_offset d') len) table of
              None \<Rightarrow> (Panic, d')
            | Some table' \<Rightarrow> bnd (advance count len) (\<lambda>_. ret table') d'))"

fun pack_chunks ::
  "'w std_writer \<Rightarrow> (bytes \<Rightarrow> bytes) \<Rightarrow> bytes list \<Rightarrow> blkx_table \<Rightarrow> ('w dmg_writer, std_error, blkx_table) act" where
  "pack_chunks wr deflate [] table = ret table"
| "pack_chunks wr deflate (c # cs) table =
     bnd (pack_chunk wr deflate c table) (pack_chunks wr deflate cs)"

definition CHUNK_BYTES :: nat where "CHUNK_BYTES = 2048 * 512"

definition add_partition ::
  "'w std_writer \<Rightarrow> (bytes \<Rightarrow> bytes) \<Rightarrow> (bytes \<Rightarrow> u32) \<Rightarrow> ustring \<Rightarrow> bytes \<Rightarrow> ('w dmg_writer, std_error, unit) act" where
  "add_partition wr deflate crc name bs =
     bnd (ensure (length bs mod 512 = 0)) (\<lambda>_ d.
     let id = of_nat (length (pl_blkx (dw_xml d))) :: u32
     in bnd (pack_chunks wr deflate (pieces CHUNK_BYTES bs) (table_new id (dw_sector d) (crc bs))) (\<lambda>table d.
        case add_chunk (chunk_term (dw_sector d) (dw_offset d)) table of
          None \<Rightarrow> (Panic, d)
        | Some table' \<Rightarrow>
            if sint id = - (2 ^ 31) then (Panic, d)
            else bnd (part_new (sint id - 1) name table') (\<lambda>p d.
              (Ok (), d\<lparr>dw_main := dw_main d @ take 4 (uc_data (bt_checksum table')), dw_xml := plist_add p (dw_xml d)\<rparr>)) d) d)"

definition finish ::
  "'w std_writer \<Rightarrow> ('w, std_error, nat) act \<Rightarrow> (plist \<Rightarrow> bytes) \<Rightarrow> (bytes \<Rightarrow> u32) \<Rightarrow> bytes \<Rightarrow> ('w dmg_writer, std_error, unit) act" where
  "finish wr stream_position write_xml crc segment_id = (\<lambda>d.
     let xml = write_xml (dw_xml d)
     in bnd (on_out stream_position) (\<lambda>at d.
        let koly = koly_new segment_id (of_nat at) (dw_sector d) (of_nat at) (of_nat (length xml)) (crc (dw_data d)) (crc (dw_main d))
        in bnd (on_out (std_write_all wr xml)) (\<lambda>_. on_out (koly_write_to koly wr)) d) d)"

definition MBR_NAME :: ustring where "MBR_NAME = map of_char ''Master Boot Record (MBR : 0)''"
definition FAT32_NAME :: ustring where "FAT32_NAME = map of_char ''FAT32 (FAT32 : 1)''"

definition fat32_mbr :: "nat \<Rightarrow> bytes" where
  "fat32_mbr sectors = mbr_to_bytes (set_partition 0 ((new_protective (Some (of_nat sectors)))\<lparr>pr_os_type := 11\<rparr>) mbr_new)"

definition create_fat32 ::
  "'w std_writer \<Rightarrow> ('w, std_error, nat) act \<Rightarrow> (bytes \<Rightarrow> bytes) \<Rightarrow> (plist \<Rightarrow> bytes) \<Rightarrow> (bytes \<Rightarrow> u32) \<Rightarrow> bytes \<Rightarrow> bytes \<Rightarrow>
   ('w dmg_writer, std_error, unit) act" where
  "create_fat32 wr stream_position deflate write_xml crc segment_id fat32 =
     bnd (ensure (length fat32 mod 512 = 0)) (\<lambda>_.
     let sector_count = length fat32 div 512
     in if 2 ^ 32 \<le> sector_count then fail OtherError
        else
          bnd (add_partition wr deflate crc MBR_NAME (fat32_mbr sector_count)) (\<lambda>_.
          bnd (add_partition wr deflate crc FAT32_NAME fat32) (\<lambda>_.
          finish wr stream_position write_xml crc segment_id)))"

text \<open>\<open>symlink\<close>: the digest in hexadecimal is a parameter (crate \<open>md5\<close>).\<close>

definition pad4 :: "nat \<Rightarrow> string" where
  "pad4 n = (let s = show_nat n in replicate (4 - length s) (CHR ''0'') @ s)"

definition symlink :: "(bytes \<Rightarrow> string) \<Rightarrow> bytes \<Rightarrow> std_error + bytes" where
  "symlink md5_hex target =
     (let ascii = map (\<lambda>c. of_nat (of_char c) :: u8);
          xsym = ascii (''XSym'' @ [CHR 10] @ pad4 (length target) @ [CHR 10] @ md5_hex target @ [CHR 10]) @ target @ [10]
      in if length xsym \<le> 1067 then Inr (xsym @ replicate (1067 - length xsym) 32) else Inl EnsureFailed)"

end
