(* ===== verification/DmgSpec.thy ===== *)
theory DmgSpec
  imports DmgWriter
begin

text \<open>
  Disk images: the chunks of a partition as they lie in the file, what the readers return for them, and that the writer
  produces such chunks.
\<close>

section \<open>Chunks in a file\<close>

text \<open>A chunk that the writer makes: the compressed form of its data.\<close>

definition packed :: "(bytes \<Rightarrow> bytes) \<Rightarrow> bytes \<Rightarrow> blkx_chunk \<Rightarrow> bytes \<Rightarrow> bool" where
  "packed deflate img c d \<longleftrightarrow> bc_type c = chunk_type_u32 Zlib \<and> unat (bc_sector_count c) * 512 = length d \<and>
     (\<exists>pre post. img = pre @ deflate d @ post \<and> unat (bc_compressed_offset c) = length pre \<and>
        unat (bc_compressed_length c) = length (deflate d))"

text \<open>
  What a reader finds in a chunk of a kind that it knows: the bytes of a stored chunk, what a compressed one expands to, zeros
  or nothing; so many as its sectors have.
\<close>

definition stored :: "(bytes \<Rightarrow> bytes option) \<Rightarrow> bytes \<Rightarrow> blkx_chunk \<Rightarrow> bytes \<Rightarrow> bool" where
  "stored inflate img c d \<longleftrightarrow> unat (bc_sector_count c) * 512 = length d \<and>
     (case chunk_ty c of
        Some Zlib \<Rightarrow> unat (bc_compressed_offset c) + unat (bc_compressed_length c) \<le> length img \<and>
          inflate (take (unat (bc_compressed_length c)) (drop (unat (bc_compressed_offset c)) img)) = Some d
      | Some Raw \<Rightarrow> unat (bc_compressed_offset c) + unat (bc_compressed_length c) \<le> length img \<and>
          take (unat (bc_compressed_length c)) (drop (unat (bc_compressed_offset c)) img) = d
      | Some Ignore \<Rightarrow> d = replicate (length d) 0
      | Some Zero \<Rightarrow> d = replicate (length d) 0
      | Some Comment \<Rightarrow> d = []
      | _ \<Rightarrow> False)"

text \<open>The chunks of a partition from the sector \<open>s\<close> on, one behind the other, and their data.\<close>

fun laid_out :: "(blkx_chunk \<Rightarrow> bytes \<Rightarrow> bool) \<Rightarrow> nat \<Rightarrow> blkx_chunk list \<Rightarrow> bytes list \<Rightarrow> bool" where
  "laid_out has s [] [] = True"
| "laid_out has s (c # cs) (d # ds) =
     (has c d \<and> unat (bc_sector_number c) = s \<and> laid_out has (s + unat (bc_sector_count c)) cs ds)"
| "laid_out has s _ _ = False"

lemma laid_out_length: "laid_out has s cs ds \<Longrightarrow> length cs = length ds"
  by (induction has s cs ds rule: laid_out.induct) simp_all

lemma laid_out_mono:
  "laid_out has s cs ds \<Longrightarrow> (\<And>c d. d \<in> set ds \<Longrightarrow> has c d \<Longrightarrow> has' c d) \<Longrightarrow> laid_out has' s cs ds"
  by (induction has s cs ds rule: laid_out.induct) simp_all

lemma packed_more: "packed deflate img c d \<Longrightarrow> packed deflate (img @ rest) c d"
  unfolding packed_def by fastforce

lemma laid_out_more: "laid_out (packed deflate img) s cs ds \<Longrightarrow> laid_out (packed deflate (img @ rest)) s cs ds"
  by (erule laid_out_mono) (rule packed_more)

lemma packed_stored: "packed deflate img c d \<Longrightarrow> inflate (deflate d) = Some d \<Longrightarrow> stored inflate img c d"
  by (auto simp: packed_def stored_def chunk_ty_def chunk_type_roundtrip simp del: chunk_type_u32.simps)

lemma laid_out_stored:
  "laid_out (packed deflate img) s cs ds \<Longrightarrow> (\<And>d. d \<in> set ds \<Longrightarrow> inflate (deflate d) = Some d) \<Longrightarrow>
   laid_out (stored inflate img) s cs ds"
  by (erule laid_out_mono) (simp add: packed_stored)

lemma stored_length: "stored inflate img c d \<Longrightarrow> unat (bc_sector_count c) * 512 = length d"
  by (simp add: stored_def)

context std_disk begin

lemma compressed_bytes_ok:
  assumes "ready s p" and "unat (bc_compressed_offset c) + unat (bc_compressed_length c) \<le> length content"
    and "z = take (unat (bc_compressed_length c)) (drop (unat (bc_compressed_offset c)) content)"
  shows "\<exists>s' q. compressed_bytes dev c s = (Ok z, s') \<and> ready s' q"
    and "\<exists>s' q. bnd (sf_seek dev (Start (unat (bc_compressed_offset c))))
      (\<lambda>_. std_read_exact (sf_read dev) (unat (bc_compressed_length c))) s = (Ok z, s') \<and> ready s' q"
proof -
  have "unat (bc_compressed_offset c) \<le> length content" using assms(2) by simp
  from seek_start [OF assms(1) this] obtain s1 where
    s1: "sf_seek dev (Start (unat (bc_compressed_offset c))) s = (Ok (unat (bc_compressed_offset c)), s1)"
      "ready s1 (unat (bc_compressed_offset c))" by blast
  from take_to_end_at [OF s1(2) assms(2)] show "\<exists>s' q. compressed_bytes dev c s = (Ok z, s') \<and> ready s' q"
    by (simp add: compressed_bytes_def bnd_Ok [where m = "sf_seek dev (Start (unat (bc_compressed_offset c)))", OF s1(1)] assms(3))
  from std_exact_at [OF s1(2) assms(2)] show "\<exists>s' q. bnd (sf_seek dev (Start (unat (bc_compressed_offset c))))
      (\<lambda>_. std_read_exact (sf_read dev) (unat (bc_compressed_length c))) s = (Ok z, s') \<and> ready s' q"
    by (auto simp: bnd_Ok [where m = "sf_seek dev (Start (unat (bc_compressed_offset c)))", OF s1(1)] assms(3))
qed

lemma inflate_chunk_ok:
  assumes "ready s p" and "stored inflate content c d" and "chunk_ty c = Some Zlib"
  shows "\<exists>s' q. inflate_chunk dev inflate c s = (Ok d, s') \<and> ready s' q"
proof -
  let ?z = "take (unat (bc_compressed_length c)) (drop (unat (bc_compressed_offset c)) content)"
  have z: "unat (bc_compressed_offset c) + unat (bc_compressed_length c) \<le> length content" "inflate ?z = Some d"
    using assms(2,3) by (simp_all add: stored_def)
  from compressed_bytes_ok(1) [OF assms(1) z(1) refl] obtain s' q where
    "compressed_bytes dev c s = (Ok ?z, s')" "ready s' q" by blast
  then show ?thesis using z(2) by (auto simp: inflate_chunk_def bnd_Ok [where m = "compressed_bytes dev c"] ret_run)
qed

lemma sector_bytes_ok:
  assumes "ready s p" and "stored inflate content c d" and "length d < 2 ^ 64"
  shows "\<exists>s' q. sector_bytes dev inflate c s = (Ok d, s') \<and> ready s' q"
proof -
  obtain ty where ty: "chunk_ty c = Some ty" using assms(2) by (cases "chunk_ty c") (auto simp: stored_def)
  show ?thesis using assms ty inflate_chunk_ok [OF assms(1,2)] compressed_bytes_ok(1) [OF assms(1)]
    by (cases ty) (auto simp: sector_bytes_def chunk_size_def stored_def ret_run)
qed

lemma sectors_ok:
  "laid_out (stored inflate content) k cs ds \<Longrightarrow> (\<And>d. d \<in> set ds \<Longrightarrow> length d < 2 ^ 64) \<Longrightarrow> ready s p \<Longrightarrow>
   chunk_ty tm = Some Term \<Longrightarrow>
   \<exists>s' q. map_act (sector_bytes dev inflate) (cs @ [tm]) s = (Ok (ds @ [[]]), s') \<and> ready s' q"
proof (induction cs arbitrary: ds k s p)
  case Nil
  then show ?case by (cases ds) (auto simp: sector_bytes_def ret_run)
next
  case (Cons c cs)
  then obtain d ds' where ds: "ds = d # ds'" "stored inflate content c d"
    "laid_out (stored inflate content) (k + unat (bc_sector_count c)) cs ds'" by (cases ds) auto
  have "length d < 2 ^ 64" using Cons.prems(2) by (simp add: ds(1))
  from sector_bytes_ok [OF Cons.prems(3) ds(2) this] obtain s1 q1 where
    s1: "sector_bytes dev inflate c s = (Ok d, s1)" "ready s1 q1" by blast
  from Cons.IH [OF ds(3) _ s1(2) Cons.prems(4)] Cons.prems(2) obtain s2 q2 where
    s2: "map_act (sector_bytes dev inflate) (cs @ [tm]) s1 = (Ok (ds' @ [[]]), s2)" "ready s2 q2" by (auto simp: ds(1))
  then show ?case using s1(1)
    by (auto simp: ds(1) ret_run bnd_Ok [where m = "sector_bytes dev inflate c"]
        bnd_Ok [where m = "map_act (sector_bytes dev inflate) (cs @ [tm])", OF s2(1)])
qed

lemma partition_data_ok:
  assumes "i < length (pl_blkx x)" and "fst (bt_read_from slice_read (pa_data (pl_blkx x ! i))) = Ok table"
    and "bt_chunks table = cs @ [tm]" and "chunk_ty tm = Some Term"
    and "laid_out (stored inflate content) k cs ds" and "\<And>d. d \<in> set ds \<Longrightarrow> length d < 2 ^ 64" and "ready s p"
  shows "\<exists>s' q. partition_data dev inflate x i s = (Ok (concat ds), s') \<and> ready s' q"
proof -
  from sectors_ok [OF assms(5,6,7,4)] obtain s' q where
    r: "map_act (sector_bytes dev inflate) (cs @ [tm]) s = (Ok (ds @ [[]]), s')" "ready s' q" by blast
  then show ?thesis using assms(1-3)
    by (auto simp: partition_data_def partition_table_def part_table_def ret_run
        bnd_Ok [where m = "map_act (sector_bytes dev inflate) (cs @ [tm])", OF r(1)])
qed

end

section \<open>What the writer writes\<close>

definition writer_ok :: "bytes dmg_writer \<Rightarrow> bool" where
  "writer_ok d \<longleftrightarrow> dw_data d = dw_w d \<and> unat (dw_offset d) = length (dw_w d)"

lemma on_out_put: "on_out (std_write_all vec_put bs) d = (Ok (), d\<lparr>dw_w := dw_w d @ bs\<rparr>)"
  using vec_out.writes_std_all [of bs] unfolding writes_def by (auto simp: on_out_def split: prod.split)

lemma unat_small: "n < 2 ^ 64 \<Longrightarrow> unat (of_nat n :: u64) = n"
  by (simp add: unat_of_nat take_bit_nat_eq_self)

lemma unat_plus_small: "unat (a :: u64) + unat b < 2 ^ 64 \<Longrightarrow> unat (a + b) = unat a + unat b"
  by (simp add: unat_word_ariths)

lemma pack_chunk_ok:
  assumes "writer_ok d" and "512 dvd length c" and "length c < 2 ^ 63" and "length (dw_w d) + length (deflate c) < 2 ^ 64"
    and "unat (dw_sector d) + length c div 512 < 2 ^ 64" and "unat (bt_sector_count t) + length c div 512 < 2 ^ 64"
  shows "\<exists>d' ch. pack_chunk vec_put deflate c t d =
      (Ok (t\<lparr>bt_sector_count := of_nat (unat (bt_sector_count t) + length c div 512), bt_chunks := bt_chunks t @ [ch]\<rparr>), d') \<and>
    writer_ok d' \<and> dw_w d' = dw_w d @ deflate c \<and> unat (dw_sector d') = unat (dw_sector d) + length c div 512 \<and>
    dw_xml d' = dw_xml d \<and> dw_main d' = dw_main d \<and> packed deflate (dw_w d') ch c \<and>
    unat (bc_sector_number ch) = unat (bt_sector_count t) \<and> unat (bc_sector_count ch) = length c div 512"
proof -
  let ?z = "deflate c" and ?count = "of_nat (length c) div 512 :: u64" and ?len = "of_nat (length (deflate c)) :: u64"
  have u: "unat ?len = length ?z" using assms(4) by (intro unat_small) simp
  have c: "unat ?count = length c div 512" using assms(3) by (simp add: unat_div unat_small)
  define d1 where "d1 = d\<lparr>dw_w := dw_w d @ ?z, dw_data := dw_data d @ ?z\<rparr>"
  define ch where "ch = (chunk_new Zlib (dw_sector d) ?count (dw_offset d) ?len)\<lparr>bc_sector_number := bt_sector_count t\<rparr>"
  define d2 where "d2 = d1\<lparr>dw_sector := dw_sector d + ?count, dw_offset := dw_offset d + ?len\<rparr>"
  have off: "unat (dw_offset d) = length (dw_w d)" using assms(1) by (simp add: writer_ok_def)
  have sum: "bt_sector_count t + ?count = of_nat (unat (bt_sector_count t) + length c div 512)"
    using c by (simp flip: c)
  have cnt: "bc_sector_count (chunk_new Zlib a ?count b e) = ?count" for a b e by (simp add: chunk_new_def)
  have t': "add_chunk (chunk_new Zlib (dw_sector d) ?count (dw_offset d) ?len) t =
      Some (t\<lparr>bt_sector_count := bt_sector_count t + ?count, bt_chunks := bt_chunks t @ [ch]\<rparr>)"
    using assms(6) c by (simp add: add_chunk_def ch_def cnt)
  have "advance ?count ?len d1 = (Ok (), d2)"
    using assms(4,5) c u off by (simp add: advance_def d1_def d2_def)
  then have "pack_chunk vec_put deflate c t d =
      (Ok (t\<lparr>bt_sector_count := bt_sector_count t + ?count, bt_chunks := bt_chunks t @ [ch]\<rparr>), d2)"
    using t' by (simp add: pack_chunk_def Let_def bnd_Ok [where m = "on_out (std_write_all vec_put ?z)", OF on_out_put]
        d1_def bnd_Ok [where m = "advance ?count ?len"] ret_run)
  moreover have "writer_ok d2"
    using assms(1,4) u off by (simp add: writer_ok_def d2_def d1_def unat_plus_small)
  moreover have "unat (dw_sector d2) = unat (dw_sector d) + length c div 512"
    using assms(5) c by (simp add: d2_def unat_plus_small)
  moreover have "packed deflate (dw_w d2) ch c"
    unfolding packed_def using assms(2) c u off
    by (auto simp: ch_def chunk_new_def d2_def d1_def intro: exI [of _ "dw_w d"] exI [of _ "[]"])
  ultimately show ?thesis unfolding sum
    using c by (intro exI [of _ d2] exI [of _ ch]) (simp add: d2_def d1_def ch_def cnt)
qed

lemma pack_chunks_ok:
  "writer_ok d \<Longrightarrow> (\<And>c. c \<in> set cs \<Longrightarrow> 512 dvd length c \<and> length c < 2 ^ 63) \<Longrightarrow>
   length (dw_w d) + length (concat (map deflate cs)) < 2 ^ 64 \<Longrightarrow>
   unat (dw_sector d) + sum_list (map (\<lambda>c. length c div 512) cs) < 2 ^ 64 \<Longrightarrow>
   unat (bt_sector_count t) + sum_list (map (\<lambda>c. length c div 512) cs) < 2 ^ 64 \<Longrightarrow>
   \<exists>d' chs. pack_chunks vec_put deflate cs t d =
      (Ok (t\<lparr>bt_sector_count := of_nat (unat (bt_sector_count t) + sum_list (map (\<lambda>c. length c div 512) cs)),
             bt_chunks := bt_chunks t @ chs\<rparr>), d') \<and>
    writer_ok d' \<and> dw_w d' = dw_w d @ concat (map deflate cs) \<and>
    unat (dw_sector d') = unat (dw_sector d) + sum_list (map (\<lambda>c. length c div 512) cs) \<and>
    dw_xml d' = dw_xml d \<and> dw_main d' = dw_main d \<and> laid_out (packed deflate (dw_w d')) (unat (bt_sector_count t)) chs cs"
proof (induction cs arbitrary: d t)
  case Nil
  then show ?case by (intro exI [of _ d] exI [of _ "[]"]) (simp add: ret_run)
next
  case (Cons c cs)
  let ?n = "length c div 512" and ?S = "sum_list (map (\<lambda>c. length c div 512) cs)"
  have c: "512 dvd length c" "length c < 2 ^ 63" using Cons.prems(2) [of c] by simp_all
  have b: "length (dw_w d) + length (deflate c) < 2 ^ 64" "unat (dw_sector d) + ?n < 2 ^ 64"
    "unat (bt_sector_count t) + ?n < 2 ^ 64" using Cons.prems(3-5) by simp_all
  from pack_chunk_ok [where deflate = deflate, OF Cons.prems(1) c b] obtain d1 ch where
    d1: "pack_chunk vec_put deflate c t d =
      (Ok (t\<lparr>bt_sector_count := of_nat (unat (bt_sector_count t) + ?n), bt_chunks := bt_chunks t @ [ch]\<rparr>), d1)"
    "writer_ok d1" "dw_w d1 = dw_w d @ deflate c" "unat (dw_sector d1) = unat (dw_sector d) + ?n"
    "dw_xml d1 = dw_xml d" "dw_main d1 = dw_main d" "packed deflate (dw_w d1) ch c"
    "unat (bc_sector_number ch) = unat (bt_sector_count t)" "unat (bc_sector_count ch) = ?n" by blast
  let ?t = "t\<lparr>bt_sector_count := of_nat (unat (bt_sector_count t) + ?n), bt_chunks := bt_chunks t @ [ch]\<rparr>"
  have u: "unat (bt_sector_count ?t) = unat (bt_sector_count t) + ?n" using b(3) by (simp add: unat_small del: of_nat_add)
  have rest: "\<And>c. c \<in> set cs \<Longrightarrow> 512 dvd length c \<and> length c < 2 ^ 63" using Cons.prems(2) by simp
  have b': "length (dw_w d1) + length (concat (map deflate cs)) < 2 ^ 64" "unat (dw_sector d1) + ?S < 2 ^ 64"
    "unat (bt_sector_count ?t) + ?S < 2 ^ 64"
    unfolding u using Cons.prems(3-5) d1(3,4) by (simp_all add: add.assoc)
  from Cons.IH [OF d1(2) rest, of ?t, OF _ b'] obtain d2 chs where
    d2: "pack_chunks vec_put deflate cs ?t d1 =
      (Ok (?t\<lparr>bt_sector_count := of_nat (unat (bt_sector_count ?t) + ?S), bt_chunks := bt_chunks ?t @ chs\<rparr>), d2)"
    "writer_ok d2" "dw_w d2 = dw_w d1 @ concat (map deflate cs)" "unat (dw_sector d2) = unat (dw_sector d1) + ?S"
    "dw_xml d2 = dw_xml d1" "dw_main d2 = dw_main d1" "laid_out (packed deflate (dw_w d2)) (unat (bt_sector_count ?t)) chs cs" by blast
  have "packed deflate (dw_w d2) ch c" unfolding d2(3) by (rule packed_more [OF d1(7)])
  then have "laid_out (packed deflate (dw_w d2)) (unat (bt_sector_count t)) (ch # chs) (c # cs)"
    using d2(7) d1(8,9) u by simp
  moreover have "pack_chunks vec_put deflate (c # cs) t d =
      (Ok (t\<lparr>bt_sector_count := of_nat (unat (bt_sector_count t) + sum_list (map (\<lambda>c. length c div 512) (c # cs))),
             bt_chunks := bt_chunks t @ ch # chs\<rparr>), d2)"
    using d2(1) unfolding u
    by (simp add: bnd_Ok [where m = "pack_chunk vec_put deflate c t", OF d1(1)] add.assoc del: of_nat_add)
  ultimately show ?case using d2(2-6) d1(3-6) by (intro exI [of _ d2] exI [of _ "ch # chs"]) simp
qed

lemma pieces_sectors:
  "0 < k \<Longrightarrow> 512 dvd k \<Longrightarrow> 512 dvd length xs \<Longrightarrow>
   sum_list (map (\<lambda>p. length p div 512) (pieces k xs)) = length xs div 512"
proof (induction "length xs" arbitrary: xs rule: less_induct)
  case less
  show ?case
  proof (cases "xs = []")
    case True
    then show ?thesis by (simp add: pieces_simps)
  next
    case False
    have d: "512 dvd length (drop k xs)" "512 dvd length (take k xs)"
      using less.prems by (simp_all add: dvd_diff_nat min_def)
    have "length (drop k xs) < length xs" using False less.prems(1) by simp
    from less.hyps [OF this less.prems(1,2) d(1)]
    have "sum_list (map (\<lambda>p. length p div 512) (pieces k xs)) = length (take k xs) div 512 + length (drop k xs) div 512"
      using False less.prems(1) by (simp add: pieces_simps)
    also have "\<dots> = (length (take k xs) + length (drop k xs)) div 512" using d by (simp only: div_add)
    also have "length (take k xs) + length (drop k xs) = length xs" by (metis append_take_drop_id length_append)
    finally show ?thesis .
  qed
qed

lemma pieces_number: "0 < k \<Longrightarrow> length (pieces k xs) \<le> length xs div k + 1"
proof (induction "length xs" arbitrary: xs rule: less_induct)
  case less
  show ?case
  proof (cases "length xs \<le> k")
    case True
    then have "pieces k (drop k xs) = []" by (simp add: pieces_simps)
    then show ?thesis using less.prems by (cases "xs = []") (simp_all add: pieces_simps)
  next
    case False
    then have "length (drop k xs) < length xs" using less.prems by simp
    from less.hyps [OF this less.prems] have "length (pieces k (drop k xs)) \<le> (length xs - k) div k + 1" by simp
    moreover have "length xs div k = (length xs - k) div k + 1" using False less.prems by (simp add: le_div_geq)
    ultimately show ?thesis using False less.prems by (cases "xs = []") (simp_all add: pieces_simps)
  qed
qed

text \<open>A table survives the way through the property list.\<close>

definition part_of :: "int \<Rightarrow> ustring \<Rightarrow> blkx_table \<Rightarrow> dmg_part" where
  "part_of i name t = \<lparr>pa_attributes = ''0x0050'', pa_cfname = name, pa_data = bt_layout t, pa_id = show_int i, pa_name = name\<rparr>"

lemma part_new_ok: "part_new i name t = ret (part_of i name t)"
proof -
  obtain v where "bt_write_to t vec_put [] = (Ok (), v)" "v = [] @ bt_layout t"
    using vec_out.writes_bt [of t] unfolding writes_def by blast
  then show ?thesis by (simp add: part_new_def part_of_def)
qed

lemma part_of_ok:
  assumes "bt_ok t"
  shows "fst (bt_read_from slice_read (pa_data (part_of i name t))) = Ok t"
proof -
  obtain s where "bt_read_from slice_read (bt_layout t) = (Ok t, s)"
    using readsD [OF slice_source.reads_bt [OF assms], of "bt_layout t" "[]"] by (auto simp: slice_next_def)
  then show ?thesis by (simp add: part_of_def)
qed

lemma add_partition_ok:
  assumes "writer_ok d" and "512 dvd length bs" and "length bs < 2 ^ 41" and "ps = pieces CHUNK_BYTES bs"
    and "length (dw_w d) + length (concat (map deflate ps)) < 2 ^ 64"
    and "unat (dw_sector d) + length bs div 512 < 2 ^ 64" and "length (pl_blkx (dw_xml d)) < 2 ^ 31"
  shows "\<exists>d' p table chs tm. add_partition vec_put deflate crc name bs d = (Ok (), d') \<and> writer_ok d' \<and>
    dw_w d' = dw_w d @ concat (map deflate ps) \<and> unat (dw_sector d') = unat (dw_sector d) + length bs div 512 \<and>
    dw_main d' = dw_main d @ to_be (crc bs) \<and> dw_xml d' = plist_add p (dw_xml d) \<and>
    p = part_of (int (length (pl_blkx (dw_xml d))) - 1) name table \<and>
    bt_ok table \<and> bt_chunks table = chs @ [tm] \<and> chunk_ty tm = Some Term \<and>
    unat (bc_sector_number tm) * 512 = length bs \<and> bc_sector_count tm = 0 \<and> laid_out (packed deflate (dw_w d')) 0 chs ps"
proof -
  let ?id = "of_nat (length (pl_blkx (dw_xml d))) :: u32"
  let ?t = "table_new ?id (dw_sector d) (crc bs)"
  have k: "0 < CHUNK_BYTES" "512 dvd CHUNK_BYTES" "CHUNK_BYTES = 2 ^ 20" by (simp_all add: CHUNK_BYTES_def)
  have facts: "512 dvd length c \<and> length c < 2 ^ 63" if "c \<in> set ps" for c
    using pieces_facts [OF k(1,2) assms(2)] that k(3) unfolding assms(4) by fastforce
  have S: "sum_list (map (\<lambda>p. length p div 512) ps) = length bs div 512"
    unfolding assms(4) by (rule pieces_sectors [OF k(1,2) assms(2)])
  have "length ps \<le> length bs div CHUNK_BYTES + 1" unfolding assms(4) by (rule pieces_number [OF k(1)])
  moreover have "length bs div CHUNK_BYTES < 2 ^ 21" using assms(3) by (simp add: k(3) less_mult_imp_div_less)
  ultimately have np: "length ps < 2 ^ 31" by simp
  have b: "unat (dw_sector d) + sum_list (map (\<lambda>p. length p div 512) ps) < 2 ^ 64"
    "unat (bt_sector_count ?t) + sum_list (map (\<lambda>p. length p div 512) ps) < 2 ^ 64"
    unfolding S using assms(3,6) by (simp_all add: table_new_def less_mult_imp_div_less)
  from pack_chunks_ok [OF assms(1) facts assms(5) b] obtain d1 chs where
    d1: "pack_chunks vec_put deflate ps ?t d =
        (Ok (?t\<lparr>bt_sector_count := of_nat (length bs div 512), bt_chunks := chs\<rparr>), d1)"
      "writer_ok d1" "dw_w d1 = dw_w d @ concat (map deflate ps)" "unat (dw_sector d1) = unat (dw_sector d) + length bs div 512"
      "dw_xml d1 = dw_xml d" "dw_main d1 = dw_main d" "laid_out (packed deflate (dw_w d1)) 0 chs ps"
    unfolding S by (auto simp: table_new_def)
  let ?t1 = "?t\<lparr>bt_sector_count := of_nat (length bs div 512), bt_chunks := chs\<rparr>"
  define tm where "tm = (chunk_term (dw_sector d1) (dw_offset d1))\<lparr>bc_sector_number := bt_sector_count ?t1\<rparr>"
  define t2 where "t2 = ?t1\<lparr>bt_chunks := chs @ [tm]\<rparr>"
  have t2: "add_chunk (chunk_term (dw_sector d1) (dw_offset d1)) ?t1 = Some t2"
  proof -
    have "unat (bt_sector_count ?t1) < 2 ^ LENGTH(64)" by (rule unsigned_less)
    moreover have "bc_sector_count (chunk_term (dw_sector d1) (dw_offset d1)) = 0" by (simp add: chunk_term_def chunk_new_def)
    ultimately show ?thesis by (simp add: add_chunk_def t2_def tm_def)
  qed
  have bt: "bt_ok t2"
    using np laid_out_length [OF d1(7)] by (simp add: bt_ok_def t2_def table_new_def)
  have idv: "sint ?id = int (length (pl_blkx (dw_xml d)))"
    using assms(7) by (simp add: sint_uint unsigned_of_nat take_bit_nat_eq_self signed_take_bit_int_eq_self)
  then have id: "sint ?id \<noteq> - (2 ^ 31)" by simp
  define p where "p = part_of (int (length (pl_blkx (dw_xml d))) - 1) name t2"
  have crc: "take 4 (uc_data (bt_checksum t2)) = to_be (crc bs)"
    by (simp add: t2_def table_new_def uc_new_def)
  have ty: "chunk_ty tm = Some Term"
    by (simp add: tm_def chunk_term_def chunk_new_def chunk_ty_def chunk_type_roundtrip del: chunk_type_u32.simps)
  have "length bs div 512 < 2 ^ 64" using assms(6) by simp
  then have tmn: "unat (bc_sector_number tm) * 512 = length bs" "bc_sector_count tm = 0"
    using assms(2) unat_small [of "length bs div 512"] by (simp_all add: tm_def chunk_term_def chunk_new_def)
  let ?d = "d1\<lparr>dw_main := dw_main d1 @ to_be (crc bs), dw_xml := plist_add p (dw_xml d1)\<rparr>"
  have "length bs mod 512 = 0" using assms(2) by presburger
  then have "add_partition vec_put deflate crc name bs d = (Ok (), ?d)"
    using id by (simp add: add_partition_def Let_def assms(4) [symmetric] t2 part_new_ok idv p_def crc
        bnd_Ok [where m = "pack_chunks vec_put deflate ps ?t", OF d1(1)])
  moreover have "writer_ok ?d" using d1(2) by (simp add: writer_ok_def)
  moreover have "bt_chunks t2 = chs @ [tm]" by (simp add: t2_def)
  ultimately show ?thesis using d1(3-7) bt p_def ty tmn by (intro exI [of _ ?d]) auto
qed

end
