(* ===== verification/DmgRead.thy ===== *)
theory DmgRead
  imports DmgSpec HfsIo
begin

text \<open>
  The reader of a partition: on a table whose chunks lie one behind the other it is a device of the HFS+ library that holds
  the bytes of the partition, whatever it has in its cache.
\<close>

section \<open>Where the chunks begin\<close>

abbreviation upto :: "bytes list \<Rightarrow> nat \<Rightarrow> nat" where
  "upto ds j \<equiv> length (concat (take j ds))"

text \<open>The table of a partition: chunks of any known kind, one behind the other, and the terminator behind the last one.\<close>

definition closed_table :: "(bytes \<Rightarrow> bytes option) \<Rightarrow> bytes \<Rightarrow> blkx_chunk list \<Rightarrow> blkx_chunk \<Rightarrow> bytes list \<Rightarrow> bool" where
  "closed_table inflate img cs tm ds \<longleftrightarrow> laid_out (stored inflate img) 0 cs ds \<and> chunk_ty tm = Some Term \<and>
     unat (bc_sector_number tm) * 512 = length (concat ds) \<and> bc_sector_count tm = 0"

lemma upto_mono: "i \<le> j \<Longrightarrow> upto ds i \<le> upto ds j"
  by (metis concat_append le_add1 le_add_diff_inverse length_append take_add)

lemma upto_le: "upto ds i \<le> length (concat ds)"
  using upto_mono [of i "max i (length ds)" ds] by simp

lemma upto_Suc: "i < length ds \<Longrightarrow> upto ds (Suc i) = upto ds i + length (ds ! i)"
  by (simp add: take_Suc_conv_app_nth)

lemma upto_hit: "x < length (concat ds) \<Longrightarrow> \<exists>i<length ds. upto ds i \<le> x \<and> x < upto ds (Suc i)"
proof (induction ds rule: rev_induct)
  case (snoc d ds)
  show ?case
  proof (cases "x < length (concat ds)")
    case True
    with snoc.IH obtain i where "i < length ds" "upto ds i \<le> x" "x < upto ds (Suc i)" by blast
    then show ?thesis by (intro exI [of _ i]) simp
  next
    case False
    then show ?thesis using snoc.prems by (intro exI [of _ "length ds"]) simp
  qed
qed simp

lemma concat_slice:
  "i < length ds \<Longrightarrow> upto ds i \<le> x \<Longrightarrow> x + k \<le> upto ds (Suc i) \<Longrightarrow>
   take k (drop (x - upto ds i) (ds ! i)) = take k (drop x (concat ds))"
proof -
  assume a: "i < length ds" "upto ds i \<le> x" "x + k \<le> upto ds (Suc i)"
  have "concat ds = concat (take i ds) @ ds ! i @ concat (drop (Suc i) ds)"
    using a(1) by (metis append.assoc append_take_drop_id concat.simps(2) concat_append id_take_nth_drop)
  moreover have "k \<le> length (ds ! i) - (x - upto ds i)" using a upto_Suc [OF a(1)] by simp
  ultimately show ?thesis using a(2) by simp
qed

lemma laid_out_nth:
  "laid_out has s cs ds \<Longrightarrow> (\<And>c d. has c d \<Longrightarrow> unat (bc_sector_count c) * 512 = length d) \<Longrightarrow> i < length cs \<Longrightarrow>
   has (cs ! i) (ds ! i) \<and> unat (bc_sector_number (cs ! i)) * 512 = s * 512 + upto ds i"
proof (induction has s cs ds arbitrary: i rule: laid_out.induct)
  case (2 has s c cs d ds)
  have d: "unat (bc_sector_count c) * 512 = length d" using "2.prems"(1,2) by simp
  show ?case
  proof (cases i)
    case (Suc j)
    then show ?thesis using "2.IH" [of j] "2.prems" d by (simp add: distrib_right)
  qed (use "2.prems" in simp)
qed simp_all

lemma stored_nth:
  "laid_out (stored inflate img) s cs ds \<Longrightarrow> i < length cs \<Longrightarrow>
   stored inflate img (cs ! i) (ds ! i) \<and> unat (bc_sector_number (cs ! i)) * 512 = s * 512 + upto ds i"
  by (rule laid_out_nth [where has = "stored inflate img", OF _ stored_length])

lemma chunk_bounds:
  assumes "closed_table inflate img cs tm ds" and "j \<le> length ds"
  shows "unat (bc_sector_number ((cs @ [tm]) ! j)) * 512 = upto ds j"
    and "(unat (bc_sector_number ((cs @ [tm]) ! j)) + unat (bc_sector_count ((cs @ [tm]) ! j))) * 512 = upto ds (Suc j)"
proof -
  have l: "length cs = length ds" using assms(1) by (auto simp: closed_table_def dest: laid_out_length)
  show n: "unat (bc_sector_number ((cs @ [tm]) ! j)) * 512 = upto ds j"
    using assms stored_nth [of inflate img 0 cs ds j] l by (cases "j < length cs") (auto simp: closed_table_def nth_append)
  show "(unat (bc_sector_number ((cs @ [tm]) ! j)) + unat (bc_sector_count ((cs @ [tm]) ! j))) * 512 = upto ds (Suc j)"
  proof (cases "j < length cs")
    case True
    then show ?thesis using assms(1) n stored_nth [of inflate img 0 cs ds j] l
      by (simp add: closed_table_def nth_append distrib_right upto_Suc stored_length [of inflate img])
  next
    case False
    then show ?thesis using assms n l by (simp add: closed_table_def nth_append)
  qed
qed

section \<open>Finding the chunk\<close>

lemma search_from_finds:
  "(\<And>j. j < m \<Longrightarrow> f j = ret (g j)) \<Longrightarrow> (\<And>j. j < i \<Longrightarrow> g j = Less) \<Longrightarrow> g i = Equal \<Longrightarrow> (\<And>j. i < j \<Longrightarrow> j < m \<Longrightarrow> g j = Greater) \<Longrightarrow>
   base \<le> i \<Longrightarrow> i < base + n \<Longrightarrow> base + n \<le> m \<Longrightarrow> search_from f base n = ret i"
proof (induction n arbitrary: base rule: less_induct)
  case (less n)
  show ?case
  proof (cases "n \<le> 1")
    case True
    then have "i = base" using less.prems(5,6) by simp
    then show ?thesis using True by (simp add: search_from.simps [of f base n])
  next
    case False
    define half where "half = n div 2"
    have h: "0 < half" "half < n" "half \<le> n - half" using False by (auto simp: half_def)
    have f: "f (base + half) = ret (g (base + half))" using less.prems(1) [of "base + half"] less.prems(7) h by simp
    have "search_from f (if g (base + half) = Greater then base else base + half) (n - half) = ret i"
    proof (cases "i < base + half")
      case True
      then have "g (base + half) = Greater" using less.prems(4) [of "base + half"] less.prems(7) h by simp
      then show ?thesis using less.IH [OF _ less.prems(1-4), of "n - half" base] less.prems(5-7) h True by simp
    next
      case False
      then have "g (base + half) \<noteq> Greater" using less.prems(2) [of "base + half"] less.prems(3) by (cases "i = base + half") auto
      then show ?thesis using less.IH [OF _ less.prems(1-4), of "n - half" "base + half"] less.prems(5-7) h False by simp
    qed
    then show ?thesis using False f by (simp add: search_from.simps [of f base n] Let_def flip: half_def)
  qed
qed

lemma chunk_compare:
  assumes table: "closed_table inflate img cs tm ds" and small: "length (concat ds) < 2 ^ 63" and j: "j \<le> length ds"
  shows "contains_sector ((cs @ [tm]) ! j) (x div 512) = ret (upto ds j \<le> x \<and> x < upto ds (Suc j))"
    and "sector_order (x div 512) ((cs @ [tm]) ! j) =
      ret (if x < upto ds j then Greater else if upto ds (Suc j) \<le> x then Less else Equal)"
proof -
  let ?c = "(cs @ [tm]) ! j" let ?e = "unat (bc_sector_number ?c) + unat (bc_sector_count ?c)"
  have n: "x div 512 < unat (bc_sector_number ?c) \<longleftrightarrow> x < upto ds j"
    using chunk_bounds(1) [OF table j] by (metis div_less_iff_less_mult zero_less_numeral)
  have e: "x div 512 < ?e \<longleftrightarrow> x < upto ds (Suc j)"
    using chunk_bounds(2) [OF table j] by (metis div_less_iff_less_mult zero_less_numeral)
  have "?e * 512 < 2 ^ 63" using chunk_bounds(2) [OF table j] upto_le [of "Suc j" ds] small by simp
  then have "?e < 2 ^ 64" by simp
  then show "contains_sector ?c (x div 512) = ret (upto ds j \<le> x \<and> x < upto ds (Suc j))"
    "sector_order (x div 512) ?c = ret (if x < upto ds j then Greater else if upto ds (Suc j) \<le> x then Less else Equal)"
    using n e by (auto simp: contains_sector_def sector_order_def chunk_end_def not_less)
qed

lemma binary_search_chunk:
  assumes table: "closed_table inflate img cs tm ds" and small: "length (concat ds) < 2 ^ 63"
    and i: "i < length ds" "upto ds i \<le> x" "x < upto ds (Suc i)"
  shows "binary_search_by (sector_order (x div 512)) (cs @ [tm]) = (ret (Some i) :: ('z, 'e, nat option) act)"
proof -
  let ?g = "\<lambda>j. if x < upto ds j then Greater else if upto ds (Suc j) \<le> x then Less else Equal"
  have l: "length cs = length ds" using table by (auto simp: closed_table_def dest: laid_out_length)
  have f: "sector_order (x div 512) ((cs @ [tm]) ! j) = ret (?g j)" if "j < length (cs @ [tm])" for j
    using chunk_compare(2) [OF table small, of j x] that l by simp
  have less: "?g j = Less" if "j < i" for j
    using upto_mono [of "Suc j" i ds] upto_mono [of j i ds] that i(2) by simp
  have greater: "?g j = Greater" if "i < j" for j
    using upto_mono [of "Suc i" j ds] that i(3) by simp
  have eq: "?g i = Equal" using i by simp
  have "search_from (\<lambda>j. sector_order (x div 512) ((cs @ [tm]) ! j)) 0 (length (cs @ [tm])) = (ret i :: ('z, 'e, nat) act)"
    by (rule search_from_finds [where g = ?g and m = "length (cs @ [tm])", OF f less eq greater]) (use i l in simp_all)
  then show ?thesis using i l by (simp add: binary_search_by_def f)
qed

lemma near_chunk_ok:
  assumes table: "closed_table inflate img cs tm ds" and small: "length (concat ds) < 2 ^ 63" and k: "k < length ds"
    and x: "x < length (concat ds)"
  shows "\<exists>r. near_chunk (cs @ [tm]) k (x div 512) = ret r \<and>
    (\<forall>i. r = Some i \<longrightarrow> i < length ds \<and> upto ds i \<le> x \<and> x < upto ds (Suc i))"
proof -
  have l: "length cs = length ds" using table by (auto simp: closed_table_def dest: laid_out_length)
  have "k + 1 < length ds" if "x < upto ds (Suc (k + 1))" "upto ds (k + 1) \<le> x"
    using that x upto_mono [of "length ds" "k + 1" ds] by (cases "k + 1 < length ds") auto
  moreover note c = chunk_compare(1) [OF table small, of k x] chunk_compare(1) [OF table small, of "Suc k" x]
  ultimately show ?thesis using k l by (auto simp: near_chunk_def c)
qed

section \<open>The state of the reader\<close>

definition part_ready ::
  "('s \<Rightarrow> nat \<Rightarrow> bool) \<Rightarrow> blkx_chunk list \<Rightarrow> bytes list \<Rightarrow> 's dmg_partition \<Rightarrow> nat \<Rightarrow> bool" where
  "part_ready rdy chunks ds p x \<longleftrightarrow> dp_chunks p = chunks \<and> dp_pos p = x \<and> (\<exists>q. rdy (dp_r p) q) \<and>
     (\<forall>(i, d) \<in> set (dp_cache p). i < length ds \<and> d = ds ! i) \<and> set (dp_order p) \<subseteq> {..<length ds}"

lemma get_chunk_ok:
  assumes "closed_table inflate img cs tm ds" and "length (concat ds) < 2 ^ 63"
    and "part_ready rdy (cs @ [tm]) ds p x" and "x < length (concat ds)"
  shows "\<exists>i. get_chunk_at_pos p x = (ret (Some i) :: ('z, std_error, nat option) act) \<and> i < length ds \<and> upto ds i \<le> x \<and> x < upto ds (Suc i)"
proof -
  obtain i where i: "i < length ds" "upto ds i \<le> x" "x < upto ds (Suc i)" using upto_hit [OF assms(4)] by blast
  note search = binary_search_chunk [OF assms(1,2) i]
  have chunks: "dp_chunks p = cs @ [tm]" using assms(3) by (simp add: part_ready_def)
  show ?thesis
  proof (cases "dp_order p = []")
    case True
    then show ?thesis using i chunks by (intro exI [of _ i]) (simp add: get_chunk_at_pos_def search)
  next
    case False
    then have "last (dp_order p) < length ds" using assms(3) last_in_set by (auto simp: part_ready_def)
    from near_chunk_ok [OF assms(1,2) this assms(4)] obtain r where
      r: "near_chunk (cs @ [tm]) (last (dp_order p)) (x div 512) = (ret r :: ('z, std_error, nat option) act)"
        "\<forall>i. r = Some i \<longrightarrow> i < length ds \<and> upto ds i \<le> x \<and> x < upto ds (Suc i)" by blast
    then show ?thesis using False i chunks by (cases r) (auto simp: get_chunk_at_pos_def search)
  qed
qed

section \<open>Reading\<close>

lemma chunk_data_ok:
  assumes "std_disk dev img rdy" and "rdy s q" and "stored inflate img c d" and "length d < 2 ^ 63"
  shows "\<exists>s' q'. chunk_data dev inflate c s = (Ok d, s') \<and> rdy s' q'"
proof -
  obtain ty where ty: "chunk_ty c = Some ty" using assms(3) by (cases "chunk_ty c") (auto simp: stored_def)
  show ?thesis using assms(2-4) ty std_disk.inflate_chunk_ok [OF assms(1-3)] std_disk.compressed_bytes_ok(2) [OF assms(1,2)]
    by (cases ty) (auto simp: chunk_data_def chunk_size_def stored_def ret_run)
qed

lemma cache_insert_ok:
  assumes "part_ready rdy chunks ds p x" and "i < length ds"
  shows "part_ready rdy chunks ds (cache_insert i (ds ! i) p) x" and "map_of (dp_cache (cache_insert i (ds ! i) p)) i = Some (ds ! i)"
proof -
  have "set (tl xs) \<subseteq> set xs" for xs :: "nat list" by (cases xs) auto
  then show "part_ready rdy chunks ds (cache_insert i (ds ! i) p) x"
    using assms by (fastforce simp: cache_insert_def part_ready_def Let_def)
qed (simp add: cache_insert_def Let_def)

lemma load_chunk_ok:
  assumes "std_disk dev img rdy" and "closed_table inflate img cs tm ds" and "length (concat ds) < 2 ^ 63"
    and "part_ready rdy (cs @ [tm]) ds p x" and "i < length ds"
  shows "\<exists>p'. load_chunk dev inflate i p = (Ok (), p') \<and> part_ready rdy (cs @ [tm]) ds p' x \<and> map_of (dp_cache p') i = Some (ds ! i)"
proof (cases "map_of (dp_cache p) i")
  case None
  have l: "length cs = length ds" using assms(2) by (auto simp: closed_table_def dest: laid_out_length)
  obtain q where q: "rdy (dp_r p) q" using assms(4) by (auto simp: part_ready_def)
  have c: "stored inflate img (cs ! i) (ds ! i)" using stored_nth [of inflate img 0 cs ds i] assms(2,5) l by (simp add: closed_table_def)
  have "length (ds ! i) < 2 ^ 63" using upto_Suc [OF assms(5)] upto_le [of "Suc i" ds] assms(3) by simp
  from chunk_data_ok [OF assms(1) q c this] obtain s' q' where
    s': "chunk_data dev inflate (cs ! i) (dp_r p) = (Ok (ds ! i), s')" "rdy s' q'" by blast
  have "part_ready rdy (cs @ [tm]) ds (p\<lparr>dp_r := s'\<rparr>) x" using assms(4) s'(2) by (auto simp: part_ready_def)
  note ok = cache_insert_ok [OF this assms(5)]
  have "dp_chunks p = cs @ [tm]" using assms(4) by (simp add: part_ready_def)
  then have "load_chunk dev inflate i p = (Ok (), cache_insert i (ds ! i) (p\<lparr>dp_r := s'\<rparr>))"
    using None assms(5) l s'(1) by (simp add: load_chunk_def on_source_def bnd_def nth_append)
  with ok show ?thesis by blast
next
  case (Some d)
  then have "d = ds ! i" using assms(4) by (auto simp: part_ready_def dest: map_of_SomeD)
  moreover have "part_ready rdy (cs @ [tm]) ds (cache_touch i p) x"
    using assms(4,5) by (auto simp: part_ready_def cache_touch_def dest: set_remove1_subset [THEN subsetD])
  ultimately show ?thesis using Some by (auto simp: load_chunk_def cache_touch_def)
qed

lemma dp_read_ok:
  assumes "std_disk dev img rdy" and "closed_table inflate img cs tm ds" and "length (concat ds) < 2 ^ 63"
    and "part_ready rdy (cs @ [tm]) ds p x" and "0 < n"
    and "x + n \<le> length (concat ds)"
  shows "\<exists>k p'. 0 < k \<and> k \<le> n \<and> dp_read dev inflate n p = (Ok (take k (drop x (concat ds))), p') \<and>
    part_ready rdy (cs @ [tm]) ds p' (x + k)"
proof -
  have "x < length (concat ds)" using assms(5,6) by simp
  from get_chunk_ok [OF assms(2,3,4) this] obtain i where
    i: "get_chunk_at_pos p x = (ret (Some i) :: ('a dmg_partition, std_error, nat option) act)" "i < length ds"
      "upto ds i \<le> x" "x < upto ds (Suc i)" by blast
  have l: "length cs = length ds" using assms(2) by (auto simp: closed_table_def dest: laid_out_length)
  have pq: "dp_chunks p = cs @ [tm]" "dp_pos p = x" using assms(4) by (simp_all add: part_ready_def)
  have start: "unat (bc_sector_number ((cs @ [tm]) ! i)) * 512 = upto ds i"
    using chunk_bounds(1) [OF assms(2)] i(2) by simp
  have small: "upto ds i < 2 ^ 64" "x + n < 2 ^ 64" using upto_le [of i ds] assms(3,6) by simp_all
  from load_chunk_ok [OF assms(1-4) i(2)] obtain p1 where
    p1: "load_chunk dev inflate i p = (Ok (), p1)" "part_ready rdy (cs @ [tm]) ds p1 x" "map_of (dp_cache p1) i = Some (ds ! i)" by blast
  have px: "dp_pos p1 = x" using p1(2) by (simp add: part_ready_def)
  have err: "map_err (\<lambda>_. OtherError) (load_chunk dev inflate i) p = (Ok (), p1)" by (simp add: map_err_def p1(1))
  let ?av = "length (ds ! i) - (x - upto ds i)" let ?k = "min n ?av"
  have av: "0 < ?av" using upto_Suc [OF i(2)] i(3,4) by simp
  have slice: "take ?k (drop (x - upto ds i) (ds ! i)) = take ?k (drop x (concat ds))"
    by (rule concat_slice [OF i(2,3)]) (use upto_Suc [OF i(2)] i(3,4) in \<open>simp add: min_def, arith\<close>)
  have "dp_read dev inflate n p = (Ok (take ?k (drop x (concat ds))), p1\<lparr>dp_pos := x + ?k\<rparr>)"
    using assms(5) av i(1) pq start small
    by (simp add: dp_read_def Let_def err px p1(3) slice bnd_Ok [where m = "map_err (\<lambda>_. OtherError) (load_chunk dev inflate i)"] ret_run)
  moreover have "part_ready rdy (cs @ [tm]) ds (p1\<lparr>dp_pos := x + ?k\<rparr>) (x + ?k)" using p1(2) by (simp add: part_ready_def)
  ultimately show ?thesis using av assms(5) by (intro exI [of _ ?k]) auto
qed

text \<open>What makes everything that is proved of a device of the HFS+ library hold of a partition.\<close>

lemma partition_disk:
  assumes "std_disk dev img rdy" and "closed_table inflate img cs tm ds" and "length (concat ds) < 2 ^ 63"
  shows "disk (dp_ops shown dev inflate) (concat ds) (part_ready rdy (cs @ [tm]) ds)"
proof unfold_locales
  fix p x y assume p: "part_ready rdy (cs @ [tm]) ds p x" and y: "y \<le> length (concat ds)"
  have "y < 2 ^ 63" using y assms(3) by simp
  then have "dp_seek (Start y) p = (Ok y, p\<lparr>dp_pos := y\<rparr>)" by (simp add: dp_seek_def)
  then show "\<exists>p'. rs_seek (dp_ops shown dev inflate) (Start y) p = (Ok y, p') \<and> part_ready rdy (cs @ [tm]) ds p' y"
    using p by (auto simp: dp_ops_def map_err_def part_ready_def)
next
  fix p x n assume "part_ready rdy (cs @ [tm]) ds p x" "0 < n" "x + n \<le> length (concat ds)"
  from dp_read_ok [OF assms this] show "\<exists>k p'. 0 < k \<and> k \<le> n \<and>
      rs_read (dp_ops shown dev inflate) n p = (Ok (take k (drop x (concat ds))), p') \<and> part_ready rdy (cs @ [tm]) ds p' (x + k)"
    by (fastforce simp: dp_ops_def map_err_def)
qed

text \<open>A sequence of reads at given positions.\<close>

definition read_each :: "'s read_seek \<Rightarrow> (nat \<times> nat) list \<Rightarrow> ('s, hfs_error, bytes list) act" where
  "read_each dev reqs = map_act (\<lambda>(q, n). bnd (rs_seek dev (Start q)) (\<lambda>_. read_exact (rs_read dev) n)) reqs"

context disk begin

lemma read_each_ok:
  "ready s p \<Longrightarrow> list_all (\<lambda>(q, n). q + n \<le> length content) reqs \<Longrightarrow>
   fst (read_each dev reqs s) = Ok (map (\<lambda>(q, n). take n (drop q content)) reqs)"
proof (induction reqs arbitrary: s p)
  case (Cons r reqs)
  obtain q n where r: "r = (q, n)" by (cases r)
  have "q + n \<le> length content" using Cons.prems(2) by (simp add: r)
  from read_exact_from [OF Cons.prems(1) this] obtain s1 s2 where
    s: "rs_seek dev (Start q) s = (Ok q, s1)" "read_exact (rs_read dev) n s1 = (Ok (take n (drop q content)), s2)" "ready s2 (q + n)" by blast
  have "list_all (\<lambda>(q, n). q + n \<le> length content) reqs" using Cons.prems(2) by simp
  from Cons.IH [OF s(3) this] obtain s3 where
    s3: "read_each dev reqs s2 = (Ok (map (\<lambda>(q, n). take n (drop q content)) reqs), s3)" by (metis prod.collapse)
  then have m: "map_act (\<lambda>(q, n). bnd (rs_seek dev (Start q)) (\<lambda>_. read_exact (rs_read dev) n)) reqs s2 =
      (Ok (map (\<lambda>(q, n). take n (drop q content)) reqs), s3)" by (simp add: read_each_def)
  show ?case using s(1,2) m by (simp add: read_each_def r bnd_assoc ret_run act_simps)
qed (simp add: read_each_def ret_run)

end

lemma sum_sizes_ok:
  "laid_out (stored inflate img) s cs ds \<Longrightarrow> chunk_ty tm = Some Term \<Longrightarrow> n + length (concat ds) < 2 ^ 64 \<Longrightarrow>
   sum_sizes (cs @ [tm]) n = ret (n + length (concat ds))"
proof (induction "stored inflate img" s cs ds arbitrary: n rule: laid_out.induct)
  case (2 s c cs d ds)
  have "chunk_ty c \<noteq> Some Term" "unat (bc_sector_count c) * 512 = length d"
    using "2.prems"(1) by (auto simp: stored_def)
  then show ?case using "2.hyps" [of "n + length d"] "2.prems" by (simp add: chunk_size_def add.assoc)
qed simp_all

lemma into_reader_ok:
  assumes "i < length (pl_blkx x)" and "fst (bt_read_from slice_read (pa_data (pl_blkx x ! i))) = Ok table"
    and "bt_chunks table = cs @ [tm]" and "closed_table inflate img cs tm ds" and "length (concat ds) < 2 ^ 63" and "rdy s q"
  shows "\<exists>p. into_partition_reader x i s = (Ok p, s) \<and> dp_total p = length (concat ds) \<and> part_ready rdy (cs @ [tm]) ds p 0"
proof -
  let ?p = "\<lparr>dp_r = s, dp_chunks = cs @ [tm], dp_pos = 0, dp_total = length (concat ds), dp_cache = [], dp_order = []\<rparr>"
  have n: "sum_sizes (cs @ [tm]) 0 = ret (length (concat ds))"
    using sum_sizes_ok [of inflate img 0 cs ds tm 0] assms(4,5) by (simp add: closed_table_def)
  have "into_partition_reader x i s = (Ok ?p, s)"
    using assms(1-3) by (simp add: into_partition_reader_def partition_table_def part_table_def n)
  moreover have "part_ready rdy (cs @ [tm]) ds ?p 0" using assms(6) by (auto simp: part_ready_def)
  ultimately show ?thesis by (intro exI [of _ ?p]) simp
qed

end
