(* ===== verification/DmgProps.thy ===== *)
theory DmgProps
  imports DmgRead
begin

text \<open>The properties of the disk images.\<close>

section \<open>Written and read\<close>

lemma finish_ok:
  assumes "writer_ok d" and "xml = write_xml (dw_xml d)"
    and "koly = koly_new sid (of_nat (length (dw_w d))) (dw_sector d) (of_nat (length (dw_w d))) (of_nat (length xml))
      (crc (dw_data d)) (crc (dw_main d))"
  shows "\<exists>d'. finish vec_put (\<lambda>v. (Ok (length v), v)) write_xml crc sid d = (Ok (), d') \<and>
    dw_xml d' = dw_xml d \<and> dw_w d' = dw_w d @ xml @ koly_layout koly"
proof -
  let ?at = "\<lambda>v :: bytes. (Ok (length v) :: (std_error, nat) res, v)"
  have s1: "on_out ?at d = (Ok (length (dw_w d)), d)" by (simp add: on_out_def)
  let ?d = "d\<lparr>dw_w := dw_w d @ xml\<rparr>"
  have s2: "on_out (std_write_all vec_put xml) d = (Ok (), ?d)" by (rule on_out_put)
  have "koly_write_to koly vec_put (dw_w d @ xml) = (Ok (), (dw_w d @ xml) @ koly_layout koly)"
    using vec_out.writes_koly [of koly] unfolding writes_def by auto
  then have s3: "on_out (koly_write_to koly vec_put) ?d = (Ok (), ?d\<lparr>dw_w := dw_w d @ xml @ koly_layout koly\<rparr>)"
    by (simp add: on_out_def)
  show ?thesis
    by (simp add: finish_def Let_def bnd_Ok [where m = "on_out ?at", OF s1] assms(2,3) [symmetric]
        bnd_Ok [where m = "on_out (std_write_all vec_put xml)", OF s2] s3)
qed

lemma mbr_pieces: "pieces CHUNK_BYTES (fat32_mbr n) = [fat32_mbr n]" and length_fat32_mbr: "length (fat32_mbr n) = 512"
proof -
  show l: "length (fat32_mbr n) = 512"
    unfolding fat32_mbr_def by (rule mbr_roundtrip(2)) (simp add: set_partition_def mbr_new_def)
  then have "fat32_mbr n \<noteq> []" by auto
  then show "pieces CHUNK_BYTES (fat32_mbr n) = [fat32_mbr n]"
    using l by (simp add: pieces_simps CHUNK_BYTES_def)
qed

text \<open>The image that is written, part by part.\<close>

lemma create_fat32_ok:
  fixes fat32 :: bytes
  defines "mbr \<equiv> fat32_mbr (length fat32 div 512)" and "ps \<equiv> pieces CHUNK_BYTES fat32"
  assumes "length fat32 mod 512 = 0" and "length fat32 div 512 < 2 ^ 32"
    and "packed_data = deflate mbr @ concat (map deflate ps)" and "length packed_data < 2 ^ 62"
  shows "\<exists>d x koly sectors mains p0 t0 c0 e0 p1 t1 c1 e1.
    create_fat32 vec_put (\<lambda>v. (Ok (length v), v)) deflate write_xml crc sid fat32 (dw_new []) = (Ok (), d) \<and>
    dw_xml d = x \<and> dw_w d = packed_data @ write_xml x @ koly_layout koly \<and>
    koly = koly_new sid (of_nat (length packed_data)) sectors (of_nat (length packed_data)) (of_nat (length (write_xml x))) (crc packed_data) mains \<and>
    pl_blkx x = [p0, p1] \<and> pl_plst x = [] \<and> p0 = part_of (- 1) MBR_NAME t0 \<and> p1 = part_of 0 FAT32_NAME t1 \<and>
    bt_ok t0 \<and> bt_chunks t0 = c0 @ [e0] \<and> chunk_ty e0 = Some Term \<and>
    laid_out (packed deflate packed_data) 0 c0 [mbr] \<and>
    bt_ok t1 \<and> bt_chunks t1 = c1 @ [e1] \<and> chunk_ty e1 = Some Term \<and>
    laid_out (packed deflate packed_data) 0 c1 ps"
proof -
  let ?d0 = "dw_new [] :: bytes dmg_writer"
  have len: "length mbr = 512" "pieces CHUNK_BYTES mbr = [mbr]" by (simp_all add: mbr_def length_fat32_mbr mbr_pieces)
  have f41: "length fat32 < 2 ^ 41" using assms(4) by simp
  have ok0: "writer_ok ?d0" by (simp add: writer_ok_def dw_new_def)
  have b0: "512 dvd length mbr" "length mbr < 2 ^ 41" "[mbr] = pieces CHUNK_BYTES mbr"
    "length (dw_w ?d0) + length (concat (map deflate [mbr])) < 2 ^ 64"
    "unat (dw_sector ?d0) + length mbr div 512 < 2 ^ 64" "length (pl_blkx (dw_xml ?d0)) < 2 ^ 31"
    using assms(6) by (simp_all add: len dw_new_def plist_default_def assms(5))
  from add_partition_ok [where crc = crc and name = MBR_NAME, OF ok0 b0] obtain d1 p0 t0 c0 e0 where
    d1: "add_partition vec_put deflate crc MBR_NAME mbr ?d0 = (Ok (), d1)" "writer_ok d1" "dw_w d1 = deflate mbr"
      "unat (dw_sector d1) = 1" "dw_xml d1 = plist_add p0 plist_default" "p0 = part_of (- 1) MBR_NAME t0"
      "bt_ok t0" "bt_chunks t0 = c0 @ [e0]" "chunk_ty e0 = Some Term"
      "laid_out (packed deflate (dw_w d1)) 0 c0 [mbr]" by (auto simp: dw_new_def len plist_default_def)
  have d512: "512 dvd length fat32" using assms(3) by (simp add: mod_eq_0_iff_dvd)
  have b1: "512 dvd length fat32" "length fat32 < 2 ^ 41" "ps = pieces CHUNK_BYTES fat32"
    "length (dw_w d1) + length (concat (map deflate ps)) < 2 ^ 64"
    "unat (dw_sector d1) + length fat32 div 512 < 2 ^ 64" "length (pl_blkx (dw_xml d1)) < 2 ^ 31"
    using assms(6) f41 d512 d1(3,4,5) assms(4) by (simp_all add: ps_def assms(5) plist_add_def plist_default_def)
  from add_partition_ok [where crc = crc and name = FAT32_NAME, OF d1(2) b1] obtain d2 p1 t1 c1 e1 where
    d2: "add_partition vec_put deflate crc FAT32_NAME fat32 d1 = (Ok (), d2)" "writer_ok d2" "dw_w d2 = packed_data"
      "dw_xml d2 = plist_add p1 (dw_xml d1)" "p1 = part_of 0 FAT32_NAME t1"
      "bt_ok t1" "bt_chunks t1 = c1 @ [e1]" "chunk_ty e1 = Some Term"
      "laid_out (packed deflate (dw_w d2)) 0 c1 ps" by (auto simp: d1(3,5) assms(5) plist_add_def plist_default_def)
  have l0: "laid_out (packed deflate packed_data) 0 c0 [mbr]"
    using laid_out_more [OF d1(10), of "concat (map deflate ps)"] by (simp add: d1(3) assms(5))
  have x: "pl_blkx (dw_xml d2) = [p0, p1]" "pl_plst (dw_xml d2) = []" by (simp_all add: d2(4) d1(5) plist_add_def plist_default_def)
  let ?koly = "koly_new sid (of_nat (length packed_data)) (dw_sector d2) (of_nat (length packed_data))
    (of_nat (length (write_xml (dw_xml d2)))) (crc packed_data) (crc (dw_main d2))"
  have dat: "dw_data d2 = packed_data" using d2(2,3) by (simp add: writer_ok_def)
  obtain d3 where d3: "finish vec_put (\<lambda>v. (Ok (length v), v)) write_xml crc sid d2 = (Ok (), d3)"
    "dw_xml d3 = dw_xml d2" "dw_w d3 = packed_data @ write_xml (dw_xml d2) @ koly_layout ?koly"
    using finish_ok [where write_xml = write_xml and crc = crc and sid = sid, OF d2(2) refl refl] unfolding d2(3) dat by blast
  have "create_fat32 vec_put (\<lambda>v. (Ok (length v), v)) deflate write_xml crc sid fat32 ?d0 = (Ok (), d3)"
    using assms(3,4) by (simp add: create_fat32_def Let_def mbr_def [symmetric] d3(1)
        bnd_Ok [where m = "add_partition vec_put deflate crc MBR_NAME mbr", OF d1(1)]
        bnd_Ok [where m = "add_partition vec_put deflate crc FAT32_NAME fat32", OF d2(1)])
  then show ?thesis using d3(2,3) x d1(6-9) l0 d2(5-9) unfolding d2(3) by blast
qed

lemma dmg_new_ok:
  assumes "img = packed_data @ xml @ koly_layout koly" and "koly_ok koly" and "parse xml = Some x"
    and "ko_plist_offset koly = of_nat (length packed_data)" and "ko_plist_length koly = of_nat (length xml)"
    and "length packed_data < 2 ^ 62" and "length xml < 2 ^ 62"
  shows "\<exists>s q. dmg_new std_cursor parse (img, 0) = (Ok (koly, x), s) \<and> std_cursor_ready img s q"
proof -
  let ?at = "length packed_data + length xml"
  have len: "length img = ?at + 512" by (simp add: assms(1) length_koly_layout [OF assms(2)])
  then have l64: "length img < 2 ^ 64" using assms(6,7) by simp
  have u: "unat (ko_plist_offset koly) = length packed_data" "unat (ko_plist_length koly) = length xml"
    using assms(4-7) by (simp_all add: unat_small)
  have s1: "sf_seek std_cursor (End (- int KOLY_SIZE)) (img, 0) = (Ok ?at, (img, ?at))"
    using std_cursor_seek_end [of 512 img 0] len l64 by (simp add: KOLY_SIZE_def)
  have src: "std_source (sf_read std_cursor) (ahead img (std_cursor_ready img))"
    unfolding std_source_def by (rule std_cursor_disk.ahead_source)
  have "ahead img (std_cursor_ready img) (img, ?at) (koly_layout koly @ [])"
    unfolding ahead_def std_cursor_ready_def using len l64 by (intro exI [of _ ?at]) (simp add: assms(1))
  from readsD [OF std_source.reads_koly [OF src assms(2)] this] obtain s2 p2 where
    s2: "koly_read_body (sf_read std_cursor) (img, ?at) = (Ok koly, s2)" "std_cursor_ready img s2 p2"
    by (auto simp: ahead_def)
  have "length packed_data \<le> length img" using len by simp
  from std_cursor_disk.seek_start [OF s2(2) this] obtain s3 where
    s3: "sf_seek std_cursor (Start (length packed_data)) s2 = (Ok (length packed_data), s3)"
      "std_cursor_ready img s3 (length packed_data)" by blast
  have "length packed_data + length xml \<le> length img" using len by simp
  from std_cursor_disk.take_to_end_at [OF s3(2) this] obtain s4 q where
    s4: "take_to_end (sf_read std_cursor) (length xml) s3 = (Ok xml, s4)" "std_cursor_ready img s4 q"
    by (auto simp: assms(1))
  have "koly_read_from std_cursor (img, 0) = (Ok koly, s2)"
    by (simp add: koly_read_from_def bnd_Ok [where m = "sf_seek std_cursor (End (- int KOLY_SIZE))", OF s1] s2(1))
  then have "dmg_new std_cursor parse (img, 0) = (Ok (koly, x), s4)"
    by (simp add: dmg_new_def u bnd_Ok [where m = "koly_read_from std_cursor"] assms(3) ret_run
        bnd_Ok [where m = "sf_seek std_cursor (Start (length packed_data))", OF s3(1)]
        bnd_Ok [where m = "take_to_end (sf_read std_cursor) (length xml)", OF s4(1)])
  with s4(2) show ?thesis by blast
qed

lemma data_checksum_ok:
  assumes "std_cursor_ready img s p" and "img = packed_data @ more_data" and "ko_data_fork_offset koly = 0"
    and "ko_data_fork_length koly = of_nat (length packed_data)" and "length packed_data < 2 ^ 62"
  shows "fst (data_checksum std_cursor crc koly s) = Ok (crc packed_data)"
proof -
  have "0 \<le> length img" by simp
  from std_cursor_disk.seek_start [OF assms(1) this] obtain s1 where
    s1: "sf_seek std_cursor (Start 0) s = (Ok 0, s1)" "std_cursor_ready img s1 0" by blast
  have "0 + length packed_data \<le> length img" by (simp add: assms(2))
  from std_cursor_disk.take_to_end_at [OF s1(2) this] obtain s2 where
    s2: "take_to_end (sf_read std_cursor) (length packed_data) s1 = (Ok packed_data, s2)" by (auto simp: assms(2))
  have "unat (ko_data_fork_length koly) = length packed_data" using assms(4,5) by (simp add: unat_small)
  then show ?thesis
    by (simp add: data_checksum_def assms(3) bnd_Ok [where m = "sf_seek std_cursor (Start 0)", OF s1(1)]
        bnd_Ok [where m = "take_to_end (sf_read std_cursor) (length packed_data)", OF s2] ret_run)
qed

text \<open>C29: an image that \<open>create_fat32\<close> wrote is read back: the reader finds the trailer and two partitions with their
  names, the first one is the master boot record, the second one the bytes that were given, and the checksum of the data
  is the one in the trailer. This rests on the documented inverse of compression and of the XML writer.\<close>

theorem dmg_roundtrip:
  assumes "\<And>d. inflate (deflate d) = Some d" and "\<And>x. parse (write_xml x) = Some x" and "length sid = 16"
    and "length fat32 mod 512 = 0" and "length fat32 div 512 < 2 ^ 32" and "mbr = fat32_mbr (length fat32 div 512)"
    and "length (deflate mbr @ concat (map deflate (pieces CHUNK_BYTES fat32))) < 2 ^ 62"
    and "create_fat32 vec_put (\<lambda>v. (Ok (length v), v)) deflate write_xml crc sid fat32 (dw_new []) = (r, d)"
    and "length (write_xml (dw_xml d)) < 2 ^ 62"
  shows "r = Ok () \<and> (\<exists>koly x s. dmg_new std_cursor parse (dw_w d, 0) = (Ok (koly, x), s) \<and>
    map pa_name (pl_blkx x) = [MBR_NAME, FAT32_NAME] \<and>
    fst (partition_data std_cursor inflate x 0 s) = Ok mbr \<and> fst (partition_data std_cursor inflate x 1 s) = Ok fat32 \<and>
    fst (data_checksum std_cursor crc koly s) = Ok (uc_value (ko_data_fork_digest koly)))"
proof -
  define data where "data = deflate mbr @ concat (map deflate (pieces CHUNK_BYTES fat32))"
  have l: "length data < 2 ^ 62" using assms(7) by (simp add: data_def)
  from create_fat32_ok [where sid = sid and crc = crc and write_xml = write_xml, OF assms(4,5) data_def [unfolded assms(6)] l]
  obtain x koly sectors mains p0 t0 c0 e0 p1 t1 c1 e1 where
    d: "r = Ok ()" "dw_xml d = x" "dw_w d = data @ write_xml x @ koly_layout koly"
      "koly = koly_new sid (of_nat (length data)) sectors (of_nat (length data)) (of_nat (length (write_xml x))) (crc data) mains"
      "pl_blkx x = [p0, p1]" "p0 = part_of (- 1) MBR_NAME t0" "p1 = part_of 0 FAT32_NAME t1"
    and c0: "bt_ok t0" "bt_chunks t0 = c0 @ [e0]" "chunk_ty e0 = Some Term"
      "laid_out (packed deflate data) 0 c0 [mbr]"
    and c1: "bt_ok t1" "bt_chunks t1 = c1 @ [e1]" "chunk_ty e1 = Some Term"
      "laid_out (packed deflate data) 0 c1 (pieces CHUNK_BYTES fat32)"
    unfolding assms(6) assms(8) [unfolded assms(6)] by auto
  have xl: "length (write_xml x) < 2 ^ 62" using assms(9) d(2) by simp
  have k: "koly_ok koly" "ko_plist_offset koly = of_nat (length data)" "ko_plist_length koly = of_nat (length (write_xml x))"
    "ko_data_fork_offset koly = 0" "ko_data_fork_length koly = of_nat (length data)" "ko_data_fork_digest koly = uc_new (crc data)"
    unfolding d(4) using assms(3) by (simp, simp_all add: koly_new_def)
  obtain s q where s: "dmg_new std_cursor parse (dw_w d, 0) = (Ok (koly, x), s)" "std_cursor_ready (dw_w d) s q"
    using dmg_new_ok [where parse = parse and xml = "write_xml x" and packed_data = data, OF d(3) k(1) assms(2) k(2,3) l xl] by blast
  have l0: "laid_out (stored inflate (dw_w d)) 0 c0 [mbr]" "laid_out (stored inflate (dw_w d)) 0 c1 (pieces CHUNK_BYTES fat32)"
    unfolding d(3) using laid_out_stored [OF laid_out_more [OF c0(4)]] laid_out_stored [OF laid_out_more [OF c1(4)]] assms(1)
    by simp_all
  have small: "length p < 2 ^ 64" if "p \<in> set (pieces CHUNK_BYTES fat32)" for p
    using pieces_facts [of CHUNK_BYTES 1 fat32 p] that by (simp add: CHUNK_BYTES_def)
  have "fst (partition_data std_cursor inflate x 0 s) = Ok mbr"
    using std_cursor_disk.partition_data_ok [of 0 x t0 c0 e0 inflate "dw_w d" 0 "[mbr]" s q]
      d(5,6) part_of_ok [OF c0(1)] c0(2,3) l0(1) s(2) by (auto simp: assms(6) length_fat32_mbr)
  moreover have "concat (pieces CHUNK_BYTES fat32) = fat32" by (rule concat_pieces) (simp add: CHUNK_BYTES_def)
  then have "fst (partition_data std_cursor inflate x 1 s) = Ok fat32"
    using std_cursor_disk.partition_data_ok [of 1 x t1 c1 e1 inflate "dw_w d" 0 "pieces CHUNK_BYTES fat32" s q]
      d(5,7) part_of_ok [OF c1(1)] c1(2,3) l0(2) small s(2) by auto
  moreover have "fst (data_checksum std_cursor crc koly s) = Ok (uc_value (ko_data_fork_digest koly))"
    using data_checksum_ok [OF s(2) d(3) k(4,5) l] by (simp add: k(6) uc_value_new)
  ultimately show ?thesis using d(1,5-7) s(1) by (auto simp: part_of_def)
qed

text \<open>C30: the reader of a partition whose chunks lie one behind the other and are of the kinds it knows (compressed with zlib, stored,
  zeros, ignored, comments), each with the bytes of its sectors, is a device of the HFS+ library: whatever it read before and
  whatever is left in its cache, a seek and an exact read inside the partition return what the chunks hold, in any order of
  the requests.\<close>

theorem partition_reader_reads:
  assumes "i < length (pl_blkx x)" and "fst (bt_read_from slice_read (pa_data (pl_blkx x ! i))) = Ok table"
    and "bt_chunks table = cs @ [tm]" and "closed_table inflate img cs tm ds" and "length (concat ds) < 2 ^ 63"
    and "std_disk dev img rdy" and "rdy s q" and "list_all (\<lambda>(q, n). q + n \<le> length (concat ds)) reqs"
  shows "\<exists>p. into_partition_reader x i s = (Ok p, s) \<and> dp_total p = length (concat ds) \<and>
    fst (read_each (dp_ops shown dev inflate) reqs p) = Ok (map (\<lambda>(q, n). take n (drop q (concat ds))) reqs)"
proof -
  obtain p where p: "into_partition_reader x i s = (Ok p, s)" "dp_total p = length (concat ds)" "part_ready rdy (cs @ [tm]) ds p 0"
    using into_reader_ok [where rdy = rdy, OF assms(1-5,7)] by blast
  have "disk (dp_ops shown dev inflate) (concat ds) (part_ready rdy (cs @ [tm]) ds)"
    by (rule partition_disk [OF assms(6,4,5)])
  from disk.read_each_ok [OF this p(3) assms(8)] p(1,2) show ?thesis by blast
qed

section \<open>Witnesses\<close>

text \<open>A textual form of a property list: numbers in unary, lists closed by a mark for their depth.\<close>

fun splits :: "'a \<Rightarrow> 'a list \<Rightarrow> 'a list \<Rightarrow> 'a list list" where
  "splits t acc [] = []"
| "splits t acc (x # xs) = (if x = t then rev acc # splits t [] xs else splits t (x # acc) xs)"

definition joined :: "'a \<Rightarrow> 'a list list \<Rightarrow> 'a list" where
  "joined t xss = concat (map (\<lambda>xs. xs @ [t]) xss)"

lemma splits_skip: "t \<notin> set xs \<Longrightarrow> splits t acc (xs @ t # ys) = (rev acc @ xs) # splits t [] ys"
  by (induction xs arbitrary: acc) auto

lemma splits_joined: "(\<And>xs. xs \<in> set xss \<Longrightarrow> t \<notin> set xs) \<Longrightarrow> splits t [] (joined t xss) = xss"
  by (induction xss) (simp_all add: joined_def splits_skip)

lemma set_joined: "set (joined t xss) \<subseteq> insert t (\<Union> (set ` set xss))"
  by (auto simp: joined_def)

definition enc1 :: "nat list \<Rightarrow> bytes" where "enc1 ns = joined 1 (map (\<lambda>n. replicate n 0) ns)"
definition enc2 :: "nat list list \<Rightarrow> bytes" where "enc2 xs = joined 2 (map enc1 xs)"
definition enc3 :: "nat list list list \<Rightarrow> bytes" where "enc3 xs = joined 3 (map enc2 xs)"
definition enc4 :: "nat list list list list \<Rightarrow> bytes" where "enc4 xs = joined 4 (map enc3 xs)"
definition dec1 :: "bytes \<Rightarrow> nat list" where "dec1 bs = map length (splits 1 [] bs)"
definition dec2 :: "bytes \<Rightarrow> nat list list" where "dec2 bs = map dec1 (splits 2 [] bs)"
definition dec3 :: "bytes \<Rightarrow> nat list list list" where "dec3 bs = map dec2 (splits 3 [] bs)"
definition dec4 :: "bytes \<Rightarrow> nat list list list list" where "dec4 bs = map dec3 (splits 4 [] bs)"

lemma enc_sets: "set (enc1 a) \<subseteq> {0, 1}" "set (enc2 b) \<subseteq> {0, 1, 2}" "set (enc3 c) \<subseteq> {0, 1, 2, 3}"
  by (auto simp: enc1_def enc2_def enc3_def joined_def)

lemma dec_enc: "dec1 (enc1 a) = a" "dec2 (enc2 b) = b" "dec3 (enc3 c) = c" "dec4 (enc4 d) = d"
proof -
  show 1: "dec1 (enc1 a) = a" for a
    by (subst dec1_def, subst enc1_def, subst splits_joined) (auto simp: comp_def)
  show 2: "dec2 (enc2 b) = b" for b
    using enc_sets(1) by (subst dec2_def, subst enc2_def, subst splits_joined) (fastforce simp: comp_def 1)+
  show 3: "dec3 (enc3 c) = c" for c
    using enc_sets(2) by (subst dec3_def, subst enc3_def, subst splits_joined) (fastforce simp: comp_def 2)+
  show "dec4 (enc4 d) = d"
    using enc_sets(3) by (subst dec4_def, subst enc4_def, subst splits_joined) (fastforce simp: comp_def 3)+
qed

definition part_fields :: "dmg_part \<Rightarrow> nat list list" where
  "part_fields p = [map of_char (pa_attributes p), pa_cfname p, map unat (pa_data p), map of_char (pa_id p), pa_name p]"

definition fields_part :: "nat list list \<Rightarrow> dmg_part" where
  "fields_part f = \<lparr>pa_attributes = map char_of (f ! 0), pa_cfname = f ! 1, pa_data = map of_nat (f ! 2),
     pa_id = map char_of (f ! 3), pa_name = f ! 4\<rparr>"

lemma fields_part_fields: "fields_part (part_fields p) = p"
  by (simp add: fields_part_def part_fields_def comp_def)

definition sample_write :: "plist \<Rightarrow> bytes" where
  "sample_write x = enc4 [map part_fields (pl_blkx x), map part_fields (pl_plst x)]"

definition sample_parse :: "bytes \<Rightarrow> plist option" where
  "sample_parse bs = (let f = dec4 bs in Some \<lparr>pl_blkx = map fields_part (f ! 0), pl_plst = map fields_part (f ! 1)\<rparr>)"

lemma sample_parse_write: "sample_parse (sample_write x) = Some x"
  by (simp add: sample_parse_def sample_write_def dec_enc comp_def fields_part_fields)

lemma sum_list_Suc: "sum_list (map (\<lambda>x. Suc (f x)) xs) = length xs + sum_list (map f xs)"
  by (induction xs) simp_all

lemma enc_lengths:
  "length (enc1 ns) = length ns + sum_list ns"
  "length (enc2 xs) = length xs + sum_list (map (\<lambda>x. length (enc1 x)) xs)"
  "length (enc3 ys) = length ys + sum_list (map (\<lambda>y. length (enc2 y)) ys)"
  "length (enc4 zs) = length zs + sum_list (map (\<lambda>z. length (enc3 z)) zs)"
  by (simp_all add: enc1_def enc2_def enc3_def enc4_def joined_def length_concat comp_def sum_list_Suc
      sum_list_Suc [of "\<lambda>x. x", simplified])

lemma sum_list_bytes: "sum_list (map unat (bs :: bytes)) \<le> 255 * length bs"
proof (induction bs)
  case (Cons b bs)
  have "unat b < 2 ^ LENGTH(8)" by (rule unsigned_less)
  then show ?case using Cons.IH by simp
qed simp

lemma length_bt_layout: "bt_ok t \<Longrightarrow> length (bt_layout t) = 204 + 40 * length (bt_chunks t)"
proof -
  have "length (concat (map bc_layout cs)) = 40 * length cs" for cs
    by (induction cs) (simp_all add: bc_layout_def)
  then show "bt_ok t \<Longrightarrow> length (bt_layout t) = 204 + 40 * length (bt_chunks t)"
    by (simp add: bt_layout_def bt_ok_def uc_ok_def uc_layout_def MISH_def)
qed

lemma sample_xml:
  "length (sample_write (dw_xml (snd (create_fat32 vec_put (\<lambda>v. (Ok (length v), v)) (\<lambda>d. d) sample_write (\<lambda>_. 0)
     (replicate 16 0) [] (dw_new []))))) < 2 ^ 62"
proof -
  have "length (fat32_mbr 0 :: bytes) < 2 ^ 62" by (simp add: length_fat32_mbr)
  then obtain d x p0 t0 c0 e0 p1 t1 c1 e1 where
    d: "snd (create_fat32 vec_put (\<lambda>v. (Ok (length v), v)) (\<lambda>d. d) sample_write (\<lambda>_. 0) (replicate 16 0) [] (dw_new [])) = d"
      "dw_xml d = x" "pl_blkx x = [p0, p1]" "pl_plst x = []" "p0 = part_of (- 1) MBR_NAME t0" "p1 = part_of 0 FAT32_NAME t1"
    and t: "bt_ok t0" "bt_chunks t0 = c0 @ [e0]" "laid_out (packed (\<lambda>d. d) (fat32_mbr 0)) 0 c0 [fat32_mbr 0]"
      "bt_ok t1" "bt_chunks t1 = c1 @ [e1]" "laid_out (packed (\<lambda>d. d) (fat32_mbr 0)) 0 c1 []"
    using create_fat32_ok [of "[]" "fat32_mbr 0" "\<lambda>d. d" sample_write "\<lambda>_. 0" "replicate 16 0"]
    by (auto simp: pieces_simps)
  have l: "length (bt_layout t0) = 284" "length (bt_layout t1) = 244"
    using laid_out_length [OF t(3)] laid_out_length [OF t(6)] by (simp_all add: length_bt_layout t)
  then have "sum_list (map unat (bt_layout t0)) \<le> 255 * 284" "sum_list (map unat (bt_layout t1)) \<le> 255 * 244"
    using sum_list_bytes [of "bt_layout t0"] sum_list_bytes [of "bt_layout t1"] by simp_all
  then show ?thesis
    by (simp add: d sample_write_def enc_lengths part_fields_def part_of_def l MBR_NAME_def FAT32_NAME_def show_int_def
        show_nat.simps)
qed

theorem dmg_roundtrip_witness:
  "\<exists>koly x s. dmg_new std_cursor sample_parse (dw_w (snd (create_fat32 vec_put (\<lambda>v. (Ok (length v), v)) (\<lambda>d. d) sample_write (\<lambda>_. 0)
     (replicate 16 0) [] (dw_new []))), 0) = (Ok (koly, x), s) \<and>
    fst (partition_data std_cursor Some x 0 s) = Ok (fat32_mbr 0) \<and> fst (partition_data std_cursor Some x 1 s) = Ok []"
proof -
  have "[] = fat32_mbr 0 \<or> length (fat32_mbr 0 :: bytes) = 512" by (simp add: length_fat32_mbr)
  then show ?thesis
    using dmg_roundtrip [of Some "\<lambda>d. d" sample_parse sample_write "replicate 16 0" "[]" "fat32_mbr 0" "\<lambda>_. 0", OF _ _ _ _ _ _ _ prod.collapse [symmetric] sample_xml]
    by (auto simp: sample_parse_write length_fat32_mbr pieces_simps)
qed

definition sample_chunks :: "blkx_chunk list" where
  "sample_chunks = [chunk_new Zlib 0 1 0 512, chunk_new Zero 1 1 0 0, chunk_new Comment 2 0 0 0, chunk_new Raw 2 1 512 512]"

definition sample_chunk_table :: blkx_table where
  "sample_chunk_table = (table_new 0 0 0)\<lparr>bt_sector_count := 3, bt_chunks := sample_chunks @ [chunk_term 3 1024]\<rparr>"

definition sample_stored :: bytes where "sample_stored = replicate 512 7 @ replicate 512 9"

lemma sample_closed_table:
  "closed_table Some sample_stored sample_chunks (chunk_term 3 1024) [replicate 512 7, replicate 512 0, [], replicate 512 9]"
  by (simp add: closed_table_def stored_def sample_chunks_def sample_stored_def chunk_term_def chunk_new_def chunk_ty_def
      chunk_type_roundtrip del: chunk_type_u32.simps)

text \<open>Bytes on both sides of the border between a compressed chunk and zeros, then between zeros and a stored chunk.\<close>

theorem partition_reader_reads_witness:
  "\<exists>p. into_partition_reader \<lparr>pl_blkx = [part_of 0 [] sample_chunk_table], pl_plst = []\<rparr> 0 (sample_stored, 0) =
      (Ok p, (sample_stored, 0)) \<and> dp_total p = 1536 \<and>
    fst (read_each (dp_ops (\<lambda>_. []) std_cursor Some) [(1023, 3), (511, 2)] p) = Ok [[0, 9, 9], [7, 0]]"
proof -
  have t: "bt_ok sample_chunk_table" "bt_chunks sample_chunk_table = sample_chunks @ [chunk_term 3 1024]"
    by (simp_all add: sample_chunk_table_def sample_chunks_def table_new_def bt_ok_def uc_ok_def uc_new_def)
  have dev: "std_disk std_cursor sample_stored (std_cursor_ready sample_stored)" by (rule std_cursor_disk.std_disk_axioms)
  have rdy: "std_cursor_ready sample_stored (sample_stored, 0) 0" by (simp add: std_cursor_ready_def sample_stored_def)
  have r: "replicate 2 (9 :: u8) = [9, 9]" by (simp add: numeral_eq_Suc)
  show ?thesis
    using partition_reader_reads [of 0 "\<lparr>pl_blkx = [part_of 0 [] sample_chunk_table], pl_plst = []\<rparr>", OF _ _ t(2) sample_closed_table _ dev rdy,
        of "[(1023, 3), (511, 2)]" "\<lambda>_. []"] part_of_ok [OF t(1)]
    by (simp add: r)
qed

end
