(* ===== verification/Vf.thy ===== *)
theory Vf
  imports StdIo
begin

text \<open>
  Encrypted disk images (\<open>src/src/lib/vfdecrypt/lib.rs\<close>). The ciphers, the message digest and the derivation of keys
  are parameters, with the shape of the interfaces of the crates: a constructor that may fail, then an operation that may
  fail; the errors are their texts. The host is little endian.
\<close>

section \<open>Errors and parameters\<close>

datatype vf_error =
    VIo std_error
  | VCipher string
  | VDecryption string
  | VPasswordRequired
  | VUnsupportedFormat
  | VUnsupportedKeyBits u32
  | VUnsupportedKdfAlgorithm u32
  | VUnsupportedKdfPrng u32
  | VSaltTooLong nat
  | VIvTooLong nat
  | VUnsupportedIvSize nat
  | VKeyblobTooLong nat
  | VKeyMaterialTooShort
  | VKeyblobTooShort nat
  | VHexDecode string
  | VUnknown string

record vf_crypto =
  vc_pbkdf2 :: "bytes \<Rightarrow> bytes \<Rightarrow> nat \<Rightarrow> nat \<Rightarrow> bytes"
  vc_tdes :: "bytes \<Rightarrow> bytes \<Rightarrow> string + (bytes \<Rightarrow> string + bytes)"
  vc_hmac :: "bytes \<Rightarrow> string + (bytes \<Rightarrow> bytes)"
  vc_aes :: "bytes \<Rightarrow> bytes \<Rightarrow> string + (bytes \<Rightarrow> string + bytes)"

definition or_fail :: "(string \<Rightarrow> 'e) \<Rightarrow> string + 'a \<Rightarrow> ('s, 'e, 'a) act" where
  "or_fail g r = (case r of Inl e \<Rightarrow> fail (g e) | Inr a \<Rightarrow> ret a)"

text \<open>\<open>&bs[..n]\<close>.\<close>

definition slice_to :: "nat \<Rightarrow> bytes \<Rightarrow> ('s, 'e, bytes) act" where
  "slice_to n bs = (if n \<le> length bs then ret (take n bs) else panic)"

section \<open>Headers\<close>

definition field :: "nat \<Rightarrow> nat \<Rightarrow> bytes \<Rightarrow> bytes" where
  "field off n bs = take n (drop off bs)"

record v1_header =
  h1_filler1 :: bytes
  h1_kdf_iteration_count :: u32
  h1_kdf_salt_len :: u32
  h1_kdf_salt :: bytes
  h1_unwrap_iv :: bytes
  h1_len_wrapped_aes_key :: u32
  h1_wrapped_aes_key :: bytes
  h1_len_hmac_sha1_key :: u32
  h1_wrapped_hmac_sha1_key :: bytes
  h1_len_integrity_key :: u32
  h1_wrapped_integrity_key :: bytes
  h1_filler6 :: bytes

definition V1_SIZE :: nat where "V1_SIZE = 1276"

text \<open>The bytes of the packed structure, after \<open>adjust_byteorder\<close>.\<close>

definition v1_of :: "bytes \<Rightarrow> v1_header" where
  "v1_of b = \<lparr>h1_filler1 = field 0 48 b, h1_kdf_iteration_count = from_be (field 48 4 b),
     h1_kdf_salt_len = from_be (field 52 4 b), h1_kdf_salt = field 56 48 b, h1_unwrap_iv = field 104 32 b,
     h1_len_wrapped_aes_key = from_be (field 136 4 b), h1_wrapped_aes_key = field 140 296 b,
     h1_len_hmac_sha1_key = from_be (field 436 4 b), h1_wrapped_hmac_sha1_key = field 440 300 b,
     h1_len_integrity_key = from_be (field 740 4 b), h1_wrapped_integrity_key = field 744 48 b,
     h1_filler6 = field 792 484 b\<rparr>"

record v2_header =
  h2_sig :: bytes
  h2_version :: u32
  h2_enc_iv_size :: u32
  h2_unk :: "u32 list"
  h2_uuid :: bytes
  h2_blocksize :: u32
  h2_datasize :: u64
  h2_dataoffset :: u64
  h2_filler1 :: bytes
  h2_kdf_algorithm :: u32
  h2_kdf_prng_algorithm :: u32
  h2_kdf_iteration_count :: u32
  h2_kdf_salt_len :: u32
  h2_kdf_salt :: bytes
  h2_blob_enc_iv_size :: u32
  h2_blob_enc_iv :: bytes
  h2_blob_enc_key_bits :: u32
  h2_blob_enc_algorithm :: u32
  h2_blob_enc_padding :: u32
  h2_blob_enc_mode :: u32
  h2_encrypted_keyblob_size :: u32
  h2_encrypted_keyblob :: bytes

definition V2_SIZE :: nat where "V2_SIZE = 832"

definition v2_of :: "bytes \<Rightarrow> v2_header" where
  "v2_of b = \<lparr>h2_sig = field 0 8 b, h2_version = from_le (field 8 4 b), h2_enc_iv_size = from_le (field 12 4 b),
     h2_unk = map (\<lambda>i. from_le (field (16 + 4 * i) 4 b)) [0..<5], h2_uuid = field 36 16 b,
     h2_blocksize = from_be (field 52 4 b), h2_datasize = from_be (field 56 8 b), h2_dataoffset = from_be (field 64 8 b),
     h2_filler1 = field 72 0x260 b, h2_kdf_algorithm = from_be (field 680 4 b),
     h2_kdf_prng_algorithm = from_be (field 684 4 b), h2_kdf_iteration_count = from_be (field 688 4 b),
     h2_kdf_salt_len = from_be (field 692 4 b), h2_kdf_salt = field 696 32 b,
     h2_blob_enc_iv_size = from_be (field 728 4 b), h2_blob_enc_iv = field 732 32 b,
     h2_blob_enc_key_bits = from_be (field 764 4 b), h2_blob_enc_algorithm = from_be (field 768 4 b),
     h2_blob_enc_padding = from_be (field 772 4 b), h2_blob_enc_mode = from_be (field 776 4 b),
     h2_encrypted_keyblob_size = from_be (field 780 4 b), h2_encrypted_keyblob = field 784 0x30 b\<rparr>"

definition ENCRCDSA :: bytes where "ENCRCDSA = map (\<lambda>c. of_nat (of_char c)) ''encrcdsa''"
definition CDSAENCR :: bytes where "CDSAENCR = map (\<lambda>c. of_nat (of_char c)) ''cdsaencr''"

text \<open>\<open>m.is_ok() && p(value)\<close>: an error is dropped.\<close>

definition ok_and :: "('s, 'e, 'a) act \<Rightarrow> ('a \<Rightarrow> bool) \<Rightarrow> ('s, 'f, bool) act" where
  "ok_and m p = (\<lambda>s. case m s of
     (Ok a, s') \<Rightarrow> (Ok (p a), s') | (Err _, s') \<Rightarrow> (Ok False, s') | (Panic, s') \<Rightarrow> (Panic, s') | (Loop, s') \<Rightarrow> (Loop, s'))"

definition determine_header_version :: "'s std_file \<Rightarrow> ('s, vf_error, int) act" where
  "determine_header_version dev =
     bnd (map_err VIo (sf_seek dev (Start 0))) (\<lambda>_.
     bnd (ok_and (std_read_exact (sf_read dev) 8) (\<lambda>buf. buf = ENCRCDSA)) (\<lambda>v2.
     if v2 then ret 2
     else
       bnd (map_err VIo (sf_seek dev (End (- 8)))) (\<lambda>_.
       bnd (ok_and (std_read_exact (sf_read dev) 8) (\<lambda>buf. buf = CDSAENCR)) (\<lambda>v1.
       if v1 then ret 1 else fail VUnsupportedFormat))))"

definition read_v1 :: "'s std_file \<Rightarrow> ('s, vf_error, v1_header) act" where
  "read_v1 dev =
     bnd (map_err VIo (sf_seek dev (End (- (int V1_SIZE + 8))))) (\<lambda>_.
     bnd (map_err VIo (std_read_exact (sf_read dev) V1_SIZE)) (\<lambda>b. ret (v1_of b)))"

definition read_v2 :: "'s std_file \<Rightarrow> ('s, vf_error, v2_header) act" where
  "read_v2 dev =
     bnd (map_err VIo (sf_seek dev (Start 0))) (\<lambda>_.
     bnd (map_err VIo (std_read_exact (sf_read dev) V2_SIZE)) (\<lambda>b. ret (v2_of b)))"

section \<open>Keys\<close>

definition DES_IV :: bytes where "DES_IV = [0x4a, 0xdd, 0xa2, 0x2c, 0x79, 0xe8, 0x21, 0x05]"

definition apple_des3_ede_unwrap_key :: "vf_crypto \<Rightarrow> bytes \<Rightarrow> nat \<Rightarrow> bytes \<Rightarrow> nat \<Rightarrow> ('s, vf_error, bytes) act" where
  "apple_des3_ede_unwrap_key C wrapped_key wrapped_key_len decrypt_key unwrapped_key_len =
     bnd (or_fail (\<lambda>e. VCipher (''Failed to initialize TDES cipher (1): '' @ e)) (vc_tdes C decrypt_key DES_IV)) (\<lambda>cipher.
     bnd (slice_to wrapped_key_len wrapped_key) (\<lambda>temp1.
     bnd (or_fail (\<lambda>e. VDecryption (''decrypt error 1: '' @ e)) (cipher temp1)) (\<lambda>pt1.
     let temp2 = rev pt1
     in if length temp2 < 8 then panic
        else
          bnd (or_fail (\<lambda>e. VCipher (''Failed to initialize TDES cipher (2): '' @ e)) (vc_tdes C decrypt_key (take 8 temp2)))
            (\<lambda>cipher2.
          bnd (or_fail (\<lambda>e. VDecryption (''decrypt error 2: '' @ e)) (cipher2 (drop 8 temp2))) (\<lambda>decrypted.
          if length decrypted < 4 + unwrapped_key_len then fail VKeyMaterialTooShort
          else ret (field 4 unwrapped_key_len decrypted))))))"

definition PBKDF2_ITERATION_COUNT :: nat where "PBKDF2_ITERATION_COUNT = 1000"

definition unwrap_v1_header :: "vf_crypto \<Rightarrow> bytes \<Rightarrow> v1_header \<Rightarrow> ('s, vf_error, bytes \<times> bytes) act" where
  "unwrap_v1_header C passphrase header =
     (let derived_key = vc_pbkdf2 C passphrase (take 20 (h1_kdf_salt header)) PBKDF2_ITERATION_COUNT 24
      in bnd (apple_des3_ede_unwrap_key C (h1_wrapped_aes_key header) 40 derived_key 16) (\<lambda>aes_key.
         bnd (apple_des3_ede_unwrap_key C (h1_wrapped_hmac_sha1_key header) 48 derived_key 20) (\<lambda>hmac_key.
         ret (aes_key, hmac_key))))"

definition unwrap_v2_header :: "vf_crypto \<Rightarrow> bytes \<Rightarrow> v2_header \<Rightarrow> ('s, vf_error, bytes \<times> bytes) act" where
  "unwrap_v2_header C passphrase header =
     (let derived_key = vc_pbkdf2 C passphrase (take 20 (h2_kdf_salt header)) PBKDF2_ITERATION_COUNT 24
      in bnd (slice_to (unat (h2_blob_enc_iv_size header)) (h2_blob_enc_iv header)) (\<lambda>iv.
         bnd (or_fail (\<lambda>e. VCipher (''Failed to initialize blob cipher: '' @ e)) (vc_tdes C derived_key iv)) (\<lambda>cipher.
         bnd (slice_to (unat (h2_encrypted_keyblob_size header)) (h2_encrypted_keyblob header)) (\<lambda>keyblob.
         bnd (or_fail (\<lambda>e. VDecryption (''v2 decrypt: '' @ e)) (cipher keyblob)) (\<lambda>decrypted.
         if length decrypted < 20 then fail (VKeyblobTooShort (length decrypted))
         else ret (take 16 decrypted, take 20 decrypted))))))"

text \<open>
  A key given as text. A slice of a \<open>str\<close> panics inside of a character; \<open>u8::from_str_radix\<close> takes a
  leading \<open>+\<close>. Only slices of two bytes are parsed.
\<close>

definition char_boundary :: "bytes \<Rightarrow> nat \<Rightarrow> bool" where
  "char_boundary s i \<longleftrightarrow> i = 0 \<or> i = length s \<or> (i < length s \<and> \<not> (0x80 \<le> s ! i \<and> s ! i < 0xC0))"

definition str_slice :: "bytes \<Rightarrow> nat \<Rightarrow> nat \<Rightarrow> ('s, 'e, bytes) act" where
  "str_slice s a b = (if a \<le> b \<and> char_boundary s a \<and> char_boundary s b then ret (field a (b - a) s) else panic)"

definition hex_digit :: "u8 \<Rightarrow> u8 option" where
  "hex_digit c =
     (if 48 \<le> c \<and> c \<le> 57 then Some (c - 48)
      else if 65 \<le> c \<and> c \<le> 70 then Some (c - 55)
      else if 97 \<le> c \<and> c \<le> 102 then Some (c - 87)
      else None)"

definition hex_u8 :: "bytes \<Rightarrow> string + u8" where
  "hex_u8 s =
     (case (if s ! 0 = 43 then Some 0 else hex_digit (s ! 0), hex_digit (s ! 1)) of
        (Some a, Some b) \<Rightarrow> Inr (16 * a + b)
      | _ \<Rightarrow> Inl ''invalid digit found in string'')"

definition hex_bytes :: "bytes \<Rightarrow> nat \<Rightarrow> nat \<Rightarrow> ('s, vf_error, bytes) act" where
  "hex_bytes key start n =
     map_act (\<lambda>i. bnd (str_slice key (start + i * 2) (start + i * 2 + 2)) (\<lambda>s. or_fail VHexDecode (hex_u8 s))) [0..<n]"

definition key_material :: "vf_crypto \<Rightarrow> 's std_file \<Rightarrow> int \<Rightarrow> bytes \<Rightarrow> ('s, vf_error, bytes \<times> bytes) act" where
  "key_material C dev hdr_version key =
     (if 32 \<le> length key then
        bnd (hex_bytes key 0 16) (\<lambda>aes_key.
        bnd (if 72 \<le> length key then hex_bytes key 32 20 else ret (replicate 20 0)) (\<lambda>hmac_key.
        ret (aes_key, hmac_key)))
      else if hdr_version = 1 then bnd (read_v1 dev) (unwrap_v1_header C key)
      else if hdr_version = 2 then bnd (read_v2 dev) (unwrap_v2_header C key)
      else ret (replicate 16 0, replicate 20 0))"

section \<open>The decryptor\<close>

text \<open>\<open>VfKeys::decrypt_chunk\<close>; a tail of less than a cipher block stays as it is.\<close>

definition decrypt_chunk :: "vf_crypto \<Rightarrow> bytes \<Rightarrow> bytes \<Rightarrow> u32 \<Rightarrow> bytes \<Rightarrow> ('s, std_error, bytes) act" where
  "decrypt_chunk C aes_key hmac_key chunk_no data =
     (let n = length data in
      if n < 16 then ret data
      else
        let decrypt_len = n div 16 * 16
        in bnd (or_fail (\<lambda>_. OtherError) (vc_hmac C hmac_key)) (\<lambda>mac.
           bnd (or_fail (\<lambda>_. OtherError) (vc_aes C aes_key (take 16 (mac (to_be chunk_no))))) (\<lambda>cipher.
           bnd (or_fail (\<lambda>_. OtherError) (cipher (take decrypt_len data))) (\<lambda>plain.
           ret (plain @ drop decrypt_len data)))))"

record 's vf =
  vf_input :: 's
  vf_aes_key :: bytes
  vf_hmac_key :: bytes
  vf_block_size :: nat
  vf_data_size :: nat
  vf_total_out :: nat
  vf_hdr_version :: int
  vf_chunk_no :: u32
  vf_buffer :: bytes
  vf_buffer_pos :: nat
  vf_buffer_len :: nat

text \<open>Size of a block, size and offset of the data.\<close>

definition data_layout :: "'s std_file \<Rightarrow> int \<Rightarrow> ('s, vf_error, nat \<times> nat \<times> nat) act" where
  "data_layout dev hdr_version =
     (if hdr_version = 1 then
        bnd (map_err VIo (sf_seek dev (End 0))) (\<lambda>file_size.
        if file_size < V1_SIZE + 8 then panic else ret (4096, file_size - (V1_SIZE + 8), 0))
      else if hdr_version = 2 then
        bnd (read_v2 dev) (\<lambda>h. ret (unat (h2_blocksize h), unat (h2_datasize h), unat (h2_dataoffset h)))
      else ret (4096, 0, 0))"

definition vf_new :: "vf_crypto \<Rightarrow> 's std_file \<Rightarrow> bytes \<Rightarrow> ('s, vf_error, 's vf) act" where
  "vf_new C dev key =
     bnd (determine_header_version dev) (\<lambda>hdr_version.
     bnd (key_material C dev hdr_version key) (\<lambda>(a, h).
     bnd (slice_to 16 a) (\<lambda>aes_key.
     bnd (slice_to 20 h) (\<lambda>hmac_key.
     bnd (data_layout dev hdr_version) (\<lambda>(block_size, data_size, data_offset).
     bnd (map_err VIo (sf_seek dev (Start data_offset))) (\<lambda>_ s.
     (Ok \<lparr>vf_input = s, vf_aes_key = aes_key, vf_hmac_key = hmac_key, vf_block_size = block_size,
          vf_data_size = data_size, vf_total_out = 0, vf_hdr_version = hdr_version, vf_chunk_no = 0,
          vf_buffer = replicate block_size 0, vf_buffer_pos = 0, vf_buffer_len = 0\<rparr>, s)))))))"

definition on_input :: "('s, 'e, 'a) act \<Rightarrow> ('s vf, 'e, 'a) act" where
  "on_input m = (\<lambda>v. case m (vf_input v) of (r, s) \<Rightarrow> (r, v\<lparr>vf_input := s\<rparr>))"

text \<open>A chunk number, checked for overflow.\<close>

definition chunk_number :: "u32 \<Rightarrow> nat \<Rightarrow> ('s, 'e, u32) act" where
  "chunk_number start i = (if unat start + i < 2 ^ 32 then ret (start + of_nat i) else panic)"

section \<open>Decryption of all\<close>

definition batch_size :: "nat \<Rightarrow> nat" where
  "batch_size block_size =
     (let batch = 4 * 1024 * 1024;
          batch' = (if 0 < block_size then batch div block_size * block_size else batch)
      in max batch' block_size)"

text \<open>The chunks of a batch. They are independent of each other, so the order in which the threads take them does not matter.\<close>

definition decrypt_batch :: "vf_crypto \<Rightarrow> bytes \<Rightarrow> bytes \<Rightarrow> nat \<Rightarrow> u32 \<Rightarrow> bytes \<Rightarrow> ('s, std_error, bytes) act" where
  "decrypt_batch C aes_key hmac_key block_size start data =
     (if block_size = 0 then panic
      else bnd (map_act (\<lambda>(i, chunk). bnd (chunk_number start i) (\<lambda>no. decrypt_chunk C aes_key hmac_key no chunk))
          (enumerate 0 (pieces block_size data))) (\<lambda>bss. ret (concat bss)))"

definition div_ceil :: "nat \<Rightarrow> nat \<Rightarrow> nat" where
  "div_ceil a b = (a + b - 1) div b"

definition count_batch :: "nat \<Rightarrow> ('s vf, std_error, unit) act" where
  "count_batch n = (\<lambda>v.
     bnd (chunk_number (vf_chunk_no v) (div_ceil n (vf_block_size v))) (\<lambda>no.
     bnd (checked64 (vf_total_out v + n)) (\<lambda>out v. (Ok (), v\<lparr>vf_chunk_no := no, vf_total_out := out\<rparr>))) v)"

fun decrypt_batches :: "vf_crypto \<Rightarrow> 's std_file \<Rightarrow> 't std_writer \<Rightarrow> nat \<Rightarrow> ('s vf \<times> 't, std_error, unit) act" where
  "decrypt_batches C dev wr 0 = spin"
| "decrypt_batches C dev wr (Suc fuel) = (\<lambda>(v, t).
     let max_to_read = (if vf_hdr_version v = 2 then vf_data_size v - vf_total_out v else 2 ^ 64 - 1)
     in if max_to_read = 0 then (Ok (), (v, t))
        else
          bnd (on_fst (on_input (take_to_end (sf_read dev) (min (batch_size (vf_block_size v)) max_to_read)))) (\<lambda>data.
          if data = [] then ret ()
          else
            bnd (decrypt_batch C (vf_aes_key v) (vf_hmac_key v) (vf_block_size v) (vf_chunk_no v) data) (\<lambda>plain.
            bnd (on_snd (std_write_all wr plain)) (\<lambda>_.
            bnd (on_fst (count_batch (length data))) (\<lambda>_.
            decrypt_batches C dev wr fuel)))) (v, t))"

definition decrypt_parallel :: "vf_crypto \<Rightarrow> 's std_file \<Rightarrow> 't std_writer \<Rightarrow> nat \<Rightarrow> ('s vf \<times> 't, std_error, unit) act" where
  "decrypt_parallel C dev wr fuel = decrypt_batches C dev wr fuel"

definition vf_decrypt ::
  "vf_crypto \<Rightarrow> 's std_file \<Rightarrow> 't std_writer \<Rightarrow> bytes \<Rightarrow> nat \<Rightarrow> ('s \<times> 't, vf_error, unit) act" where
  "vf_decrypt C dev wr key fuel =
     bnd (on_fst (vf_new C dev key)) (\<lambda>v (s, t).
     case map_err VIo (decrypt_parallel C dev wr fuel) (v, t) of (r, (v', t')) \<Rightarrow> (r, (vf_input v', t')))"

section \<open>Reading\<close>

definition refill :: "vf_crypto \<Rightarrow> 's std_file \<Rightarrow> ('s vf, std_error, bool) act" where
  "refill C dev = (\<lambda>v.
     bnd (on_input (sf_read dev (length (vf_buffer v)))) (\<lambda>data.
     if data = [] then ret False
     else
       bnd (decrypt_chunk C (vf_aes_key v) (vf_hmac_key v) (vf_chunk_no v) data) (\<lambda>plain.
       bnd (chunk_number (vf_chunk_no v) 1) (\<lambda>no v.
       let left = vf_data_size v - vf_total_out v; n = length data
       in (Ok True, v\<lparr>vf_buffer := plain @ drop n (vf_buffer v),
            vf_buffer_len := (if vf_hdr_version v = 2 \<and> left < n then left else n),
            vf_buffer_pos := 0, vf_chunk_no := no\<rparr>)))) v)"

definition hand_out :: "nat \<Rightarrow> ('s vf, std_error, bytes) act" where
  "hand_out n = (\<lambda>v.
     let to_copy = min n (vf_buffer_len v - vf_buffer_pos v)
     in bnd (checked64 (vf_total_out v + to_copy)) (\<lambda>out v.
        (Ok (field (vf_buffer_pos v) to_copy (vf_buffer v)),
         v\<lparr>vf_buffer_pos := vf_buffer_pos v + to_copy, vf_total_out := out\<rparr>)) v)"

definition vf_read :: "vf_crypto \<Rightarrow> 's std_file \<Rightarrow> ('s vf) std_reader" where
  "vf_read C dev n = (\<lambda>v.
     if vf_hdr_version v = 2 \<and> vf_data_size v \<le> vf_total_out v then (Ok [], v)
     else bnd (if vf_buffer_len v \<le> vf_buffer_pos v then refill C dev else ret True) (\<lambda>more_data.
       if more_data then hand_out n else ret []) v)"

end
