(* ===== verification/VfSpec.thy ===== *)
theory VfSpec
  imports Vf
begin

text \<open>
  Encrypted disk images: the plaintext as a function of the encrypted bytes; decrypting all of an image writes it, and reading through
  the decryptor gives the plaintext of what the input answers.
\<close>

section \<open>The plaintext\<close>

text \<open>
  What the crates document of the ciphers: for keys and vectors of the right length they are set up, a message digest has
  twenty bytes, and a cipher in CBC mode without padding maps whole blocks to as many bytes.
\<close>

definition crypto_ok ::
  "vf_crypto \<Rightarrow> bytes \<Rightarrow> bytes \<Rightarrow> (bytes \<Rightarrow> bytes) \<Rightarrow> (bytes \<Rightarrow> bytes \<Rightarrow> bytes) \<Rightarrow> bool" where
  "crypto_ok C aes_key hmac_key mac aes \<longleftrightarrow> vc_hmac C hmac_key = Inr mac \<and> (\<forall>m. length (mac m) = 20) \<and>
     (\<forall>iv. length iv = 16 \<longrightarrow> (\<exists>cipher. vc_aes C aes_key iv = Inr cipher \<and>
        (\<forall>d. 16 dvd length d \<longrightarrow> cipher d = Inr (aes iv d) \<and> length (aes iv d) = length d)))"

definition plain_chunk :: "(bytes \<Rightarrow> bytes) \<Rightarrow> (bytes \<Rightarrow> bytes \<Rightarrow> bytes) \<Rightarrow> nat \<Rightarrow> bytes \<Rightarrow> bytes" where
  "plain_chunk mac aes i d =
     (if length d < 16 then d
      else aes (take 16 (mac (to_be (of_nat i :: u32)))) (take (length d div 16 * 16) d) @ drop (length d div 16 * 16) d)"

fun plain_chunks :: "(bytes \<Rightarrow> bytes) \<Rightarrow> (bytes \<Rightarrow> bytes \<Rightarrow> bytes) \<Rightarrow> nat \<Rightarrow> bytes list \<Rightarrow> bytes" where
  "plain_chunks mac aes i [] = []"
| "plain_chunks mac aes i (d # ds) = plain_chunk mac aes i d @ plain_chunks mac aes (i + 1) ds"

lemma plain_chunks_append:
  "plain_chunks mac aes i (ds @ es) = plain_chunks mac aes i ds @ plain_chunks mac aes (i + length ds) es"
  by (induction ds arbitrary: i) simp_all

lemma decrypt_chunk_ok:
  assumes "crypto_ok C akey hkey mac aes"
  shows "decrypt_chunk C akey hkey (of_nat i) d = ret (plain_chunk mac aes i d)"
    and "length (plain_chunk mac aes i d) = length d"
proof -
  let ?iv = "take 16 (mac (to_be (of_nat i :: u32)))" and ?k = "length d div 16 * 16"
  have "length ?iv = 16" using assms by (simp add: crypto_ok_def)
  then obtain cipher where c: "vc_aes C akey ?iv = Inr cipher"
    "\<And>d. 16 dvd length d \<Longrightarrow> cipher d = Inr (aes ?iv d) \<and> length (aes ?iv d) = length d"
    using assms unfolding crypto_ok_def by blast
  have "?k \<le> length d" by simp
  then have k: "length (take ?k d) = ?k" "16 dvd length (take ?k d)" by (simp_all add: min_absorb2)
  show "decrypt_chunk C akey hkey (of_nat i) d = ret (plain_chunk mac aes i d)"
    using assms c(1) c(2) [OF k(2)] by (simp add: decrypt_chunk_def plain_chunk_def or_fail_def crypto_ok_def Let_def)
  show "length (plain_chunk mac aes i d) = length d"
    using c(2) [OF k(2)] k(1) by (simp add: plain_chunk_def)
qed

section \<open>Pieces\<close>

lemma pieces_append: "0 < k \<Longrightarrow> k dvd length xs \<Longrightarrow> pieces k (xs @ ys) = pieces k xs @ pieces k ys"
proof (induction "length xs" arbitrary: xs rule: less_induct)
  case less
  show ?case
  proof (cases "xs = []")
    case False
    then have l: "k \<le> length xs" using less.prems by (simp add: dvd_imp_le)
    have "k dvd length (drop k xs)" using less.prems by simp
    moreover have "length (drop k xs) < length xs" using less.prems(1) False by simp
    ultimately show ?thesis using False l less.prems(1) less.hyps [of "drop k xs"] by (simp add: pieces_simps)
  qed (simp add: pieces_simps)
qed

lemma div_ceil_simps: "0 < k \<Longrightarrow> div_ceil 0 k = 0" "0 < k \<Longrightarrow> div_ceil (k + n) k = Suc (div_ceil n k)"
  "0 < n \<Longrightarrow> n \<le> k \<Longrightarrow> div_ceil n k = 1"
proof -
  assume k: "0 < k"
  show "div_ceil 0 k = 0" using k by (simp add: div_ceil_def)
  have "k + n + k - 1 = (n + k - 1) + k" using k by simp
  then show "div_ceil (k + n) k = Suc (div_ceil n k)" using k by (simp only: div_ceil_def div_add_self2)
next
  assume n: "0 < n" "n \<le> k"
  then have "n + k - 1 = (n - 1) + k" "n - 1 < k" by simp_all
  then show "div_ceil n k = 1" using n by (simp only: div_ceil_def div_add_self2) simp
qed

lemma length_pieces: "0 < k \<Longrightarrow> length (pieces k xs) = div_ceil (length xs) k"
proof (induction "length xs" arbitrary: xs rule: less_induct)
  case less
  show ?case
  proof (cases "xs = []")
    case False
    then have "length (pieces k xs) = Suc (div_ceil (length xs - k) k)"
      using less.hyps [of "drop k xs"] less.prems by (simp add: pieces_simps)
    also have "\<dots> = div_ceil (length xs) k"
    proof (cases "k \<le> length xs")
      case True
      then show ?thesis using div_ceil_simps(2) [OF less.prems, of "length xs - k"] by simp
    next
      case k: False
      then show ?thesis using div_ceil_simps(1) [OF less.prems] div_ceil_simps(3) [of "length xs" k] False by simp
    qed
    finally show ?thesis .
  qed (use less.prems in \<open>simp add: pieces_simps div_ceil_simps\<close>)
qed

section \<open>Decryption of all\<close>

lemma map_decrypt_ok:
  assumes "crypto_ok C akey hkey mac aes" and "n + j + length ds < 2 ^ 32"
  shows "map_act (\<lambda>(i, chunk). bnd (chunk_number (of_nat n) i) (\<lambda>no. decrypt_chunk C akey hkey no chunk)) (enumerate j ds) =
    ret (map (\<lambda>(i, chunk). plain_chunk mac aes (n + i) chunk) (enumerate j ds))"
proof (rule map_act_ret)
  fix x assume "x \<in> set (enumerate j ds)"
  moreover obtain i d where xd: "x = (i, d)" by (cases x)
  ultimately have "i \<in> set [j..<j + length ds]" unfolding enumerate_eq_zip by (blast dest: set_zip_leftD)
  then have x: "x = (i, d)" "i < j + length ds" using xd by simp_all
  have n: "unat (of_nat n :: u32) = n" using assms(2) by (simp add: unat_of_nat take_bit_nat_eq_self)
  have "n + i < 2 ^ 32" using x(2) assms(2) by simp
  then show "(\<lambda>(i, chunk). bnd (chunk_number (of_nat n) i) (\<lambda>no. decrypt_chunk C akey hkey no chunk)) x =
      ret ((\<lambda>(i, chunk). plain_chunk mac aes (n + i) chunk) x)"
    by (simp add: x chunk_number_def n decrypt_chunk_ok(1) [OF assms(1), of "n + i", unfolded of_nat_add])
qed

lemma concat_plain: "concat (map (\<lambda>(i, chunk). plain_chunk mac aes (n + i) chunk) (enumerate j ds)) = plain_chunks mac aes (n + j) ds"
  by (induction ds arbitrary: j) simp_all

lemma decrypt_batch_ok:
  assumes "crypto_ok C akey hkey mac aes" and "0 < k" and "n + length (pieces k data) < 2 ^ 32"
  shows "decrypt_batch C akey hkey k (of_nat n) data = ret (plain_chunks mac aes n (pieces k data))"
  using assms(2,3) map_decrypt_ok [OF assms(1), of n 0 "pieces k data"] concat_plain [of mac aes n 0 "pieces k data"]
  by (simp add: decrypt_batch_def map_decrypt_ok [OF assms(1)])

lemma batch_size_facts: "0 < k \<Longrightarrow> k dvd batch_size k" "0 < k \<Longrightarrow> 0 < batch_size k"
  by (simp_all add: batch_size_def Let_def max_def)

text \<open>The state of a decryptor of version 2 whose input has the bytes \<open>rest\<close> ahead, of which \<open>left\<close> are still to be decrypted.\<close>

definition vf_at :: "('s \<Rightarrow> bytes \<Rightarrow> bool) \<Rightarrow> bytes \<Rightarrow> bytes \<Rightarrow> nat \<Rightarrow> 's vf \<Rightarrow> nat \<Rightarrow> nat \<Rightarrow> bytes \<Rightarrow> bool" where
  "vf_at nxt akey hkey k v i left rest \<longleftrightarrow> nxt (vf_input v) rest \<and> vf_hdr_version v = 2 \<and> vf_block_size v = k \<and>
     vf_aes_key v = akey \<and> vf_hmac_key v = hkey \<and> vf_chunk_no v = of_nat i \<and>
     vf_data_size v = vf_total_out v + left \<and> vf_data_size v < 2 ^ 64"

lemma decrypt_batches_ok:
  assumes "std_source (sf_read dev) nxt" and "std_sink wr out" and "crypto_ok C akey hkey mac aes" and "0 < k"
  shows "vf_at nxt akey hkey k v i left rest \<Longrightarrow> left \<le> length rest \<Longrightarrow> i + div_ceil left k < 2 ^ 32 \<Longrightarrow> left < fuel \<Longrightarrow>
    \<exists>v' t'. decrypt_batches C dev wr fuel (v, t) = (Ok (), (v', t')) \<and>
      out t' = out t @ plain_chunks mac aes i (pieces k (take left rest))"
proof (induction fuel arbitrary: v t i left rest)
  case (Suc fuel)
  note at = Suc.prems(1) [unfolded vf_at_def]
  show ?case
  proof (cases "left = 0")
    case True
    then show ?thesis using at by (simp add: pieces_simps)
  next
    case False
    define n where "n = min (batch_size k) left"
    have n: "0 < n" "n \<le> left" "n \<le> length rest" using False batch_size_facts(2) [OF assms(4)] Suc.prems(2) by (auto simp: n_def)
    from std_source.take_to_end_next [OF assms(1) _ n(3)] at obtain s' where
      s': "take_to_end (sf_read dev) n (vf_input v) = (Ok (take n rest), s')" "nxt s' (drop n rest)" by blast
    have ne: "take n rest \<noteq> []" using n by auto
    have split: "pieces k (take left rest) = pieces k (take n rest) @ pieces k (take (left - n) (drop n rest))"
    proof (cases "left \<le> batch_size k")
      case True
      then show ?thesis by (simp add: n_def pieces_simps)
    next
      case f: False
      then have "n = batch_size k" by (simp add: n_def)
      then have "k dvd length (take n rest)" using n(3) batch_size_facts(1) [OF assms(4)] by simp
      moreover have "take left rest = take n rest @ take (left - n) (drop n rest)" using n(2) by (metis le_add_diff_inverse take_add)
      ultimately show ?thesis by (simp only: pieces_append [OF assms(4)])
    qed
    have lens: "length (take left rest) = left" "length (take n rest) = n" "length (take (left - n) (drop n rest)) = left - n"
      using n Suc.prems(2) by simp_all
    have nn: "length (pieces k (take n rest)) = div_ceil n k" by (simp only: length_pieces [OF assms(4)] lens)
    have "length (pieces k (take left rest)) = length (pieces k (take n rest)) + length (pieces k (take (left - n) (drop n rest)))"
      by (simp only: split length_append)
    then have cnt: "div_ceil left k = div_ceil n k + div_ceil (left - n) k" by (simp only: length_pieces [OF assms(4)] lens)
    let ?plain = "plain_chunks mac aes i (pieces k (take n rest))"
    have batch: "decrypt_batch C akey hkey k (of_nat i) (take n rest) = ret ?plain"
      by (rule decrypt_batch_ok [OF assms(3,4)]) (use cnt nn Suc.prems(3) in simp)
    obtain t1 where t1: "std_write_all wr ?plain t = (Ok (), t1)" "out t1 = out t @ ?plain"
      using std_sink.writes_std_all [OF assms(2)] unfolding writes_def by blast
    define v1 where "v1 = v\<lparr>vf_input := s', vf_chunk_no := of_nat (i + div_ceil n k), vf_total_out := vf_total_out v + n\<rparr>"
    have count: "count_batch n (v\<lparr>vf_input := s'\<rparr>) = (Ok (), v1)"
    proof -
      have "unat (of_nat i :: u32) = i" using Suc.prems(3) by (simp add: unat_of_nat take_bit_nat_eq_self)
      then have "chunk_number (of_nat i) (div_ceil n k) = (ret (of_nat (i + div_ceil n k)) :: ('a vf, std_error, u32) act)"
        using cnt Suc.prems(3) by (simp add: chunk_number_def)
      moreover have "vf_total_out v + n < 2 ^ 64" using at n(2) by simp
      ultimately show ?thesis using at by (simp add: count_batch_def v1_def)
    qed
    have "vf_at nxt akey hkey k v1 (i + div_ceil n k) (left - n) (drop n rest)"
      using at s'(2) n(2) by (simp add: vf_at_def v1_def)
    moreover have "left - n \<le> length (drop n rest)" "i + div_ceil n k + div_ceil (left - n) k < 2 ^ 32" "left - n < fuel"
      using n(1,2) Suc.prems(2-4) cnt by simp_all
    ultimately obtain v' t' where
      rec: "decrypt_batches C dev wr fuel (v1, t1) = (Ok (), (v', t'))"
        "out t' = out t1 @ plain_chunks mac aes (i + div_ceil n k) (pieces k (take (left - n) (drop n rest)))"
      using Suc.IH by blast
    have s1: "on_fst (on_input (take_to_end (sf_read dev) n)) (v, t) = (Ok (take n rest), (v\<lparr>vf_input := s'\<rparr>, t))"
      by (simp add: on_fst_def on_input_def s'(1))
    have s2: "on_snd (std_write_all wr ?plain) (v\<lparr>vf_input := s'\<rparr>, t) = (Ok (), (v\<lparr>vf_input := s'\<rparr>, t1))"
      by (simp add: on_snd_def t1(1))
    have s3: "on_fst (count_batch n) (v\<lparr>vf_input := s'\<rparr>, t1) = (Ok (), (v1, t1))"
      by (simp add: on_fst_def count)
    have "decrypt_batches C dev wr (Suc fuel) (v, t) = (Ok (), (v', t'))"
      using at False ne rec(1) n(3) by (simp add: Let_def n_def [symmetric] lens(2) batch
          bnd_Ok [where m = "on_fst (on_input (take_to_end (sf_read dev) n))", OF s1]
          bnd_Ok [where m = "on_snd (std_write_all wr ?plain)", OF s2] bnd_Ok [where m = "on_fst (count_batch n)", OF s3])
    then show ?thesis using rec(2) t1(2) by (simp add: split plain_chunks_append nn)
  qed
qed simp

section \<open>Opening an image\<close>

definition v2_image :: "bytes \<Rightarrow> nat \<Rightarrow> nat \<Rightarrow> nat \<Rightarrow> bool" where
  "v2_image img k len off \<longleftrightarrow> V2_SIZE \<le> length img \<and> take 8 img = ENCRCDSA \<and>
     (let h = v2_of (take V2_SIZE img)
      in unat (h2_blocksize h) = k \<and> unat (h2_datasize h) = len \<and> unat (h2_dataoffset h) = off)"

text \<open>Seventy-two hexadecimal digits or more.\<close>

definition hex_key :: "bytes \<Rightarrow> bytes \<Rightarrow> bytes \<Rightarrow> bool" where
  "hex_key key akey hkey \<longleftrightarrow> list_all (\<lambda>b. b < 0x80) key \<and> 72 \<le> length key \<and> length akey = 16 \<and> length hkey = 20 \<and>
     map (\<lambda>i. hex_u8 (field (i * 2) 2 key)) [0..<36] = map Inr (akey @ hkey)"

lemma hex_bytes_ok:
  assumes "list_all (\<lambda>b. b < 0x80) key" and "start + n * 2 \<le> length key"
    and "map (\<lambda>i. hex_u8 (field (start + i * 2) 2 key)) [0..<n] = map Inr ks"
  shows "hex_bytes key start n = ret ks"
proof -
  have n: "length ks = n" using arg_cong [OF assms(3), of length] by simp
  have low: "\<not> (0x80 \<le> key ! i \<and> key ! i < 0xC0)" if "i < length key" for i
  proof -
    have "key ! i < 0x80" using assms(1) that by (simp add: list_all_length)
    then have "\<not> 0x80 \<le> key ! i" by (simp only: not_le)
    then show ?thesis by simp
  qed
  have step: "bnd (str_slice key (start + i * 2) (start + i * 2 + 2)) (\<lambda>s. or_fail VHexDecode (hex_u8 s)) = ret (ks ! i)" if "i < n" for i
  proof -
    have b: "char_boundary key j" if "j \<le> length key" for j using low that by (auto simp: char_boundary_def)
    have "hex_u8 (field (start + i * 2) 2 key) = Inr (ks ! i)"
      using arg_cong [OF assms(3), of "\<lambda>xs. xs ! i"] that n by simp
    then show ?thesis using assms(2) that by (simp add: str_slice_def b or_fail_def)
  qed
  have "hex_bytes key start n = ret (map (\<lambda>i. ks ! i) [0..<n])"
    unfolding hex_bytes_def by (rule map_act_ret, rule step) simp
  then show ?thesis using n by (metis map_nth)
qed

lemma hex_key_ok:
  assumes "hex_key key akey hkey"
  shows "hex_bytes key 0 16 = ret akey" and "hex_bytes key 32 20 = ret hkey"
proof -
  let ?f = "\<lambda>i. hex_u8 (field (i * 2) 2 key)"
  have "map ?f [0..<16] @ map ?f [16..<36] = map ?f [0..<36]"
    unfolding map_append [symmetric] using upt_add_eq_append [of 0 16 20] by (simp del: upt_rec_numeral)
  then have m: "map ?f [0..<16] @ map ?f [16..<36] = map Inr akey @ map Inr hkey"
    using assms by (simp add: hex_key_def)
  have "length (map ?f [0..<16]) = length (map Inr akey :: (string + u8) list)" using assms by (simp add: hex_key_def)
  from m [unfolded append_eq_append_conv [OF disjI1, OF this]]
  have a: "map ?f [0..<16] = map Inr akey" "map ?f [16..<36] = map Inr hkey" by simp_all
  have "map (\<lambda>i. hex_u8 (field (32 + i * 2) 2 key)) [0..<20] = map ?f [16..<36]"
    by (rule nth_equalityI) (auto simp: algebra_simps simp del: upt_rec_numeral)
  then show "hex_bytes key 0 16 = ret akey" "hex_bytes key 32 20 = ret hkey"
    using a assms hex_bytes_ok [of key 0 16 akey] hex_bytes_ok [of key 32 20 hkey] by (simp_all add: hex_key_def)
qed

context std_disk begin

lemma vf_new_ok:
  assumes "ready s p" and "v2_image content k len off" and "off \<le> length content" and "hex_key key akey hkey"
  shows "\<exists>v s'. vf_new C dev key s = (Ok v, s') \<and> vf_at (ahead content ready) akey hkey k v 0 len (drop off content) \<and>
    vf_buffer v = replicate k 0 \<and> vf_buffer_pos v = 0 \<and> vf_buffer_len v = 0"
proof -
  have l: "832 \<le> length content" "take 8 content = ENCRCDSA" and h: "unat (h2_blocksize (v2_of (take 832 content))) = k"
    "unat (h2_datasize (v2_of (take 832 content))) = len" "unat (h2_dataoffset (v2_of (take 832 content))) = off"
    using assms(2) by (simp_all add: v2_image_def V2_SIZE_def Let_def)
  obtain s1 where s1: "sf_seek dev (Start 0) s = (Ok 0, s1)" "ready s1 0" using seek_start [OF assms(1), of 0] by auto
  have "0 + 8 \<le> length content" using l(1) by simp
  from std_exact_at [OF s1(2) this] obtain s2 where
    s2: "std_read_exact (sf_read dev) 8 s1 = (Ok ENCRCDSA, s2)" "ready s2 8" by (auto simp: l(2))
  have ver: "determine_header_version dev s = (Ok 2, s2)"
    using s1(1) s2(1) by (simp add: determine_header_version_def bnd_def map_err_def ok_and_def ret_def)
  obtain s3 where s3: "sf_seek dev (Start 0) s2 = (Ok 0, s3)" "ready s3 0" using seek_start [OF s2(2), of 0] by auto
  have "0 + V2_SIZE \<le> length content" using l(1) by (simp add: V2_SIZE_def)
  from std_exact_at [OF s3(2) this] obtain s4 where
    s4: "std_read_exact (sf_read dev) V2_SIZE s3 = (Ok (take 832 content), s4)" "ready s4 832" by (auto simp: V2_SIZE_def)
  have lay: "data_layout dev 2 s2 = (Ok (k, len, off), s4)"
    using s3(1) s4(1) h by (simp add: data_layout_def read_v2_def bnd_def map_err_def ret_def)
  obtain s5 where s5: "sf_seek dev (Start off) s4 = (Ok off, s5)" "ready s5 off" using seek_start [OF s4(2) assms(3)] by blast
  have lens: "32 \<le> length key" "72 \<le> length key" "length akey = 16" "length hkey = 20" using assms(4) by (simp_all add: hex_key_def)
  let ?v = "\<lparr>vf_input = s5, vf_aes_key = akey, vf_hmac_key = hkey, vf_block_size = k, vf_data_size = len, vf_total_out = 0,
    vf_hdr_version = 2, vf_chunk_no = 0, vf_buffer = replicate k 0, vf_buffer_pos = 0, vf_buffer_len = 0\<rparr>"
  have keys: "key_material C dev 2 key s2 = (Ok (akey, hkey), s2)"
    using lens by (simp add: key_material_def hex_key_ok [OF assms(4)] ret_run)
  have seek: "map_err VIo (sf_seek dev (Start off)) s4 = (Ok off, s5)" by (simp add: map_err_def s5(1))
  have "vf_new C dev key s = (Ok ?v, s5)"
    using lens by (simp add: vf_new_def slice_to_def bnd_Ok [where m = "determine_header_version dev", OF ver]
        bnd_Ok [where m = "key_material C dev 2 key", OF keys] bnd_Ok [where m = "data_layout dev 2", OF lay]
        bnd_Ok [where m = "map_err VIo (sf_seek dev (Start off))", OF seek])
  moreover have "unat (h2_datasize (v2_of (take 832 content))) < 2 ^ LENGTH(64)" by (rule unsigned_less)
  then have "len < 2 ^ 64" using h(2) by simp
  then have "vf_at (ahead content ready) akey hkey k ?v 0 len (drop off content)"
    using s5(2) assms(3) by (auto simp: vf_at_def ahead_def)
  ultimately show ?thesis by (intro exI [of _ ?v] exI [of _ s5]) simp
qed

lemma vf_decrypt_ok:
  assumes "ready s p" and "v2_image content k len off" and "off + len \<le> length content" and "hex_key key akey hkey"
    and "crypto_ok C akey hkey mac aes" and "0 < k" and "div_ceil len k < 2 ^ 32" and "std_sink wr out" and "len < fuel"
  shows "\<exists>s' t'. vf_decrypt C dev wr key fuel (s, t) = (Ok (), (s', t')) \<and>
    out t' = out t @ plain_chunks mac aes 0 (pieces k (take len (drop off content)))"
proof -
  have "off \<le> length content" using assms(3) by simp
  from vf_new_ok [where C = C, OF assms(1,2) this assms(4)] obtain v s1 where
    v: "vf_new C dev key s = (Ok v, s1)" "vf_at (ahead content ready) akey hkey k v 0 len (drop off content)" by blast
  have src: "std_source (sf_read dev) (ahead content ready)" by (simp add: std_source_def ahead_source)
  have "len \<le> length (drop off content)" "0 + div_ceil len k < 2 ^ 32" using assms(3,7) by simp_all
  from decrypt_batches_ok [OF src assms(8,5,6) v(2) this assms(9)] obtain v' t' where
    r: "decrypt_batches C dev wr fuel (v, t) = (Ok (), (v', t'))"
      "out t' = out t @ plain_chunks mac aes 0 (pieces k (take len (drop off content)))" by blast
  have n: "on_fst (vf_new C dev key) (s, t) = (Ok v, (s1, t))" by (simp add: on_fst_def v(1))
  have "vf_decrypt C dev wr key fuel (s, t) = (Ok (), (vf_input v', t'))"
    by (simp add: vf_decrypt_def bnd_Ok [where m = "on_fst (vf_new C dev key)", OF n] decrypt_parallel_def map_err_def r(1))
  then show ?thesis using r(2) by blast
qed

end

section \<open>Reading\<close>

text \<open>
  What \<open>Read::read\<close> promises of a source: while bytes are ahead a read gives one of them or more, perhaps fewer than the buffer
  takes.
\<close>

definition reads_some :: "'s std_reader \<Rightarrow> ('s \<Rightarrow> bytes \<Rightarrow> bool) \<Rightarrow> bool" where
  "reads_some rd nxt \<longleftrightarrow> (\<forall>s bs n. nxt s bs \<and> bs \<noteq> [] \<and> 0 < n \<longrightarrow>
     (\<exists>j s'. 0 < j \<and> j \<le> n \<and> j \<le> length bs \<and> rd n s = (Ok (take j bs), s') \<and> nxt s' (drop j bs)))"

text \<open>The answers of successive reads of \<open>k\<close> bytes.\<close>

fun answers :: "'s std_reader \<Rightarrow> nat \<Rightarrow> 's \<Rightarrow> bytes list \<Rightarrow> bool" where
  "answers rd k s [] \<longleftrightarrow> True"
| "answers rd k s (d # ds) \<longleftrightarrow> (case rd k s of (Ok d', s') \<Rightarrow> d' = d \<and> answers rd k s' ds | _ \<Rightarrow> False)"

text \<open>A source of \<open>len\<close> bytes or more answers until they are read, and only the last answer goes beyond them.\<close>

lemma answers_exist:
  assumes "reads_some rd nxt" and "0 < k"
  shows "nxt s bs \<Longrightarrow> len \<le> length bs \<Longrightarrow> \<exists>ds. answers rd k s ds \<and> (\<forall>d \<in> set ds. d \<noteq> [] \<and> length d \<le> k) \<and>
    len \<le> length (concat ds) \<and> (ds = [] \<or> length (concat (butlast ds)) < len) \<and> (\<exists>more. bs = concat ds @ more) \<and> length ds \<le> len"
proof (induction len arbitrary: s bs rule: less_induct)
  case (less len)
  show ?case
  proof (cases "len = 0")
    case True
    then show ?thesis by (intro exI [of _ "[]"]) simp
  next
    case False
    then have "bs \<noteq> []" using less.prems(2) by auto
    then obtain j s' where j: "0 < j" "j \<le> k" "j \<le> length bs" "rd k s = (Ok (take j bs), s')" "nxt s' (drop j bs)"
      using assms less.prems(1) unfolding reads_some_def by blast
    have "len - j < len" "len - j \<le> length (drop j bs)" using j(1) False less.prems(2) by simp_all
    from less.IH [OF this(1) j(5) this(2)] obtain ds where ds: "answers rd k s' ds" "\<forall>d \<in> set ds. d \<noteq> [] \<and> length d \<le> k"
      "len - j \<le> length (concat ds)" "ds = [] \<or> length (concat (butlast ds)) < len - j"
      "\<exists>more. drop j bs = concat ds @ more" "length ds \<le> len - j" by blast
    from ds(5) obtain more where "drop j bs = concat ds @ more" ..
    define d where "d = take j bs"
    have d: "length d = j" "d \<noteq> []" "rd k s = (Ok d, s')" using j by (auto simp: d_def)
    have "bs = concat (d # ds) @ more"
      using append_take_drop_id [of j bs] \<open>drop j bs = concat ds @ more\<close> unfolding d_def by simp
    then have "\<exists>more. bs = concat (d # ds) @ more" ..
    moreover have "answers rd k s (d # ds)" using ds(1) d(3) by simp
    moreover have "\<forall>e \<in> set (d # ds). e \<noteq> [] \<and> length e \<le> k" using ds(2) d(1,2) j(2) by simp
    moreover have "len \<le> length (concat (d # ds))" "length (d # ds) \<le> len" using ds(3,6) d(1) j(1) False by auto
    moreover have "length (concat (butlast (d # ds))) < len" using ds(4) d(1) False by auto
    ultimately show ?thesis by blast
  qed
qed

text \<open>The bytes of the buffer that were not handed out, then those of the answers \<open>ds\<close> to come, up to the end of the data.\<close>

definition vf_next ::
  "(bytes \<Rightarrow> bytes) \<Rightarrow> (bytes \<Rightarrow> bytes \<Rightarrow> bytes) \<Rightarrow> 's std_reader \<Rightarrow> bytes \<Rightarrow> bytes \<Rightarrow> nat \<Rightarrow> 's vf \<Rightarrow> bytes \<Rightarrow> bool" where
  "vf_next mac aes rd akey hkey k v bs \<longleftrightarrow> (\<exists>i left ds. vf_at (\<lambda>_ _. True) akey hkey k v i left [] \<and>
     answers rd k (vf_input v) ds \<and> (\<forall>d \<in> set ds. d \<noteq> [] \<and> length d \<le> k) \<and>
     i + length ds < 2 ^ 32 \<and> length (vf_buffer v) = k \<and> vf_buffer_pos v \<le> vf_buffer_len v \<and>
     vf_buffer_len v \<le> k \<and> vf_buffer_len v - vf_buffer_pos v \<le> left \<and>
     bs = take left (field (vf_buffer_pos v) (vf_buffer_len v - vf_buffer_pos v) (vf_buffer v) @ plain_chunks mac aes i ds))"

lemma length_plain_chunks: "crypto_ok C akey hkey mac aes \<Longrightarrow> length (plain_chunks mac aes i ds) = length (concat ds)"
  by (induction ds arbitrary: i) (simp_all add: decrypt_chunk_ok(2))

lemma length_plain_pieces:
  "crypto_ok C akey hkey mac aes \<Longrightarrow> 0 < k \<Longrightarrow> length (plain_chunks mac aes i (pieces k rest)) = length rest"
  by (simp add: length_plain_chunks concat_pieces)

lemma take_cut: "length p = n \<Longrightarrow> take m (take (min n m) p @ xs) = take m (p @ xs)"
  by (cases "n \<le> m") simp_all

lemma drop_take_front: "j \<le> length b \<Longrightarrow> drop j (take m (b @ xs)) = take (m - j) (drop j b @ xs)"
  by (simp only: drop_take drop_append) simp

lemma hand_out_ok:
  assumes "vf_next mac aes rd akey hkey k v bs" and "vf_buffer_pos v < vf_buffer_len v" and "0 < n"
  shows "\<exists>j v'. 0 < j \<and> j \<le> n \<and> hand_out n v = (Ok (take j bs), v') \<and> vf_next mac aes rd akey hkey k v' (drop j bs)"
proof -
  obtain i left ds where a: "vf_at (\<lambda>_ _. True) akey hkey k v i left []" "answers rd k (vf_input v) ds" "\<forall>d \<in> set ds. d \<noteq> [] \<and> length d \<le> k"
      "i + length ds < 2 ^ 32" "length (vf_buffer v) = k" "vf_buffer_len v \<le> k" "vf_buffer_len v - vf_buffer_pos v \<le> left"
    and bs: "bs = take left (field (vf_buffer_pos v) (vf_buffer_len v - vf_buffer_pos v) (vf_buffer v) @ plain_chunks mac aes i ds)"
    using assms(1) unfolding vf_next_def by blast
  let ?w = "vf_buffer_len v - vf_buffer_pos v"
  define j where "j = min n ?w"
  have j: "0 < j" "j \<le> n" "j \<le> ?w" using assms(2,3) by (auto simp: j_def)
  let ?v = "v\<lparr>vf_buffer_pos := vf_buffer_pos v + j, vf_total_out := vf_total_out v + j\<rparr>"
  let ?B = "field (vf_buffer_pos v) ?w (vf_buffer v)"
  have B: "length ?B = ?w" using a(5,6) by (simp add: field_def)
  have tk: "take j bs = field (vf_buffer_pos v) j (vf_buffer v)"
  proof -
    have "take j bs = take j ?B" using j(3) a(7) B by (simp add: bs min_absorb1)
    also have "\<dots> = field (vf_buffer_pos v) j (vf_buffer v)" using j(3) by (simp add: field_def min_absorb1)
    finally show ?thesis .
  qed
  have dr: "drop j ?B = field (vf_buffer_pos v + j) (?w - j) (vf_buffer v)"
    by (simp add: field_def drop_take add.commute)
  have "drop j bs = take (left - j) (field (vf_buffer_pos v + j) (?w - j) (vf_buffer v) @ plain_chunks mac aes i ds)"
    using drop_take_front [of j ?B left] j(3) by (simp only: B bs dr)
  moreover have "vf_at (\<lambda>_ _. True) akey hkey k ?v i (left - j) []" using a(1,7) j(3) by (simp add: vf_at_def)
  ultimately have "vf_next mac aes rd akey hkey k ?v (drop j bs)"
    unfolding vf_next_def by (intro exI [of _ i] exI [of _ "left - j"] exI [of _ ds]) (use a j in auto)
  moreover have "vf_total_out v + j < 2 ^ 64" using a(1,7) j(3) by (simp add: vf_at_def)
  then have "hand_out n v = (Ok (take j bs), ?v)"
    by (simp add: hand_out_def Let_def tk flip: j_def)
  ultimately show ?thesis using j by blast
qed

lemma refill_ok:
  assumes "vf_next mac aes (sf_read dev) akey hkey k v bs" and "vf_buffer_pos v = vf_buffer_len v" and "bs \<noteq> []"
    and "crypto_ok C akey hkey mac aes"
  shows "\<exists>v'. refill C dev v = (Ok True, v') \<and> vf_next mac aes (sf_read dev) akey hkey k v' bs \<and> vf_buffer_pos v' < vf_buffer_len v'"
proof -
  obtain i left ds0 where a0: "vf_at (\<lambda>_ _. True) akey hkey k v i left []" "answers (sf_read dev) k (vf_input v) ds0"
      "\<forall>d \<in> set ds0. d \<noteq> [] \<and> length d \<le> k" "i + length ds0 < 2 ^ 32" "length (vf_buffer v) = k" and bs0: "bs = take left (plain_chunks mac aes i ds0)"
    using assms(1,2) unfolding vf_next_def by (auto simp: field_def)
  then obtain d ds where ds0: "ds0 = d # ds" using assms(3) by (cases ds0) auto
  note at = a0(1) [unfolded vf_at_def]
  have ne: "0 < left" using assms(3) by (auto simp: bs0)
  obtain s' where s': "sf_read dev k (vf_input v) = (Ok d, s')" "answers (sf_read dev) k s' ds"
    using a0(2) by (auto simp: ds0 split: prod.splits res.splits)
  have d: "d \<noteq> []" "length d \<le> k" "\<forall>e \<in> set ds. e \<noteq> [] \<and> length e \<le> k" "i + 1 + length ds < 2 ^ 32"
    using a0(3,4) by (simp_all add: ds0)
  let ?m = "length d" let ?p = "plain_chunk mac aes i d"
  have p: "length ?p = ?m" by (rule decrypt_chunk_ok(2) [OF assms(4)])
  let ?len = "if left < ?m then left else ?m"
  let ?v = "v\<lparr>vf_input := s', vf_buffer := ?p @ drop ?m (vf_buffer v), vf_buffer_len := ?len, vf_buffer_pos := 0, vf_chunk_no := of_nat (i + 1)\<rparr>"
  have "unat (of_nat i :: u32) = i" using d(4) by (simp add: unat_of_nat take_bit_nat_eq_self)
  then have no: "unat (of_nat i :: u32) + 1 < 2 ^ 32" using d(4) by simp
  have run: "refill C dev v = (Ok True, ?v)"
    using s'(1) a0(5) d(1) at no
    by (simp add: refill_def on_input_def bnd_def ret_def chunk_number_def Let_def add.commute decrypt_chunk_ok(1) [OF assms(4)])
  have "field 0 ?len (?p @ drop ?m (vf_buffer v)) = take (min ?m left) ?p"
    using p by (simp add: field_def min_def)
  then have "bs = take left (field 0 ?len (?p @ drop ?m (vf_buffer v)) @ plain_chunks mac aes (i + 1) ds)"
    using take_cut [OF p] by (simp add: bs0 ds0)
  moreover have "vf_at (\<lambda>_ _. True) akey hkey k ?v (i + 1) left []" using at by (simp add: vf_at_def)
  moreover have "length (?p @ drop ?m (vf_buffer v)) = k" "?len \<le> k" "?len \<le> left" using a0(5) d(2) p by auto
  ultimately have "vf_next mac aes (sf_read dev) akey hkey k ?v bs"
    unfolding vf_next_def using s'(2) d(3,4) by (intro exI [of _ "i + 1"] exI [of _ left] exI [of _ ds]) simp
  moreover have "0 < ?len" using ne d(1) by auto
  ultimately show ?thesis using run by (intro exI [of _ ?v]) simp
qed

text \<open>A decryptor of version 2 is a source of the plaintext of the answers.\<close>

lemma vf_source:
  assumes "crypto_ok C akey hkey mac aes"
  shows "std_source (vf_read C dev) (vf_next mac aes (sf_read dev) akey hkey k)"
proof unfold_locales
  fix v bs n assume v: "vf_next mac aes (sf_read dev) akey hkey k v bs" and n: "0 < n" "n \<le> length bs"
  from v obtain i left ds where at: "vf_at (\<lambda>_ _. True) akey hkey k v i left []" "vf_buffer_pos v \<le> vf_buffer_len v"
    and bs: "bs = take left (field (vf_buffer_pos v) (vf_buffer_len v - vf_buffer_pos v) (vf_buffer v) @ plain_chunks mac aes i ds)"
    unfolding vf_next_def by blast
  have "length bs \<le> left" by (simp add: bs)
  then have go: "\<not> (vf_hdr_version v = 2 \<and> vf_data_size v \<le> vf_total_out v)" using n at(1) by (auto simp: vf_at_def)
  have "\<exists>v1. (if vf_buffer_len v \<le> vf_buffer_pos v then refill C dev else ret True) v = (Ok True, v1) \<and>
      vf_next mac aes (sf_read dev) akey hkey k v1 bs \<and> vf_buffer_pos v1 < vf_buffer_len v1"
  proof (cases "vf_buffer_pos v = vf_buffer_len v")
    case True
    have "bs \<noteq> []" using n by auto
    from refill_ok [OF v True this assms] True show ?thesis by simp
  next
    case False
    then show ?thesis using v at(2) by (simp add: ret_run)
  qed
  then obtain v1 where v1: "(if vf_buffer_len v \<le> vf_buffer_pos v then refill C dev else ret True) v = (Ok True, v1)"
    "vf_next mac aes (sf_read dev) akey hkey k v1 bs" "vf_buffer_pos v1 < vf_buffer_len v1" by blast
  from hand_out_ok [OF v1(2,3) n(1)] show "\<exists>j v'. 0 < j \<and> j \<le> n \<and> vf_read C dev n v = (Ok (take j bs), v') \<and>
      vf_next mac aes (sf_read dev) akey hkey k v' (drop j bs)"
    using go v1(1) by (auto simp: vf_read_def bnd_def)
qed

text \<open>Any number of exact reads of it.\<close>

lemma vf_reads:
  assumes "crypto_ok C akey hkey mac aes"
  shows "vf_next mac aes (sf_read dev) akey hkey k v bs \<Longrightarrow> length bs = sum_list ns \<Longrightarrow>
    \<exists>bss v'. map_act (std_read_exact (vf_read C dev)) ns v = (Ok bss, v') \<and> concat bss = bs \<and> map length bss = ns"
proof (induction ns arbitrary: v bs)
  case (Cons n ns)
  note src = vf_source [OF assms, where dev = dev and k = k]
  obtain w1 where w1: "std_read_exact (vf_read C dev) n v = (Ok (take n bs), w1)" "vf_next mac aes (sf_read dev) akey hkey k w1 (drop n bs)"
    using readsD [OF std_source.reads_std_exact [OF src], of "take n bs" n v "drop n bs"] Cons.prems by auto
  from Cons.IH [OF w1(2)] Cons.prems(2) obtain bss w2 where
    "map_act (std_read_exact (vf_read C dev)) ns w1 = (Ok bss, w2)" "concat bss = drop n bs" "map length bss = ns" by auto
  then show ?case using w1(1) Cons.prems(2) by (auto simp: act_simps)
qed (simp add: ret_run)

end
