(* ===== verification/VfProps.thy ===== *)
theory VfProps
  imports VfSpec
begin

text \<open>The properties of encrypted disk images.\<close>

section \<open>Cutting the plaintext\<close>

text \<open>What CBC mode has: whole blocks are decrypted without those behind them.\<close>

definition cuts_blocks :: "(bytes \<Rightarrow> bytes \<Rightarrow> bytes) \<Rightarrow> bool" where
  "cuts_blocks aes \<longleftrightarrow> (\<forall>iv d j. 16 dvd j \<and> 16 dvd length d \<and> length iv = 16 \<longrightarrow> aes iv (take j d) = take j (aes iv d))"

lemma plain_chunk_cut:
  assumes "crypto_ok C akey hkey mac aes" and "cuts_blocks aes" and "n \<le> length d"
  shows "take (n div 16 * 16) (plain_chunk mac aes i (take n d)) = take (n div 16 * 16) (plain_chunk mac aes i d)"
proof (cases "n < 16")
  case False
  let ?k = "length d div 16 * 16" and ?iv = "take 16 (mac (to_be (of_nat i :: u32)))" and ?j = "n div 16 * 16"
  have iv: "length ?iv = 16" using assms(1) by (simp add: crypto_ok_def)
  have j: "?j \<le> ?k" "?j \<le> n" "?k \<le> length d" using assms(3) by (simp_all add: div_le_mono)
  then have dv: "16 dvd length (take ?k d)" "16 dvd length (take ?j d)" by (simp_all add: min_absorb2)
  have la: "length (aes ?iv e) = length e" if "16 dvd length e" for e
    using assms(1) iv that unfolding crypto_ok_def by blast
  have "plain_chunk mac aes i d = aes ?iv (take ?k d) @ drop ?k d" using False assms(3) by (simp add: plain_chunk_def)
  then have 1: "take ?j (plain_chunk mac aes i d) = take ?j (aes ?iv (take ?k d))" using la [OF dv(1)] j by (simp add: min_absorb2)
  have "plain_chunk mac aes i (take n d) = aes ?iv (take ?j d) @ drop ?j (take n d)"
    using False assms(3) j(2) by (simp add: plain_chunk_def min_absorb1 min_absorb2)
  then have 2: "take ?j (plain_chunk mac aes i (take n d)) = aes ?iv (take ?j d)" using la [OF dv(2)] j by (simp add: min_absorb2)
  have "16 dvd ?j" by simp
  then have "aes ?iv (take ?j (take ?k d)) = take ?j (aes ?iv (take ?k d))" using assms(2) dv(1) iv unfolding cuts_blocks_def by blast
  then show ?thesis using 1 2 j(1) by (simp add: min_absorb1)
qed simp

lemma plain_cut:
  assumes "crypto_ok C akey hkey mac aes" and "cuts_blocks aes" and "0 < k"
  shows "n \<le> length xs \<Longrightarrow> take (n - n mod k mod 16) (plain_chunks mac aes i (pieces k (take n xs))) =
    take (n - n mod k mod 16) (plain_chunks mac aes i (pieces k xs))"
proof (induction "length xs" arbitrary: xs n i rule: less_induct)
  case less
  show ?case
  proof (cases "n = 0")
    case False
    then have ne: "xs \<noteq> []" "take n xs \<noteq> []" using less.prems by auto
    have p: "pieces k xs = take k xs # pieces k (drop k xs)" using ne assms(3) by (simp add: pieces_simps)
    have l: "length (plain_chunk mac aes i (take k xs)) = length (take k xs)" by (rule decrypt_chunk_ok(2) [OF assms(1)])
    show ?thesis
    proof (cases "n < k")
      case True
      then have n: "n - n mod k mod 16 = n div 16 * 16" "n \<le> length (take k xs)" using less.prems by (simp_all add: minus_mod_eq_div_mult)
      have "pieces k (take n xs) = [take n (take k xs)]" using ne True assms(3) by (simp add: pieces_simps)
      then show ?thesis using plain_chunk_cut [OF assms(1,2) n(2), of i] n l
        by (simp add: p) (metis le_trans div_times_less_eq_dividend min.absorb2 length_take diff_is_0_eq take0 append_Nil2)
    next
      case f: False
      have d: "length (drop k xs) < length xs" "n - k \<le> length (drop k xs)"
        using f less.prems assms(3) ne by simp_all
      have q: "pieces k (take n xs) = take k xs # pieces k (take (n - k) (drop k xs))"
        using ne f assms(3) by (simp add: pieces_simps drop_take min_absorb1)
      have m: "(n - k) mod k = n mod k" using f by (simp add: le_mod_geq)
      have "n mod k mod 16 \<le> n mod k" by (rule mod_less_eq_dividend)
      moreover have "n mod k \<le> n - k" using m by (metis mod_less_eq_dividend)
      ultimately have "n mod k mod 16 \<le> n - k" by simp
      then have "n - n mod k mod 16 - k = n - k - (n - k) mod k mod 16" "k \<le> n - n mod k mod 16" using m f by simp_all
      then show ?thesis using less.hyps [OF d, of "i + 1"] l f less.prems by (simp add: p q min_absorb2)
    qed
  qed (simp add: pieces_simps)
qed

text \<open>Answers that fill the buffer, but for the last one, are the pieces of what was read.\<close>

lemma full_pieces:
  "0 < k \<Longrightarrow> \<forall>d \<in> set ds. d \<noteq> [] \<and> length d \<le> k \<Longrightarrow> \<forall>d \<in> set (butlast ds). length d = k \<Longrightarrow> ds = pieces k (concat ds)"
proof (induction ds)
  case (Cons d ds)
  show ?case
  proof (cases "ds = []")
    case True
    then show ?thesis using Cons.prems by (simp add: pieces_simps)
  next
    case False
    then have "length d = k" "ds = pieces k (concat ds)" using Cons by auto
    then show ?thesis using Cons.prems(1,2) by (simp add: pieces_simps)
  qed
qed (simp add: pieces_simps)

section \<open>Properties\<close>

text \<open>C32: decrypting an image of the second version with a key given in hexadecimal digits writes the plaintext of its data: block by
  block, each with the vector that the digest of its number gives, up to the size in the header.\<close>

theorem vf_decrypt_writes:
  assumes "std_disk dev img rdy" and "rdy s p" and "v2_image img k len off" and "off + len \<le> length img"
    and "hex_key key akey hkey" and "crypto_ok C akey hkey mac aes" and "0 < k" and "div_ceil len k < 2 ^ 32"
    and "std_sink wr out" and "len < fuel"
  shows "\<exists>s' t'. vf_decrypt C dev wr key fuel (s, t) = (Ok (), (s', t')) \<and>
    out t' = out t @ plain_chunks mac aes 0 (pieces k (take len (drop off img)))"
  using assms by (rule std_disk.vf_decrypt_ok)

text \<open>C31: reading an image of the second version through the decryptor, with a key of seventy-two hexadecimal digits or more and data of less than 4 GB,
  gives as many bytes as are asked for, in reads of any sizes: the plaintext of what the input answers, where each answer of the
  input, short or not, is decrypted under the next number. When the input fills the buffer with every answer but the last, these are the bytes
  that decrypting into a file writes, save for the last \<open>(len mod k) mod 16\<close>: what is behind the last whole cipher block of the data is
  left encrypted in the file, and is decrypted with the bytes behind it here. So with data of whole cipher blocks the two agree.\<close>

theorem vf_read_agrees:
  assumes "std_disk dev img rdy" and "rdy s p" and "v2_image img k len off" and "off + len \<le> length img"
    and "hex_key key akey hkey" and "crypto_ok C akey hkey mac aes" and "0 < k" and "len < 2 ^ 32"
    and "reads_some (sf_read dev) (ahead img rdy)" and "cuts_blocks aes" and "sum_list ns = len" and "len < fuel"
  shows "\<exists>v s' v' s'' t bss ds. vf_new C dev key s = (Ok v, s') \<and>
    answers (sf_read dev) k (vf_input v) ds \<and> len \<le> length (concat ds) \<and> (ds = [] \<or> length (concat (butlast ds)) < len) \<and>
    map_act (std_read_exact (vf_read C dev)) ns v = (Ok bss, v') \<and> map length bss = ns \<and>
    concat bss = take len (plain_chunks mac aes 0 ds) \<and>
    vf_decrypt C dev vec_put key fuel (s, []) = (Ok (), (s'', t)) \<and> length t = len \<and>
    ((\<forall>d \<in> set (butlast ds). length d = k) \<longrightarrow>
      take (len - len mod k mod 16) (concat bss) = take (len - len mod k mod 16) t)"
proof -
  let ?rest = "drop off img" and ?j = "len - len mod k mod 16"
  have off: "off \<le> length img" and len: "len \<le> length ?rest" using assms(4) by simp_all
  obtain v s' where v: "vf_new C dev key s = (Ok v, s')" "vf_at (ahead img rdy) akey hkey k v 0 len ?rest"
    "vf_buffer v = replicate k 0" "vf_buffer_pos v = 0" "vf_buffer_len v = 0"
    using std_disk.vf_new_ok [where C = C, OF assms(1-3) off assms(5)] by blast
  have "ahead img rdy (vf_input v) ?rest" using v(2) by (simp add: vf_at_def)
  from answers_exist [OF assms(9,7) this len] obtain ds where ds: "answers (sf_read dev) k (vf_input v) ds"
    "\<forall>d \<in> set ds. d \<noteq> [] \<and> length d \<le> k" "len \<le> length (concat ds)" "ds = [] \<or> length (concat (butlast ds)) < len"
    "\<exists>more. ?rest = concat ds @ more" "length ds \<le> len" by blast
  let ?bs = "take len (plain_chunks mac aes 0 ds)"
  have "vf_next mac aes (sf_read dev) akey hkey k v ?bs"
    unfolding vf_next_def using v(2-5) ds assms(8)
    by (intro exI [of _ 0] exI [of _ len] exI [of _ ds]) (simp add: field_def vf_at_def)
  moreover have lb: "length ?bs = len" using ds(3) by (simp add: length_plain_chunks [OF assms(6)])
  ultimately obtain bss v' where r: "map_act (std_read_exact (vf_read C dev)) ns v = (Ok bss, v')" "concat bss = ?bs" "map length bss = ns"
    using vf_reads [OF assms(6), of dev k v ?bs ns] assms(11) by auto
  have "div_ceil len k \<le> len"
  proof (cases "len = 0")
    case False
    then have "len + k - 1 \<le> len * k" using assms(7) by (cases len; cases k) auto
    then have "(len + k - 1) div k \<le> len * k div k" by (rule div_le_mono)
    then show ?thesis using assms(7) by (simp add: div_ceil_def)
  qed (use assms(7) in \<open>simp add: div_ceil_simps\<close>)
  then have "div_ceil len k < 2 ^ 32" using assms(8) by simp
  from std_disk.vf_decrypt_ok [OF assms(1-7) this vec_out.std_sink_axioms assms(12), of "[]"] obtain s'' t where
    d: "vf_decrypt C dev vec_put key fuel (s, []) = (Ok (), (s'', t))" "t = plain_chunks mac aes 0 (pieces k (take len ?rest))" by auto
  have "take ?j (concat bss) = take ?j t" if "\<forall>d \<in> set (butlast ds). length d = k"
  proof -
    have p: "ds = pieces k (concat ds)" by (rule full_pieces [OF assms(7) ds(2) that])
    have "take len ?rest = take len (concat ds)" using ds(3,5) by auto
    then have "take ?j t = take ?j (plain_chunks mac aes 0 (pieces k (concat ds)))"
      unfolding d(2) using plain_cut [OF assms(6,10,7) ds(3), of 0] by (simp only:)
    then show ?thesis using r(2) by (simp add: min_absorb1 flip: p)
  qed
  moreover have "length t = len" using len by (simp add: d(2) length_plain_pieces [OF assms(6,7)])
  ultimately show ?thesis using v(1) ds(1,3,4) r d(1) by blast
qed

section \<open>Witnesses\<close>

text \<open>Two blocks of sixteen bytes; a toy cipher that adds one to each byte.\<close>

definition sample_crypto :: vf_crypto where
  "sample_crypto = \<lparr>vc_pbkdf2 = (\<lambda>_ _ _ n. replicate n 0), vc_tdes = (\<lambda>_ _. Inr Inr),
     vc_hmac = (\<lambda>_. Inr (\<lambda>_. replicate 20 0)), vc_aes = (\<lambda>_ _. Inr (\<lambda>d. Inr (map (\<lambda>b. b + 1) d)))\<rparr>"

definition vf_sample_image :: bytes where
  "vf_sample_image = ENCRCDSA @ replicate 44 0 @ to_be (16 :: u32) @ to_be (32 :: u64) @ to_be (832 :: u64) @ replicate 760 0
     @ replicate 32 5"

lemma length_vf_sample_image: "length ENCRCDSA = 8" "length vf_sample_image = 864"
  by (simp_all add: vf_sample_image_def ENCRCDSA_def)

lemma sample_v2: "v2_image vf_sample_image 16 32 832" "drop 832 vf_sample_image = replicate 32 5"
proof -
  have "h2_blocksize (v2_of (take 832 vf_sample_image)) = 16" "h2_datasize (v2_of (take 832 vf_sample_image)) = 32"
    "h2_dataoffset (v2_of (take 832 vf_sample_image)) = 832"
    by (simp_all add: v2_of_def field_def vf_sample_image_def length_vf_sample_image(1) from_be_to_be)
  moreover have "take 8 vf_sample_image = ENCRCDSA" by (simp add: vf_sample_image_def length_vf_sample_image(1))
  ultimately show "v2_image vf_sample_image 16 32 832" by (simp add: v2_image_def V2_SIZE_def length_vf_sample_image(2))
  show "drop 832 vf_sample_image = replicate 32 5" by (simp add: vf_sample_image_def length_vf_sample_image(1))
qed

lemma sample_key: "hex_key (replicate 72 48) (replicate 16 0) (replicate 20 0)"
  unfolding hex_key_def
proof (intro conjI)
  have "hex_u8 (field (i * 2) 2 (replicate 72 48)) = Inr 0" if "i < 36" for i
    using that by (simp add: hex_u8_def field_def hex_digit_def)
  then show "map (\<lambda>i. hex_u8 (field (i * 2) 2 (replicate 72 48))) [0..<36] = map Inr (replicate 16 0 @ replicate 20 0)"
    by (intro nth_equalityI) (auto simp: nth_append simp del: upt_rec_numeral)
qed (simp_all add: list_all_iff)

lemma sample_crypto_ok: "crypto_ok sample_crypto (replicate 16 0) (replicate 20 0) (\<lambda>_. replicate 20 0) (\<lambda>_. map (\<lambda>b. b + 1))"
  by (simp add: crypto_ok_def sample_crypto_def)

lemma sample_device: "std_disk std_cursor vf_sample_image (std_cursor_ready vf_sample_image)"
  "std_cursor_ready vf_sample_image (vf_sample_image, 0) 0"
  by (rule std_cursor_disk.std_disk_axioms) (simp add: std_cursor_ready_def length_vf_sample_image)

text \<open>A device that gives at most ten bytes at once.\<close>

definition slow_cursor :: "(bytes \<times> nat) std_file" where
  "slow_cursor = std_cursor\<lparr>sf_read := (\<lambda>n. sf_read std_cursor (min n 10))\<rparr>"

lemma slow_device: "std_disk slow_cursor vf_sample_image (std_cursor_ready vf_sample_image)"
  "reads_some (sf_read slow_cursor) (ahead vf_sample_image (std_cursor_ready vf_sample_image))"
proof -
  note std = sample_device(1) [THEN std_disk.axioms]
  show "std_disk slow_cursor vf_sample_image (std_cursor_ready vf_sample_image)"
  proof unfold_locales
    fix s p q assume "std_cursor_ready vf_sample_image s p" "q \<le> length vf_sample_image"
    from random_access.seek_start [OF std this]
    show "\<exists>s'. sf_seek slow_cursor (Start q) s = (Ok q, s') \<and> std_cursor_ready vf_sample_image s' q" by (simp add: slow_cursor_def)
  next
    fix s p n assume r: "std_cursor_ready vf_sample_image s p" "0 < n" "p + n \<le> length vf_sample_image"
    then have "0 < min n 10" "p + min n 10 \<le> length vf_sample_image" by auto
    from random_access.read_some [OF std r(1) this]
    show "\<exists>k s'. 0 < k \<and> k \<le> n \<and> sf_read slow_cursor n s = (Ok (take k (drop p vf_sample_image)), s') \<and>
        std_cursor_ready vf_sample_image s' (p + k)" by (auto simp: slow_cursor_def)
  qed
  show "reads_some (sf_read slow_cursor) (ahead vf_sample_image (std_cursor_ready vf_sample_image))"
    unfolding reads_some_def
  proof (intro allI impI)
    fix s bs n assume a: "ahead vf_sample_image (std_cursor_ready vf_sample_image) s bs \<and> bs \<noteq> [] \<and> 0 < (n :: nat)"
    then obtain p where p: "s = (vf_sample_image, p)" "p \<le> length vf_sample_image" "drop p vf_sample_image = bs"
      by (auto simp: ahead_def std_cursor_ready_def)
    let ?j = "min (min n 10) (length bs)"
    have "take (min n 10) bs = take ?j bs" "length (take (min n 10) bs) = ?j" by (simp_all add: min_def)
    then have "sf_read slow_cursor n s = (Ok (take ?j bs), (vf_sample_image, p + ?j))"
      by (simp only: slow_cursor_def std_cursor_def p(1,3) Let_def std_file.simps prod.case)
    moreover have "drop (p + ?j) vf_sample_image = drop ?j bs" by (simp add: add.commute flip: p(3))
    moreover have "p + ?j \<le> length vf_sample_image" using p(2,3) by auto
    ultimately show "\<exists>j s'. 0 < j \<and> j \<le> n \<and> j \<le> length bs \<and> sf_read slow_cursor n s = (Ok (take j bs), s') \<and>
        ahead vf_sample_image (std_cursor_ready vf_sample_image) s' (drop j bs)"
      using a by (intro exI [of _ ?j] exI [of _ "(vf_sample_image, p + ?j)"])
        (auto simp: ahead_def std_cursor_ready_def length_vf_sample_image(2))
  qed
qed

lemma sample_cuts: "cuts_blocks (\<lambda>_. map (\<lambda>b. b + 1))"
  by (simp add: cuts_blocks_def take_map)

lemma vf_sample_plain: "plain_chunks (\<lambda>_. replicate 20 0) (\<lambda>_. map (\<lambda>b. b + 1)) 0 (pieces 16 (replicate 32 5)) = replicate 32 6"
  by (simp add: pieces_simps plain_chunk_def flip: replicate_add)

theorem vf_decrypt_writes_witness:
  "snd (snd (vf_decrypt sample_crypto std_cursor vec_put (replicate 72 48) 33 ((vf_sample_image, 0), []))) = replicate 32 6"
  using vf_decrypt_writes [OF sample_device(1,2) sample_v2(1) _ sample_key sample_crypto_ok _ _ vec_out.std_sink_axioms, of 33 "[]"]
  by (auto simp: length_vf_sample_image sample_v2(2) vf_sample_plain div_ceil_def)

text \<open>The device with short reads: the bytes are the plaintext of its answers.\<close>

theorem vf_read_agrees_witness:
  "\<exists>v s' v' bss ds. vf_new sample_crypto slow_cursor (replicate 72 48) (vf_sample_image, 0) = (Ok v, s') \<and>
    answers (sf_read slow_cursor) 16 (vf_input v) ds \<and> 32 \<le> length (concat ds) \<and>
    map_act (std_read_exact (vf_read sample_crypto slow_cursor)) [20, 12] v = (Ok bss, v') \<and> map length bss = [20, 12] \<and>
    concat bss = take 32 (plain_chunks (\<lambda>_. replicate 20 0) (\<lambda>_. map (\<lambda>b. b + 1)) 0 ds)"
proof -
  have "832 + 32 \<le> length vf_sample_image" "(0 :: nat) < 16" "(32 :: nat) < 2 ^ 32" "sum_list [20, 12] = (32 :: nat)" "(32 :: nat) < 33"
    by (simp_all add: length_vf_sample_image)
  from vf_read_agrees [OF slow_device(1) sample_device(2) sample_v2(1) this(1) sample_key sample_crypto_ok this(2,3) slow_device(2) sample_cuts this(4,5)]
  show ?thesis by (elim exE conjE) (intro exI conjI, assumption+)
qed

end
