(* ===== verification/Boot.thy ===== *)
theory Boot
  imports KMacho Traps
begin

text \<open>
  The start of the kernel (\<open>kmain\<close> of \<open>src/src/kernel/src/main.rs\<close>), from the tables of \<open>mmu::init\<close> on up to the first switch: the
  volume is mounted, the comm page filled, the program and its linker are read and loaded, the first process gets a
  stack, a page for its thread and its registers. Messages are left out. The memory of a \<open>Vec\<close> comes from the same
  allocator as other blocks, without an alignment.
\<close>

unbundle bit_operations_syntax

record ('s, 'g) boot_env =
  be_kernel :: "('s, 'g) kernel_env"
  be_parser :: macho_parser
  be_commpage :: u64
  be_vec :: "(u64 \<times> nat) list \<Rightarrow> nat \<Rightarrow> u64 option"
  be_fuel :: nat

section \<open>The comm page\<close>

text \<open>Stores to the static that holds the comm page, whose address the kernel maps to itself.\<close>

definition COMM :: bytes where "COMM = map (\<lambda>c. of_nat (of_char c)) ''comm''"

definition commpage_stores :: "(nat \<times> bytes) list" where
  "commpage_stores = [(0, COMM), (0x1E, to_le (13 :: u16)), (0x22, [1]), (0x24, to_le (4096 :: u32))] @
     map (\<lambda>off. (off, to_le (0x30000000 :: u32))) [0x28, 0x38, 0x68, 0x70, 0x88, 0x90]"

definition fill_commpage :: "table_layout \<Rightarrow> u64 \<Rightarrow> unit vmact" where
  "fill_commpage ly storage = each_act (\<lambda>(off, bs). store_bytes ly (storage + of_nat off) bs) commpage_stores"

section \<open>Reading a program\<close>

definition LAUNCHD :: ustring where "LAUNCHD = map of_char ''/sbin/launchd''"
definition DYLD :: ustring where "DYLD = map of_char ''/usr/lib/dyld''"
definition INITIAL :: ustring where "INITIAL = map of_char ''/bin/initial''"

text \<open>\<open>vfs::open(path).expect(..)\<close> and \<open>read_to_end\<close>.\<close>

definition read_program :: "('s, 'g) boot_env \<Rightarrow> ustring \<Rightarrow> ('s, 'g, bytes) kact" where
  "read_program be path =
     bnd (on_fs (vfs_open (ke_vfs (be_kernel be)) path)) (\<lambda>file.
     case file of
       None \<Rightarrow> panic
     | Some h \<Rightarrow> bnd (on_fs (file_read_to_end (ke_vfs (be_kernel be)) (be_fuel be) h [])) (\<lambda>(data, _). ret data))"

section \<open>The first process\<close>

text \<open>Entry point, path, header of the linker, and whether the program is a 64-bit one; the loader of the program itself.\<close>

definition load_programs ::
  "('s, 'g) boot_env \<Rightarrow> bytes \<Rightarrow> bytes \<Rightarrow> ('s, 'g, macho_loader \<times> u64 \<times> ustring \<times> u64 \<times> bool) kact" where
  "load_programs be main_bin dyld_bin =
     bnd (macho_load (be_kernel be) (be_parser be) main_bin 0) (\<lambda>main.
     case main of
       None \<Rightarrow> panic
     | Some loader \<Rightarrow>
         (case ml_dylinker loader of
            None \<Rightarrow> ret (loader, ml_entry loader, INITIAL, 0, ml_is_64bit loader)
          | Some dyld_path \<Rightarrow>
              bnd (macho_load (be_kernel be) (be_parser be) dyld_bin 0x2fe00000) (\<lambda>dyld.
              case dyld of
                None \<Rightarrow> panic
              | Some d \<Rightarrow> ret (loader, ml_entry d, dyld_path, ml_header_addr d, ml_is_64bit d))))"

definition STACK_BYTES :: nat where "STACK_BYTES = 1024 * 1024"

text \<open>\<open>vec![0u8; size]\<close>, never freed.\<close>

definition vec_zeroed :: "('s, 'g) boot_env \<Rightarrow> nat \<Rightarrow> ('s, 'g, u64) kact" where
  "vec_zeroed be n =
     bnd (alloc_zeroed ((be_kernel be)\<lparr>ke_alloc := be_vec be\<rparr>) n) (\<lambda>p.
     case p of None \<Rightarrow> panic | Some base \<Rightarrow> ret base)"

definition user_stack :: "('s, 'g) boot_env \<Rightarrow> ustring \<Rightarrow> u64 \<Rightarrow> bool \<Rightarrow> ('s, 'g, u64) kact" where
  "user_stack be path mh is_64bit =
     bnd (vec_zeroed be STACK_BYTES) (\<lambda>base.
     if 2 ^ 64 \<le> unat base + STACK_BYTES then panic
     else
       bnd (map_memory (be_kernel be) UserRW base base (of_nat STACK_BYTES)) (\<lambda>_.
       on_mem (setup_stack (ke_layout (be_kernel be)) (base + of_nat STACK_BYTES) path mh is_64bit)))"

definition start_args :: "u64 \<Rightarrow> u64 \<Rightarrow> u64 \<Rightarrow> bool \<Rightarrow> ('s, 'e, u64 list) act" where
  "start_args mh dyld_mh sp is_64bit =
     (if 2 ^ 64 \<le> unat sp + (if is_64bit then 40 else 20) then panic
      else ret (if is_64bit then [mh, 0, sp + 8, sp + 16, sp + 32, sp + 40]
                else [dyld_mh, 0, sp + 4, sp + 8, sp + 16, sp + 20]))"

definition thread_page :: "('s, 'g) boot_env \<Rightarrow> ('s, 'g, u64) kact" where
  "thread_page be =
     bnd (alloc_zeroed (be_kernel be) 4096) (\<lambda>p.
     case p of
       None \<Rightarrow> panic
     | Some tls \<Rightarrow>
         bnd (map_memory (be_kernel be) UserRW tls tls 4096) (\<lambda>_.
         bnd (on_mem (store32 (ke_layout (be_kernel be)) tls (ucast tls))) (\<lambda>_. ret tls)))"

text \<open>The process becomes the current one and its registers those of the processor.\<close>

definition enter_process :: "('s, 'g) boot_env \<Rightarrow> u64 \<Rightarrow> u64 \<Rightarrow> u64 list \<Rightarrow> u64 \<Rightarrow> bool \<Rightarrow> ('s, 'g, unit) kact" where
  "enter_process be entry sp args tls is_64bit = (\<lambda>k.
     let env = be_kernel be; pid = kn_pids k;
         p = process_new pid (ke_starter env) (ke_stack env pid) entry sp args tls is_64bit;
         (_, sc) = schedule_next (add_process p (kn_sched k))
     in case sc_current sc of
          None \<Rightarrow> (Panic, k)
        | Some cur \<Rightarrow> (Ok (), k\<lparr>kn_pids := pid + 1, kn_sched := sc, kn_cpu := pr_context cur\<rparr>))"

text \<open>
  \<open>kernel_thread_starter\<close> of \<open>switch.s\<close>, the return address of a new context: the registers with which the user program starts.
  \<open>TPIDR_EL0\<close> is the tenth register of the context. The registers from \<open>x19\<close> on keep what the switch loaded.
\<close>

definition thread_starter :: "u64 list \<Rightarrow> trap_frame" where
  "thread_starter cpu = \<lparr>tf_x = (\<lambda>i.
       if i < 6 then cpu ! (i + 2) else if i = 13 then cpu ! 1 else if i < 19 then 0
       else if i < 30 then cpu ! (i - 19) else cpu ! 12),
     tf_elr = cpu ! 0, tf_spsr = cpu ! 8, tf_sp_el0 = cpu ! 1\<rparr>"

definition start_program :: "('s, 'g) boot_env \<Rightarrow> bytes \<Rightarrow> bytes \<Rightarrow> ('s, 'g, unit) kact" where
  "start_program be main_bin dyld_bin =
     bnd (load_programs be main_bin dyld_bin) (\<lambda>(loader, entry, path, dyld_mh, is_64bit).
     bnd (user_stack be path (ml_header_addr loader) is_64bit) (\<lambda>sp.
     bnd (start_args (ml_header_addr loader) dyld_mh sp is_64bit) (\<lambda>args.
     bnd (thread_page be) (\<lambda>tls.
     enter_process be entry sp args tls is_64bit))))"

text \<open>\<open>kmain\<close> behind the mounting of the volume.\<close>

definition kmain :: "('s, 'g) boot_env \<Rightarrow> ('s, 'g, unit) kact" where
  "kmain be =
     bnd (on_mem (fill_commpage (ke_layout (be_kernel be)) (be_commpage be))) (\<lambda>_.
     bnd (read_program be LAUNCHD) (\<lambda>main_bin.
     bnd (read_program be DYLD) (\<lambda>dyld_bin.
     start_program be main_bin dyld_bin)))"

end
