(* ===== verification/BootSpec.thy ===== *)
theory BootSpec
  imports Boot KMachoSpec KernelProps
begin

text \<open>What the start of the kernel leaves behind: a process that runs the program, with its stack and its thread page.\<close>

unbundle bit_operations_syntax

section \<open>Blocks that the user gets at their own address\<close>

lemma identity_mapped:
  assumes "layout_ok ly" and "tables_ok ly m" and "map_range ly p p sz perm m = Some m'"
    and "unat p + unat sz + 0xFFF \<le> 2 ^ 32" and "i < unat sz"
  shows "phys_addr ly m' (p + of_nat i) = Some (p + of_nat i, page_flags perm)"
proof -
  let ?s = "unat p div 0x1000" and ?v = "unat p + i"
  have u: "unat (p + of_nat i) = ?v" using assms(4,5) by (intro unat_offset) simp
  have le: "?s \<le> ?v div 0x1000" by (intro div_le_mono) simp
  have "(?v + 0x1000) div 0x1000 \<le> (unat p + unat sz + 0xFFF) div 0x1000" using assms(5) by (intro div_le_mono) simp
  then have hi: "?v div 0x1000 < (unat p + unat sz + 0xFFF) div 0x1000" by simp
  have b: "?v div 0x1000 < 2 ^ 27" using assms(4,5) by (simp add: less_mult_imp_div_less)
  have v: "unat p + unat sz + 0xFFF \<le> 2 ^ 39" "unat p + unat sz + 0x1FFF < 2 ^ 48" using assms(4) by simp_all
  have t: "translate ly m' (?v div 0x1000) = Some ((p AND NOT 0xFFF) + of_nat (?v div 0x1000 - ?s) * 0x1000, page_flags perm)"
    using map_range_ok [OF assms(1,2) v assms(3)] b le hi by simp
  have base: "p AND NOT 0xFFF = of_nat (?s * 0x1000)"
    by (metis unat_page of_nat_unat ucast_id)
  have "(p AND NOT 0xFFF) + of_nat (?v div 0x1000 - ?s) * 0x1000 = of_nat (?s * 0x1000 + (?v div 0x1000 - ?s) * 0x1000)"
    unfolding base by (simp only: of_nat_add of_nat_mult of_nat_numeral)
  also have "?s * 0x1000 + (?v div 0x1000 - ?s) * 0x1000 = ?v div 0x1000 * 0x1000" using le by (simp flip: add_mult_distrib)
  finally have "(p AND NOT 0xFFF) + of_nat (?v div 0x1000 - ?s) * 0x1000 + of_nat (?v mod 0x1000) = of_nat (?v div 0x1000 * 0x1000 + ?v mod 0x1000)"
    by (simp only: of_nat_add)
  also have "\<dots> = p + of_nat i" using u by (metis div_mult_mod_eq of_nat_unat ucast_id)
  finally show ?thesis
    unfolding phys_addr_def u t using assms(4,5) by simp
qed

text \<open>Pages outside of the range keep their translation.\<close>

lemma mapped_elsewhere:
  assumes "layout_ok ly" and "tables_ok ly m" and "map_range ly p p sz perm m = Some m'"
    and "unat p + unat sz + 0xFFF \<le> 2 ^ 32"
    and "unat va div 0x1000 < unat p div 0x1000 \<or> (unat p + unat sz + 0xFFF) div 0x1000 \<le> unat va div 0x1000"
  shows "phys_addr ly m' va = phys_addr ly m va"
proof (cases "2 ^ 32 \<le> unat va")
  case False
  have v: "unat p + unat sz + 0xFFF \<le> 2 ^ 39" "unat p + unat sz + 0x1FFF < 2 ^ 48" using assms(4) by simp_all
  have "unat va div 0x1000 < 2 ^ 27" using False by (simp add: less_mult_imp_div_less)
  then have "translate ly m' (unat va div 0x1000) = translate ly m (unat va div 0x1000)"
    using map_range_ok [OF assms(1,2) v assms(3)] assms(5) by auto
  then show ?thesis by (simp add: phys_addr_def)
qed (simp add: phys_addr_def)

text \<open>A block that the user may read and write at its own address; blocks that share no page.\<close>

definition user_block :: "table_layout \<Rightarrow> mmu \<Rightarrow> u64 \<Rightarrow> nat \<Rightarrow> bool" where
  "user_block ly m p n \<longleftrightarrow> (\<forall>i < n. phys_addr ly m (p + of_nat i) = Some (p + of_nat i, page_flags UserRW))"

definition apart :: "u64 \<Rightarrow> nat \<Rightarrow> u64 \<Rightarrow> nat \<Rightarrow> bool" where
  "apart p n q j \<longleftrightarrow> (unat p + n + 0xFFF) div 0x1000 \<le> unat q div 0x1000 \<or> (unat q + j + 0xFFF) div 0x1000 \<le> unat p div 0x1000"

lemma user_block_place: "user_block ly m p n \<Longrightarrow> i < n \<Longrightarrow> place ly m p i = p + of_nat i"
  by (simp add: user_block_def place_def)

lemma user_block_heap: "user_block ly m p n \<Longrightarrow> n < 2 ^ 64 \<Longrightarrow> heap_block ly m p n"
  unfolding user_block_def heap_block_def using mapped_buffer [OF _ user_pages_writable] by blast

text \<open>A block that shares no page with a mapped range keeps its translation.\<close>

lemma apart_elsewhere:
  assumes "layout_ok ly" and "tables_ok ly m" and "map_range ly p p sz perm m = Some m'"
    and "unat p + unat sz + 0xFFF \<le> 2 ^ 32" and "apart p (unat sz) q n" and "unat q + n \<le> 2 ^ 32" and "i < n"
  shows "phys_addr ly m' (q + of_nat i) = phys_addr ly m (q + of_nat i)"
proof (rule mapped_elsewhere [OF assms(1-4)])
  have u: "unat (q + of_nat i) = unat q + i" using assms(6,7) by (intro unat_offset) simp
  have "unat q div 0x1000 \<le> (unat q + i) div 0x1000" by (intro div_le_mono) simp
  moreover have "(unat q + i + 0x1000) div 0x1000 \<le> (unat q + n + 0xFFF) div 0x1000" using assms(7) by (intro div_le_mono) simp
  then have "(unat q + i) div 0x1000 < (unat q + n + 0xFFF) div 0x1000" by simp
  ultimately show "unat (q + of_nat i) div 0x1000 < unat p div 0x1000 \<or>
      (unat p + unat sz + 0xFFF) div 0x1000 \<le> unat (q + of_nat i) div 0x1000"
    using assms(5) unfolding u apart_def by auto
qed

lemma heap_block_cong:
  "(\<And>i. i < n \<Longrightarrow> phys_addr ly m' (p + of_nat i) = phys_addr ly m (p + of_nat i)) \<Longrightarrow> heap_block ly m' p n = heap_block ly m p n"
  by (auto simp: heap_block_def buffer_def place_def inj_on_def)

text \<open>What a mapping of at most a megabyte at its own address needs, and what it does.\<close>

definition tables_ready :: "table_layout \<Rightarrow> nat \<Rightarrow> mmu \<Rightarrow> bool" where
  "tables_ready ly n m \<longleftrightarrow> layout_ok ly \<and> tables_ok ly m \<and> (\<forall>i < 4. l1_valid ly m i) \<and> mm_l3_alloc_idx m + n \<le> 255"

lemma map_block_ok:
  assumes "tables_ready (ke_layout env) (n + 2) (vm_mmu (kn_vm k))" and "0 < unat sz" and "unat sz \<le> 2 ^ 20"
    and "unat p + unat sz + 0xFFF \<le> 2 ^ 32"
  shows "\<exists>m'. map_memory env UserRW p p sz k = (Ok (), k\<lparr>kn_vm := (kn_vm k)\<lparr>vm_mmu := m'\<rparr>\<rparr>) \<and>
    map_range (ke_layout env) p p sz UserRW (vm_mmu (kn_vm k)) = Some m' \<and> tables_ready (ke_layout env) n m' \<and>
    user_block (ke_layout env) m' p (unat sz)"
proof -
  let ?ly = "ke_layout env" and ?m = "vm_mmu (kn_vm k)"
  define s e where "s = unat p div 0x1000" and "e = (unat p + unat sz - 1) div 0x1000"
  have r: "layout_ok ?ly" "tables_ok ?ly ?m" "\<And>i. i < 4 \<Longrightarrow> l1_valid ?ly ?m i" "mm_l3_alloc_idx ?m + (n + 2) \<le> 255"
    using assms(1) by (simp_all add: tables_ready_def)
  have v: "unat p + unat sz + 0xFFF \<le> 2 ^ 39" "unat p + unat sz + 0x1FFF < 2 ^ 48" using assms(4) by simp_all
  have "e < 2 ^ 20" unfolding e_def using assms(4) by (simp add: less_mult_imp_div_less)
  then have "e div 2 ^ 18 < 4" by (simp add: less_mult_imp_div_less)
  then have l1: "l1_valid ?ly ?m i" if "s div 2 ^ 18 \<le> i" "i \<le> e div 2 ^ 18" for i using that r(3) by simp
  have "e \<le> (unat p + 0x100 * 0x1000) div 0x1000" unfolding e_def using assms(3) by (intro div_le_mono) simp
  then have "e \<le> s + 512" by (simp add: s_def)
  then have "e div 512 \<le> (s + 512) div 512" by (rule div_le_mono)
  then have room: "1 + (e div 512 - s div 512) \<le> 2" by simp
  with r(4) have "mm_l3_alloc_idx ?m + 1 + (e div 512 - s div 512) \<le> 255" by simp
  from map_range_runs [OF r(1,2) assms(2) v s_def e_def l1 this, of UserRW]
  obtain m' where m': "map_range ?ly p p sz UserRW ?m = Some m'" "mm_tables m' (ly_l1 ?ly) = mm_tables ?m (ly_l1 ?ly)"
    "mm_l3_alloc_idx m' \<le> mm_l3_alloc_idx ?m + 1 + (e div 512 - s div 512)" by blast
  have "tables_ok ?ly m'" using map_range_ok [OF r(1,2) v m'(1)] by simp
  moreover have "l1_valid ?ly m' i" if "i < 4" for i using r(3) [OF that] m'(2) by (simp add: l1_valid_def)
  moreover have "mm_l3_alloc_idx m' + n \<le> 255" using m'(3) room r(4) by linarith
  ultimately have t: "tables_ready ?ly n m'" using r(1) by (simp add: tables_ready_def)
  have u: "user_block ?ly m' p (unat sz)"
    unfolding user_block_def using identity_mapped [OF r(1,2) m'(1) assms(4)] by blast
  have "map_memory env UserRW p p sz k = (Ok (), k\<lparr>kn_vm := (kn_vm k)\<lparr>vm_mmu := m'\<rparr>\<rparr>)"
    using m'(1) by (simp add: map_memory_def)
  with m'(1) t u show ?thesis by blast
qed

section \<open>The stack and the page of the thread\<close>

lemma vec_zeroed_ok:
  assumes "be_vec be (kn_heap k) n = Some p" and "n < 2 ^ 62" and "heap_block (ke_layout (be_kernel be)) (vm_mmu (kn_vm k)) p n"
  shows "\<exists>s. vec_zeroed be n k = (Ok p, k\<lparr>kn_heap := (p, n) # kn_heap k, kn_vm := s\<rparr>) \<and> vm_mmu s = vm_mmu (kn_vm k)"
proof -
  have "ke_alloc ((be_kernel be)\<lparr>ke_alloc := be_vec be\<rparr>) (kn_heap k) n = Some p"
    "heap_block (ke_layout ((be_kernel be)\<lparr>ke_alloc := be_vec be\<rparr>)) (vm_mmu (kn_vm k)) p n" using assms by simp_all
  from alloc_zeroed_ok [OF this(1) assms(2) this(2)] show ?thesis
    by (auto simp: vec_zeroed_def act_simps)
qed

lemma user_stack_ok:
  fixes path :: ustring and mh :: u64
  defines "strs \<equiv> stack_strings path" and "room \<equiv> STACK_BYTES - strings_size (stack_strings path)"
  assumes "tables_ready (ke_layout (be_kernel be)) (n + 2) (vm_mmu (kn_vm k))"
    and "be_vec be (kn_heap k) STACK_BYTES = Some base"
    and "heap_block (ke_layout (be_kernel be)) (vm_mmu (kn_vm k)) base STACK_BYTES"
    and "unat base + STACK_BYTES + 0xFFF \<le> 2 ^ 32" and "strings_size strs + 96 \<le> STACK_BYTES"
  shows "\<exists>t s. user_stack be path mh b k = (Ok (base + of_nat t), k\<lparr>kn_heap := (base, STACK_BYTES) # kn_heap k, kn_vm := s\<rparr>) \<and>
    map_range (ke_layout (be_kernel be)) base base (of_nat STACK_BYTES) UserRW (vm_mmu (kn_vm k)) = Some (vm_mmu s) \<and>
    tables_ready (ke_layout (be_kernel be)) n (vm_mmu s) \<and> user_block (ke_layout (be_kernel be)) (vm_mmu s) base STACK_BYTES \<and>
    t + frame_length b \<le> room \<and> drop room (content (ke_layout (be_kernel be)) s base STACK_BYTES) = strings_image strs \<and>
    content (ke_layout (be_kernel be)) s (base + of_nat t) (frame_length b) = frame_bytes mh (string_addrs base STACK_BYTES strs) b"
proof -
  let ?env = "be_kernel be" and ?ly = "ke_layout (be_kernel be)" and ?sz = "of_nat STACK_BYTES :: u64"
  have sz: "unat ?sz = STACK_BYTES" "STACK_BYTES < 2 ^ 62" "STACK_BYTES \<le> 2 ^ 20" "0 < STACK_BYTES" by (simp_all add: STACK_BYTES_def)
  obtain s1 where s1: "vec_zeroed be STACK_BYTES k = (Ok base, k\<lparr>kn_heap := (base, STACK_BYTES) # kn_heap k, kn_vm := s1\<rparr>)"
    "vm_mmu s1 = vm_mmu (kn_vm k)" using vec_zeroed_ok [where be = be, OF assms(4) sz(2) assms(5)] by blast
  let ?k = "k\<lparr>kn_heap := (base, STACK_BYTES) # kn_heap k, kn_vm := s1\<rparr>"
  have "tables_ready ?ly (n + 2) (vm_mmu (kn_vm ?k))" using assms(3) s1(2) by simp
  from map_block_ok [OF this, of ?sz base] sz assms(6) obtain m' where
    m: "map_memory ?env UserRW base base ?sz ?k = (Ok (), ?k\<lparr>kn_vm := s1\<lparr>vm_mmu := m'\<rparr>\<rparr>)"
    "map_range ?ly base base ?sz UserRW (vm_mmu (kn_vm k)) = Some m'" "tables_ready ?ly n m'" "user_block ?ly m' base STACK_BYTES"
    using s1(2) by auto
  let ?v = "s1\<lparr>vm_mmu := m'\<rparr>"
  have b: "buffer ?ly (vm_mmu ?v) base STACK_BYTES" using user_block_heap [OF m(4)] sz(2) by (simp add: heap_block_def)
  have top: "unat base + STACK_BYTES < 2 ^ 64" using assms(6) by simp
  from setup_stack_ok [OF b top assms(7) [unfolded strs_def], of mh b] obtain t s' where
    r: "setup_stack ?ly (base + ?sz) path mh b ?v = (Ok (base + of_nat t), s')" "vm_mmu s' = m'" "t + frame_length b \<le> room"
    and c: "content ?ly s' base STACK_BYTES = take t (content ?ly ?v base STACK_BYTES) @ frame_bytes mh (string_addrs base STACK_BYTES strs) b @
      drop (t + frame_length b) (take room (content ?ly ?v base STACK_BYTES)) @ strings_image strs"
    unfolding strs_def room_def by auto
  have n: "room + strings_size strs = STACK_BYTES" using assms(7) by (simp add: room_def strs_def)
  have "drop room (content ?ly s' base STACK_BYTES) = strings_image strs" using r(3) n by (simp add: c length_frame_bytes)
  moreover have "content ?ly s' (base + of_nat t) (frame_length b) = frame_bytes mh (string_addrs base STACK_BYTES strs) b"
    using content_part [of t "frame_length b" STACK_BYTES ?ly s' base] r(3) n by (simp add: c length_frame_bytes)
  moreover have "user_stack be path mh b k = (Ok (base + of_nat t), ?k\<lparr>kn_vm := s'\<rparr>)"
    using s1(1) m(1) r(1) top
    by (simp add: user_stack_def bnd_Ok [where m = "vec_zeroed be STACK_BYTES"] bnd_Ok [where m = "map_memory ?env UserRW base base ?sz"]
        on_mem_def)
  ultimately show ?thesis using m r by (intro exI [of _ t] exI [of _ s']) simp
qed

lemma length_stack_strings: "length (stack_strings path) = 3"
  by (simp add: stack_strings_def)

lemma apart_bytes:
  assumes "apart p n q j" and "unat p + n \<le> 2 ^ 32" and "unat q + j \<le> 2 ^ 32" and "i < n" and "l < j"
  shows "q + of_nat l \<noteq> p + of_nat i"
proof
  assume e: "q + of_nat l = p + of_nat i"
  have "unat (q + of_nat l) = unat q + l" "unat (p + of_nat i) = unat p + i" using assms(2-5) by (auto intro!: unat_offset)
  with e have "unat q + l = unat p + i" by simp
  with assms(1,4,5) show False unfolding apart_def
    using div_mult_mod_eq [of "unat p" "0x1000"] div_mult_mod_eq [of "unat q" "0x1000"]
      div_mult_mod_eq [of "unat p + n + 0xFFF" "0x1000"] div_mult_mod_eq [of "unat q + j + 0xFFF" "0x1000"]
      mod_less_divisor [of "0x1000" "unat p + n + 0xFFF"] mod_less_divisor [of "0x1000" "unat q + j + 0xFFF"] by linarith
qed

lemma block_content:
  assumes "user_block ly (vm_mmu s) p n" and "user_block ly (vm_mmu s') p n" and "\<And>i. i < n \<Longrightarrow> vm_phys s' (p + of_nat i) = vm_phys s (p + of_nat i)"
  shows "content ly s' p n = content ly s p n"
  using assms by (auto simp: content_def user_block_place)

text \<open>The page of the thread, at whose start is its own address.\<close>

lemma thread_page_ok:
  assumes "tables_ready (ke_layout (be_kernel be)) (n + 2) (vm_mmu (kn_vm k))"
    and "ke_alloc (be_kernel be) (kn_heap k) 4096 = Some tls"
    and "heap_block (ke_layout (be_kernel be)) (vm_mmu (kn_vm k)) tls 4096" and "unat tls + 4096 + 0xFFF \<le> 2 ^ 32"
    and "user_block (ke_layout (be_kernel be)) (vm_mmu (kn_vm k)) base j" and "apart tls 4096 base j" and "unat base + j \<le> 2 ^ 32"
  shows "\<exists>s. thread_page be k = (Ok tls, k\<lparr>kn_heap := (tls, 4096) # kn_heap k, kn_vm := s\<rparr>) \<and>
    user_block (ke_layout (be_kernel be)) (vm_mmu s) base j \<and> user_block (ke_layout (be_kernel be)) (vm_mmu s) tls 4096 \<and>
    content (ke_layout (be_kernel be)) s tls 4 = to_le (ucast tls :: u32) \<and> tables_ready (ke_layout (be_kernel be)) n (vm_mmu s) \<and>
    content (ke_layout (be_kernel be)) s base j = content (ke_layout (be_kernel be)) (kn_vm k) base j"
proof -
  let ?env = "be_kernel be" and ?ly = "ke_layout (be_kernel be)"
  have n: "(4096 :: nat) < 2 ^ 62" "unat (4096 :: u64) = 4096" by simp_all
  from alloc_zeroed_ok [OF assms(2) n(1) assms(3)] obtain s1 where
    s1: "alloc_zeroed ?env 4096 k = (Ok (Some tls), k\<lparr>kn_heap := (tls, 4096) # kn_heap k, kn_vm := s1\<rparr>)"
      "vm_mmu s1 = vm_mmu (kn_vm k)" "only_changed ?ly tls 4096 (kn_vm k) s1" by blast
  let ?k = "k\<lparr>kn_heap := (tls, 4096) # kn_heap k, kn_vm := s1\<rparr>"
  have "tables_ready ?ly (n + 2) (vm_mmu (kn_vm ?k))" using assms(1) s1(2) by simp
  from map_block_ok [OF this, of 4096 tls] assms(4) obtain m' where
    m: "map_memory ?env UserRW tls tls 4096 ?k = (Ok (), ?k\<lparr>kn_vm := s1\<lparr>vm_mmu := m'\<rparr>\<rparr>)"
    "map_range ?ly tls tls 4096 UserRW (vm_mmu (kn_vm k)) = Some m'" "tables_ready ?ly n m'" "user_block ?ly m' tls 4096"
    using s1(2) by auto
  let ?v = "s1\<lparr>vm_mmu := m'\<rparr>" and ?w = "ucast tls :: u32"
  have b: "buffer ?ly (vm_mmu ?v) tls 4096" using user_block_heap [OF m(4)] by (simp add: heap_block_def)
  from buffer_prefix [OF this, of 4] have "buffer ?ly (vm_mmu ?v) tls (length (to_le ?w))" by (simp add: length_to_le)
  from store_bytes_ok [OF this] obtain s2 where s2: "store_bytes ?ly tls (to_le ?w) ?v = (Ok (), s2)"
    "content ?ly s2 tls 4 = to_le ?w" "vm_mmu s2 = m'" "only_changed ?ly tls 4 ?v s2" by (auto simp: length_to_le only_changed_def)
  have r: "layout_ok ?ly" "tables_ok ?ly (vm_mmu (kn_vm k))" using assms(1) by (simp_all add: tables_ready_def)
  have ub: "user_block ?ly m' base j"
    unfolding user_block_def
    using apart_elsewhere [OF r m(2), of base j] assms(4-7) by (simp add: user_block_def)
  have "vm_phys s2 (base + of_nat i) = vm_phys (kn_vm k) (base + of_nat i)" if "i < j" for i
  proof -
    have "base + of_nat i \<noteq> tls + of_nat l" if "l < 4096" for l
      using apart_bytes [OF assms(6) _ assms(7) that \<open>i < j\<close>] assms(4) by simp
    moreover have "place ?ly (vm_mmu (kn_vm k)) tls l = tls + of_nat l" "place ?ly m' tls l = tls + of_nat l" if "l < 4096" for l
      using assms(3) user_block_place [OF m(4)] that by (simp_all add: heap_block_def)
    ultimately show ?thesis using s1(3) s2(4) by (auto simp: only_changed_def image_iff)
  qed
  then have "content ?ly s2 base j = content ?ly (kn_vm k) base j"
    using block_content [of ?ly "kn_vm k" base j s2] assms(5) ub s2(3) by simp
  moreover have "thread_page be k = (Ok tls, ?k\<lparr>kn_vm := s2\<rparr>)"
    using s1(1) m(1) s2(1)
    by (simp add: thread_page_def bnd_Ok [where m = "alloc_zeroed ?env 4096"] bnd_Ok [where m = "map_memory ?env UserRW tls tls 4096"]
        bnd_def on_mem_def store32_def ret_run)
  ultimately show ?thesis using m(3,4) s2(2,3) ub by (intro exI [of _ s2]) simp
qed

section \<open>The first process\<close>

lemma entry_registers:
  "length args = 6 \<Longrightarrow> pr_context (process_new pid starter stack entry sp args tls b) =
     fst (entry_state entry b) # sp # args @
     [snd (entry_state entry b), tls, 0, (stack + of_nat KSTACK_SIZE) AND NOT 15, starter]"
  by (auto simp: process_new_def set_args_def numeral_eq_Suc Let_def length_Suc_conv split: prod.split)

lemma enter_process_ok:
  assumes "kn_sched k = scheduler_new" and "kn_pids k = 1" and "kn_exceptions k = 0"
  shows "\<exists>p k'. enter_process be entry sp args tls b k = (Ok (), k') \<and> kernel_ok k' \<and> kn_vm k' = kn_vm k \<and>
    kn_sched k' = \<lparr>sc_processes = [], sc_current = Some p\<rparr> \<and> kn_cpu k' = pr_context p \<and>
    p = process_new 1 (ke_starter (be_kernel be)) (ke_stack (be_kernel be) 1) entry sp args tls b"
proof -
  define p where "p = process_new 1 (ke_starter (be_kernel be)) (ke_stack (be_kernel be) 1) entry sp args tls b"
  let ?k = "k\<lparr>kn_pids := 2, kn_sched := \<lparr>sc_processes = [], sc_current = Some p\<rparr>, kn_cpu := pr_context p\<rparr>"
  have "enter_process be entry sp args tls b k = (Ok (), ?k)"
    using assms(1,2) by (simp add: enter_process_def schedule_next_def add_process_def scheduler_new_def p_def Let_def)
  moreover have "proc_ok p" by (simp add: p_def process_new_ok)
  moreover have "pr_pid p = 1" by (simp add: p_def process_new_def Let_def split: prod.split)
  ultimately show ?thesis
    using assms(3) by (intro exI [of _ p] exI [of _ ?k]) (simp add: kernel_ok_def sched_ok_def procs_def proc_ok_def p_def [symmetric])
qed

text \<open>What the first process finds: memory and registers for its entry into user mode.\<close>

definition boots_into :: "('s, 'g) boot_env \<Rightarrow> macho_loader \<Rightarrow> u64 list \<Rightarrow> u64 \<Rightarrow> u64 \<Rightarrow> ('s, 'g) kernel \<Rightarrow> bool" where
  "boots_into be d args sp tls k \<longleftrightarrow>
     kn_cpu k ! 12 = ke_starter (be_kernel be) \<and> kn_cpu k ! 9 = tls \<and>
     (case thread_starter (kn_cpu k) of f \<Rightarrow>
        (tf_elr f, tf_spsr f) = entry_state (ml_entry d) (ml_is_64bit d) \<and> tf_sp_el0 f = sp \<and> tf_x f 13 = sp \<and>
        map (tf_x f) [0..<6] = args)"

lemma boots_into_new:
  assumes "length args = 6" and "kn_cpu k = pr_context (process_new 1 (ke_starter (be_kernel be)) stack (ml_entry d) sp args tls (ml_is_64bit d))"
  shows "boots_into be d args sp tls k"
proof -
  obtain a0 a1 a2 a3 a4 a5 where a: "args = [a0, a1, a2, a3, a4, a5]"
    using assms(1) by (auto simp: numeral_eq_Suc length_Suc_conv)
  have "[0..<6] = [0, 1, 2, 3, 4, 5 :: nat]" by (simp add: upt_conv_Cons)
  then show ?thesis
    unfolding boots_into_def assms(2) entry_registers [OF assms(1)] unfolding a
    by (simp add: thread_starter_def)
qed

text \<open>The blocks that the allocator has for the stack and for the thread: mapped, of the kernel, in different pages.\<close>

definition boot_blocks :: "('s, 'g) boot_env \<Rightarrow> ('s, 'g) kernel \<Rightarrow> u64 \<Rightarrow> u64 \<Rightarrow> bool" where
  "boot_blocks be k base tls \<longleftrightarrow>
     be_vec be (kn_heap k) STACK_BYTES = Some base \<and> ke_alloc (be_kernel be) ((base, STACK_BYTES) # kn_heap k) 4096 = Some tls \<and>
     heap_block (ke_layout (be_kernel be)) (vm_mmu (kn_vm k)) base STACK_BYTES \<and>
     heap_block (ke_layout (be_kernel be)) (vm_mmu (kn_vm k)) tls 4096 \<and>
     unat base + STACK_BYTES + 0xFFF \<le> 2 ^ 32 \<and> unat tls + 4096 + 0xFFF \<le> 2 ^ 32 \<and> apart base STACK_BYTES tls 4096"

text \<open>The memory of a started program: the frame at the stack pointer, the strings, the word of the thread.\<close>

definition stack_ready :: "table_layout \<Rightarrow> vm \<Rightarrow> u64 \<Rightarrow> u64 \<Rightarrow> ustring \<Rightarrow> u64 \<Rightarrow> bool \<Rightarrow> bool" where
  "stack_ready ly s base sp path mh b \<longleftrightarrow>
     user_block ly (vm_mmu s) base STACK_BYTES \<and>
     (case string_addrs base STACK_BYTES (stack_strings path) of ps \<Rightarrow>
        content ly s sp (frame_length b) = frame_bytes mh ps b \<and>
        (\<forall>i < 3. content ly s (ps ! i) (length (stack_strings path ! i) + 1) = stack_strings path ! i @ [0]))"

definition thread_ready :: "table_layout \<Rightarrow> vm \<Rightarrow> u64 \<Rightarrow> bool" where
  "thread_ready ly s tls \<longleftrightarrow> user_block ly (vm_mmu s) tls 4096 \<and> content ly s tls 4 = to_le (ucast tls :: u32)"

lemma stack_and_thread_ok:
  fixes be :: "('s, 'g) boot_env"
  defines "ly \<equiv> ke_layout (be_kernel be)"
  assumes "tables_ready ly 4 (vm_mmu (kn_vm k))" and "boot_blocks be k base tls"
    and "strings_size (stack_strings path) + 96 \<le> STACK_BYTES"
  shows "\<exists>t k1 s. user_stack be path mh b k = (Ok (base + of_nat t), k1) \<and> t \<le> STACK_BYTES \<and>
    thread_page be k1 = (Ok tls, k1\<lparr>kn_heap := (tls, 4096) # kn_heap k1, kn_vm := s\<rparr>) \<and>
    kn_sched k1 = kn_sched k \<and> kn_pids k1 = kn_pids k \<and> kn_exceptions k1 = kn_exceptions k \<and>
    stack_ready ly s base (base + of_nat t) path mh b \<and> thread_ready ly s tls"
proof -
  let ?strs = "stack_strings path" and ?n = STACK_BYTES
  define room where "room = ?n - strings_size ?strs"
  note B = assms(3) [unfolded boot_blocks_def]
  have t: "tables_ready (ke_layout (be_kernel be)) (2 + 2) (vm_mmu (kn_vm k))" using assms(2) by (simp add: ly_def)
  from user_stack_ok [OF t, of base path mh b] B assms(4) obtain t s1 where
    u: "user_stack be path mh b k = (Ok (base + of_nat t), k\<lparr>kn_heap := (base, ?n) # kn_heap k, kn_vm := s1\<rparr>)"
      "map_range ly base base (of_nat ?n) UserRW (vm_mmu (kn_vm k)) = Some (vm_mmu s1)" "tables_ready ly 2 (vm_mmu s1)"
      "user_block ly (vm_mmu s1) base ?n" "t + frame_length b \<le> room" "drop room (content ly s1 base ?n) = strings_image ?strs"
      "content ly s1 (base + of_nat t) (frame_length b) = frame_bytes mh (string_addrs base ?n ?strs) b"
    unfolding ly_def room_def by blast
  let ?k = "k\<lparr>kn_heap := (base, ?n) # kn_heap k, kn_vm := s1\<rparr>"
  have r: "layout_ok ly" "tables_ok ly (vm_mmu (kn_vm k))" using assms(2) by (simp_all add: tables_ready_def)
  have sz: "unat (of_nat ?n :: u64) = ?n" by (simp add: STACK_BYTES_def)
  have "heap_block ly (vm_mmu s1) tls 4096"
    using heap_block_cong [OF apart_elsewhere [OF r u(2), of tls 4096]] B by (simp add: sz ly_def)
  moreover have "apart tls 4096 base ?n" using B by (auto simp: apart_def)
  ultimately obtain s2 where p: "thread_page be ?k = (Ok tls, ?k\<lparr>kn_heap := (tls, 4096) # kn_heap ?k, kn_vm := s2\<rparr>)"
    "user_block ly (vm_mmu s2) base ?n" "user_block ly (vm_mmu s2) tls 4096" "content ly s2 tls 4 = to_le (ucast tls :: u32)"
    "content ly s2 base ?n = content ly s1 base ?n"
    using thread_page_ok [of be 0 ?k tls base ?n, unfolded add_0] B u(3,4) unfolding ly_def by auto
  have "t + frame_length b \<le> ?n" using u(5) by (simp add: room_def)
  then have "content ly s2 (base + of_nat t) (frame_length b) = content ly s1 (base + of_nat t) (frame_length b)"
    using content_part [of t "frame_length b" ?n ly _ base] p(5) by simp
  moreover have "drop room (content ly s2 base ?n) = strings_image ?strs" using u(6) p(5) by simp
  note strings_content [OF this room_def]
  ultimately have "stack_ready ly s2 base (base + of_nat t) path mh b"
    using p(2) u(7) assms(4) by (simp add: stack_ready_def length_stack_strings)
  moreover have "thread_ready ly s2 tls" using p(3,4) by (simp add: thread_ready_def)
  ultimately show ?thesis using u(1) p(1) \<open>t + frame_length b \<le> ?n\<close>
    by (intro exI [of _ t] exI [of _ ?k] exI [of _ s2]) simp
qed

end
