(* ===== verification/BootProps.thy ===== *)
theory BootProps
  imports BootSpec KMachoProps
begin

text \<open>The property of the start of the kernel.\<close>

unbundle bit_operations_syntax

text \<open>C33: with a program that names its linker, and room in the tables and in the heap, the start ends in the switch to process 1,
  which enters the linker in user mode with the arguments of its bootstrap. Its stack is a mapped megabyte with the frame and
  the strings of \<open>setup_stack\<close>, the page of its thread holds its own address, the two do not disturb each other, and the state
  of the kernel is one from which every run of programs and traps is well formed.\<close>

theorem first_program_starts:
  fixes be :: "('s, 'g) boot_env"
  assumes "macho_load (be_kernel be) (be_parser be) main_bin 0 k0 = (Ok (Some l), k1)" and "ml_dylinker l = Some path"
    and "macho_load (be_kernel be) (be_parser be) dyld_bin 0x2fe00000 k1 = (Ok (Some d), k)"
    and "kn_sched k = scheduler_new" and "kn_pids k = 1" and "kn_exceptions k = 0"
    and "tables_ready (ke_layout (be_kernel be)) 4 (vm_mmu (kn_vm k))" and "boot_blocks be k base tls"
    and "strings_size (stack_strings path) + 96 \<le> STACK_BYTES"
  shows "\<exists>sp k'. start_program be main_bin dyld_bin k0 = (Ok (), k') \<and>
    boots_into be d
      (if ml_is_64bit d then [ml_header_addr l, 0, sp + 8, sp + 16, sp + 32, sp + 40]
       else [ml_header_addr d, 0, sp + 4, sp + 8, sp + 16, sp + 20]) sp tls k' \<and>
    stack_ready (ke_layout (be_kernel be)) (kn_vm k') base sp path (ml_header_addr l) (ml_is_64bit d) \<and>
    thread_ready (ke_layout (be_kernel be)) (kn_vm k') tls \<and> (\<forall>n k''. runs n k' k'' \<longrightarrow> kernel_ok k'')"
proof -
  let ?b = "ml_is_64bit d" and ?mh = "ml_header_addr l"
  have ld: "load_programs be main_bin dyld_bin k0 = (Ok (l, ml_entry d, path, ml_header_addr d, ?b), k)"
    using assms(1-3) by (simp add: load_programs_def act_simps)
  obtain t ka s where m: "user_stack be path ?mh ?b k = (Ok (base + of_nat t), ka)" "t \<le> STACK_BYTES"
    "thread_page be ka = (Ok tls, ka\<lparr>kn_heap := (tls, 4096) # kn_heap ka, kn_vm := s\<rparr>)"
    "kn_sched ka = kn_sched k" "kn_pids ka = kn_pids k" "kn_exceptions ka = kn_exceptions k"
    "stack_ready (ke_layout (be_kernel be)) s base (base + of_nat t) path ?mh ?b" "thread_ready (ke_layout (be_kernel be)) s tls"
    using stack_and_thread_ok [OF assms(7-9), of ?mh ?b] by blast
  define sp where "sp = base + of_nat t"
  define args where "args = (if ?b then [?mh, 0, sp + 8, sp + 16, sp + 32, sp + 40] else [ml_header_addr d, 0, sp + 4, sp + 8, sp + 16, sp + 20])"
  let ?k = "ka\<lparr>kn_heap := (tls, 4096) # kn_heap ka, kn_vm := s\<rparr>"
  have u: "unat sp = unat base + t" unfolding sp_def using assms(8) m(2) by (intro unat_offset) (simp add: boot_blocks_def)
  have "(start_args ?mh (ml_header_addr d) sp ?b :: ('s, 'g, u64 list) kact) ka = (Ok args, ka)"
    using assms(8) m(2) by (simp add: start_args_def u boot_blocks_def args_def ret_run)
  moreover from enter_process_ok [of ?k be "ml_entry d" sp args tls ?b] assms(4-6) m(4-6) obtain p k' where
    e: "enter_process be (ml_entry d) sp args tls ?b ?k = (Ok (), k')" "kernel_ok k'" "kn_vm k' = s"
    "kn_cpu k' = pr_context (process_new 1 (ke_starter (be_kernel be)) (ke_stack (be_kernel be) 1) (ml_entry d) sp args tls ?b)"
    by auto
  ultimately have "start_program be main_bin dyld_bin k0 = (Ok (), k')"
    using ld m(1,3) unfolding sp_def by (simp add: start_program_def act_simps)
  moreover have "boots_into be d args sp tls k'" by (rule boots_into_new) (simp_all add: args_def e(4))
  moreover have "kernel_ok k''" if "runs n k' k''" for n k'' using runs_invariant [OF that e(2)] by blast
  ultimately show ?thesis using m(7,8) unfolding args_def sp_def [symmetric] e(3) [symmetric]
    by (intro exI [of _ sp] exI [of _ k']) simp
qed

text \<open>A 64-bit program without segments that names the linker \<open>/d\<close>, on the tables of the boot.\<close>

definition sample_macho :: "load_command list \<Rightarrow> macho" where
  "sample_macho cs = \<lparr>mo_cputype = CPU_TYPE_ARM64, mo_load_commands = cs, mo_segments = [], mo_entry = 0x4000\<rparr>"

definition sample_boot :: "(virtio_blk volume_file, unit) boot_env" where
  "sample_boot = \<lparr>be_kernel = sample_env\<lparr>ke_alloc := (\<lambda>_ _. Some 0x300000)\<rparr>,
     be_parser = \<lparr>mp_mach = (\<lambda>bs. Some (Binary (sample_macho (if bs = [] then [] else [LoadDylinker 0 0])))), mp_macho = (\<lambda>_. None)\<rparr>,
     be_commpage = 0x50000000, be_vec = (\<lambda>_ _. Some 0x100000), be_fuel = 10\<rparr>"

definition sample_start :: "(virtio_blk volume_file, unit) kernel" where
  "sample_start = (boot_kernel [])\<lparr>kn_sched := scheduler_new, kn_pids := 1\<rparr>"

lemma sample_start_facts:
  "kn_sched sample_start = scheduler_new" "kn_pids sample_start = 1" "kn_exceptions sample_start = 0" "kn_heap sample_start = []"
  "vm_mmu (kn_vm sample_start) = init_tables sample_layout" "ke_layout (be_kernel sample_boot) = sample_layout"
  by (simp_all add: sample_start_def boot_kernel_def sample_vm_def sample_boot_def sample_env_def)

lemma sample_boot_blocks: "boot_blocks sample_boot sample_start 0x100000 0x300000"
proof -
  have "heap_block sample_layout (init_tables sample_layout) 0x100000 STACK_BYTES"
    using identity_buffer [OF sample_layout_ok, of "0x100000" STACK_BYTES] identity_place(2) [OF sample_layout_ok, of "0x100000"]
    by (simp add: heap_block_def STACK_BYTES_def)
  moreover have "heap_block sample_layout (init_tables sample_layout) 0x300000 4096"
    using identity_buffer [OF sample_layout_ok, of "0x300000" 4096] identity_place(2) [OF sample_layout_ok, of "0x300000"]
    by (simp add: heap_block_def)
  ultimately show ?thesis
    unfolding boot_blocks_def sample_start_facts by (simp add: sample_boot_def apart_def STACK_BYTES_def)
qed

theorem first_program_starts_witness:
  "\<exists>sp k'. start_program sample_boot [47, 100, 0] [] sample_start = (Ok (), k') \<and>
    boots_into sample_boot \<lparr>ml_entry = 0x2fe04000, ml_header_addr = 0x2fe00000, ml_dylinker = None, ml_is_64bit = True\<rparr>
      [0, 0, sp + 8, sp + 16, sp + 32, sp + 40] sp 0x300000 k'"
proof -
  let ?path = "[47, 100] :: ustring"
  let ?l = "\<lparr>ml_entry = 0x4000, ml_header_addr = 0, ml_dylinker = Some ?path, ml_is_64bit = True\<rparr>"
  let ?d = "\<lparr>ml_entry = 0x2fe04000, ml_header_addr = 0x2fe00000, ml_dylinker = None, ml_is_64bit = True\<rparr>"
  have p: "utf8_decode [47, 100] = Some ?path" by code_simp
  have l: "macho_load (be_kernel sample_boot) (be_parser sample_boot) [47, 100, 0] 0 sample_start = (Ok (Some ?l), sample_start)"
    by (simp add: macho_load_def sample_boot_def load_macho_def sample_macho_def p act_simps)
  have d: "macho_load (be_kernel sample_boot) (be_parser sample_boot) [] 0x2fe00000 sample_start = (Ok (Some ?d), sample_start)"
    by (simp add: macho_load_def sample_boot_def load_macho_def sample_macho_def act_simps)
  have t: "tables_ready (ke_layout (be_kernel sample_boot)) 4 (vm_mmu (kn_vm sample_start))"
    using sample_tables sample_layout_ok by (simp add: sample_start_facts tables_ready_def)
  have sz: "strings_size (stack_strings ?path) + 96 \<le> STACK_BYTES"
    by (simp add: strings_size_def stack_strings_def as_bytes_def utf8_bytes_def STACK_BYTES_def)
  have path: "ml_dylinker ?l = Some ?path" by simp
  from first_program_starts [OF l path d sample_start_facts(1-3) t sample_boot_blocks sz] show ?thesis by auto
qed

end
