(* ===== verification/Setup.thy ===== *)
theory Setup
  imports Dmg
begin

text \<open>
  The tool that prepares the disk of the kernel (\<open>src/src/tools/gravity-setup/src/main.rs\<close>): the choice of the image in the
  firmware, the disk image with the file system of the firmware at an offset, the file at an offset through which the
  tool checks it. Files of the host are given by their bytes; a write behind the end of the mapped image is undefined
  behaviour in the code and a panic here. Progress bars and messages are left out.
\<close>

section \<open>Errors and arguments\<close>

datatype setup_error =
    SIo std_error
  | SDmg string
  | SHfs string
  | SDownload string
  | SDecrypt string
  | SZip string
  | SOther string

record setup_args =
  sa_device :: string
  sa_build :: string
  sa_key :: bytes
  sa_size_mb :: nat
  sa_rootfs_offset_mb :: nat

text \<open>\<open>mb * 1024 * 1024\<close>.\<close>

definition megabytes :: "nat \<Rightarrow> ('s, 'e, nat) act" where
  "megabytes n = checked64 (n * 1024 * 1024)"

section \<open>The image in the firmware\<close>

text \<open>
  The entries of the archive by name and size: number, name and size of the largest one that ends in \<open>.dmg\<close>, the first of
  several.
\<close>

definition DMG_SUFFIX :: ustring where "DMG_SUFFIX = map of_char ''.dmg''"

definition ends_with :: "ustring \<Rightarrow> ustring \<Rightarrow> bool" where
  "ends_with s t \<longleftrightarrow> length t \<le> length s \<and> drop (length s - length t) s = t"

fun largest_from :: "(ustring \<times> nat) list \<Rightarrow> nat \<Rightarrow> nat \<times> ustring \<times> nat \<Rightarrow> nat \<times> ustring \<times> nat" where
  "largest_from [] i best = best"
| "largest_from ((name, n) # es) i (bi, bn, bs) =
     largest_from es (i + 1) (if ends_with name DMG_SUFFIX \<and> bs < n then (i, name, n) else (bi, bn, bs))"

definition largest_dmg :: "(ustring \<times> nat) list \<Rightarrow> ('s, setup_error, nat \<times> ustring \<times> nat) act" where
  "largest_dmg es =
     (let (i, name, n) = largest_from es 0 (0, [], 0)
      in if n = 0 then fail (SOther ''No DMG found in IPSW'') else ret (i, name, n))"

section \<open>A file from an offset on\<close>

definition offset_seek :: "'s std_file \<Rightarrow> nat \<Rightarrow> seek_from \<Rightarrow> ('s, std_error, nat) act" where
  "offset_seek dev off w =
     bnd (case w of Start s \<Rightarrow> bnd (checked64 (off + s)) (\<lambda>n. ret (Start n)) | Current c \<Rightarrow> ret (Current c) | End e \<Rightarrow> ret (End e)) (\<lambda>actual.
     bnd (sf_seek dev actual) (\<lambda>new_pos. ret (new_pos - off)))"

definition offset_ops :: "(std_error \<Rightarrow> string) \<Rightarrow> 's std_file \<Rightarrow> nat \<Rightarrow> 's read_seek" where
  "offset_ops shown dev off =
     \<lparr>rs_read = (\<lambda>n. map_err (\<lambda>e. InvalidData (shown e)) (sf_read dev n)),
      rs_seek = (\<lambda>w. map_err (\<lambda>e. InvalidData (shown e)) (offset_seek dev off w))\<rparr>"

section \<open>The partition with the file system\<close>

text \<open>
  The first 2048 bytes of a chunk, filled up with zeros: \<open>let _ = reader.read_exact(&mut header)\<close> drops an error. What a
  decompressor yields before it fails is the parameter \<open>partial\<close>; of a failed read of the file nothing is kept.
\<close>

definition lenient :: "('s, 'e, bytes) act \<Rightarrow> ('s, 'e, bytes) act" where
  "lenient m = (\<lambda>s. case m s of (Err _, s') \<Rightarrow> (Ok [], s') | (r, s') \<Rightarrow> (r, s'))"

definition chunk_head ::
  "'s std_file \<Rightarrow> (bytes \<Rightarrow> bytes option) \<Rightarrow> (bytes \<Rightarrow> bytes) \<Rightarrow> blkx_chunk \<Rightarrow> ('s, std_error, bytes) act" where
  "chunk_head dev inflate partial c =
     bnd (case chunk_ty c of
            None \<Rightarrow> panic
          | Some ty \<Rightarrow>
             (case ty of
                Raw \<Rightarrow> bnd (sf_seek dev (Start (unat (bc_compressed_offset c)))) (\<lambda>_.
                  lenient (take_to_end (sf_read dev) (unat (bc_compressed_length c))))
              | Zlib \<Rightarrow> bnd (sf_seek dev (Start (unat (bc_compressed_offset c)))) (\<lambda>_.
                  bnd (lenient (take_to_end (sf_read dev) (unat (bc_compressed_length c)))) (\<lambda>z.
                  ret (case inflate z of Some d \<Rightarrow> d | None \<Rightarrow> partial z)))
              | _ \<Rightarrow> sector_bytes dev inflate c))
       (\<lambda>bs. ret (take 2048 (bs @ replicate 2048 0)))"

definition hfs_signature :: "bytes \<Rightarrow> bool" where
  "hfs_signature head \<longleftrightarrow> take 2 (drop 1024 head) \<in> {[0x48, 0x2B], [0x48, 0x58]}"

fun find_hfs ::
  "'s std_file \<Rightarrow> (bytes \<Rightarrow> bytes option) \<Rightarrow> (bytes \<Rightarrow> bytes) \<Rightarrow> plist \<Rightarrow> nat list \<Rightarrow> ('s, std_error, blkx_table option) act" where
  "find_hfs dev inflate partial x [] = ret None"
| "find_hfs dev inflate partial x (i # is) =
     bnd (partition_table x i) (\<lambda>table.
     case find (\<lambda>c. chunk_ty c \<noteq> Some Comment) (bt_chunks table) of
       None \<Rightarrow> find_hfs dev inflate partial x is
     | Some c \<Rightarrow>
         bnd (chunk_head dev inflate partial c) (\<lambda>head.
         if hfs_signature head then ret (Some table) else find_hfs dev inflate partial x is))"

section \<open>The disk image\<close>

text \<open>\<open>read_exact_at\<close> of the file, and \<open>copy_nonoverlapping\<close> into the mapped image.\<close>

definition read_exact_at :: "bytes \<Rightarrow> nat \<Rightarrow> nat \<Rightarrow> ('s, setup_error, bytes) act" where
  "read_exact_at src n off =
     (if n = 0 then ret []
      else if 2 ^ 63 \<le> off then fail (SIo (InvalidInput ''Invalid argument''))
      else if length src < off + n then fail (SIo UnexpectedEof)
      else ret (take n (drop off src)))"

definition copy_to :: "nat \<Rightarrow> bytes \<Rightarrow> (bytes, 'e, unit) act" where
  "copy_to at d = (\<lambda>img. if length img < at + length d then (Panic, img)
     else (Ok (), take at img @ d @ drop (at + length d) img))"

definition write_chunk :: "(bytes \<Rightarrow> bytes option) \<Rightarrow> bytes \<Rightarrow> nat \<Rightarrow> blkx_chunk \<Rightarrow> (bytes, setup_error, unit) act" where
  "write_chunk inflate src rootfs_offset c =
     (case chunk_ty c of
        None \<Rightarrow> fail (SDmg ''Unknown chunk type'')
      | Some ty \<Rightarrow>
          bnd (checked64 (unat (bc_sector_number c) * 512)) (\<lambda>at.
          bnd (checked64 (rootfs_offset + at)) (\<lambda>output_pos.
          case ty of
            Raw \<Rightarrow>
              bnd (read_exact_at src (unat (bc_compressed_length c)) (unat (bc_compressed_offset c))) (copy_to output_pos)
          | Zlib \<Rightarrow>
              bnd (read_exact_at src (unat (bc_compressed_length c)) (unat (bc_compressed_offset c))) (\<lambda>z.
              bnd (checked64 (unat (bc_sector_count c) * 512)) (\<lambda>_.
              case inflate z of None \<Rightarrow> fail (SIo Malformed) | Some d \<Rightarrow> copy_to output_pos d))
          | _ \<Rightarrow> ret ())))"

text \<open>
  The chunks are written by several threads; \<open>order\<close> is the order in which their writes happen. The file that is read is
  the one that the reader \<open>dev\<close> was opened on.
\<close>

definition create_disk_image ::
  "(std_error \<Rightarrow> string) \<Rightarrow> 's std_file \<Rightarrow> (bytes \<Rightarrow> plist option) \<Rightarrow> (bytes \<Rightarrow> bytes option) \<Rightarrow> (bytes \<Rightarrow> bytes) \<Rightarrow>
   (blkx_chunk list \<Rightarrow> blkx_chunk list) \<Rightarrow> bytes \<Rightarrow> setup_args \<Rightarrow> ('s, setup_error, bytes) act" where
  "create_disk_image shown dev parse inflate partial order src args =
     bnd (map_err (\<lambda>e. SDmg (shown e)) (dmg_new dev parse)) (\<lambda>(koly, x).
     bnd (map_err (\<lambda>e. SDmg (shown e)) (find_hfs dev inflate partial x [0..<length (pl_blkx x)])) (\<lambda>found.
     case found of
       None \<Rightarrow> panic
     | Some table \<Rightarrow>
         bnd (megabytes (sa_size_mb args)) (\<lambda>n.
         if n = 0 \<or> 2 ^ 63 \<le> n then fail (SIo (InvalidInput ''size of the image''))
         else
           bnd (megabytes (sa_rootfs_offset_mb args)) (\<lambda>rootfs_offset s.
           case each_act (write_chunk inflate src rootfs_offset) (order (bt_chunks table)) (replicate n 0) of
             (Ok _, img) \<Rightarrow> (Ok img, s)
           | (Err e, _) \<Rightarrow> (Err e, s)
           | (Panic, _) \<Rightarrow> (Panic, s)
           | (Loop, _) \<Rightarrow> (Loop, s)))))"

section \<open>Program headers\<close>

text \<open>The offsets at which the check of a resource fork reports the number of a program.\<close>

definition MAGICS :: "u32 list" where
  "MAGICS = [0xfeedface, 0xcefaedfe, 0xcafebabe, 0xbebafeca, 0xfeedfacf, 0xcffaedfe, 0x636d7066]"

definition find_magics :: "bytes \<Rightarrow> nat \<Rightarrow> (nat \<times> u32) list" where
  "find_magics data total_read =
     filter (\<lambda>(i, magic). magic \<in> set MAGICS) (map (\<lambda>i. (i, from_be (take 4 (drop i data)))) [0..<total_read - 4])"

end
