(* ===== verification/SetupSpec.thy ===== *)
theory SetupSpec
  imports Setup DmgRead
begin

text \<open>
  What the disk image is: the bytes of the partition at the offset, and zeros, in whatever order the chunks are written; and a
  file at an offset is a device that holds the rest of the file.
\<close>

section \<open>A file from an offset on\<close>

lemma offset_disk:
  assumes "std_disk dev img rdy" and "off \<le> length img" and "length img < 2 ^ 64"
  shows "disk (offset_ops shown dev off) (drop off img) (\<lambda>s p. rdy s (off + p))"
proof unfold_locales
  fix s p q assume r: "rdy s (off + p)" and q: "q \<le> length (drop off img)"
  have "off + q \<le> length img" using q assms(2) by simp
  from random_access.seek_start [OF std_disk.axioms [OF assms(1)] r this] obtain s' where
    "sf_seek dev (Start (off + q)) s = (Ok (off + q), s')" "rdy s' (off + q)" by blast
  moreover have "off + q < 2 ^ 64" using \<open>off + q \<le> length img\<close> assms(3) by simp
  ultimately show "\<exists>s'. rs_seek (offset_ops shown dev off) (Start q) s = (Ok q, s') \<and> rdy s' (off + q)"
    by (auto simp: offset_ops_def offset_seek_def map_err_def act_simps)
next
  fix s p n assume r: "rdy s (off + p)" "0 < n" "p + n \<le> length (drop off img)"
  then have "off + p + n \<le> length img" using assms(2) by simp
  from random_access.read_some [OF std_disk.axioms [OF assms(1)] r(1,2) this] obtain k s' where
    k: "0 < k" "k \<le> n" "sf_read dev n s = (Ok (take k (drop (off + p) img)), s')" "rdy s' (off + p + k)" by blast
  have "drop (off + p) img = drop p (drop off img)" by (simp add: add.commute)
  with k show
    "\<exists>k s'. 0 < k \<and> k \<le> n \<and> rs_read (offset_ops shown dev off) n s = (Ok (take k (drop p (drop off img))), s') \<and> rdy s' (off + (p + k))"
    by (intro exI [of _ k] exI [of _ s']) (simp add: offset_ops_def map_err_def add.assoc)
qed

section \<open>Chunks of all kinds\<close>

text \<open>The data of a chunk of a kind that the reader of disk images knows.\<close>

definition holds_data :: "(bytes \<Rightarrow> bytes option) \<Rightarrow> bytes \<Rightarrow> blkx_chunk \<Rightarrow> bytes \<Rightarrow> bool" where
  "holds_data inflate src c d \<longleftrightarrow> unat (bc_sector_count c) * 512 = length d \<and> length d < 2 ^ 63 \<and>
     (case chunk_ty c of
        Some Zlib \<Rightarrow> d \<noteq> [] \<and> unat (bc_compressed_offset c) + unat (bc_compressed_length c) \<le> length src \<and>
          inflate (take (unat (bc_compressed_length c)) (drop (unat (bc_compressed_offset c)) src)) = Some d
      | Some Raw \<Rightarrow> d \<noteq> [] \<and> unat (bc_compressed_offset c) + unat (bc_compressed_length c) \<le> length src \<and>
          d = take (unat (bc_compressed_length c)) (drop (unat (bc_compressed_offset c)) src)
      | Some Ignore \<Rightarrow> d = replicate (length d) 0
      | Some Zero \<Rightarrow> d = replicate (length d) 0
      | Some Comment \<Rightarrow> d = []
      | Some Term \<Rightarrow> d = []
      | _ \<Rightarrow> False)"

text \<open>
  What the tool writes for a chunk, of any kind: what is stored or compressed, and zeros for every other kind. So a chunk
  of one of the kinds \<open>Adc\<close>, \<open>Bzlib\<close> and \<open>Lzfse\<close>, which have data that the tool does not expand, counts as zeros here.
\<close>

definition image_data :: "(bytes \<Rightarrow> bytes option) \<Rightarrow> bytes \<Rightarrow> blkx_chunk \<Rightarrow> bytes \<Rightarrow> bool" where
  "image_data inflate src c d \<longleftrightarrow> unat (bc_sector_count c) * 512 = length d \<and> length d < 2 ^ 63 \<and>
     (case chunk_ty c of
        Some Zlib \<Rightarrow> d \<noteq> [] \<and> unat (bc_compressed_offset c) + unat (bc_compressed_length c) \<le> length src \<and>
          inflate (take (unat (bc_compressed_length c)) (drop (unat (bc_compressed_offset c)) src)) = Some d
      | Some Raw \<Rightarrow> d \<noteq> [] \<and> unat (bc_compressed_offset c) + unat (bc_compressed_length c) \<le> length src \<and>
          d = take (unat (bc_compressed_length c)) (drop (unat (bc_compressed_offset c)) src)
      | Some _ \<Rightarrow> d = replicate (length d) 0
      | None \<Rightarrow> False)"

lemma holds_image_data: "holds_data inflate src c d \<Longrightarrow> image_data inflate src c d"
  by (auto simp: holds_data_def image_data_def split: option.splits chunk_type.splits)

text \<open>The chunks of a partition from the sector \<open>s\<close> on.\<close>

fun placed :: "(bytes \<Rightarrow> bytes option) \<Rightarrow> bytes \<Rightarrow> nat \<Rightarrow> blkx_chunk list \<Rightarrow> bytes list \<Rightarrow> bool" where
  "placed inflate src s [] [] = True"
| "placed inflate src s (c # cs) (d # ds) =
     (image_data inflate src c d \<and> unat (bc_sector_number c) < 2 ^ 53 \<and> (d \<noteq> [] \<longrightarrow> unat (bc_sector_number c) = s) \<and>
      placed inflate src (s + unat (bc_sector_count c)) cs ds)"
| "placed inflate src s _ _ = False"

lemma placed_nth:
  "placed inflate src s cs ds \<Longrightarrow> length cs = length ds \<and> (\<forall>i < length ds. image_data inflate src (cs ! i) (ds ! i) \<and>
     unat (bc_sector_number (cs ! i)) < 2 ^ 53 \<and>
     (ds ! i \<noteq> [] \<longrightarrow> unat (bc_sector_number (cs ! i)) * 512 = s * 512 + length (concat (take i ds))))"
proof (induction inflate src s cs ds rule: placed.induct)
  case (2 inflate src s c cs d ds)
  have d: "unat (bc_sector_count c) * 512 = length d" using "2.prems" by (simp add: image_data_def)
  have "image_data inflate src ((c # cs) ! i) ((d # ds) ! i) \<and> unat (bc_sector_number ((c # cs) ! i)) < 2 ^ 53 \<and>
     ((d # ds) ! i \<noteq> [] \<longrightarrow> unat (bc_sector_number ((c # cs) ! i)) * 512 = s * 512 + length (concat (take i (d # ds))))"
    if "i < length (d # ds)" for i
    using that "2.IH" "2.prems" d by (cases i) (auto simp: distrib_right)
  then show ?case using "2.IH" "2.prems" by simp
qed simp_all

section \<open>Writing a chunk\<close>

text \<open>The part of an image that is final: where it is not written it is zero.\<close>

definition partly :: "bytes \<Rightarrow> (nat \<Rightarrow> bool) \<Rightarrow> bytes \<Rightarrow> bool" where
  "partly final done img \<longleftrightarrow> length img = length final \<and>
     (\<forall>k < length final. img ! k = (if done k then final ! k else 0))"

lemma copy_to_partly:
  assumes "partly final done img" and "at + length d \<le> length final" and "take (length d) (drop at final) = d"
  shows "\<exists>img'. copy_to at d img = (Ok (), img') \<and> partly final (\<lambda>k. done k \<or> (at \<le> k \<and> k < at + length d)) img'"
proof -
  let ?img = "take at img @ d @ drop (at + length d) img"
  have l: "length img = length final" using assms(1) by (simp add: partly_def)
  have d: "d ! j = final ! (at + j)" if "j < length d" for j
    using that assms(2) by (subst assms(3) [symmetric]) simp
  have "?img ! k = (if done k \<or> (at \<le> k \<and> k < at + length d) then final ! k else 0)" if "k < length final" for k
    using that assms(1,2) l d [of "k - at"] by (auto simp: partly_def nth_append min_def)
  then show ?thesis using l assms(2) by (simp add: copy_to_def partly_def)
qed

text \<open>What a chunk of the partition covers.\<close>

definition covers :: "nat \<Rightarrow> blkx_chunk \<Rightarrow> nat \<Rightarrow> bool" where
  "covers off c k \<longleftrightarrow> off + unat (bc_sector_number c) * 512 \<le> k \<and>
     k < off + (unat (bc_sector_number c) + unat (bc_sector_count c)) * 512"

lemma write_chunk_ok:
  assumes "partly final done img" and "image_data inflate src c d" and "unat (bc_sector_number c) < 2 ^ 53" and "off < 2 ^ 63"
    and "length src < 2 ^ 63" and "length final < 2 ^ 63"
    and "d \<noteq> [] \<Longrightarrow> off + unat (bc_sector_number c) * 512 + length d \<le> length final \<and>
      take (length d) (drop (off + unat (bc_sector_number c) * 512) final) = d"
  shows "\<exists>img'. write_chunk inflate src off c img = (Ok (), img') \<and> partly final (\<lambda>k. done k \<or> covers off c k) img'"
proof -
  let ?at = "unat (bc_sector_number c) * 512"
  have n: "(unat (bc_sector_number c) + unat (bc_sector_count c)) * 512 = ?at + length d"
    using assms(2) by (simp add: image_data_def distrib_right)
  then have cov: "covers off c k \<longleftrightarrow> off + ?at \<le> k \<and> k < off + ?at + length d" for k
    by (simp only: covers_def add.assoc)
  have at: "?at < 2 ^ 64" "off + ?at < 2 ^ 64" using assms(3,4) by simp_all
  have rd: "read_exact_at src (unat (bc_compressed_length c)) (unat (bc_compressed_offset c)) =
      (ret (take (unat (bc_compressed_length c)) (drop (unat (bc_compressed_offset c)) src)) :: (bytes, setup_error, bytes) act)"
    if "unat (bc_compressed_offset c) + unat (bc_compressed_length c) \<le> length src"
    using that assms(5) by (simp add: read_exact_at_def)
  have put: "\<exists>img'. copy_to (off + ?at) d img = (Ok (), img') \<and> partly final (\<lambda>k. done k \<or> covers off c k) img'" if "d \<noteq> []"
    using copy_to_partly [OF assms(1), of "off + ?at" d] assms(7) [OF that] by (simp add: cov)
  have zeros: "partly final (\<lambda>k. done k \<or> covers off c k) img" if "d = replicate (length d) 0"
  proof (cases "d = []")
    case True
    then have "\<not> covers off c k" for k by (simp add: cov)
    then show ?thesis using assms(1) by simp
  next
    case False
    have "final ! k = 0" if "covers off c k" for k
    proof -
      have k: "off + ?at \<le> k" "k < off + ?at + length d" using that by (simp_all add: cov)
      have "final ! k = take (length d) (drop (off + ?at) final) ! (k - (off + ?at))"
        using k assms(7) [OF False] by (subst nth_take, linarith, subst nth_drop, linarith) simp
      also have "take (length d) (drop (off + ?at) final) = d" using assms(7) [OF False] by blast
      also have "d ! (k - (off + ?at)) = 0" using k by (subst \<open>d = replicate (length d) 0\<close>) simp
      finally show ?thesis .
    qed
    then show ?thesis using assms(1) by (auto simp: partly_def)
  qed
  have sz: "unat (bc_sector_count c) * 512 < 2 ^ 64" using assms(2) by (simp add: image_data_def)
  obtain ty where ty: "chunk_ty c = Some ty" using assms(2) by (cases "chunk_ty c") (auto simp: image_data_def)
  show ?thesis
    using assms(2) put zeros at sz ty by (cases ty) (auto simp: write_chunk_def image_data_def rd ret_run)
qed

text \<open>All chunks, in any order, some perhaps twice.\<close>

definition writable :: "(bytes \<Rightarrow> bytes option) \<Rightarrow> bytes \<Rightarrow> nat \<Rightarrow> bytes \<Rightarrow> blkx_chunk \<Rightarrow> bool" where
  "writable inflate src off final c \<longleftrightarrow> unat (bc_sector_number c) < 2 ^ 53 \<and> (\<exists>d. image_data inflate src c d \<and>
     (d \<noteq> [] \<longrightarrow> off + unat (bc_sector_number c) * 512 + length d \<le> length final \<and>
       take (length d) (drop (off + unat (bc_sector_number c) * 512) final) = d))"

lemma write_chunks_ok:
  "off < 2 ^ 63 \<Longrightarrow> length src < 2 ^ 63 \<Longrightarrow> length final < 2 ^ 63 \<Longrightarrow> \<forall>c \<in> set cs. writable inflate src off final c \<Longrightarrow>
   partly final done img \<Longrightarrow>
   \<exists>img'. each_act (write_chunk inflate src off) cs img = (Ok (), img') \<and>
     partly final (\<lambda>k. done k \<or> (\<exists>c \<in> set cs. covers off c k)) img'"
proof (induction cs arbitrary: "done" img)
  case (Cons c cs)
  from Cons.prems(4) obtain d where d: "image_data inflate src c d" "unat (bc_sector_number c) < 2 ^ 53"
    "d \<noteq> [] \<Longrightarrow> off + unat (bc_sector_number c) * 512 + length d \<le> length final \<and>
       take (length d) (drop (off + unat (bc_sector_number c) * 512) final) = d"
    by (auto simp: writable_def)
  from write_chunk_ok [OF Cons.prems(5) d(1,2) Cons.prems(1-3) d(3)] obtain img1 where
    i1: "write_chunk inflate src off c img = (Ok (), img1)" "partly final (\<lambda>k. done k \<or> covers off c k) img1" by blast
  from Cons.IH [OF Cons.prems(1-3) _ i1(2)] Cons.prems(4) obtain img2 where
    i2: "each_act (write_chunk inflate src off) cs img1 = (Ok (), img2)"
      "partly final (\<lambda>k. (done k \<or> covers off c k) \<or> (\<exists>c \<in> set cs. covers off c k)) img2" by auto
  then show ?case using i1(1) by (intro exI [of _ img2]) (simp add: act_simps disj_assoc)
qed (simp add: ret_run)

lemma write_partition_ok:
  assumes "placed inflate src 0 cs ds" and "set cs' = set cs" and "off + length (concat ds) \<le> n" and "n < 2 ^ 63"
    and "length src < 2 ^ 63"
  shows "each_act (write_chunk inflate src off) cs' (replicate n 0) =
    (Ok (), replicate off 0 @ concat ds @ replicate (n - off - length (concat ds)) 0)"
proof -
  let ?final = "replicate off 0 @ concat ds @ replicate (n - off - length (concat ds)) 0 :: bytes"
  note P = placed_nth [OF assms(1)]
  note set = assms(2)
  have "writable inflate src off ?final (cs ! i)" if i: "i < length ds" for i
  proof -
    have "take (length (ds ! i)) (drop (upto ds i) (concat ds)) = ds ! i"
      using concat_slice [OF i le_refl, of "length (ds ! i)"] by (simp add: upto_Suc [OF i])
    moreover have "upto ds i + length (ds ! i) \<le> length (concat ds)" using upto_le [of "Suc i" ds] upto_Suc [OF i] by simp
    ultimately show ?thesis using P i assms(3) by (intro writable_def [THEN iffD2] conjI exI [of _ "ds ! i"]) auto
  qed
  then have w: "\<forall>c \<in> set cs'. writable inflate src off ?final c" using P unfolding set by (auto simp: in_set_conv_nth)
  have l: "length ?final = n" using assms(3) by simp
  have "partly ?final (\<lambda>_. False) (replicate n 0)" using l by (simp add: partly_def)
  from write_chunks_ok [OF _ assms(5) _ w this] assms(3,4) l obtain img where
    r: "each_act (write_chunk inflate src off) cs' (replicate n 0) = (Ok (), img)"
      "partly ?final (\<lambda>k. \<exists>c \<in> set cs'. covers off c k) img" by auto
  have "img ! k = ?final ! k" if k: "k < n" for k
  proof (cases "off \<le> k \<and> k < off + length (concat ds)")
    case True
    then obtain i where i: "i < length ds" "upto ds i \<le> k - off" "k - off < upto ds (Suc i)"
      using upto_hit [of "k - off" ds] by (metis add.commute less_diff_conv2)
    then have ne: "ds ! i \<noteq> []" by (auto simp: upto_Suc)
    have "unat (bc_sector_number (cs ! i)) * 512 = upto ds i" "unat (bc_sector_count (cs ! i)) * 512 = length (ds ! i)"
      using P i(1) ne by (auto simp: image_data_def)
    then have "covers off (cs ! i) k" using i True by (simp add: covers_def distrib_right upto_Suc, linarith)
    then show ?thesis using r(2) k l P i(1) unfolding set by (auto simp: partly_def)
  next
    case False
    then have "?final ! k = 0" using k by (auto simp: nth_append)
    then show ?thesis using r(2) k l by (simp add: partly_def)
  qed
  then have "img = ?final" using r(2) l by (intro nth_equalityI) (simp_all add: partly_def)
  with r(1) show ?thesis by simp
qed

section \<open>The partition with the file system\<close>

text \<open>The partitions before the one of the file system begin with data without the signature.\<close>

definition starts_with :: "(bytes \<Rightarrow> bytes option) \<Rightarrow> bytes \<Rightarrow> dmg_part \<Rightarrow> blkx_table \<Rightarrow> bytes \<Rightarrow> bool" where
  "starts_with inflate src pt table d \<longleftrightarrow> fst (bt_read_from slice_read (pa_data pt)) = Ok table \<and>
     (\<exists>c. find (\<lambda>c. chunk_ty c \<noteq> Some Comment) (bt_chunks table) = Some c \<and> holds_data inflate src c d)"

context std_disk begin

lemma chunk_head_ok:
  assumes "ready s p" and "holds_data inflate content c d"
  shows "\<exists>s' q. chunk_head dev inflate partial c s = (Ok (take 2048 (d @ replicate 2048 0)), s') \<and> ready s' q"
proof -
  let ?o = "unat (bc_compressed_offset c)" and ?n = "unat (bc_compressed_length c)"
  have rd: "\<exists>s1 s2 q. sf_seek dev (Start ?o) s = (Ok ?o, s1) \<and> take_to_end (sf_read dev) ?n s1 = (Ok (take ?n (drop ?o content)), s2) \<and>
      ready s2 q" if "?o + ?n \<le> length content"
  proof -
    have "?o \<le> length content" using that by simp
    from seek_start [OF assms(1) this] obtain s1 where s1: "sf_seek dev (Start ?o) s = (Ok ?o, s1)" "ready s1 ?o" by blast
    from take_to_end_at [OF s1(2) that] s1(1) show ?thesis by blast
  qed
  have k: "unat (bc_sector_count c) * 512 = length d" "length d < 2 ^ 64" using assms(2) by (simp_all add: holds_data_def)
  obtain ty where ty: "chunk_ty c = Some ty" using assms(2) by (cases "chunk_ty c") (auto simp: holds_data_def)
  show ?thesis
    using assms rd k ty
    by (cases ty) (auto simp: chunk_head_def holds_data_def sector_bytes_def chunk_size_def lenient_def act_simps)
qed

lemma find_hfs_ok:
  assumes "ready s p" and "i < length parts" and "pl_blkx x = parts" and "k \<le> i"
    and "\<And>j. j \<le> i \<Longrightarrow> starts_with inflate content (parts ! j) (ts j) (ds j)"
    and "\<And>j. j \<le> i \<Longrightarrow> hfs_signature (take 2048 (ds j @ replicate 2048 0)) \<longleftrightarrow> j = i"
  shows "\<exists>s' q. find_hfs dev inflate partial x [k..<length parts] s = (Ok (Some (ts i)), s') \<and> ready s' q"
  using assms(1,4)
proof (induction "i - k" arbitrary: k s p)
  case (0 k)
  then have k: "k = i" by simp
  from assms(5) [of i] obtain c where c: "fst (bt_read_from slice_read (pa_data (parts ! i))) = Ok (ts i)"
    "find (\<lambda>c. chunk_ty c \<noteq> Some Comment) (bt_chunks (ts i)) = Some c" "holds_data inflate content c (ds i)"
    by (auto simp: starts_with_def)
  from chunk_head_ok [OF 0(2) c(3), of partial] obtain s' q where
    h: "chunk_head dev inflate partial c s = (Ok (take 2048 (ds i @ replicate 2048 0)), s')" "ready s' q" by blast
  have l: "[i..<length parts] = i # [Suc i..<length parts]" using assms(2) by (simp add: upt_conv_Cons)
  show ?case using h c assms(2,3) assms(6) [of i]
    by (auto simp: k l partition_table_def part_table_def ret_run bnd_Ok [where m = "chunk_head dev inflate partial c", OF h(1)])
next
  case (Suc n k)
  then have k: "k < i" by simp
  from assms(5) [of k] k obtain c where c: "fst (bt_read_from slice_read (pa_data (parts ! k))) = Ok (ts k)"
    "find (\<lambda>c. chunk_ty c \<noteq> Some Comment) (bt_chunks (ts k)) = Some c" "holds_data inflate content c (ds k)"
    by (auto simp: starts_with_def)
  from chunk_head_ok [OF Suc.prems(1) c(3), of partial] obtain s1 q1 where
    h: "chunk_head dev inflate partial c s = (Ok (take 2048 (ds k @ replicate 2048 0)), s1)" "ready s1 q1" by blast
  have "n = i - Suc k" using Suc.hyps(2) by simp
  from Suc.hyps(1) [OF this h(2)] k obtain s' q where
    r: "find_hfs dev inflate partial x [Suc k..<length parts] s1 = (Ok (Some (ts i)), s')" "ready s' q" by auto
  have l: "[k..<length parts] = k # [Suc k..<length parts]" using assms(2) k by (simp add: upt_conv_Cons)
  show ?case using r c assms(2,3) assms(6) [of k] k
    by (auto simp: l partition_table_def part_table_def ret_run bnd_Ok [where m = "chunk_head dev inflate partial c", OF h(1)])
qed

end

end
