(* ===== verification/SetupProps.thy ===== *)
theory SetupProps
  imports SetupSpec DmgProps
begin

text \<open>The property of the tool that prepares the disk.\<close>

lemma disk_image_ok:
  fixes args :: setup_args
  defines "off \<equiv> sa_rootfs_offset_mb args * 1024 * 1024" and "n \<equiv> sa_size_mb args * 1024 * 1024"
  assumes "src = packed_data @ xml @ koly_layout koly" and "koly_ok koly" and "parse xml = Some x"
    and "ko_plist_offset koly = of_nat (length packed_data)" and "ko_plist_length koly = of_nat (length xml)"
    and "length packed_data < 2 ^ 62" and "length xml < 2 ^ 61" and "i < length (pl_blkx x)"
    and "\<And>j. j \<le> i \<Longrightarrow> starts_with inflate src (pl_blkx x ! j) (ts j) (ds j)"
    and "\<And>j. j \<le> i \<Longrightarrow> hfs_signature (take 2048 (ds j @ replicate 2048 0)) \<longleftrightarrow> j = i"
    and "placed inflate src 0 (bt_chunks (ts i)) es" and "\<And>cs. set (order cs) = set cs"
    and "off + length (concat es) \<le> n" and "0 < n" and "n < 2 ^ 63"
  shows "\<exists>img s'. create_disk_image shown std_cursor parse inflate partial order src args (src, 0) = (Ok img, s') \<and>
    img = replicate off 0 @ concat es @ replicate (n - off - length (concat es)) 0 \<and>
    disk (offset_ops shown std_cursor off) (concat es @ replicate (n - off - length (concat es)) 0)
      (\<lambda>s p. std_cursor_ready img s (off + p))"
proof -
  let ?img = "replicate off 0 @ concat es @ replicate (n - off - length (concat es)) 0 :: bytes"
  have "length xml < 2 ^ 62" using assms(9) by simp
  from dmg_new_ok [where parse = parse, OF assms(3-8) this] obtain s q where
    d: "dmg_new std_cursor parse (src, 0) = (Ok (koly, x), s)" "std_cursor_ready src s q" by blast
  have l: "length src < 2 ^ 63" using assms(8,9) by (simp add: assms(3) length_koly_layout [OF assms(4)])
  from std_disk.find_hfs_ok [where partial = partial and inflate = inflate and ts = ts and ds = ds, OF std_cursor_disk.std_disk_axioms d(2) assms(10) refl, of 0]
    assms(11,12) obtain s' q' where
    f: "find_hfs std_cursor inflate partial x [0..<length (pl_blkx x)] s = (Ok (Some (ts i)), s')" by auto
  have w: "each_act (write_chunk inflate src off) (order (bt_chunks (ts i))) (replicate n 0) = (Ok (), ?img)"
    by (rule write_partition_ok [OF assms(13,14,15,17) l])
  have mb: "megabytes (sa_size_mb args) = ret n" "megabytes (sa_rootfs_offset_mb args) = ret off"
    using assms(15,17) by (simp_all add: megabytes_def n_def off_def)
  have "create_disk_image shown std_cursor parse inflate partial order src args (src, 0) = (Ok ?img, s')"
    using d(1) assms(16,17) f w by (simp add: create_disk_image_def map_err_def mb act_simps)
  moreover have "disk (offset_ops shown std_cursor off) (drop off ?img) (\<lambda>s p. std_cursor_ready ?img s (off + p))"
    using assms(15,17) by (intro offset_disk std_cursor_disk.std_disk_axioms) simp_all
  ultimately show ?thesis by simp
qed

text \<open>C34: when the chunks of the first partition whose data begin with a volume header lie one behind the other, the disk image is
  zeros up to the offset, the data of these chunks, and zeros, in whatever order the threads write the chunks. Of every kind the data
  are what the tool makes of it: the bytes of a stored chunk, what a chunk compressed with zlib expands to, and zeros for each other
  kind; so the sectors of a chunk of the kinds \<open>Adc\<close>, \<open>Bzlib\<close> and \<open>Lzfse\<close>, which are not expanded, are zeros in an image that counts
  as complete. The file with which the tool then checks the image is a device that holds the image from the offset on.\<close>

theorem disk_image_holds_partition:
  fixes args :: setup_args
  defines "off \<equiv> sa_rootfs_offset_mb args * 1024 * 1024" and "n \<equiv> sa_size_mb args * 1024 * 1024"
  assumes "src = packed_data @ xml @ koly_layout koly" and "koly_ok koly" and "parse xml = Some x"
    and "ko_plist_offset koly = of_nat (length packed_data)" and "ko_plist_length koly = of_nat (length xml)"
    and "length packed_data < 2 ^ 62" and "length xml < 2 ^ 61" and "i < length (pl_blkx x)"
    and "\<And>j. j \<le> i \<Longrightarrow> starts_with inflate src (pl_blkx x ! j) (ts j) (ds j)"
    and "\<And>j. j \<le> i \<Longrightarrow> hfs_signature (take 2048 (ds j @ replicate 2048 0)) \<longleftrightarrow> j = i"
    and "placed inflate src 0 (bt_chunks (ts i)) es" and "\<And>cs. set (order cs) = set cs"
    and "off + length (concat es) \<le> n" and "0 < n" and "n < 2 ^ 63"
  shows "\<exists>img s'. create_disk_image shown std_cursor parse inflate partial order src args (src, 0) = (Ok img, s') \<and>
    img = replicate off 0 @ concat es @ replicate (n - off - length (concat es)) 0 \<and>
    disk (offset_ops shown std_cursor off) (concat es @ replicate (n - off - length (concat es)) 0)
      (\<lambda>s p. std_cursor_ready img s (off + p))"
  unfolding off_def n_def by (rule disk_image_ok [where ts = ts and ds = ds and parse = parse and order = order, OF assms(3-17) [unfolded off_def n_def]])

text \<open>An image with one raw chunk of 2048 bytes, to be found behind a megabyte; the threads take the chunks in reverse order.\<close>

definition setup_sample :: bytes where
  "setup_sample = replicate 1024 7 @ [0x48, 0x2B] @ replicate 1022 7"

definition setup_table :: blkx_table where
  "setup_table = (table_new 0 0 0)\<lparr>bt_sector_count := 4, bt_chunks := [chunk_new Raw 0 4 0 2048, chunk_term 4 2048]\<rparr>"

definition setup_dmg :: bytes where
  "setup_dmg = setup_sample @ [] @ koly_layout (koly_new (replicate 16 0) 2048 4 2048 0 0 0)"

lemma setup_dmg_facts:
  "length setup_sample = 2048"
  "\<And>j :: nat. j \<le> 0 \<Longrightarrow> starts_with (\<lambda>_. None) setup_dmg (pl_blkx \<lparr>pl_blkx = [part_of 0 [] setup_table], pl_plst = []\<rparr> ! j) setup_table setup_sample"
  "\<And>j :: nat. j \<le> 0 \<Longrightarrow> hfs_signature (take 2048 (setup_sample @ replicate 2048 0)) \<longleftrightarrow> j = 0"
  "placed (\<lambda>_. None) setup_dmg 0 (bt_chunks setup_table) [setup_sample, []]"
proof -
  have l: "length setup_sample = 2048" by (simp add: setup_sample_def)
  have ty: "chunk_ty (chunk_new Raw 0 4 0 2048) = Some Raw" "chunk_ty (chunk_term 4 2048) = Some Term"
    by (simp_all add: chunk_term_def chunk_new_def chunk_ty_def chunk_type_roundtrip del: chunk_type_u32.simps)
  have h: "holds_data (\<lambda>_. None) setup_dmg (chunk_new Raw 0 4 0 2048) setup_sample"
    unfolding holds_data_def ty by (simp add: chunk_new_def setup_dmg_def l) (simp add: setup_sample_def)
  have t: "bt_ok setup_table" "bt_chunks setup_table = [chunk_new Raw 0 4 0 2048, chunk_term 4 2048]"
    by (simp_all add: setup_table_def table_new_def bt_ok_def uc_ok_def uc_new_def)
  have st: "starts_with (\<lambda>_. None) setup_dmg (pl_blkx \<lparr>pl_blkx = [part_of 0 [] setup_table], pl_plst = []\<rparr> ! j) setup_table setup_sample" if "j \<le> 0" for j :: nat
    using that h part_of_ok [OF t(1), of 0 "[]"] by (simp add: starts_with_def t(2) ty)
  have sg: "hfs_signature (take 2048 (setup_sample @ replicate 2048 0)) \<longleftrightarrow> j = 0" if "j \<le> 0" for j :: nat
    using that l by (simp add: hfs_signature_def) (simp add: setup_sample_def)
  have "holds_data (\<lambda>_. None) setup_dmg (chunk_term 4 2048) []"
    unfolding holds_data_def ty by (simp add: chunk_term_def chunk_new_def)
  with h have pl: "placed (\<lambda>_. None) setup_dmg 0 (bt_chunks setup_table) [setup_sample, []]"
    by (simp add: t(2) holds_image_data) (simp add: chunk_new_def chunk_term_def)
  from l st sg pl show "length setup_sample = 2048"
    "\<And>j :: nat. j \<le> 0 \<Longrightarrow> starts_with (\<lambda>_. None) setup_dmg (pl_blkx \<lparr>pl_blkx = [part_of 0 [] setup_table], pl_plst = []\<rparr> ! j) setup_table setup_sample"
    "\<And>j :: nat. j \<le> 0 \<Longrightarrow> hfs_signature (take 2048 (setup_sample @ replicate 2048 0)) \<longleftrightarrow> j = 0"
    "placed (\<lambda>_. None) setup_dmg 0 (bt_chunks setup_table) [setup_sample, []]"
    by blast+
qed

theorem disk_image_holds_partition_witness:
  "\<exists>img s'. create_disk_image (\<lambda>_. []) std_cursor (\<lambda>_. Some \<lparr>pl_blkx = [part_of 0 [] setup_table], pl_plst = []\<rparr>) (\<lambda>_. None) (\<lambda>_. []) rev
      setup_dmg \<lparr>sa_device = [], sa_build = [], sa_key = [], sa_size_mb = 2, sa_rootfs_offset_mb = 1\<rparr> (setup_dmg, 0) = (Ok img, s') \<and>
    img ! 1049600 = 0x48"
proof -
  let ?args = "\<lparr>sa_device = [], sa_build = [], sa_key = [], sa_size_mb = 2, sa_rootfs_offset_mb = 1\<rparr>"
  let ?x = "\<lparr>pl_blkx = [part_of 0 [] setup_table], pl_plst = []\<rparr>"
  note l = setup_dmg_facts(1) and st = setup_dmg_facts(2) and sg = setup_dmg_facts(3) and pl = setup_dmg_facts(4)
  have k: "koly_ok (koly_new (replicate 16 0) 2048 4 2048 0 0 0)" by simp
  have i: "0 < length (pl_blkx ?x)" by simp
  have sz: "sa_rootfs_offset_mb ?args * 1024 * 1024 + length (concat [setup_sample, []]) \<le> sa_size_mb ?args * 1024 * 1024"
    "0 < sa_size_mb ?args * 1024 * 1024" "sa_size_mb ?args * 1024 * 1024 < 2 ^ 63" by (simp_all add: l)
  have "length setup_sample < 2 ^ 62" "length ([] :: bytes) < 2 ^ 61" by (simp_all add: l)
  from disk_image_holds_partition [where parse = "\<lambda>_. Some ?x" and shown = "\<lambda>_. []" and partial = "\<lambda>_. []" and order = rev,
      OF setup_dmg_def k refl _ _ this i st sg pl set_rev sz]
  obtain img s' where r: "create_disk_image (\<lambda>_. []) std_cursor (\<lambda>_. Some ?x) (\<lambda>_. None) (\<lambda>_. []) rev setup_dmg ?args (setup_dmg, 0) = (Ok img, s')"
    "img = replicate (sa_rootfs_offset_mb ?args * 1024 * 1024) 0 @ concat [setup_sample, []] @
      replicate (sa_size_mb ?args * 1024 * 1024 - sa_rootfs_offset_mb ?args * 1024 * 1024 - length (concat [setup_sample, []])) 0"
    by (auto simp: koly_new_def l)
  have "img ! 1049600 = setup_sample ! 1024" unfolding r(2) by (simp add: nth_append l)
  then show ?thesis using r(1) by (auto simp: setup_sample_def nth_append)
qed

end
