(* ===== verification/Dyld.thy ===== *)
theory Dyld
  imports Mem Utf8
begin

text \<open>
  The dynamic linker (\<open>src/src/lib/dyld/src\<close>): the number formats and the two programs of a Mach-O file that relocate it
  (\<open>macho.rs\<close>), the shared cache (\<open>cache.rs\<close>), the start of a program (\<open>main.rs\<close>). It works on the flat memory of \<open>Mem\<close>. What
  the crate \<open>goblin\<close> finds in a header is a parameter: the records below, with the symbols that it can read.
\<close>

unbundle bit_operations_syntax

section \<open>Memory\<close>

fun poke :: "u64 \<Rightarrow> bytes \<Rightarrow> memory \<Rightarrow> memory" where
  "poke a [] m = m"
| "poke a (b # bs) m = poke (a + 1) bs (m(a := b))"

definition peek :: "u64 \<Rightarrow> nat \<Rightarrow> memory \<Rightarrow> bytes" where
  "peek a n m = map (\<lambda>i. m (a + of_nat i)) [0..<n]"

text \<open>\<open>usize\<close> sums, checked.\<close>

definition plus64 :: "u64 \<Rightarrow> u64 \<Rightarrow> ('s, 'e, u64) act" where
  "plus64 a b = (if unat a + unat b < 2 ^ 64 then ret (a + b) else panic)"

section \<open>Parsed files\<close>

datatype dyld_command = DyldInfoOnly u32 u32 u32 u32 | LoadDylib u64 u32 | OtherDyldCommand

record dyld_macho =
  dm_symbols :: "(bytes \<times> u64) list"
  dm_segments :: "u64 list"
  dm_commands :: "dyld_command list"
  dm_entry :: u64

record macho_context =
  mc_macho :: dyld_macho
  mc_base :: u64
  mc_slide :: u64

text \<open>\<open>MachO::parse\<close> (crate \<open>goblin\<close>) of the megabyte at an address.\<close>

type_synonym dyld_parser = "bytes \<Rightarrow> dyld_macho option"

definition context_parse :: "dyld_parser \<Rightarrow> u64 \<Rightarrow> u64 \<Rightarrow> memory \<Rightarrow> macho_context option" where
  "context_parse parse header slide m =
     (case parse (peek header (1024 * 1024) m) of
        None \<Rightarrow> None
      | Some mo \<Rightarrow> Some \<lparr>mc_macho = mo, mc_base = header, mc_slide = slide\<rparr>)"

fun symbol_in :: "bytes \<Rightarrow> u64 \<Rightarrow> (bytes \<times> u64) list \<Rightarrow> ('s, 'e, u64 option) act" where
  "symbol_in name slide [] = ret None"
| "symbol_in name slide ((sym_name, n_value) # syms) =
     (if sym_name = name \<and> n_value \<noteq> 0 then bnd (plus64 n_value slide) (\<lambda>a. ret (Some a))
      else symbol_in name slide syms)"

definition find_symbol :: "macho_context \<Rightarrow> bytes \<Rightarrow> ('s, 'e, u64 option) act" where
  "find_symbol c name = symbol_in name (mc_slide c) (dm_symbols (mc_macho c))"

section \<open>Numbers\<close>

type_synonym isize = "64 word"

text \<open>
  \<open>decode_uleb128\<close> and \<open>decode_sleb128\<close>; the cursor is the rest of the data. A shift by 64 or more is a panic, and so is the
  negation of the least number.
\<close>

fun uleb_from :: "nat \<Rightarrow> u64 \<Rightarrow> bytes \<Rightarrow> ('s, 'e, u64 \<times> bytes) act" where
  "uleb_from shift result [] = ret (result, [])"
| "uleb_from shift result (byte # bs) =
     (if 64 \<le> shift then panic
      else
        let result' = result OR push_bit shift (ucast (byte AND 0x7f))
        in if byte AND 0x80 = 0 then ret (result', bs) else uleb_from (shift + 7) result' bs)"

definition decode_uleb128 :: "bytes \<Rightarrow> ('s, 'e, u64 \<times> bytes) act" where
  "decode_uleb128 data = uleb_from 0 0 data"

fun sleb_from :: "nat \<Rightarrow> isize \<Rightarrow> u8 \<Rightarrow> bytes \<Rightarrow> ('s, 'e, (nat \<times> isize \<times> u8) \<times> bytes) act" where
  "sleb_from shift result byte [] = ret ((shift, result, byte), [])"
| "sleb_from shift result _ (byte # bs) =
     (if 64 \<le> shift then panic
      else
        let result' = result OR push_bit shift (ucast (byte AND 0x7f))
        in if byte AND 0x80 = 0 then ret ((shift + 7, result', byte), bs) else sleb_from (shift + 7) result' byte bs)"

definition decode_sleb128 :: "bytes \<Rightarrow> ('s, 'e, isize \<times> bytes) act" where
  "decode_sleb128 data =
     bnd (sleb_from 0 0 0 data) (\<lambda>((shift, result, byte), rest).
     if shift < 64 \<and> byte AND 0x40 \<noteq> 0 then
       (if shift = 63 then panic else ret (result OR - push_bit shift 1, rest))
     else ret (result, rest))"

section \<open>Binding\<close>

datatype dyld_error = UnknownBindOpcode | UnknownRebaseOpcode

type_synonym 'a dact = "(memory, dyld_error, 'a) act"

fun bind_at :: "u64 \<Rightarrow> bytes \<Rightarrow> macho_context list \<Rightarrow> unit dact" where
  "bind_at addr name [] = ret ()"
| "bind_at addr name (lib # libs) =
     bnd (find_symbol lib name) (\<lambda>found.
     case found of
       Some sym_addr \<Rightarrow> (\<lambda>m. (Ok (), poke addr (to_le sym_addr) m))
     | None \<Rightarrow> bind_at addr name libs)"

record reloc_state =
  rl_rest :: bytes
  rl_seg_offset :: u64
  rl_segment :: u64
  rl_ordinal :: u64
  rl_symbol :: bytes

definition reloc_start :: "bytes \<Rightarrow> reloc_state" where
  "reloc_start data = \<lparr>rl_rest = data, rl_seg_offset = 0, rl_segment = 0, rl_ordinal = 0, rl_symbol = []\<rparr>"

text \<open>\<open>seg_offset += n\<close>, a number from the data, and the start of a segment.\<close>

definition advance_by :: "u64 \<Rightarrow> reloc_state \<Rightarrow> ('s, 'e, reloc_state) act" where
  "advance_by n st = bnd (plus64 (rl_seg_offset st) n) (\<lambda>off. ret (st\<lparr>rl_seg_offset := off\<rparr>))"

definition next_uleb :: "reloc_state \<Rightarrow> ('s, 'e, u64 \<times> reloc_state) act" where
  "next_uleb st = bnd (decode_uleb128 (rl_rest st)) (\<lambda>(n, rest). ret (n, st\<lparr>rl_rest := rest\<rparr>))"

definition set_segment :: "macho_context \<Rightarrow> u8 \<Rightarrow> reloc_state \<Rightarrow> ('s, 'e, reloc_state) act" where
  "set_segment c immediate st =
     bnd (next_uleb st) (\<lambda>(off, st).
     let segs = dm_segments (mc_macho c); i = unat immediate; st = st\<lparr>rl_seg_offset := off\<rparr>
     in if i < length segs then bnd (plus64 (segs ! i) (mc_slide c)) (\<lambda>a. ret (st\<lparr>rl_segment := a\<rparr>)) else ret st)"

text \<open>\<open>for _ in 0..count\<close>: an action at the current slot, then a step.\<close>

fun slots :: "(u64 \<Rightarrow> unit dact) \<Rightarrow> u64 \<Rightarrow> u64 \<Rightarrow> nat \<Rightarrow> reloc_state \<Rightarrow> reloc_state dact" where
  "slots f a b 0 st = ret st"
| "slots f a b (Suc n) st =
     bnd (plus64 (rl_segment st) (rl_seg_offset st)) (\<lambda>addr.
     bnd (f addr) (\<lambda>_.
     bnd (plus64 a b) (\<lambda>step.
     bnd (advance_by step st) (slots f a b n))))"

definition bind_here :: "macho_context list \<Rightarrow> reloc_state \<Rightarrow> unit dact" where
  "bind_here libs st =
     bnd (plus64 (rl_segment st) (rl_seg_offset st)) (\<lambda>addr. bind_at addr (rl_symbol st) libs)"

text \<open>One opcode; no state is \<open>DONE\<close>.\<close>

definition bind_op :: "macho_context \<Rightarrow> macho_context list \<Rightarrow> u8 \<Rightarrow> reloc_state \<Rightarrow> reloc_state option dact" where
  "bind_op c libs byte st =
     (let opcode = byte AND 0xf0; immediate = byte AND 0x0f; continue = (\<lambda>st. ret (Some st)) in
      if opcode = 0x00 then ret None
      else if opcode = 0x10 then continue (st\<lparr>rl_ordinal := ucast immediate\<rparr>)
      else if opcode = 0x20 then bnd (next_uleb st) (\<lambda>(n, st). continue (st\<lparr>rl_ordinal := n\<rparr>))
      else if opcode = 0x30 then continue st
      else if opcode = 0x40 then
        (if 0 \<notin> set (rl_rest st) then panic
         else continue (st\<lparr>rl_symbol := takeWhile (\<lambda>b. b \<noteq> 0) (rl_rest st), rl_rest := tl (dropWhile (\<lambda>b. b \<noteq> 0) (rl_rest st))\<rparr>))
      else if opcode = 0x50 then continue st
      else if opcode = 0x60 then bnd (decode_sleb128 (rl_rest st)) (\<lambda>(_, rest). continue (st\<lparr>rl_rest := rest\<rparr>))
      else if opcode = 0x70 then bnd (set_segment c immediate st) continue
      else if opcode = 0x80 then bnd (next_uleb st) (\<lambda>(n, st). bnd (advance_by n st) continue)
      else if opcode = 0x90 then bnd (bind_here libs st) (\<lambda>_. bnd (advance_by 8 st) continue)
      else if opcode = 0xA0 then
        bnd (bind_here libs st) (\<lambda>_. bnd (next_uleb st) (\<lambda>(n, st). bnd (plus64 n 8) (\<lambda>k. bnd (advance_by k st) continue)))
      else if opcode = 0xB0 then
        bnd (bind_here libs st) (\<lambda>_. bnd (advance_by (ucast immediate * 8 + 8) st) continue)
      else if opcode = 0xC0 then
        bnd (next_uleb st) (\<lambda>(count, st).
        bnd (next_uleb st) (\<lambda>(skip, st).
        bnd (slots (\<lambda>addr. bind_at addr (rl_symbol st) libs) skip 8 (unat count) st) continue))
      else fail UnknownBindOpcode)"

text \<open>The loop over the data. Each opcode takes a byte at least, so their number is enough fuel.\<close>

fun run_ops :: "(u8 \<Rightarrow> reloc_state \<Rightarrow> reloc_state option dact) \<Rightarrow> nat \<Rightarrow> reloc_state \<Rightarrow> unit dact" where
  "run_ops f 0 st = (if rl_rest st = [] then ret () else spin)"
| "run_ops f (Suc fuel) st =
     (case rl_rest st of
        [] \<Rightarrow> ret ()
      | byte # rest \<Rightarrow>
          bnd (f byte (st\<lparr>rl_rest := rest\<rparr>)) (\<lambda>next.
          case next of None \<Rightarrow> ret () | Some st' \<Rightarrow> run_ops f fuel st'))"

definition perform_bind :: "macho_context \<Rightarrow> macho_context list \<Rightarrow> bytes \<Rightarrow> unit dact" where
  "perform_bind c libs data = run_ops (bind_op c libs) (length data) (reloc_start data)"

section \<open>Rebasing\<close>

definition rebase_at :: "u64 \<Rightarrow> u64 \<Rightarrow> unit dact" where
  "rebase_at slide addr = (\<lambda>m.
     bnd (plus64 (from_le (peek addr 8 m)) slide) (\<lambda>w m. (Ok (), poke addr (to_le w) m)) m)"

definition rebase_op :: "macho_context \<Rightarrow> u8 \<Rightarrow> reloc_state \<Rightarrow> reloc_state option dact" where
  "rebase_op c byte st =
     (let opcode = byte AND 0xf0; immediate = byte AND 0x0f; continue = (\<lambda>st. ret (Some st)); slide = mc_slide c in
      if opcode = 0x00 then ret None
      else if opcode = 0x10 then continue st
      else if opcode = 0x20 then bnd (set_segment c immediate st) continue
      else if opcode = 0x30 then bnd (decode_sleb128 (rl_rest st)) (\<lambda>(_, rest). continue (st\<lparr>rl_rest := rest\<rparr>))
      else if opcode = 0x40 then bnd (advance_by (ucast immediate * 8) st) continue
      else if opcode = 0x50 then bnd (next_uleb st) (\<lambda>(n, st). bnd (advance_by n st) continue)
      else if opcode = 0x60 then bnd (slots (rebase_at slide) 0 8 (unat immediate) st) continue
      else if opcode = 0x70 then
        bnd (next_uleb st) (\<lambda>(count, st). bnd (slots (rebase_at slide) 0 8 (unat count) st) continue)
      else if opcode = 0x80 then
        bnd (plus64 (rl_segment st) (rl_seg_offset st)) (\<lambda>addr.
        bnd (rebase_at slide addr) (\<lambda>_. bnd (advance_by (ucast immediate * 8 + 8) st) continue))
      else if opcode = 0x90 then
        bnd (next_uleb st) (\<lambda>(count, st).
        bnd (next_uleb st) (\<lambda>(skip, st).
        bnd (slots (rebase_at slide) skip 8 (unat count) st) continue))
      else fail UnknownRebaseOpcode)"

definition perform_rebase :: "macho_context \<Rightarrow> bytes \<Rightarrow> unit dact" where
  "perform_rebase c data = run_ops (rebase_op c) (length data) (reloc_start data)"

text \<open>The data of both are read from memory next to the header, before they run.\<close>

definition relocate :: "macho_context \<Rightarrow> macho_context list \<Rightarrow> dyld_command \<Rightarrow> unit dact" where
  "relocate c libs cmd =
     (case cmd of
        DyldInfoOnly rebase_off rebase_size bind_off bind_size \<Rightarrow>
          bnd (if 0 < rebase_size then
                 bnd (plus64 (mc_base c) (ucast rebase_off)) (\<lambda>a m.
                 perform_rebase c (peek a (unat rebase_size) m) m)
               else ret ()) (\<lambda>_.
          if 0 < bind_size then
            bnd (plus64 (mc_base c) (ucast bind_off)) (\<lambda>a m.
            perform_bind c libs (peek a (unat bind_size) m) m)
          else ret ())
      | _ \<Rightarrow> ret ())"

definition apply_relocations :: "macho_context \<Rightarrow> macho_context list \<Rightarrow> unit dact" where
  "apply_relocations c libs = each_act (relocate c libs) (dm_commands (mc_macho c))"

section \<open>The shared cache\<close>

text \<open>The string at a pointer; without a zero the code does not stop.\<close>

definition c_string :: "u64 \<Rightarrow> (memory, 'e, bytes) act" where
  "c_string p = (\<lambda>m. case c_strlen p m of None \<Rightarrow> (Loop, m) | Some n \<Rightarrow> (Ok (peek p n m), m))"

definition text_bytes :: "string \<Rightarrow> bytes" where
  "text_bytes s = map (\<lambda>c. of_nat (of_char c)) s"

definition cache_from_addr :: "u64 \<Rightarrow> memory \<Rightarrow> u64 option" where
  "cache_from_addr addr m = (if peek addr 4 m = text_bytes ''dyld'' then Some addr else None)"

text \<open>The images from an entry of the table on; a path that is not UTF-8 ends the search.\<close>

fun images_from :: "u64 \<Rightarrow> bytes \<Rightarrow> u64 \<Rightarrow> nat \<Rightarrow> (memory, 'e, u64 option) act" where
  "images_from base path info 0 = ret None"
| "images_from base path info (Suc n) = (\<lambda>m.
     bnd (c_string (base + ucast (from_le (peek (info + 24) 4 m) :: u32))) (\<lambda>image_path.
     if utf8_decode image_path = None then ret None
     else if image_path = path then ret (Some (from_le (peek info 8 m)))
     else images_from base path (info + 32) n) m)"

definition find_dylib :: "u64 \<Rightarrow> bytes \<Rightarrow> (memory, 'e, u64 option) act" where
  "find_dylib base path = (\<lambda>m.
     images_from base path (base + ucast (from_le (peek (base + 24) 4 m) :: u32)) (unat (from_le (peek (base + 28) 4 m) :: u32)) m)"

section \<open>The start of a program\<close>

record dyld_state =
  ds_mem :: memory
  ds_out :: bytes

definition dyld_print :: "bytes \<Rightarrow> (dyld_state, 'e, unit) act" where
  "dyld_print s = (\<lambda>d. (Ok (), d\<lparr>ds_out := ds_out d @ s\<rparr>))"

definition hex_text :: "u64 \<Rightarrow> bytes" where
  "hex_text val = [48, 120] @ map (\<lambda>i.
     let nibble = drop_bit (60 - i * 4) val AND 0xf
     in if nibble < 10 then 48 + ucast nibble else 97 + ucast (nibble - 10)) [0..<16]"

definition print_hex :: "u64 \<Rightarrow> (dyld_state, 'e, unit) act" where
  "print_hex val = dyld_print (hex_text val)"

text \<open>\<open>print(..); print_hex(..); print("\n")\<close>.\<close>

definition print_value :: "string \<Rightarrow> u64 \<Rightarrow> (dyld_state, 'e, unit) act" where
  "print_value s val = bnd (dyld_print (text_bytes s)) (\<lambda>_. bnd (print_hex val) (\<lambda>_. dyld_print [10]))"

definition on_memory :: "(memory, 'e, 'a) act \<Rightarrow> (dyld_state, 'e, 'a) act" where
  "on_memory f = (\<lambda>d. case f (ds_mem d) of (r, m) \<Rightarrow> (r, d\<lparr>ds_mem := m\<rparr>))"

text \<open>The libraries of the load commands, in order; those that the cache does not have are left out.\<close>

fun load_dylibs ::
  "dyld_parser \<Rightarrow> u64 \<Rightarrow> u64 \<Rightarrow> dyld_command list \<Rightarrow> macho_context list \<Rightarrow> (dyld_state, dyld_error, macho_context list) act" where
  "load_dylibs parse base mh [] libs = ret libs"
| "load_dylibs parse base mh (LoadDylib cmd_offset name_offset # cmds) libs =
     bnd (on_memory (c_string (mh + cmd_offset + ucast name_offset))) (\<lambda>name.
     bnd (dyld_print (text_bytes ''Loading dylib: '' @ name @ [10])) (\<lambda>_.
     bnd (on_memory (find_dylib base name)) (\<lambda>found.
     case found of
       None \<Rightarrow>
         bnd (dyld_print (text_bytes ''  NOT found in cache'' @ [10])) (\<lambda>_. load_dylibs parse base mh cmds libs)
     | Some dylib_addr \<Rightarrow>
         bnd (print_value ''  Found in cache at '' dylib_addr) (\<lambda>_ d.
         load_dylibs parse base mh cmds
           (case context_parse parse dylib_addr 0 (ds_mem d) of Some lib \<Rightarrow> libs @ [lib] | None \<Rightarrow> libs) d))))"
| "load_dylibs parse base mh (_ # cmds) libs = load_dylibs parse base mh cmds libs"

text \<open>The address that is called at the end.\<close>

definition dyld_start :: "dyld_parser \<Rightarrow> u64 \<Rightarrow> u64 \<Rightarrow> u64 \<Rightarrow> (dyld_state, dyld_error, u64) act" where
  "dyld_start parse mh slide argc_ptr =
     bnd (dyld_print (text_bytes ''Hello from Rust dyld!'' @ [10])) (\<lambda>_.
     bnd (print_value ''Mach-O Header: '' mh) (\<lambda>_.
     bnd (print_value ''Slide: '' slide) (\<lambda>_.
     bnd (\<lambda>d. if argc_ptr = 0 then (Ok (), d) else print_value ''Argc: '' (from_le (peek argc_ptr 8 (ds_mem d))) d) (\<lambda>_ d.
     case cache_from_addr 0x30000000 (ds_mem d) of
       None \<Rightarrow> (Panic, d)
     | Some base \<Rightarrow>
         bnd (print_value ''Shared cache found at '' base) (\<lambda>_ d.
         case context_parse parse mh slide (ds_mem d) of
           None \<Rightarrow> (Panic, d)
         | Some main \<Rightarrow>
             bnd (load_dylibs parse base mh (dm_commands (mc_macho main)) []) (\<lambda>libs d.
             case on_memory (apply_relocations main libs) d of
               (Ok _, d) \<Rightarrow>
                 bnd (plus64 (dm_entry (mc_macho main)) slide) (\<lambda>entry.
                 bnd (print_value ''Jumping to entry point: '' entry) (\<lambda>_. ret entry)) d
             | (Err _, d) \<Rightarrow> (Panic, d)
             | (Panic, d) \<Rightarrow> (Panic, d)
             | (Loop, d) \<Rightarrow> (Loop, d)) d) d))))"

end
