(* ===== verification/DyldSpec.thy ===== *)
theory DyldSpec
  imports Dyld
begin

text \<open>
  What the programs of the dynamic linker do: numbers are read back, a list of bindings that is encoded as a program is carried
  out slot by slot, and the shared cache is searched as a table.
\<close>

unbundle bit_operations_syntax

section \<open>Numbers\<close>

fun uleb :: "nat \<Rightarrow> bytes" where
  "uleb n = (if n < 128 then [of_nat n] else of_nat (n mod 128 + 128) # uleb (n div 128))"

declare uleb.simps [simp del]

lemma low_seven_all:
  "list_all (\<lambda>r. (of_nat r :: u8) AND 0x7f = of_nat r \<and> (of_nat r :: u8) AND 0x80 = 0 \<and>
     (of_nat (r + 128) :: u8) AND 0x7f = of_nat r \<and> (of_nat (r + 128) :: u8) AND 0x80 \<noteq> 0) [0..<128]"
  by code_simp

lemma low_seven:
  assumes "r < 128"
  shows "(of_nat r :: u8) AND 0x7f = of_nat r" "(of_nat r :: u8) AND 0x80 = 0"
    "(of_nat (r + 128) :: u8) AND 0x7f = of_nat r" "(of_nat (r + 128) :: u8) AND 0x80 \<noteq> 0"
  using low_seven_all assms by (simp_all add: list_all_iff del: of_nat_add upt_rec_numeral)

lemma ucast_seven: "r < 128 \<Longrightarrow> (ucast (of_nat r :: u8) :: u64) = of_nat r"
proof -
  assume "r < 128"
  then have "unat (of_nat r :: u8) = r" by (simp add: unat_of_nat take_bit_nat_eq_self)
  then show ?thesis by (metis of_nat_unat)
qed

lemma split_seven: "(of_nat n :: u64) = of_nat (n mod 128) OR push_bit 7 (of_nat (n div 128))"
proof -
  have "n = take_bit 7 n OR push_bit 7 (drop_bit 7 n)"
    by (rule bit_eqI) (simp add: bit_simps, metis le_add_diff_inverse not_less)
  then have "(of_nat n :: u64) = of_nat (take_bit 7 n OR push_bit 7 (drop_bit 7 n))" by metis
  then show ?thesis by (simp add: of_nat_or_eq of_nat_push_bit take_bit_eq_mod drop_bit_eq_div)
qed

text \<open>Every number of 64 bits is read back, and what follows it is left.\<close>

lemma uleb_from_ok:
  "shift < 64 \<Longrightarrow> n < 2 ^ (64 - shift) \<Longrightarrow> uleb_from shift acc (uleb n @ rest) = ret (acc OR push_bit shift (of_nat n), rest)"
proof (induction n arbitrary: shift acc rule: uleb.induct)
  case (1 n)
  show ?case
  proof (cases "n < 128")
    case True
    then show ?thesis using "1.prems" by (simp add: uleb.simps [of n] low_seven ucast_seven Let_def)
  next
    case False
    have r: "n mod 128 < 128" by simp
    have s: "shift + 7 < 64"
    proof (rule ccontr)
      assume "\<not> shift + 7 < 64"
      then have "(2 :: nat) ^ (64 - shift) \<le> 2 ^ 7" by (intro power_increasing) simp_all
      with False "1.prems"(2) show False by simp
    qed
    have "(2 :: nat) ^ (64 - shift) = 2 ^ (64 - (shift + 7)) * 128"
    proof -
      have "64 - shift = 64 - (shift + 7) + 7" using s by simp
      then show ?thesis by (simp only: power_add) simp
    qed
    then have "n div 128 < 2 ^ (64 - (shift + 7))" using "1.prems"(2) by (simp add: less_mult_imp_div_less)
    note ih = "1.IH" [OF False s this]
    have "acc OR push_bit shift (of_nat (n mod 128)) OR push_bit (shift + 7) (of_nat (n div 128)) = acc OR push_bit shift (of_nat n :: u64)"
      unfolding split_seven [of n] by (simp add: push_bit_or push_bit_push_bit or.assoc add.commute)
    then show ?thesis using "1.prems"(1) False low_seven(3,4) [OF r] ucast_seven [OF r] ih
      by (simp add: uleb.simps [of n] Let_def or.assoc del: of_nat_add)
  qed
qed

lemma decode_uleb_ok: "decode_uleb128 (uleb (unat w) @ rest) = ret (w, rest)"
proof -
  have "unat w < 2 ^ (64 - 0)" using unsigned_less [of w] by simp
  from uleb_from_ok [OF _ this, of 0 rest] show ?thesis by (simp add: decode_uleb128_def)
qed

section \<open>Bindings\<close>

text \<open>The symbol in the first library that has it with a value.\<close>

definition symbol_values :: "bytes \<Rightarrow> macho_context \<Rightarrow> u64 list" where
  "symbol_values name lib = [n_value + mc_slide lib. (s, n_value) \<leftarrow> dm_symbols (mc_macho lib), s = name \<and> n_value \<noteq> 0]"

definition resolve :: "macho_context list \<Rightarrow> bytes \<Rightarrow> u64 option" where
  "resolve libs name = (case concat (map (symbol_values name) libs) of [] \<Rightarrow> None | a # _ \<Rightarrow> Some a)"

definition libs_fit :: "macho_context list \<Rightarrow> bool" where
  "libs_fit libs \<longleftrightarrow> (\<forall>lib \<in> set libs. \<forall>(s, n_value) \<in> set (dm_symbols (mc_macho lib)). unat n_value + unat (mc_slide lib) < 2 ^ 64)"

definition put_word :: "u64 \<Rightarrow> u64 option \<Rightarrow> memory \<Rightarrow> memory" where
  "put_word addr w m = (case w of Some a \<Rightarrow> poke addr (to_le a) m | None \<Rightarrow> m)"

lemma symbol_in_ok:
  "\<forall>(s, n_value) \<in> set syms. unat n_value + unat slide < 2 ^ 64 \<Longrightarrow>
   symbol_in name slide syms = ret (case [n_value + slide. (s, n_value) \<leftarrow> syms, s = name \<and> n_value \<noteq> 0] of [] \<Rightarrow> None | a # _ \<Rightarrow> Some a)"
  by (induction syms) (auto simp: plus64_def)

lemma bind_at_ok:
  "libs_fit libs \<Longrightarrow> bind_at addr name libs m = (Ok (), put_word addr (resolve libs name) m)"
proof (induction libs)
  case Nil
  then show ?case by (simp add: put_word_def resolve_def ret_run)
next
  case (Cons lib libs)
  have "\<forall>(s, n_value) \<in> set (dm_symbols (mc_macho lib)). unat n_value + unat (mc_slide lib) < 2 ^ 64"
    using Cons.prems by (simp add: libs_fit_def)
  note sy = symbol_in_ok [OF this, of name, folded symbol_values_def]
  have "libs_fit libs" using Cons.prems by (simp add: libs_fit_def)
  note ih = Cons.IH [OF this]
  show ?case
  proof (cases "symbol_values name lib")
    case Nil
    then have "resolve (lib # libs) name = resolve libs name" by (simp add: resolve_def)
    then show ?thesis using ih by (simp add: find_symbol_def sy Nil)
  next
    case (Cons a as)
    then have "resolve (lib # libs) name = Some a" by (simp add: resolve_def)
    then show ?thesis by (simp add: find_symbol_def sy Cons put_word_def)
  qed
qed

section \<open>Programs of bindings\<close>

text \<open>
  A binding: one slot, or several at equal distances, of a segment get the address of a symbol. Its program has an opcode for
  the name, one for the segment and one that binds; between them may be the opcodes that name the library and the type.
  The numbers are those of the Mach-O format, as a static linker writes them.
\<close>

record binding =
  bn_library :: bytes
  bn_name :: bytes
  bn_type :: bytes
  bn_seg :: nat
  bn_off :: u64
  bn_count :: nat
  bn_skip :: u64

text \<open>\<open>SET_DYLIB_ORDINAL_IMM\<close>, \<open>SET_DYLIB_SPECIAL_IMM\<close> and \<open>SET_TYPE_IMM\<close>.\<close>

definition hint :: "u8 \<Rightarrow> bool" where
  "hint x \<longleftrightarrow> x AND 0xf0 \<in> {0x10, 0x30, 0x50}"

definition bind_code :: "binding \<Rightarrow> bytes" where
  "bind_code b = bn_library b @ 0x40 # bn_name b @ 0 # bn_type b @ (0x70 + of_nat (bn_seg b)) # uleb (unat (bn_off b)) @
     (if bn_count b = 1 \<and> bn_skip b = 0 then [0x90] else 0xC0 # uleb (bn_count b) @ uleb (unat (bn_skip b)))"

definition bind_slots :: "macho_context \<Rightarrow> binding \<Rightarrow> u64 list" where
  "bind_slots c b = map (\<lambda>k. dm_segments (mc_macho c) ! bn_seg b + mc_slide c + (bn_off b + of_nat k * (bn_skip b + 8))) [0..<bn_count b]"

definition binding_ok :: "macho_context \<Rightarrow> binding \<Rightarrow> bool" where
  "binding_ok c b \<longleftrightarrow> list_all hint (bn_library b @ bn_type b) \<and> bn_seg b < 16 \<and> bn_seg b < length (dm_segments (mc_macho c)) \<and> 0 \<notin> set (bn_name b) \<and> bn_count b < 2 ^ 64 \<and>
     unat (bn_skip b) + 8 < 2 ^ 64 \<and>
     unat (dm_segments (mc_macho c) ! bn_seg b) + unat (mc_slide c) + unat (bn_off b) + bn_count b * (unat (bn_skip b) + 8) < 2 ^ 64"

definition bind_word :: "macho_context \<Rightarrow> macho_context list \<Rightarrow> binding \<Rightarrow> memory \<Rightarrow> memory" where
  "bind_word c libs b = fold (\<lambda>a. put_word a (resolve libs (bn_name b))) (bind_slots c b)"

lemma plus64_ok: "unat a + unat b < 2 ^ 64 \<Longrightarrow> plus64 a b = ret (a + b)"
  by (simp add: plus64_def)

lemma unat_sum: "unat (a :: u64) + unat b < 2 ^ 64 \<Longrightarrow> unat (a + b) = unat a + unat b"
  by (simp add: unat_word_ariths)

text \<open>A condition on every step of a fold.\<close>

fun all_along :: "('a \<Rightarrow> 's \<Rightarrow> bool) \<Rightarrow> ('a \<Rightarrow> 's \<Rightarrow> 's) \<Rightarrow> 'a list \<Rightarrow> 's \<Rightarrow> bool" where
  "all_along P g [] m \<longleftrightarrow> True"
| "all_along P g (a # as) m \<longleftrightarrow> P a m \<and> all_along P g as (g a m)"

lemma all_along_True [simp]: "all_along (\<lambda>_ _. True) g as m"
  by (induction as arbitrary: m) auto

lemma all_along_append [simp]: "all_along P g (as @ bs) m \<longleftrightarrow> all_along P g as m \<and> all_along P g bs (fold g as m)"
  by (induction as arbitrary: m) auto

lemma slots_ok:
  assumes f: "\<And>addr m. P addr m \<Longrightarrow> f addr m = (Ok (), g addr m)"
  shows "unat (rl_segment st) + unat (rl_seg_offset st) + n * (unat a + unat b) < 2 ^ 64 \<Longrightarrow> 0 < unat b \<Longrightarrow>
    unat a + unat b < 2 ^ 64 \<Longrightarrow>
    all_along P g (map (\<lambda>k. rl_segment st + (rl_seg_offset st + of_nat k * (a + b))) [0..<n]) m \<Longrightarrow>
    slots f a b n st m = (Ok (st\<lparr>rl_seg_offset := rl_seg_offset st + of_nat n * (a + b)\<rparr>),
      fold g (map (\<lambda>k. rl_segment st + (rl_seg_offset st + of_nat k * (a + b))) [0..<n]) m)"
proof (induction n arbitrary: st m)
  case 0
  then show ?case by (simp add: ret_run)
next
  case (Suc n)
  let ?st = "st\<lparr>rl_seg_offset := rl_seg_offset st + (a + b)\<rparr>" and ?a = "rl_segment st + rl_seg_offset st"
  have u: "unat (a + b) = unat a + unat b" using Suc.prems(3) by (rule unat_sum)
  have k: "unat (rl_segment st) + unat (rl_seg_offset st) < 2 ^ 64" "unat (rl_seg_offset st) + unat (a + b) < 2 ^ 64"
    using Suc.prems(1) by (simp_all add: u)
  note o = unat_sum [OF k(2)]
  have l: "map (\<lambda>k. rl_segment st + (rl_seg_offset st + of_nat k * (a + b))) [0..<Suc n] =
      ?a # map (\<lambda>k. rl_segment st + (rl_seg_offset ?st + of_nat k * (a + b))) [0..<n]"
    unfolding upt_conv_Cons [OF zero_less_Suc] map_Suc_upt [symmetric] by (simp add: algebra_simps)
  have P: "P ?a m" "all_along P g (map (\<lambda>k. rl_segment st + (rl_seg_offset ?st + of_nat k * (a + b))) [0..<n]) (g ?a m)"
    using Suc.prems(4) unfolding l by simp_all
  have "unat (rl_segment ?st) + unat (rl_seg_offset ?st) + n * (unat a + unat b) < 2 ^ 64"
    using Suc.prems(1) by (simp add: o u)
  from Suc.IH [OF this Suc.prems(2,3)] P(2) have ih: "slots f a b n ?st (g ?a m) =
      (Ok (?st\<lparr>rl_seg_offset := rl_seg_offset ?st + of_nat n * (a + b)\<rparr>),
       fold g (map (\<lambda>k. rl_segment st + (rl_seg_offset ?st + of_nat k * (a + b))) [0..<n]) (g ?a m))" by simp
  have fm: "bnd (f ?a) h m = h () (g ?a m)" for h by (simp add: bnd_Ok [where m = "f ?a", OF f [OF P(1)]])
  have "slots f a b (Suc n) st m = slots f a b n ?st (g ?a m)"
    using Suc.prems(3) k by (simp add: plus64_ok fm advance_by_def)
  then show ?case using ih unfolding l by (simp add: algebra_simps)
qed

lemma bind_bytes_all:
  "list_all (\<lambda>r. ((0x70 + of_nat r :: u8) AND 0xf0 = 0x70) \<and> unat ((0x70 + of_nat r :: u8) AND 0x0f) = r) [0..<16]"
  by code_simp

lemma bind_bytes:
  "r < 16 \<Longrightarrow> (0x70 + of_nat r :: u8) AND 0xf0 = 0x70" "r < 16 \<Longrightarrow> unat ((0x70 + of_nat r :: u8) AND 0x0f) = r"
  using bind_bytes_all by (simp_all add: list_all_iff del: upt_rec_numeral)

lemma next_uleb_ok: "rl_rest st = uleb (unat w) @ rest \<Longrightarrow> next_uleb st = ret (w, st\<lparr>rl_rest := rest\<rparr>)"
  by (simp add: next_uleb_def decode_uleb_ok)

text \<open>The three opcodes of a binding.\<close>

lemma name_of: "0 \<notin> set name \<Longrightarrow> takeWhile (\<lambda>b. b \<noteq> 0) (name @ 0 # rest) = name \<and> dropWhile (\<lambda>b. b \<noteq> 0) (name @ 0 # rest) = 0 # rest"
  by (induction name) auto

lemma name_op:
  "0 \<notin> set name \<Longrightarrow> rl_rest st = name @ 0 # rest \<Longrightarrow>
   bind_op c libs 0x40 st = ret (Some (st\<lparr>rl_symbol := name, rl_rest := rest\<rparr>))"
  by (simp add: bind_op_def Let_def name_of)

lemma segment_op:
  assumes "r < 16" and "r < length (dm_segments (mc_macho c))" and "rl_rest st = uleb (unat off) @ rest"
    and "unat (dm_segments (mc_macho c) ! r) + unat (mc_slide c) < 2 ^ 64"
  shows "bind_op c libs (0x70 + of_nat r) st =
    ret (Some (st\<lparr>rl_rest := rest, rl_seg_offset := off, rl_segment := dm_segments (mc_macho c) ! r + mc_slide c\<rparr>))"
  using assms(2,4) by (simp add: bind_op_def Let_def bind_bytes [OF assms(1)] set_segment_def next_uleb_ok [OF assms(3)] plus64_ok)

lemma bind_one_op:
  assumes "libs_fit libs" and "unat (rl_segment st) + unat (rl_seg_offset st) + 8 < 2 ^ 64"
  shows "bind_op c libs 0x90 st m = (Ok (Some (st\<lparr>rl_seg_offset := rl_seg_offset st + 8\<rparr>)),
    put_word (rl_segment st + rl_seg_offset st) (resolve libs (rl_symbol st)) m)"
  using assms(2)
  by (simp add: bind_op_def Let_def bind_here_def plus64_ok advance_by_def ret_run
      bnd_Ok [where m = "bind_at _ _ libs", OF bind_at_ok [OF assms(1)]])

lemma bind_times_op:
  assumes "libs_fit libs" and "n < 2 ^ 64" and "rl_rest st = uleb n @ uleb (unat skip) @ rest" and "unat skip + 8 < 2 ^ 64"
    and "unat (rl_segment st) + unat (rl_seg_offset st) + n * (unat skip + 8) < 2 ^ 64"
  shows "bind_op c libs 0xC0 st m = (Ok (Some (st\<lparr>rl_rest := rest, rl_seg_offset := rl_seg_offset st + of_nat n * (skip + 8)\<rparr>)),
    fold (\<lambda>a. put_word a (resolve libs (rl_symbol st)))
      (map (\<lambda>k. rl_segment st + (rl_seg_offset st + of_nat k * (skip + 8))) [0..<n]) m)"
proof -
  have u: "unat (of_nat n :: u64) = n" using assms(2) by (simp add: unat_of_nat take_bit_nat_eq_self)
  have "rl_rest st = uleb (unat (of_nat n :: u64)) @ uleb (unat skip) @ rest" using assms(3) u by simp
  note n1 = next_uleb_ok [OF this]
  note n2 = next_uleb_ok [where st = "st\<lparr>rl_rest := uleb (unat skip) @ rest\<rparr>" and w = skip and rest = rest, simplified]
  have f: "(\<lambda>addr. bind_at addr (rl_symbol st) libs) addr m = (Ok (), put_word addr (resolve libs (rl_symbol st)) m)" for addr m
    using bind_at_ok [OF assms(1)] by simp
  have s: "slots (\<lambda>addr. bind_at addr (rl_symbol st) libs) skip 8 n (st\<lparr>rl_rest := rest\<rparr>) m =
      (Ok (st\<lparr>rl_rest := rest, rl_seg_offset := rl_seg_offset st + of_nat n * (skip + 8)\<rparr>),
       fold (\<lambda>a. put_word a (resolve libs (rl_symbol st)))
         (map (\<lambda>k. rl_segment st + (rl_seg_offset st + of_nat k * (skip + 8))) [0..<n]) m)"
    using slots_ok [where P = "\<lambda>_ _. True", OF f, where st = "st\<lparr>rl_rest := rest\<rparr>" and a = skip and b = 8 and n = n and m = m] assms(4,5) by simp
  show ?thesis
    by (simp add: bind_op_def Let_def n1 n2 u bnd_Ok [where m = "slots _ _ _ _ _", OF s] ret_run)
qed

section \<open>Programs of rebasings\<close>

text \<open>
  Several words in a row of a segment move by the slide. In the numbering of \<open>perform_rebase\<close> the opcode \<open>0x70\<close> slides a counted run;
  it is not the one of the Mach-O format, which has \<open>0x50\<close> and \<open>0x60\<close> for that.
\<close>

record rebasing =
  rb_seg :: nat
  rb_off :: u64
  rb_count :: nat

definition rebase_code :: "rebasing \<Rightarrow> bytes" where
  "rebase_code r = (0x20 + of_nat (rb_seg r)) # uleb (unat (rb_off r)) @ 0x70 # uleb (rb_count r)"

text \<open>The program of one short run as the format has it: \<open>SET_TYPE_IMM\<close>, \<open>SET_SEGMENT_AND_OFFSET_ULEB\<close>, \<open>DO_REBASE_IMM_TIMES\<close>.\<close>

definition macho_rebase_code :: "rebasing \<Rightarrow> bytes" where
  "macho_rebase_code r = 0x11 # (0x20 + of_nat (rb_seg r)) # uleb (unat (rb_off r)) @ [0x50 + of_nat (rb_count r)]"

definition rebase_slots :: "macho_context \<Rightarrow> rebasing \<Rightarrow> u64 list" where
  "rebase_slots c r = map (\<lambda>k. dm_segments (mc_macho c) ! rb_seg r + mc_slide c + (rb_off r + of_nat k * 8)) [0..<rb_count r]"

definition rebasing_ok :: "macho_context \<Rightarrow> rebasing \<Rightarrow> bool" where
  "rebasing_ok c r \<longleftrightarrow> rb_seg r < 16 \<and> rb_seg r < length (dm_segments (mc_macho c)) \<and> rb_count r < 2 ^ 64 \<and>
     unat (dm_segments (mc_macho c) ! rb_seg r) + unat (mc_slide c) + unat (rb_off r) + rb_count r * 8 < 2 ^ 64"

definition slide_word :: "u64 \<Rightarrow> u64 \<Rightarrow> memory \<Rightarrow> memory" where
  "slide_word slide addr m = poke addr (to_le (from_le (peek addr 8 m) + slide :: u64)) m"

definition slide_fits :: "u64 \<Rightarrow> u64 \<Rightarrow> memory \<Rightarrow> bool" where
  "slide_fits slide addr m \<longleftrightarrow> unat (from_le (peek addr 8 m) :: u64) + unat slide < 2 ^ 64"

lemma rebase_at_ok: "slide_fits slide addr m \<Longrightarrow> rebase_at slide addr m = (Ok (), slide_word slide addr m)"
  by (simp add: rebase_at_def slide_fits_def slide_word_def plus64_ok)

lemma rebase_bytes_all:
  "list_all (\<lambda>r. ((0x20 + of_nat r :: u8) AND 0xf0 = 0x20) \<and> unat ((0x20 + of_nat r :: u8) AND 0x0f) = r) [0..<16]"
  by code_simp

lemma rebase_bytes:
  "r < 16 \<Longrightarrow> (0x20 + of_nat r :: u8) AND 0xf0 = 0x20" "r < 16 \<Longrightarrow> unat ((0x20 + of_nat r :: u8) AND 0x0f) = r"
  using rebase_bytes_all by (simp_all add: list_all_iff del: upt_rec_numeral)

lemma rebase_segment_op:
  assumes "r < 16" and "r < length (dm_segments (mc_macho c))" and "rl_rest st = uleb (unat off) @ rest"
    and "unat (dm_segments (mc_macho c) ! r) + unat (mc_slide c) < 2 ^ 64"
  shows "rebase_op c (0x20 + of_nat r) st =
    ret (Some (st\<lparr>rl_rest := rest, rl_seg_offset := off, rl_segment := dm_segments (mc_macho c) ! r + mc_slide c\<rparr>))"
  using assms(2,4) by (simp add: rebase_op_def Let_def rebase_bytes [OF assms(1)] set_segment_def next_uleb_ok [OF assms(3)] plus64_ok)

lemma rebase_times_op:
  assumes "n < 2 ^ 64" and "rl_rest st = uleb n @ rest" and "unat (rl_segment st) + unat (rl_seg_offset st) + n * 8 < 2 ^ 64"
    and "all_along (slide_fits (mc_slide c)) (slide_word (mc_slide c))
      (map (\<lambda>k. rl_segment st + (rl_seg_offset st + of_nat k * 8)) [0..<n]) m"
  shows "rebase_op c 0x70 st m = (Ok (Some (st\<lparr>rl_rest := rest, rl_seg_offset := rl_seg_offset st + of_nat n * 8\<rparr>)),
    fold (slide_word (mc_slide c)) (map (\<lambda>k. rl_segment st + (rl_seg_offset st + of_nat k * 8)) [0..<n]) m)"
proof -
  have u: "unat (of_nat n :: u64) = n" using assms(1) by (simp add: unat_of_nat take_bit_nat_eq_self)
  have "rl_rest st = uleb (unat (of_nat n :: u64)) @ rest" using assms(2) u by simp
  note n1 = next_uleb_ok [OF this]
  have s: "slots (rebase_at (mc_slide c)) 0 8 n (st\<lparr>rl_rest := rest\<rparr>) m =
      (Ok (st\<lparr>rl_rest := rest, rl_seg_offset := rl_seg_offset st + of_nat n * 8\<rparr>),
       fold (slide_word (mc_slide c)) (map (\<lambda>k. rl_segment st + (rl_seg_offset st + of_nat k * 8)) [0..<n]) m)"
    using slots_ok [where P = "slide_fits (mc_slide c)" and f = "rebase_at (mc_slide c)" and g = "slide_word (mc_slide c)" and
        st = "st\<lparr>rl_rest := rest\<rparr>" and a = 0 and b = 8 and n = n and m = m, OF rebase_at_ok] assms(3,4) by simp
  show ?thesis
    by (simp add: rebase_op_def Let_def n1 u bnd_Ok [where m = "slots _ _ _ _ _", OF s] ret_run)
qed

section \<open>A whole program\<close>

text \<open>Fuel beyond the length of the data is not used.\<close>

lemma run_ops_Cons:
  "rl_rest st = byte # rest \<Longrightarrow> f byte (st\<lparr>rl_rest := rest\<rparr>) m = (Ok (Some st'), m') \<Longrightarrow> run_ops f (Suc n) st m = run_ops f n st' m'"
  by (simp add: bnd_Ok [where m = "f _ _"])

lemma hints_run:
  "list_all hint hs \<Longrightarrow> rl_rest st = hs @ rest \<Longrightarrow>
   \<exists>i. run_ops (bind_op c libs) (length hs + n) st m = run_ops (bind_op c libs) n (st\<lparr>rl_rest := rest, rl_ordinal := i\<rparr>) m"
proof (induction hs arbitrary: st)
  case Nil
  then have "st\<lparr>rl_rest := rest, rl_ordinal := rl_ordinal st\<rparr> = st" by simp
  then show ?case by (metis add_0 list.size(3))
next
  case (Cons x hs)
  define i where "i = (if x AND 0xf0 = 0x10 then ucast (x AND 0x0f) else rl_ordinal st)"
  have "x AND 0xf0 = 0x10 \<or> x AND 0xf0 = 0x30 \<or> x AND 0xf0 = 0x50" using Cons.prems(1) by (simp add: hint_def)
  then have "bind_op c libs x (st\<lparr>rl_rest := hs @ rest\<rparr>) = ret (Some (st\<lparr>rl_rest := hs @ rest, rl_ordinal := i\<rparr>))"
    by (elim disjE) (simp_all add: bind_op_def Let_def i_def)
  then have "bind_op c libs x (st\<lparr>rl_rest := hs @ rest\<rparr>) m = (Ok (Some (st\<lparr>rl_rest := hs @ rest, rl_ordinal := i\<rparr>)), m)"
    by (simp add: ret_run)
  from run_ops_Cons [where f = "bind_op c libs" and n = "length hs + n", OF _ this] Cons.prems(2)
  have "run_ops (bind_op c libs) (length (x # hs) + n) st m =
      run_ops (bind_op c libs) (length hs + n) (st\<lparr>rl_rest := hs @ rest, rl_ordinal := i\<rparr>) m" by simp
  moreover from Cons.IH [of "st\<lparr>rl_rest := hs @ rest, rl_ordinal := i\<rparr>"] Cons.prems(1)
  obtain j where "run_ops (bind_op c libs) (length hs + n) (st\<lparr>rl_rest := hs @ rest, rl_ordinal := i\<rparr>) m =
      run_ops (bind_op c libs) n (st\<lparr>rl_rest := rest, rl_ordinal := j\<rparr>) m" by auto
  ultimately show ?case by auto
qed

definition bind_ops :: "binding \<Rightarrow> nat" where
  "bind_ops b = length (bn_library b) + (1 + (length (bn_type b) + 2))"

lemma bind_code_length: "bind_ops b \<le> length (bind_code b)"
  by (simp add: bind_code_def bind_ops_def)

text \<open>The last opcode of a binding.\<close>

lemma bind_tail_runs:
  assumes l: "libs_fit libs" and b: "binding_ok c b"
    and seg: "rl_segment st = dm_segments (mc_macho c) ! bn_seg b + mc_slide c" "rl_seg_offset st = bn_off b" "rl_symbol st = bn_name b"
    and r: "rl_rest st = (if bn_count b = 1 \<and> bn_skip b = 0 then [0x90] else 0xC0 # uleb (bn_count b) @ uleb (unat (bn_skip b))) @ rest"
  shows "\<exists>st'. run_ops (bind_op c libs) (Suc n) st m = run_ops (bind_op c libs) n st' (bind_word c libs b m) \<and> rl_rest st' = rest"
proof -
  let ?seg = "dm_segments (mc_macho c) ! bn_seg b"
  have k: "bn_count b < 2 ^ 64" "unat (bn_skip b) + 8 < 2 ^ 64"
    "unat ?seg + unat (mc_slide c) + unat (bn_off b) + bn_count b * (unat (bn_skip b) + 8) < 2 ^ 64"
    using b by (simp_all add: binding_ok_def)
  have "unat ?seg + unat (mc_slide c) < 2 ^ 64" using k(3) by linarith
  note us = unat_sum [OF this]
  show ?thesis
  proof (cases "bn_count b = 1 \<and> bn_skip b = 0")
    case True
    have "unat (rl_segment st) + unat (rl_seg_offset st) + 8 < 2 ^ 64" using k(3) True by (simp add: seg us)
    then have o: "bind_op c libs 0x90 (st\<lparr>rl_rest := rest\<rparr>) m = (Ok (Some (st\<lparr>rl_rest := rest, rl_seg_offset := rl_seg_offset st + 8\<rparr>)),
        put_word (rl_segment st + rl_seg_offset st) (resolve libs (rl_symbol st)) m)"
      using bind_one_op [OF l, where st = "st\<lparr>rl_rest := rest\<rparr>" and c = c and m = m] by simp
    have "rl_rest st = 0x90 # rest" using True r by simp
    note 1 = run_ops_Cons [where f = "bind_op c libs", OF this o]
    show ?thesis unfolding 1 using True by (intro exI) (auto simp: seg bind_word_def bind_slots_def)
  next
    case False
    then have r1: "rl_rest st = 0xC0 # uleb (bn_count b) @ uleb (unat (bn_skip b)) @ rest" using r by simp
    let ?s = "st\<lparr>rl_rest := uleb (bn_count b) @ uleb (unat (bn_skip b)) @ rest\<rparr>"
    have rs: "rl_rest ?s = uleb (bn_count b) @ uleb (unat (bn_skip b)) @ rest" by simp
    have "unat (rl_segment ?s) + unat (rl_seg_offset ?s) + bn_count b * (unat (bn_skip b) + 8) < 2 ^ 64" using k(3) by (simp add: seg us)
    note o = bind_times_op [OF l k(1) rs k(2) this, of c m]
    note 1 = run_ops_Cons [where f = "bind_op c libs", OF r1 o]
    show ?thesis unfolding 1 by (intro exI) (auto simp: seg bind_word_def bind_slots_def)
  qed
qed

lemma binding_runs:
  assumes l: "libs_fit libs" and b: "binding_ok c b" and r: "rl_rest st = bind_code b @ rest"
  shows "\<exists>st'. run_ops (bind_op c libs) (bind_ops b + n) st m = run_ops (bind_op c libs) n st' (bind_word c libs b m) \<and> rl_rest st' = rest"
proof -
  let ?seg = "dm_segments (mc_macho c) ! bn_seg b"
  have k: "list_all hint (bn_library b)" "list_all hint (bn_type b)" "bn_seg b < 16" "bn_seg b < length (dm_segments (mc_macho c))"
    "0 \<notin> set (bn_name b)" "unat ?seg + unat (mc_slide c) + unat (bn_off b) + bn_count b * (unat (bn_skip b) + 8) < 2 ^ 64"
    using b by (simp_all add: binding_ok_def)
  have s: "unat ?seg + unat (mc_slide c) < 2 ^ 64" using k(6) by linarith
  define tail where "tail = (if bn_count b = 1 \<and> bn_skip b = 0 then [0x90] else 0xC0 # uleb (bn_count b) @ uleb (unat (bn_skip b))) @ rest"
  define seg where "seg = (0x70 + of_nat (bn_seg b)) # uleb (unat (bn_off b)) @ tail"
  have r0: "rl_rest st = bn_library b @ 0x40 # bn_name b @ 0 # bn_type b @ seg" by (simp add: r bind_code_def seg_def tail_def)
  from hints_run [OF k(1) r0, of c libs "1 + (length (bn_type b) + (2 + n))" m] obtain i where
    1: "run_ops (bind_op c libs) (bind_ops b + n) st m = run_ops (bind_op c libs) (Suc (length (bn_type b) + (2 + n)))
      (st\<lparr>rl_rest := 0x40 # bn_name b @ 0 # bn_type b @ seg, rl_ordinal := i\<rparr>) m" by (auto simp: bind_ops_def add.assoc)
  let ?s1 = "st\<lparr>rl_rest := 0x40 # bn_name b @ 0 # bn_type b @ seg, rl_ordinal := i\<rparr>"
  define s2 where "s2 = ?s1\<lparr>rl_symbol := bn_name b, rl_rest := bn_type b @ seg\<rparr>"
  have r1: "rl_rest ?s1 = 0x40 # bn_name b @ 0 # bn_type b @ seg" by simp
  have 2: "run_ops (bind_op c libs) (Suc (length (bn_type b) + (2 + n))) ?s1 m = run_ops (bind_op c libs) (length (bn_type b) + (2 + n)) s2 m"
    by (rule run_ops_Cons [OF r1]) (simp add: name_op [OF k(5)] s2_def ret_run)
  have r2: "rl_rest s2 = bn_type b @ seg" by (simp add: s2_def)
  from hints_run [OF k(2) r2, of c libs "2 + n" m] obtain j where
    3: "run_ops (bind_op c libs) (length (bn_type b) + (2 + n)) s2 m = run_ops (bind_op c libs) (Suc (Suc n)) (s2\<lparr>rl_rest := seg, rl_ordinal := j\<rparr>) m"
    by auto
  let ?s3 = "s2\<lparr>rl_rest := seg, rl_ordinal := j\<rparr>"
  define s4 where "s4 = ?s3\<lparr>rl_rest := tail, rl_seg_offset := bn_off b, rl_segment := ?seg + mc_slide c\<rparr>"
  have r3: "rl_rest ?s3 = (0x70 + of_nat (bn_seg b)) # uleb (unat (bn_off b)) @ tail" by (simp add: seg_def)
  have 4: "run_ops (bind_op c libs) (Suc (Suc n)) ?s3 m = run_ops (bind_op c libs) (Suc n) s4 m"
    by (rule run_ops_Cons [OF r3]) (simp add: segment_op [OF k(3,4) _ s, where off = "bn_off b" and rest = tail] s4_def ret_run)
  show ?thesis unfolding 1 2 3 4 by (rule bind_tail_runs [OF l b]) (simp_all add: s4_def s2_def tail_def)
qed

lemma bindings_run:
  assumes "libs_fit libs"
  shows "\<forall>b \<in> set bs. binding_ok c b \<Longrightarrow> rl_rest st = concat (map bind_code bs) @ rest \<Longrightarrow> length (rl_rest st) \<le> n \<Longrightarrow>
    \<exists>st' n'. run_ops (bind_op c libs) n st m = run_ops (bind_op c libs) n' st' (fold (bind_word c libs) bs m) \<and>
      rl_rest st' = rest \<and> length rest \<le> n'"
proof (induction bs arbitrary: st n m)
  case Nil
  then show ?case by auto
next
  case (Cons b bs)
  let ?rest = "concat (map bind_code bs) @ rest"
  have r: "rl_rest st = bind_code b @ ?rest" using Cons.prems(2) by simp
  have "length (bind_code b) + length ?rest \<le> n" using Cons.prems(3) r by simp
  then have n: "n = bind_ops b + (n - bind_ops b)" "length ?rest \<le> n - bind_ops b" using bind_code_length [of b] by simp_all
  from Cons.prems(1) have "binding_ok c b" by simp
  from binding_runs [OF assms this r, of "n - bind_ops b" m] obtain st' where
    s: "run_ops (bind_op c libs) n st m = run_ops (bind_op c libs) (n - bind_ops b) st' (bind_word c libs b m)" "rl_rest st' = ?rest"
    using n(1) by metis
  have "length (rl_rest st') \<le> n - bind_ops b" using s(2) n(2) by simp
  from Cons.IH [OF _ s(2) this] Cons.prems(1) s(1) show ?case by simp
qed

lemma bindings_done:
  assumes "libs_fit libs" "\<forall>b \<in> set bs. binding_ok c b"
  shows "perform_bind c libs (concat (map bind_code bs) @ 0 # rest) m = (Ok (), fold (bind_word c libs) bs m)"
proof -
  let ?data = "concat (map bind_code bs) @ 0 # rest"
  from bindings_run [OF assms, where st = "reloc_start ?data" and rest = "0 # rest" and n = "length ?data" and m = m]
  obtain st' n' where s: "run_ops (bind_op c libs) (length ?data) (reloc_start ?data) m =
      run_ops (bind_op c libs) n' st' (fold (bind_word c libs) bs m)" "rl_rest st' = 0 # rest" "length (0 # rest) \<le> n'"
    by (auto simp: reloc_start_def)
  from s(3) obtain k where "n' = Suc k" by (cases n') simp_all
  with s show ?thesis by (simp add: perform_bind_def bind_op_def ret_run del: run_ops.simps(1))
qed

text \<open>The same for a program of rebasings.\<close>

lemma rebasing_runs:
  assumes b: "rebasing_ok c b" and r: "rl_rest st = rebase_code b @ rest"
    and w: "all_along (slide_fits (mc_slide c)) (slide_word (mc_slide c)) (rebase_slots c b) m"
  shows "\<exists>st'. run_ops (rebase_op c) (Suc (Suc n)) st m = run_ops (rebase_op c) n st' (fold (slide_word (mc_slide c)) (rebase_slots c b) m) \<and>
    rl_rest st' = rest"
proof -
  let ?seg = "dm_segments (mc_macho c) ! rb_seg b"
  have k: "rb_seg b < 16" "rb_seg b < length (dm_segments (mc_macho c))" "rb_count b < 2 ^ 64"
    "unat ?seg + unat (mc_slide c) + unat (rb_off b) + rb_count b * 8 < 2 ^ 64"
    using b by (simp_all add: rebasing_ok_def)
  have s: "unat ?seg + unat (mc_slide c) < 2 ^ 64" using k(4) by linarith
  note us = unat_sum [OF s]
  have r1: "rl_rest st = (0x20 + of_nat (rb_seg b)) # uleb (unat (rb_off b)) @ 0x70 # uleb (rb_count b) @ rest"
    using r by (simp add: rebase_code_def)
  define s2 where "s2 = st\<lparr>rl_rest := 0x70 # uleb (rb_count b) @ rest, rl_seg_offset := rb_off b, rl_segment := ?seg + mc_slide c\<rparr>"
  have 1: "run_ops (rebase_op c) (Suc (Suc n)) st m = run_ops (rebase_op c) (Suc n) s2 m"
    by (rule run_ops_Cons [OF r1])
      (simp add: rebase_segment_op [OF k(1,2) _ s, where off = "rb_off b" and rest = "0x70 # uleb (rb_count b) @ rest"] s2_def ret_run)
  let ?s = "s2\<lparr>rl_rest := uleb (rb_count b) @ rest\<rparr>"
  have rs: "rl_rest ?s = uleb (rb_count b) @ rest" by simp
  have fit: "unat (rl_segment ?s) + unat (rl_seg_offset ?s) + rb_count b * 8 < 2 ^ 64" using k(4) by (simp add: s2_def us)
  have slots: "map (\<lambda>k. rl_segment ?s + (rl_seg_offset ?s + of_nat k * 8)) [0..<rb_count b] = rebase_slots c b"
    by (simp add: rebase_slots_def s2_def)
  note o = rebase_times_op [OF k(3) rs fit, of c m, unfolded slots, OF w]
  have "rl_rest s2 = 0x70 # uleb (rb_count b) @ rest" by (simp add: s2_def)
  note 2 = run_ops_Cons [where f = "rebase_op c", OF this o]
  show ?thesis unfolding 1 2 by (intro exI) (auto simp: s2_def)
qed

lemma rebase_code_length: "2 \<le> length (rebase_code b)"
  by (simp add: rebase_code_def)

lemma rebasings_run:
  "\<forall>b \<in> set bs. rebasing_ok c b \<Longrightarrow> rl_rest st = concat (map rebase_code bs) @ rest \<Longrightarrow> length (rl_rest st) \<le> n \<Longrightarrow>
    all_along (slide_fits (mc_slide c)) (slide_word (mc_slide c)) (concat (map (rebase_slots c) bs)) m \<Longrightarrow>
    \<exists>st' n'. run_ops (rebase_op c) n st m =
        run_ops (rebase_op c) n' st' (fold (slide_word (mc_slide c)) (concat (map (rebase_slots c) bs)) m) \<and>
      rl_rest st' = rest \<and> length rest \<le> n'"
proof (induction bs arbitrary: st n m)
  case Nil
  then show ?case by auto
next
  case (Cons b bs)
  let ?rest = "concat (map rebase_code bs) @ rest"
  have r: "rl_rest st = rebase_code b @ ?rest" using Cons.prems(2) by simp
  have "length (rebase_code b) + length ?rest \<le> n" using Cons.prems(3) r by simp
  then have n: "n = Suc (Suc (n - 2))" "length ?rest \<le> n - 2" using rebase_code_length [of b] by simp_all
  from Cons.prems(1) have "rebasing_ok c b" by simp
  from rebasing_runs [OF this r, of m "n - 2"] Cons.prems(4) obtain st' where
    s: "run_ops (rebase_op c) n st m = run_ops (rebase_op c) (n - 2) st' (fold (slide_word (mc_slide c)) (rebase_slots c b) m)"
      "rl_rest st' = ?rest"
    using n(1) by auto
  have "length (rl_rest st') \<le> n - 2" using s(2) n(2) by simp
  from Cons.IH [OF _ s(2) this] Cons.prems(1,4) s(1) show ?case by simp
qed

lemma rebasings_done:
  assumes "\<forall>b \<in> set bs. rebasing_ok c b"
    and "all_along (slide_fits (mc_slide c)) (slide_word (mc_slide c)) (concat (map (rebase_slots c) bs)) m"
  shows "perform_rebase c (concat (map rebase_code bs) @ 0 # rest) m =
    (Ok (), fold (slide_word (mc_slide c)) (concat (map (rebase_slots c) bs)) m)"
proof -
  let ?data = "concat (map rebase_code bs) @ 0 # rest"
  from rebasings_run [OF assms(1) _ _ assms(2), where st = "reloc_start ?data" and rest = "0 # rest" and n = "length ?data"]
  obtain st' n' where s: "run_ops (rebase_op c) (length ?data) (reloc_start ?data) m =
      run_ops (rebase_op c) n' st' (fold (slide_word (mc_slide c)) (concat (map (rebase_slots c) bs)) m)"
      "rl_rest st' = 0 # rest" "length (0 # rest) \<le> n'"
    by (auto simp: reloc_start_def)
  from s(3) obtain k where "n' = Suc k" by (cases n') simp_all
  with s show ?thesis by (simp add: perform_rebase_def rebase_op_def ret_run del: run_ops.simps(1))
qed

text \<open>
  In the encoding of the format \<open>DO_REBASE_IMM_TIMES\<close> is read as an advance of the offset by the number behind it, here the zero that ends the
  program: the program of one run changes nothing, without an error.
\<close>

lemma imm_times_all: "list_all (\<lambda>n. (0x50 + of_nat n :: u8) AND 0xf0 = 0x50) [0..<16]"
  by code_simp

lemma uleb_zero: "uleb (unat (0 :: u64)) = [0]"
  by (simp add: uleb.simps)

lemma standard_rebase_ignored:
  assumes "rebasing_ok c r" and "rb_count r < 16"
  shows "perform_rebase c (macho_rebase_code r @ replicate (Suc k) 0) m = (Ok (), m)"
proof -
  let ?seg = "dm_segments (mc_macho c) ! rb_seg r" and ?data = "macho_rebase_code r @ replicate (Suc k) 0"
  let ?seg_op = "(0x20 + of_nat (rb_seg r)) # uleb (unat (rb_off r)) @ (0x50 + of_nat (rb_count r)) # 0 # replicate k 0"
  let ?run = "run_ops (rebase_op c)"
  have b: "rb_seg r < 16" "rb_seg r < length (dm_segments (mc_macho c))" "unat ?seg + unat (mc_slide c) < 2 ^ 64"
    using assms(1) by (simp_all add: rebasing_ok_def)
  have imm: "(0x50 + of_nat (rb_count r) :: u8) AND 0xf0 = 0x50"
    using imm_times_all assms(2) by (simp add: list_all_iff del: upt_rec_numeral)
  obtain n where n: "length ?data = Suc (Suc (Suc (Suc n)))" by (simp add: macho_rebase_code_def)
  define s1 where "s1 = (reloc_start ?data)\<lparr>rl_rest := ?seg_op\<rparr>"
  define s2 where "s2 = s1\<lparr>rl_rest := (0x50 + of_nat (rb_count r)) # 0 # replicate k 0, rl_seg_offset := rb_off r, rl_segment := ?seg + mc_slide c\<rparr>"
  define s3 where "s3 = s2\<lparr>rl_rest := replicate k 0\<rparr>"
  have d: "rl_rest (reloc_start ?data) = 0x11 # ?seg_op" by (simp add: reloc_start_def macho_rebase_code_def)
  have 1: "?run (length ?data) (reloc_start ?data) m = ?run (Suc (Suc (Suc n))) s1 m"
    unfolding n by (rule run_ops_Cons [OF d]) (simp add: rebase_op_def s1_def ret_run)
  have r1: "rl_rest s1 = ?seg_op" by (simp add: s1_def)
  have 2: "?run (Suc (Suc (Suc n))) s1 m = ?run (Suc (Suc n)) s2 m"
    by (rule run_ops_Cons [OF r1])
      (simp add: rebase_segment_op [OF b(1,2) _ b(3), where off = "rb_off r" and rest = "(0x50 + of_nat (rb_count r)) # 0 # replicate k 0"] s2_def ret_run)
  have r2: "rl_rest s2 = (0x50 + of_nat (rb_count r)) # 0 # replicate k 0" by (simp add: s2_def)
  have nx: "next_uleb (s2\<lparr>rl_rest := 0 # replicate k 0\<rparr>) = ret (0, s2\<lparr>rl_rest := replicate k 0\<rparr>)"
    using next_uleb_ok [where st = "s2\<lparr>rl_rest := 0 # replicate k 0\<rparr>" and w = 0 and rest = "replicate k 0", unfolded uleb_zero] by simp
  have "unat (rl_seg_offset s2) < 2 ^ LENGTH(64)" by (rule unsigned_less)
  then have "plus64 (rl_seg_offset s2) 0 = (ret (rl_seg_offset s2) :: (memory, dyld_error, u64) act)"
    by (simp add: plus64_def)
  then have 3: "?run (Suc (Suc n)) s2 m = ?run (Suc n) s3 m"
    by (intro run_ops_Cons [OF r2]) (simp add: rebase_op_def Let_def imm nx advance_by_def s3_def ret_run)
  have "?run (Suc n) s3 m = (Ok (), m)" by (cases k) (simp_all add: s3_def rebase_op_def ret_run)
  with 1 2 3 show ?thesis by (simp add: perform_rebase_def)
qed

text \<open>
  The program of the rebasings in memory, and the slots that it slides: those of a list in the numbering of the code; none of
  those of one run in the numbering of the format.
\<close>

definition rebase_program :: "macho_context \<Rightarrow> bytes \<Rightarrow> u64 list \<Rightarrow> bool" where
  "rebase_program c data sl \<longleftrightarrow>
     (\<exists>rs pad. (\<forall>r \<in> set rs. rebasing_ok c r) \<and> data = concat (map rebase_code rs) @ 0 # pad \<and> sl = concat (map (rebase_slots c) rs)) \<or>
     (\<exists>r k. rebasing_ok c r \<and> rb_count r < 16 \<and> data = macho_rebase_code r @ replicate (Suc k) 0 \<and> sl = [])"

lemma rebase_program_ok:
  assumes "rebase_program c data sl" and "all_along (slide_fits (mc_slide c)) (slide_word (mc_slide c)) sl m"
  shows "perform_rebase c data m = (Ok (), fold (slide_word (mc_slide c)) sl m) \<and> data \<noteq> []"
proof -
  consider (own) rs pad where "\<forall>r \<in> set rs. rebasing_ok c r" "data = concat (map rebase_code rs) @ 0 # pad"
      "sl = concat (map (rebase_slots c) rs)"
    | (macho) r k where "rebasing_ok c r" "rb_count r < 16" "data = macho_rebase_code r @ replicate (Suc k) 0" "sl = []"
    using assms(1) unfolding rebase_program_def by blast
  then show ?thesis
  proof cases
    case own
    then show ?thesis using rebasings_done [OF own(1)] assms(2) by simp
  next
    case macho
    then show ?thesis using standard_rebase_ignored [OF macho(1,2), of k m] by simp
  qed
qed

section \<open>The cache as a table\<close>

definition string_at :: "memory \<Rightarrow> u64 \<Rightarrow> bytes \<Rightarrow> bool" where
  "string_at m p s \<longleftrightarrow> 0 \<notin> set s \<and> peek p (length s + 1) m = s @ [0]"

definition image_at :: "memory \<Rightarrow> u64 \<Rightarrow> u64 \<Rightarrow> u64 \<times> bytes \<Rightarrow> bool" where
  "image_at m base info = (\<lambda>(addr, path). from_le (peek info 8 m) = addr \<and>
     string_at m (base + ucast (from_le (peek (info + 24) 4 m) :: u32)) path)"

fun images_at :: "memory \<Rightarrow> u64 \<Rightarrow> u64 \<Rightarrow> (u64 \<times> bytes) list \<Rightarrow> bool" where
  "images_at m base info [] \<longleftrightarrow> True"
| "images_at m base info (i # is) \<longleftrightarrow> image_at m base info i \<and> images_at m base (info + 32) is"

definition cache_holds :: "memory \<Rightarrow> u64 \<Rightarrow> (u64 \<times> bytes) list \<Rightarrow> bool" where
  "cache_holds m base images \<longleftrightarrow> unat (from_le (peek (base + 28) 4 m) :: u32) = length images \<and>
     images_at m base (base + ucast (from_le (peek (base + 24) 4 m) :: u32)) images"

text \<open>The address of the first image with a path, if all paths before it are UTF-8.\<close>

definition cache_lookup :: "(u64 \<times> bytes) list \<Rightarrow> bytes \<Rightarrow> u64 option" where
  "cache_lookup images path = map_of (map (\<lambda>(a, p). (p, a)) (takeWhile (\<lambda>(a, p). utf8_decode p \<noteq> None) images)) path"

lemma string_read:
  assumes "string_at m p s"
  shows "c_string p m = (Ok s, m)"
proof -
  have b: "m (p + of_nat i) = (s @ [0]) ! i" if "i < length s + 1" for i
  proof -
    have "peek p (length s + 1) m ! i = m (p + of_nat i)" using that by (simp add: peek_def del: upt_Suc)
    then show ?thesis using assms by (simp add: string_at_def)
  qed
  have "strlen_from p m 0 = Some (length s)"
    by (rule strlen_from_ok) (use b assms in \<open>auto simp: nth_append string_at_def in_set_conv_nth\<close>)
  moreover have "peek p (length s) m = s"
    by (rule nth_equalityI) (use b in \<open>auto simp: peek_def nth_append\<close>)
  ultimately show ?thesis by (simp add: c_string_def c_strlen_def)
qed

lemma images_from_ok:
  "images_at m base info images \<Longrightarrow> images_from base path info (length images) m = (Ok (cache_lookup images path), m)"
proof (induction images arbitrary: info)
  case Nil
  then show ?case by (simp add: cache_lookup_def ret_run)
next
  case (Cons i "is")
  obtain a p where i: "i = (a, p)" by (cases i)
  have at: "image_at m base info (a, p)" "images_at m base (info + 32) is" using Cons.prems i by simp_all
  from at(1) have s: "c_string (base + ucast (from_le (peek (info + 24) 4 m) :: u32)) m = (Ok p, m)"
    by (intro string_read) (simp add: image_at_def)
  from at(1) have a: "from_le (peek info 8 m) = a" by (simp add: image_at_def)
  show ?case using Cons.IH [OF at(2)] a
    by (simp add: i bnd_Ok [where m = "c_string _", OF s] cache_lookup_def ret_run)
qed

end
