(* ===== verification/DyldProps.thy ===== *)
theory DyldProps
  imports DyldSpec
begin

text \<open>The properties of the dynamic linker.\<close>

unbundle bit_operations_syntax

section \<open>Relocation\<close>

text \<open>
  The two programs of a file are read from memory next to its header. The program of the bindings is read after the
  rebasings, which may have changed it.
\<close>

lemma other_commands:
  "\<forall>cmd \<in> set cs. \<forall>a b d e. cmd \<noteq> DyldInfoOnly a b d e \<Longrightarrow> each_act (relocate c libs) cs = ret ()"
proof (induction cs)
  case Nil
  then show ?case by simp
next
  case (Cons cmd cs)
  have "relocate c libs cmd = ret ()" using Cons.prems by (cases cmd) (auto simp: relocate_def)
  then show ?case using Cons by simp
qed

lemma peek_length [simp]: "length (peek a n m) = n"
  by (simp add: peek_def)

lemma program_size: "peek a (unat (n :: u32)) m \<noteq> [] \<Longrightarrow> 0 < n"
proof -
  assume "peek a (unat n) m \<noteq> []"
  then have "length (peek a (unat n) m) \<noteq> 0" by (simp del: peek_length)
  then show "0 < n" by (simp add: word_less_nat_alt)
qed

lemma dyld_info_ok:
  assumes "libs_fit libs" and "\<forall>b \<in> set bs. binding_ok c b"
    and "rebase_program c (peek (mc_base c + ucast roff) (unat rsize) m) sl"
    and "all_along (slide_fits (mc_slide c)) (slide_word (mc_slide c)) sl m"
    and "unat (mc_base c) + unat roff < 2 ^ 64" and "unat (mc_base c) + unat boff < 2 ^ 64"
    and p: "peek (mc_base c + ucast boff) (unat bsize) (fold (slide_word (mc_slide c)) sl m) = concat (map bind_code bs) @ 0 # bpad"
  shows "relocate c libs (DyldInfoOnly roff rsize boff bsize) m =
    (Ok (), fold (bind_word c libs) bs (fold (slide_word (mc_slide c)) sl m))"
proof -
  let ?m = "fold (slide_word (mc_slide c)) sl m"
  have u: "plus64 (mc_base c) (ucast roff) = (ret (mc_base c + ucast roff) :: u64 dact)"
    "plus64 (mc_base c) (ucast boff) = (ret (mc_base c + ucast boff) :: u64 dact)"
    using assms(5,6) by (simp_all add: plus64_ok unsigned_ucast_eq take_bit_nat_eq_self)
  note r = rebase_program_ok [OF assms(3,4)]
  have s: "0 < rsize" "0 < bsize" using program_size [OF r [THEN conjunct2]] program_size [of "mc_base c + ucast boff" bsize ?m] p by auto
  have b: "perform_bind c libs (peek (mc_base c + ucast boff) (unat bsize) ?m) ?m = (Ok (), fold (bind_word c libs) bs ?m)"
    unfolding p by (rule bindings_done [OF assms(1,2)])
  have "(\<lambda>m. perform_rebase c (peek (mc_base c + ucast roff) (unat rsize) m) m) m = (Ok (), ?m)" using r by simp
  note r' = bnd_Ok [where m = "\<lambda>m. perform_rebase c (peek (mc_base c + ucast roff) (unat rsize) m) m", OF this]
  show ?thesis using s b by (simp add: relocate_def u r')
qed


text \<open>A file of one segment: the word at its offset 8 moves, and its first word is bound.\<close>

definition dyld_sample :: macho_context where
  "dyld_sample = \<lparr>mc_macho = \<lparr>dm_symbols = [], dm_segments = [0x100], dm_commands = [OtherDyldCommand, DyldInfoOnly 0x40 5 0x80 9],
     dm_entry = 0x20\<rparr>, mc_base = 0, mc_slide = 0x10\<rparr>"

definition dyld_sample_lib :: macho_context where
  "dyld_sample_lib = \<lparr>mc_macho = \<lparr>dm_symbols = [([95], 0x5000)], dm_segments = [], dm_commands = [], dm_entry = 0\<rparr>, mc_base = 0, mc_slide = 0\<rparr>"

definition dyld_sample_memory :: memory where
  "dyld_sample_memory = poke 0x80 [0x11, 0x40, 95, 0, 0x51, 0x70, 0, 0x90, 0] (poke 0x40 [0x20, 8, 0x70, 1, 0] (poke 0x118 [0, 1] (\<lambda>_. 0)))"

lemma uleb_small: "n < 128 \<Longrightarrow> uleb n = [of_nat n]"
  by (simp add: uleb.simps)


section \<open>The start\<close>

text \<open>The libraries that the cache has and that parse, in the order of the load commands.\<close>

definition loaded_libs :: "dyld_parser \<Rightarrow> memory \<Rightarrow> (u64 \<times> bytes) list \<Rightarrow> (u64 \<Rightarrow> u32 \<Rightarrow> bytes) \<Rightarrow> dyld_command list \<Rightarrow> macho_context list" where
  "loaded_libs parse m images name cmds = concat (map (\<lambda>cmd.
     case cmd of
       LoadDylib at off \<Rightarrow>
         (case cache_lookup images (name at off) of
            None \<Rightarrow> []
          | Some a \<Rightarrow> (case context_parse parse a 0 m of None \<Rightarrow> [] | Some lib \<Rightarrow> [lib]))
     | _ \<Rightarrow> []) cmds)"

lemma print_value_ok: "\<exists>out'. print_value s v \<lparr>ds_mem = m, ds_out = out\<rparr> = (Ok (), \<lparr>ds_mem = m, ds_out = out'\<rparr>)"
  by (simp add: print_value_def print_hex_def dyld_print_def bnd_def)

lemma load_dylibs_ok:
  assumes "cache_holds m base images"
  shows "\<forall>at off. LoadDylib at off \<in> set cmds \<longrightarrow> string_at m (mh + at + ucast off) (name at off) \<Longrightarrow>
    \<exists>out'. load_dylibs parse base mh cmds libs \<lparr>ds_mem = m, ds_out = out\<rparr> =
      (Ok (libs @ loaded_libs parse m images name cmds), \<lparr>ds_mem = m, ds_out = out'\<rparr>)"
proof (induction cmds arbitrary: libs out)
  case Nil
  then show ?case by (simp add: loaded_libs_def ret_run)
next
  case (Cons cmd cmds)
  have ih: "\<exists>out'. load_dylibs parse base mh cmds libs \<lparr>ds_mem = m, ds_out = out\<rparr> =
      (Ok (libs @ loaded_libs parse m images name cmds), \<lparr>ds_mem = m, ds_out = out'\<rparr>)" for libs out
    using Cons by simp
  show ?case
  proof (cases cmd)
    case (LoadDylib at off)
    have "string_at m (mh + at + ucast off) (name at off)" using Cons.prems LoadDylib by simp
    note s = string_read [OF this]
    have f: "find_dylib base path m = (Ok (cache_lookup images path), m)" for path
      using assms by (simp add: find_dylib_def cache_holds_def images_from_ok)
    show ?thesis
    proof (cases "cache_lookup images (name at off)")
      case None
      then have "loaded_libs parse m images name (cmd # cmds) = loaded_libs parse m images name cmds"
        by (simp add: loaded_libs_def LoadDylib)
      then show ?thesis using ih None by (simp add: LoadDylib bnd_def on_memory_def s f dyld_print_def)
    next
      case (Some a)
      let ?libs = "case context_parse parse a 0 m of Some lib \<Rightarrow> libs @ [lib] | None \<Rightarrow> libs"
      have "libs @ loaded_libs parse m images name (cmd # cmds) = ?libs @ loaded_libs parse m images name cmds"
        by (simp add: loaded_libs_def LoadDylib Some split: option.split)
      then show ?thesis using ih [of ?libs] Some print_value_ok
        by (simp add: LoadDylib bnd_def on_memory_def s f dyld_print_def print_value_def print_hex_def)
    qed
  qed (use ih in \<open>simp_all add: loaded_libs_def\<close>)
qed

text \<open>C36: when the shared cache is at its address with a table of images, the program's header parses and its relocation against
  the libraries that the cache has for its load commands, in their order, succeeds, the linker ends with
  the address of the entry point moved by the slide and memory as the relocation leaves it.\<close>

theorem dyld_starts:
  assumes "cache_from_addr 0x30000000 m = Some base" and "cache_holds m base images"
    and "context_parse parse mh slide m = Some c"
    and "\<forall>at off. LoadDylib at off \<in> set (dm_commands (mc_macho c)) \<longrightarrow> string_at m (mh + at + ucast off) (name at off)"
    and "apply_relocations c (loaded_libs parse m images name (dm_commands (mc_macho c))) m = (Ok (), m')"
    and "unat (dm_entry (mc_macho c)) + unat slide < 2 ^ 64"
  shows "\<exists>out'. dyld_start parse mh slide argc_ptr \<lparr>ds_mem = m, ds_out = out\<rparr> =
    (Ok (dm_entry (mc_macho c) + slide), \<lparr>ds_mem = m', ds_out = out'\<rparr>)"
proof -
  have l: "\<exists>out'. load_dylibs parse base mh (dm_commands (mc_macho c)) [] \<lparr>ds_mem = m, ds_out = out\<rparr> =
      (Ok (loaded_libs parse m images name (dm_commands (mc_macho c))), \<lparr>ds_mem = m, ds_out = out'\<rparr>)" for out
    using load_dylibs_ok [OF assms(2,4), where libs = "[]"] by simp
  obtain outf where outf: "\<And>out. load_dylibs parse base mh (dm_commands (mc_macho c)) [] \<lparr>ds_mem = m, ds_out = out\<rparr> =
      (Ok (loaded_libs parse m images name (dm_commands (mc_macho c))), \<lparr>ds_mem = m, ds_out = outf out\<rparr>)"
    using l by metis
  show ?thesis using assms(1,3,5,6)
    by (simp add: dyld_start_def bnd_def ret_run dyld_print_def print_value_def print_hex_def outf on_memory_def plus64_ok)
qed

text \<open>A cache of one image, and a program that needs it.\<close>

definition start_sample_memory :: memory where
  "start_sample_memory = poke 0x30000018 [0x20, 0, 0, 0, 1, 0, 0, 0] (poke 0x30000000 (text_bytes ''dyld'')
     (poke 0x30000020 [0, 0x50, 0, 0, 0, 0, 0, 0] (poke 0x30000038 [0x80, 0, 0, 0] (poke 0x30000080 [97, 0] (poke 0x1018 [97, 0] (\<lambda>_. 0))))))"

definition start_sample_parser :: dyld_parser where
  "start_sample_parser bs = Some \<lparr>dm_symbols = [], dm_segments = [], dm_commands = [LoadDylib 0x10 8], dm_entry = 0x20\<rparr>"

lemma dyld_starts_witness:
  "\<exists>out'. dyld_start start_sample_parser 0x1000 0x10 0 \<lparr>ds_mem = start_sample_memory, ds_out = []\<rparr> =
     (Ok 0x30, \<lparr>ds_mem = start_sample_memory, ds_out = out'\<rparr>)"
proof -
  let ?m = start_sample_memory and ?p = start_sample_parser and ?b = "0x30000000 :: u64"
  let ?c = "\<lparr>mc_macho = \<lparr>dm_symbols = [], dm_segments = [], dm_commands = [LoadDylib 0x10 8], dm_entry = 0x20\<rparr>, mc_base = 0x1000, mc_slide = 0x10\<rparr>"
  have b: "cache_from_addr ?b ?m = Some ?b" by code_simp
  have r: "peek 0x3000001C 4 ?m = [1, 0, 0, 0]" "peek 0x30000018 4 ?m = [0x20, 0, 0, 0]" "peek 0x30000038 4 ?m = [0x80, 0, 0, 0]"
    "peek 0x30000020 8 ?m = [0, 0x50, 0, 0, 0, 0, 0, 0]" "peek 0x30000080 (Suc (Suc 0)) ?m = [97, 0]" "peek 0x1018 (Suc (Suc 0)) ?m = [97, 0]"
    by code_simp+
  have h: "cache_holds ?m ?b [(0x5000, [97])]"
    by (simp add: cache_holds_def image_at_def string_at_def r from_le_def)
  have p: "context_parse ?p 0x1000 0x10 ?m = Some ?c"
    by (simp add: context_parse_def start_sample_parser_def)
  have "apply_relocations ?c libs ?m = (Ok (), ?m)" for libs
    by (simp add: apply_relocations_def relocate_def ret_run)
  from dyld_starts [OF b h p _ this, of "\<lambda>_ _. [97]" 0 "[]"] show ?thesis
    by (simp add: string_at_def r)
qed

end
