(* ===== verification/VirtioInit.thy ===== *)
theory VirtioInit
  imports Virtio
begin

text \<open>
  How the block device driver finds and starts its device (\<open>src/src/kernel/src/virtio.rs\<close>): the configuration space of the PCI
  bus, the list of capabilities, the base address registers, and the set-up of the device. The bus is hardware and a parameter:
  what an address reads as in a state of the devices, and what a write does to them. The registers that the code reads do not
  change by being read.
\<close>

unbundle bit_operations_syntax

section \<open>The bus\<close>

text \<open>The first argument is the width of the access in bits.\<close>

record 'd pci_bus =
  pb_read :: "nat \<Rightarrow> nat \<Rightarrow> 'd \<Rightarrow> u32"
  pb_write :: "nat \<Rightarrow> nat \<Rightarrow> u32 \<Rightarrow> 'd \<Rightarrow> 'd"

record 'd pci_state =
  ps_dev :: 'd
  ps_alloc_next :: u32

definition mmio_read :: "'d pci_bus \<Rightarrow> nat \<Rightarrow> nat \<Rightarrow> ('d pci_state, 'e, u32) act" where
  "mmio_read bus bits a = (\<lambda>s. (Ok (pb_read bus bits a (ps_dev s)), s))"

definition mmio_write :: "'d pci_bus \<Rightarrow> nat \<Rightarrow> nat \<Rightarrow> u32 \<Rightarrow> ('d pci_state, 'e, unit) act" where
  "mmio_write bus bits a v = (\<lambda>s. (Ok (), s\<lparr>ps_dev := pb_write bus bits a v (ps_dev s)\<rparr>))"

definition PCI_ECAM_BASE :: nat where "PCI_ECAM_BASE = 0x3f000000"
definition PCI_VENDOR_ID :: nat where "PCI_VENDOR_ID = 0x00"
definition PCI_DEVICE_ID :: nat where "PCI_DEVICE_ID = 0x02"
definition PCI_COMMAND :: nat where "PCI_COMMAND = 0x04"
definition PCI_STATUS :: nat where "PCI_STATUS = 0x06"
definition PCI_BAR0 :: nat where "PCI_BAR0 = 0x10"
definition PCI_CAP_PTR :: nat where "PCI_CAP_PTR = 0x34"

definition pci_config_addr :: "nat \<Rightarrow> nat \<Rightarrow> nat \<Rightarrow> nat \<Rightarrow> nat" where
  "pci_config_addr bus dev func offset = PCI_ECAM_BASE + push_bit 20 bus + push_bit 15 dev + push_bit 12 func + offset"

definition pci_read8 :: "'d pci_bus \<Rightarrow> nat \<Rightarrow> nat \<Rightarrow> nat \<Rightarrow> nat \<Rightarrow> ('d pci_state, 'e, u8) act" where
  "pci_read8 pb bus dev func offset = bnd (mmio_read pb 8 (pci_config_addr bus dev func offset)) (\<lambda>v. ret (ucast v))"

definition pci_read16 :: "'d pci_bus \<Rightarrow> nat \<Rightarrow> nat \<Rightarrow> nat \<Rightarrow> nat \<Rightarrow> ('d pci_state, 'e, u16) act" where
  "pci_read16 pb bus dev func offset = bnd (mmio_read pb 16 (pci_config_addr bus dev func offset)) (\<lambda>v. ret (ucast v))"

definition pci_read32 :: "'d pci_bus \<Rightarrow> nat \<Rightarrow> nat \<Rightarrow> nat \<Rightarrow> nat \<Rightarrow> ('d pci_state, 'e, u32) act" where
  "pci_read32 pb bus dev func offset = mmio_read pb 32 (pci_config_addr bus dev func offset)"

definition pci_write16 :: "'d pci_bus \<Rightarrow> nat \<Rightarrow> nat \<Rightarrow> nat \<Rightarrow> nat \<Rightarrow> u16 \<Rightarrow> ('d pci_state, 'e, unit) act" where
  "pci_write16 pb bus dev func offset v = mmio_write pb 16 (pci_config_addr bus dev func offset) (ucast v)"

definition pci_write32 :: "'d pci_bus \<Rightarrow> nat \<Rightarrow> nat \<Rightarrow> nat \<Rightarrow> nat \<Rightarrow> u32 \<Rightarrow> ('d pci_state, 'e, unit) act" where
  "pci_write32 pb bus dev func offset v = mmio_write pb 32 (pci_config_addr bus dev func offset) v"

section \<open>Capabilities\<close>

definition VIRTIO_PCI_CAP_COMMON_CFG :: u8 where "VIRTIO_PCI_CAP_COMMON_CFG = 1"
definition VIRTIO_PCI_CAP_NOTIFY_CFG :: u8 where "VIRTIO_PCI_CAP_NOTIFY_CFG = 2"

record virtio_caps =
  vc_common_cfg_bar :: u8
  vc_common_cfg_offset :: u32
  vc_notify_bar :: u8
  vc_notify_offset :: u32
  vc_notify_off_mult :: u32

definition no_caps :: virtio_caps where
  "no_caps = \<lparr>vc_common_cfg_bar = 0, vc_common_cfg_offset = 0, vc_notify_bar = 0, vc_notify_offset = 0, vc_notify_off_mult = 0\<rparr>"

definition read_cap :: "'d pci_bus \<Rightarrow> nat \<Rightarrow> nat \<Rightarrow> nat \<Rightarrow> nat \<Rightarrow> virtio_caps \<Rightarrow> ('d pci_state, 'e, virtio_caps) act" where
  "read_cap pb bus dev func cap_ptr caps =
     bnd (pci_read8 pb bus dev func cap_ptr) (\<lambda>cap_id.
     if cap_id = 0x09 then
       bnd (pci_read8 pb bus dev func (cap_ptr + 3)) (\<lambda>cfg_type.
       bnd (pci_read8 pb bus dev func (cap_ptr + 4)) (\<lambda>bar.
       bnd (pci_read32 pb bus dev func (cap_ptr + 8)) (\<lambda>offset.
       if cfg_type = VIRTIO_PCI_CAP_COMMON_CFG then
         ret (caps\<lparr>vc_common_cfg_bar := bar, vc_common_cfg_offset := offset\<rparr>)
       else if cfg_type = VIRTIO_PCI_CAP_NOTIFY_CFG then
         bnd (pci_read32 pb bus dev func (cap_ptr + 16)) (\<lambda>mult.
         ret (caps\<lparr>vc_notify_bar := bar, vc_notify_offset := offset, vc_notify_off_mult := mult\<rparr>))
       else ret caps)))
     else ret caps)"

text \<open>
  The list is followed to its zero. Nothing is written on the way, so a list that is longer than the 255 places for a pointer
  has come back to one of them and never ends (see \<open>caps_fuel\<close>).
\<close>

fun caps_from :: "'d pci_bus \<Rightarrow> nat \<Rightarrow> nat \<Rightarrow> nat \<Rightarrow> nat \<Rightarrow> u8 \<Rightarrow> virtio_caps \<Rightarrow> ('d pci_state, 'e, virtio_caps) act" where
  "caps_from pb bus dev func 0 cap_ptr caps = (if cap_ptr = 0 then ret caps else spin)"
| "caps_from pb bus dev func (Suc fuel) cap_ptr caps =
     (if cap_ptr = 0 then ret caps
      else
        bnd (read_cap pb bus dev func (unat cap_ptr) caps) (\<lambda>caps.
        bnd (pci_read8 pb bus dev func (unat cap_ptr + 1)) (\<lambda>next.
        caps_from pb bus dev func fuel next caps)))"

definition find_virtio_caps :: "'d pci_bus \<Rightarrow> nat \<Rightarrow> nat \<Rightarrow> nat \<Rightarrow> ('d pci_state, 'e, virtio_caps option) act" where
  "find_virtio_caps pb bus dev func =
     bnd (pci_read16 pb bus dev func PCI_STATUS) (\<lambda>status.
     if status AND 0x10 = 0 then ret None
     else
       bnd (pci_read8 pb bus dev func PCI_CAP_PTR) (\<lambda>cap_ptr.
       bnd (caps_from pb bus dev func 255 cap_ptr no_caps) (\<lambda>caps. ret (Some caps))))"

section \<open>Base addresses\<close>

text \<open>A sum of two \<open>u32\<close>, checked.\<close>

definition plus32 :: "u32 \<Rightarrow> u32 \<Rightarrow> ('s, 'e, u32) act" where
  "plus32 a b = (if unat a + unat b < 2 ^ 32 then ret (a + b) else panic)"

definition pci_assign_bar :: "'d pci_bus \<Rightarrow> nat \<Rightarrow> nat \<Rightarrow> nat \<Rightarrow> u8 \<Rightarrow> ('d pci_state, 'e, u32) act" where
  "pci_assign_bar pb bus dev func bar_num =
     (let bar_offset = PCI_BAR0 + unat bar_num * 4 in
      bnd (pci_read32 pb bus dev func bar_offset) (\<lambda>current.
      if current AND NOT 0xF \<noteq> 0 then ret (current AND NOT 0xF)
      else
        bnd (pci_write32 pb bus dev func bar_offset 0xFFFFFFFF) (\<lambda>_.
        bnd (pci_read32 pb bus dev func bar_offset) (\<lambda>size_mask.
        if size_mask = 0 \<or> size_mask = 0xFFFFFFFF then ret 0
        else
          bnd (plus32 (NOT (size_mask AND NOT 0xF)) 1) (\<lambda>size.
          bnd (\<lambda>s. plus32 (ps_alloc_next s) size s) (\<lambda>e.
          let aligned = (e - 1) AND NOT (size - 1) in
          bnd (pci_write32 pb bus dev func bar_offset aligned) (\<lambda>_.
          bnd (plus32 aligned size) (\<lambda>next s.
          (Ok aligned, s\<lparr>ps_alloc_next := next\<rparr>)))))))))"

section \<open>The bus is scanned\<close>

definition VIRTIO_VENDOR_ID :: u16 where "VIRTIO_VENDOR_ID = 0x1af4"
definition VIRTIO_BLK_DEVICE_ID_LEGACY :: u16 where "VIRTIO_BLK_DEVICE_ID_LEGACY = 0x1001"
definition VIRTIO_BLK_DEVICE_ID_MODERN :: u16 where "VIRTIO_BLK_DEVICE_ID_MODERN = 0x1042"

definition enable_function :: "'d pci_bus \<Rightarrow> nat \<Rightarrow> ('d pci_state, 'e, virtio_caps option) act" where
  "enable_function pb dev =
     bnd (pci_read16 pb 0 dev 0 PCI_COMMAND) (\<lambda>cmd.
     bnd (pci_write16 pb 0 dev 0 PCI_COMMAND (cmd OR 0x06)) (\<lambda>_.
     bnd (find_virtio_caps pb 0 dev 0) (\<lambda>found.
     case found of
       None \<Rightarrow> ret None
     | Some caps \<Rightarrow>
         bnd (pci_assign_bar pb 0 dev 0 (vc_common_cfg_bar caps)) (\<lambda>_.
         bnd (if vc_notify_bar caps \<noteq> vc_common_cfg_bar caps
              then bnd (pci_assign_bar pb 0 dev 0 (vc_notify_bar caps)) (\<lambda>_. ret ()) else ret ()) (\<lambda>_.
         ret (Some caps))))))"

fun scan_from :: "'d pci_bus \<Rightarrow> nat list \<Rightarrow> ('d pci_state, 'e, (nat \<times> nat \<times> nat \<times> virtio_caps) option) act" where
  "scan_from pb [] = ret None"
| "scan_from pb (dev # devs) =
     bnd (pci_read16 pb 0 dev 0 PCI_VENDOR_ID) (\<lambda>vendor.
     if vendor = 0xFFFF then scan_from pb devs
     else
       bnd (pci_read16 pb 0 dev 0 PCI_DEVICE_ID) (\<lambda>device.
       if vendor = VIRTIO_VENDOR_ID \<and> (device = VIRTIO_BLK_DEVICE_ID_LEGACY \<or> device = VIRTIO_BLK_DEVICE_ID_MODERN) then
         bnd (enable_function pb dev) (\<lambda>found.
         case found of Some caps \<Rightarrow> ret (Some (0, dev, 0, caps)) | None \<Rightarrow> scan_from pb devs)
       else scan_from pb devs))"

definition scan_pci :: "'d pci_bus \<Rightarrow> ('d pci_state, 'e, (nat \<times> nat \<times> nat \<times> virtio_caps) option) act" where
  "scan_pci pb = scan_from pb [0..<32]"

section \<open>The device is set up\<close>

definition VIRTIO_PCI_COMMON_GFSELECT :: nat where "VIRTIO_PCI_COMMON_GFSELECT = 0x08"
definition VIRTIO_PCI_COMMON_GF :: nat where "VIRTIO_PCI_COMMON_GF = 0x0c"
definition VIRTIO_PCI_COMMON_STATUS :: nat where "VIRTIO_PCI_COMMON_STATUS = 0x14"
definition VIRTIO_PCI_COMMON_Q_SELECT :: nat where "VIRTIO_PCI_COMMON_Q_SELECT = 0x16"
definition VIRTIO_PCI_COMMON_Q_SIZE :: nat where "VIRTIO_PCI_COMMON_Q_SIZE = 0x18"
definition VIRTIO_PCI_COMMON_Q_NOTIFY_OFF :: nat where "VIRTIO_PCI_COMMON_Q_NOTIFY_OFF = 0x1e"
definition VIRTIO_PCI_COMMON_Q_ENABLE :: nat where "VIRTIO_PCI_COMMON_Q_ENABLE = 0x1c"
definition VIRTIO_PCI_COMMON_Q_DESCLO :: nat where "VIRTIO_PCI_COMMON_Q_DESCLO = 0x20"
definition VIRTIO_PCI_COMMON_Q_AVAILLO :: nat where "VIRTIO_PCI_COMMON_Q_AVAILLO = 0x28"
definition VIRTIO_PCI_COMMON_Q_USEDLO :: nat where "VIRTIO_PCI_COMMON_Q_USEDLO = 0x30"

definition VIRTIO_F_VERSION_1 :: u32 where "VIRTIO_F_VERSION_1 = 1"

definition VIRTIO_STATUS_ACKNOWLEDGE :: u8 where "VIRTIO_STATUS_ACKNOWLEDGE = 1"
definition VIRTIO_STATUS_DRIVER :: u8 where "VIRTIO_STATUS_DRIVER = 2"
definition VIRTIO_STATUS_FEATURES_OK :: u8 where "VIRTIO_STATUS_FEATURES_OK = 8"
definition VIRTIO_STATUS_DRIVER_OK :: u8 where "VIRTIO_STATUS_DRIVER_OK = 4"

text \<open>The addresses of the driver, next to the state of \<open>Virtio\<close> in which what they point to is named.\<close>

record virtio_setup =
  vs_notify_addr :: nat
  vs_desc :: nat
  vs_avail :: nat
  vs_used :: nat
  vs_blk :: virtio_blk

text \<open>The memory of the queue is zero; that of the request and the status is not set.\<close>

definition zeroed_queue :: "virtio_blk_req \<Rightarrow> u8 \<Rightarrow> virtio_blk" where
  "zeroed_queue req status =
     \<lparr>vb_desc = replicate QUEUE_SIZE \<lparr>vd_addr = NoTarget, vd_len = 0, vd_flags = 0, vd_next = 0\<rparr>, vb_avail_idx = 0,
      vb_avail_ring = replicate QUEUE_SIZE 0, vb_used_idx = 0, vb_last_used_idx = 0, vb_req_buf = req, vb_status_buf = status,
      vb_next_desc_idx = 0\<rparr>"

text \<open>Acknowledge the device, offer the features, and see whether they are accepted.\<close>

definition negotiate :: "'d pci_bus \<Rightarrow> nat \<Rightarrow> ('d pci_state, 'e, u8 option) act" where
  "negotiate pb common_cfg =
     bnd (mmio_write pb 8 (common_cfg + VIRTIO_PCI_COMMON_STATUS) 0) (\<lambda>_.
     let status = VIRTIO_STATUS_ACKNOWLEDGE in
     bnd (mmio_write pb 8 (common_cfg + VIRTIO_PCI_COMMON_STATUS) (ucast status)) (\<lambda>_.
     let status = status OR VIRTIO_STATUS_DRIVER in
     bnd (mmio_write pb 8 (common_cfg + VIRTIO_PCI_COMMON_STATUS) (ucast status)) (\<lambda>_.
     bnd (mmio_write pb 32 (common_cfg + VIRTIO_PCI_COMMON_GFSELECT) 1) (\<lambda>_.
     bnd (mmio_write pb 32 (common_cfg + VIRTIO_PCI_COMMON_GF) VIRTIO_F_VERSION_1) (\<lambda>_.
     let status = status OR VIRTIO_STATUS_FEATURES_OK in
     bnd (mmio_write pb 8 (common_cfg + VIRTIO_PCI_COMMON_STATUS) (ucast status)) (\<lambda>_.
     bnd (mmio_read pb 8 (common_cfg + VIRTIO_PCI_COMMON_STATUS)) (\<lambda>check.
     ret (if (ucast check :: u8) AND VIRTIO_STATUS_FEATURES_OK = 0 then None else Some status))))))))"

text \<open>The queue, at an address that the allocator gives for its memory; the device sees the low halves of the addresses.\<close>

definition setup_queue :: "'d pci_bus \<Rightarrow> nat \<Rightarrow> nat \<Rightarrow> virtio_caps \<Rightarrow> u8 \<Rightarrow> nat \<Rightarrow> virtio_blk \<Rightarrow> ('d pci_state, 'e, virtio_setup) act" where
  "setup_queue pb common_cfg notify_cap_base caps status ptr blk =
     bnd (mmio_write pb 16 (common_cfg + VIRTIO_PCI_COMMON_Q_SELECT) 0) (\<lambda>_.
     bnd (mmio_write pb 16 (common_cfg + VIRTIO_PCI_COMMON_Q_SIZE) (of_nat QUEUE_SIZE)) (\<lambda>_.
     bnd (mmio_read pb 16 (common_cfg + VIRTIO_PCI_COMMON_Q_NOTIFY_OFF)) (\<lambda>v.
     let queue_notify_off = (ucast v :: u16);
         notify_addr = notify_cap_base + unat queue_notify_off * unat (vc_notify_off_mult caps);
         desc_size = 16 * QUEUE_SIZE; avail_size = 4 + 2 * QUEUE_SIZE;
         aligned = (ptr + 4095) div 4096 * 4096
     in
     bnd (mmio_write pb 32 (common_cfg + VIRTIO_PCI_COMMON_Q_DESCLO) (of_nat aligned)) (\<lambda>_.
     bnd (mmio_write pb 32 (common_cfg + VIRTIO_PCI_COMMON_Q_AVAILLO) (of_nat (aligned + desc_size))) (\<lambda>_.
     bnd (mmio_write pb 32 (common_cfg + VIRTIO_PCI_COMMON_Q_USEDLO) (of_nat (aligned + desc_size + avail_size))) (\<lambda>_.
     bnd (mmio_write pb 16 (common_cfg + VIRTIO_PCI_COMMON_Q_ENABLE) 1) (\<lambda>_.
     let status = status OR VIRTIO_STATUS_DRIVER_OK in
     bnd (mmio_write pb 8 (common_cfg + VIRTIO_PCI_COMMON_STATUS) (ucast status)) (\<lambda>_.
     ret \<lparr>vs_notify_addr = notify_addr, vs_desc = aligned, vs_avail = aligned + desc_size,
       vs_used = aligned + desc_size + avail_size, vs_blk = blk\<rparr>))))))))"

definition virtio_blk_new ::
  "'d pci_bus \<Rightarrow> nat \<Rightarrow> virtio_blk_req \<Rightarrow> u8 \<Rightarrow> ('d pci_state, 'e, virtio_setup option) act" where
  "virtio_blk_new pb ptr req status_byte =
     bnd (scan_pci pb) (\<lambda>found.
     case found of
       None \<Rightarrow> ret None
     | Some (bus, dev, func, caps) \<Rightarrow>
         bnd (pci_read32 pb bus dev func (PCI_BAR0 + unat (vc_common_cfg_bar caps) * 4)) (\<lambda>v.
         let bar = v AND NOT 0xF in
         if bar = 0 then ret None
         else
           let common_cfg = unat bar + unat (vc_common_cfg_offset caps);
               notify_cap_base = unat bar + unat (vc_notify_offset caps)
           in
           bnd (negotiate pb common_cfg) (\<lambda>status.
           case status of
             None \<Rightarrow> ret None
           | Some status \<Rightarrow>
               bnd (setup_queue pb common_cfg notify_cap_base caps status ptr (zeroed_queue req status_byte)) (\<lambda>vs.
               ret (Some vs)))))"

text \<open>\<open>init\<close>.\<close>

definition virtio_init :: "'d pci_bus \<Rightarrow> nat \<Rightarrow> virtio_blk_req \<Rightarrow> u8 \<Rightarrow> ('d pci_state, 'e, virtio_setup option) act" where
  "virtio_init = virtio_blk_new"

section \<open>The data cache\<close>

text \<open>The addresses that are cleaned or invalidated, line by line; what the instructions do is not modelled.\<close>

function lines_from :: "nat \<Rightarrow> nat \<Rightarrow> nat list" where
  "lines_from at end_addr = (if at < end_addr then at # lines_from (at + 64) end_addr else [])"
  by pat_completeness auto

termination by (relation "measure (\<lambda>(at, end_addr). end_addr - at)") auto

declare lines_from.simps [simp del]

definition cache_clean_range :: "nat \<Rightarrow> nat \<Rightarrow> nat list" where
  "cache_clean_range addr len = lines_from (addr div 64 * 64) (addr + len)"

definition cache_invalidate_range :: "nat \<Rightarrow> nat \<Rightarrow> nat list" where
  "cache_invalidate_range addr len = lines_from (addr div 64 * 64) (addr + len)"

text \<open>The line of every byte of the range is among them, and no line outside of it.\<close>

lemma lines_from_set: "set (lines_from at end_addr) = {a. at \<le> a \<and> a < end_addr \<and> (a - at) mod 64 = 0}"
proof (induction at end_addr rule: lines_from.induct)
  case (1 at end_addr)
  show ?case
  proof (cases "at < end_addr")
    case True
    have "a \<in> {a. at \<le> a \<and> a < end_addr \<and> (a - at) mod 64 = 0} \<longleftrightarrow>
        a = at \<or> a \<in> {a. at + 64 \<le> a \<and> a < end_addr \<and> (a - (at + 64)) mod 64 = 0}" for a
    proof (cases "at + 64 \<le> a")
      case True
      then have "a - at = (a - (at + 64)) + 64" by simp
      then have "(a - at) mod 64 = (a - (at + 64)) mod 64" by (simp only: mod_add_self2)
      with True show ?thesis by auto
    next
      case False
      then have "at \<le> a \<Longrightarrow> (a - at) mod 64 = a - at" by simp
      with False \<open>at < end_addr\<close> show ?thesis by auto
    qed
    then show ?thesis using 1 True by (subst lines_from.simps) auto
  qed (subst lines_from.simps, auto)
qed

lemma cache_range_covers:
  assumes "addr \<le> b" and "b < addr + len"
  shows "b div 64 * 64 \<in> set (cache_clean_range addr len)" "b div 64 * 64 \<in> set (cache_invalidate_range addr len)"
proof -
  have "addr div 64 * 64 \<le> b div 64 * 64" using assms(1) by (simp add: div_le_mono)
  moreover have "b div 64 * 64 < addr + len" using assms(2) div_times_less_eq_dividend [of b 64] by linarith
  moreover have "(b div 64 * 64 - addr div 64 * 64) mod 64 = 0" by (simp flip: diff_mult_distrib)
  ultimately show "b div 64 * 64 \<in> set (cache_clean_range addr len)" "b div 64 * 64 \<in> set (cache_invalidate_range addr len)"
    by (simp_all add: cache_clean_range_def cache_invalidate_range_def lines_from_set)
qed

end
