(* ===== verification/VirtioInitSpec.thy ===== *)
theory VirtioInitSpec
  imports VirtioInit
begin

text \<open>
  What the bus and the device do (PCI Local Bus specification, 6; Virtual I/O Device specification, 3.1 and 4.1), and what the search
  and the set-up of the driver come to on them.
\<close>

unbundle bit_operations_syntax

section \<open>Reading the configuration space\<close>

definition conf8 :: "'d pci_bus \<Rightarrow> nat \<Rightarrow> nat \<Rightarrow> 'd \<Rightarrow> u8" where
  "conf8 pb dev off d = ucast (pb_read pb 8 (pci_config_addr 0 dev 0 off) d)"

definition conf32 :: "'d pci_bus \<Rightarrow> nat \<Rightarrow> nat \<Rightarrow> 'd \<Rightarrow> u32" where
  "conf32 pb dev off d = pb_read pb 32 (pci_config_addr 0 dev 0 off) d"

lemma bnd_Loop: "m s = (Loop, s') \<Longrightarrow> bnd m f s = (Loop, s')"
  by (simp add: bnd_def)

lemma mmio_read_bnd [simp]: "bnd (mmio_read pb bits a) f s = f (pb_read pb bits a (ps_dev s)) s"
  by (simp add: mmio_read_def bnd_def)

lemma mmio_write_bnd [simp]: "bnd (mmio_write pb bits a v) f s = f () (s\<lparr>ps_dev := pb_write pb bits a v (ps_dev s)\<rparr>)"
  by (simp add: mmio_write_def bnd_def)

lemma pci_read8_bnd [simp]: "bnd (pci_read8 pb 0 dev 0 off) f s = f (conf8 pb dev off (ps_dev s)) s"
  by (simp add: pci_read8_def bnd_assoc conf8_def)

lemma pci_read16_bnd [simp]:
  "bnd (pci_read16 pb 0 dev 0 off) f s = f (ucast (pb_read pb 16 (pci_config_addr 0 dev 0 off) (ps_dev s))) s"
  by (simp add: pci_read16_def bnd_assoc)

lemma pci_read32_bnd [simp]: "bnd (pci_read32 pb 0 dev 0 off) f s = f (conf32 pb dev off (ps_dev s)) s"
  by (simp add: pci_read32_def conf32_def)

section \<open>The list of capabilities\<close>

text \<open>What a capability adds, and the list of the places from a pointer on.\<close>

definition cap_step :: "'d pci_bus \<Rightarrow> nat \<Rightarrow> 'd \<Rightarrow> u8 \<Rightarrow> virtio_caps \<Rightarrow> virtio_caps" where
  "cap_step pb dev d ptr caps =
     (let at = unat ptr; kind = conf8 pb dev (at + 3) d in
      if conf8 pb dev at d = 0x09 \<and> kind = 1 then
        caps\<lparr>vc_common_cfg_bar := conf8 pb dev (at + 4) d, vc_common_cfg_offset := conf32 pb dev (at + 8) d\<rparr>
      else if conf8 pb dev at d = 0x09 \<and> kind = 2 then
        caps\<lparr>vc_notify_bar := conf8 pb dev (at + 4) d, vc_notify_offset := conf32 pb dev (at + 8) d,
          vc_notify_off_mult := conf32 pb dev (at + 16) d\<rparr>
      else caps)"

definition next_cap :: "'d pci_bus \<Rightarrow> nat \<Rightarrow> 'd \<Rightarrow> u8 \<Rightarrow> u8" where
  "next_cap pb dev d ptr = conf8 pb dev (unat ptr + 1) d"

fun chain :: "('a::zero \<Rightarrow> 'a) \<Rightarrow> 'a \<Rightarrow> 'a list \<Rightarrow> bool" where
  "chain nx p [] \<longleftrightarrow> p = 0"
| "chain nx p (q # qs) \<longleftrightarrow> p = q \<and> q \<noteq> 0 \<and> chain nx (nx q) qs"

lemma chain_unique: "chain nx p ps \<Longrightarrow> chain nx p qs \<Longrightarrow> ps = qs"
proof (induction ps arbitrary: p qs)
  case Nil
  then show ?case by (cases qs) auto
next
  case (Cons a ps)
  then show ?case by (cases qs) auto
qed

lemma chain_cong: "\<forall>q \<in> set ps. nx q = nx' q \<Longrightarrow> chain nx p ps \<longleftrightarrow> chain nx' p ps"
  by (induction ps arbitrary: p) auto

lemma chain_suffix: "chain nx p (xs @ q # ys) \<Longrightarrow> chain nx q (q # ys)"
  by (induction xs arbitrary: p) auto

lemma chain_distinct: "chain nx p ps \<Longrightarrow> distinct ps \<and> 0 \<notin> set ps"
proof (induction ps arbitrary: p)
  case Nil
  then show ?case by simp
next
  case (Cons q qs)
  have q: "chain nx q (q # qs)" using Cons.prems by simp
  have "q \<notin> set qs"
  proof
    assume "q \<in> set qs"
    then obtain xs ys where "qs = xs @ q # ys" by (meson split_list)
    with q have "chain nx q (q # ys)" using chain_suffix [of nx q "q # xs" q ys] by simp
    from chain_unique [OF q this] \<open>qs = xs @ q # ys\<close> show False by (simp add: append_eq_Cons_conv) 
  qed
  then show ?case using Cons by auto
qed

lemma chain_short: "chain nx (p :: u8) ps \<Longrightarrow> length ps \<le> 255"
proof -
  assume "chain nx p ps"
  from chain_distinct [OF this] have d: "distinct ps" "set ps \<subseteq> UNIV - {0}" by auto
  have "card (UNIV - {0 :: u8}) = 255" by (simp add: card_Diff_subset card_word)
  with d show ?thesis by (metis card_mono distinct_card finite)
qed

lemma read_cap_ok: "read_cap pb 0 dev 0 (unat ptr) caps s = (Ok (cap_step pb dev (ps_dev s) ptr caps), s)"
  by (simp add: read_cap_def cap_step_def Let_def VIRTIO_PCI_CAP_COMMON_CFG_def VIRTIO_PCI_CAP_NOTIFY_CFG_def ret_run)

lemma caps_from_chain:
  "chain (next_cap pb dev (ps_dev s)) p ps \<Longrightarrow> length ps \<le> fuel \<Longrightarrow>
   caps_from pb 0 dev 0 fuel p caps s = (Ok (fold (cap_step pb dev (ps_dev s)) ps caps), s)"
proof (induction ps arbitrary: p fuel caps)
  case Nil
  then show ?case by (cases fuel) (simp_all add: ret_run)
next
  case (Cons q qs)
  then obtain k where "fuel = Suc k" by (cases fuel) auto
  with Cons show ?case
    by (simp add: bnd_Ok [where m = "read_cap _ _ _ _ _ _", OF read_cap_ok] next_cap_def)
qed

lemma caps_from_spins:
  "\<nexists>ps. chain (next_cap pb dev (ps_dev s)) p ps \<Longrightarrow> caps_from pb 0 dev 0 fuel p caps s = (Loop, s)"
proof (induction fuel arbitrary: p caps)
  case 0
  have "p \<noteq> 0" using 0 by (metis chain.simps(1))
  then show ?case by (simp add: spin_run)
next
  case (Suc n)
  have p: "p \<noteq> 0" using Suc.prems by (metis chain.simps(1))
  then have "\<nexists>ps. chain (next_cap pb dev (ps_dev s)) (next_cap pb dev (ps_dev s) p) ps"
    using Suc.prems by (metis chain.simps(2))
  from Suc.IH [OF this] p show ?case
    by (simp add: bnd_Ok [where m = "read_cap _ _ _ _ _ _", OF read_cap_ok] next_cap_def)
qed

text \<open>More steps than the fuel do not help.\<close>

lemma caps_fuel: "255 \<le> fuel \<Longrightarrow> caps_from pb 0 dev 0 fuel p caps s = caps_from pb 0 dev 0 255 p caps s"
proof (cases "\<exists>ps. chain (next_cap pb dev (ps_dev s)) p ps")
  case True
  then obtain ps where ps: "chain (next_cap pb dev (ps_dev s)) p ps" ..
  then have "length ps \<le> 255" by (rule chain_short)
  moreover assume "255 \<le> fuel"
  ultimately have "length ps \<le> fuel" "length ps \<le> 255" by simp_all
  then show ?thesis by (simp add: caps_from_chain [OF ps])
qed (simp add: caps_from_spins)

section \<open>The registers of the device\<close>

text \<open>
  \<open>rg_accepts\<close> says with which halves of the features the device lets \<open>FEATURES_OK\<close> stand, \<open>rg_q_max\<close> is the greatest size of its
  queue, and \<open>rg_q_high\<close> are the upper halves of the three addresses of the queue.
\<close>

record virtio_regs =
  rg_status :: u8
  rg_select :: u32
  rg_features_lo :: u32
  rg_features_hi :: u32
  rg_accepts :: "u32 \<Rightarrow> u32 \<Rightarrow> bool"
  rg_q_select :: u16
  rg_q_max :: u16
  rg_q_size :: u16
  rg_q_enable :: u16
  rg_q_desc :: u32
  rg_q_avail :: u32
  rg_q_used :: u32
  rg_q_high :: "u32 list"
  rg_notify_off :: u16

definition accepted :: "virtio_regs \<Rightarrow> bool" where
  "accepted r \<longleftrightarrow> rg_accepts r (rg_features_lo r) (rg_features_hi r)"

text \<open>Zero resets the device: the registers are as at power-on. The one queue that is followed here is the queue 0.\<close>

definition write_status :: "u8 \<Rightarrow> virtio_regs \<Rightarrow> virtio_regs" where
  "write_status v r =
     (if v = 0 then
        r\<lparr>rg_status := 0, rg_select := 0, rg_features_lo := 0, rg_features_hi := 0, rg_q_select := 0, rg_q_size := rg_q_max r,
          rg_q_enable := 0, rg_q_desc := 0, rg_q_avail := 0, rg_q_used := 0, rg_q_high := [0, 0, 0]\<rparr>
      else r\<lparr>rg_status := (if v AND 8 \<noteq> 0 \<and> \<not> accepted r then v AND NOT 8 else v)\<rparr>)"

definition write_reg :: "nat \<Rightarrow> u32 \<Rightarrow> virtio_regs \<Rightarrow> virtio_regs" where
  "write_reg off v r =
     (if off = 0x14 then write_status (ucast v) r
      else if off = 0x08 then r\<lparr>rg_select := v\<rparr>
      else if off = 0x0c then
        (if rg_select r = 0 then r\<lparr>rg_features_lo := v\<rparr> else if rg_select r = 1 then r\<lparr>rg_features_hi := v\<rparr> else r)
      else if off = 0x16 then r\<lparr>rg_q_select := ucast v\<rparr>
      else if rg_q_select r \<noteq> 0 then r
      else if off = 0x18 then r\<lparr>rg_q_size := ucast v\<rparr>
      else if off = 0x1c then r\<lparr>rg_q_enable := ucast v\<rparr>
      else if off = 0x20 then r\<lparr>rg_q_desc := v\<rparr>
      else if off = 0x28 then r\<lparr>rg_q_avail := v\<rparr>
      else if off = 0x30 then r\<lparr>rg_q_used := v\<rparr>
      else r)"

text \<open>The writes that a driver may make: of the width of the register, no bit of the status taken back but by a reset, no features
  after \<open>FEATURES_OK\<close>, a size that is a power of two within the maximum, and nothing of a queue once it is enabled.\<close>

definition reg_width :: "nat \<Rightarrow> nat option" where
  "reg_width = map_of [(0x08, 32), (0x0c, 32), (0x14, 8), (0x16, 16), (0x18, 16), (0x1c, 16), (0x20, 32), (0x28, 32), (0x30, 32)]"

definition may_write :: "nat \<Rightarrow> u32 \<Rightarrow> virtio_regs \<Rightarrow> bool" where
  "may_write off v r \<longleftrightarrow>
     (off = 0x14 \<longrightarrow> v = 0 \<or> rg_status r AND NOT (ucast v) = 0) \<and>
     (off = 0x0c \<longrightarrow> rg_status r AND 8 = 0) \<and>
     (off = 0x18 \<longrightarrow> v \<in> {1, 2, 4, 8, 16, 32, 64, 128} \<and> v \<le> ucast (rg_q_max r)) \<and>
     (off = 0x1c \<longrightarrow> v = 1) \<and>
     (off \<in> {0x18, 0x20, 0x28, 0x30} \<longrightarrow> rg_q_enable r = 0)"

section \<open>Alignment\<close>

lemma and_not_mask: "x AND NOT (mask k) = x - take_bit k x" for x :: "'a::len word"
proof -
  have "x AND NOT (mask k) = push_bit k (drop_bit k x)"
    by (rule bit_eqI) (auto simp: bit_simps)
  moreover have "push_bit k (drop_bit k x) + take_bit k x = x" by (rule bits_ident)
  ultimately show ?thesis by (metis add_diff_cancel_right')
qed

lemma unat_align: "unat (x AND NOT (mask k)) = unat x div 2 ^ k * 2 ^ k" for x :: "'a::len word"
proof -
  have "unat (take_bit k x) = take_bit k (unat x)" by (rule unsigned_take_bit_eq)
  then have m: "unat (take_bit k x) = unat x mod 2 ^ k" by (simp only: take_bit_eq_mod [of k "unat x"])
  then have "take_bit k x \<le> x" by (simp add: word_le_nat_alt)
  then have "unat (x - take_bit k x) = unat x - unat x mod 2 ^ k" by (simp add: unat_sub m)
  then show ?thesis by (simp add: and_not_mask minus_mod_eq_div_mult)
qed

lemma unat_exp: "j < 32 \<Longrightarrow> unat (2 ^ j :: u32) = 2 ^ j"
proof -
  assume "j < 32"
  then have "(2 :: nat) ^ j < 2 ^ 32" by (intro power_strict_increasing) simp_all
  then have "unat (of_nat (2 ^ j) :: u32) = 2 ^ j" by (simp only: unat_of_nat) (simp add: take_bit_nat_eq_self)
  then show ?thesis by simp
qed

lemma window_address:
  assumes "j < 32" and "unat next + 2 * 2 ^ j < 2 ^ 32"
  shows "unat ((next + (2 ^ j - 1)) AND NOT (mask j) :: u32) = (unat next + (2 ^ j - 1)) div 2 ^ j * 2 ^ j"
proof -
  have "unat (2 ^ j - 1 :: u32) = 2 ^ j - 1"
    using unat_exp [OF assms(1)] unat_minus_one [of "2 ^ j :: u32"] by (metis power_not_zero unat_0 zero_neq_numeral)
  then have "unat (next + (2 ^ j - 1)) = unat next + (2 ^ j - 1)" using assms(2) by (simp add: unat_word_ariths)
  then show ?thesis by (simp only: unat_align)
qed

section \<open>A block device\<close>

text \<open>The identifiers of a block device.\<close>

definition is_block :: "'d pci_bus \<Rightarrow> nat \<Rightarrow> 'd \<Rightarrow> bool" where
  "is_block pb dev d \<longleftrightarrow> (ucast (pb_read pb 16 (pci_config_addr 0 dev 0 0) d) :: u16) = 0x1af4 \<and>
     (ucast (pb_read pb 16 (pci_config_addr 0 dev 0 2) d) :: u16) \<in> {0x1001, 0x1042}"

text \<open>The device with memory accesses and bus mastering switched on in the command register.\<close>

definition enabled :: "'d pci_bus \<Rightarrow> nat \<Rightarrow> 'd \<Rightarrow> 'd" where
  "enabled pb dev d = pb_write pb 16 (pci_config_addr 0 dev 0 4)
     (ucast ((ucast (pb_read pb 16 (pci_config_addr 0 dev 0 4) d) :: u16) OR 6)) d"

definition ready_regs :: "nat \<Rightarrow> virtio_regs \<Rightarrow> virtio_regs" where
  "ready_regs at r = r\<lparr>rg_status := 15, rg_select := 1, rg_features_lo := 0, rg_features_hi := 1, rg_q_select := 0, rg_q_size := 16,
     rg_q_enable := 1, rg_q_desc := of_nat at, rg_q_avail := of_nat (at + 256), rg_q_used := of_nat (at + 292), rg_q_high := [0, 0, 0]\<rparr>"

lemma find_caps_ok:
  assumes "chain (next_cap pb fn (ps_dev s)) (conf8 pb fn 0x34 (ps_dev s)) ps"
    and "(ucast (pb_read pb 16 (pci_config_addr 0 fn 0 6) (ps_dev s)) :: u16) AND 0x10 \<noteq> 0"
  shows "find_virtio_caps pb 0 fn 0 s = (Ok (Some (fold (cap_step pb fn (ps_dev s)) ps no_caps)), s)"
proof -
  note run = caps_from_chain [OF assms(1) chain_short [OF assms(1)], of no_caps]
  show ?thesis using assms(2)
    by (simp add: find_virtio_caps_def PCI_STATUS_def PCI_CAP_PTR_def bnd_Ok [where m = "caps_from _ _ _ _ _ _ _", OF run] ret_run)
qed

lemma scan_skips:
  "\<forall>dev \<in> set devs. \<not> is_block pb dev (ps_dev s) \<Longrightarrow> scan_from pb (devs @ rest) s = scan_from pb rest s"
proof (induction devs)
  case Nil
  then show ?case by simp
next
  case (Cons dev devs)
  then have "\<not> is_block pb dev (ps_dev s)" by auto
  then show ?case using Cons
    by (auto simp: is_block_def PCI_VENDOR_ID_def PCI_DEVICE_ID_def VIRTIO_VENDOR_ID_def VIRTIO_BLK_DEVICE_ID_LEGACY_def VIRTIO_BLK_DEVICE_ID_MODERN_def)
qed

lemma scan_finds:
  assumes "fn < 32" and "\<forall>dev < fn. \<not> is_block pb dev (ps_dev s)" and "is_block pb fn (ps_dev s)"
    and e: "enable_function pb fn s = (Ok (Some caps) :: ('e, virtio_caps option) res, s')"
  shows "scan_pci pb s = (Ok (Some (0, fn, 0, caps)) :: ('e, (nat \<times> nat \<times> nat \<times> virtio_caps) option) res, s')"
proof -
  have "[0..<32] = [0..<fn] @ fn # [Suc fn..<32]"
    using assms(1) upt_add_eq_append [of 0 fn "32 - fn"] by (simp add: upt_conv_Cons del: upt_rec_numeral)
  note split = this
  have skip: "\<forall>dev \<in> set [0..<fn]. \<not> is_block pb dev (ps_dev s)" using assms(2) by simp
  show ?thesis unfolding scan_pci_def split scan_skips [OF skip] using assms(1,3)
    by (auto simp: is_block_def PCI_VENDOR_ID_def PCI_DEVICE_ID_def VIRTIO_VENDOR_ID_def VIRTIO_BLK_DEVICE_ID_LEGACY_def VIRTIO_BLK_DEVICE_ID_MODERN_def
        bnd_Ok [where m = "enable_function _ _", OF e] ret_run simp del: upt_rec_numeral)
qed

lemma plus32_ok: "unat a + unat b < 2 ^ 32 \<Longrightarrow> plus32 a b = ret (a + b)"
  by (simp add: plus32_def)

lemma plus_next:
  "unat (ps_alloc_next s) + unat z < 2 ^ 32 \<Longrightarrow> bnd (\<lambda>s. plus32 (ps_alloc_next s) z s) f s = f (ps_alloc_next s + z) s"
  by (simp add: plus32_ok bnd_def ret_run)

section \<open>The platform\<close>

text \<open>The window of the host bridge for memory of devices: below it is the memory of the machine, above it the configuration space.\<close>

definition PCI_WINDOW_START :: nat where "PCI_WINDOW_START = 0x10000000"
definition PCI_WINDOW_END :: nat where "PCI_WINDOW_END = 0x3eff0000"

definition in_window :: "u32 \<Rightarrow> nat \<Rightarrow> bool" where
  "in_window b k \<longleftrightarrow> PCI_WINDOW_START \<le> unat b \<and> unat b + 2 ^ k \<le> PCI_WINDOW_END"

text \<open>
  The function \<open>fn\<close> of the bus has its common configuration at the offset \<open>coff\<close> of the memory behind the base address register \<open>cb\<close>; of
  its other registers nothing is said. The register \<open>cb\<close> keeps the bits of an address above the size \<open>2 ^ k\<close> of its memory, and its low four
  bits are flags (PCI, 6.2.5.1); \<open>below_4g\<close> says that the upper half of the address, which a 64-bit register has in the register behind,
  is zero. The memory answers when the command register has accesses to memory switched on and its address lies in the
  window of the host bridge (6.2.2). The registers of the common configuration are those of 4.1.4.3 of the virtio specification; a reset is
  complete when the write of the status returns, which the specification leaves to the device and the code relies on.
\<close>

locale virtio_platform =
  fixes pb :: "'d pci_bus" and fn :: nat and bar :: "'d \<Rightarrow> u32" and memory_on :: "'d \<Rightarrow> bool" and below_4g :: "'d \<Rightarrow> bool"
    and k :: nat and regs :: "'d \<Rightarrow> virtio_regs" and cb :: nat and coff :: nat
  assumes command: "v AND 6 = 6 \<Longrightarrow> d' = pb_write pb 16 (pci_config_addr 0 fn 0 4) v d \<Longrightarrow>
      memory_on d' \<and> bar d' = bar d \<and> below_4g d' = below_4g d \<and> regs d' = regs d"
    and bar_read: "pb_read pb 32 (pci_config_addr 0 fn 0 (0x10 + cb * 4)) d AND NOT 0xF = bar d"
    and bar_write: "d' = pb_write pb 32 (pci_config_addr 0 fn 0 (0x10 + cb * 4)) v d \<Longrightarrow>
      bar d' = v AND NOT (mask k) \<and> memory_on d' = memory_on d \<and> below_4g d' = below_4g d \<and> regs d' = regs d"
    and bar_size: "coff + 0x38 \<le> 2 ^ k" "k < 32"
    and reg_write: "memory_on d \<Longrightarrow> below_4g d \<Longrightarrow> in_window (bar d) k \<Longrightarrow> reg_width off = Some bits \<Longrightarrow>
      may_write off v (regs d) \<Longrightarrow> d' = pb_write pb bits (unat (bar d) + coff + off) v d \<Longrightarrow>
      regs d' = write_reg off v (regs d) \<and> bar d' = bar d \<and> memory_on d' \<and> below_4g d'"
    and reg_read: "memory_on d \<Longrightarrow> below_4g d \<Longrightarrow> in_window (bar d) k \<Longrightarrow>
        pb_read pb 8 (unat (bar d) + coff + 0x14) d = ucast (rg_status (regs d))"
      "memory_on d \<Longrightarrow> below_4g d \<Longrightarrow> in_window (bar d) k \<Longrightarrow> rg_q_select (regs d) = 0 \<Longrightarrow>
        pb_read pb 16 (unat (bar d) + coff + 0x1e) d = ucast (rg_notify_off (regs d))"
begin

lemma k_pos: "4 < k"
proof (rule ccontr)
  assume "\<not> 4 < k"
  then have "(2 :: nat) ^ k \<le> 2 ^ 4" by (intro power_increasing) simp_all
  with bar_size(1) show False by simp
qed

lemma bar_value: "conf32 pb fn (16 + cb * 4) d AND - 16 = bar d"
  using bar_read [of d] by (simp add: conf32_def)

text \<open>A window of its size is found for a base address that has none.\<close>

lemma assign_new:
  assumes b: "unat b = cb" and z: "bar (ps_dev s) = 0"
    and room: "unat (ps_alloc_next s) + 2 * 2 ^ k < 2 ^ 32"
    and a: "a = (ps_alloc_next s + (2 ^ k - 1)) AND NOT (mask k)"
  shows "\<exists>s'. pci_assign_bar pb 0 fn 0 b s = (Ok a, s') \<and> bar (ps_dev s') = a \<and> regs (ps_dev s') = regs (ps_dev s) \<and>
    memory_on (ps_dev s') = memory_on (ps_dev s) \<and> below_4g (ps_dev s') = below_4g (ps_dev s) \<and> ps_alloc_next s' = a + 2 ^ k"
proof -
  let ?d = "ps_dev s" and ?n = "ps_alloc_next s" and ?off = "16 + cb * 4"
  note k = k_pos bar_size(2)
  have a': "a = (?n + 2 ^ k - 1) AND NOT (mask k)" unfolding a by (simp add: algebra_simps)
  define d1 where "d1 = pb_write pb 32 (pci_config_addr 0 fn 0 ?off) (- 1) ?d"
  define d2 where "d2 = pb_write pb 32 (pci_config_addr 0 fn 0 ?off) a d1"
  define sm where "sm = conf32 pb fn ?off d1"
  have ones: "(0xFFFFFFFF :: u32) = - 1" by code_simp
  note b1 = bar_write [OF d1_def] and b2 = bar_write [OF d2_def]
  have sm: "sm AND - 16 = NOT (mask k)" using bar_value [of d1] b1 by (simp add: sm_def)
  have sn: "sm \<noteq> 0" "sm \<noteq> - 1"
    using arg_cong [OF sm, of "\<lambda>w. bit w 31"] arg_cong [OF sm, of "\<lambda>w. bit w 4"] k by (auto simp: bit_simps)
  have u: "unat (2 ^ k :: u32) = 2 ^ k" by (rule unat_exp [OF k(2)])
  have e: "unat (?n + 2 ^ k) = unat ?n + 2 ^ k" using room u by (simp add: unat_word_ariths)
  have "unat (mask k :: u32) = 2 ^ k - 1"
    using u unat_minus_one [of "2 ^ k :: u32"] by (metis mask_eq_exp_minus_1 power_not_zero unat_0 zero_neq_numeral)
  then have "unat (mask k :: u32) + unat (1 :: u32) < 2 ^ 32" using room by simp
  moreover have "NOT sm OR 15 = mask k" using arg_cong [OF sm, of "NOT"] by simp
  ultimately have sz: "plus32 (NOT sm OR 15) 1 = ret (2 ^ k)" by (simp add: plus32_ok mask_eq_exp_minus_1)
  have pos: "?n + 2 ^ k \<noteq> 0"
  proof
    assume "?n + 2 ^ k = 0"
    then have "unat (?n + 2 ^ k) = 0" by simp
    then show False using e by simp
  qed
  have "unat a \<le> unat (?n + 2 ^ k - 1)" unfolding a' unat_align by (rule div_times_less_eq_dividend)
  then have ale: "unat a \<le> unat ?n + 2 ^ k" using e unat_minus_one [OF pos] by linarith
  then have an: "unat a + unat (2 ^ k :: u32) < 2 ^ 32" using room u by simp
  have nx: "unat ?n + unat (2 ^ k :: u32) < 2 ^ 32" using room u by simp
  have run: "pci_assign_bar pb 0 fn 0 b s = (Ok a, s\<lparr>ps_dev := d2, ps_alloc_next := a + 2 ^ k\<rparr>)"
    using z sn nx an
    by (simp add: pci_assign_bar_def Let_def PCI_BAR0_def b bar_value pci_write32_def ones ret_run d2_def sz plus_next plus32_ok a'
        flip: d1_def sm_def mask_eq_exp_minus_1)
  have "a AND NOT (mask k) = a" by (simp add: a and.assoc)
  with run b1 b2 show ?thesis by auto
qed

text \<open>The registers of a device whose window is at \<open>b\<close>.\<close>

definition placed :: "u32 \<Rightarrow> 'd \<Rightarrow> bool" where
  "placed b d \<longleftrightarrow> bar d = b \<and> memory_on d \<and> below_4g d \<and> in_window b k"

lemma reg_at:
  assumes "placed b d" and "d' = pb_write pb bits (unat b + coff + off) v d" and "reg_width off = Some bits" and "may_write off v (regs d)"
  shows "placed b d' \<and> regs d' = write_reg off v (regs d)"
  using assms reg_write [of d off bits v d'] by (auto simp: placed_def)

lemma negotiate_ok:
  assumes b: "placed b (ps_dev s)" and acc: "rg_accepts (regs (ps_dev s)) 0 1"
  shows "\<exists>d'. negotiate pb (unat b + coff) s = (Ok (Some 11) :: ('e, u8 option) res, s\<lparr>ps_dev := d'\<rparr>) \<and> placed b d' \<and>
    regs d' = (regs (ps_dev s))\<lparr>rg_status := 11, rg_select := 1, rg_features_lo := 0, rg_features_hi := 1, rg_q_select := 0,
      rg_q_size := rg_q_max (regs (ps_dev s)), rg_q_enable := 0, rg_q_desc := 0, rg_q_avail := 0, rg_q_used := 0, rg_q_high := [0, 0, 0]\<rparr>"
proof -
  let ?a = "unat b + coff" and ?d = "ps_dev s"
  note w = reg_width_def may_write_def write_reg_def write_status_def accepted_def
  define d1 where "d1 = pb_write pb 8 (?a + 0x14) 0 ?d"
  define d2 where "d2 = pb_write pb 8 (?a + 0x14) 1 d1"
  define d3 where "d3 = pb_write pb 8 (?a + 0x14) 3 d2"
  define d4 where "d4 = pb_write pb 32 (?a + 0x08) 1 d3"
  define d5 where "d5 = pb_write pb 32 (?a + 0x0c) 1 d4"
  define d6 where "d6 = pb_write pb 8 (?a + 0x14) 11 d5"
  have 1: "placed b d1 \<and> regs d1 = write_reg 0x14 0 (regs ?d)" by (rule reg_at [OF b d1_def]) (simp_all add: w)
  then have 2: "placed b d2 \<and> regs d2 = write_reg 0x14 1 (regs d1)" by (intro reg_at [OF _ d2_def]) (simp_all add: w)
  with 1 have 3: "placed b d3 \<and> regs d3 = write_reg 0x14 3 (regs d2)" by (intro reg_at [OF _ d3_def]) (simp_all add: w)
  with 2 have 4: "placed b d4 \<and> regs d4 = write_reg 0x08 1 (regs d3)" by (intro reg_at [OF _ d4_def]) (simp_all add: w)
  with 1 2 3 have 5: "placed b d5 \<and> regs d5 = write_reg 0x0c 1 (regs d4)" by (intro reg_at [OF _ d5_def]) (simp_all add: w)
  with 1 2 3 4 have 6: "placed b d6 \<and> regs d6 = write_reg 0x14 11 (regs d5)" by (intro reg_at [OF _ d6_def]) (simp_all add: w)
  have r6: "regs d6 = (regs ?d)\<lparr>rg_status := 11, rg_select := 1, rg_features_lo := 0, rg_features_hi := 1, rg_q_select := 0,
      rg_q_size := rg_q_max (regs ?d), rg_q_enable := 0, rg_q_desc := 0, rg_q_avail := 0, rg_q_used := 0, rg_q_high := [0, 0, 0]\<rparr>"
    using 1 2 3 4 5 6 acc by (simp add: w)
  have "pb_read pb 8 (?a + 0x14) d6 = 11" using reg_read(1) [of d6] 6 by (simp add: placed_def r6)
  then have "negotiate pb ?a s = (Ok (Some 11) :: ('e, u8 option) res, s\<lparr>ps_dev := d6\<rparr>)"
    by (simp add: negotiate_def Let_def VIRTIO_PCI_COMMON_STATUS_def VIRTIO_PCI_COMMON_GFSELECT_def VIRTIO_PCI_COMMON_GF_def
        VIRTIO_STATUS_ACKNOWLEDGE_def VIRTIO_STATUS_DRIVER_def VIRTIO_STATUS_FEATURES_OK_def VIRTIO_F_VERSION_1_def ret_run
        flip: d1_def d2_def d3_def d4_def d5_def d6_def)
  with 6 r6 show ?thesis by blast
qed

lemma setup_queue_ok:
  assumes b: "placed b (ps_dev s)" and at: "at = (ptr + 4095) div 4096 * 4096"
    and r: "rg_status (regs (ps_dev s)) = 11" "accepted (regs (ps_dev s))" "rg_q_enable (regs (ps_dev s)) = 0" "16 \<le> rg_q_max (regs (ps_dev s))"
  shows "\<exists>d'. setup_queue pb (unat b + coff) notify caps 11 ptr blk s =
      (Ok \<lparr>vs_notify_addr = notify + unat (rg_notify_off (regs (ps_dev s))) * unat (vc_notify_off_mult caps), vs_desc = at,
         vs_avail = at + 256, vs_used = at + 292, vs_blk = blk\<rparr> :: ('e, virtio_setup) res, s\<lparr>ps_dev := d'\<rparr>) \<and> placed b d' \<and>
    regs d' = (regs (ps_dev s))\<lparr>rg_status := 15, rg_q_select := 0, rg_q_size := 16, rg_q_enable := 1, rg_q_desc := of_nat at,
      rg_q_avail := of_nat (at + 256), rg_q_used := of_nat (at + 292)\<rparr>"
proof -
  let ?a = "unat b + coff" and ?d = "ps_dev s"
  note w = reg_width_def may_write_def write_reg_def write_status_def accepted_def
  define d1 where "d1 = pb_write pb 16 (?a + 0x16) 0 ?d"
  define d2 where "d2 = pb_write pb 16 (?a + 0x18) 16 d1"
  define d3 where "d3 = pb_write pb 32 (?a + 0x20) (of_nat at) d2"
  define d4 where "d4 = pb_write pb 32 (?a + 0x28) (of_nat at + 256) d3"
  define d5 where "d5 = pb_write pb 32 (?a + 0x30) (292 + of_nat at) d4"
  define d6 where "d6 = pb_write pb 16 (?a + 0x1c) 1 d5"
  define d7 where "d7 = pb_write pb 8 (?a + 0x14) 15 d6"
  have "unat (rg_q_max (regs ?d)) < 2 ^ LENGTH(16)" by (rule unsigned_less)
  then have max: "(16 :: u32) \<le> ucast (rg_q_max (regs ?d))"
    using r(4) by (simp add: word_le_nat_alt unsigned_ucast_eq take_bit_nat_eq_self)
  have 1: "placed b d1 \<and> regs d1 = (regs ?d)\<lparr>rg_q_select := 0\<rparr>" using reg_at [OF b d1_def] by (simp add: w)
  with r have 2: "placed b d2 \<and> regs d2 = (regs d1)\<lparr>rg_q_size := 16\<rparr>" using reg_at [OF _ d2_def] max by (simp add: w)
  with 1 r have 3: "placed b d3 \<and> regs d3 = (regs d2)\<lparr>rg_q_desc := of_nat at\<rparr>" using reg_at [OF _ d3_def] by (simp add: w)
  with 1 2 r have 4: "placed b d4 \<and> regs d4 = (regs d3)\<lparr>rg_q_avail := of_nat at + 256\<rparr>" using reg_at [OF _ d4_def] by (simp add: w)
  with 1 2 3 r have 5: "placed b d5 \<and> regs d5 = (regs d4)\<lparr>rg_q_used := 292 + of_nat at\<rparr>" using reg_at [OF _ d5_def] by (simp add: w)
  with 1 2 3 4 r have 6: "placed b d6 \<and> regs d6 = (regs d5)\<lparr>rg_q_enable := 1\<rparr>" using reg_at [OF _ d6_def] by (simp add: w)
  with 1 2 3 4 5 r have 7: "placed b d7 \<and> regs d7 = (regs d6)\<lparr>rg_status := 15\<rparr>" using reg_at [OF _ d7_def] by (simp add: w)
  have r7: "regs d7 = (regs ?d)\<lparr>rg_status := 15, rg_q_select := 0, rg_q_size := 16, rg_q_enable := 1, rg_q_desc := of_nat at,
      rg_q_avail := of_nat (at + 256), rg_q_used := of_nat (at + 292)\<rparr>"
    using 1 2 3 4 5 6 7 by simp
  have uc: "(ucast (ucast w :: u32) :: u16) = w" for w by transfer simp
  have n: "pb_read pb 16 (?a + 0x1e) d2 = ucast (rg_notify_off (regs ?d))"
    using reg_read(2) [of d2] 1 2 by (simp add: placed_def)
  have "setup_queue pb ?a notify caps 11 ptr blk s =
      (Ok \<lparr>vs_notify_addr = notify + unat (rg_notify_off (regs (ps_dev s))) * unat (vc_notify_off_mult caps), vs_desc = at,
         vs_avail = at + 256, vs_used = at + 292, vs_blk = blk\<rparr> :: ('e, virtio_setup) res, s\<lparr>ps_dev := d7\<rparr>)"
    using n uc
    by (simp add: setup_queue_def Let_def VIRTIO_PCI_COMMON_STATUS_def VIRTIO_PCI_COMMON_Q_SELECT_def VIRTIO_PCI_COMMON_Q_SIZE_def
        VIRTIO_PCI_COMMON_Q_NOTIFY_OFF_def VIRTIO_PCI_COMMON_Q_DESCLO_def VIRTIO_PCI_COMMON_Q_AVAILLO_def VIRTIO_PCI_COMMON_Q_USEDLO_def
        VIRTIO_PCI_COMMON_Q_ENABLE_def VIRTIO_STATUS_DRIVER_OK_def QUEUE_SIZE_def ret_run
        flip: at d1_def d2_def d3_def d4_def d5_def d6_def d7_def)
  with 7 r7 show ?thesis by blast
qed

lemma enabled_ok: "memory_on (enabled pb fn d) \<and> bar (enabled pb fn d) = bar d \<and> below_4g (enabled pb fn d) = below_4g d \<and>
    regs (enabled pb fn d) = regs d"
proof (rule command [OF _ enabled_def])
  show "(ucast ((x :: u16) OR 6) :: u32) AND 6 = 6" for x
    unfolding unsigned_or_eq by (rule bit_eqI) (auto simp: bit_simps)
qed

text \<open>The function is enabled and its window placed, then the device is set up.\<close>

lemma virtio_ready:
  assumes fn: "fn < 32" "\<forall>dev < fn. \<not> is_block pb dev d" "is_block pb fn d"
    and e: "e = enabled pb fn d" "(ucast (pb_read pb 16 (pci_config_addr 0 fn 0 6) e) :: u16) AND 0x10 \<noteq> 0"
    and ps: "chain (next_cap pb fn e) (conf8 pb fn 0x34 e) ps"
    and caps: "caps = fold (cap_step pb fn e) ps no_caps" "unat (vc_common_cfg_bar caps) = cb" "unat (vc_common_cfg_offset caps) = coff"
      "vc_notify_bar caps = vc_common_cfg_bar caps"
    and cb: "bar d = 0" "below_4g d" "PCI_WINDOW_START \<le> unat next" "unat next + 2 * 2 ^ k \<le> PCI_WINDOW_END"
    and a: "a = (next + (2 ^ k - 1)) AND NOT (mask k)"
    and acc: "rg_accepts (regs d) 0 1" "16 \<le> rg_q_max (regs d)"
    and at: "at = (ptr + 4095) div 4096 * 4096"
  shows "\<exists>d'. virtio_init pb ptr req st \<lparr>ps_dev = d, ps_alloc_next = next\<rparr> =
      (Ok (Some \<lparr>vs_notify_addr = unat a + unat (vc_notify_offset caps) + unat (rg_notify_off (regs d)) * unat (vc_notify_off_mult caps),
         vs_desc = at, vs_avail = at + 256, vs_used = at + 292, vs_blk = zeroed_queue req st\<rparr>) :: ('e, virtio_setup option) res,
       \<lparr>ps_dev = d', ps_alloc_next = a + 2 ^ k\<rparr>) \<and>
    placed a d' \<and> regs d' = ready_regs at (regs d)"
proof -
  let ?s = "\<lparr>ps_dev = d, ps_alloc_next = next\<rparr>" and ?s1 = "\<lparr>ps_dev = e, ps_alloc_next = next\<rparr>"
  note en = enabled_ok [of d, folded e(1)]
  have room: "unat next + 2 * 2 ^ k < 2 ^ 32" using cb(4) by (simp add: PCI_WINDOW_END_def)
  have "\<exists>s'. pci_assign_bar pb 0 fn 0 (vc_common_cfg_bar caps) ?s1 = (Ok a :: ('e, u32) res, s') \<and> bar (ps_dev s') = a \<and>
      regs (ps_dev s') = regs (ps_dev ?s1) \<and> memory_on (ps_dev s') = memory_on (ps_dev ?s1) \<and>
      below_4g (ps_dev s') = below_4g (ps_dev ?s1) \<and> ps_alloc_next s' = a + 2 ^ k"
    by (rule assign_new [OF caps(2)]) (use en cb(1) room a in simp_all)
  then obtain s2 where s2: "pci_assign_bar pb 0 fn 0 (vc_common_cfg_bar caps) ?s1 = (Ok a :: ('e, u32) res, s2)"
      "bar (ps_dev s2) = a" "regs (ps_dev s2) = regs d" "memory_on (ps_dev s2)" "below_4g (ps_dev s2)" "ps_alloc_next s2 = a + 2 ^ k"
    using en cb(2) by auto
  have "find_virtio_caps pb 0 fn 0 ?s1 = (Ok (Some caps) :: ('e, virtio_caps option) res, ?s1)"
    using find_caps_ok [of pb fn ?s1 ps] e(2) ps caps(1) by simp
  note f = this
  have "enable_function pb fn ?s = (Ok (Some caps) :: ('e, virtio_caps option) res, s2)"
    by (simp add: enable_function_def PCI_COMMAND_def pci_write16_def ret_run flip: enabled_def e(1))
      (simp add: bnd_Ok [where m = "find_virtio_caps _ _ _ _", OF f] bnd_Ok [where m = "pci_assign_bar _ _ _ _ _", OF s2(1)] caps(4) ret_run)
  with fn have sc: "scan_pci pb ?s = (Ok (Some (0, fn, 0, caps)) :: ('e, (nat \<times> nat \<times> nat \<times> virtio_caps) option) res, s2)"
    by (intro scan_finds) simp_all
  have w: "unat a = (unat next + (2 ^ k - 1)) div 2 ^ k * 2 ^ k"
    unfolding a by (rule window_address [OF bar_size(2) room])
  have "(unat next + (2 ^ k - 1)) mod 2 ^ k < 2 ^ k" by simp
  then have "(unat next + (2 ^ k - 1)) mod 2 ^ k \<le> 2 ^ k - 1" by linarith
  then have lo: "unat next \<le> unat a" unfolding w
    using div_mult_mod_eq [of "unat next + (2 ^ k - 1)" "2 ^ k"] by linarith
  have "unat a \<le> unat next + (2 ^ k - 1)" unfolding w by (rule div_times_less_eq_dividend)
  then have "unat a + 2 ^ k \<le> PCI_WINDOW_END" using cb(4) by linarith
  with lo cb(3) have iw: "in_window a k" "a \<noteq> 0" by (auto simp: in_window_def PCI_WINDOW_START_def)
  then have pl: "placed a (ps_dev s2)" using s2 by (simp add: placed_def)
  have v: "conf32 pb fn (16 + unat (vc_common_cfg_bar caps) * 4) (ps_dev s2) AND - 16 = a"
    using bar_value [of "ps_dev s2"] s2(2) caps(2) by simp
  obtain d3 where d3: "negotiate pb (unat a + coff) s2 = (Ok (Some 11) :: ('e, u8 option) res, s2\<lparr>ps_dev := d3\<rparr>)" "placed a d3"
    "regs d3 = (regs d)\<lparr>rg_status := 11, rg_select := 1, rg_features_lo := 0, rg_features_hi := 1, rg_q_select := 0,
      rg_q_size := rg_q_max (regs d), rg_q_enable := 0, rg_q_desc := 0, rg_q_avail := 0, rg_q_used := 0, rg_q_high := [0, 0, 0]\<rparr>"
    using negotiate_ok [OF pl, where 'e = 'e] acc(1) s2(3) by auto
  have "placed a (ps_dev (s2\<lparr>ps_dev := d3\<rparr>))" using d3(2) by simp
  from setup_queue_ok [OF this at, of "unat a + unat (vc_notify_offset caps)" caps "zeroed_queue req st", where 'e = 'e] acc d3(3)
  obtain d4 where d4: "setup_queue pb (unat a + coff) (unat a + unat (vc_notify_offset caps)) caps 11 ptr (zeroed_queue req st)
      (s2\<lparr>ps_dev := d3\<rparr>) = (Ok \<lparr>vs_notify_addr = unat a + unat (vc_notify_offset caps) + unat (rg_notify_off (regs d)) * unat (vc_notify_off_mult caps),
         vs_desc = at, vs_avail = at + 256, vs_used = at + 292, vs_blk = zeroed_queue req st\<rparr> :: ('e, virtio_setup) res, s2\<lparr>ps_dev := d4\<rparr>)"
    "placed a d4" "regs d4 = ready_regs at (regs d)"
    by (auto simp: ready_regs_def accepted_def)
  show ?thesis
    using d4(2,3) iw(2) v s2(6)
    by (intro exI [of _ d4]) (simp add: virtio_init_def virtio_blk_new_def PCI_BAR0_def bnd_Ok [where m = "scan_pci _", OF sc] caps(3)
        bnd_Ok [where m = "negotiate _ _", OF d3(1)] bnd_Ok [where m = "setup_queue _ _ _ _ _ _ _", OF d4(1)] Let_def ret_run)
qed

end

end
