(* ===== verification/VirtioProps.thy ===== *)
theory VirtioProps
  imports VirtioInitSpec
begin

text \<open>The properties of the start of the block device driver.\<close>

unbundle bit_operations_syntax

section \<open>The search of the capabilities\<close>

text \<open>C38: the search of the capabilities returns exactly when the function has no list or the list comes to a zero pointer; a list that
  comes back to itself keeps it running, and what it returns are the last capabilities of each kind.\<close>

theorem capability_search_ends:
  fixes pb :: "'d pci_bus" and s :: "'d pci_state"
  defines "d \<equiv> ps_dev s"
  shows "fst (find_virtio_caps pb 0 dev 0 s) =
    (if (ucast (pb_read pb 16 (pci_config_addr 0 dev 0 6) d) :: u16) AND 0x10 = 0 then Ok None
     else if \<exists>ps. chain (next_cap pb dev d) (conf8 pb dev 0x34 d) ps
     then Ok (Some (fold (cap_step pb dev d) (THE ps. chain (next_cap pb dev d) (conf8 pb dev 0x34 d) ps) no_caps))
     else Loop)"
proof -
  let ?p = "conf8 pb dev 0x34 d"
  show ?thesis
  proof (cases "\<exists>ps. chain (next_cap pb dev d) ?p ps")
    case True
    then obtain ps where ps: "chain (next_cap pb dev d) ?p ps" ..
    then have the: "(THE ps. chain (next_cap pb dev d) ?p ps) = ps" using chain_unique by (metis the_equality)
    note run = caps_from_chain [OF ps [unfolded d_def] chain_short [OF ps]]
    show ?thesis unfolding the using ps
      by (auto simp: find_virtio_caps_def PCI_STATUS_def PCI_CAP_PTR_def d_def bnd_Ok [where m = "caps_from _ _ _ _ _ _ _", OF run] ret_run)
  next
    case False
    then have "\<nexists>ps. chain (next_cap pb dev (ps_dev s)) ?p ps" unfolding d_def .
    note run = bnd_Loop [where m = "caps_from _ _ _ _ _ _ _", OF caps_from_spins [OF this]]
    show ?thesis using False
      by (auto simp: find_virtio_caps_def PCI_STATUS_def PCI_CAP_PTR_def d_def ret_run run [unfolded d_def])
  qed
qed

section \<open>The device is ready\<close>

text \<open>
  A platform with one device, whose capabilities lie in the memory behind its only base address, a prefetchable one of 64 bits in the
  registers 4 and 5, as a device of QEMU has it; the registers 0 to 3 are not implemented and read as zero.
\<close>

record sample_platform =
  sp_command :: u16
  sp_low :: u32
  sp_high :: u32
  sp_regs :: virtio_regs

definition sample_conf :: "nat \<Rightarrow> u32" where
  "sample_conf off = (case map_of [(0, 0x1af4), (2, 0x1042), (6, 0x10), (0x34, 0x40), (0x40, 9), (0x41, 0x54), (0x43, 1), (0x44, 4),
     (0x54, 9), (0x57, 2), (0x58, 4), (0x5c, 0x3000), (0x64, 4)] off of Some v \<Rightarrow> v | None \<Rightarrow> 0)"

definition sample_bar :: "sample_platform \<Rightarrow> u32" where "sample_bar d = sp_low d AND NOT 0xF"

definition sample_decodes :: "nat \<Rightarrow> sample_platform \<Rightarrow> bool" where
  "sample_decodes a d \<longleftrightarrow> sp_command d AND 2 \<noteq> 0 \<and> sp_high d = 0 \<and> unat (sample_bar d) \<le> a \<and> a < unat (sample_bar d) + 2 ^ 14"

definition sample_bus :: "sample_platform pci_bus" where
  "sample_bus = \<lparr>
     pb_read = (\<lambda>bits a d.
       if PCI_ECAM_BASE \<le> a then
         let dev = (a - PCI_ECAM_BASE) div 2 ^ 15; off = (a - PCI_ECAM_BASE) mod 2 ^ 15
         in if dev \<noteq> 1 then 0xFFFFFFFF
            else if off = 4 then ucast (sp_command d)
            else if off = 0x20 then sp_low d OR 0xC
            else if off = 0x24 then sp_high d
            else sample_conf off
       else if sample_decodes a d then
         (if a = unat (sample_bar d) + 0x14 then ucast (rg_status (sp_regs d))
          else if a = unat (sample_bar d) + 0x1e then (if rg_q_select (sp_regs d) = 0 then ucast (rg_notify_off (sp_regs d)) else 0)
          else 0)
       else 0xFFFFFFFF),
     pb_write = (\<lambda>bits a v d.
       if PCI_ECAM_BASE \<le> a then
         let dev = (a - PCI_ECAM_BASE) div 2 ^ 15; off = (a - PCI_ECAM_BASE) mod 2 ^ 15
         in if dev \<noteq> 1 then d
            else if off = 4 then d\<lparr>sp_command := ucast v AND 7\<rparr>
            else if off = 0x20 then d\<lparr>sp_low := v AND NOT (mask 14)\<rparr>
            else if off = 0x24 then d\<lparr>sp_high := v\<rparr>
            else d
       else if sample_decodes a d then d\<lparr>sp_regs := write_reg (a - unat (sample_bar d)) v (sp_regs d)\<rparr>
       else d)\<rparr>"

definition sample_memory_on :: "sample_platform \<Rightarrow> bool" where "sample_memory_on d \<longleftrightarrow> sp_command d AND 2 \<noteq> 0"
definition sample_below :: "sample_platform \<Rightarrow> bool" where "sample_below d \<longleftrightarrow> sp_high d = 0"

lemma sample_address: "off < 0x1000 \<Longrightarrow> (pci_config_addr 0 dev 0 off - PCI_ECAM_BASE) div 2 ^ 15 = dev \<and>
    (pci_config_addr 0 dev 0 off - PCI_ECAM_BASE) mod 2 ^ 15 = off \<and> PCI_ECAM_BASE \<le> pci_config_addr 0 dev 0 off"
  by (simp add: pci_config_addr_def push_bit_eq_mult)

lemma sample_config:
  assumes "off < 0x1000"
  shows "pb_read sample_bus bits (pci_config_addr 0 1 0 off) d =
      (if off = 4 then ucast (sp_command d) else if off = 0x20 then sp_low d OR 0xC else if off = 0x24 then sp_high d else sample_conf off)"
    "pb_write sample_bus bits (pci_config_addr 0 1 0 off) v d =
      (if off = 4 then d\<lparr>sp_command := ucast v AND 7\<rparr> else if off = 0x20 then d\<lparr>sp_low := v AND NOT (mask 14)\<rparr>
       else if off = 0x24 then d\<lparr>sp_high := v\<rparr> else d)"
    "dev \<noteq> 1 \<Longrightarrow> pb_read sample_bus bits (pci_config_addr 0 dev 0 off) d = 0xFFFFFFFF"
  using sample_address [OF assms, of dev] sample_address [OF assms, of 1] by (simp_all add: sample_bus_def Let_def del: mod_eq_nat1E)

lemmas sample_access = sample_config [unfolded One_nat_def]

lemma sample_registers:
  assumes "sample_memory_on d" and "sample_below d" and "in_window (sample_bar d) 14" and "off < 0x38"
  shows "pb_write sample_bus bits (unat (sample_bar d) + off) v d = d\<lparr>sp_regs := write_reg off v (sp_regs d)\<rparr>"
    "pb_read sample_bus 8 (unat (sample_bar d) + 0x14) d = ucast (rg_status (sp_regs d))"
    "rg_q_select (sp_regs d) = 0 \<Longrightarrow> pb_read sample_bus 16 (unat (sample_bar d) + 0x1e) d = ucast (rg_notify_off (sp_regs d))"
  using assms
  by (simp_all add: sample_bus_def sample_decodes_def sample_memory_on_def sample_below_def in_window_def PCI_WINDOW_END_def PCI_ECAM_BASE_def)

lemma sample_widths: "reg_width off = Some bits \<Longrightarrow> off < 0x38"
  by (auto simp: reg_width_def split: if_splits)

lemma sample_platform_laws: "virtio_platform sample_bus 1 sample_bar sample_memory_on sample_below 14 sp_regs 4 0"
proof (unfold_locales, goal_cases)
  case (1 v d' d)
  have "bit v 1" using arg_cong [OF 1(1), of "\<lambda>w. bit w 1"] by (simp add: bit_simps bit_numeral_rec)
  then have "bit ((ucast v AND 7) AND 2 :: u16) 1" by (simp add: bit_simps bit_numeral_rec)
  then have "(ucast v AND 7) AND 2 \<noteq> (0 :: u16)" by (metis bit_0_eq bot_apply bot_bool_def)
  then show ?case using 1 by (simp add: sample_access(2) sample_memory_on_def sample_below_def sample_bar_def)
next
  case (2 d)
  have "(w OR 0xC) AND NOT 0xF = (w AND NOT 0xF :: u32)" for w by (simp add: bit.conj_disj_distrib2)
  then show ?case by (simp add: sample_access(1) sample_bar_def)
next
  case (3 d' v d)
  have "NOT (mask 14) AND NOT 0xF = (NOT (mask 14) :: u32)" by code_simp
  then have "(v AND NOT (mask 14)) AND NOT 0xF = (v AND NOT (mask 14) :: u32)" by (simp only: and.assoc)
  then show ?case using 3 by (simp add: sample_access(2) sample_bar_def sample_memory_on_def sample_below_def)
next
  case (6 d off bits v d')
  have "sample_bar (d\<lparr>sp_regs := r\<rparr>) = sample_bar d" "sample_memory_on (d\<lparr>sp_regs := r\<rparr>) = sample_memory_on d"
    "sample_below (d\<lparr>sp_regs := r\<rparr>) = sample_below d" for r
    by (simp_all add: sample_bar_def sample_memory_on_def sample_below_def)
  then show ?case using 6 sample_registers(1) [OF 6(1-3) sample_widths [OF 6(4)], of bits v] by simp
next
  case (7 d)
  then show ?case using sample_registers(2) [of d 0] by simp
next
  case (8 d)
  then show ?case using sample_registers(3) [of d 0] by simp
qed simp_all

interpretation sample: virtio_platform sample_bus 1 sample_bar sample_memory_on sample_below 14 sp_regs 4 0
  by (rule sample_platform_laws)

text \<open>C37: the bus is one of PCI on which the first function with the identifiers of a block device is a virtio device. Its list of
  capabilities, as it reads with memory accesses switched on, ends and puts both structures behind one base address register, which has no
  address yet; below the end of the window of the host bridge there is room for it; the device accepts the feature \<open>VERSION_1\<close> alone,
  has a queue of 16 entries or more, and completes a reset at once, for which the code does not wait. Then the start of the driver places
  the memory of the device at the next multiple of its size, with accesses switched on, takes the device through reset,
  acknowledgement and negotiation to a live queue, and returns an idle driver with the page aligned queue that the
  device was told and the address at which it is notified. Nothing is assumed of the other base address registers.\<close>

theorem virtio_blk_ready:
  assumes "virtio_platform pb fn bar memory_on below_4g k regs cb (unat (vc_common_cfg_offset caps))"
    and "fn < 32" and "\<forall>dev < fn. \<not> is_block pb dev d" and "is_block pb fn d"
    and "e = enabled pb fn d" and "(ucast (pb_read pb 16 (pci_config_addr 0 fn 0 6) e) :: u16) AND 0x10 \<noteq> 0"
    and "chain (next_cap pb fn e) (conf8 pb fn 0x34 e) ps"
    and "caps = fold (cap_step pb fn e) ps no_caps" and "vc_notify_bar caps = vc_common_cfg_bar caps"
    and "unat (vc_common_cfg_bar caps) = cb" and "bar d = 0" and "below_4g d"
    and "PCI_WINDOW_START \<le> unat next" and room: "unat next + 2 * 2 ^ k \<le> PCI_WINDOW_END"
    and a: "a = (next + (2 ^ k - 1)) AND NOT (mask k)"
    and "rg_accepts (regs d) 0 1" and "16 \<le> rg_q_max (regs d)"
  shows "\<exists>vs d'. virtio_init pb ptr req st \<lparr>ps_dev = d, ps_alloc_next = next\<rparr> =
      (Ok (Some vs) :: ('e, virtio_setup option) res, \<lparr>ps_dev = d', ps_alloc_next = a + 2 ^ k\<rparr>) \<and>
    bar d' = a \<and> memory_on d' \<and> unat a = (unat next + (2 ^ k - 1)) div 2 ^ k * 2 ^ k \<and> regs d' = ready_regs (vs_desc vs) (regs d) \<and>
    vs_notify_addr vs = unat a + unat (vc_notify_offset caps) + unat (rg_notify_off (regs d)) * unat (vc_notify_off_mult caps) \<and>
    4096 dvd vs_desc vs \<and> ptr \<le> vs_desc vs \<and> vs_avail vs = vs_desc vs + 256 \<and> vs_used vs = vs_desc vs + 292 \<and>
    vs_used vs + 132 \<le> ptr + 8616 \<and> idle (vs_blk vs)"
proof -
  let ?at = "(ptr + 4095) div 4096 * 4096"
  have "k < 32" using virtio_platform.bar_size [OF assms(1)] by simp
  moreover have "unat next + 2 * 2 ^ k < 2 ^ 32" using room by (simp add: PCI_WINDOW_END_def)
  ultimately have w: "unat a = (unat next + (2 ^ k - 1)) div 2 ^ k * 2 ^ k" unfolding a by (rule window_address)
  have i: "idle (zeroed_queue req st)" by (simp add: idle_def ring_ok_def zeroed_queue_def QUEUE_SIZE_def)
  have at: "4096 dvd ?at" "ptr \<le> ?at" "?at + 292 + 132 \<le> ptr + 8616"
    using div_mult_mod_eq [of "ptr + 4095" 4096] mod_less_divisor [of 4096 "ptr + 4095"] by (simp, linarith, linarith)
  let ?vs = "\<lparr>vs_notify_addr = unat a + unat (vc_notify_offset caps) + unat (rg_notify_off (regs d)) * unat (vc_notify_off_mult caps),
      vs_desc = ?at, vs_avail = ?at + 256, vs_used = ?at + 292, vs_blk = zeroed_queue req st\<rparr>"
  have "\<exists>d'. virtio_init pb ptr req st \<lparr>ps_dev = d, ps_alloc_next = next\<rparr> =
      (Ok (Some ?vs) :: ('e, virtio_setup option) res, \<lparr>ps_dev = d', ps_alloc_next = a + 2 ^ k\<rparr>) \<and>
    virtio_platform.placed bar memory_on below_4g k a d' \<and> regs d' = ready_regs ?at (regs d)"
    by (rule virtio_platform.virtio_ready [OF assms(1-8,10) refl assms(9,11-17) refl])
  then obtain d' where "virtio_init pb ptr req st \<lparr>ps_dev = d, ps_alloc_next = next\<rparr> =
      (Ok (Some ?vs) :: ('e, virtio_setup option) res, \<lparr>ps_dev = d', ps_alloc_next = a + 2 ^ k\<rparr>)"
    "bar d' = a" "memory_on d'" "regs d' = ready_regs ?at (regs d)" unfolding virtio_platform.placed_def [OF assms(1)] by blast
  then show ?thesis using w i at by (intro exI [of _ ?vs] exI [of _ d']) simp
qed

definition sample_regs :: virtio_regs where
  "sample_regs = \<lparr>rg_status = 0, rg_select = 0, rg_features_lo = 0, rg_features_hi = 0, rg_accepts = (\<lambda>lo hi. lo = 0 \<and> hi = 1),
     rg_q_select = 0, rg_q_max = 256, rg_q_size = 256, rg_q_enable = 0, rg_q_desc = 0, rg_q_avail = 0, rg_q_used = 0,
     rg_q_high = [0, 0, 0], rg_notify_off = 2\<rparr>"

definition sample_device :: sample_platform where
  "sample_device = \<lparr>sp_command = 0, sp_low = 0, sp_high = 0, sp_regs = sample_regs\<rparr>"

lemma sample_enabled: "enabled sample_bus 1 sample_device = sample_device\<lparr>sp_command := 6\<rparr>"
proof -
  have "ucast (ucast (ucast (0 :: u16) :: u32) OR 6 :: u16) AND 7 = (6 :: u16)" by code_simp
  then show ?thesis unfolding enabled_def by (simp add: sample_access sample_device_def)
qed

text \<open>The allocator stands one byte behind its first address, so the memory is placed at the next multiple of its size.\<close>

lemma virtio_blk_ready_witness:
  "\<exists>vs d'. virtio_init sample_bus 0x5001 \<lparr>rq_type = 0, rq_reserved = 0, rq_sector = 0\<rparr> 0
      \<lparr>ps_dev = sample_device, ps_alloc_next = 0x10000001\<rparr> =
      (Ok (Some vs) :: (hfs_error, virtio_setup option) res, \<lparr>ps_dev = d', ps_alloc_next = 0x10008000\<rparr>) \<and>
    vs_notify_addr vs = 0x10007008 \<and> rg_status (sp_regs d') = 15 \<and> idle (vs_blk vs)"
proof -
  let ?d = sample_device and ?e = "sample_device\<lparr>sp_command := 6\<rparr>"
  let ?caps = "\<lparr>vc_common_cfg_bar = 4, vc_common_cfg_offset = 0, vc_notify_bar = 4, vc_notify_offset = 0x3000, vc_notify_off_mult = 4\<rparr>"
  note r = conf8_def conf32_def sample_access sample_conf_def
  have c: "chain (next_cap sample_bus 1 ?e) (conf8 sample_bus 1 0x34 ?e) [0x40, 0x54]"
    by (simp add: next_cap_def r)
  have f: "?caps = fold (cap_step sample_bus 1 ?e) [0x40, 0x54] no_caps"
    by (simp add: cap_step_def r no_caps_def)
  have a: "(0x10004000 :: u32) = (0x10000001 + (2 ^ 14 - 1)) AND NOT (mask 14)" by code_simp
  have 1: "virtio_platform sample_bus 1 sample_bar sample_memory_on sample_below 14 sp_regs 4 (unat (vc_common_cfg_offset ?caps))"
    using sample_platform_laws by simp
  have 2: "\<forall>dev < 1. \<not> is_block sample_bus dev ?d" "is_block sample_bus 1 ?d"
    "(ucast (pb_read sample_bus 16 (pci_config_addr 0 1 0 6) ?e) :: u16) AND 0x10 \<noteq> 0"
    by (simp_all add: is_block_def sample_access sample_conf_def)
  have 3: "vc_notify_bar ?caps = vc_common_cfg_bar ?caps" "unat (vc_common_cfg_bar ?caps) = 4" "sample_bar ?d = 0" "sample_below ?d"
    "rg_accepts (sp_regs ?d) 0 1" "16 \<le> rg_q_max (sp_regs ?d)"
    by (simp_all add: sample_bar_def sample_below_def sample_device_def sample_regs_def)
  have 4: "PCI_WINDOW_START \<le> unat (0x10000001 :: u32)" "unat (0x10000001 :: u32) + 2 * 2 ^ 14 \<le> PCI_WINDOW_END"
    by (simp_all add: PCI_WINDOW_START_def PCI_WINDOW_END_def)
  from virtio_blk_ready [OF 1 _ 2(1,2) sample_enabled [symmetric] 2(3) c f 3(1-4) 4 a 3(5,6), where
      req = "\<lparr>rq_type = 0, rq_reserved = 0, rq_sector = 0\<rparr>" and st = 0 and ptr = "0x5001" and 'e = hfs_error]
  obtain vs d' where r: "virtio_init sample_bus 0x5001 \<lparr>rq_type = 0, rq_reserved = 0, rq_sector = 0\<rparr> 0
      \<lparr>ps_dev = ?d, ps_alloc_next = 0x10000001\<rparr> =
      (Ok (Some vs) :: (hfs_error, virtio_setup option) res, \<lparr>ps_dev = d', ps_alloc_next = 0x10004000 + 2 ^ 14\<rparr>)"
    "sp_regs d' = ready_regs (vs_desc vs) (sp_regs ?d)"
    "vs_notify_addr vs = unat (0x10004000 :: u32) + unat (vc_notify_offset ?caps) + unat (rg_notify_off (sp_regs ?d)) * unat (vc_notify_off_mult ?caps)"
    "idle (vs_blk vs)" by auto
  from r(2) have "rg_status (sp_regs d') = 15" by (simp add: ready_regs_def)
  moreover from r(3) have "vs_notify_addr vs = 0x10007008" by (simp add: sample_regs_def sample_device_def)
  moreover have "0x10004000 + 2 ^ 14 = (0x10008000 :: u32)" by simp
  ultimately show ?thesis using r(1,4) by auto
qed

end
