(* ===== verification/Linker.thy ===== *)
theory Linker
  imports Prelude "HOL-Library.Sublist"
begin

text \<open>
  The wrapper around the linker (\<open>src/src/tools/linker-wrapper/main.rs\<close>). The linker that it runs is a parameter.
\<close>

section \<open>The linker wrapper\<close>

definition is_elf :: "string list \<Rightarrow> bool" where
  "is_elf args = list_ex (\<lambda>i. args ! i = ''-flavor'' \<and> i + 1 < length args \<and> args ! (i + 1) = ''gnu'') [0..<length args]"

definition is_macho :: "string list \<Rightarrow> bool" where
  "is_macho args \<longleftrightarrow> \<not> is_elf args \<and>
     list_ex (\<lambda>a. a = ''-arch'' \<or> a = ''-macho'' \<or> sublist ''apple-darwin'' a) args"

definition MACHO_HEAD :: "string list" where
  "MACHO_HEAD = [''-arch'', ''arm64'', ''-static'', ''-e'', ''_start'', ''-platform_version'', ''macos'', ''13.0.0'', ''13.0.0'']"

text \<open>The arms of the match with the same body are grouped; the first argument of the loop is \<open>skip_next\<close>.\<close>

definition IGNORED_ARGS :: "string list" where
  "IGNORED_ARGS = [''-fuse-ld=lld'', ''--fix-cortex-a53-843419'', ''--as-needed'', ''--eh-frame-hdr'', ''--gc-sections'']"

definition SKIPPING_ARGS :: "string list" where
  "SKIPPING_ARGS = [''-flavor'', ''-z'', ''-arch'', ''-mmacosx-version-min=11.0.0'', ''-Wl,-dead_strip'', ''-nodefaultlibs'']"

fun macho_args :: "bool \<Rightarrow> string list \<Rightarrow> string list" where
  "macho_args skip_next [] = []"
| "macho_args True (arg # args) = macho_args False args"
| "macho_args False (arg # args) =
     (if arg \<in> set IGNORED_ARGS then macho_args False args
      else if arg \<in> set SKIPPING_ARGS then macho_args True args
      else if arg = ''-Bstatic'' then ''-static'' # macho_args False args
      else if arg = ''-Bdynamic'' then ''-dynamic'' # macho_args False args
      else if prefix ''-fuse-ld='' arg then macho_args False args
      else arg # macho_args False args)"

fun elf_args :: "string list \<Rightarrow> string list" where
  "elf_args [] = []"
| "elf_args (arg # args) =
     (if arg \<in> {''-mmacosx-version-min=11.0.0'', ''-fuse-ld=lld'', ''-flavor'', ''gnu''} then elf_args args
      else if prefix ''-fuse-ld='' arg then elf_args args
      else arg # elf_args args)"

text \<open>The command that is run, and the exit code: of a linker that cannot be started it is a panic, of one that is killed 1.\<close>

definition linker_command :: "string list \<Rightarrow> string \<times> string list" where
  "linker_command args =
     (if is_macho args then (''ld64.lld'', MACHO_HEAD @ macho_args False args) else (''ld.lld'', elf_args args))"

definition linker_main :: "(string \<times> string list \<Rightarrow> int option option) \<Rightarrow> string list \<Rightarrow> ('s, 'e, int) act" where
  "linker_main run args =
     (case run (linker_command args) of
        None \<Rightarrow> panic
      | Some code \<Rightarrow> ret (case code of Some c \<Rightarrow> c | None \<Rightarrow> 1))"

end
