(* ===== verification/Firmware.thy ===== *)
theory Firmware
  imports Prelude
begin

text \<open>
  The search of a firmware (\<open>src/src/lib/ipsw-downloader/src/lib.rs\<close>). The request and the parser of the list are a parameter.
\<close>

section \<open>The list of firmwares\<close>

text \<open>A property list, as the crate \<open>plist\<close> gives it; strings are bytes.\<close>

datatype pvalue = PvDictionary "(bytes \<times> pvalue) list" | PvString bytes | PvOther

definition plain :: "string \<Rightarrow> bytes" where
  "plain s = map (\<lambda>c. of_nat (of_char c)) s"

definition dict_get :: "string \<Rightarrow> pvalue \<Rightarrow> pvalue option" where
  "dict_get k v = (case v of PvDictionary d \<Rightarrow> map_of d (plain k) | _ \<Rightarrow> None)"

definition firmware_in :: "string \<Rightarrow> string \<Rightarrow> pvalue \<Rightarrow> bytes option" where
  "firmware_in device build bucket =
     (case dict_get ''MobileDeviceSoftwareVersions'' bucket of
        None \<Rightarrow> None
      | Some mobile_versions \<Rightarrow>
     (case dict_get device mobile_versions of
        None \<Rightarrow> None
      | Some device_versions \<Rightarrow>
     (case dict_get build device_versions of
        None \<Rightarrow> None
      | Some build_info \<Rightarrow>
     (case dict_get ''Restore'' build_info of
        None \<Rightarrow> None
      | Some restore_info \<Rightarrow>
     (case dict_get ''FirmwareURL'' restore_info of Some (PvString url) \<Rightarrow> Some url | _ \<Rightarrow> None)))))"

fun first_firmware :: "string \<Rightarrow> string \<Rightarrow> (bytes \<times> pvalue) list \<Rightarrow> bytes option" where
  "first_firmware device build [] = None"
| "first_firmware device build ((_, bucket) # buckets) =
     (case firmware_in device build bucket of Some url \<Rightarrow> Some url | None \<Rightarrow> first_firmware device build buckets)"

text \<open>\<open>get_ipsw_list\<close> answers an error of the network or the parser, or the versions.\<close>

definition fetch_firmware_url :: "string + pvalue \<Rightarrow> string \<Rightarrow> string \<Rightarrow> string + bytes option" where
  "fetch_firmware_url list device build =
     (case list of
        Inl e \<Rightarrow> Inl e
      | Inr (PvDictionary root_dict) \<Rightarrow> Inr (first_firmware device build root_dict)
      | Inr _ \<Rightarrow> Inr None)"

end
