(* ===== verification/Ipsw.thy ===== *)
theory Ipsw
  imports Firmware Vf
begin

text \<open>
  The tool for firmware files (\<open>src/src/tools/ipsw/main.rs\<close>). The network and the archiver are parameters: what they answer. The
  files of the host are a map that takes every write; messages and progress bars are left out.
\<close>

section \<open>The firmware tool\<close>

text \<open>
  An answer of a server: its status, the pieces of its body, and the error that ends it. Files of the host are a map from paths;
  \<open>unzip\<close> gives the exit code.
\<close>

record response =
  rp_success :: bool
  rp_chunks :: "bytes list"
  rp_error :: "string option"

datatype ipsw_error = IpMessage string | IpExit nat | IpFirmware string | IpVf vf_error

type_synonym paths = "bytes \<Rightarrow> bytes option"

record ipsw_env =
  ie_list :: "string + pvalue"
  ie_head :: "bytes \<Rightarrow> string + bool"
  ie_get :: "bytes \<Rightarrow> string + response"
  ie_unzip :: "bytes \<Rightarrow> bytes \<Rightarrow> string + bool"
  ie_crypto :: vf_crypto

datatype ipsw_command =
    Download "bytes option" "string option" "string option" "bytes option"
  | Extract bytes bytes
  | Decrypt bytes bytes bytes

text \<open>\<open>rsplit_once('/')\<close>.\<close>

definition after_slash :: "bytes \<Rightarrow> bytes option" where
  "after_slash url = (if 47 \<in> set url then Some (rev (takeWhile (\<lambda>b. b \<noteq> 47) (rev url))) else None)"

definition output_name :: "bytes \<Rightarrow> bytes option \<Rightarrow> bytes" where
  "output_name url output =
     (case output of
        Some path \<Rightarrow> path
      | None \<Rightarrow> (case after_slash url of Some name \<Rightarrow> name | None \<Rightarrow> plain ''download.ipsw''))"

fun append_chunks :: "'k \<Rightarrow> bytes list \<Rightarrow> ('k \<Rightarrow> bytes option) \<Rightarrow> ('k \<Rightarrow> bytes option)" where
  "append_chunks f [] h = h"
| "append_chunks f (c # cs) h = append_chunks f cs (h(f := Some ((case h f of Some b \<Rightarrow> b | None \<Rightarrow> []) @ c)))"

definition write_body :: "'k \<Rightarrow> bytes list \<Rightarrow> 'e option \<Rightarrow> ('k \<Rightarrow> bytes option, 'e, unit) act" where
  "write_body f cs e = (\<lambda>h.
     let h = append_chunks f cs (h(f := Some [])) in (case e of None \<Rightarrow> Ok () | Some e \<Rightarrow> Err e, h))"

definition download_ipsw :: "ipsw_env \<Rightarrow> bytes \<Rightarrow> bytes option \<Rightarrow> (paths, ipsw_error, unit) act" where
  "download_ipsw env url output =
     (case ie_head env url of
        Inl e \<Rightarrow> fail (IpMessage e)
      | Inr False \<Rightarrow> fail (IpMessage ''Failed to access URL'')
      | Inr True \<Rightarrow>
          (case ie_get env url of
             Inl e \<Rightarrow> fail (IpMessage e)
           | Inr r \<Rightarrow>
               if \<not> rp_success r then fail (IpMessage ''Failed to download'')
               else write_body (output_name url output) (rp_chunks r) (map_option IpMessage (rp_error r))))"

definition choose_url :: "ipsw_env \<Rightarrow> bytes option \<Rightarrow> string option \<Rightarrow> string option \<Rightarrow> ('s, ipsw_error, bytes) act" where
  "choose_url env url device build =
     (case (url, device, build) of
        (Some u, _, _) \<Rightarrow> ret u
      | (None, Some d, Some b) \<Rightarrow>
          (case fetch_firmware_url (ie_list env) d b of
             Inl e \<Rightarrow> fail (IpFirmware e)
           | Inr (Some u) \<Rightarrow> ret u
           | Inr None \<Rightarrow> fail (IpExit 1))
      | _ \<Rightarrow> fail (IpExit 1))"

definition ipsw_main :: "ipsw_env \<Rightarrow> ipsw_command \<Rightarrow> (paths, ipsw_error, unit) act" where
  "ipsw_main env cmd =
     (case cmd of
        Download url device build output \<Rightarrow>
          bnd (choose_url env url device build) (\<lambda>u. download_ipsw env u output)
      | Extract inp output \<Rightarrow>
          (case ie_unzip env inp output of
             Inl e \<Rightarrow> fail (IpMessage e)
           | Inr success \<Rightarrow> if success then ret () else fail (IpExit 1))
      | Decrypt inp output key \<Rightarrow> (\<lambda>h.
          case h inp of
            None \<Rightarrow> (Err (IpMessage ''No such file''), h)
          | Some bs \<Rightarrow>
             (let bs' = (if inp = output then [] else bs) in
              case map_err IpVf (vf_decrypt (ie_crypto env) std_cursor vec_put key (Suc (length bs'))) ((bs', 0), []) of
                (r, (_, t)) \<Rightarrow> (r, h(output := Some t)))))"

end
