(* ===== verification/SetupMain.thy ===== *)
theory SetupMain
  imports Setup Ipsw
begin

text \<open>
  The steps of the tool that prepares the disk (\<open>main\<close> of \<open>src/src/tools/gravity-setup/src/main.rs\<close>): the firmware is found,
  downloaded, unpacked, decrypted and laid out, and a step whose file is there is skipped. The network and the archive (crate
  \<open>zip\<close>) are parameters. The check of the finished image is in \<open>SetupCheck\<close>. Of a failed layout the
  partial image is left out.
\<close>

datatype host_file = Firmware | Encrypted | Rootfs | DiskImage

type_synonym host = "host_file \<Rightarrow> bytes option"

record zip_entry =
  ze_name :: ustring
  ze_size :: nat
  ze_chunks :: "bytes list"
  ze_error :: "std_error option"

record setup_env =
  se_list :: "string + pvalue"
  se_get :: "bytes \<Rightarrow> string + response"
  se_archive :: "bytes \<Rightarrow> string + zip_entry list"
  se_entry :: "bytes \<Rightarrow> nat \<Rightarrow> string option"
  se_crypto :: vf_crypto
  se_shown :: "std_error \<Rightarrow> string"
  se_vf_shown :: "vf_error \<Rightarrow> string"
  se_parse :: "bytes \<Rightarrow> plist option"
  se_inflate :: "bytes \<Rightarrow> bytes option"
  se_partial :: "bytes \<Rightarrow> bytes"
  se_order :: "blkx_chunk list \<Rightarrow> blkx_chunk list"

text \<open>The status of the answer is not looked at.\<close>

definition setup_download :: "setup_env \<Rightarrow> bytes \<Rightarrow> (host, setup_error, unit) act" where
  "setup_download env url =
     (case se_get env url of
        Inl e \<Rightarrow> fail (SDownload e)
      | Inr r \<Rightarrow> write_body Firmware (rp_chunks r) (map_option SDownload (rp_error r)))"

text \<open>An entry of the archive that cannot be opened ends the search.\<close>

definition open_entries :: "setup_env \<Rightarrow> bytes \<Rightarrow> nat \<Rightarrow> ('s, setup_error, unit) act" where
  "open_entries env archive n =
     each_act (\<lambda>i. case se_entry env archive i of Some e \<Rightarrow> fail (SZip e) | None \<Rightarrow> ret ()) [0..<n]"

definition setup_extract :: "setup_env \<Rightarrow> (host, setup_error, unit) act" where
  "setup_extract env = (\<lambda>h.
     case h Firmware of
       None \<Rightarrow> (Err (SOther ''Failed to open IPSW''), h)
     | Some archive \<Rightarrow>
         (case se_archive env archive of
            Inl e \<Rightarrow> fail (SOther (''Failed to open IPSW as ZIP: '' @ e))
          | Inr entries \<Rightarrow>
              bnd (open_entries env archive (length entries)) (\<lambda>_.
              bnd (largest_dmg (map (\<lambda>e. (ze_name e, ze_size e)) entries)) (\<lambda>(i, _, _).
              write_body Encrypted (ze_chunks (entries ! i)) (map_option SIo (ze_error (entries ! i)))))) h)"

definition setup_decrypt :: "setup_env \<Rightarrow> setup_args \<Rightarrow> (host, setup_error, unit) act" where
  "setup_decrypt env args = (\<lambda>h.
     case h Encrypted of
       None \<Rightarrow> (Err (SIo OtherError), h)
     | Some bs \<Rightarrow>
         (case map_err (\<lambda>e. SDecrypt (se_vf_shown env e))
             (vf_decrypt (se_crypto env) std_cursor vec_put (sa_key args) (Suc (length bs))) ((bs, 0), []) of
            (r, (_, t)) \<Rightarrow> (r, h(Rootfs := Some t))))"

definition setup_layout :: "setup_env \<Rightarrow> setup_args \<Rightarrow> (host, setup_error, unit) act" where
  "setup_layout env args = (\<lambda>h.
     case h Rootfs of
       None \<Rightarrow> (Err (SDmg (se_shown env OtherError)), h)
     | Some dmg \<Rightarrow>
         (case create_disk_image (se_shown env) std_cursor (se_parse env) (se_inflate env) (se_partial env) (se_order env) dmg args (dmg, 0) of
            (Ok img, _) \<Rightarrow> (Ok (), h(DiskImage := Some img))
          | (Err e, _) \<Rightarrow> (Err e, h)
          | (Panic, _) \<Rightarrow> (Panic, h)
          | (Loop, _) \<Rightarrow> (Loop, h)))"

definition unless_there :: "host_file \<Rightarrow> (host, 'e, unit) act \<Rightarrow> (host, 'e, unit) act" where
  "unless_there f step = (\<lambda>h. if h f = None then step h else (Ok (), h))"

definition setup_main :: "setup_env \<Rightarrow> setup_args \<Rightarrow> (host, setup_error, unit) act" where
  "setup_main env args =
     (case fetch_firmware_url (se_list env) (sa_device args) (sa_build args) of
        Inl e \<Rightarrow> fail (SDownload e)
      | Inr None \<Rightarrow> fail (SOther ''Firmware not found'')
      | Inr (Some ipsw_url) \<Rightarrow>
          bnd (unless_there Firmware (setup_download env ipsw_url)) (\<lambda>_.
          bnd (unless_there Encrypted (setup_extract env)) (\<lambda>_.
          bnd (unless_there Rootfs (setup_decrypt env args)) (\<lambda>_.
          setup_layout env args))))"

end
