(* ===== verification/ToolProps.thy ===== *)
theory ToolProps
  imports Linker SetupMain SetupProps VfProps
begin

text \<open>The properties of the tools.\<close>

section \<open>The linker wrapper\<close>

text \<open>
  Arguments in groups: a plain one is passed on, a dropped one is not, a renamed one is passed on under another name, and one with a value is
  dropped together with it. The three flags of the last kind that have no value take the next argument with them.
\<close>

datatype link_arg = Plain string | Dropped string | Renamed bool | WithValue string string

definition link_arg_ok :: "link_arg \<Rightarrow> bool" where
  "link_arg_ok a = (case a of
     Plain s \<Rightarrow> s \<notin> set IGNORED_ARGS \<and> s \<notin> set SKIPPING_ARGS \<and> s \<noteq> ''-Bstatic'' \<and> s \<noteq> ''-Bdynamic'' \<and> \<not> prefix ''-fuse-ld='' s
   | Dropped s \<Rightarrow> s \<in> set IGNORED_ARGS \<or> prefix ''-fuse-ld='' s
   | Renamed _ \<Rightarrow> True
   | WithValue s _ \<Rightarrow> s \<in> set SKIPPING_ARGS)"

fun given :: "link_arg \<Rightarrow> string list" where
  "given (Plain s) = [s]"
| "given (Dropped s) = [s]"
| "given (Renamed static) = [if static then ''-Bstatic'' else ''-Bdynamic'']"
| "given (WithValue s v) = [s, v]"

fun passed :: "link_arg \<Rightarrow> string list" where
  "passed (Plain s) = [s]"
| "passed (Dropped s) = []"
| "passed (Renamed static) = [if static then ''-static'' else ''-dynamic'']"
| "passed (WithValue s v) = []"

lemma apart:
  "list_all (\<lambda>s. s \<notin> set IGNORED_ARGS \<and> \<not> prefix ''-fuse-ld='' s) (''-Bstatic'' # ''-Bdynamic'' # SKIPPING_ARGS)"
  "''-Bstatic'' \<notin> set SKIPPING_ARGS" "''-Bdynamic'' \<notin> set SKIPPING_ARGS" "''-Bdynamic'' \<noteq> ''-Bstatic''"
  by code_simp+

lemma one_group:
  assumes "link_arg_ok a"
  shows "macho_args False (given a @ args) = passed a @ macho_args False args"
proof (cases a)
  case (Plain s)
  then show ?thesis using assms by (simp add: link_arg_ok_def)
next
  case (Dropped s)
  then have "s \<in> set IGNORED_ARGS \<or> (prefix ''-fuse-ld='' s \<and> s \<notin> set SKIPPING_ARGS \<and> s \<noteq> ''-Bstatic'' \<and> s \<noteq> ''-Bdynamic'')"
    using assms apart(1) unfolding link_arg_ok_def by (auto simp only: link_arg.case list_all_iff list.set)
  then show ?thesis unfolding Dropped by (simp only: given.simps passed.simps append_Cons append_Nil macho_args.simps(3)) auto
next
  case (Renamed st)
  then show ?thesis using apart
    by (cases st) (simp_all only: given.simps passed.simps append_Cons append_Nil macho_args.simps(3) list.pred_inject if_True if_False simp_thms)
next
  case (WithValue s v)
  then have "s \<in> set SKIPPING_ARGS" "s \<notin> set IGNORED_ARGS"
    using assms apart(1) unfolding link_arg_ok_def by (auto simp only: link_arg.case list_all_iff list.set)
  then show ?thesis unfolding WithValue by simp
qed

lemma macho_args_groups: "\<forall>a \<in> set as. link_arg_ok a \<Longrightarrow> macho_args False (concat (map given as)) = concat (map passed as)"
  by (induction as) (simp_all add: one_group)

section \<open>The steps of the setup\<close>

lemma append_chunks_ok: "h f = Some b \<Longrightarrow> append_chunks f cs h = h(f := Some (b @ concat cs))"
  by (induction cs arbitrary: h b) auto

lemma write_body_ok: "write_body f cs e h = (case e of None \<Rightarrow> Ok () | Some e \<Rightarrow> Err e, h(f := Some (concat cs)))"
  by (simp add: write_body_def Let_def append_chunks_ok [of _ _ "[]"])

lemma open_entries_ok: "\<forall>i < n. se_entry env archive i = None \<Longrightarrow> open_entries env archive n = (ret () :: ('s, setup_error, unit) act)"
proof -
  have e: "\<forall>i \<in> set xs. se_entry env archive i = None \<Longrightarrow>
      each_act (\<lambda>i. case se_entry env archive i of Some e \<Rightarrow> fail (SZip e) | None \<Rightarrow> ret ()) xs = (ret () :: ('s, setup_error, unit) act)" for xs
    by (induction xs) auto
  assume "\<forall>i < n. se_entry env archive i = None"
  then show "open_entries env archive n = (ret () :: ('s, setup_error, unit) act)" unfolding open_entries_def by (intro e) simp
qed

text \<open>Only the download asks the network for the firmware.\<close>

lemma env_get:
  "se_list (env\<lparr>se_get := g\<rparr>) = se_list env" "se_archive (env\<lparr>se_get := g\<rparr>) = se_archive env"
  "se_entry (env\<lparr>se_get := g\<rparr>) = se_entry env" "se_crypto (env\<lparr>se_get := g\<rparr>) = se_crypto env"
  "se_shown (env\<lparr>se_get := g\<rparr>) = se_shown env" "se_vf_shown (env\<lparr>se_get := g\<rparr>) = se_vf_shown env"
  "se_parse (env\<lparr>se_get := g\<rparr>) = se_parse env" "se_inflate (env\<lparr>se_get := g\<rparr>) = se_inflate env"
  "se_partial (env\<lparr>se_get := g\<rparr>) = se_partial env" "se_order (env\<lparr>se_get := g\<rparr>) = se_order env"
  by simp_all

lemma get_only_downloads:
  "setup_extract (env\<lparr>se_get := g\<rparr>) = setup_extract env" "setup_decrypt (env\<lparr>se_get := g\<rparr>) = setup_decrypt env"
  "setup_layout (env\<lparr>se_get := g\<rparr>) = setup_layout env"
  unfolding setup_extract_def setup_decrypt_def setup_layout_def open_entries_def env_get by (rule refl)+

text \<open>The largest image of an archive is the first of the greatest size.\<close>

lemma largest_from_rest:
  "(\<And>j name' n'. j < length es \<Longrightarrow> es ! j = (name', n') \<Longrightarrow> ends_with name' DMG_SUFFIX \<Longrightarrow> n' \<le> n) \<Longrightarrow>
   largest_from es k (bi, bn, n) = (bi, bn, n)"
proof (induction es arbitrary: k)
  case Nil
  then show ?case by simp
next
  case (Cons e es)
  obtain en es' where e: "e = (en, es')" by (cases e)
  have "ends_with en DMG_SUFFIX \<Longrightarrow> es' \<le> n" using Cons.prems [of 0 en es'] e by simp
  moreover have "largest_from es (k + 1) (bi, bn, n) = (bi, bn, n)"
  proof (rule Cons.IH)
    show "n' \<le> n" if "j < length es" "es ! j = (name', n')" "ends_with name' DMG_SUFFIX" for j name' n'
      using Cons.prems [of "Suc j" name' n'] that by simp
  qed
  ultimately show ?case by (auto simp: e)
qed

lemma largest_from_ok:
  "i < length es \<Longrightarrow> es ! i = (name, n) \<Longrightarrow> ends_with name DMG_SUFFIX \<Longrightarrow> bs < n \<Longrightarrow>
   (\<And>j name' n'. j < length es \<Longrightarrow> es ! j = (name', n') \<Longrightarrow> ends_with name' DMG_SUFFIX \<Longrightarrow> n' \<le> n \<and> (j < i \<longrightarrow> n' < n)) \<Longrightarrow>
   largest_from es k (bi, bn, bs) = (k + i, name, n)"
proof (induction es arbitrary: i k bi bn bs)
  case Nil
  then show ?case by simp
next
  case (Cons e es)
  obtain en es' where e: "e = (en, es')" by (cases e)
  show ?case
  proof (cases i)
    case 0
    have "largest_from es (k + 1) (k, name, n) = (k, name, n)"
      using Cons.prems(5) by (intro largest_from_rest) (force simp: 0)
    then show ?thesis using Cons.prems 0 by simp
  next
    case (Suc j)
    let ?b = "if ends_with en DMG_SUFFIX \<and> bs < es' then (k, en, es') else (bi, bn, bs)"
    obtain ci cn cs where b: "?b = (ci, cn, cs)" by (cases ?b)
    have "ends_with en DMG_SUFFIX \<Longrightarrow> es' < n" using Cons.prems(5) [of 0 en es'] e Suc by simp
    then have "cs < n" using b Cons.prems(4) by (auto split: if_splits)
    have "largest_from es (k + 1) (ci, cn, cs) = (k + 1 + j, name, n)"
    proof (rule Cons.IH)
      show "j < length es" "es ! j = (name, n)" using Cons.prems(1,2) Suc by simp_all
      show "n' \<le> n \<and> (j' < j \<longrightarrow> n' < n)" if "j' < length es" "es ! j' = (name', n')" "ends_with name' DMG_SUFFIX" for j' name' n'
        using Cons.prems(5) [of "Suc j'" name' n'] that Suc by simp
    qed fact+
    then show ?thesis using b by (simp add: e Suc)
  qed
qed

text \<open>C39: from an empty directory, with a firmware that is listed and downloaded completely, the tool takes the largest image out of the
  archive, the first of several, decrypts it, lays it out, and leaves the four files; a run that finds all but the last again needs
  none of the parameters but the list.\<close>

theorem setup_from_scratch:
  assumes "fetch_firmware_url (se_list env) (sa_device args) (sa_build args) = Inr (Some url)"
    and "se_get env url = Inr r" and "rp_error r = None"
    and "se_archive env (concat (rp_chunks r)) = Inr es" and "\<forall>j < length es. se_entry env (concat (rp_chunks r)) j = None"
    and "i < length es" and "ends_with (ze_name (es ! i)) DMG_SUFFIX" and "0 < ze_size (es ! i)" and "ze_error (es ! i) = None"
    and "\<And>j. j < length es \<Longrightarrow> ends_with (ze_name (es ! j)) DMG_SUFFIX \<Longrightarrow> ze_size (es ! j) \<le> ze_size (es ! i) \<and> (j < i \<longrightarrow> ze_size (es ! j) < ze_size (es ! i))"
    and "enc = concat (ze_chunks (es ! i))"
    and "vf_decrypt (se_crypto env) std_cursor vec_put (sa_key args) (Suc (length enc)) ((enc, 0), []) = (Ok (), (s, dmg))"
    and "create_disk_image (se_shown env) std_cursor (se_parse env) (se_inflate env) (se_partial env) (se_order env) dmg args (dmg, 0) = (Ok img, s')"
  shows "setup_main env args (\<lambda>_. None) =
    (Ok (), [Firmware \<mapsto> concat (rp_chunks r), Encrypted \<mapsto> enc, Rootfs \<mapsto> dmg, DiskImage \<mapsto> img])"
proof -
  let ?zip = "concat (rp_chunks r)" and ?es = "map (\<lambda>e. (ze_name e, ze_size e)) es"
  have "largest_from ?es 0 (0, [], 0) = (0 + i, ze_name (es ! i), ze_size (es ! i))"
    by (rule largest_from_ok) (use assms(6-8,10) in auto)
  then have l: "largest_dmg ?es = ret (i, ze_name (es ! i), ze_size (es ! i))" using assms(8) by (simp add: largest_dmg_def)
  have 1: "setup_download env url (\<lambda>_. None) = (Ok (), [Firmware \<mapsto> ?zip])"
    using assms(2,3) by (simp add: setup_download_def write_body_ok)
  have 2: "setup_extract env [Firmware \<mapsto> ?zip] = (Ok (), [Firmware \<mapsto> ?zip, Encrypted \<mapsto> enc])"
    using assms(4,9,11) by (simp add: setup_extract_def open_entries_ok [OF assms(5)] l write_body_ok)
  have 3: "setup_decrypt env args [Firmware \<mapsto> ?zip, Encrypted \<mapsto> enc] = (Ok (), [Firmware \<mapsto> ?zip, Encrypted \<mapsto> enc, Rootfs \<mapsto> dmg])"
    using assms(12) by (simp add: setup_decrypt_def map_err_def)
  have 4: "setup_layout env args [Firmware \<mapsto> ?zip, Encrypted \<mapsto> enc, Rootfs \<mapsto> dmg] =
      (Ok (), [Firmware \<mapsto> ?zip, Encrypted \<mapsto> enc, Rootfs \<mapsto> dmg, DiskImage \<mapsto> img])"
    using assms(13) by (simp add: setup_layout_def)
  show ?thesis using 1 2 3 4 assms(1) by (simp add: setup_main_def unless_there_def bnd_def)
qed

text \<open>C40: a download that breaks off makes the run fail, but leaves what has arrived under the name of the firmware; the next run,
  whatever the network then answers, takes it for the whole firmware: it does exactly what a first run does
  whose download is complete with those bytes.\<close>

theorem interrupted_download_kept:
  assumes "fetch_firmware_url (se_list env) (sa_device args) (sa_build args) = Inr (Some url)"
    and "se_get env url = Inr r" and "rp_error r = Some e"
  shows "\<exists>h. setup_main env args (\<lambda>_. None) = (Err (SDownload e), h) \<and>
    setup_main (env\<lparr>se_get := get\<rparr>) args h =
      setup_main (env\<lparr>se_get := \<lambda>_. Inr (r\<lparr>rp_error := None\<rparr>)\<rparr>) args (\<lambda>_. None)"
proof -
  let ?h = "[Firmware \<mapsto> concat (rp_chunks r)]"
  have 1: "setup_download env url (\<lambda>_. None) = (Err (SDownload e), ?h)"
    using assms(2,3) by (simp add: setup_download_def write_body_ok)
  then have "setup_main env args (\<lambda>_. None) = (Err (SDownload e), ?h)"
    using assms(1) by (simp add: setup_main_def unless_there_def bnd_def)
  moreover have "setup_download (env\<lparr>se_get := \<lambda>_. Inr (r\<lparr>rp_error := None\<rparr>)\<rparr>) url (\<lambda>_. None) = (Ok (), ?h)"
    by (simp add: setup_download_def write_body_ok)
  ultimately show ?thesis using assms(1) by (intro exI [of _ ?h]) (simp add: setup_main_def unless_there_def bnd_def get_only_downloads)
qed

section \<open>Witnesses\<close>

text \<open>The image of \<open>SetupProps\<close>, encrypted in one block by a cipher that changes nothing, in an archive of two entries.\<close>

definition tool_crypto :: vf_crypto where
  "tool_crypto = sample_crypto\<lparr>vc_aes := (\<lambda>_ _. Inr Inr)\<rparr>"

definition tool_image :: bytes where
  "tool_image = ENCRCDSA @ replicate 44 0 @ to_be (2560 :: u32) @ to_be (2560 :: u64) @ to_be (832 :: u64) @ replicate 760 0 @ setup_dmg"

lemma length_setup_dmg: "length setup_dmg = 2560"
proof -
  have "koly_ok (koly_new (replicate 16 0) 2048 4 2048 0 0 0)" by simp
  then show ?thesis by (simp add: setup_dmg_def setup_dmg_facts(1) length_koly_layout)
qed

lemma length_tool_image: "length tool_image = 3392"
  by (simp add: tool_image_def length_vf_sample_image(1) length_setup_dmg)

lemma tool_v2: "v2_image tool_image 2560 2560 832" "drop 832 tool_image = setup_dmg"
proof -
  have "h2_blocksize (v2_of (take 832 tool_image)) = 2560" "h2_datasize (v2_of (take 832 tool_image)) = 2560"
    "h2_dataoffset (v2_of (take 832 tool_image)) = 832"
    by (simp_all add: v2_of_def field_def tool_image_def length_vf_sample_image(1) from_be_to_be)
  moreover have "take 8 tool_image = ENCRCDSA" by (simp add: tool_image_def length_vf_sample_image(1))
  ultimately show "v2_image tool_image 2560 2560 832" by (simp add: v2_image_def V2_SIZE_def length_tool_image)
  show "drop 832 tool_image = setup_dmg" by (simp add: tool_image_def length_vf_sample_image(1))
qed

lemma tool_decrypts:
  "\<exists>s. vf_decrypt tool_crypto std_cursor vec_put (replicate 72 48) (Suc (length tool_image)) ((tool_image, 0), []) = (Ok (), (s, setup_dmg))"
proof -
  have c: "crypto_ok tool_crypto (replicate 16 0) (replicate 20 0) (\<lambda>_. replicate 20 0) (\<lambda>_ d. d)"
    by (simp add: crypto_ok_def tool_crypto_def sample_crypto_def)
  have r: "std_cursor_ready tool_image (tool_image, 0) 0" by (simp add: std_cursor_ready_def length_tool_image)
  have p: "plain_chunks (\<lambda>_. replicate 20 0) (\<lambda>_ d. d) 0 (pieces 2560 setup_dmg) = setup_dmg"
    by (subst pieces.simps) (simp add: length_setup_dmg plain_chunk_def pieces.simps [of _ "[]"])
  show ?thesis
    using std_disk.vf_decrypt_ok [OF std_cursor_disk.std_disk_axioms r tool_v2(1) _ sample_key c _ _ vec_out.std_sink_axioms, of "Suc (length tool_image)" "[]"]
    by (auto simp: length_tool_image tool_v2(2) length_setup_dmg p div_ceil_def)
qed

definition tool_env :: setup_env where
  "tool_env = \<lparr>
     se_list = Inr (PvDictionary [(plain ''1'', PvDictionary [(plain ''MobileDeviceSoftwareVersions'',
       PvDictionary [(plain ''iPhone1,1'', PvDictionary [(plain ''1A543a'', PvDictionary [(plain ''Restore'',
         PvDictionary [(plain ''FirmwareURL'', PvString [120])])])])])])]),
     se_get = (\<lambda>_. Inr \<lparr>rp_success = True, rp_chunks = [[1, 2], [3]], rp_error = None\<rparr>),
     se_archive = (\<lambda>_. Inr [\<lparr>ze_name = map of_char ''a.txt'', ze_size = 9000, ze_chunks = [], ze_error = None\<rparr>,
       \<lparr>ze_name = DMG_SUFFIX, ze_size = 3392, ze_chunks = [take 100 tool_image, drop 100 tool_image], ze_error = None\<rparr>]),
     se_entry = (\<lambda>_ _. None), se_crypto = tool_crypto, se_shown = (\<lambda>_. []), se_vf_shown = (\<lambda>_. []),
     se_parse = (\<lambda>_. Some \<lparr>pl_blkx = [part_of 0 [] setup_table], pl_plst = []\<rparr>), se_inflate = (\<lambda>_. None), se_partial = (\<lambda>_. []),
     se_order = rev\<rparr>"

definition tool_args :: setup_args where
  "tool_args = \<lparr>sa_device = ''iPhone1,1'', sa_build = ''1A543a'', sa_key = replicate 72 48, sa_size_mb = 2, sa_rootfs_offset_mb = 1\<rparr>"

lemma tool_layout:
  "\<exists>img s'. create_disk_image (\<lambda>_. []) std_cursor (se_parse tool_env) (\<lambda>_. None) (\<lambda>_. []) rev setup_dmg tool_args (setup_dmg, 0) = (Ok img, s')"
proof -
  let ?x = "\<lparr>pl_blkx = [part_of 0 [] setup_table], pl_plst = []\<rparr>"
  have k: "koly_ok (koly_new (replicate 16 0) 2048 4 2048 0 0 0)" by simp
  have i: "0 < length (pl_blkx ?x)" by simp
  have sz: "sa_rootfs_offset_mb tool_args * 1024 * 1024 + length (concat [setup_sample, []]) \<le> sa_size_mb tool_args * 1024 * 1024"
    "0 < sa_size_mb tool_args * 1024 * 1024" "sa_size_mb tool_args * 1024 * 1024 < 2 ^ 63" by (simp_all add: setup_dmg_facts(1) tool_args_def)
  have "length setup_sample < 2 ^ 62" "length ([] :: bytes) < 2 ^ 61" by (simp_all add: setup_dmg_facts(1))
  from disk_image_ok [where parse = "se_parse tool_env" and x = ?x and shown = "\<lambda>_. []" and partial = "\<lambda>_. []" and order = rev,
      OF setup_dmg_def k _ _ _ this i setup_dmg_facts(2-4) set_rev sz]
  show ?thesis by (auto simp: koly_new_def setup_dmg_facts(1) tool_env_def)
qed

lemma tool_fetch: "fetch_firmware_url (se_list tool_env) (sa_device tool_args) (sa_build tool_args) = Inr (Some [120])"
  unfolding tool_env_def tool_args_def setup_env.select_convs setup_args.select_convs by code_simp

lemma setup_from_scratch_witness:
  "\<exists>img. setup_main tool_env tool_args (\<lambda>_. None) =
    (Ok (), [Firmware \<mapsto> [1, 2, 3], Encrypted \<mapsto> tool_image, Rootfs \<mapsto> setup_dmg, DiskImage \<mapsto> img])"
proof -
  let ?zip = "[1, 2, 3] :: bytes"
  let ?es = "[\<lparr>ze_name = map of_char ''a.txt'', ze_size = 9000, ze_chunks = [], ze_error = None\<rparr>,
       \<lparr>ze_name = DMG_SUFFIX, ze_size = 3392, ze_chunks = [take 100 tool_image, drop 100 tool_image], ze_error = None\<rparr>]"
  let ?r = "\<lparr>rp_success = True, rp_chunks = [[1, 2], [3]], rp_error = None\<rparr>"
  obtain img s' where img: "create_disk_image (\<lambda>_. []) std_cursor (se_parse tool_env) (\<lambda>_. None) (\<lambda>_. []) rev setup_dmg tool_args (setup_dmg, 0) = (Ok img, s')"
    using tool_layout by blast
  obtain s where s: "vf_decrypt tool_crypto std_cursor vec_put (replicate 72 48) (Suc (length tool_image)) ((tool_image, 0), []) = (Ok (), (s, setup_dmg))"
    using tool_decrypts by blast
  have "\<not> ends_with (map of_char ''a.txt'') DMG_SUFFIX" "ends_with DMG_SUFFIX DMG_SUFFIX" by code_simp+
  then have big: "\<And>j. j < length ?es \<Longrightarrow> ends_with (ze_name (?es ! j)) DMG_SUFFIX \<Longrightarrow>
      ze_size (?es ! j) \<le> ze_size (?es ! 1) \<and> (j < 1 \<longrightarrow> ze_size (?es ! j) < ze_size (?es ! 1))"
    "ends_with (ze_name (?es ! 1)) DMG_SUFFIX"
    by (auto simp: less_Suc_eq)
  have "setup_main tool_env tool_args (\<lambda>_. None) =
    (Ok (), [Firmware \<mapsto> concat (rp_chunks ?r), Encrypted \<mapsto> tool_image, Rootfs \<mapsto> setup_dmg, DiskImage \<mapsto> img])"
    by (rule setup_from_scratch [OF tool_fetch, where es = ?es and i = 1]) (use big s img in \<open>simp_all add: tool_env_def tool_args_def\<close>)
  then show ?thesis by auto
qed

lemma interrupted_download_kept_witness:
  "\<exists>h. setup_main (tool_env\<lparr>se_get := \<lambda>_. Inr \<lparr>rp_success = True, rp_chunks = [[1, 2]], rp_error = Some ''reset''\<rparr>\<rparr>) tool_args (\<lambda>_. None) =
      (Err (SDownload ''reset''), h) \<and>
    setup_main tool_env tool_args h =
      setup_main (tool_env\<lparr>se_get := \<lambda>_. Inr \<lparr>rp_success = True, rp_chunks = [[1, 2]], rp_error = None\<rparr>\<rparr>) tool_args (\<lambda>_. None)"
proof -
  let ?env = "tool_env\<lparr>se_get := \<lambda>_. Inr \<lparr>rp_success = True, rp_chunks = [[1, 2]], rp_error = Some ''reset''\<rparr>\<rparr>"
  have "?env\<lparr>se_get := se_get tool_env\<rparr> = tool_env" by simp
  moreover have "fetch_firmware_url (se_list ?env) (sa_device tool_args) (sa_build tool_args) = Inr (Some [120])" using tool_fetch by simp
  ultimately show ?thesis
    using interrupted_download_kept [of ?env tool_args "[120]" "\<lparr>rp_success = True, rp_chunks = [[1, 2]], rp_error = Some ''reset''\<rparr>" "''reset''" "se_get tool_env"]
    by simp
qed

end
