(* ===== verification/SetupCheck.thy ===== *)
theory SetupCheck
  imports SetupMain HfsFs
begin

text \<open>
  The last step of the tool that prepares the disk (\<open>src/src/tools/gravity-setup/src/main.rs\<close>): the finished image is opened as a
  volume from the offset on, and some files are looked for on it. What is printed is the result.
\<close>

datatype file_report =
    FoundFile ustring nat nat "(bytes \<times> (nat \<times> u32) list) option"
  | NotAFile ustring
  | MissingFile ustring hfs_error

text \<open>The loop of reads into the rest of a buffer; each that does not end it takes a byte at least.\<close>

fun read_rest :: "(nat \<Rightarrow> ('s, 'e, bytes) act) \<Rightarrow> nat \<Rightarrow> nat \<Rightarrow> ('s, 'e, bytes) act" where
  "read_rest rd 0 want = (if want = 0 then ret [] else spin)"
| "read_rest rd (Suc fuel) want =
     (if want = 0 then ret []
      else
        bnd (rd want) (\<lambda>bs.
        if bs = [] then ret []
        else bnd (read_rest rd fuel (want - length bs)) (\<lambda>cs. ret (bs @ cs))))"

definition with_loaded :: "fork \<Rightarrow> (fork \<times> 's, 'e, 'a) act \<Rightarrow> ('s volume_state, 'e, 'a) act" where
  "with_loaded fk m = (\<lambda>v. case m (fk, vs_file v) of (r, (_, s)) \<Rightarrow> (r, v\<lparr>vs_file := s\<rparr>))"

definition scan_resource ::
  "'s read_seek \<Rightarrow> inflater \<Rightarrow> volume \<Rightarrow> nat \<Rightarrow> catalog_file \<Rightarrow> ('s volume_state, hfs_error, bytes \<times> (nat \<times> u32) list) act" where
  "scan_resource dev unz vol fuel f =
     bnd (unwrap (volume_fork dev unz vol fuel (cfi_file_id f) 0xFF (cfi_resource_fork f))) (\<lambda>fork.
     let n = unat (fd_logical_size (cfi_resource_fork f)) in
     bnd (with_loaded fork (read_rest (\<lambda>k. unwrap (fork_read dev unz k)) n n)) (\<lambda>got.
     let data = got @ replicate (n - length got) 0
     in ret (take 64 got, find_magics data (length got))))"

definition check_record ::
  "'s read_seek \<Rightarrow> inflater \<Rightarrow> volume \<Rightarrow> nat \<Rightarrow> ustring \<Rightarrow> catalog_record \<Rightarrow> ('s volume_state, hfs_error, file_report) act" where
  "check_record dev unz vol fuel path rec =
     (case cr_body rec of
        BFile f \<Rightarrow>
          (let data_size = unat (fd_logical_size (cfi_data_fork f)); res_size = unat (fd_logical_size (cfi_resource_fork f)) in
           if data_size = 0 \<and> 0 < res_size then
             bnd (scan_resource dev unz vol fuel f) (\<lambda>seen. ret (FoundFile path data_size res_size (Some seen)))
           else ret (FoundFile path data_size res_size None))
      | _ \<Rightarrow> ret (NotAFile path))"

definition check_path ::
  "'s read_seek \<Rightarrow> inflater \<Rightarrow> (ustring \<Rightarrow> ustring) \<Rightarrow> volume \<Rightarrow> nat \<Rightarrow> ustring \<Rightarrow> ('s volume_state, hfs_error, file_report) act" where
  "check_path dev unz nfd vol fuel path = (\<lambda>v.
     case get_path_record dev unz nfd vol fuel path v of
       (Ok rec, v') \<Rightarrow> check_record dev unz vol fuel path rec v'
     | (Err e, v') \<Rightarrow> (Ok (MissingFile path e), v')
     | (Panic, v') \<Rightarrow> (Panic, v')
     | (Loop, v') \<Rightarrow> (Loop, v'))"

definition CHECKED_FILES :: "ustring list" where
  "CHECKED_FILES = map (map of_char)
     [''/sbin/launchd'', ''/usr/lib/dyld'', ''/System/Library/Caches/com.apple.dyld/dyld_shared_cache_armv7'']"

fun check_paths ::
  "'s read_seek \<Rightarrow> inflater \<Rightarrow> (ustring \<Rightarrow> ustring) \<Rightarrow> volume \<Rightarrow> nat \<Rightarrow> ustring list \<Rightarrow> ('s volume_state, hfs_error, file_report list) act" where
  "check_paths dev unz nfd vol fuel [] = ret []"
| "check_paths dev unz nfd vol fuel (path # paths) =
     bnd (check_path dev unz nfd vol fuel path) (\<lambda>r.
     bnd (check_paths dev unz nfd vol fuel paths) (\<lambda>rs. ret (r # rs)))"

definition check_volume ::
  "'s read_seek \<Rightarrow> inflater \<Rightarrow> (ustring \<Rightarrow> ustring) \<Rightarrow> nat \<Rightarrow> ('s, hfs_error, file_report list) act" where
  "check_volume dev unz nfd fuel = (\<lambda>s.
     bnd (volume_load dev unz) (\<lambda>(vol, cfk, efk) s.
     case check_paths dev unz nfd vol fuel CHECKED_FILES \<lparr>vs_catalog = cfk, vs_extents = efk, vs_file = s\<rparr> of
       (r, v) \<Rightarrow> (r, vs_file v)) s)"

definition setup_check ::
  "setup_env \<Rightarrow> (hfs_error \<Rightarrow> string) \<Rightarrow> inflater \<Rightarrow> (ustring \<Rightarrow> ustring) \<Rightarrow> nat \<Rightarrow> setup_args \<Rightarrow> (host, setup_error, file_report list) act" where
  "setup_check env hfs_shown unz nfd fuel args = (\<lambda>h.
     case h DiskImage of
       None \<Rightarrow> (Err (SIo OtherError), h)
     | Some img \<Rightarrow>
         bnd (megabytes (sa_rootfs_offset_mb args)) (\<lambda>off h.
         case check_volume (offset_ops (se_shown env) std_cursor off) unz nfd fuel (img, 0) of
           (Ok rs, _) \<Rightarrow> (Ok rs, h)
         | (Err e, _) \<Rightarrow> (Err (SHfs (hfs_shown e)), h)
         | (Panic, _) \<Rightarrow> (Panic, h)
         | (Loop, _) \<Rightarrow> (Loop, h)) h)"

definition gravity_setup ::
  "setup_env \<Rightarrow> (hfs_error \<Rightarrow> string) \<Rightarrow> inflater \<Rightarrow> (ustring \<Rightarrow> ustring) \<Rightarrow> nat \<Rightarrow> setup_args \<Rightarrow> (host, setup_error, file_report list) act" where
  "gravity_setup env hfs_shown unz nfd fuel args =
     bnd (setup_main env args) (\<lambda>_. setup_check env hfs_shown unz nfd fuel args)"

section \<open>The check of a mounted volume\<close>

text \<open>
  A path whose names lead to a file with data is reported with the sizes of the record, and the volume stays mounted: so the check
  finds every such file of its list, in the order of the list.
\<close>

definition file_report_of :: "ustring \<Rightarrow> catalog_file \<Rightarrow> file_report" where
  "file_report_of path f =
     FoundFile path (unat (fd_logical_size (cfi_data_fork f))) (unat (fd_logical_size (cfi_resource_fork f))) None"

definition holds_file ::
  "(ustring \<Rightarrow> ustring) \<Rightarrow> volume \<Rightarrow> (catalog_key, catalog_record) tree \<Rightarrow> ustring \<Rightarrow> catalog_file \<Rightarrow> bool" where
  "holds_file nfd vol ctr path f \<longleftrightarrow>
     path_parts path \<noteq> [] \<and> 0 < unat (fd_logical_size (cfi_data_fork f)) \<and>
     (\<exists>r. cr_body r = BFile f \<and>
        walk (catalog_order (vol_catalog vol)) (tree_records ctr) 2 (map (\<lambda>p. encode_utf16 (nfd p)) (path_parts path)) r)"

lemma check_path_found:
  assumes "mounted dev content ready bs cexts eexts vol ctr etr fuel v" and "holds_file nfd vol ctr path f"
  shows "\<exists>v'. check_path dev unz nfd vol fuel path v = (Ok (file_report_of path f), v') \<and>
    mounted dev content ready bs cexts eexts vol ctr etr fuel v'"
proof -
  from assms(1) have dsk: "disk dev content ready" and tree: "fork_tree content bs cexts
      (catalog_tree_ops (catalog_order (vol_catalog vol))) (catalog_tree (vol_catalog vol)) ctr fuel"
    and rd: "volume_ready ready bs cexts eexts v" by (auto simp: mounted_def)
  from assms(2) obtain r where r: "cr_body r = BFile f"
    and w: "walk (catalog_order (vol_catalog vol)) (tree_records ctr) 2 (map (\<lambda>p. encode_utf16 (nfd p)) (path_parts path)) r"
    and parts: "path_parts path \<noteq> []" and size: "0 < unat (fd_logical_size (cfi_data_fork f))"
    by (auto simp: holds_file_def)
  from disk.get_path_record_walk [OF dsk tree rd parts, of unz nfd r] w obtain v1
    where v1: "get_path_record dev unz nfd vol fuel path v = (Ok r, v1)" by blast
  have "volume_ready ready bs cexts eexts v1"
    by (rule disk.get_path_record_ready [OF dsk tree rd parts v1])
  then have "mounted dev content ready bs cexts eexts vol ctr etr fuel v1"
    using assms(1) by (auto simp: mounted_def)
  moreover have "check_path dev unz nfd vol fuel path v = (Ok (file_report_of path f), v1)"
    using size by (simp add: check_path_def v1 check_record_def r file_report_of_def ret_def)
  ultimately show ?thesis by blast
qed

lemma check_paths_found:
  assumes "mounted dev content ready bs cexts eexts vol ctr etr fuel v" and "list_all2 (holds_file nfd vol ctr) paths fs"
  shows "\<exists>v'. check_paths dev unz nfd vol fuel paths v = (Ok (map2 file_report_of paths fs), v') \<and>
    mounted dev content ready bs cexts eexts vol ctr etr fuel v'"
  using assms(2,1)
proof (induction arbitrary: v rule: list_all2_induct)
  case Nil
  then show ?case by (simp add: ret_def)
next
  case (Cons path paths f fs)
  from check_path_found [OF Cons.prems Cons.hyps(1)] obtain v1
    where v1: "check_path dev unz nfd vol fuel path v = (Ok (file_report_of path f), v1)"
      "mounted dev content ready bs cexts eexts vol ctr etr fuel v1" by blast
  from Cons.IH [OF v1(2)] obtain v2
    where "check_paths dev unz nfd vol fuel paths v1 = (Ok (map2 file_report_of paths fs), v2)"
      "mounted dev content ready bs cexts eexts vol ctr etr fuel v2" by blast
  with v1(1) show ?case by (simp add: bnd_def ret_def)
qed

end
