(* ===== verification/Spec2Isabelle.thy ===== *)
theory Spec2Isabelle
  imports SyscallProps KMachoProps Mem DmgProps VfProps BootProps SetupProps DyldProps VirtioProps ToolProps SetupCheck
begin

text \<open>
  GravityOS: a verification development in Isabelle/HOL.

  GravityOS is a small AArch64 kernel that runs the user space of an old iOS. It boots, sets up
  translation tables, a heap and a virtio disk, mounts the HFS+ volume on the disk, loads a Mach-O
  program from it and serves the system calls and Mach traps of that program. The file system is a
  library of its own, and so is the dynamic linker of the programs; tools on a host fetch a firmware,
  decrypt it and lay out the disk. This development models all of them, from the encrypted image over the bytes
  of the disk up to the answer of a system call, and proves what the parts promise to each other.

  \<^bold>\<open>Conventions.\<close> A Rust integer of a fixed width is a word of that width; \<open>usize\<close> values that only
  index or count are \<open>nat\<close>. The crates are built in the dev profile, so an arithmetic overflow, a slice or
  an index out of range, an \<open>unwrap\<close> of nothing and a \<open>panic!\<close> are all the result \<open>Panic\<close>. An operation
  is a function from its state to a result and a new state (theory \<open>Prelude\<close>): \<open>Ok\<close> with a value, \<open>Err\<close>
  with an error of the source, \<open>Panic\<close>, or \<open>Loop\<close> when the fuel given for a loop of the source does not
  suffice. Each theorem that a call returns says how much fuel is enough; \<open>Loop\<close> for every fuel
  is how a theorem says that the code does not end. Loops that need no fuel are structural.
  Memory of the heap is unbounded, except for the blocks that system calls take from the allocator.

  \<^bold>\<open>The HFS+ library\<close> (\<open>src/src/lib/hfsplus\<close>).
  \<^item> \<open>Streams\<close>: the loops behind exact reads and complete writes, and what a source, a device and a sink promise
    (the locales \<open>source\<close>, \<open>random_access\<close>, \<open>outlet\<close>), for any type of errors.
  \<^item> \<open>HfsIo\<close>: the traits \<open>Read\<close>, \<open>Write\<close>, \<open>Seek\<close> as records of operations, the big endian readers and
    writers, \<open>Cursor\<close>. The locale \<open>disk\<close> states what a client relies on; it is
    interpreted on the cursor, on the read buffer of the kernel and on the virtio driver.
  \<^item> \<open>HfsDisk\<close>, \<open>HfsCatalog\<close>: the structures of the disk with their import and export, keys and orders.
  \<^item> \<open>HfsStrings\<close>: the folding table and the two orders of names (\<open>hfs_strings.rs\<close>).
  \<^item> \<open>BTree\<close>, \<open>BTreeSearch\<close>, \<open>BTreeNode\<close>: nodes, the tree, the search of one record and of a range, against
    the list of the records of an abstract tree; reading back the layout of a leaf.
  \<^item> \<open>Fork\<close>, \<open>ForkRead\<close>, \<open>ForkCmpf\<close>: extents, the overflow tree, reading, seeking; transparent decompression, for each type of
    compression that a header can have.
  \<^item> \<open>Volume\<close>, \<open>VolumeSearch\<close>: mounting, paths, folders. \<open>HfsSample\<close> is a volume as bytes, on which the
    witnesses of \<open>HfsProps\<close> evaluate.

  \<^bold>\<open>The kernel\<close> (\<open>src/src/kernel/src\<close>).
  \<^item> \<open>Mmu\<close>, \<open>MmuSpec\<close>, \<open>MmuMap\<close>, \<open>MmuInit\<close>, \<open>MmuProps\<close> (\<open>mmu.rs\<close>): the translation tables as tables of
    words, the walk of the hardware as \<open>translate\<close>, \<open>map_range\<close> as an update of the translation and what it takes from the pool of
    tables, the address space that \<open>init\<close> builds, with the comm page at any address, aligned or not.
  \<^item> \<open>Virtio\<close> (\<open>virtio.rs\<close>, \<open>block.rs\<close>): the descriptor ring, requests, sector and byte reads.
  \<^item> \<open>VirtioInit\<close>, \<open>VirtioInitSpec\<close>, \<open>VirtioProps\<close> (\<open>virtio.rs\<close>): the configuration space, the capabilities, the windows, the
    negotiation and the queue. The locale \<open>virtio_platform\<close> states what the specifications of PCI and virtio say of one base address
    register and of the registers behind it; of the other registers it says nothing. A reset is taken to be complete at once.
  \<^item> \<open>HfsFs\<close>, \<open>HfsFsSpec\<close>, \<open>HfsFsProps\<close> (\<open>hfsfs.rs\<close>): the stream over the device, the read buffer, opening and reading
    a file of the volume, composed with the library above and the driver below.
  \<^item> \<open>Utf8\<close>, \<open>Vfs\<close> (\<open>vfs.rs\<close>): \<open>str::from_utf8\<close>, open files, the random device.
  \<^item> \<open>KMem\<close>: the accesses of the kernel to mapped memory; buffers and their content.
  \<^item> \<open>Ipc\<close>, \<open>IpcProps\<close> (\<open>ipc.rs\<close>): port spaces, \<open>mach_msg\<close>, the replies of the host port.
  \<^item> \<open>Sched\<close> (\<open>scheduler.rs\<close>, \<open>switch.s\<close>): processes, the ready queue, the switch of contexts.
  \<^item> \<open>Kernel\<close>, \<open>Syscalls\<close>, \<open>Traps\<close> (\<open>process.rs\<close>): the state of the kernel as one record, every BSD system
    call and Mach trap, the handler of synchronous exceptions.
  \<^item> \<open>KernelInv\<close>, \<open>KernelProps\<close>: the invariant of the kernel state, over runs in which user programs change memory and
    registers as they like; the budget of traps; the rotation of processes.
  \<^item> \<open>SyscallSpec\<close>, \<open>SyscallProps\<close>: what \<open>open\<close>, \<open>read\<close>, \<open>mmap\<close> and the indirect call do, on top of the properties
    of the file system and of the tables; the convention of the answers.
  \<^item> \<open>KMacho\<close>, \<open>KMachoSpec\<close>, \<open>KMachoProps\<close> (\<open>macho.rs\<close>): segments, the choice of an architecture, the initial stack.
  \<^item> \<open>Mem\<close> (\<open>mem.rs\<close>): the C memory functions on a flat memory.
  \<^item> \<open>Boot\<close>, \<open>BootSpec\<close>, \<open>BootProps\<close> (\<open>main.rs\<close>, \<open>switch.s\<close>): the comm page, reading and loading the first program and its linker,
    its stack, the page of its thread, the entry into user mode; the state that is left satisfies the invariant of \<open>KernelInv\<close>.

  \<^bold>\<open>Disk images\<close> (\<open>src/src/lib/apple-dmg\<close>), for the tools that prepare the disk on a host.
  \<^item> \<open>StdIo\<close>: what the host tools use of \<open>std::io\<close>, on the loops and locales of \<open>Streams\<close>.
  \<^item> \<open>Mbr\<close> (\<open>mbr.rs\<close>), \<open>Udif\<close> (\<open>koly.rs\<close>, \<open>blkx.rs\<close>): the boot record, the trailer and the tables of chunks, with their layouts.
  \<^item> \<open>Dmg\<close>, \<open>DmgWriter\<close> (\<open>lib.rs\<close>, \<open>xml.rs\<close>): the reader of an image, the reader of a partition with its cache, the writer.
  \<^item> \<open>DmgSpec\<close>, \<open>DmgRead\<close>, \<open>DmgProps\<close>: chunks as they lie in the file; what is written is read back; a partition whose chunks are
    of the kinds that the reader knows (zlib, raw, zero, ignored, comment; the others are a panic) is a \<open>disk\<close> in the sense of
    \<open>HfsIo\<close>, so what is proved of volumes holds of a volume in a partition.

  \<^bold>\<open>Encrypted images\<close> (\<open>src/src/lib/vfdecrypt\<close>). \<open>Vf\<close>: headers, keys, decryption in batches, the reader. \<open>VfSpec\<close>, \<open>VfProps\<close>:
    decryption into a file gives the plaintext of the blocks; the reader is a \<open>source\<close> in the sense of \<open>Streams\<close> of the plaintext of
    what its input answers, with short reads too. The two agree when the input fills its reads and the data are whole cipher blocks.

  \<^bold>\<open>The dynamic linker\<close> (\<open>src/src/lib/dyld/src\<close>), on the memory of \<open>Mem\<close>. \<open>Dyld\<close>: the variable length numbers, the programs that
    rebase and bind, the shared cache, the start up to the jump. \<open>DyldSpec\<close>, \<open>DyldProps\<close>: lists of bindings are
    encoded as programs of the Mach-O format, lists of rebasings in the numbering of the opcodes that the code has, and running these does
    what the lists say; a rebasing in the encoding of the format does nothing. The search of the cache is a lookup in its table.

  \<^bold>\<open>The tools.\<close>
  \<^item> \<open>Setup\<close>, \<open>SetupSpec\<close>, \<open>SetupProps\<close> (\<open>src/src/tools/gravity-setup\<close>): the partition with the file system, and the disk image in which it
    lies at an offset, whatever the order of the threads, with zeros for chunks that are neither raw nor zlib; seen through
    \<open>OffsetFile\<close> it is a \<open>disk\<close>.
  \<^item> \<open>Firmware\<close> (\<open>src/src/lib/ipsw-downloader\<close>), \<open>Ipsw\<close> (\<open>src/src/tools/ipsw\<close>), \<open>Linker\<close> (\<open>src/src/tools/linker-wrapper\<close>): the list
    of firmwares, the commands on them, the command line of the linker.
  \<^item> \<open>SetupMain\<close>, \<open>ToolProps\<close>: the steps of \<open>gravity-setup\<close> over the files of the host, what a run from scratch leaves, and
    what the next run makes of an interrupted one. \<open>SetupCheck\<close>: the last step, which opens the image as a volume and looks for
    some files; on a mounted volume it finds each file that the names of its path lead to.

  \<^bold>\<open>Parameters.\<close> Code that is not in the repository is an argument of the definitions: the
  decomposition of names (\<open>unicode-normalization\<close>, \<open>nfd\<close>), the inflater of \<open>zlib_rs\<close>, \<open>flate2\<close>, \<open>crc32fast\<close>, the XML of \<open>plist\<close>,
  the ciphers and digests of \<open>vfdecrypt\<close>, the generator of \<open>rand_chacha\<close>, the heap allocator, the Mach-O parser \<open>goblin\<close>, the PCI bus and the virtio device (what it reads as, what it
  writes for a request), the network, the archives of \<open>zip\<close>, the linker that the wrapper runs, the addresses that the linker gives to the page tables (\<open>table_layout\<close>), the timer and the kernel stacks.

  \<^bold>\<open>Simplifications.\<close> The page tables are kept apart from the rest of memory, and the TLB is taken to be in
  sync with them; device registers are not memory cells. Pointers to words are taken to be aligned. The
  bytes that a failed read leaves in a buffer are not modelled, and the address that the driver hands to the
  device is taken as translated. The kernel log is left out, except for what \<open>sys_write\<close> prints.

  \<^bold>\<open>Bounds and fuel.\<close> An indirect system call takes at most \<open>INDIRECT_FUEL\<close> = 6 rounds or never ends
  (\<open>indirect_call_ends\<close>); a search of a tree takes fuel for its height and leaves, a read of a file one round for each 4096 bytes
  and one more, each stated in its theorem. A program of the dynamic linker takes a byte for each opcode, so its length is enough
  (\<open>bindings_run\<close>); a list of capabilities has at most 255 places (\<open>caps_fuel\<close>); a decryption takes a batch for each byte at most.

  \<^bold>\<open>Not modelled.\<close> Of the kernel \<open>uart.rs\<close> and \<open>heap.rs\<close> (a register, a call of the allocator), \<open>boot.s\<close> and \<open>vectors.s\<close>, and the
  effect of the cache instructions, of which only the addresses are. Of \<open>apple-dmg\<close> the function that fills a FAT file system from a
  directory of the host (crate \<open>fatfs\<close>).
  Command lines (crate \<open>clap\<close>), progress bars and messages; failures of the file system of the host.
\<close>

end
